(* ===== verification/Prelude.thy ===== *)
theory Prelude
  imports Main "HOL-Library.List_Lexorder" "HOL-Library.Multiset" "HOL-Library.AList"
begin

text \<open>
  Shared vocabulary of the development: Python strings as lists of code points, byte
  strings, exceptions as values, the result type of fallible operations, and the generic
  lemmas on lists and association lists that the component theories use.
\<close>

section \<open>Strings and bytes\<close>

text \<open>
  A Python \<open>str\<close> is a sequence of Unicode code points and \<open>len\<close> counts code points, so it is
  modelled as a list of naturals; the library's lexicographic order on lists is Python's
  order on strings. A \<open>bytes\<close> value is the list of its bytes. \<open>lit\<close> turns an Isabelle
  string literal into a Python string, so that the source's literals can be written as
  they are.
\<close>

type_synonym pystr = "nat list"
type_synonym bytes = "nat list"

definition lit :: "string \<Rightarrow> pystr" where
  "lit s = map of_char s"

lemma lit_inject [simp]: "lit s = lit t \<longleftrightarrow> s = t"
  by (simp add: lit_def inj_map_eq_map inj_on_def)

lemma lit_empty [simp]: "lit s = [] \<longleftrightarrow> s = []" "[] = lit s \<longleftrightarrow> s = []"
  by (auto simp: lit_def)

lemma length_lit [simp]: "length (lit s) = length s"
  by (simp add: lit_def)

text \<open>
  \<open>s.encode()\<close>: the UTF-8 encoding of a code point. The length of the
  encoding is what the byte budgets of the program count.
\<close>

definition utf8_cp :: "nat \<Rightarrow> bytes" where
  "utf8_cp c = (if c < 128 then [c]
     else if c < 2048 then [192 + c div 64, 128 + c mod 64]
     else if c < 65536 then [224 + c div 4096, 128 + (c div 64) mod 64, 128 + c mod 64]
     else [240 + c div 262144, 128 + (c div 4096) mod 64, 128 + (c div 64) mod 64, 128 + c mod 64])"

definition utf8 :: "pystr \<Rightarrow> bytes" where
  "utf8 s = concat (map utf8_cp s)"

lemma utf8_Nil [simp]: "utf8 [] = []"
  by (simp add: utf8_def)

lemma utf8_Cons [simp]: "utf8 (c # s) = utf8_cp c @ utf8 s"
  by (simp add: utf8_def)

lemma utf8_append [simp]: "utf8 (s @ t) = utf8 s @ utf8 t"
  by (simp add: utf8_def)

lemma utf8_cp_nonempty [simp]: "utf8_cp c \<noteq> []"
  by (simp add: utf8_cp_def)

lemma length_utf8_ge: "length s \<le> length (utf8 s)"
proof (induction s)
  case (Cons c s)
  have "1 \<le> length (utf8_cp c)" by (cases "utf8_cp c") (simp_all add: Suc_le_eq)
  with Cons show ?case by simp
qed simp

text \<open>The encoding of a string determines the string: the lead byte gives the width.\<close>

lemma utf8_cp_width:
  "length (utf8_cp c) = (if c < 128 then 1 else if c < 2048 then 2 else if c < 65536 then 3 else 4)"
  by (simp add: utf8_cp_def)

lemma hd_utf8_cp:
  "hd (utf8_cp c) = (if c < 128 then c else if c < 2048 then 192 + c div 64
     else if c < 65536 then 224 + c div 4096 else 240 + c div 262144)"
  by (simp add: utf8_cp_def)

lemma hd_utf8_cp_range:
  "c < 128 \<Longrightarrow> hd (utf8_cp c) < 128"
  "128 \<le> c \<Longrightarrow> c < 2048 \<Longrightarrow> hd (utf8_cp c) \<in> {192..<224}"
  "2048 \<le> c \<Longrightarrow> c < 65536 \<Longrightarrow> hd (utf8_cp c) \<in> {224..<240}"
  "65536 \<le> c \<Longrightarrow> hd (utf8_cp c) \<ge> 240"
  by (simp_all add: hd_utf8_cp div_less_iff_less_mult)

definition utf8_val :: "bytes \<Rightarrow> nat" where
  "utf8_val bs = (case bs of [a] \<Rightarrow> a
     | [a, b] \<Rightarrow> (a - 192) * 64 + (b - 128)
     | [a, b, c] \<Rightarrow> ((a - 224) * 64 + (b - 128)) * 64 + (c - 128)
     | [a, b, c, d] \<Rightarrow> (((a - 240) * 64 + (b - 128)) * 64 + (c - 128)) * 64 + (d - 128)
     | _ \<Rightarrow> 0)"

lemma utf8_val_cp: "utf8_val (utf8_cp c) = c"
proof -
  have d: "c div 4096 = c div 64 div 64" "c div 262144 = c div 64 div 64 div 64"
    by (simp_all add: div_mult2_eq [symmetric])
  have "utf8_val (utf8_cp c) = (if c < 128 then c
     else if c < 2048 then c div 64 * 64 + c mod 64
     else if c < 65536 then (c div 64 div 64 * 64 + c div 64 mod 64) * 64 + c mod 64
     else ((c div 64 div 64 div 64 * 64 + c div 64 div 64 mod 64) * 64 + c div 64 mod 64) * 64 + c mod 64)"
    unfolding utf8_val_def utf8_cp_def d by (simp only: list.case add_diff_cancel_left' split: if_split) blast
  then show ?thesis by (simp only: div_mult_mod_eq if_cancel)
qed

lemma utf8_cp_lead:
  "length (utf8_cp c) = (if hd (utf8_cp c) < 128 then 1 else if hd (utf8_cp c) < 224 then 2
     else if hd (utf8_cp c) < 240 then 3 else 4)"
proof -
  consider "c < 128" | "128 \<le> c" "c < 2048" | "2048 \<le> c" "c < 65536" | "65536 \<le> c"
    by linarith
  then show ?thesis
    using hd_utf8_cp_range [of c] by cases (simp_all add: utf8_cp_width)
qed

lemma utf8_cp_prefix_free:
  assumes "utf8_cp c @ xs = utf8_cp d @ ys"
  shows "c = d \<and> xs = ys"
proof -
  have "hd (utf8_cp c) = hd (utf8_cp d)"
    using arg_cong [OF assms, of hd] by simp
  then have "length (utf8_cp c) = length (utf8_cp d)"
    by (simp only: utf8_cp_lead)
  then have "utf8_cp c = utf8_cp d \<and> xs = ys"
    using assms by simp
  then show ?thesis by (metis utf8_val_cp)
qed

lemma utf8_inject: "utf8 s = utf8 t \<Longrightarrow> s = t"
proof (induction s arbitrary: t)
  case Nil
  then show ?case by (cases t) simp_all
next
  case (Cons c s)
  from Cons.prems obtain d t' where t: "t = d # t'" by (cases t) simp_all
  have "c = d \<and> utf8 s = utf8 t'"
    using Cons.prems unfolding t by (intro utf8_cp_prefix_free) simp
  with Cons.IH t show ?case by simp
qed

section \<open>Exceptions and results\<close>

text \<open>
  Every \<open>raise\<close> of the source is a value: the exception class with the source's message.
  A fallible operation returns \<open>Inl\<close> of the exception or \<open>Inr\<close> of its result.
\<close>

datatype exn =
    ValueError string
  | PermissionError string
  | KeyError string
  | TypeError string
  | OSError string
  | FileExistsError string
  | FileNotFoundError string
  | RuntimeError string
  | WriteFenced string
  | DatabaseError string
  | AttributeError string
  | UnicodeDecodeError
  | HTTPException nat string
  | RemoteError "nat option"
  | OffsetConflict
  | SourceChangedError

type_synonym 'a result = "exn + 'a"

definition bindR :: "'e + 'a \<Rightarrow> ('a \<Rightarrow> 'e + 'b) \<Rightarrow> 'e + 'b" where
  "bindR m f = (case m of Inl e \<Rightarrow> Inl e | Inr x \<Rightarrow> f x)"

definition is_ok :: "'e + 'a \<Rightarrow> bool" where
  "is_ok m = (case m of Inl _ \<Rightarrow> False | Inr _ \<Rightarrow> True)"

lemma bindR_simps [simp]: "bindR (Inl e) f = Inl e" "bindR (Inr x) f = f x"
  by (simp_all add: bindR_def)

lemma bindR_Inr_iff: "bindR m f = Inr y \<longleftrightarrow> (\<exists>x. m = Inr x \<and> f x = Inr y)"
  by (cases m) simp_all

lemma bindR_Inl_iff: "bindR m f = Inl e \<longleftrightarrow> m = Inl e \<or> (\<exists>x. m = Inr x \<and> f x = Inl e)"
  by (cases m) simp_all

lemma is_ok_simps [simp]: "is_ok (Inr x)" "\<not> is_ok (Inl e)"
  by (simp_all add: is_ok_def)

fun mapR :: "('a \<Rightarrow> 'e + 'b) \<Rightarrow> 'a list \<Rightarrow> 'e + 'b list" where
  "mapR f [] = Inr []"
| "mapR f (x # xs) = bindR (f x) (\<lambda>y. bindR (mapR f xs) (\<lambda>ys. Inr (y # ys)))"

lemma mapR_Inr_iff: "mapR f xs = Inr ys \<longleftrightarrow> list_all2 (\<lambda>x y. f x = Inr y) xs ys"
  by (induction xs arbitrary: ys) (auto simp: bindR_Inr_iff list_all2_Cons1)

lemma mapR_all_Inr: "(\<And>x. x \<in> set xs \<Longrightarrow> f x = Inr (g x)) \<Longrightarrow> mapR f xs = Inr (map g xs)"
  by (induction xs) simp_all

text \<open>
  An operation that changes state and may raise: the changes made before the exception stay,
  as they do on disk.
\<close>

type_synonym ('s, 'a) op = "'s \<Rightarrow> 'a result \<times> 's"

definition bindS :: "('s, 'a) op \<Rightarrow> ('a \<Rightarrow> ('s, 'b) op) \<Rightarrow> ('s, 'b) op" where
  "bindS m f s = (case m s of (Inl e, s') \<Rightarrow> (Inl e, s') | (Inr x, s') \<Rightarrow> f x s')"

lemma bindS_cases:
  "bindS m f s = (r, t) \<longleftrightarrow>
     (\<exists>e. m s = (Inl e, t) \<and> r = Inl e) \<or> (\<exists>x s'. m s = (Inr x, s') \<and> f x s' = (r, t))"
  by (auto simp: bindS_def split: prod.splits sum.splits)

section \<open>Hexadecimal identities\<close>

text \<open>
  \<open>re.fullmatch('[0-9a-f]{64}', value)\<close>, the shape of every content address, and the same
  pattern at other lengths.
\<close>

definition hex_digit :: "nat \<Rightarrow> bool" where
  "hex_digit c \<longleftrightarrow> (48 \<le> c \<and> c \<le> 57) \<or> (97 \<le> c \<and> c \<le> 102)"

definition is_hex :: "nat \<Rightarrow> pystr \<Rightarrow> bool" where
  "is_hex n s \<longleftrightarrow> length s = n \<and> list_all hex_digit s"

lemma is_hex_length [dest]: "is_hex n s \<Longrightarrow> length s = n"
  by (simp add: is_hex_def)

section \<open>Lists\<close>

text \<open>Python's \<open>dict.fromkeys(xs)\<close> and the \<open>_dedupe\<close> idiom: first occurrences, in order.\<close>

fun dedup_from :: "'a list \<Rightarrow> 'a list \<Rightarrow> 'a list" where
  "dedup_from seen [] = []"
| "dedup_from seen (x # xs) = (if x \<in> set seen then dedup_from seen xs
     else x # dedup_from (x # seen) xs)"

lemma set_dedup_from: "set (dedup_from seen xs) = set xs - set seen"
  by (induction seen xs rule: dedup_from.induct) auto

lemma distinct_dedup_from: "distinct (dedup_from seen xs)"
  by (induction seen xs rule: dedup_from.induct) (auto simp: set_dedup_from)

lemma dedup_from_id: "distinct xs \<Longrightarrow> set xs \<inter> set seen = {} \<Longrightarrow> dedup_from seen xs = xs"
  by (induction seen xs rule: dedup_from.induct) auto

text \<open>The first element with a property: \<open>next((x for x in xs if p(x)), None)\<close>.\<close>

lemma find_Some_set: "List.find P xs = Some x \<Longrightarrow> x \<in> set xs \<and> P x"
  by (auto simp: find_Some_iff)

lemma find_None_set: "List.find P xs = None \<longleftrightarrow> (\<forall>x \<in> set xs. \<not> P x)"
  by (auto simp: find_None_iff)

end
