(* ===== verification/Json.thy ===== *)
theory Json
  imports Prelude
begin

text \<open>
  Canonical JSON (\<open>canonical_json\<close> and \<open>digest\<close> of \<open>core/records.py\<close>): the values that the
  program serialises, their canonical text with sorted keys and minimal separators, and the
  proof that the text determines the value up to the order of object members. Every content
  address of the program is a digest of such a text. The hash itself (\<open>hashlib.sha256\<close>) is
  a parameter \<open>H\<close> of the definitions that use it.
\<close>

section \<open>Values\<close>

text \<open>
  The values handed to \<open>json.dumps\<close>: a dictionary is the list of its items in insertion
  order. Floating-point numbers are not part of any content-addressed record.
\<close>

datatype json =
    JNull
  | JBool bool
  | JInt int
  | JStr pystr
  | JList "json list"
  | JObj "(pystr \<times> json) list"

definition jget :: "(pystr \<times> json) list \<Rightarrow> string \<Rightarrow> json option" where
  "jget kvs k = map_of kvs (lit k)"

section \<open>Serialisation\<close>

text \<open>
  String escapes of \<open>json.dumps(..., ensure_ascii=False)\<close>: the quote, the backslash and the
  control characters below 32, five of them with a short form.
\<close>

definition hex_char :: "nat \<Rightarrow> nat" where
  "hex_char n = (if n < 10 then 48 + n else 87 + n)"

definition esc_char :: "nat \<Rightarrow> pystr" where
  "esc_char c = (if c = 34 then [92, 34] else if c = 92 then [92, 92]
     else if c = 10 then [92, 110] else if c = 13 then [92, 114] else if c = 9 then [92, 116]
     else if c = 12 then [92, 102] else if c = 8 then [92, 98]
     else if c < 32 then [92, 117, 48, 48, hex_char (c div 16), hex_char (c mod 16)]
     else [c])"

definition json_string :: "pystr \<Rightarrow> pystr" where
  "json_string s = 34 # concat (map esc_char s) @ [34]"

fun show_nat :: "nat \<Rightarrow> pystr" where
  "show_nat n = (if n < 10 then [48 + n] else show_nat (n div 10) @ [48 + n mod 10])"

declare show_nat.simps [simp del]

definition show_int :: "int \<Rightarrow> pystr" where
  "show_int i = (if i < 0 then 45 # show_nat (nat (- i)) else show_nat (nat i))"

fun commas :: "pystr list \<Rightarrow> pystr" where
  "commas [] = []"
| "commas [x] = x"
| "commas (x # y # zs) = x @ 44 # commas (y # zs)"

definition json_member :: "pystr \<times> pystr \<Rightarrow> pystr" where
  "json_member kv = json_string (fst kv) @ 58 # snd kv"

fun canonical_json :: "json \<Rightarrow> pystr" where
  "canonical_json JNull = lit ''null''"
| "canonical_json (JBool b) = (if b then lit ''true'' else lit ''false'')"
| "canonical_json (JInt i) = show_int i"
| "canonical_json (JStr s) = json_string s"
| "canonical_json (JList xs) = 91 # commas (map canonical_json xs) @ [93]"
| "canonical_json (JObj kvs) =
     123 # commas (map json_member (sort_key fst (map (\<lambda>(k, v). (k, canonical_json v)) kvs))) @ [125]"

definition encode_json :: "json \<Rightarrow> bytes" where
  "encode_json v = utf8 (canonical_json v)"

text \<open>\<open>digest(canonical_json(value).encode())\<close>, over the hash parameter.\<close>

definition json_digest :: "(bytes \<Rightarrow> pystr) \<Rightarrow> json \<Rightarrow> pystr" where
  "json_digest H v = H (encode_json v)"

section \<open>The text determines the value\<close>

text \<open>The value with every object's members in key order: what the text preserves.\<close>

fun normal_json :: "json \<Rightarrow> json" where
  "normal_json JNull = JNull"
| "normal_json (JBool b) = JBool b"
| "normal_json (JInt i) = JInt i"
| "normal_json (JStr s) = JStr s"
| "normal_json (JList xs) = JList (map normal_json xs)"
| "normal_json (JObj kvs) = JObj (sort_key fst (map (\<lambda>(k, v). (k, normal_json v)) kvs))"

text \<open>Printing without sorting; on normal values it is the canonical text.\<close>

fun emit :: "json \<Rightarrow> pystr" where
  "emit JNull = lit ''null''"
| "emit (JBool b) = (if b then lit ''true'' else lit ''false'')"
| "emit (JInt i) = show_int i"
| "emit (JStr s) = json_string s"
| "emit (JList xs) = 91 # commas (map emit xs) @ [93]"
| "emit (JObj kvs) = 123 # commas (map (\<lambda>(k, v). json_member (k, emit v)) kvs) @ [125]"

lemma insort_key_map_snd:
  "insort_key fst (fst kv, f (snd kv)) (map (\<lambda>kv. (fst kv, f (snd kv))) ys)
   = map (\<lambda>kv. (fst kv, f (snd kv))) (insort_key fst kv ys)"
  by (induction ys) auto

lemma sort_key_map_snd:
  "sort_key fst (map (\<lambda>kv. (fst kv, f (snd kv))) kvs)
   = map (\<lambda>kv. (fst kv, f (snd kv))) (sort_key fst kvs)"
  by (induction kvs) (simp_all add: insort_key_map_snd)

lemma canonical_json_emit: "canonical_json v = emit (normal_json v)"
proof (induction v rule: canonical_json.induct)
  case (6 kvs)
  have members: "map (\<lambda>kv. (fst kv, canonical_json (snd kv))) kvs
      = map (\<lambda>kv. (fst kv, emit (normal_json (snd kv)))) kvs"
    using 6 by fastforce
  show ?case
    using sort_key_map_snd [of "\<lambda>v. emit (normal_json v)" kvs] sort_key_map_snd [of normal_json kvs]
    by (simp only: canonical_json.simps normal_json.simps emit.simps case_prod_unfold members) (simp add: o_def)
qed (simp_all add: o_def cong: map_cong)

text \<open>Each kind of token is prefix-free against text that starts with a delimiter.\<close>

definition is_digit :: "nat \<Rightarrow> bool" where
  "is_digit c \<longleftrightarrow> 48 \<le> c \<and> c \<le> 57"

definition delim :: "pystr \<Rightarrow> bool" where
  "delim x \<longleftrightarrow> (case x of [] \<Rightarrow> True | c # _ \<Rightarrow> \<not> is_digit c)"

lemma delim_simps [simp]: "delim []" "delim (c # x) \<longleftrightarrow> \<not> is_digit c"
  by (simp_all add: delim_def)

lemma is_digit_numeral [simp]:
  "\<not> is_digit 44" "\<not> is_digit 93" "\<not> is_digit 125" "\<not> is_digit 45" "\<not> is_digit 34"
  "\<not> is_digit 91" "\<not> is_digit 123" "\<not> is_digit 110" "\<not> is_digit 116" "\<not> is_digit 102"
  by (simp_all add: is_digit_def)

definition unhex :: "nat \<Rightarrow> nat" where
  "unhex h = (if h < 58 then h - 48 else h - 87)"

definition unesc :: "pystr \<Rightarrow> nat \<times> pystr" where
  "unesc s = (if s ! 0 \<noteq> 92 then (s ! 0, drop 1 s)
     else if s ! 1 = 117 then (unhex (s ! 4) * 16 + unhex (s ! 5), drop 6 s)
     else (if s ! 1 = 110 then 10 else if s ! 1 = 114 then 13 else if s ! 1 = 116 then 9
       else if s ! 1 = 102 then 12 else if s ! 1 = 98 then 8 else s ! 1, drop 2 s))"

lemma unhex_char: "n < 16 \<Longrightarrow> unhex (hex_char n) = n"
  by (simp add: unhex_def hex_char_def)

lemma hex_char_split: "c < 32 \<Longrightarrow> unhex (hex_char (c div 16)) * 16 + unhex (hex_char (c mod 16)) = c"
proof -
  assume "c < 32"
  then have "c div 16 < 16" "c mod 16 < 16" by simp_all
  then show ?thesis by (simp only: unhex_char div_mult_mod_eq)
qed

lemma unesc_esc_char: "unesc (esc_char c @ x) = (c, x)"
proof -
  consider "c \<in> {34, 92, 10, 13, 9, 12, 8}" | "c \<notin> {34, 92, 10, 13, 9, 12, 8}" "c < 32"
    | "c \<notin> {34, 92, 10, 13, 9, 12, 8}" "\<not> c < 32"
    by blast
  then show ?thesis
  proof cases
    case 1
    then show ?thesis
      by (elim insertE) (simp_all add: unesc_def esc_char_def)
  next
    case 2
    then have "esc_char c = [92, 117, 48, 48, hex_char (c div 16), hex_char (c mod 16)]"
      by (simp add: esc_char_def)
    with hex_char_split [OF 2(2)] show ?thesis by (simp only: unesc_def) simp
  next
    case 3
    then have "esc_char c = [c]" by (simp add: esc_char_def)
    with 3 show ?thesis by (simp add: unesc_def)
  qed
qed

lemma esc_char_prefix_free: "esc_char c @ x = esc_char d @ y \<Longrightarrow> c = d \<and> x = y"
  by (metis unesc_esc_char prod.inject)

lemma esc_char_not_quote: "esc_char c @ x \<noteq> 34 # y"
  by (simp add: esc_char_def)

lemma esc_chars_prefix_free:
  "concat (map esc_char s) @ 34 # x = concat (map esc_char t) @ 34 # y \<Longrightarrow> s = t \<and> x = y"
proof (induction s arbitrary: t)
  case Nil
  then show ?case
    by (cases t) (simp_all add: esc_char_not_quote [symmetric])
next
  case (Cons c s)
  show ?case
  proof (cases t)
    case Nil
    with Cons.prems show ?thesis by (simp add: esc_char_not_quote)
  next
    case t: (Cons d t')
    with Cons.prems have "esc_char c @ concat (map esc_char s) @ 34 # x
        = esc_char d @ concat (map esc_char t') @ 34 # y"
      by (simp only: list.map concat.simps append_assoc)
    then have "c = d \<and> concat (map esc_char s) @ 34 # x = concat (map esc_char t') @ 34 # y"
      by (rule esc_char_prefix_free)
    with Cons.IH t show ?thesis by blast
  qed
qed

lemma json_string_prefix_free:
  "json_string s @ x = json_string t @ y \<Longrightarrow> s = t \<and> x = y"
  unfolding json_string_def by (rule esc_chars_prefix_free) simp

lemma show_nat_digits: "show_nat n \<noteq> [] \<and> (\<forall>c \<in> set (show_nat n). is_digit c)"
proof (induction n rule: show_nat.induct)
  case (1 n)
  then show ?case
    by (subst show_nat.simps, subst show_nat.simps) (auto simp: is_digit_def)
qed

fun read_nat :: "pystr \<Rightarrow> nat" where
  "read_nat ds = foldl (\<lambda>n c. 10 * n + (c - 48)) 0 ds"

lemma read_show_nat: "read_nat (show_nat n) = n"
proof (induction n rule: show_nat.induct)
  case (1 n)
  then show ?case
    by (subst show_nat.simps) (simp add: mult.commute)
qed

lemma show_nat_prefix_free:
  assumes "delim x" "delim y" "show_nat m @ x = show_nat n @ y"
  shows "m = n \<and> x = y"
proof -
  have take: "takeWhile is_digit (show_nat k @ z) = show_nat k" if "delim z" for k z
    using show_nat_digits [of k] that by (simp add: takeWhile_append delim_def split: list.splits)
  have "show_nat m = show_nat n"
    using assms take by metis
  then show ?thesis
    using assms(3) read_show_nat by (metis append_same_eq same_append_eq)
qed

lemma hd_show_nat: "is_digit (hd (show_nat n))"
  using show_nat_digits [of n] by (cases "show_nat n") auto

lemma show_nat_not_minus: "show_nat n @ z \<noteq> 45 # z'"
  using show_nat_digits [of n] by (cases "show_nat n") auto

lemma show_int_prefix_free:
  assumes "delim x" "delim y" "show_int i @ x = show_int j @ y"
  shows "i = j \<and> x = y"
proof (cases "i < 0 \<longleftrightarrow> j < 0")
  case True
  then have "show_nat (nat \<bar>i\<bar>) @ x = show_nat (nat \<bar>j\<bar>) @ y"
    using assms(3) by (auto simp: show_int_def split: if_splits)
  then have "nat \<bar>i\<bar> = nat \<bar>j\<bar> \<and> x = y"
    by (rule show_nat_prefix_free [OF assms(1,2)])
  with True show ?thesis by auto
next
  case False
  then show ?thesis
    using assms(3) by (auto simp: show_int_def show_nat_not_minus show_nat_not_minus [symmetric])
qed

lemma commas_Cons: "commas (x # xs) = x @ concat (map ((#) 44) xs)"
  by (induction xs arbitrary: x) simp_all

lemma commas_tail_prefix_free:
  assumes enc: "\<And>a b x y. a \<in> set as \<Longrightarrow> delim x \<Longrightarrow> delim y \<Longrightarrow> f a @ x = f b @ y \<Longrightarrow> a = b \<and> x = y"
    and close: "\<not> is_digit close" "close \<noteq> 44"
    and eq: "concat (map (\<lambda>a. 44 # f a) as) @ close # x = concat (map (\<lambda>a. 44 # f a) bs) @ close # y"
  shows "as = bs \<and> x = y"
  using enc eq
proof (induction as arbitrary: bs)
  case Nil
  with close show ?case by (cases bs) auto
next
  case (Cons a as)
  show ?case
  proof (cases bs)
    case Nil
    with Cons.prems(2) close show ?thesis by auto
  next
    case bs: (Cons b bs')
    have "delim (concat (map (\<lambda>a. 44 # f a) cs) @ close # z)" for cs z
      using close by (cases cs) simp_all
    with Cons.prems bs have "a = b \<and> concat (map (\<lambda>a. 44 # f a) as) @ close # x
        = concat (map (\<lambda>a. 44 # f a) bs') @ close # y"
      by (intro Cons.prems(1)) simp_all
    moreover from this have "as = bs' \<and> x = y"
      using Cons.prems(1) by (intro Cons.IH) (blast intro: list.set_intros)+
    ultimately show ?thesis using bs by simp
  qed
qed

lemma commas_prefix_free:
  assumes enc: "\<And>a b x y. a \<in> set as \<Longrightarrow> delim x \<Longrightarrow> delim y \<Longrightarrow> f a @ x = f b @ y \<Longrightarrow> a = b \<and> x = y"
    and start: "\<And>a z z'. f a @ z \<noteq> close # z'"
    and close: "\<not> is_digit close" "close \<noteq> 44"
    and eq: "commas (map f as) @ close # x = commas (map f bs) @ close # y"
  shows "as = bs \<and> x = y"
proof (cases as)
  case Nil
  with eq start show ?thesis
    by (cases bs) (auto simp: commas_Cons dest: sym)
next
  case as: (Cons a as')
  show ?thesis
  proof (cases bs)
    case Nil
    with eq as start show ?thesis by (auto simp: commas_Cons)
  next
    case bs: (Cons b bs')
    have delim: "delim (concat (map (\<lambda>a. 44 # f a) cs) @ close # z)" for cs z
      using close by (cases cs) simp_all
    have "f a @ concat (map (\<lambda>a. 44 # f a) as') @ close # x
        = f b @ concat (map (\<lambda>a. 44 # f a) bs') @ close # y"
      using eq by (simp add: as bs commas_Cons o_def)
    then have "a = b \<and> concat (map (\<lambda>a. 44 # f a) as') @ close # x
        = concat (map (\<lambda>a. 44 # f a) bs') @ close # y"
      using as delim by (intro enc) simp_all
    then show ?thesis
      using commas_tail_prefix_free [of as' f close x bs' y] enc close as bs by auto
  qed
qed

text \<open>The first character of a text tells the kind of value.\<close>

definition json_start :: "json \<Rightarrow> nat set" where
  "json_start v = (case v of JNull \<Rightarrow> {110} | JBool b \<Rightarrow> {if b then 116 else 102}
     | JInt _ \<Rightarrow> {c. c = 45 \<or> is_digit c} | JStr _ \<Rightarrow> {34} | JList _ \<Rightarrow> {91} | JObj _ \<Rightarrow> {123})"

lemma emit_start: "emit v \<noteq> [] \<and> hd (emit v) \<in> json_start v"
  using show_nat_digits
  by (cases v) (auto simp: json_start_def lit_def json_string_def show_int_def hd_show_nat)

lemma emit_same_start:
  assumes "emit v @ x = emit w @ y"
  shows "json_start v \<inter> json_start w \<noteq> {}"
proof -
  have "hd (emit v) = hd (emit w)"
    using assms emit_start by (metis hd_append2)
  with emit_start [of v] emit_start [of w] show ?thesis by auto
qed

lemma emit_not_close: "emit v @ z \<noteq> 93 # z'"
  using emit_start [of v] by (cases v) (auto simp: json_start_def is_digit_def append_eq_Cons_conv)

lemma json_member_not_close: "json_member kv @ z \<noteq> 125 # z'"
  by (simp add: json_member_def json_string_def)

lemma emit_prefix_free:
  "delim x \<Longrightarrow> delim y \<Longrightarrow> emit v @ x = emit w @ y \<Longrightarrow> v = w \<and> x = y"
proof (induction v arbitrary: w x y)
  case JNull
  then show ?case
    using emit_same_start [OF JNull.prems(3)] by (cases w) (auto simp: json_start_def is_digit_def)
next
  case (JBool b)
  then show ?case
    using emit_same_start [OF JBool.prems(3)]
    by (cases w) (auto simp: json_start_def is_digit_def split: if_splits)
next
  case (JInt i)
  then obtain j where "w = JInt j"
    using emit_same_start [OF JInt.prems(3)]
    by (cases w) (auto simp: json_start_def is_digit_def split: if_splits)
  with JInt.prems(3) have "show_int i @ x = show_int j @ y" by simp
  then have "i = j \<and> x = y" by (rule show_int_prefix_free [OF JInt.prems(1,2)])
  with \<open>w = JInt j\<close> show ?case by simp
next
  case (JStr s)
  then obtain t where "w = JStr t"
    using emit_same_start [OF JStr.prems(3)]
    by (cases w) (auto simp: json_start_def is_digit_def split: if_splits)
  with JStr.prems(3) have "json_string s @ x = json_string t @ y" by simp
  then have "s = t \<and> x = y" by (rule json_string_prefix_free)
  with \<open>w = JStr t\<close> show ?case by simp
next
  case (JList vs)
  then obtain ws where w: "w = JList ws"
    using emit_same_start [OF JList.prems(3)]
    by (cases w) (auto simp: json_start_def is_digit_def split: if_splits)
  have "vs = ws \<and> x = y"
  proof (rule commas_prefix_free [where f = emit and close = 93])
    show "commas (map emit vs) @ 93 # x = commas (map emit ws) @ 93 # y"
      using JList.prems(3) w by simp
  qed (use JList.IH emit_not_close in auto)
  with w show ?case by simp
next
  case (JObj kvs)
  then obtain lws where w: "w = JObj lws"
    using emit_same_start [OF JObj.prems(3)]
    by (cases w) (auto simp: json_start_def is_digit_def split: if_splits)
  have member: "a = b \<and> x = y"
    if "a \<in> set kvs" "delim x" "delim y"
      "(case a of (k, v) \<Rightarrow> json_member (k, emit v)) @ x = (case b of (k, v) \<Rightarrow> json_member (k, emit v)) @ y"
    for a b x y
  proof -
    have "json_string (fst a) @ 58 # emit (snd a) @ x = json_string (fst b) @ 58 # emit (snd b) @ y"
      using that(4) by (simp add: json_member_def case_prod_unfold)
    then have "fst a = fst b \<and> 58 # emit (snd a) @ x = 58 # emit (snd b) @ y"
      by (rule json_string_prefix_free)
    moreover have "snd a \<in> Basic_BNFs.snds a" by (cases a) simp
    ultimately show ?thesis
      using JObj.IH [of a "snd a"] that(1-3) by (auto intro: prod_eqI)
  qed
  have "kvs = lws \<and> x = y"
  proof (rule commas_prefix_free [where f = "\<lambda>(k, v). json_member (k, emit v)" and close = 125])
    show "commas (map (\<lambda>(k, v). json_member (k, emit v)) kvs) @ 125 # x
        = commas (map (\<lambda>(k, v). json_member (k, emit v)) lws) @ 125 # y"
      using JObj.prems(3) w by simp
  qed (use member json_member_not_close in \<open>auto simp: case_prod_unfold\<close>)
  with w show ?case by simp
qed

text \<open>
  The main fact: two values with the same canonical bytes are the same value, up to the
  order of object members.
\<close>

lemma encode_json_inject: "encode_json v = encode_json w \<Longrightarrow> normal_json v = normal_json w"
  using emit_prefix_free [of "[]" "[]"] utf8_inject
  by (auto simp: encode_json_def canonical_json_emit)

text \<open>An object with distinct keys in key order is its own normal form, member by member.\<close>

lemma map_of_map_snd: "map_of (map (\<lambda>kv. (fst kv, f (snd kv))) kvs) = map_option f \<circ> map_of kvs"
  by (induction kvs) (auto simp: fun_eq_iff)

lemma map_of_sort_key:
  assumes "distinct (map fst kvs)"
  shows "map_of (sort_key fst kvs) = map_of kvs"
proof -
  have "distinct (map fst (sort_key fst kvs))"
    using assms mset_eq_imp_distinct_iff [of "map fst (sort_key fst kvs)" "map fst kvs"] by simp
  then show ?thesis
    using assms by (intro map_of_inject_set [THEN iffD2]) simp_all
qed

lemma normal_json_obj_lookup:
  assumes "normal_json (JObj kvs) = normal_json (JObj lws)"
    and "distinct (map fst kvs)" "distinct (map fst lws)"
  shows "map_option normal_json (map_of kvs k) = map_option normal_json (map_of lws k)"
proof -
  let ?n = "\<lambda>kvs. map (\<lambda>kv. (fst kv, normal_json (snd kv))) kvs"
  have "map_of (sort_key fst (?n kvs)) = map_of (sort_key fst (?n lws))"
    using assms(1) by (simp add: case_prod_unfold)
  then have "map_of (?n kvs) = map_of (?n lws)"
    using assms(2,3) by (simp add: map_of_sort_key o_def)
  then show ?thesis by (simp add: map_of_map_snd fun_eq_iff)
qed

end
