(* ===== verification/Output.thy ===== *)
theory Output
  imports Json "HOL-Library.Sublist"
begin

text \<open>
  The response budget of \<open>core/output.py\<close>: \<open>bounded_response\<close> drops context events, shortens
  texts and finally drops results until the canonical JSON of the whole response fits the
  budget. The loop is modelled as it is written and shown to terminate; the lemmas say what
  a bounded response keeps of the original.
\<close>

section \<open>Responses\<close>

text \<open>
  A response is a dictionary whose \<open>results\<close> hold items with a citation, an excerpt or a list
  of events. The members the loop reads and writes are record fields; every other member is
  carried in a \<open>rest\<close> field. \<open>None\<close> is an absent member.
\<close>

record rsp_event =
  re_id :: pystr
  re_text :: "pystr option"
  re_cut :: bool
  re_rest :: "(pystr \<times> json) list"

record rsp_item =
  ri_target :: "pystr option"
  ri_excerpt :: "pystr option"
  ri_events :: "rsp_event list option"
  ri_cut :: bool
  ri_rest :: "(pystr \<times> json) list"

record response =
  rp_results :: "rsp_item list option"
  rp_truncated :: bool
  rp_omitted_results :: nat
  rp_omitted_events :: nat
  rp_timings :: "json option"
  rp_rest :: "(pystr \<times> json) list"

definition opt_member :: "string \<Rightarrow> json option \<Rightarrow> (pystr \<times> json) list" where
  "opt_member k v = (case v of None \<Rightarrow> [] | Some x \<Rightarrow> [(lit k, x)])"

definition cut_member :: "bool \<Rightarrow> (pystr \<times> json) list" where
  "cut_member b = (if b then [(lit ''text_truncated'', JBool True)] else [])"

definition event_json :: "rsp_event \<Rightarrow> json" where
  "event_json e = JObj ((lit ''event_id'', JStr (re_id e)) # opt_member ''text'' (map_option JStr (re_text e))
     @ cut_member (re_cut e) @ re_rest e)"

definition item_json :: "rsp_item \<Rightarrow> json" where
  "item_json i = JObj (opt_member ''excerpt'' (map_option JStr (ri_excerpt i))
     @ opt_member ''events'' (map_option (JList \<circ> map event_json) (ri_events i))
     @ cut_member (ri_cut i) @ ri_rest i)"

definition response_json :: "response \<Rightarrow> json" where
  "response_json r = JObj (opt_member ''results'' (map_option (JList \<circ> map item_json) (rp_results r))
     @ [(lit ''truncated'', JBool (rp_truncated r)),
        (lit ''omitted_results'', JInt (int (rp_omitted_results r))),
        (lit ''omitted_events'', JInt (int (rp_omitted_events r)))]
     @ opt_member ''timings_ms'' (rp_timings r) @ rp_rest r)"

definition response_size :: "response \<Rightarrow> nat" where
  "response_size r = length (encode_json (response_json r))"

definition item_events :: "rsp_item \<Rightarrow> rsp_event list" where
  "item_events i = (case ri_events i of None \<Rightarrow> [] | Some es \<Rightarrow> es)"

definition results_of :: "response \<Rightarrow> rsp_item list" where
  "results_of r = (case rp_results r of None \<Rightarrow> [] | Some is \<Rightarrow> is)"

definition text_or_empty :: "pystr option \<Rightarrow> pystr" where
  "text_or_empty t = (case t of None \<Rightarrow> [] | Some s \<Rightarrow> s)"

section \<open>One round of the loop\<close>

text \<open>
  Context first: scanning items and events from the end, the first event that is not the
  item's cited event is removed (\<open>list.remove\<close> removes the first equal element).
\<close>

definition context_event :: "rsp_item \<Rightarrow> rsp_event option" where
  "context_event i = List.find (\<lambda>e. Some (re_id e) \<noteq> ri_target i) (rev (item_events i))"

fun drop_context :: "rsp_item list \<Rightarrow> rsp_item list option" where
  "drop_context [] = None"
| "drop_context (i # is) = (case drop_context is of
       Some is' \<Rightarrow> Some (i # is')
     | None \<Rightarrow> (case context_event i of
           None \<Rightarrow> None
         | Some e \<Rightarrow> Some (i\<lparr>ri_events := Some (remove1 e (item_events i))\<rparr> # is)))"

text \<open>
  Then the longest text: the candidates are the excerpts and event texts of more than 129
  characters in document order; \<open>max\<close> takes the first of the longest. A location is an item
  index with the excerpt (\<open>None\<close>) or an event index.
\<close>

type_synonym location = "nat \<times> nat option"

definition item_candidates :: "nat \<times> rsp_item \<Rightarrow> (nat \<times> location) list" where
  "item_candidates ni =
     (let n = fst ni; i = snd ni; excerpt = length (text_or_empty (ri_excerpt i)) in
      (if 129 < excerpt then [(excerpt, n, None)] else [])
      @ concat (map (\<lambda>(m, e). let len = length (text_or_empty (re_text e)) in
          if 129 < len then [(len, n, Some m)] else []) (enumerate 0 (item_events i))))"

definition candidates :: "rsp_item list \<Rightarrow> (nat \<times> location) list" where
  "candidates is = concat (map item_candidates (enumerate 0 is))"

fun first_max :: "nat \<times> 'a \<Rightarrow> (nat \<times> 'a) list \<Rightarrow> nat \<times> 'a" where
  "first_max best [] = best"
| "first_max best (c # cs) = first_max (if fst best < fst c then c else best) cs"

definition ellipsis :: nat where
  "ellipsis = 8230"

definition shorten :: "pystr \<Rightarrow> pystr" where
  "shorten s = take (max 128 (length s div 2)) s @ [ellipsis]"

definition shorten_event :: "rsp_event \<Rightarrow> rsp_event" where
  "shorten_event e = e\<lparr>re_text := map_option shorten (re_text e), re_cut := True\<rparr>"

definition shorten_item :: "nat option \<Rightarrow> rsp_item \<Rightarrow> rsp_item" where
  "shorten_item l i = (case l of
       None \<Rightarrow> i\<lparr>ri_excerpt := map_option shorten (ri_excerpt i), ri_cut := True\<rparr>
     | Some m \<Rightarrow> i\<lparr>ri_events := Some ((item_events i)[m := shorten_event (item_events i ! m)])\<rparr>)"

definition shorten_longest :: "rsp_item list \<Rightarrow> rsp_item list option" where
  "shorten_longest is = (case candidates is of
       [] \<Rightarrow> None
     | c # cs \<Rightarrow> let (n, l) = snd (first_max c cs) in Some (is[n := shorten_item l (is ! n)]))"

definition shrink :: "response \<Rightarrow> response option" where
  "shrink r = (case drop_context (results_of r) of
       Some is \<Rightarrow> Some (r\<lparr>rp_results := Some is, rp_omitted_events := Suc (rp_omitted_events r),
         rp_truncated := True\<rparr>)
     | None \<Rightarrow> (case shorten_longest (results_of r) of
           Some is \<Rightarrow> Some (r\<lparr>rp_results := Some is, rp_truncated := True\<rparr>)
         | None \<Rightarrow> if results_of r \<noteq> []
             then Some (r\<lparr>rp_results := Some (butlast (results_of r)),
               rp_omitted_results := Suc (rp_omitted_results r), rp_truncated := True\<rparr>)
             else None))"

section \<open>Termination\<close>

text \<open>Every round lowers the number of items, events and characters together.\<close>

definition event_weight :: "rsp_event \<Rightarrow> nat" where
  "event_weight e = Suc (length (text_or_empty (re_text e)))"

definition item_weight :: "rsp_item \<Rightarrow> nat" where
  "item_weight i = Suc (length (text_or_empty (ri_excerpt i)) + sum_list (map event_weight (item_events i)))"

definition response_weight :: "response \<Rightarrow> nat" where
  "response_weight r = sum_list (map item_weight (results_of r))"

lemma item_events_update [simp]:
  "item_events (i\<lparr>ri_events := Some es\<rparr>) = es" "item_events (i\<lparr>ri_excerpt := x, ri_cut := c\<rparr>) = item_events i"
  by (simp_all add: item_events_def)

lemma results_of_update [simp]:
  "results_of (r\<lparr>rp_results := Some is\<rparr>) = is"
  "results_of (r\<lparr>rp_truncated := b\<rparr>) = results_of r"
  "results_of (r\<lparr>rp_omitted_events := n\<rparr>) = results_of r"
  "results_of (r\<lparr>rp_omitted_results := n\<rparr>) = results_of r"
  "results_of (r\<lparr>rp_timings := t\<rparr>) = results_of r"
  by (simp_all add: results_of_def)

lemma text_or_empty_map: "t \<noteq> None \<Longrightarrow> text_or_empty (map_option f t) = f (text_or_empty t)"
  by (auto simp: text_or_empty_def)

lemma sum_list_update_less:
  assumes "n < length xs" "f y < (f (xs ! n) :: nat)"
  shows "sum_list (map f (xs[n := y])) < sum_list (map f xs)"
  using assms
proof (induction xs arbitrary: n)
  case (Cons x xs)
  then show ?case by (cases n) auto
qed simp

lemma sum_list_remove1:
  "x \<in> set xs \<Longrightarrow> sum_list (map f xs) = f x + sum_list (map f (remove1 x xs))" for f :: "'a \<Rightarrow> nat"
  by (induction xs) auto

lemma context_event_mem:
  "context_event i = Some e \<Longrightarrow> e \<in> set (item_events i) \<and> Some (re_id e) \<noteq> ri_target i"
  unfolding context_event_def by (auto dest: find_Some_set)

text \<open>What one removal does to the list of items.\<close>

lemma drop_context_Some:
  assumes "drop_context is = Some is'"
  obtains as i e bs where "is = as @ i # bs" "is' = as @ i\<lparr>ri_events := Some (remove1 e (item_events i))\<rparr> # bs"
    "e \<in> set (item_events i)" "Some (re_id e) \<noteq> ri_target i"
proof -
  from assms have "\<exists>as i e bs. is = as @ i # bs
      \<and> is' = as @ i\<lparr>ri_events := Some (remove1 e (item_events i))\<rparr> # bs
      \<and> e \<in> set (item_events i) \<and> Some (re_id e) \<noteq> ri_target i"
  proof (induction "is" arbitrary: is')
    case (Cons j "is")
    show ?case
    proof (cases "drop_context is")
      case None
      with Cons.prems obtain e where "context_event j = Some e"
        "is' = j\<lparr>ri_events := Some (remove1 e (item_events j))\<rparr> # is"
        by (auto split: option.splits)
      with context_event_mem [of j e] show ?thesis by blast
    next
      case (Some js)
      with Cons.IH obtain as i e bs where "is = as @ i # bs"
        "js = as @ i\<lparr>ri_events := Some (remove1 e (item_events i))\<rparr> # bs"
        "e \<in> set (item_events i)" "Some (re_id e) \<noteq> ri_target i" by blast
      moreover from Some Cons.prems have "is' = j # js" by simp
      ultimately show ?thesis by (metis append_Cons)
    qed
  qed simp
  with that show thesis by blast
qed

lemma drop_context_weight:
  assumes "drop_context is = Some is'"
  shows "sum_list (map item_weight is') < sum_list (map item_weight is)"
  using assms
proof (rule drop_context_Some)
  fix as i e bs
  assume "is = as @ i # bs" "is' = as @ i\<lparr>ri_events := Some (remove1 e (item_events i))\<rparr> # bs"
    and mem: "e \<in> set (item_events i)"
  then show ?thesis
    using sum_list_remove1 [OF mem, of event_weight] by (simp add: item_weight_def event_weight_def)
qed

lemma first_max_in: "first_max c cs \<in> set (c # cs)"
  by (induction c cs rule: first_max.induct) auto

lemma first_max_ge: "d \<in> set (c # cs) \<Longrightarrow> fst d \<le> fst (first_max c cs)"
proof -
  have "fst c \<le> fst (first_max c cs) \<and> (\<forall>d \<in> set cs. fst d \<le> fst (first_max c cs))"
    by (induction c cs rule: first_max.induct) (auto split: if_splits)
  then show "d \<in> set (c # cs) \<Longrightarrow> fst d \<le> fst (first_max c cs)" by auto
qed

lemma item_candidates_cases:
  assumes "(len, n', l) \<in> set (item_candidates (n, i))"
  shows "n' = n \<and> 129 < len \<and> (case l of
      None \<Rightarrow> len = length (text_or_empty (ri_excerpt i))
    | Some m \<Rightarrow> m < length (item_events i) \<and> len = length (text_or_empty (re_text (item_events i ! m))))"
  using assms
  by (auto simp: item_candidates_def Let_def in_set_enumerate_eq split: if_splits)

lemma candidates_cases:
  assumes "(len, n, l) \<in> set (candidates is)"
  shows "n < length is \<and> 129 < len \<and> (case l of
      None \<Rightarrow> len = length (text_or_empty (ri_excerpt (is ! n)))
    | Some m \<Rightarrow> m < length (item_events (is ! n))
        \<and> len = length (text_or_empty (re_text (item_events (is ! n) ! m))))"
  using assms item_candidates_cases
  by (fastforce simp: candidates_def in_set_enumerate_eq)

lemma text_some: "129 < length (text_or_empty t) \<Longrightarrow> t \<noteq> None"
  by (cases t) (simp_all add: text_or_empty_def)

lemma length_shorten: "129 < length s \<Longrightarrow> length (shorten s) < length s"
  by (simp add: shorten_def)

lemma shorten_event_weight:
  "129 < length (text_or_empty (re_text e)) \<Longrightarrow> event_weight (shorten_event e) < event_weight e"
  by (simp add: event_weight_def shorten_event_def text_some text_or_empty_map length_shorten)

lemma shorten_item_weight:
  assumes "129 < len" "case l of
      None \<Rightarrow> len = length (text_or_empty (ri_excerpt i))
    | Some m \<Rightarrow> m < length (item_events i) \<and> len = length (text_or_empty (re_text (item_events i ! m)))"
  shows "item_weight (shorten_item l i) < item_weight i"
proof (cases l)
  case None
  with assms show ?thesis
    by (simp add: item_weight_def shorten_item_def text_some text_or_empty_map length_shorten)
next
  case (Some m)
  with assms have "sum_list (map event_weight ((item_events i)[m := shorten_event (item_events i ! m)]))
      < sum_list (map event_weight (item_events i))"
    by (intro sum_list_update_less shorten_event_weight) simp_all
  with Some show ?thesis by (simp add: item_weight_def shorten_item_def)
qed

text \<open>A shortened location is one of the candidates.\<close>

lemma shorten_longest_Some:
  assumes "shorten_longest is = Some is'"
  obtains len n l where "(len, n, l) \<in> set (candidates is)" "is' = is[n := shorten_item l (is ! n)]"
    "\<forall>c \<in> set (candidates is). fst c \<le> len"
proof -
  from assms obtain c cs where c: "candidates is = c # cs"
    by (auto simp: shorten_longest_def split: list.splits)
  obtain len n l where m: "first_max c cs = (len, n, l)" by (cases "first_max c cs")
  have "\<forall>d \<in> set (candidates is). fst d \<le> len"
    using first_max_ge [of _ c cs] c m by fastforce
  moreover have "(len, n, l) \<in> set (candidates is)"
    using first_max_in [of c cs] c m by simp
  ultimately show thesis
    using that assms c m by (simp add: shorten_longest_def)
qed

lemma shorten_longest_weight:
  assumes "shorten_longest is = Some is'"
  shows "sum_list (map item_weight is') < sum_list (map item_weight is)"
  using assms
proof (rule shorten_longest_Some)
  fix len n l
  assume mem: "(len, n, l) \<in> set (candidates is)" and is': "is' = is[n := shorten_item l (is ! n)]"
  show ?thesis
    unfolding is' using candidates_cases [OF mem]
    by (intro sum_list_update_less shorten_item_weight [where len = len]) simp_all
qed

lemma butlast_weight:
  assumes "is \<noteq> []"
  shows "sum_list (map item_weight (butlast is)) < sum_list (map item_weight is)"
proof -
  have "sum_list (map item_weight is) = sum_list (map item_weight (butlast is @ [last is]))"
    using assms by simp
  then show ?thesis by (simp add: item_weight_def)
qed

lemma shrink_weight: "shrink r = Some r' \<Longrightarrow> response_weight r' < response_weight r"
  unfolding shrink_def response_weight_def
  by (auto split: option.splits if_splits
      dest: drop_context_weight shorten_longest_weight intro: butlast_weight)

section \<open>The loop\<close>

function bound_loop :: "nat \<Rightarrow> response \<Rightarrow> response result" where
  "bound_loop budget r = (if response_size r \<le> budget then Inr r
     else (case shrink r of
         None \<Rightarrow> Inl (ValueError ''response metadata exceeds output budget'')
       | Some r' \<Rightarrow> bound_loop budget r'))"
  by pat_completeness auto
termination
  by (relation "measure (\<lambda>(budget, r). response_weight r)") (auto intro: shrink_weight)

declare bound_loop.simps [simp del]

definition start_response :: "response \<Rightarrow> response" where
  "start_response r = r\<lparr>rp_truncated := False, rp_omitted_results := 0, rp_omitted_events := 0\<rparr>"

definition drop_timings :: "nat \<Rightarrow> response \<Rightarrow> response" where
  "drop_timings budget r = (if budget < response_size r then r\<lparr>rp_timings := None\<rparr> else r)"

definition bounded_response :: "response \<Rightarrow> int \<Rightarrow> response result" where
  "bounded_response r budget =
     (if \<not> (1024 \<le> budget \<and> budget \<le> 65536)
      then Inl (ValueError ''output budget must be between 1024 and 65536 bytes'')
      else bound_loop (nat budget) (drop_timings (nat budget) (start_response r)))"

section \<open>What a bounded response keeps\<close>

text \<open>
  A text is kept whole or as a prefix of at least 128 characters with an ellipsis; an event
  keeps its identity and its other members; an item keeps its citation and other members,
  an ordered part of its events, and every event it cites.
\<close>

definition text_kept :: "pystr option \<Rightarrow> pystr option \<Rightarrow> bool" where
  "text_kept t' t \<longleftrightarrow> t' = t \<or> (\<exists>s k. t = Some s \<and> 128 \<le> k \<and> k < length s \<and> t' = Some (take k s @ [ellipsis]))"

definition event_kept :: "rsp_event \<Rightarrow> rsp_event \<Rightarrow> bool" where
  "event_kept e' e \<longleftrightarrow> re_id e' = re_id e \<and> re_rest e' = re_rest e \<and> text_kept (re_text e') (re_text e)"

definition cited_events :: "rsp_item \<Rightarrow> rsp_event list" where
  "cited_events i = filter (\<lambda>e. Some (re_id e) = ri_target i) (item_events i)"

definition item_kept :: "rsp_item \<Rightarrow> rsp_item \<Rightarrow> bool" where
  "item_kept i' i \<longleftrightarrow> ri_target i' = ri_target i \<and> ri_rest i' = ri_rest i
     \<and> text_kept (ri_excerpt i') (ri_excerpt i)
     \<and> list_emb event_kept (item_events i') (item_events i)
     \<and> list_all2 event_kept (cited_events i') (cited_events i)"

definition response_kept :: "response \<Rightarrow> response \<Rightarrow> bool" where
  "response_kept r' r \<longleftrightarrow> rp_rest r' = rp_rest r
     \<and> length (results_of r') + rp_omitted_results r' = length (results_of r) + rp_omitted_results r
     \<and> list_all2 item_kept (results_of r') (take (length (results_of r')) (results_of r))"

lemma text_kept_refl [simp]: "text_kept t t"
  by (simp add: text_kept_def)

lemma text_kept_cut: "128 \<le> k \<Longrightarrow> k < length s \<Longrightarrow> text_kept (Some (take k s @ [ellipsis])) (Some s)"
  by (auto simp: text_kept_def)

lemma text_kept_trans:
  assumes "text_kept u t" "text_kept t s"
  shows "text_kept u s"
proof (cases "u = t \<or> t = s")
  case True
  with assms show ?thesis by auto
next
  case False
  with assms(2) obtain s' k where s: "s = Some s'" "128 \<le> k" "k < length s'" "t = Some (take k s' @ [ellipsis])"
    unfolding text_kept_def by blast
  with False assms(1) obtain k' where "128 \<le> k'" "k' < length (take k s' @ [ellipsis])"
    "u = Some (take k' (take k s' @ [ellipsis]) @ [ellipsis])"
    unfolding text_kept_def by blast
  with s show ?thesis by (simp add: min_def text_kept_cut)
qed

lemma text_kept_shorten: "129 < length (text_or_empty t) \<Longrightarrow> text_kept (map_option shorten t) t"
  by (cases t) (auto simp: shorten_def text_or_empty_def intro: text_kept_cut)

lemma event_kept_refl [simp]: "event_kept e e"
  by (simp add: event_kept_def)

lemma event_kept_trans: "event_kept c b \<Longrightarrow> event_kept b a \<Longrightarrow> event_kept c a"
  by (auto simp: event_kept_def intro: text_kept_trans)

lemma event_kept_shorten: "129 < length (text_or_empty (re_text e)) \<Longrightarrow> event_kept (shorten_event e) e"
  by (simp add: event_kept_def shorten_event_def text_kept_shorten)

lemma list_all2_event_kept_refl [simp]: "list_all2 event_kept es es"
  by (simp add: list_all2_same)

lemma list_emb_event_kept_refl [simp]: "list_emb event_kept es es"
  by (rule list_emb_refl) simp

lemma list_all2_emb: "list_all2 P xs ys \<Longrightarrow> list_emb P xs ys"
  by (induction rule: list_all2_induct) auto

lemma item_kept_refl [simp]: "item_kept i i"
  by (simp add: item_kept_def)

lemma item_kept_trans: "item_kept k j \<Longrightarrow> item_kept j i \<Longrightarrow> item_kept k i"
  unfolding item_kept_def
  by (auto intro: text_kept_trans list_emb_trans event_kept_trans
      list_all2_trans [of event_kept event_kept event_kept])

lemma item_kept_remove:
  assumes "Some (re_id e) \<noteq> ri_target i"
  shows "item_kept (i\<lparr>ri_events := Some (remove1 e (item_events i))\<rparr>) i"
proof -
  have "list_emb event_kept (remove1 e es) es" for es
    by (induction es) auto
  moreover have "filter (\<lambda>e. Some (re_id e) = ri_target i) (remove1 e es)
      = filter (\<lambda>e. Some (re_id e) = ri_target i) es" for es
    using assms by (induction es) auto
  ultimately show ?thesis by (simp add: item_kept_def cited_events_def)
qed

lemma list_all2_filter_kept:
  "list_all2 event_kept es' es \<Longrightarrow>
   list_all2 event_kept (filter (\<lambda>e. Some (re_id e) = t) es') (filter (\<lambda>e. Some (re_id e) = t) es)"
  by (induction rule: list_all2_induct) (auto simp: event_kept_def)

lemma item_kept_shorten:
  assumes "129 < len" "case l of
      None \<Rightarrow> len = length (text_or_empty (ri_excerpt i))
    | Some m \<Rightarrow> m < length (item_events i) \<and> len = length (text_or_empty (re_text (item_events i ! m)))"
  shows "item_kept (shorten_item l i) i"
proof (cases l)
  case None
  with assms show ?thesis
    by (simp add: item_kept_def shorten_item_def text_kept_shorten cited_events_def)
next
  case (Some m)
  with assms have "list_all2 event_kept ((item_events i)[m := shorten_event (item_events i ! m)]) (item_events i)"
    by (auto simp: list_all2_conv_all_nth nth_list_update event_kept_shorten)
  with Some show ?thesis
    by (simp add: item_kept_def shorten_item_def list_all2_emb cited_events_def list_all2_filter_kept)
qed

lemma list_all2_item_kept_refl [simp]: "list_all2 item_kept is is"
  by (simp add: list_all2_same)

lemma drop_context_kept:
  assumes "drop_context is = Some is'"
  shows "list_all2 item_kept is' is"
  using assms by (rule drop_context_Some) (simp add: list_all2_appendI item_kept_remove)

lemma shorten_longest_kept:
  assumes "shorten_longest is = Some is'"
  shows "list_all2 item_kept is' is"
  using assms
proof (rule shorten_longest_Some)
  fix len n l
  assume mem: "(len, n, l) \<in> set (candidates is)" and is': "is' = is[n := shorten_item l (is ! n)]"
  show ?thesis
    unfolding is' using candidates_cases [OF mem]
    by (auto simp: list_all2_conv_all_nth nth_list_update intro: item_kept_shorten [where len = len])
qed

lemma response_kept_refl [simp]: "response_kept r r"
  by (simp add: response_kept_def)

lemma response_kept_trans:
  assumes "response_kept r2 r1" "response_kept r1 r0"
  shows "response_kept r2 r0"
proof -
  let ?n1 = "length (results_of r1)" and ?n2 = "length (results_of r2)"
  from assms have "?n2 \<le> ?n1" "?n1 \<le> length (results_of r0)"
    by (auto simp: response_kept_def dest!: list_all2_lengthD)
  moreover from assms(2) have "list_all2 item_kept (take ?n2 (results_of r1)) (take ?n2 (take ?n1 (results_of r0)))"
    unfolding response_kept_def by (blast intro: list_all2_takeI)
  ultimately have "list_all2 item_kept (take ?n2 (results_of r1)) (take ?n2 (results_of r0))"
    by (simp add: min_def)
  then have "list_all2 item_kept (results_of r2) (take ?n2 (results_of r0))"
    using assms(1) unfolding response_kept_def
    by (blast intro: list_all2_trans [of item_kept item_kept item_kept] item_kept_trans)
  with assms show ?thesis by (simp add: response_kept_def)
qed

lemma response_kept_results:
  assumes "list_all2 item_kept is (results_of r)" "results_of r' = is"
    and "rp_rest r' = rp_rest r" "rp_omitted_results r' = rp_omitted_results r"
  shows "response_kept r' r"
  using assms list_all2_lengthD [OF assms(1)] by (simp add: response_kept_def)

lemma shrink_kept:
  assumes "shrink r = Some r'"
  shows "response_kept r' r"
proof (cases "drop_context (results_of r)")
  case (Some "is")
  with assms drop_context_kept [OF Some] show ?thesis
    by (auto simp: shrink_def intro: response_kept_results)
next
  case no_context: None
  show ?thesis
  proof (cases "shorten_longest (results_of r)")
    case (Some "is")
    with assms no_context shorten_longest_kept [OF Some] show ?thesis
      by (auto simp: shrink_def intro: response_kept_results)
  next
    case None
    with assms no_context show ?thesis
      by (auto simp: shrink_def response_kept_def butlast_conv_take split: if_splits)
  qed
qed

lemma bound_loop_kept: "bound_loop b r = Inr r' \<Longrightarrow> response_size r' \<le> b \<and> response_kept r' r"
proof (induction b r rule: bound_loop.induct)
  case (1 b r)
  then show ?case
    by (auto simp: bound_loop.simps [of b r] split: if_splits option.splits
        dest: shrink_kept intro: response_kept_trans)
qed

lemma start_response_kept [simp]:
  "response_kept r (drop_timings b (start_response r0)) \<longleftrightarrow> rp_rest r = rp_rest r0
     \<and> length (results_of r) + rp_omitted_results r = length (results_of r0)
     \<and> list_all2 item_kept (results_of r) (take (length (results_of r)) (results_of r0))"
  by (simp add: response_kept_def drop_timings_def start_response_def)

text \<open>A round fails only when nothing is left but the metadata.\<close>

lemma shrink_None: "shrink r = None \<Longrightarrow> results_of r = []"
  by (simp add: shrink_def split: option.splits if_splits)

lemma shrink_timings: "shrink r = Some r' \<Longrightarrow> rp_timings r' = rp_timings r"
  by (auto simp: shrink_def split: option.splits if_splits)

lemma bound_loop_error:
  "bound_loop b r = Inl e \<Longrightarrow> \<exists>r'. response_kept r' r \<and> results_of r' = [] \<and> rp_timings r' = rp_timings r
     \<and> b < response_size r'"
proof (induction b r rule: bound_loop.induct)
  case (1 b r)
  show ?case
  proof (cases "shrink r")
    case None
    with "1.prems" show ?thesis
      by (auto simp: bound_loop.simps [of b r] shrink_None split: if_splits intro!: exI [of _ r])
  next
    case (Some r1)
    with 1 obtain r' where "response_kept r' r1" "results_of r' = []" "rp_timings r' = rp_timings r1"
      "b < response_size r'"
      by (auto simp: bound_loop.simps [of b r] split: if_splits)
    with Some show ?thesis
      by (metis response_kept_trans shrink_kept shrink_timings)
  qed
qed

section \<open>Properties\<close>

text \<open>Two small responses for the instances of the properties.\<close>

definition sample_metadata :: "nat \<Rightarrow> response" where
  "sample_metadata n = \<lparr>rp_results = Some [], rp_truncated = False, rp_omitted_results = 0,
     rp_omitted_events = 0, rp_timings = None, rp_rest = [(lit ''error'', JStr (replicate n 120))]\<rparr>"

lemma sample_metadata_size: "n < response_size (sample_metadata n)"
proof -
  have x: "json_string (replicate n 120) = 34 # replicate n 120 @ [34]" for n
    by (induction n) (simp_all add: json_string_def esc_char_def)
  have "n < length (canonical_json (response_json (sample_metadata n)))"
    by (simp add: sample_metadata_def response_json_def opt_member_def json_member_def x lit_def)
  then show ?thesis
    using length_utf8_ge order_less_le_trans by (simp add: response_size_def encode_json_def) blast
qed

lemma sample_metadata_updates:
  "start_response (sample_metadata n) = sample_metadata n" "(sample_metadata n)\<lparr>rp_timings := None\<rparr> = sample_metadata n"
  "shrink (sample_metadata n) = None"
  by (simp_all add: start_response_def sample_metadata_def shrink_def results_of_def shorten_longest_def candidates_def)

definition sample_response :: response where
  "sample_response = \<lparr>rp_results = Some [\<lparr>ri_target = Some (lit ''e1''), ri_excerpt = Some (lit ''hit''),
     ri_events = None, ri_cut = False, ri_rest = []\<rparr>], rp_truncated = False, rp_omitted_results = 0,
     rp_omitted_events = 0, rp_timings = None, rp_rest = []\<rparr>"

lemma sample_response_fits: "bounded_response sample_response 1024 = Inr (start_response sample_response)"
  by code_simp

text \<open>
  C23: A bounded response fits its budget in bytes of canonical JSON, and it keeps, in order,
  a prefix of the original results with their citations: every kept item retains each event
  it cites, texts are whole or a prefix of at least 128 characters with an ellipsis, and the
  number of omitted results is exact.
\<close>

theorem bounded_response_sound:
  assumes "bounded_response r budget = Inr r'"
  shows "int (response_size r') \<le> budget \<and> rp_rest r' = rp_rest r
    \<and> length (results_of r') + rp_omitted_results r' = length (results_of r)
    \<and> list_all2 item_kept (results_of r') (take (length (results_of r')) (results_of r))"
proof -
  from assms have b: "1024 \<le> budget"
    and run: "bound_loop (nat budget) (drop_timings (nat budget) (start_response r)) = Inr r'"
    by (auto simp: bounded_response_def split: if_splits)
  from bound_loop_kept [OF run] b show ?thesis by auto
qed

lemma bounded_response_sound_witness: "response_size (start_response sample_response) \<le> 1024"
  using bounded_response_sound [OF sample_response_fits] by simp

text \<open>
  With a budget in the accepted range, bounding fails only when the response metadata
  alone, without a single result and without the timings, is larger than the budget.
\<close>

theorem bounded_response_fails_only_on_metadata:
  assumes "bounded_response r budget = Inl e" and "1024 \<le> budget" "budget \<le> 65536"
  shows "\<exists>m. results_of m = [] \<and> rp_timings m = None \<and> rp_rest m = rp_rest r
    \<and> rp_omitted_results m = length (results_of r) \<and> budget < int (response_size m)"
proof -
  let ?r = "drop_timings (nat budget) (start_response r)"
  from assms have run: "bound_loop (nat budget) ?r = Inl e"
    by (simp add: bounded_response_def)
  from bound_loop_error [OF run] obtain m where m: "response_kept m ?r" "results_of m = []"
    "rp_timings m = rp_timings ?r" "nat budget < response_size m" by blast
  have "nat budget < response_size (start_response r)"
  proof (rule ccontr)
    assume "\<not> nat budget < response_size (start_response r)"
    then have "bound_loop (nat budget) ?r = Inr (start_response r)"
      by (simp add: drop_timings_def bound_loop.simps [of _ "start_response r"])
    with run show False by simp
  qed
  with m assms(2) show ?thesis
    by (intro exI [of _ m]) (auto simp: drop_timings_def start_response_def response_kept_def)
qed

lemma bounded_response_fails_only_on_metadata_witness: "\<exists>m. results_of m = [] \<and> 1024 < response_size m"
proof -
  have "bounded_response (sample_metadata 1024) 1024 = Inl (ValueError ''response metadata exceeds output budget'')"
    using sample_metadata_size [of 1024]
    by (simp add: bounded_response_def bound_loop.simps drop_timings_def sample_metadata_updates)
  from bounded_response_fails_only_on_metadata [OF this] show ?thesis by auto
qed

end
