(* ===== verification/Files.thy ===== *)
theory Files
  imports Prelude
begin

text \<open>
  The data directory on disk: its object namespaces, upload staging directories and
  publication markers, as the state that the storage components read and write. A
  directory is the list of its entries in scan order.
\<close>

section \<open>Directories\<close>

text \<open>
  An entry is a regular file with its bytes, a symbolic link, or a directory with the size
  \<open>stat\<close> reports. Writing a name replaces its entry; a missing file is \<open>None\<close>.
\<close>

datatype node = File bytes | Link | Directory nat

type_synonym dir = "(pystr \<times> node) list"

definition dir_get :: "dir \<Rightarrow> pystr \<Rightarrow> node option" where
  "dir_get d n = map_of d n"

definition dir_put :: "pystr \<Rightarrow> node \<Rightarrow> dir \<Rightarrow> dir" where
  "dir_put n x d = AList.update n x d"

definition dir_del :: "pystr \<Rightarrow> dir \<Rightarrow> dir" where
  "dir_del n d = AList.delete n d"

lemma dir_get_put [simp]: "dir_get (dir_put n x d) m = (if m = n then Some x else dir_get d m)"
  by (simp add: dir_get_def dir_put_def update_conv')

lemma dir_get_del [simp]: "dir_get (dir_del n d) m = (if m = n then None else dir_get d m)"
  by (simp add: dir_get_def dir_del_def delete_conv')

lemma dir_get_Nil [simp]: "dir_get [] n = None"
  by (simp add: dir_get_def)

text \<open>A directory only gains entries: every file keeps its bytes.\<close>

definition dir_le :: "dir \<Rightarrow> dir \<Rightarrow> bool" where
  "dir_le d d' \<longleftrightarrow> (\<forall>n x. dir_get d n = Some x \<longrightarrow> dir_get d' n = Some x)"

lemma dir_le_refl [simp]: "dir_le d d"
  by (simp add: dir_le_def)

lemma dir_le_trans [trans]: "dir_le a b \<Longrightarrow> dir_le b c \<Longrightarrow> dir_le a c"
  by (simp add: dir_le_def)

lemma dir_le_put: "dir_get d n = None \<Longrightarrow> dir_le d (dir_put n x d)"
  by (auto simp: dir_le_def)

lemma dir_leD: "dir_le d d' \<Longrightarrow> dir_get d n = Some x \<Longrightarrow> dir_get d' n = Some x"
  by (simp add: dir_le_def)

section \<open>The data root\<close>

text \<open>
  \<open>objects/raw\<close>, \<open>objects/revision-upload\<close> and the two directories of
  \<open>objects/chunked-raw\<close>, keyed by the full digest (the two-character fan-out is part of the
  path only); the staging directories \<open>transfers\<close> and \<open>revision-transfers\<close>, keyed by file
  name; and the markers \<open>FENCED.json\<close>, \<open>CURRENT\<close> and \<open>manifest.json\<close>.
\<close>

record data_root =
  raw_files :: dir
  upload_files :: dir
  chunk_files :: dir
  recipe_files :: dir
  raw_staging :: dir
  upload_staging :: dir
  is_fenced :: bool
  has_current :: bool
  has_manifest :: bool

datatype namespace = Raw | RevisionUpload

definition object_dir :: "namespace \<Rightarrow> data_root \<Rightarrow> dir" where
  "object_dir ns r = (case ns of Raw \<Rightarrow> raw_files r | RevisionUpload \<Rightarrow> upload_files r)"

definition set_object_dir :: "namespace \<Rightarrow> dir \<Rightarrow> data_root \<Rightarrow> data_root" where
  "set_object_dir ns d r = (case ns of Raw \<Rightarrow> r\<lparr>raw_files := d\<rparr> | RevisionUpload \<Rightarrow> r\<lparr>upload_files := d\<rparr>)"

definition staging_dir :: "namespace \<Rightarrow> data_root \<Rightarrow> dir" where
  "staging_dir ns r = (case ns of Raw \<Rightarrow> raw_staging r | RevisionUpload \<Rightarrow> upload_staging r)"

definition set_staging_dir :: "namespace \<Rightarrow> dir \<Rightarrow> data_root \<Rightarrow> data_root" where
  "set_staging_dir ns d r = (case ns of Raw \<Rightarrow> r\<lparr>raw_staging := d\<rparr>
     | RevisionUpload \<Rightarrow> r\<lparr>upload_staging := d\<rparr>)"

lemma object_dir_set [simp]:
  "object_dir ns' (set_object_dir ns d r) = (if ns' = ns then d else object_dir ns' r)"
  "object_dir ns' (set_staging_dir ns d r) = object_dir ns' r"
  "staging_dir ns' (set_staging_dir ns d r) = (if ns' = ns then d else staging_dir ns' r)"
  "staging_dir ns' (set_object_dir ns d r) = staging_dir ns' r"
  by (cases ns; cases ns'; simp add: object_dir_def set_object_dir_def staging_dir_def set_staging_dir_def)+

lemma chunk_dirs_set [simp]:
  "chunk_files (set_object_dir ns d r) = chunk_files r" "recipe_files (set_object_dir ns d r) = recipe_files r"
  "chunk_files (set_staging_dir ns d r) = chunk_files r" "recipe_files (set_staging_dir ns d r) = recipe_files r"
  by (cases ns; simp add: set_object_dir_def set_staging_dir_def)+

lemma object_dir_chunks [simp]:
  "object_dir ns (r\<lparr>chunk_files := d\<rparr>) = object_dir ns r"
  "object_dir ns (r\<lparr>recipe_files := d\<rparr>) = object_dir ns r"
  "staging_dir ns (r\<lparr>chunk_files := d\<rparr>) = staging_dir ns r"
  "staging_dir ns (r\<lparr>recipe_files := d\<rparr>) = staging_dir ns r"
  by (cases ns; simp add: object_dir_def staging_dir_def)+

lemma object_dir_simps [simp]:
  "object_dir Raw r = raw_files r" "object_dir RevisionUpload r = upload_files r"
  by (simp_all add: object_dir_def)

lemma set_object_dir_files [simp]:
  "raw_files (set_object_dir ns d r) = (if ns = Raw then d else raw_files r)"
  "upload_files (set_object_dir ns d r) = (if ns = RevisionUpload then d else upload_files r)"
  "raw_files (set_staging_dir ns d r) = raw_files r" "upload_files (set_staging_dir ns d r) = upload_files r"
  "is_fenced (set_object_dir ns d r) = is_fenced r" "is_fenced (set_staging_dir ns d r) = is_fenced r"
  "has_current (set_object_dir ns d r) = has_current r" "has_current (set_staging_dir ns d r) = has_current r"
  "has_manifest (set_object_dir ns d r) = has_manifest r" "has_manifest (set_staging_dir ns d r) = has_manifest r"
  by (cases ns; simp add: set_object_dir_def set_staging_dir_def)+

text \<open>
  The hash parameter of the storage components prints as 64 hexadecimal digits, as
  \<open>hexdigest\<close> does.
\<close>

definition hash_ok :: "(bytes \<Rightarrow> pystr) \<Rightarrow> bool" where
  "hash_ok H \<longleftrightarrow> (\<forall>b. is_hex 64 (H b))"

text \<open>A fresh data directory, and a small hash for the concrete instances of the theorems.\<close>

definition empty_root :: data_root where
  "empty_root = \<lparr>raw_files = [], upload_files = [], chunk_files = [], recipe_files = [],
     raw_staging = [], upload_staging = [], is_fenced = False, has_current = False, has_manifest = False\<rparr>"

definition sample_hash :: "bytes \<Rightarrow> pystr" where
  "sample_hash b = replicate 63 48 @ [48 + sum_list b mod 10]"

lemma is_hex_sample [simp]: "is_hex 64 (sample_hash b)"
proof -
  have "sum_list b mod 10 \<le> 9" by linarith
  then show ?thesis by (simp add: sample_hash_def is_hex_def hex_digit_def list_all_iff)
qed

lemma hash_ok_sample: "hash_ok sample_hash"
  by (simp add: hash_ok_def)

text \<open>Growth of the object namespaces: no object is changed or removed.\<close>

definition objects_le :: "data_root \<Rightarrow> data_root \<Rightarrow> bool" where
  "objects_le r s \<longleftrightarrow> dir_le (raw_files r) (raw_files s) \<and> dir_le (upload_files r) (upload_files s)
     \<and> dir_le (chunk_files r) (chunk_files s) \<and> dir_le (recipe_files r) (recipe_files s)"

lemma objects_le_refl [simp]: "objects_le r r"
  by (simp add: objects_le_def)

lemma objects_le_trans [trans]: "objects_le a b \<Longrightarrow> objects_le b c \<Longrightarrow> objects_le a c"
  unfolding objects_le_def by (blast intro: dir_le_trans)

end
