(* ===== verification/Records.thy ===== *)
theory Records
  imports Json
begin

text \<open>
  The portable evidence records of \<open>core/records.py\<close>: events, session revisions, citations
  and search queries, their constructors with every validation branch, and the content
  address of a revision. The datetime arithmetic of the standard library inside
  \<open>normalize_time\<close> is the parameter \<open>utc\<close>; the hash is the parameter \<open>H\<close>.
\<close>

section \<open>Dynamic values\<close>

text \<open>Python's truth value of a decoded JSON value, and \<open>str.strip()\<close>'s white space.\<close>

fun truthy :: "json \<Rightarrow> bool" where
  "truthy JNull = False"
| "truthy (JBool b) = b"
| "truthy (JInt i) = (i \<noteq> 0)"
| "truthy (JStr s) = (s \<noteq> [])"
| "truthy (JList xs) = (xs \<noteq> [])"
| "truthy (JObj kvs) = (kvs \<noteq> [])"

definition py_space :: "nat \<Rightarrow> bool" where
  "py_space c \<longleftrightarrow> (9 \<le> c \<and> c \<le> 13) \<or> (28 \<le> c \<and> c \<le> 32) \<or> c \<in> {133, 160, 5760}
     \<or> (8192 \<le> c \<and> c \<le> 8202) \<or> c \<in> {8232, 8233, 8239, 8287, 12288}"

definition strip :: "pystr \<Rightarrow> pystr" where
  "strip s = rev (dropWhile py_space (rev (dropWhile py_space s)))"

text \<open>\<open>isinstance(value, str)\<close>, and the elements of a list that must all be strings.\<close>

definition is_str :: "json \<Rightarrow> bool" where
  "is_str v = (case v of JStr _ \<Rightarrow> True | _ \<Rightarrow> False)"

definition str_of :: "json \<Rightarrow> pystr" where
  "str_of v = (case v of JStr s \<Rightarrow> s | _ \<Rightarrow> [])"

definition unhashable :: "json \<Rightarrow> bool" where
  "unhashable v = (case v of JList _ \<Rightarrow> True | JObj _ \<Rightarrow> True | _ \<Rightarrow> False)"

text \<open>\<open>isinstance(value, int)\<close>: booleans are integers in Python.\<close>

definition int_of :: "json \<Rightarrow> int option" where
  "int_of v = (case v of JInt i \<Rightarrow> Some i | JBool b \<Rightarrow> Some (of_bool b) | _ \<Rightarrow> None)"

text \<open>
  Calling a dataclass constructor with \<open>**mapping\<close>: an unknown keyword or a missing required
  one is a \<open>TypeError\<close>.
\<close>

definition keywords_ok :: "string list \<Rightarrow> string list \<Rightarrow> (pystr \<times> json) list \<Rightarrow> bool" where
  "keywords_ok required optional kvs \<longleftrightarrow>
     (\<forall>k \<in> set (map fst kvs). k \<in> set (map lit (required @ optional))) \<and>
     (\<forall>k \<in> set required. lit k \<in> set (map fst kvs))"

definition field_or :: "(pystr \<times> json) list \<Rightarrow> string \<Rightarrow> json \<Rightarrow> json" where
  "field_or kvs k d = (case jget kvs k of None \<Rightarrow> d | Some v \<Rightarrow> v)"

section \<open>Times\<close>

text \<open>
  \<open>normalize_time\<close>: the empty string stays empty; otherwise \<open>utc\<close> parses the ISO 8601 text and
  prints it in UTC with microseconds, or raises.
\<close>

definition normalize_time :: "(pystr \<Rightarrow> pystr result) \<Rightarrow> pystr \<Rightarrow> pystr result" where
  "normalize_time utc value = (if value = [] then Inr [] else utc value)"

section \<open>Events\<close>

record event =
  ev_id :: pystr
  ev_role :: pystr
  ev_text :: pystr
  ev_time :: pystr
  ev_origin :: pystr
  ev_kind :: pystr

definition event_roles :: "pystr set" where
  "event_roles = {lit ''user'', lit ''assistant'', lit ''tool'', lit ''context''}"

definition make_event :: "(pystr \<Rightarrow> pystr result) \<Rightarrow> json \<Rightarrow> json \<Rightarrow> json \<Rightarrow> json \<Rightarrow> json \<Rightarrow> json
    \<Rightarrow> event result" where
  "make_event utc eid role txt ts origin kind =
     (if \<not> is_str eid \<or> str_of eid = [] then Inl (ValueError ''invalid event identity or role'')
      else if unhashable role then Inl (TypeError ''unhashable type'')
      else if \<not> is_str role \<or> str_of role \<notin> event_roles
        then Inl (ValueError ''invalid event identity or role'')
      else if \<not> (is_str txt \<and> is_str ts \<and> is_str origin \<and> is_str kind)
        then Inl (ValueError ''event fields must be strings'')
      else bindR (normalize_time utc (str_of ts)) (\<lambda>t.
        Inr \<lparr>ev_id = str_of eid, ev_role = str_of role, ev_text = str_of txt, ev_time = t,
             ev_origin = str_of origin, ev_kind = str_of kind\<rparr>))"

definition event_dict :: "event \<Rightarrow> (pystr \<times> json) list" where
  "event_dict e =
     [(lit ''event_id'', JStr (ev_id e)), (lit ''role'', JStr (ev_role e)),
      (lit ''text'', JStr (ev_text e)), (lit ''timestamp'', JStr (ev_time e)),
      (lit ''origin'', JStr (ev_origin e)), (lit ''kind'', JStr (ev_kind e))]"

text \<open>\<open>Event(**mapping)\<close>.\<close>

definition event_of_dict :: "(pystr \<Rightarrow> pystr result) \<Rightarrow> (pystr \<times> json) list \<Rightarrow> event result" where
  "event_of_dict utc kvs =
     (if \<not> keywords_ok [''event_id'', ''role'', ''text''] [''timestamp'', ''origin'', ''kind''] kvs
      then Inl (TypeError ''Event.__init__'')
      else make_event utc (field_or kvs ''event_id'' JNull) (field_or kvs ''role'' JNull)
        (field_or kvs ''text'' JNull) (field_or kvs ''timestamp'' (JStr []))
        (field_or kvs ''origin'' (JStr (lit ''user''))) (field_or kvs ''kind'' (JStr (lit ''message''))))"

section \<open>Session revisions\<close>

record session =
  ses_id :: pystr
  ses_events :: "event list"
  ses_source :: pystr
  ses_project :: pystr
  ses_title :: pystr
  ses_parent :: "pystr option"
  ses_subagent :: bool
  ses_parser :: pystr

definition make_session :: "json \<Rightarrow> event list \<Rightarrow> json \<Rightarrow> json \<Rightarrow> json \<Rightarrow> json \<Rightarrow> json \<Rightarrow> json
    \<Rightarrow> session result" where
  "make_session sid evs source project title parent sub parser =
     (if \<not> is_str sid \<or> str_of sid = [] \<or> \<not> truthy source
        then Inl (ValueError ''session identity is required'')
      else if \<not> (is_str source \<and> is_str project \<and> is_str title \<and> is_str parser)
        then Inl (ValueError ''session metadata must be strings'')
      else if parent \<noteq> JNull \<and> \<not> is_str parent
        then Inl (ValueError ''parent session identity must be a string'')
      else (case sub of
          JBool b \<Rightarrow>
            if \<not> distinct (map ev_id evs) then Inl (ValueError ''duplicate event identity'')
            else Inr \<lparr>ses_id = str_of sid, ses_events = evs, ses_source = str_of source,
                 ses_project = str_of project, ses_title = str_of title,
                 ses_parent = (if parent = JNull then None else Some (str_of parent)),
                 ses_subagent = b, ses_parser = str_of parser\<rparr>
        | _ \<Rightarrow> Inl (ValueError ''invalid session events or subagent flag'')))"

definition parent_json :: "pystr option \<Rightarrow> json" where
  "parent_json p = (case p of None \<Rightarrow> JNull | Some s \<Rightarrow> JStr s)"

definition session_dict :: "session \<Rightarrow> (pystr \<times> json) list" where
  "session_dict s =
     [(lit ''session_id'', JStr (ses_id s)),
      (lit ''events'', JList (map (JObj \<circ> event_dict) (ses_events s))),
      (lit ''source'', JStr (ses_source s)), (lit ''project'', JStr (ses_project s)),
      (lit ''title'', JStr (ses_title s)), (lit ''parent_session_id'', parent_json (ses_parent s)),
      (lit ''is_subagent'', JBool (ses_subagent s)), (lit ''parser_version'', JStr (ses_parser s))]"

text \<open>
  \<open>SessionRevision(**mapping)\<close> once the \<open>events\<close> member has been turned into a tuple of
  events, as the callers do.
\<close>

definition session_keys :: "string list" where
  "session_keys = [''source'', ''project'', ''title'', ''parent_session_id'', ''is_subagent'',
     ''parser_version'']"

definition session_of_dict :: "(pystr \<times> json) list \<Rightarrow> event list \<Rightarrow> session result" where
  "session_of_dict kvs evs =
     (if \<not> keywords_ok [''session_id'', ''events''] session_keys kvs
      then Inl (TypeError ''SessionRevision.__init__'')
      else make_session (field_or kvs ''session_id'' JNull) evs
        (field_or kvs ''source'' (JStr (lit ''codex''))) (field_or kvs ''project'' (JStr []))
        (field_or kvs ''title'' (JStr [])) (field_or kvs ''parent_session_id'' JNull)
        (field_or kvs ''is_subagent'' (JBool False))
        (field_or kvs ''parser_version'' (JStr (lit ''codex-v1''))))"

text \<open>
  A session from its decoded document, as every reader builds it: the events first, then the
  session. \<open>dict(value)\<close> and \<open>**event\<close> raise unless they are given objects; iterating over the
  empty string or an empty object yields no events.
\<close>

definition event_of_json :: "(pystr \<Rightarrow> pystr result) \<Rightarrow> json \<Rightarrow> event result" where
  "event_of_json utc v = (case v of JObj kvs \<Rightarrow> event_of_dict utc kvs | _ \<Rightarrow> Inl (TypeError ''argument after ** must be a mapping''))"

definition session_of_json :: "(pystr \<Rightarrow> pystr result) \<Rightarrow> json \<Rightarrow> session result" where
  "session_of_json utc v = (case v of
       JObj kvs \<Rightarrow> (case jget kvs ''events'' of
           None \<Rightarrow> Inl (KeyError ''events'')
         | Some (JList es) \<Rightarrow> bindR (mapR (event_of_json utc) es) (session_of_dict kvs)
         | Some x \<Rightarrow> if x = JStr [] \<or> x = JObj [] then session_of_dict kvs []
             else Inl (TypeError ''events''))
     | _ \<Rightarrow> Inl (TypeError ''session''))"

definition session_revision :: "(bytes \<Rightarrow> pystr) \<Rightarrow> session \<Rightarrow> pystr" where
  "session_revision H s = json_digest H (JObj (session_dict s))"

section \<open>Citations\<close>

record citation =
  cite_session :: pystr
  cite_revision :: pystr
  cite_event :: pystr
  cite_offset :: nat

definition make_citation :: "json \<Rightarrow> json \<Rightarrow> json \<Rightarrow> json \<Rightarrow> citation result" where
  "make_citation sid rv eid off =
     (if \<not> (\<forall>v \<in> {sid, rv, eid}. is_str v \<and> str_of v \<noteq> [])
        then Inl (ValueError ''citation identity must contain nonempty strings'')
      else (case int_of off of
          None \<Rightarrow> Inl (ValueError ''citation offset must be a nonnegative integer'')
        | Some i \<Rightarrow> if i < 0 then Inl (ValueError ''citation offset must be a nonnegative integer'')
            else Inr \<lparr>cite_session = str_of sid, cite_revision = str_of rv,
                 cite_event = str_of eid, cite_offset = nat i\<rparr>))"

definition citation_dict :: "citation \<Rightarrow> (pystr \<times> json) list" where
  "citation_dict c =
     [(lit ''session_id'', JStr (cite_session c)), (lit ''revision'', JStr (cite_revision c)),
      (lit ''event_id'', JStr (cite_event c)), (lit ''offset'', JInt (int (cite_offset c)))]"

definition citation_of_dict :: "(pystr \<times> json) list \<Rightarrow> citation result" where
  "citation_of_dict kvs =
     (if \<not> keywords_ok [''session_id'', ''revision'', ''event_id''] [''offset''] kvs
      then Inl (TypeError ''Citation.__init__'')
      else make_citation (field_or kvs ''session_id'' JNull) (field_or kvs ''revision'' JNull)
        (field_or kvs ''event_id'' JNull) (field_or kvs ''offset'' (JInt 0)))"

section \<open>Search queries\<close>

record query =
  q_text :: pystr
  q_literal :: bool
  q_role :: "pystr option"
  q_after :: "pystr option"
  q_before :: "pystr option"
  q_project :: "pystr option"
  q_session :: "pystr option"
  q_producer :: "pystr option"
  q_exclude :: "pystr list"
  q_subagents :: bool
  q_limit :: int
  q_sources :: "pystr list option"
  q_all_sources :: bool

text \<open>
  The optional string parameters of a query: absent, or a string. A bound that is present
  and not empty is normalised; the empty string is left as it is.
\<close>

definition normalize_bound :: "(pystr \<Rightarrow> pystr result) \<Rightarrow> pystr option \<Rightarrow> pystr option result" where
  "normalize_bound utc v = (case v of None \<Rightarrow> Inr None
     | Some s \<Rightarrow> if s = [] then Inr (Some s) else bindR (normalize_time utc s) (\<lambda>t. Inr (Some t)))"

definition nonempty_opt :: "pystr option \<Rightarrow> bool" where
  "nonempty_opt v = (case v of None \<Rightarrow> False | Some s \<Rightarrow> s \<noteq> [])"

definition opt_str :: "pystr option \<Rightarrow> pystr" where
  "opt_str v = (case v of None \<Rightarrow> [] | Some s \<Rightarrow> s)"

definition check_query :: "(pystr \<Rightarrow> pystr result) \<Rightarrow> query \<Rightarrow> query result" where
  "check_query utc q =
     (if (case q_sources q of None \<Rightarrow> False | Some ss \<Rightarrow>
            \<not> (1 \<le> length ss \<and> length ss \<le> 32) \<or> (\<exists>s \<in> set ss. s = [] \<or> 64 < length s))
        then Inl (ValueError ''sources must contain 1-32 nonempty source names'')
      else if q_sources q \<noteq> None \<and> q_all_sources q
        then Inl (ValueError ''sources and all_sources are mutually exclusive'')
      else if strip (q_text q) = [] \<or> 8192 < length (q_text q)
        then Inl (ValueError ''query must contain 1-8192 characters'')
      else if q_role q \<notin> {None, Some (lit ''user''), Some (lit ''assistant'')}
        then Inl (ValueError ''role must be user or assistant'')
      else if \<not> (1 \<le> q_limit q \<and> q_limit q \<le> 100)
        then Inl (ValueError ''limit must be between 1 and 100'')
      else if 100 < length (q_exclude q)
        then Inl (ValueError ''exclude_sessions must contain at most 100 session identities'')
      else bindR (normalize_bound utc (q_after q)) (\<lambda>after.
           bindR (normalize_bound utc (q_before q)) (\<lambda>before.
             if nonempty_opt after \<and> nonempty_opt before \<and> opt_str before \<le> opt_str after
             then Inl (ValueError ''after must precede before'')
             else Inr (q\<lparr>q_after := after, q_before := before\<rparr>))))"

section \<open>Validity\<close>

text \<open>
  The events and sessions that the constructors produce. A time is normal when parsing and
  printing it again gives it back.
\<close>

definition valid_event :: "(pystr \<Rightarrow> pystr result) \<Rightarrow> event \<Rightarrow> bool" where
  "valid_event utc e \<longleftrightarrow> ev_id e \<noteq> [] \<and> ev_role e \<in> event_roles
     \<and> normalize_time utc (ev_time e) = Inr (ev_time e)"

definition valid_session :: "(pystr \<Rightarrow> pystr result) \<Rightarrow> session \<Rightarrow> bool" where
  "valid_session utc s \<longleftrightarrow> ses_id s \<noteq> [] \<and> ses_source s \<noteq> [] \<and> distinct (map ev_id (ses_events s))
     \<and> (\<forall>e \<in> set (ses_events s). valid_event utc e)"

lemma is_str_JStr [simp]: "is_str (JStr s)" "str_of (JStr s) = s"
  by (simp_all add: is_str_def str_of_def)

lemma is_str_cases: "is_str v \<Longrightarrow> \<exists>s. v = JStr s"
  by (cases v) (simp_all add: is_str_def)

lemma make_event_valid:
  assumes "make_event utc eid role txt ts origin kind = Inr e"
    and "\<And>v w. utc v = Inr w \<Longrightarrow> w \<noteq> [] \<and> utc w = Inr w"
  shows "valid_event utc e"
  using assms
  by (auto simp: make_event_def valid_event_def normalize_time_def bindR_Inr_iff split: if_splits)

lemma make_session_valid:
  assumes "make_session sid evs source project title parent sub parser = Inr s"
    and "\<forall>e \<in> set evs. valid_event utc e"
  shows "valid_session utc s \<and> ses_events s = evs"
  using assms
  by (auto simp: make_session_def valid_session_def split: if_splits json.splits
      dest!: is_str_cases)

lemma unhashable_JStr [simp]: "\<not> unhashable (JStr s)"
  by (simp add: unhashable_def)

lemmas dict_defs = keywords_ok_def field_or_def jget_def

lemma event_of_event_dict: "valid_event utc e \<Longrightarrow> event_of_dict utc (event_dict e) = Inr e"
  by (simp add: event_of_dict_def event_dict_def make_event_def dict_defs valid_event_def)

lemma events_of_event_dicts:
  "\<forall>e \<in> set es. valid_event utc e \<Longrightarrow> mapR (event_of_dict utc) (map event_dict es) = Inr es"
  by (induction es) (simp_all add: event_of_event_dict)

lemma session_of_session_dict:
  "valid_session utc s \<Longrightarrow> session_of_dict (session_dict s) (ses_events s) = Inr s"
  by (cases "ses_parent s")
    (simp_all add: session_of_dict_def session_dict_def make_session_def dict_defs
      session_keys_def valid_session_def parent_json_def is_str_def)

text \<open>The constructors read the members by name, so their order does not matter.\<close>

lemma normal_event_dict: "normal_json (JObj (event_dict e)) = JObj
    [(lit ''event_id'', JStr (ev_id e)), (lit ''kind'', JStr (ev_kind e)), (lit ''origin'', JStr (ev_origin e)),
     (lit ''role'', JStr (ev_role e)), (lit ''text'', JStr (ev_text e)), (lit ''timestamp'', JStr (ev_time e))]"
  by (simp add: event_dict_def lit_def)

lemma normal_parent [simp]: "normal_json (parent_json p) = parent_json p"
  by (cases p) (simp_all add: parent_json_def)

definition session_members :: "session \<Rightarrow> (pystr \<times> json) list" where
  "session_members s =
     [(lit ''events'', JList (map (normal_json \<circ> (JObj \<circ> event_dict)) (ses_events s))),
      (lit ''is_subagent'', JBool (ses_subagent s)), (lit ''parent_session_id'', parent_json (ses_parent s)),
      (lit ''parser_version'', JStr (ses_parser s)), (lit ''project'', JStr (ses_project s)),
      (lit ''session_id'', JStr (ses_id s)), (lit ''source'', JStr (ses_source s)), (lit ''title'', JStr (ses_title s))]"

lemma normal_session_dict: "normal_json (JObj (session_dict s)) = JObj (session_members s)"
  by (simp add: session_dict_def session_members_def lit_def)

lemma event_of_json_normal:
  "valid_event utc e \<Longrightarrow> event_of_json utc (normal_json (JObj (event_dict e))) = Inr e"
  unfolding normal_event_dict
  by (simp add: event_of_json_def event_of_dict_def make_event_def dict_defs valid_event_def)

lemma session_of_json_normal:
  assumes "valid_session utc s"
  shows "session_of_json utc (normal_json (JObj (session_dict s))) = Inr s"
proof -
  have "mapR (event_of_json utc) (map (normal_json \<circ> (JObj \<circ> event_dict)) (ses_events s)) = Inr (ses_events s)"
    using assms by (auto simp: mapR_Inr_iff valid_session_def list_all2_map1 event_of_json_normal
        simp del: normal_json.simps intro!: list.rel_refl_strong)
  then show ?thesis
    using assms unfolding normal_session_dict
    by (cases "ses_parent s")
      (simp_all add: session_of_json_def session_members_def session_of_dict_def make_session_def dict_defs
        session_keys_def valid_session_def parent_json_def is_str_def)
qed

section \<open>The revision identifies the session\<close>

lemma normal_json_simps_atom [simp]:
  "normal_json v = JStr s \<longleftrightarrow> v = JStr s" "normal_json v = JBool b \<longleftrightarrow> v = JBool b"
  "normal_json v = JNull \<longleftrightarrow> v = JNull"
  by (cases v; simp)+

lemma event_dict_inject:
  assumes "normal_json (JObj (event_dict e)) = normal_json (JObj (event_dict f))"
  shows "e = f"
proof -
  have "map_option normal_json (map_of (event_dict e) k) = map_option normal_json (map_of (event_dict f) k)" for k
    by (rule normal_json_obj_lookup [OF assms]) (simp_all add: event_dict_def)
  from this [of "lit ''event_id''"] this [of "lit ''role''"] this [of "lit ''text''"]
    this [of "lit ''timestamp''"] this [of "lit ''origin''"] this [of "lit ''kind''"]
  show ?thesis by (simp add: event_dict_def)
qed

lemma session_dict_inject:
  assumes "normal_json (JObj (session_dict s)) = normal_json (JObj (session_dict t))"
  shows "s = t"
proof -
  have same: "map_option normal_json (map_of (session_dict s) k)
      = map_option normal_json (map_of (session_dict t) k)" for k
    by (rule normal_json_obj_lookup [OF assms]) (simp_all add: session_dict_def)
  have "map (normal_json \<circ> (JObj \<circ> event_dict)) (ses_events s)
      = map (normal_json \<circ> (JObj \<circ> event_dict)) (ses_events t)"
    using same [of "lit ''events''"] by (simp add: session_dict_def)
  moreover have "inj (normal_json \<circ> (JObj \<circ> event_dict))"
    by (rule injI) (metis comp_apply event_dict_inject)
  ultimately have "ses_events s = ses_events t"
    by (simp add: inj_map_eq_map)
  moreover have "ses_parent s = ses_parent t"
    using same [of "lit ''parent_session_id''"]
    by (cases "ses_parent s"; cases "ses_parent t") (simp_all add: session_dict_def parent_json_def)
  ultimately show ?thesis
    using same [of "lit ''session_id''"] same [of "lit ''source''"] same [of "lit ''project''"]
      same [of "lit ''title''"] same [of "lit ''is_subagent''"] same [of "lit ''parser_version''"]
    by (simp add: session_dict_def)
qed

lemma encode_session_inject:
  "encode_json (JObj (session_dict s)) = encode_json (JObj (session_dict t)) \<Longrightarrow> s = t"
  by (rule session_dict_inject) (rule encode_json_inject)

end
