(* ===== verification/Json_Loads.thy ===== *)
theory Json_Loads
  imports Json
begin

text \<open>
  \<open>json.loads\<close> on bytes, as every reader of a persisted or received document uses it: UTF-8
  decoding, the JSON scanner with Python's treatment of duplicate members and escapes, and
  the proof that it reads back every canonical document. A document with a floating-point
  number is outside the model and read as undecodable. The scanner carries fuel; the length
  of the text is shown to be enough for every canonical document.
\<close>

section \<open>Decoding UTF-8\<close>

definition utf8_width :: "nat \<Rightarrow> nat" where
  "utf8_width b = (if b < 128 then 1 else if b < 224 then 2 else if b < 240 then 3 else 4)"

definition max_cp :: nat where "max_cp = 1114112"

function utf8_decode :: "bytes \<Rightarrow> pystr option" where
  "utf8_decode bs = (if bs = [] then Some [] else
     let k = utf8_width (hd bs); c = utf8_val (take k bs) in
     if take k bs = utf8_cp c \<and> c < max_cp then map_option ((#) c) (utf8_decode (drop k bs)) else None)"
  by pat_completeness auto
termination
  by (relation "measure length") (auto simp: utf8_width_def)

declare utf8_decode.simps [simp del]

definition str_ok :: "pystr \<Rightarrow> bool" where
  "str_ok s \<longleftrightarrow> (\<forall>c \<in> set s. c < max_cp)"

lemma str_ok_simps [simp]: "str_ok []" "str_ok (c # s) \<longleftrightarrow> c < max_cp \<and> str_ok s"
  "str_ok (s @ t) \<longleftrightarrow> str_ok s \<and> str_ok t"
  by (auto simp: str_ok_def)

lemma str_ok_lit [simp]: "str_ok (lit s)"
proof -
  have "of_char c < max_cp" for c :: char
    using nat_of_char_less_256 [of c] unfolding max_cp_def by linarith
  then show ?thesis by (auto simp: str_ok_def lit_def)
qed

lemma utf8_width_hd: "utf8_width (hd (utf8_cp c)) = length (utf8_cp c)"
  by (simp only: utf8_cp_lead [of c] utf8_width_def)

lemma utf8_decode_cp:
  assumes "c < max_cp"
  shows "utf8_decode (utf8_cp c @ bs) = map_option ((#) c) (utf8_decode bs)"
  by (subst utf8_decode.simps) (simp add: utf8_width_hd utf8_val_cp assms Let_def)

lemma utf8_decode_utf8: "str_ok s \<Longrightarrow> utf8_decode (utf8 s) = Some s"
  by (induction s) (simp_all add: utf8_decode_cp utf8_decode.simps [of "[]"])

section \<open>The scanner\<close>

definition json_ws :: "nat \<Rightarrow> bool" where
  "json_ws c \<longleftrightarrow> c = 32 \<or> c = 9 \<or> c = 10 \<or> c = 13"

definition skip_ws :: "pystr \<Rightarrow> pystr" where
  "skip_ws s = dropWhile json_ws s"

definition hex_value :: "nat \<Rightarrow> nat option" where
  "hex_value c = (if 48 \<le> c \<and> c \<le> 57 then Some (c - 48)
     else if 97 \<le> c \<and> c \<le> 102 then Some (c - 87)
     else if 65 \<le> c \<and> c \<le> 70 then Some (c - 55) else None)"

definition hex4 :: "pystr \<Rightarrow> nat option" where
  "hex4 s = (case map hex_value (take 4 s) of
     [Some a, Some b, Some c, Some d] \<Rightarrow> Some (((a * 16 + b) * 16 + c) * 16 + d) | _ \<Rightarrow> None)"

text \<open>After a backslash: the character it stands for; a surrogate pair is joined.\<close>

definition parse_escape :: "pystr \<Rightarrow> (nat \<times> pystr) option" where
  "parse_escape s = (case s of [] \<Rightarrow> None | c # r \<Rightarrow>
     if c = 117 then (case hex4 r of None \<Rightarrow> None | Some u \<Rightarrow>
       let r = drop 4 r in
       if 55296 \<le> u \<and> u \<le> 56319 \<and> take 2 r = [92, 117]
       then (case hex4 (drop 2 r) of None \<Rightarrow> None | Some w \<Rightarrow>
         if 56320 \<le> w \<and> w \<le> 57343 then Some (65536 + (u - 55296) * 1024 + (w - 56320), drop 6 r)
         else Some (u, r))
       else Some (u, r))
     else if c = 34 \<or> c = 92 \<or> c = 47 then Some (c, r)
     else if c = 98 then Some (8, r) else if c = 102 then Some (12, r)
     else if c = 110 then Some (10, r) else if c = 114 then Some (13, r)
     else if c = 116 then Some (9, r) else None)"

fun parse_chars :: "nat \<Rightarrow> pystr \<Rightarrow> (pystr \<times> pystr) option" where
  "parse_chars 0 s = None"
| "parse_chars (Suc n) s = (case s of [] \<Rightarrow> None | c # r \<Rightarrow>
     if c = 34 then Some ([], r)
     else if c = 92 then (case parse_escape r of None \<Rightarrow> None
       | Some (d, r') \<Rightarrow> map_option (apfst ((#) d)) (parse_chars n r'))
     else if c < 32 then None
     else map_option (apfst ((#) c)) (parse_chars n r))"

definition parse_string :: "pystr \<Rightarrow> (pystr \<times> pystr) option" where
  "parse_string r = parse_chars (Suc (length r)) r"

text \<open>A number followed by a fraction or an exponent is a float.\<close>

definition float_follows :: "pystr \<Rightarrow> bool" where
  "float_follows s = (case s of [] \<Rightarrow> False | c # r \<Rightarrow>
     if c = 46 then r \<noteq> [] \<and> is_digit (hd r)
     else if c = 101 \<or> c = 69 then
       (let r = (if r \<noteq> [] \<and> (hd r = 43 \<or> hd r = 45) then tl r else r) in r \<noteq> [] \<and> is_digit (hd r))
     else False)"

definition parse_nat :: "pystr \<Rightarrow> (nat \<times> pystr) option" where
  "parse_nat s = (let ds = (if take 1 s = [48] then [48] else takeWhile is_digit s); r = drop (length ds) s in
     if ds = [] \<or> float_follows r then None else Some (read_nat ds, r))"

definition parse_number :: "pystr \<Rightarrow> (json \<times> pystr) option" where
  "parse_number s = (if take 1 s = [45] then map_option (apfst (\<lambda>n. JInt (- int n))) (parse_nat (drop 1 s))
     else map_option (apfst (\<lambda>n. JInt (int n))) (parse_nat s))"

text \<open>A repeated member keeps its first place and its last value.\<close>

definition dict_of :: "(pystr \<times> json) list \<Rightarrow> (pystr \<times> json) list" where
  "dict_of kvs = foldl (\<lambda>d kv. AList.update (fst kv) (snd kv) d) [] kvs"

fun parse_value :: "nat \<Rightarrow> pystr \<Rightarrow> (json \<times> pystr) option"
  and parse_elems :: "nat \<Rightarrow> pystr \<Rightarrow> (json list \<times> pystr) option"
  and parse_members :: "nat \<Rightarrow> pystr \<Rightarrow> ((pystr \<times> json) list \<times> pystr) option" where
  "parse_value 0 s = None"
| "parse_value (Suc n) s = (case s of [] \<Rightarrow> None | c # r \<Rightarrow>
     if c = 34 then map_option (apfst JStr) (parse_string r)
     else if c = 123 then (if take 1 (skip_ws r) = [125] then Some (JObj [], drop 1 (skip_ws r))
       else map_option (apfst (JObj \<circ> dict_of)) (parse_members n (skip_ws r)))
     else if c = 91 then (if take 1 (skip_ws r) = [93] then Some (JList [], drop 1 (skip_ws r))
       else map_option (apfst JList) (parse_elems n (skip_ws r)))
     else if take 4 s = lit ''null'' then Some (JNull, drop 4 s)
     else if take 4 s = lit ''true'' then Some (JBool True, drop 4 s)
     else if take 5 s = lit ''false'' then Some (JBool False, drop 5 s)
     else parse_number s)"
| "parse_elems 0 s = None"
| "parse_elems (Suc n) s = (case parse_value n s of None \<Rightarrow> None | Some (v, r) \<Rightarrow>
     (case skip_ws r of [] \<Rightarrow> None | c # r' \<Rightarrow>
       if c = 44 then map_option (apfst ((#) v)) (parse_elems n (skip_ws r'))
       else if c = 93 then Some ([v], r') else None))"
| "parse_members 0 s = None"
| "parse_members (Suc n) s = (case s of [] \<Rightarrow> None | q # r \<Rightarrow>
     if q \<noteq> 34 then None else
     (case parse_string r of None \<Rightarrow> None | Some (k, r1) \<Rightarrow>
     (case skip_ws r1 of [] \<Rightarrow> None | d # r2 \<Rightarrow>
       if d \<noteq> 58 then None else
       (case parse_value n (skip_ws r2) of None \<Rightarrow> None | Some (v, r3) \<Rightarrow>
       (case skip_ws r3 of [] \<Rightarrow> None | c # r4 \<Rightarrow>
         if c = 44 then map_option (apfst ((#) (k, v))) (parse_members n (skip_ws r4))
         else if c = 125 then Some ([(k, v)], r4) else None)))))"

definition json_loads :: "bytes \<Rightarrow> json option" where
  "json_loads b = (case utf8_decode b of None \<Rightarrow> None | Some s \<Rightarrow>
     (case parse_value (Suc (length s)) (skip_ws s) of None \<Rightarrow> None
      | Some (v, r) \<Rightarrow> if skip_ws r = [] then Some v else None))"

section \<open>Reading back a canonical document\<close>

lemma hex4_control:
  assumes "c < 32"
  shows "hex4 (48 # 48 # hex_char (c div 16) # hex_char (c mod 16) # x) = Some c"
proof -
  have "hex_value (hex_char n) = Some n" if "n < 16" for n
    using that by (simp add: hex_value_def hex_char_def)
  moreover have "c div 16 < 16" "c mod 16 < 16" using assms by simp_all
  ultimately have "hex_value (hex_char (c div 16)) = Some (c div 16)" "hex_value (hex_char (c mod 16)) = Some (c mod 16)"
    by blast+
  then show ?thesis
    by (simp add: hex4_def hex_value_def)
qed

lemma parse_chars_esc:
  "length s < n \<Longrightarrow> parse_chars n (concat (map esc_char s) @ 34 # x) = Some (s, x)"
proof (induction s arbitrary: n)
  case Nil
  then show ?case by (cases n) simp_all
next
  case (Cons c s)
  then obtain m where n: "n = Suc m" "length s < m" by (cases n) simp_all
  let ?t = "concat (map esc_char s) @ 34 # x"
  have IH: "parse_chars m ?t = Some (s, x)" by (rule Cons.IH [OF n(2)])
  consider "c \<in> {34, 92, 10, 13, 9, 12, 8}" | "c \<notin> {34, 92, 10, 13, 9, 12, 8}" "c < 32"
    | "c \<notin> {34, 92, 10, 13, 9, 12, 8}" "\<not> c < 32"
    by blast
  then have "parse_chars (Suc m) (esc_char c @ ?t) = Some (c # s, x)"
  proof cases
    case 1
    then show ?thesis
      by (elim insertE) (simp_all add: esc_char_def parse_escape_def IH)
  next
    case 2
    then have "esc_char c = [92, 117, 48, 48, hex_char (c div 16), hex_char (c mod 16)]"
      by (simp add: esc_char_def)
    with 2 show ?thesis by (simp add: parse_escape_def hex4_control IH)
  next
    case 3
    then have "esc_char c = [c]" by (simp add: esc_char_def)
    with 3 show ?thesis by (simp add: IH)
  qed
  then show ?case by (simp add: n)
qed

lemma length_esc_chars: "length s \<le> length (concat (map esc_char s))"
proof (induction s)
  case (Cons c s)
  have "1 \<le> length (esc_char c)" by (simp add: esc_char_def)
  with Cons show ?case by simp
qed simp

lemma parse_string_esc: "parse_string (concat (map esc_char s) @ 34 # x) = Some (s, x)"
  unfolding parse_string_def using length_esc_chars [of s] by (intro parse_chars_esc) simp

definition num_end :: "pystr \<Rightarrow> bool" where
  "num_end x \<longleftrightarrow> (case x of [] \<Rightarrow> True | c # _ \<Rightarrow> c \<in> {44, 93, 125})"

lemma num_end_simps [simp]: "num_end []" "num_end (44 # x)" "num_end (93 # x)" "num_end (125 # x)"
  by (simp_all add: num_end_def)

lemma num_end_facts: "num_end x \<Longrightarrow> delim x \<and> \<not> float_follows x"
  by (auto simp: num_end_def delim_def float_follows_def is_digit_def split: list.splits)

lemma show_nat_zero: "hd (show_nat n) = 48 \<Longrightarrow> n = 0"
proof (induction n rule: show_nat.induct)
  case (1 n)
  show ?case
  proof (cases "n < 10")
    case False
    then have "hd (show_nat n) = hd (show_nat (n div 10))"
      using show_nat_digits [of "n div 10"] by (subst show_nat.simps) simp
    with 1 False show ?thesis by simp
  qed (use 1 in \<open>simp add: show_nat.simps [of n]\<close>)
qed

lemma parse_nat_show: 
  assumes "num_end x"
  shows "parse_nat (show_nat n @ x) = Some (n, x)"
proof -
  have ds: "takeWhile is_digit (show_nat n @ x) = show_nat n"
    using show_nat_digits [of n] num_end_facts [OF assms]
    by (simp add: takeWhile_append delim_def split: list.splits)
  have zero: "show_nat n = [48]" if "take 1 (show_nat n @ x) = [48]"
  proof -
    have "hd (show_nat n) = 48"
      using that show_nat_digits [of n] by (cases "show_nat n") simp_all
    then show ?thesis using show_nat_zero [of n] by (simp add: show_nat.simps)
  qed
  show ?thesis
  proof (cases "take 1 (show_nat n @ x) = [48]")
    case True
    with zero read_show_nat [of n] num_end_facts [OF assms] show ?thesis
      by (simp add: parse_nat_def)
  next
    case False
    with ds read_show_nat [of n] num_end_facts [OF assms] show_nat_digits [of n] show ?thesis
      by (simp add: parse_nat_def del: read_nat.simps)
  qed
qed

lemma parse_number_show:
  assumes "num_end x"
  shows "parse_number (show_int i @ x) = Some (JInt i, x)"
proof (cases "i < 0")
  case True
  then show ?thesis by (simp add: parse_number_def show_int_def parse_nat_show [OF assms])
next
  case False
  have "take 1 (show_nat (nat i) @ x) \<noteq> [45]"
    using show_nat_digits [of "nat i"] by (cases "show_nat (nat i)") auto
  with False show ?thesis by (simp add: parse_number_def show_int_def parse_nat_show [OF assms])
qed

text \<open>Values whose strings are encodable and whose objects have distinct keys.\<close>

fun json_ok :: "json \<Rightarrow> bool" where
  "json_ok JNull = True"
| "json_ok (JBool b) = True"
| "json_ok (JInt i) = True"
| "json_ok (JStr s) = str_ok s"
| "json_ok (JList vs) = (\<forall>v \<in> set vs. json_ok v)"
| "json_ok (JObj kvs) = (distinct (map fst kvs) \<and> (\<forall>kv \<in> set kvs. str_ok (fst kv) \<and> json_ok (snd kv)))"

lemma update_fresh: "k \<notin> set (map fst d) \<Longrightarrow> AList.update k v d = d @ [(k, v)]"
  by (induction d) auto

lemma dict_of_distinct: "distinct (map fst kvs) \<Longrightarrow> dict_of kvs = kvs"
proof -
  have "distinct (map fst (d @ kvs)) \<Longrightarrow>
      foldl (\<lambda>d kv. AList.update (fst kv) (snd kv) d) d kvs = d @ kvs" for d
    by (induction kvs arbitrary: d) (simp_all add: update_fresh)
  from this [of "[]"] show "distinct (map fst kvs) \<Longrightarrow> dict_of kvs = kvs"
    by (simp add: dict_of_def)
qed

lemma skip_ws_nonspace: "s \<noteq> [] \<Longrightarrow> \<not> json_ws (hd s) \<Longrightarrow> skip_ws s = s"
  by (cases s) (simp_all add: skip_ws_def)

lemma skip_ws_delim [simp]: "skip_ws [] = []" "skip_ws (44 # x) = 44 # x" "skip_ws (93 # x) = 93 # x"
  "skip_ws (125 # x) = 125 # x" "skip_ws (58 # x) = 58 # x" "skip_ws (34 # x) = 34 # x"
  by (simp_all add: skip_ws_def json_ws_def)

lemma skip_ws_emit [simp]: "skip_ws (emit v @ x) = emit v @ x"
proof (rule skip_ws_nonspace)
  have "json_start v \<inter> {32, 9, 10, 13} = {}"
    by (cases v) (auto simp: json_start_def is_digit_def)
  then show "\<not> json_ws (hd (emit v @ x))"
    using emit_start [of v] by (auto simp: json_ws_def)
qed (use emit_start [of v] in simp)

definition parses :: "json \<Rightarrow> bool" where
  "parses v \<longleftrightarrow> (\<forall>n x. num_end x \<longrightarrow> length (emit v) \<le> n \<longrightarrow> parse_value n (emit v @ x) = Some (v, x))"

lemma parse_elems_commas:
  assumes "\<forall>v \<in> set (v # vs). parses v" "length (commas (map emit (v # vs))) < n"
  shows "parse_elems n (commas (map emit (v # vs)) @ 93 # x) = Some (v # vs, x)"
  using assms
proof (induction vs arbitrary: v n)
  case Nil
  then show ?case by (cases n) (simp_all add: parses_def)
next
  case (Cons w ws)
  then obtain m where n: "n = Suc m" by (cases n) simp_all
  have v: "parse_value m (emit v @ 44 # commas (map emit (w # ws)) @ 93 # x)
      = Some (v, 44 # commas (map emit (w # ws)) @ 93 # x)"
    using Cons.prems n by (simp add: parses_def)
  have rest: "parse_elems m (commas (map emit (w # ws)) @ 93 # x) = Some (w # ws, x)"
    using Cons.prems n by (intro Cons.IH) simp_all
  have ws: "skip_ws (commas (map emit (w # ws)) @ 93 # x) = commas (map emit (w # ws)) @ 93 # x"
    by (simp only: list.map commas_Cons append_assoc skip_ws_emit)
  show ?case
    using v rest ws by (simp add: n)
qed

abbreviation member_text :: "pystr \<times> json \<Rightarrow> pystr" where
  "member_text kv \<equiv> json_string (fst kv) @ 58 # emit (snd kv)"

lemma parse_members_commas:
  assumes "\<forall>kv \<in> set (kv # kvs). parses (snd kv)" "length (commas (map member_text (kv # kvs))) < n"
  shows "parse_members n (commas (map member_text (kv # kvs)) @ 125 # x) = Some (kv # kvs, x)"
  using assms
proof (induction kvs arbitrary: kv n)
  case Nil
  then show ?case by (cases n) (simp_all add: parses_def json_string_def parse_string_esc)
next
  case (Cons lw kvs)
  then obtain m where n: "n = Suc m" by (cases n) simp_all
  let ?rest = "commas (map member_text (lw # kvs)) @ 125 # x"
  have v: "parse_value m (emit (snd kv) @ 44 # ?rest) = Some (snd kv, 44 # ?rest)"
    using Cons.prems n by (simp add: parses_def)
  have rest: "parse_members m ?rest = Some (lw # kvs, x)"
    using Cons.prems n by (intro Cons.IH) simp_all
  have ws: "skip_ws ?rest = ?rest"
    by (rule skip_ws_nonspace) (simp_all add: commas_Cons json_string_def json_ws_def)
  have "commas (map member_text (kv # lw # kvs)) @ 125 # x
      = 34 # concat (map esc_char (fst kv)) @ 34 # 58 # emit (snd kv) @ 44 # ?rest"
    by (simp add: json_string_def)
  then show ?case
    using v rest ws by (simp add: n parse_string_esc)
qed

lemma emit_head:
  assumes "emit v = c # r"
  shows "c \<in> json_start v"
  using emit_start [of v] assms by simp

lemma parses_json_ok: "json_ok v \<Longrightarrow> parses v"
proof (induction v)
  case JNull
  show ?case by (auto simp: parses_def lit_def dest!: Suc_le_D Suc_lessE)
next
  case (JBool b)
  show ?case by (auto simp: parses_def lit_def dest!: Suc_le_D)
next
  case (JStr s)
  show ?case by (auto simp: parses_def json_string_def parse_string_esc dest!: Suc_le_D)
next
  case (JInt i)
  show ?case unfolding parses_def
  proof (intro allI impI)
    fix n x assume x: "num_end x" and n: "length (emit (JInt i)) \<le> n"
    obtain c r where cr: "show_int i = c # r" and c: "c = 45 \<or> is_digit c"
      using emit_start [of "JInt i"] by (cases "show_int i") (auto simp: json_start_def)
    obtain m where m: "n = Suc m" using n cr by (cases n) simp_all
    have "parse_value n (show_int i @ x) = parse_number (show_int i @ x)"
      using c by (auto simp: m cr lit_def is_digit_def)
    then show "parse_value n (emit (JInt i) @ x) = Some (JInt i, x)"
      by (simp add: parse_number_show [OF x])
  qed
next
  case (JList vs)
  then have ok: "\<forall>v \<in> set vs. parses v" by simp
  show ?case unfolding parses_def
  proof (intro allI impI)
    fix n x assume n: "length (emit (JList vs)) \<le> n"
    then obtain m where m: "n = Suc m" by (cases n) simp_all
    show "parse_value n (emit (JList vs) @ x) = Some (JList vs, x)"
    proof (cases vs)
      case (Cons w ws)
      have "parse_elems m (commas (map emit (w # ws)) @ 93 # x) = Some (w # ws, x)"
        using ok n m Cons by (intro parse_elems_commas) simp_all
      moreover obtain c r where c: "emit w = c # r" "c \<noteq> 93"
        using emit_start [of w] emit_not_close [of w "[]"] by (cases "emit w") auto
      moreover have "skip_ws (c # r @ y) = c # r @ y" for y
        using skip_ws_emit [of w y] c by simp
      ultimately show ?thesis by (simp add: m Cons commas_Cons)
    qed (simp add: m)
  qed
next
  case (JObj kvs)
  then have ok: "\<forall>kv \<in> set kvs. parses (snd kv)" by (force simp: snds.simps)
  have emits: "emit (JObj kvs) = 123 # commas (map member_text kvs) @ [125]"
    by (simp add: json_member_def case_prod_unfold)
  show ?case unfolding parses_def emits
  proof (intro allI impI)
    fix n x assume n: "length (123 # commas (map member_text kvs) @ [125]) \<le> n"
    then obtain m where m: "n = Suc m" by (cases n) simp_all
    show "parse_value n ((123 # commas (map member_text kvs) @ [125]) @ x) = Some (JObj kvs, x)"
    proof (cases kvs)
      case (Cons lw lws)
      have "parse_members m (commas (map member_text (lw # lws)) @ 125 # x) = Some (lw # lws, x)"
        using ok n m Cons by (intro parse_members_commas) simp_all
      moreover have "dict_of (lw # lws) = lw # lws"
        using JObj.prems Cons by (intro dict_of_distinct) simp
      ultimately show ?thesis by (simp add: m Cons commas_Cons json_string_def)
    qed (simp add: m)
  qed
qed

lemma set_sort_key_map: "set (sort_key fst (map f kvs)) = f ` set kvs"
  by simp

lemma distinct_sort_key_fst: "distinct (map fst (sort_key fst kvs)) = distinct (map fst kvs)"
  by (intro mset_eq_imp_distinct_iff) simp

lemma json_ok_normal: "json_ok v \<Longrightarrow> json_ok (normal_json v)"
proof (induction v)
  case (JObj kvs)
  then show ?case
    by (auto simp: distinct_sort_key_fst o_def case_prod_unfold)
qed auto

lemma str_ok_show_nat: "str_ok (show_nat n)"
  using show_nat_digits [of n] by (auto simp: str_ok_def is_digit_def max_cp_def)

lemma str_ok_esc: "str_ok s \<Longrightarrow> str_ok (concat (map esc_char s))"
  by (induction s) (auto simp: esc_char_def hex_char_def max_cp_def)

lemma str_ok_json_string: "str_ok s \<Longrightarrow> str_ok (json_string s)"
  by (simp add: json_string_def str_ok_esc max_cp_def)

lemma str_ok_commas: "\<forall>x \<in> set xs. str_ok x \<Longrightarrow> str_ok (commas xs)"
  by (induction xs rule: commas.induct) (simp_all add: max_cp_def)

lemma emit_ok: "json_ok v \<Longrightarrow> str_ok (emit v)"
proof (induction v)
  case (JList vs)
  then have "str_ok (commas (map emit vs))" by (intro str_ok_commas) simp
  then show ?case by (simp add: max_cp_def)
next
  case (JObj kvs)
  have "str_ok (commas (map (\<lambda>(k, v). json_member (k, emit v)) kvs))"
    using JObj by (intro str_ok_commas) (auto simp: json_member_def str_ok_json_string max_cp_def)
  then show ?case by (simp add: max_cp_def)
qed (simp_all add: show_int_def str_ok_show_nat str_ok_json_string max_cp_def)

theorem json_loads_encode: "json_ok v \<Longrightarrow> json_loads (encode_json v) = Some (normal_json v)"
proof -
  assume ok: "json_ok v"
  let ?s = "emit (normal_json v)"
  have "parse_value (Suc (length ?s)) (?s @ []) = Some (normal_json v, [])"
    using parses_json_ok [OF json_ok_normal [OF ok]] unfolding parses_def by (blast intro: num_end_simps le_SucI order_refl)
  moreover have "utf8_decode (encode_json v) = Some ?s"
    unfolding encode_json_def canonical_json_emit
    by (intro utf8_decode_utf8 emit_ok json_ok_normal ok)
  moreover have "skip_ws ?s = ?s" using skip_ws_emit [of _ "[]"] by simp
  ultimately show ?thesis by (simp add: json_loads_def)
qed

end
