(* ===== verification/Chunks.thy ===== *)
theory Chunks
  imports Files Records Json_Loads
begin

text \<open>
  The chunk store of \<open>storage/chunks.py\<close>: a raw file is kept as immutable content-addressed
  chunks and a recipe that lists them. The hash \<open>H\<close> and the free disk space are parameters. The section on the interface states what a content-addressed
  store promises; the chunk store is shown to provide it.
\<close>

section \<open>The contract of a content-addressed store\<close>

locale content_store =
  fixes put :: "bytes \<Rightarrow> data_root \<Rightarrow> pystr result \<times> data_root"
    and get :: "data_root \<Rightarrow> pystr \<Rightarrow> bytes result"
    and hash :: "bytes \<Rightarrow> pystr"
    and inv :: "data_root \<Rightarrow> bool"
  assumes put_get: "inv r \<Longrightarrow> put b r = (Inr k, s) \<Longrightarrow> k = hash b \<and> is_ok (get s k)"
    and put_keeps: "inv r \<Longrightarrow> put b r = (res, s) \<Longrightarrow> is_ok (get r k) \<Longrightarrow> is_ok (get s k)"
    and put_inv: "inv r \<Longrightarrow> put b r = (res, s) \<Longrightarrow> inv s"
    and get_hash: "get r k = Inr b \<Longrightarrow> hash b = k"
begin

text \<open>Storing a list of contents, stopping at the first exception.\<close>

fun put_all :: "bytes list \<Rightarrow> data_root \<Rightarrow> pystr list result \<times> data_root" where
  "put_all [] r = (Inr [], r)"
| "put_all (b # bs) r = bindS (put b) (\<lambda>k. bindS (put_all bs) (\<lambda>ks r. (Inr (k # ks), r))) r"

lemma put_all_step:
  "put_all (b # bs) r = (res, s) \<Longrightarrow> put b r = (x, r1) \<Longrightarrow> s = r1 \<or> (\<exists>res. put_all bs r1 = (res, s))"
  by (auto simp: bindS_def split: sum.splits prod.splits)

lemma put_all_keeps:
  "inv r \<Longrightarrow> put_all bs r = (res, s) \<Longrightarrow> inv s \<and> (\<forall>k. is_ok (get r k) \<longrightarrow> is_ok (get s k))"
proof (induction bs arbitrary: r res)
  case (Cons b bs)
  obtain x r1 where step: "put b r = (x, r1)" by (cases "put b r")
  have "inv r1" "\<forall>k. is_ok (get r k) \<longrightarrow> is_ok (get r1 k)"
    using Cons.prems(1) step by (blast intro: put_inv put_keeps)+
  with put_all_step [OF Cons.prems(2) step] Cons.IH show ?case by blast
qed simp

lemma put_all_get:
  "inv r \<Longrightarrow> put_all bs r = (Inr ks, s) \<Longrightarrow> ks = map hash bs \<and> (\<forall>b \<in> set bs. is_ok (get s (hash b)))"
proof (induction bs arbitrary: r ks)
  case (Cons b bs)
  from Cons.prems(2) obtain k r1 ks' where step: "put b r = (Inr k, r1)"
    and rest: "put_all bs r1 = (Inr ks', s)" and ks: "ks = k # ks'"
    by (auto simp: bindS_cases)
  from step Cons.prems(1) have "k = hash b" "is_ok (get r1 k)" "inv r1"
    by (blast dest: put_get intro: put_inv)+
  with Cons.IH [OF _ rest] put_all_keeps [OF _ rest] ks show ?case by auto
qed simp

end

text \<open>
  A store that compares contents, not only digests, returns exactly what was put and never
  changes what it returns for a digest.
\<close>

locale exact_store = content_store +
  assumes put_exact: "inv r \<Longrightarrow> put b r = (Inr k, s) \<Longrightarrow> get s k = Inr b"
    and keeps_exact: "inv r \<Longrightarrow> put b r = (res, s) \<Longrightarrow> get r k = Inr c \<Longrightarrow> get s k = Inr c"
begin

lemma put_all_stable:
  "inv r \<Longrightarrow> put_all bs r = (res, s) \<Longrightarrow> get r k = Inr c \<Longrightarrow> get s k = Inr c"
proof (induction bs arbitrary: r res)
  case (Cons b bs)
  obtain x r1 where step: "put b r = (x, r1)" by (cases "put b r")
  with Cons.prems have "inv r1" "get r1 k = Inr c" by (blast intro: put_inv keeps_exact)+
  with put_all_step [OF Cons.prems(2) step] Cons.IH show ?case by blast
qed simp

lemma put_all_exact:
  "inv r \<Longrightarrow> put_all bs r = (Inr ks, s) \<Longrightarrow> b \<in> set bs \<Longrightarrow> get s (hash b) = Inr b"
proof (induction bs arbitrary: r ks)
  case (Cons c bs)
  from Cons.prems(2) obtain k r1 ks' where step: "put c r = (Inr k, r1)"
    and rest: "put_all bs r1 = (Inr ks', s)"
    by (auto simp: bindS_cases)
  have "inv r1" "get r1 (hash c) = Inr c"
    using step Cons.prems(1) put_get put_exact by (blast intro: put_inv, metis)
  with Cons.IH [OF _ rest] put_all_stable [OF _ rest] Cons.prems(3) show ?case by auto
qed simp

end

section \<open>Limits\<close>

definition CHUNK_SIZE :: nat where "CHUNK_SIZE = 4 * 1024 * 1024"

definition MAX_SIZE :: nat where "MAX_SIZE = 32 * 1024 ^ 3"

definition space_margin :: nat where "space_margin = 64 * 1024 * 1024"

definition max_recipe :: nat where "max_recipe = 1024 * 1024"

section \<open>Publishing a member\<close>

text \<open>
  \<open>path\<close> refuses a key that is not a digest and a member that is a symbolic link. \<open>_publish\<close>
  leaves an existing equal member, refuses a different one, and otherwise writes the content
  when the disk has room for it and the margin.
\<close>

definition member_path :: "pystr \<Rightarrow> dir \<Rightarrow> unit result" where
  "member_path key d = (if \<not> is_hex 64 key then Inl (ValueError ''invalid chunk or raw-file digest'')
     else if dir_get d key = Some Link then Inl (ValueError ''chunk-store paths must not be symlinks'')
     else Inr ())"

definition publish_member :: "nat \<Rightarrow> pystr \<Rightarrow> bytes \<Rightarrow> dir \<Rightarrow> unit result \<times> dir" where
  "publish_member free key content d =
     (case member_path key d of Inl e \<Rightarrow> (Inl e, d) | Inr _ \<Rightarrow>
       (case dir_get d key of
          Some (File b) \<Rightarrow> if take (length content + 1) b \<noteq> content
            then (Inl (ValueError ''existing chunk-store object is corrupt''), d) else (Inr (), d)
        | Some _ \<Rightarrow> (Inl (OSError ''not a regular file''), d)
        | None \<Rightarrow> if free < length content + space_margin
            then (Inl (OSError ''insufficient space for a new raw chunk; existing evidence retained''), d)
            else (Inr (), dir_put key (File content) d)))"

definition publish_chunk :: "(data_root \<Rightarrow> nat) \<Rightarrow> pystr \<Rightarrow> bytes \<Rightarrow> (data_root, unit) op" where
  "publish_chunk free key content r =
     (let (res, d) = publish_member (free r) key content (chunk_files r) in (res, r\<lparr>chunk_files := d\<rparr>))"

definition publish_recipe :: "(data_root \<Rightarrow> nat) \<Rightarrow> pystr \<Rightarrow> bytes \<Rightarrow> (data_root, unit) op" where
  "publish_recipe free key content r =
     (let (res, d) = publish_member (free r) key content (recipe_files r) in (res, r\<lparr>recipe_files := d\<rparr>))"

section \<open>Storing a file\<close>

function split_bytes :: "nat \<Rightarrow> bytes \<Rightarrow> bytes list" where
  "split_bytes n b = (if n = 0 \<or> b = [] then [] else take n b # split_bytes n (drop n b))"
  by pat_completeness auto
termination
  by (relation "measure (\<lambda>(n, b). length b)") auto

declare split_bytes.simps [simp del]

fun publish_chunks :: "(bytes \<Rightarrow> pystr) \<Rightarrow> (data_root \<Rightarrow> nat) \<Rightarrow> nat \<Rightarrow> bytes list
    \<Rightarrow> (data_root, (pystr \<times> nat) list) op" where
  "publish_chunks H free sz [] r = (Inr [], r)"
| "publish_chunks H free sz (c # cs) r =
     (if MAX_SIZE < sz + length c then (Inl (ValueError ''raw file exceeds chunk-store limit''), r)
      else bindS (publish_chunk free (H c) c) (\<lambda>_.
           bindS (publish_chunks H free (sz + length c) cs) (\<lambda>ds r. (Inr ((H c, length c) # ds), r))) r)"

definition chunk_json :: "pystr \<times> nat \<Rightarrow> json" where
  "chunk_json c = JObj [(lit ''digest'', JStr (fst c)), (lit ''size'', JInt (int (snd c)))]"

definition recipe_json :: "pystr \<Rightarrow> nat \<Rightarrow> (pystr \<times> nat) list \<Rightarrow> json" where
  "recipe_json key sz chunks =
     JObj [(lit ''version'', JInt 1), (lit ''digest'', JStr key), (lit ''size'', JInt (int sz)),
           (lit ''chunk_size'', JInt (int CHUNK_SIZE)), (lit ''chunks'', JList (map chunk_json chunks))]"

text \<open>
  \<open>put\<close>: \<open>stat_size\<close> is the size seen before reading, \<open>content\<close> what the reads returned, and
  \<open>unchanged\<close> whether size and times were the same afterwards.
\<close>

definition chunk_put :: "(bytes \<Rightarrow> pystr) \<Rightarrow> (data_root \<Rightarrow> nat) \<Rightarrow> pystr option \<Rightarrow> nat \<Rightarrow> bool \<Rightarrow> bytes
    \<Rightarrow> (data_root, pystr \<times> nat) op" where
  "chunk_put H free expected stat_size unchanged content r =
     (if (case expected of None \<Rightarrow> False | Some k \<Rightarrow> \<not> is_hex 64 k)
      then (Inl (ValueError ''invalid chunk or raw-file digest''), r)
      else if MAX_SIZE < stat_size then (Inl (ValueError ''raw file exceeds chunk-store limit''), r)
      else bindS (publish_chunks H free 0 (split_bytes CHUNK_SIZE content)) (\<lambda>chunks r.
        if \<not> unchanged then (Inl SourceChangedError, r)
        else if (case expected of None \<Rightarrow> False | Some k \<Rightarrow> H content \<noteq> k)
          then (Inl (ValueError ''raw file checksum mismatch''), r)
        else bindS (publish_recipe free (H content)
            (encode_json (recipe_json (H content) (length content) chunks)))
          (\<lambda>_ r. (Inr (H content, length content), r)) r) r)"

section \<open>Reading a file back\<close>

text \<open>
  A recipe is accepted only when its members, sizes and chunk count are exactly those of a
  file of its size. \<open>version\<close> and \<open>chunk_size\<close> are compared with \<open>==\<close>, which accepts a
  boolean for 1; sizes must have type \<open>int\<close>.
\<close>

fun check_chunks :: "nat \<Rightarrow> nat \<Rightarrow> json list \<Rightarrow> (pystr \<times> nat) list result" where
  "check_chunks sz i [] = Inr []"
| "check_chunks sz i (c # cs) = (case c of
       JObj kvs \<Rightarrow>
         if set (map fst kvs) \<noteq> {lit ''digest'', lit ''size''} then Inl (ValueError ''raw-file recipe has invalid chunk size'')
         else (case jget kvs ''size'' of
             Some (JInt n) \<Rightarrow>
               if n \<noteq> min (int CHUNK_SIZE) (int sz - int (i * CHUNK_SIZE))
               then Inl (ValueError ''raw-file recipe has invalid chunk size'')
               else (case jget kvs ''digest'' of
                   Some (JStr k) \<Rightarrow> if \<not> is_hex 64 k then Inl (ValueError ''invalid chunk or raw-file digest'')
                     else bindR (check_chunks sz (Suc i) cs) (\<lambda>ds. Inr ((k, nat n) # ds))
                 | _ \<Rightarrow> Inl (ValueError ''invalid chunk or raw-file digest''))
           | _ \<Rightarrow> Inl (ValueError ''raw-file recipe has invalid chunk size''))
     | _ \<Rightarrow> Inl (ValueError ''raw-file recipe has invalid chunk size''))"

definition check_recipe :: "pystr \<Rightarrow> json \<Rightarrow> (nat \<times> (pystr \<times> nat) list) result" where
  "check_recipe key v = (case v of
       JObj kvs \<Rightarrow>
         if set (map fst kvs) \<noteq> lit ` {''version'', ''digest'', ''size'', ''chunk_size'', ''chunks''}
            \<or> Option.bind (jget kvs ''version'') int_of \<noteq> Some 1
            \<or> jget kvs ''digest'' \<noteq> Some (JStr key)
            \<or> Option.bind (jget kvs ''chunk_size'') int_of \<noteq> Some (int CHUNK_SIZE)
         then Inl (ValueError ''invalid raw-file recipe'')
         else (case (jget kvs ''size'', jget kvs ''chunks'') of
             (Some (JInt n), Some (JList cs)) \<Rightarrow>
               if n < 0 \<or> int MAX_SIZE < n then Inl (ValueError ''invalid raw-file recipe'')
               else if int (length cs) \<noteq> (n + int CHUNK_SIZE - 1) div int CHUNK_SIZE
                 then Inl (ValueError ''raw-file recipe has incorrect chunk count'')
               else bindR (check_chunks (nat n) 0 cs) (\<lambda>ds. Inr (nat n, ds))
           | _ \<Rightarrow> Inl (ValueError ''invalid raw-file recipe''))
     | _ \<Rightarrow> Inl (ValueError ''invalid raw-file recipe''))"

definition chunk_recipe :: "data_root \<Rightarrow> pystr
    \<Rightarrow> (nat \<times> (pystr \<times> nat) list) result" where
  "chunk_recipe r key = bindR (member_path key (recipe_files r)) (\<lambda>_.
     case dir_get (recipe_files r) key of
       Some (File b) \<Rightarrow>
         if max_recipe < length b then Inl (ValueError ''raw-file recipe exceeds limit'')
         else (case json_loads b of None \<Rightarrow> Inl (ValueError ''invalid JSON'') | Some v \<Rightarrow> check_recipe key v)
     | _ \<Rightarrow> Inl (FileNotFoundError ''recipe''))"

definition read_chunk :: "(bytes \<Rightarrow> pystr) \<Rightarrow> data_root \<Rightarrow> pystr \<times> nat \<Rightarrow> bytes result" where
  "read_chunk H r c = bindR (member_path (fst c) (chunk_files r)) (\<lambda>_.
     case dir_get (chunk_files r) (fst c) of
       Some (File b) \<Rightarrow>
         let content = take (CHUNK_SIZE + 1) b in
         if length content \<noteq> snd c \<or> H content \<noteq> fst c
         then Inl (ValueError ''raw chunk is missing or corrupt'') else Inr content
     | _ \<Rightarrow> Inl (FileNotFoundError ''chunk''))"

text \<open>\<open>iter_bytes\<close>, read to its end: the contents it yields, or the exception it ends with.\<close>

definition chunk_iter :: "(bytes \<Rightarrow> pystr) \<Rightarrow> data_root \<Rightarrow> pystr
    \<Rightarrow> bytes list result" where
  "chunk_iter H r key = bindR (chunk_recipe r key) (\<lambda>(_, chunks).
     bindR (mapR (read_chunk H r) chunks) (\<lambda>contents.
       if H (concat contents) \<noteq> key then Inl (ValueError ''reconstructed raw-file checksum mismatch'')
       else Inr contents))"

definition chunk_verify :: "(bytes \<Rightarrow> pystr) \<Rightarrow> data_root \<Rightarrow> pystr \<Rightarrow> bool" where
  "chunk_verify H r key = is_ok (chunk_iter H r key)"

definition chunk_get :: "(bytes \<Rightarrow> pystr) \<Rightarrow> data_root \<Rightarrow> pystr \<Rightarrow> bytes result" where
  "chunk_get H r key = bindR (chunk_iter H r key) (\<lambda>cs. Inr (concat cs))"

text \<open>
  \<open>restore\<close>: the destination must not exist; the verified contents are written to a new file
  and linked into place, so a failed reconstruction leaves the directory as it was.
\<close>

definition chunk_restore :: "(bytes \<Rightarrow> pystr) \<Rightarrow> data_root \<Rightarrow> pystr \<Rightarrow> pystr
    \<Rightarrow> (dir, unit) op" where
  "chunk_restore H r key destination d =
     (if dir_get d destination \<noteq> None
      then (Inl (FileExistsError ''raw restore destination already exists''), d)
      else (case chunk_get H r key of
          Inl e \<Rightarrow> (Inl e, d)
        | Inr b \<Rightarrow> (Inr (), dir_put destination (File b) d)))"

section \<open>What publishing does to a directory\<close>

lemma take_Suc_eq: "take (length c + 1) b = c \<longleftrightarrow> b = c"
proof
  assume t: "take (length c + 1) b = c"
  then have "min (length b) (length c + 1) = length c"
    by (subst length_take [symmetric]) (rule arg_cong [OF t])
  then have "length b \<le> length c" by linarith
  with t show "b = c" by simp
qed simp

lemma publish_member_le: "publish_member free k c d = (res, d') \<Longrightarrow> dir_le d d'"
  by (auto simp: publish_member_def intro: dir_le_put split: sum.splits option.splits node.splits if_splits)

lemma publish_member_ok:
  "publish_member free k c d = (Inr (), d') \<Longrightarrow> is_hex 64 k \<and> dir_get d' k = Some (File c)"
  by (auto simp: publish_member_def member_path_def take_Suc_eq [simplified]
      split: sum.splits option.splits node.splits if_splits)

lemma publish_chunk_ok:
  "publish_chunk free k c r = (Inr (), s) \<Longrightarrow> is_hex 64 k \<and> dir_get (chunk_files s) k = Some (File c)"
  by (auto simp: publish_chunk_def split: prod.splits dest: publish_member_ok)

lemma publish_chunk_le: "publish_chunk free k c r = (res, s) \<Longrightarrow> objects_le r s"
  by (auto simp: publish_chunk_def objects_le_def split: prod.splits dest: publish_member_le)

lemma publish_recipe_ok:
  "publish_recipe free k c r = (Inr (), s) \<Longrightarrow> is_hex 64 k \<and> dir_get (recipe_files s) k = Some (File c)"
  by (auto simp: publish_recipe_def split: prod.splits dest: publish_member_ok)

lemma publish_recipe_le: "publish_recipe free k c r = (res, s) \<Longrightarrow> objects_le r s"
  by (auto simp: publish_recipe_def objects_le_def split: prod.splits dest: publish_member_le)

lemma publish_recipe_frame: "publish_recipe free k c r = (res, s) \<Longrightarrow> chunk_files s = chunk_files r"
  by (auto simp: publish_recipe_def split: prod.splits)

lemma publish_chunks_le: "publish_chunks H free n cs r = (res, s) \<Longrightarrow> objects_le r s"
proof (induction cs arbitrary: n r res)
  case (Cons c cs)
  obtain x r1 where step: "publish_chunk free (H c) c r = (x, r1)" by (cases "publish_chunk free (H c) c r")
  with Cons.prems have "s = r \<or> s = r1 \<or> (\<exists>res. publish_chunks H free (n + length c) cs r1 = (res, s))"
    by (auto simp: bindS_def split: sum.splits prod.splits if_splits)
  with Cons.IH publish_chunk_le [OF step] show ?case by (blast intro: objects_le_refl objects_le_trans)
qed simp

lemma publish_chunks_ok:
  "publish_chunks H free n cs r = (Inr ds, s) \<Longrightarrow>
     ds = map (\<lambda>c. (H c, length c)) cs \<and> (cs \<noteq> [] \<longrightarrow> n + length (concat cs) \<le> MAX_SIZE) \<and>
     (\<forall>c \<in> set cs. is_hex 64 (H c) \<and> dir_get (chunk_files s) (H c) = Some (File c))"
proof (induction cs arbitrary: n r ds)
  case (Cons c cs)
  from Cons.prems obtain r1 ds' where fits: "n + length c \<le> MAX_SIZE"
    and step: "publish_chunk free (H c) c r = (Inr (), r1)"
    and rest: "publish_chunks H free (n + length c) cs r1 = (Inr ds', s)" and ds: "ds = (H c, length c) # ds'"
    by (auto simp: bindS_cases split: if_splits)
  have "dir_get (chunk_files s) (H c) = Some (File c)"
    using publish_chunk_ok [OF step] publish_chunks_le [OF rest] by (auto simp: objects_le_def intro: dir_leD)
  with Cons.IH [OF rest] publish_chunk_ok [OF step] ds fits show ?case by auto
qed simp

section \<open>The split of a file\<close>

lemma concat_split_bytes: "0 < n \<Longrightarrow> concat (split_bytes n b) = b"
  by (induction n b rule: split_bytes.induct) (subst split_bytes.simps, simp)

lemma length_split_bytes: "0 < n \<Longrightarrow> length (split_bytes n b) = (length b + n - 1) div n"
proof (induction n b rule: split_bytes.induct)
  case (1 n b)
  show ?case
  proof (cases "b = []")
    case False
    have "length (split_bytes n b) = Suc ((length (drop n b) + n - 1) div n)"
      using 1 False by (subst split_bytes.simps) simp
    also have "\<dots> = (length b + n - 1) div n"
    proof (cases "length b \<le> n")
      case True
      moreover have "1 \<le> length b" using False by (cases b) simp_all
      ultimately have "(length b + n - 1) div n = 1"
        using 1(2) by (intro div_nat_eqI) simp_all
      with True 1(2) show ?thesis by simp
    next
      case small: False
      have "(length (drop n b) + n - 1 + n) div n = Suc ((length (drop n b) + n - 1) div n)"
        using 1(2) by (intro trans [OF div_add_self2]) simp_all
      moreover have "length (drop n b) + n - 1 + n = length b + n - 1"
        using small 1(2) unfolding length_drop by linarith
      ultimately show ?thesis by (simp only:)
    qed
    finally show ?thesis .
  qed (simp add: split_bytes.simps 1(2))
qed

lemma nth_split_bytes:
  "0 < n \<Longrightarrow> i < length (split_bytes n b) \<Longrightarrow>
     length (split_bytes n b ! i) = min n (length b - i * n) \<and> i * n < length b"
proof (induction n b arbitrary: i rule: split_bytes.induct)
  case (1 n b)
  have b: "b \<noteq> []" using 1(3) by (auto simp: split_bytes.simps)
  then have s: "split_bytes n b = take n b # split_bytes n (drop n b)"
    using 1(2) by (subst split_bytes.simps) simp
  show ?case
  proof (cases i)
    case (Suc j)
    have "j < length (split_bytes n (drop n b))" using 1(3) s Suc by simp
    then have IH: "length (split_bytes n (drop n b) ! j) = min n (length (drop n b) - j * n)"
        "j * n < length (drop n b)"
      using 1(1) [of j] 1(2) b by blast+
    have i: "i * n = n + j * n" using Suc by simp
    have nth: "split_bytes n b ! i = split_bytes n (drop n b) ! j" by (simp only: s Suc nth_Cons_Suc)
    show ?thesis
      unfolding nth i IH(1) using IH(2) unfolding length_drop diff_diff_left by (intro conjI refl) linarith
  qed (simp add: s b min.commute)
qed

section \<open>The text of a recipe\<close>

text \<open>
  A recipe of a file within the size limit stays below the bound that the reader puts on
  recipe files: at most 8192 members of at most 93 characters each.
\<close>

definition ascii :: "pystr \<Rightarrow> bool" where
  "ascii s \<longleftrightarrow> (\<forall>c \<in> set s. c < 128)"

lemma ascii_simps [simp]: "ascii []" "ascii (c # s) \<longleftrightarrow> c < 128 \<and> ascii s"
  "ascii (s @ t) \<longleftrightarrow> ascii s \<and> ascii t"
  by (auto simp: ascii_def)

lemma utf8_ascii: "ascii s \<Longrightarrow> utf8 s = s"
  by (induction s) (simp_all add: utf8_cp_def)

lemma ascii_show_nat: "ascii (show_nat n)"
  using show_nat_digits [of n] by (auto simp: ascii_def is_digit_def)

lemma length_show_nat: "n < 10 ^ Suc k \<Longrightarrow> length (show_nat n) \<le> Suc k"
proof (induction k arbitrary: n)
  case 0
  then show ?case by (subst show_nat.simps) simp
next
  case (Suc k)
  show ?case
  proof (cases "n < 10")
    case False
    have "n div 10 < 10 ^ Suc k" using Suc.prems by (simp add: div_less_iff_less_mult)
    with Suc.IH [of "n div 10"] False show ?thesis by (subst show_nat.simps) simp
  qed (simp add: show_nat.simps [of n])
qed

lemma hex_string: 
  assumes "is_hex n k"
  shows "json_string k = 34 # k @ [34] \<and> ascii k"
proof -
  have "concat (map esc_char k) = k" if "list_all hex_digit k" for k
    using that by (induction k) (auto simp: esc_char_def hex_digit_def)
  then show ?thesis using assms by (auto simp: is_hex_def json_string_def ascii_def list_all_iff hex_digit_def)
qed

lemma length_commas_le:
  "\<forall>x \<in> set xs. ascii x \<and> length x \<le> m \<Longrightarrow> ascii (commas xs) \<and> length (commas xs) \<le> length xs * (m + 1)"
  by (induction xs rule: commas.induct) auto

lemma normal_chunk_json [simp]: "normal_json (chunk_json c) = chunk_json c"
  by (simp add: chunk_json_def lit_def)

definition recipe_members :: "pystr \<Rightarrow> nat \<Rightarrow> (pystr \<times> nat) list \<Rightarrow> (pystr \<times> json) list" where
  "recipe_members key sz ds =
     [(lit ''chunk_size'', JInt (int CHUNK_SIZE)), (lit ''chunks'', JList (map chunk_json ds)),
      (lit ''digest'', JStr key), (lit ''size'', JInt (int sz)), (lit ''version'', JInt 1)]"

lemma normal_recipe_json: "normal_json (recipe_json key sz ds) = JObj (recipe_members key sz ds)"
  by (simp add: recipe_json_def recipe_members_def lit_def o_def)

lemma json_ok_recipe:
  assumes "is_hex 64 key" "\<forall>d \<in> set ds. is_hex 64 (fst d)"
  shows "json_ok (recipe_json key sz ds)"
proof -
  have "str_ok k" if "is_hex 64 k" for k
    using that by (auto simp: str_ok_def is_hex_def list_all_iff hex_digit_def max_cp_def)
  then show ?thesis using assms by (auto simp: recipe_json_def chunk_json_def)
qed

lemma emit_chunk_json:
  assumes "is_hex 64 (fst c)" "snd c \<le> CHUNK_SIZE"
  shows "ascii (emit (chunk_json c)) \<and> length (emit (chunk_json c)) \<le> 92"
proof -
  have "length (show_nat (snd c)) \<le> 7"
    using assms(2) length_show_nat [of "snd c" 6] by (simp add: CHUNK_SIZE_def)
  then show ?thesis
    using hex_string [OF assms(1)] assms(1) ascii_show_nat
    by (auto simp: chunk_json_def json_member_def show_int_def json_string_def lit_def esc_char_def)
qed

lemma recipe_fits:
  assumes key: "is_hex 64 key" and size: "sz \<le> MAX_SIZE" and many: "length ds \<le> 8192"
    and chunks: "\<forall>d \<in> set ds. is_hex 64 (fst d) \<and> snd d \<le> CHUNK_SIZE"
  shows "length (encode_json (recipe_json key sz ds)) \<le> max_recipe"
proof -
  let ?cs = "commas (map (emit \<circ> chunk_json) ds)"
  have cs: "ascii ?cs" "length ?cs \<le> length ds * 93"
    using length_commas_le [of "map (emit \<circ> chunk_json) ds" 92] chunks emit_chunk_json by auto
  have sz: "length (show_nat sz) \<le> 11"
    using size length_show_nat [of sz 10] by (simp add: MAX_SIZE_def)
  have cz: "length (show_nat CHUNK_SIZE) \<le> 7"
    using length_show_nat [of CHUNK_SIZE 6] by (simp add: CHUNK_SIZE_def)
  have one: "length (show_nat (Suc 0)) = 1" by (subst show_nat.simps) simp
  have emits: "emit (JObj (recipe_members key sz ds)) =
      123 # json_string (lit ''chunk_size'') @ 58 # show_nat CHUNK_SIZE @ 44 #
      json_string (lit ''chunks'') @ 58 # 91 # ?cs @ 93 # 44 #
      json_string (lit ''digest'') @ 58 # json_string key @ 44 #
      json_string (lit ''size'') @ 58 # show_nat sz @ 44 #
      json_string (lit ''version'') @ 58 # show_nat 1 @ [125]"
    by (simp add: recipe_members_def json_member_def show_int_def)
  have "ascii (emit (JObj (recipe_members key sz ds)))"
    unfolding emits using cs hex_string [OF key] ascii_show_nat
    by (simp add: json_string_def lit_def esc_char_def)
  moreover have "length (emit (JObj (recipe_members key sz ds))) \<le> max_recipe"
    unfolding emits using cs(2) sz cz many hex_string [OF key] is_hex_length [OF key]
    by (simp add: json_string_def lit_def esc_char_def max_recipe_def one)
  ultimately show ?thesis
    by (simp only: encode_json_def canonical_json_emit normal_recipe_json utf8_ascii)
qed

section \<open>Storing and reading back\<close>

lemma check_chunks_map:
  assumes "\<forall>d \<in> set ds. is_hex 64 (fst d)"
    and "\<forall>j < length ds. int (snd (ds ! j)) = min (int CHUNK_SIZE) (int sz - int ((i + j) * CHUNK_SIZE))"
  shows "check_chunks sz i (map chunk_json ds) = Inr ds"
  using assms
proof (induction ds arbitrary: i)
  case (Cons d ds)
  have "int (snd (ds ! j)) = min (int CHUNK_SIZE) (int sz - int ((Suc i + j) * CHUNK_SIZE))"
    if "j < length ds" for j
    using Cons.prems(2) [rule_format, of "Suc j"] that
    by (simp only: nth_Cons_Suc length_Cons Suc_less_eq add_Suc_shift)
  then have "check_chunks sz (Suc i) (map chunk_json ds) = Inr ds"
    using Cons.prems(1) by (intro Cons.IH) auto
  moreover have "min (int CHUNK_SIZE) (int sz - int (i * CHUNK_SIZE)) = int (snd d)"
    using Cons.prems(2) by (auto dest!: spec [where x = 0])
  ultimately show ?case
    using Cons.prems(1) by (simp add: chunk_json_def [of d] jget_def del: of_nat_mult)
qed simp

lemma check_recipe_members:
  assumes "sz \<le> MAX_SIZE" "length ds = (sz + CHUNK_SIZE - 1) div CHUNK_SIZE"
    and "check_chunks sz 0 (map chunk_json ds) = Inr ds"
  shows "check_recipe key (JObj (recipe_members key sz ds)) = Inr (sz, ds)"
proof -
  have "int (length ds) = (int sz + int CHUNK_SIZE - 1) div int CHUNK_SIZE"
    unfolding assms(2) by (simp add: zdiv_int CHUNK_SIZE_def of_nat_diff)
  then show ?thesis
    using assms(1,3) by (auto simp: check_recipe_def recipe_members_def jget_def int_of_def)
qed

lemma read_chunk_stored:
  assumes "is_hex 64 (H c)" "dir_get (chunk_files r) (H c) = Some (File c)" "length c \<le> CHUNK_SIZE"
  shows "read_chunk H r (H c, length c) = Inr c"
  using assms by (simp add: read_chunk_def member_path_def)

definition chunks_of :: "(bytes \<Rightarrow> pystr) \<Rightarrow> bytes \<Rightarrow> (pystr \<times> nat) list" where
  "chunks_of H b = map (\<lambda>c. (H c, length c)) (split_bytes CHUNK_SIZE b)"

lemma CHUNK_SIZE_pos [simp]: "0 < CHUNK_SIZE" "CHUNK_SIZE \<noteq> 0"
  by (simp_all add: CHUNK_SIZE_def)

lemma length_chunk_le: "c \<in> set (split_bytes CHUNK_SIZE b) \<Longrightarrow> length c \<le> CHUNK_SIZE"
  using nth_split_bytes [of CHUNK_SIZE] by (auto simp: in_set_conv_nth)

text \<open>The recipe and the chunks of a content are on disk, so it reads back.\<close>

definition stored :: "(bytes \<Rightarrow> pystr) \<Rightarrow> data_root \<Rightarrow> bytes \<Rightarrow> bool" where
  "stored H r b \<longleftrightarrow> length b \<le> MAX_SIZE
     \<and> (\<forall>c \<in> set (split_bytes CHUNK_SIZE b). is_hex 64 (H c) \<and> dir_get (chunk_files r) (H c) = Some (File c))
     \<and> is_hex 64 (H b)
     \<and> dir_get (recipe_files r) (H b) = Some (File (encode_json (recipe_json (H b) (length b) (chunks_of H b))))"

lemma stored_recipe:
  assumes "stored H r b"
  shows "chunk_recipe r (H b) = Inr (length b, chunks_of H b)"
proof -
  let ?ds = "chunks_of H b"
  have hex: "is_hex 64 (H b)" "\<forall>d \<in> set ?ds. is_hex 64 (fst d)" and size: "length b \<le> MAX_SIZE"
    using assms by (auto simp: stored_def chunks_of_def)
  have len: "length ?ds = (length b + CHUNK_SIZE - 1) div CHUNK_SIZE"
    by (simp add: chunks_of_def length_split_bytes)
  have "int (snd (?ds ! j)) = min (int CHUNK_SIZE) (int (length b) - int ((0 + j) * CHUNK_SIZE))"
    if "j < length ?ds" for j
    using nth_split_bytes [of CHUNK_SIZE j b] that
    by (simp add: chunks_of_def of_nat_min of_nat_diff del: of_nat_mult)
  then have "check_recipe (H b) (JObj (recipe_members (H b) (length b) ?ds)) = Inr (length b, ?ds)"
    by (intro check_recipe_members size len check_chunks_map hex) blast
  moreover have "length ?ds \<le> (MAX_SIZE + CHUNK_SIZE - 1) div CHUNK_SIZE"
    unfolding len using size by (intro div_le_mono) simp
  then have "length (encode_json (recipe_json (H b) (length b) ?ds)) \<le> max_recipe"
    using hex size length_chunk_le
    by (intro recipe_fits) (auto simp: chunks_of_def MAX_SIZE_def CHUNK_SIZE_def)
  ultimately show ?thesis
    using assms hex json_ok_recipe [OF hex]
    by (simp add: chunk_recipe_def member_path_def stored_def json_loads_encode normal_recipe_json)
qed

lemma stored_iter:
  assumes "stored H r b"
  shows "chunk_iter H r (H b) = Inr (split_bytes CHUNK_SIZE b)"
proof -
  have "mapR (read_chunk H r) (chunks_of H b) = Inr (split_bytes CHUNK_SIZE b)"
    using assms length_chunk_le
    by (auto simp: mapR_Inr_iff chunks_of_def list_all2_map1 stored_def
        intro!: list.rel_refl_strong read_chunk_stored)
  then show ?thesis
    by (simp add: chunk_iter_def stored_recipe [OF assms] concat_split_bytes)
qed

lemma stored_get: "stored H r b \<Longrightarrow> chunk_get H r (H b) = Inr b"
  by (simp add: chunk_get_def stored_iter concat_split_bytes)

lemma chunk_put_stored:
  assumes "chunk_put H free ex n u b r = (Inr (k, m), s)"
  shows "stored H s b \<and> k = H b \<and> m = length b \<and> n \<le> MAX_SIZE"
proof -
  obtain x r1 where step: "publish_chunks H free 0 (split_bytes CHUNK_SIZE b) r = (x, r1)"
    by (cases "publish_chunks H free 0 (split_bytes CHUNK_SIZE b) r")
  with assms obtain ds where x: "x = Inr ds"
    by (cases x) (auto simp: chunk_put_def bindS_def split: if_splits)
  note chunks = step [unfolded x]
  have n: "n \<le> MAX_SIZE"
    using assms by (rule contrapos_pp) (simp add: chunk_put_def)
  obtain y r2 where recipe': "publish_recipe free (H b) (encode_json (recipe_json (H b) (length b) ds)) r1 = (y, r2)"
    by (cases "publish_recipe free (H b) (encode_json (recipe_json (H b) (length b) ds)) r1")
  have "y = Inr () \<and> r2 = s \<and> k = H b \<and> m = length b"
    using assms chunks recipe' n by (cases y) (auto simp: chunk_put_def bindS_def split: if_splits)
  with recipe' n have recipe: "publish_recipe free (H b) (encode_json (recipe_json (H b) (length b) ds)) r1 = (Inr (), s)"
    and res: "k = H b" "m = length b" "n \<le> MAX_SIZE" by auto
  have "length b \<le> MAX_SIZE"
    using publish_chunks_ok [OF chunks] concat_split_bytes [of CHUNK_SIZE b]
    by (cases "split_bytes CHUNK_SIZE b = []") auto
  then show ?thesis
    using publish_chunks_ok [OF chunks] publish_recipe_ok [OF recipe] publish_recipe_frame [OF recipe] res
    by (simp add: stored_def chunks_of_def)
qed

lemma chunk_put_le: "chunk_put H free ex n u b r = (res, s) \<Longrightarrow> objects_le r s"
proof -
  assume put: "chunk_put H free ex n u b r = (res, s)"
  obtain x r1 where step: "publish_chunks H free 0 (split_bytes CHUNK_SIZE b) r = (x, r1)"
    by (cases "publish_chunks H free 0 (split_bytes CHUNK_SIZE b) r")
  from put step have "s = r \<or> s = r1 \<or> (\<exists>k c res. publish_recipe free k c r1 = (res, s))"
    by (auto simp: chunk_put_def bindS_def split: sum.splits prod.splits if_splits)
  with publish_chunks_le [OF step] show "objects_le r s"
    by (blast intro: objects_le_refl objects_le_trans publish_recipe_le)
qed

text \<open>Only the two directories of the chunk store change.\<close>

definition outside_chunks :: "data_root \<Rightarrow> data_root" where
  "outside_chunks r = r\<lparr>chunk_files := [], recipe_files := []\<rparr>"

lemma publish_chunk_outside: "publish_chunk free k c r = (res, s) \<Longrightarrow> outside_chunks s = outside_chunks r"
  by (auto simp: publish_chunk_def outside_chunks_def split: prod.splits)

lemma publish_recipe_outside: "publish_recipe free k c r = (res, s) \<Longrightarrow> outside_chunks s = outside_chunks r"
  by (auto simp: publish_recipe_def outside_chunks_def split: prod.splits)

lemma publish_chunks_outside: "publish_chunks H free n cs r = (res, s) \<Longrightarrow> outside_chunks s = outside_chunks r"
proof (induction cs arbitrary: n r res)
  case (Cons c cs)
  obtain x r1 where step: "publish_chunk free (H c) c r = (x, r1)" by (cases "publish_chunk free (H c) c r")
  with Cons.prems have "s = r \<or> s = r1 \<or> (\<exists>res. publish_chunks H free (n + length c) cs r1 = (res, s))"
    by (auto simp: bindS_def split: sum.splits prod.splits if_splits)
  with Cons.IH publish_chunk_outside [OF step] show ?case by metis
qed simp

lemma chunk_put_outside:
  assumes put: "chunk_put H free ex n u b r = (res, s)"
  shows "outside_chunks s = outside_chunks r"
proof -
  obtain x r1 where step: "publish_chunks H free 0 (split_bytes CHUNK_SIZE b) r = (x, r1)"
    by (cases "publish_chunks H free 0 (split_bytes CHUNK_SIZE b) r")
  from put step have "s = r \<or> s = r1 \<or> (\<exists>k c res. publish_recipe free k c r1 = (res, s))"
    by (auto simp: chunk_put_def bindS_def split: sum.splits prod.splits if_splits)
  with publish_chunks_outside [OF step] publish_recipe_outside show ?thesis by metis
qed

lemma outside_chunks_eq:
  assumes "outside_chunks s = outside_chunks r"
  shows "object_dir ns s = object_dir ns r" "staging_dir ns s = staging_dir ns r"
    "is_fenced s = is_fenced r" "has_current s = has_current r" "has_manifest s = has_manifest r"
proof -
  have "object_dir ns (outside_chunks q) = object_dir ns q" "staging_dir ns (outside_chunks q) = staging_dir ns q"
    "is_fenced (outside_chunks q) = is_fenced q" "has_current (outside_chunks q) = has_current q"
    "has_manifest (outside_chunks q) = has_manifest q" for q
    by (cases ns; simp add: outside_chunks_def object_dir_def staging_dir_def)+
  with assms show "object_dir ns s = object_dir ns r" "staging_dir ns s = staging_dir ns r"
    "is_fenced s = is_fenced r" "has_current s = has_current r" "has_manifest s = has_manifest r"
    by metis+
qed

lemma mapR_weaken:
  "mapR f xs = Inr ys \<Longrightarrow> (\<And>x y. f x = Inr y \<Longrightarrow> g x = Inr y) \<Longrightarrow> mapR g xs = Inr ys"
  unfolding mapR_Inr_iff by (rule list_all2_mono)

lemma read_chunk_le:
  "objects_le r s \<Longrightarrow> read_chunk H r c = Inr b \<Longrightarrow> read_chunk H s c = Inr b"
  by (auto simp: read_chunk_def objects_le_def member_path_def bindR_Inr_iff dest: dir_leD
      split: option.splits node.splits if_splits)

lemma chunk_recipe_le: "objects_le r s \<Longrightarrow> chunk_recipe r k = Inr b \<Longrightarrow> chunk_recipe s k = Inr b"
  by (auto simp: chunk_recipe_def objects_le_def member_path_def bindR_Inr_iff dest: dir_leD
      split: option.splits node.splits if_splits)

lemma chunk_iter_le:
  assumes "objects_le r s" "chunk_iter H r k = Inr cs"
  shows "chunk_iter H s k = Inr cs"
proof -
  from assms(2) obtain sz ds where r: "chunk_recipe r k = Inr (sz, ds)" "mapR (read_chunk H r) ds = Inr cs"
    and h: "H (concat cs) = k"
    by (auto simp: chunk_iter_def bindR_Inr_iff split: if_splits)
  have "mapR (read_chunk H s) ds = Inr cs"
    by (rule mapR_weaken [OF r(2)]) (rule read_chunk_le [OF assms(1)])
  with h chunk_recipe_le [OF assms(1) r(1)] show ?thesis
    by (simp add: chunk_iter_def)
qed

lemma chunk_get_le: "objects_le r s \<Longrightarrow> chunk_get H r k = Inr b \<Longrightarrow> chunk_get H s k = Inr b"
  by (auto simp: chunk_get_def bindR_Inr_iff dest: chunk_iter_le)

lemma chunk_get_hash: "chunk_get H r k = Inr b \<Longrightarrow> H b = k"
  by (auto simp: chunk_get_def chunk_iter_def bindR_Inr_iff split: if_splits)

text \<open>The chunk store provides the contract.\<close>

definition chunk_put_key :: "(bytes \<Rightarrow> pystr) \<Rightarrow> (data_root \<Rightarrow> nat) \<Rightarrow> bytes \<Rightarrow> (data_root, pystr) op" where
  "chunk_put_key H free b r =
     (let (res, s) = chunk_put H free None (length b) True b r in (map_sum id fst res, s))"

lemma chunk_put_key_ok:
  assumes "chunk_put_key H free b r = (Inr k, s)"
  shows "stored H s b \<and> k = H b"
  using assms by (auto simp: chunk_put_key_def split: prod.splits sum.splits dest!: chunk_put_stored
      simp: map_sum_def)

text \<open>Every chunk on disk has the digest it is named by; putting files keeps it so.\<close>

definition chunk_inv :: "(bytes \<Rightarrow> pystr) \<Rightarrow> data_root \<Rightarrow> bool" where
  "chunk_inv H r \<longleftrightarrow> (\<forall>k b. dir_get (chunk_files r) k = Some (File b) \<longrightarrow> H b = k)"

lemma publish_chunk_inv:
  "publish_chunk free (H c) c r = (res, s) \<Longrightarrow> chunk_inv H r \<Longrightarrow> chunk_inv H s"
  by (auto simp: publish_chunk_def publish_member_def chunk_inv_def
      split: sum.splits option.splits node.splits if_splits)

lemma publish_chunks_inv:
  "publish_chunks H free n cs r = (res, s) \<Longrightarrow> chunk_inv H r \<Longrightarrow> chunk_inv H s"
proof (induction cs arbitrary: n r res)
  case (Cons c cs)
  obtain x r1 where step: "publish_chunk free (H c) c r = (x, r1)" by (cases "publish_chunk free (H c) c r")
  with Cons.prems(1) have "s = r \<or> s = r1 \<or> (\<exists>res. publish_chunks H free (n + length c) cs r1 = (res, s))"
    by (auto simp: bindS_def split: sum.splits prod.splits if_splits)
  with Cons.IH publish_chunk_inv [of free H c r x r1] step Cons.prems(2) show ?case by blast
qed simp

lemma chunk_put_inv:
  assumes put: "chunk_put H free ex n u b r = (res, s)" and inv: "chunk_inv H r"
  shows "chunk_inv H s"
proof -
  obtain x r1 where step: "publish_chunks H free 0 (split_bytes CHUNK_SIZE b) r = (x, r1)"
    by (cases "publish_chunks H free 0 (split_bytes CHUNK_SIZE b) r")
  from put step have "s = r \<or> s = r1 \<or> (\<exists>k c res. publish_recipe free k c r1 = (res, s))"
    by (auto simp: chunk_put_def bindS_def split: sum.splits prod.splits if_splits)
  with publish_chunks_inv [OF step inv] inv show ?thesis
    by (auto simp: chunk_inv_def dest!: publish_recipe_frame)
qed

interpretation chunk_store: exact_store "chunk_put_key H free" "chunk_get H" H "chunk_inv H"
proof unfold_locales
  fix b r k s assume put: "chunk_put_key H free b r = (Inr k, s)"
  then show "k = H b \<and> is_ok (chunk_get H s k)" "chunk_get H s k = Inr b"
    using stored_get [of H s b] chunk_put_key_ok [OF put] by simp_all
next
  fix b r res s k c assume put: "chunk_put_key H free b r = (res, s)"
  have le: "objects_le r s"
    using put by (auto simp: chunk_put_key_def split: prod.splits intro: chunk_put_le)
  show "is_ok (chunk_get H r k) \<Longrightarrow> is_ok (chunk_get H s k)"
    using chunk_get_le [OF le] by (auto simp: is_ok_def split: sum.splits)
  show "chunk_get H r k = Inr c \<Longrightarrow> chunk_get H s k = Inr c"
    by (rule chunk_get_le [OF le])
next
  fix b r res s assume "chunk_inv H r" "chunk_put_key H free b r = (res, s)"
  then show "chunk_inv H s"
    by (auto simp: chunk_put_key_def split: prod.splits intro: chunk_put_inv)
qed (simp_all add: chunk_get_hash)

section \<open>Storing succeeds\<close>

lemmas limits = MAX_SIZE_def CHUNK_SIZE_def max_recipe_def space_margin_def

lemma publish_member_free:
  assumes "is_hex 64 k" "dir_get d k \<in> {None, Some (File c)}" "length c + space_margin \<le> free"
  shows "\<exists>d'. publish_member free k c d = (Inr (), d') \<and> dir_get d' k = Some (File c)
    \<and> (\<forall>j. j \<noteq> k \<longrightarrow> dir_get d' j = dir_get d j)"
  using assms by (auto simp: publish_member_def member_path_def)

lemma publish_chunks_returns:
  assumes "hash_ok H" "\<forall>r. CHUNK_SIZE + space_margin \<le> free r"
    and "\<forall>c \<in> set cs. length c \<le> CHUNK_SIZE" "\<forall>c \<in> set cs. \<forall>c' \<in> set cs. H c = H c' \<longrightarrow> c = c'"
    and "\<forall>c \<in> set cs. dir_get (chunk_files r) (H c) \<in> {None, Some (File c)}"
    and "n + length (concat cs) \<le> MAX_SIZE"
  shows "\<exists>s. publish_chunks H free n cs r = (Inr (map (\<lambda>c. (H c, length c)) cs), s) \<and> recipe_files s = recipe_files r"
  using assms(3-)
proof (induction cs arbitrary: n r)
  case (Cons c cs)
  have "length c \<le> CHUNK_SIZE" "CHUNK_SIZE + space_margin \<le> free r"
    using Cons.prems(1) assms(2) by simp_all
  then have "length c + space_margin \<le> free r" by linarith
  then obtain d where d: "publish_member (free r) (H c) c (chunk_files r) = (Inr (), d)"
      "dir_get d (H c) = Some (File c)" "\<forall>j. j \<noteq> H c \<longrightarrow> dir_get d j = dir_get (chunk_files r) j"
    using publish_member_free [of "H c" "chunk_files r" c "free r"] assms(1) Cons.prems(3)
    by (auto simp: hash_ok_def)
  have "\<forall>c' \<in> set cs. dir_get d (H c') \<in> {None, Some (File c')}"
    using d(2,3) Cons.prems(2,3) by (metis list.set_intros insertCI)
  then obtain s where "publish_chunks H free (n + length c) cs (r\<lparr>chunk_files := d\<rparr>)
      = (Inr (map (\<lambda>c. (H c, length c)) cs), s)" "recipe_files s = recipe_files r"
    using Cons.IH [of "r\<lparr>chunk_files := d\<rparr>" "n + length c"] Cons.prems by auto
  with d(1) Cons.prems(4) show ?case
    by (simp add: bindS_def publish_chunk_def)
qed simp

lemma chunk_put_returns:
  assumes "length b \<le> MAX_SIZE" "n \<le> MAX_SIZE" "hash_ok H" "ex = None \<or> ex = Some (H b)"
    and free: "\<forall>r. CHUNK_SIZE + space_margin \<le> free r"
    and "\<forall>c \<in> set (split_bytes CHUNK_SIZE b). \<forall>c' \<in> set (split_bytes CHUNK_SIZE b). H c = H c' \<longrightarrow> c = c'"
    and "\<forall>c \<in> set (split_bytes CHUNK_SIZE b). dir_get (chunk_files r) (H c) \<in> {None, Some (File c)}"
    and none: "dir_get (recipe_files r) (H b) = None"
  shows "fst (chunk_put H free ex n True b r) = Inr (H b, length b)"
proof -
  let ?ds = "map (\<lambda>c. (H c, length c)) (split_bytes CHUNK_SIZE b)"
  let ?text = "encode_json (recipe_json (H b) (length b) ?ds)"
  have hex: "is_hex 64 (H c)" for c using assms(3) by (simp add: hash_ok_def)
  obtain s where s: "publish_chunks H free 0 (split_bytes CHUNK_SIZE b) r = (Inr ?ds, s)"
      "recipe_files s = recipe_files r"
    using publish_chunks_returns [of H free "split_bytes CHUNK_SIZE b" r 0] assms length_chunk_le
    by (auto simp: concat_split_bytes)
  have "length ?ds \<le> (MAX_SIZE + CHUNK_SIZE - 1) div CHUNK_SIZE"
    using assms(1) by (simp only: length_map length_split_bytes CHUNK_SIZE_pos) (intro div_le_mono diff_le_mono add_le_mono1)
  then have "length ?text \<le> max_recipe"
    using hex assms(1) length_chunk_le by (intro recipe_fits) (auto simp: MAX_SIZE_def CHUNK_SIZE_def)
  moreover have "CHUNK_SIZE + space_margin \<le> free s" using free by blast
  ultimately have "length ?text + space_margin \<le> free s" by (simp add: limits)
  then obtain d where "publish_member (free s) (H b) ?text (recipe_files s) = (Inr (), d)"
    using publish_member_free [of "H b" "recipe_files s" ?text "free s"] hex none s(2) by auto
  then show ?thesis
    using assms(2,4) hex s(1) by (auto simp: chunk_put_def bindS_def publish_recipe_def)
qed

lemma sample_chunk_put:
  "fst (chunk_put sample_hash (\<lambda>_. 10 ^ 9) None 3 True [1, 2, 3] empty_root) = Inr (sample_hash [1, 2, 3], 3)"
  by (subst chunk_put_returns) (simp_all add: split_bytes.simps hash_ok_sample empty_root_def limits)

definition sample_root :: data_root where
  "sample_root = snd (chunk_put sample_hash (\<lambda>_. 10 ^ 9) None 3 True [1, 2, 3] empty_root)"

lemma sample_root_put:
  "chunk_put sample_hash (\<lambda>_. 10 ^ 9) None 3 True [1, 2, 3] empty_root
     = (Inr (sample_hash [1, 2, 3], 3), sample_root)"
  using sample_chunk_put by (metis prod.collapse sample_root_def)

lemma sample_stored: "stored sample_hash sample_root [1, 2, 3]"
  using chunk_put_stored [OF sample_root_put] by simp

section \<open>Properties\<close>

text \<open>C20: Storing a file as chunks and reading it back gives exactly its bytes: when put
  returns, the digest and the size it returns are those of the content, the store verifies
  under that digest, and the reconstruction is the content.\<close>

theorem chunk_put_get:
  assumes "chunk_put H free ex n u b r = (Inr (k, m), s)"
  shows "k = H b \<and> m = length b \<and> chunk_verify H s k \<and> chunk_get H s k = Inr b"
  using chunk_put_stored [OF assms] stored_get [of H s b] stored_iter [of H s b]
  by (simp add: chunk_verify_def)

lemma chunk_put_get_witness: "chunk_get sample_hash sample_root (sample_hash [1, 2, 3]) = Inr [1, 2, 3]"
  using chunk_put_get [OF sample_root_put] by simp

text \<open>Adding a file never changes the store: whatever put returns, even when it raises
  half-way, every object on disk keeps its bytes and every content that could be
  reconstructed before still is.\<close>

theorem chunk_put_keeps:
  assumes "chunk_put H free ex n u b r = (res, s)"
  shows "objects_le r s \<and> (\<forall>k c. chunk_get H r k = Inr c \<longrightarrow> chunk_get H s k = Inr c)
    \<and> (chunk_inv H r \<longrightarrow> chunk_inv H s)"
  using chunk_put_le [OF assms] chunk_put_inv [OF assms] chunk_get_le by blast

lemma chunk_put_keeps_witness:
  "objects_le empty_root (snd (chunk_put sample_hash (\<lambda>_. 10 ^ 9) None 3 False [1, 2, 3] empty_root))"
  using chunk_put_keeps [of sample_hash "\<lambda>_. 10 ^ 9" None 3 False "[1, 2, 3]" empty_root]
  by (metis prod.collapse)

lemma check_chunks_sizes:
  assumes "check_chunks sz i cs = Inr ds" "length cs = (sz - i * CHUNK_SIZE + CHUNK_SIZE - 1) div CHUNK_SIZE"
  shows "sum_list (map snd ds) = sz - i * CHUNK_SIZE \<and> (\<forall>d \<in> set ds. snd d \<le> CHUNK_SIZE)"
  using assms
proof (induction cs arbitrary: i ds)
  case Nil
  then have "sz - i * CHUNK_SIZE + CHUNK_SIZE - 1 < CHUNK_SIZE"
    by (simp add: div_eq_0_iff)
  then show ?case using Nil.prems(1) by simp
next
  case (Cons c cs)
  let ?rem = "sz - i * CHUNK_SIZE"
  have pos: "0 < ?rem"
    using Cons.prems(2) by (rule contrapos_pp) (simp add: CHUNK_SIZE_def)
  from Cons.prems(1) obtain k m ds' where
      m: "m = nat (min (int CHUNK_SIZE) (int sz - int (i * CHUNK_SIZE)))" and ds: "ds = (k, m) # ds'"
      and rest: "check_chunks sz (Suc i) cs = Inr ds'"
    by (auto simp: bindR_Inr_iff split: json.splits if_splits option.splits simp del: of_nat_mult)
  have "length cs = (?rem + CHUNK_SIZE - 1) div CHUNK_SIZE - 1"
    using Cons.prems(2) by simp
  also have "\<dots> = (sz - Suc i * CHUNK_SIZE + CHUNK_SIZE - 1) div CHUNK_SIZE"
  proof (cases "?rem \<le> CHUNK_SIZE")
    case True
    then have "(?rem + CHUNK_SIZE - 1) div CHUNK_SIZE = 1"
      using pos by (intro div_nat_eqI) simp_all
    moreover have "sz - Suc i * CHUNK_SIZE = 0" using True by simp
    ultimately show ?thesis by simp
  next
    case False
    have "(sz - Suc i * CHUNK_SIZE + CHUNK_SIZE - 1 + CHUNK_SIZE) div CHUNK_SIZE
        = Suc ((sz - Suc i * CHUNK_SIZE + CHUNK_SIZE - 1) div CHUNK_SIZE)"
      by (intro trans [OF div_add_self2]) simp_all
    moreover have "sz - Suc i * CHUNK_SIZE + CHUNK_SIZE - 1 + CHUNK_SIZE = ?rem + CHUNK_SIZE - 1"
      using False by simp
    ultimately show ?thesis by (simp only: diff_Suc_1)
  qed
  finally have "sum_list (map snd ds') = sz - Suc i * CHUNK_SIZE \<and> (\<forall>d \<in> set ds'. snd d \<le> CHUNK_SIZE)"
    by (rule Cons.IH [OF rest])
  moreover have "int sz - int (i * CHUNK_SIZE) = int ?rem" using pos by linarith
  then have "m = min CHUNK_SIZE ?rem" by (simp only: m of_nat_min [symmetric] nat_int)
  moreover have "sz - Suc i * CHUNK_SIZE = ?rem - CHUNK_SIZE" by simp
  moreover have "min CHUNK_SIZE x + (x - CHUNK_SIZE) = x" for x by (simp add: min_def)
  ultimately show ?case
    unfolding ds list.map sum_list.Cons snd_conv
    by (metis (no_types, lifting) list.set_cases min.cobounded1 set_ConsD snd_conv)
qed

lemma chunk_recipe_sizes:
  assumes "chunk_recipe r k = Inr (sz, ds)"
  shows "sum_list (map snd ds) = sz \<and> (\<forall>d \<in> set ds. snd d \<le> CHUNK_SIZE)"
proof -
  from assms obtain n cs where n: "\<not> n < 0" "sz = nat n" "int (length cs) = (n + int CHUNK_SIZE - 1) div int CHUNK_SIZE"
    and cs: "check_chunks (nat n) 0 cs = Inr ds"
    by (auto simp: chunk_recipe_def check_recipe_def bindR_Inr_iff
        split: option.splits node.splits if_splits json.splits)
  have "int (length cs) = int ((sz + CHUNK_SIZE - 1) div CHUNK_SIZE)"
    using n by (simp add: zdiv_int of_nat_diff CHUNK_SIZE_def)
  then have "length cs = (sz - 0 * CHUNK_SIZE + CHUNK_SIZE - 1) div CHUNK_SIZE"
    by (simp only: of_nat_eq_iff mult_0 minus_nat.diff_0)
  then show ?thesis using check_chunks_sizes [of sz 0 cs ds] cs n(2) by simp
qed

lemma read_chunks_sizes:
  "mapR (read_chunk H r) ds = Inr cs \<Longrightarrow> map length cs = map snd ds"
  by (induction ds arbitrary: cs)
    (auto simp: bindR_Inr_iff read_chunk_def Let_def split: option.splits node.splits if_splits)

text \<open>What the store returns for a digest is the content of that digest whatever is on
  disk: a reconstruction that ends without an exception hashes to the digest asked for,
  every chunk is at most 4 MiB, and the length is the size the recipe records.\<close>

theorem chunk_iter_sound:
  assumes "chunk_iter H r k = Inr cs"
  shows "H (concat cs) = k \<and> (\<forall>c \<in> set cs. length c \<le> CHUNK_SIZE)
    \<and> (\<exists>ds. chunk_recipe r k = Inr (length (concat cs), ds))"
proof -
  from assms obtain sz ds where r: "chunk_recipe r k = Inr (sz, ds)" "mapR (read_chunk H r) ds = Inr cs"
    and h: "H (concat cs) = k"
    by (auto simp: chunk_iter_def bindR_Inr_iff split: if_splits)
  have "length (concat cs) = sz" "\<forall>c \<in> set cs. length c \<le> CHUNK_SIZE"
    using chunk_recipe_sizes [OF r(1)] read_chunks_sizes [OF r(2)]
    by (simp_all add: length_concat) (metis (no_types, lifting) image_eqI image_iff list.set_map)
  with r h show ?thesis by blast
qed

lemma chunk_iter_sound_witness: "\<exists>ds. chunk_recipe sample_root (sample_hash [1, 2, 3]) = Inr (3, ds)"
  using chunk_iter_sound [OF stored_iter [OF sample_stored]]
  by (simp add: concat_split_bytes numeral_3_eq_3)





end
