(* ===== verification/Objects.thy ===== *)
theory Objects
  imports Chunks
begin

text \<open>
  The object store of \<open>storage/objects.py\<close>: content-addressed objects in two namespaces, kept
  as a plain file or, for raw archives, as chunks and a recipe. The section on copying
  models \<open>copy_to\<close>, by which recovery packages and replicas receive objects.
\<close>

section \<open>Lookup\<close>

datatype layout = PlainFile | ChunkedV1

definition object_key :: "pystr \<Rightarrow> unit result" where
  "object_key key = (if is_hex 64 key then Inr () else Inl (ValueError ''invalid raw object digest''))"

definition object_layout :: "namespace \<Rightarrow> data_root \<Rightarrow> pystr \<Rightarrow> layout result" where
  "object_layout ns r key = bindR (object_key key) (\<lambda>_.
     case dir_get (object_dir ns r) key of
       Some Link \<Rightarrow> Inl (ValueError ''raw objects must not be symlinks'')
     | Some _ \<Rightarrow> Inr PlainFile
     | None \<Rightarrow> if ns = Raw then bindR (member_path key (recipe_files r)) (\<lambda>_.
           case dir_get (recipe_files r) key of
             Some (File _) \<Rightarrow> Inr ChunkedV1
           | _ \<Rightarrow> Inl (FileNotFoundError ''raw object is unavailable''))
         else Inl (FileNotFoundError ''raw object is unavailable''))"

definition object_verify :: "(bytes \<Rightarrow> pystr) \<Rightarrow> namespace \<Rightarrow> data_root \<Rightarrow> pystr \<Rightarrow> bool result" where
  "object_verify H ns r key = bindR (object_key key) (\<lambda>_. Inr (
     case dir_get (object_dir ns r) key of
       Some Link \<Rightarrow> False
     | Some (File b) \<Rightarrow> H b = key
     | Some (Directory _) \<Rightarrow> False
     | None \<Rightarrow> if ns = Raw then chunk_verify H r key else False))"

definition object_size :: "namespace \<Rightarrow> data_root \<Rightarrow> pystr \<Rightarrow> nat result" where
  "object_size ns r key = bindR (object_layout ns r key) (\<lambda>l.
     case l of
       PlainFile \<Rightarrow> (case dir_get (object_dir ns r) key of
           Some (File b) \<Rightarrow> Inr (length b) | Some (Directory n) \<Rightarrow> Inr n
         | _ \<Rightarrow> Inl (FileNotFoundError ''raw object is unavailable''))
     | ChunkedV1 \<Rightarrow> bindR (chunk_recipe r key) (\<lambda>(sz, _). Inr sz))"

text \<open>\<open>iter_bytes\<close>, read to its end: file buffers of 1 MiB, or the chunks.\<close>

definition BUFFER :: nat where "BUFFER = 1024 * 1024"

definition object_iter :: "(bytes \<Rightarrow> pystr) \<Rightarrow> namespace \<Rightarrow> data_root \<Rightarrow> pystr \<Rightarrow> bytes list result" where
  "object_iter H ns r key = bindR (object_layout ns r key) (\<lambda>l.
     case l of
       ChunkedV1 \<Rightarrow> chunk_iter H r key
     | PlainFile \<Rightarrow> (case dir_get (object_dir ns r) key of
           Some (File b) \<Rightarrow> if H b \<noteq> key then Inl (ValueError ''raw object checksum mismatch'')
             else Inr (split_bytes BUFFER b)
         | _ \<Rightarrow> Inl (OSError ''not a regular file'')))"

definition object_get :: "(bytes \<Rightarrow> pystr) \<Rightarrow> namespace \<Rightarrow> data_root \<Rightarrow> pystr \<Rightarrow> bytes result" where
  "object_get H ns r key = bindR (object_iter H ns r key) (\<lambda>cs. Inr (concat cs))"

section \<open>Storing\<close>

text \<open>
  \<open>put\<close> without chunking: the content is copied to a temporary file and linked to its
  digest; an object that already stands there must verify. With chunking the chunk store
  takes the file.
\<close>

definition object_put_file :: "(bytes \<Rightarrow> pystr) \<Rightarrow> namespace \<Rightarrow> bytes \<Rightarrow> (data_root, pystr \<times> nat) op" where
  "object_put_file H ns b r = (case object_key (H b) of
       Inl e \<Rightarrow> (Inl e, r)
     | Inr _ \<Rightarrow> (case dir_get (object_dir ns r) (H b) of
           None \<Rightarrow> (Inr (H b, length b), set_object_dir ns (dir_put (H b) (File b) (object_dir ns r)) r)
         | Some _ \<Rightarrow> if object_verify H ns r (H b) = Inr True then (Inr (H b, length b), r)
             else (Inl (ValueError ''existing raw object is corrupt''), r)))"

definition object_put :: "(bytes \<Rightarrow> pystr) \<Rightarrow> (data_root \<Rightarrow> nat) \<Rightarrow> namespace \<Rightarrow> bool \<Rightarrow> nat \<Rightarrow> bool
    \<Rightarrow> bytes \<Rightarrow> (data_root, pystr \<times> nat) op" where
  "object_put H free ns chunked stat_size unchanged b r =
     (if chunked then if ns \<noteq> Raw then (Inl (ValueError ''only raw archival supports shared chunks''), r)
        else chunk_put H free None stat_size unchanged b r
      else object_put_file H ns b r)"

section \<open>Copying between data roots\<close>

text \<open>
  The members of an object: its file, or the distinct chunks of its recipe and then the
  recipe. A member is linked or copied; one that exists must have the same digest.
\<close>

datatype member = ObjectMember | ChunkMember | RecipeMember

definition member_dir :: "member \<Rightarrow> namespace \<Rightarrow> data_root \<Rightarrow> dir" where
  "member_dir m ns r = (case m of ObjectMember \<Rightarrow> object_dir ns r | ChunkMember \<Rightarrow> chunk_files r
     | RecipeMember \<Rightarrow> recipe_files r)"

definition set_member_dir :: "member \<Rightarrow> namespace \<Rightarrow> dir \<Rightarrow> data_root \<Rightarrow> data_root" where
  "set_member_dir m ns d r = (case m of ObjectMember \<Rightarrow> set_object_dir ns d r
     | ChunkMember \<Rightarrow> r\<lparr>chunk_files := d\<rparr> | RecipeMember \<Rightarrow> r\<lparr>recipe_files := d\<rparr>)"

definition copy_member :: "(bytes \<Rightarrow> pystr) \<Rightarrow> node option \<Rightarrow> pystr \<Rightarrow> dir \<Rightarrow> unit result \<times> dir" where
  "copy_member H source key d =
     (if source = Some Link \<or> dir_get d key = Some Link
      then (Inl (ValueError ''object members must not be symlinks''), d)
      else (case source of
          None \<Rightarrow> (Inl (FileNotFoundError ''member''), d)
        | Some (File b) \<Rightarrow> (case dir_get d key of
              None \<Rightarrow> (Inr (), dir_put key (File b) d)
            | Some (File c) \<Rightarrow> if H b \<noteq> H c then (Inl (ValueError ''object member differs after copying''), d)
                else (Inr (), d)
            | Some _ \<Rightarrow> (Inl (OSError ''not a regular file''), d))
        | Some _ \<Rightarrow> (Inl (OSError ''not a regular file''), d)))"

fun copy_members :: "(bytes \<Rightarrow> pystr) \<Rightarrow> namespace \<Rightarrow> data_root \<Rightarrow> namespace \<Rightarrow> (member \<times> pystr) list
    \<Rightarrow> (data_root, unit) op" where
  "copy_members H ns src nt [] t = (Inr (), t)"
| "copy_members H ns src nt ((m, key) # ms) t =
     (case copy_member H (dir_get (member_dir m ns src) key) key (member_dir m nt t) of
        (Inl e, d) \<Rightarrow> (Inl e, set_member_dir m nt d t)
      | (Inr _, d) \<Rightarrow> copy_members H ns src nt ms (set_member_dir m nt d t))"

definition member_paths :: "data_root \<Rightarrow> data_root \<Rightarrow> pystr list \<Rightarrow> pystr \<Rightarrow> unit result" where
  "member_paths src t keys key =
     bindR (mapR (\<lambda>k. bindR (member_path k (chunk_files src)) (\<lambda>_. member_path k (chunk_files t))) keys) (\<lambda>_.
     bindR (member_path key (recipe_files src)) (\<lambda>_. member_path key (recipe_files t)))"

definition object_members :: "namespace \<Rightarrow> data_root \<Rightarrow> data_root \<Rightarrow> pystr \<Rightarrow> (member \<times> pystr) list result" where
  "object_members ns src t key = bindR (object_layout ns src key) (\<lambda>l. case l of
       PlainFile \<Rightarrow> Inr [(ObjectMember, key)]
     | ChunkedV1 \<Rightarrow> bindR (chunk_recipe src key) (\<lambda>(_, chunks).
         let keys = dedup_from [] (map fst chunks) in
         bindR (member_paths src t keys key) (\<lambda>_.
           Inr (map (Pair ChunkMember) keys @ [(RecipeMember, key)]))))"

definition object_copy_to :: "(bytes \<Rightarrow> pystr) \<Rightarrow> namespace \<Rightarrow> data_root \<Rightarrow> namespace \<Rightarrow> pystr
    \<Rightarrow> (data_root, unit) op" where
  "object_copy_to H ns src nt key t = (case object_members ns src t key of
       Inl e \<Rightarrow> (Inl e, t)
     | Inr ms \<Rightarrow> bindS (copy_members H ns src nt ms) (\<lambda>_ t.
         case object_verify H nt t key of
           Inl e \<Rightarrow> (Inl e, t)
         | Inr ok \<Rightarrow> if ok then (Inr (), t)
             else (Inl (ValueError ''copied raw evidence is missing or corrupt''), t)) t)"

section \<open>Facts about lookup\<close>

lemma BUFFER_pos [simp]: "0 < BUFFER" "BUFFER \<noteq> 0"
  by (simp_all add: BUFFER_def)

lemma chunk_recipe_file:
  "chunk_recipe r key = Inr x \<Longrightarrow> is_hex 64 key \<and> member_path key (recipe_files r) = Inr ()
     \<and> (\<exists>b. dir_get (recipe_files r) key = Some (File b))"
  by (auto simp: chunk_recipe_def bindR_Inr_iff member_path_def split: option.splits node.splits if_splits)

lemma chunk_get_file:
  assumes "chunk_get H r key = Inr b"
  shows "is_hex 64 key \<and> member_path key (recipe_files r) = Inr () \<and> (\<exists>b. dir_get (recipe_files r) key = Some (File b))"
proof -
  from assms obtain x where "chunk_recipe r key = Inr x"
    by (auto simp: chunk_get_def chunk_iter_def bindR_Inr_iff)
  then show ?thesis by (rule chunk_recipe_file)
qed

lemma object_get_cases:
  "object_get H ns r key = Inr b \<longleftrightarrow> is_hex 64 key \<and>
     (dir_get (object_dir ns r) key = Some (File b) \<and> H b = key \<or>
      dir_get (object_dir ns r) key = None \<and> ns = Raw \<and> chunk_get H r key = Inr b)"
proof (cases "dir_get (object_dir ns r) key")
  case None
  show ?thesis
  proof
    assume "object_get H ns r key = Inr b"
    with None show "is_hex 64 key \<and>
       (dir_get (object_dir ns r) key = Some (File b) \<and> H b = key \<or>
        dir_get (object_dir ns r) key = None \<and> ns = Raw \<and> chunk_get H r key = Inr b)"
      by (auto simp: object_get_def object_iter_def object_layout_def object_key_def bindR_Inr_iff chunk_get_def
          split: if_splits option.splits node.splits)
  next
    assume "is_hex 64 key \<and>
       (dir_get (object_dir ns r) key = Some (File b) \<and> H b = key \<or>
        dir_get (object_dir ns r) key = None \<and> ns = Raw \<and> chunk_get H r key = Inr b)"
    with None have *: "ns = Raw" "chunk_get H r key = Inr b" by auto
    with chunk_get_file [OF *(2)] None show "object_get H ns r key = Inr b"
      by (auto simp: object_get_def object_iter_def object_layout_def object_key_def chunk_get_def)
  qed
next
  case (Some x)
  then show ?thesis
    by (cases x) (auto simp: object_get_def object_iter_def object_layout_def object_key_def
        bindR_Inr_iff concat_split_bytes split: if_splits)
qed

lemma object_get_hash: "object_get H ns r key = Inr b \<Longrightarrow> H b = key"
  by (auto simp: object_get_cases dest: chunk_get_hash)

lemma is_ok_iff: "is_ok m \<longleftrightarrow> (\<exists>x. m = Inr x)"
  by (cases m) simp_all

lemma chunk_verify_get: "chunk_verify H r key \<longleftrightarrow> (\<exists>b. chunk_get H r key = Inr b)"
  by (auto simp: chunk_verify_def chunk_get_def is_ok_iff bindR_Inr_iff)

text \<open>\<open>verify\<close> answers whether the object can be read in full.\<close>

lemma object_verify_get: "object_verify H ns r key = Inr True \<longleftrightarrow> (\<exists>b. object_get H ns r key = Inr b)"
  by (auto simp: object_get_cases object_verify_def object_key_def chunk_verify_get
      split: option.splits node.splits if_splits)

lemma chunk_get_length:
  assumes "chunk_get H r key = Inr b"
  shows "\<exists>ds. chunk_recipe r key = Inr (length b, ds)"
proof -
  from assms obtain sz ds cs where r: "chunk_recipe r key = Inr (sz, ds)" "mapR (read_chunk H r) ds = Inr cs"
    and b: "b = concat cs"
    by (auto simp: chunk_get_def chunk_iter_def bindR_Inr_iff split: if_splits)
  have "length b = sz"
    using chunk_recipe_sizes [OF r(1)] read_chunks_sizes [OF r(2)] by (simp add: b length_concat)
  with r show ?thesis by blast
qed

lemma object_size_get:
  assumes "object_get H ns r key = Inr b"
  shows "object_size ns r key = Inr (length b)"
proof (cases "dir_get (object_dir ns r) key")
  case None
  with assms have c: "ns = Raw" "chunk_get H r key = Inr b" by (auto simp: object_get_cases)
  with None chunk_get_file [OF c(2)] chunk_get_length [OF c(2)] show ?thesis
    by (auto simp: object_size_def object_layout_def object_key_def)
next
  case (Some x)
  with assms show ?thesis
    by (auto simp: object_get_cases object_size_def object_layout_def object_key_def)
qed

section \<open>Growth\<close>

text \<open>
  What storing does to the object namespaces: nothing changes, and every file that is added
  hashes to its name. What could be verified before still can be.
\<close>

definition objects_grow :: "(bytes \<Rightarrow> pystr) \<Rightarrow> data_root \<Rightarrow> data_root \<Rightarrow> bool" where
  "objects_grow H r s \<longleftrightarrow> objects_le r s \<and> (\<forall>ns k x. dir_get (object_dir ns r) k = None \<longrightarrow>
     dir_get (object_dir ns s) k = Some x \<longrightarrow> (\<exists>b. x = File b \<and> H b = k))"

lemma objects_grow_refl [simp]: "objects_grow H r r"
  by (simp add: objects_grow_def)

lemma objects_grow_trans [trans]:
  assumes "objects_grow H a b" "objects_grow H b c"
  shows "objects_grow H a c"
proof -
  have "\<exists>b. x = File b \<and> H b = k"
    if "dir_get (object_dir ns a) k = None" "dir_get (object_dir ns c) k = Some x" for ns k x
  proof (cases "dir_get (object_dir ns b) k")
    case None
    with that(2) assms(2) show ?thesis by (auto simp: objects_grow_def)
  next
    case (Some y)
    have "dir_le (object_dir ns b) (object_dir ns c)"
      using assms(2) by (cases ns) (simp_all add: objects_grow_def objects_le_def)
    with Some that(2) have "x = y" by (auto dest: dir_leD)
    with Some that(1) assms(1) show ?thesis by (auto simp: objects_grow_def)
  qed
  with assms show ?thesis unfolding objects_grow_def by (blast intro: objects_le_trans)
qed

lemma objects_grow_get:
  assumes "objects_grow H r s" "object_get H ns r key = Inr b"
  shows "\<exists>c. object_get H ns s key = Inr c \<and> H c = key"
proof (cases "dir_get (object_dir ns r) key")
  case None
  with assms(2) have c: "ns = Raw" "chunk_get H r key = Inr b" "is_hex 64 key" by (auto simp: object_get_cases)
  then have "chunk_get H s key = Inr b"
    using assms(1) by (auto simp: objects_grow_def intro: chunk_get_le)
  moreover have "\<forall>x. dir_get (object_dir ns s) key = Some x \<longrightarrow> (\<exists>b. x = File b \<and> H b = key)"
    using assms(1) None by (simp add: objects_grow_def)
  ultimately show ?thesis
    using c chunk_get_hash [OF c(2)] by (cases "dir_get (object_dir ns s) key") (auto simp: object_get_cases)
next
  case (Some x)
  have "dir_le (object_dir ns r) (object_dir ns s)"
    using assms(1) by (cases ns) (simp_all add: objects_grow_def objects_le_def)
  with Some assms(2) show ?thesis by (auto simp: object_get_cases dest: dir_leD)
qed

lemma objects_grow_verify:
  "objects_grow H r s \<Longrightarrow> object_verify H ns r key = Inr True \<Longrightarrow> object_verify H ns s key = Inr True"
  unfolding object_verify_get using objects_grow_get by blast

text \<open>Storing a plain file.\<close>

lemma object_put_file_grow: "object_put_file H ns b r = (res, s) \<Longrightarrow> objects_grow H r s"
proof -
  assume put: "object_put_file H ns b r = (res, s)"
  then have "s = r \<or> dir_get (object_dir ns r) (H b) = None
      \<and> s = set_object_dir ns (dir_put (H b) (File b) (object_dir ns r)) r"
    by (auto simp: object_put_file_def split: sum.splits option.splits if_splits)
  then show ?thesis
    by (cases ns) (auto simp: objects_grow_def objects_le_def set_object_dir_def object_dir_def
        intro!: dir_le_put split: namespace.splits if_splits)
qed

lemma object_put_file_get:
  assumes "object_put_file H ns b r = (Inr (k, n), s)"
  shows "k = H b \<and> n = length b \<and> (\<exists>c. object_get H ns s k = Inr c)"
proof (cases "dir_get (object_dir ns r) (H b)")
  case None
  with assms show ?thesis
    by (auto simp: object_put_file_def object_key_def object_get_cases split: if_splits)
next
  case (Some x)
  with assms show ?thesis
    by (auto simp: object_put_file_def object_verify_get split: sum.splits if_splits)
qed

definition put_file_key :: "(bytes \<Rightarrow> pystr) \<Rightarrow> namespace \<Rightarrow> bytes \<Rightarrow> (data_root, pystr) op" where
  "put_file_key H ns b r = (let (res, s) = object_put_file H ns b r in (map_sum id fst res, s))"

definition object_inv :: "(bytes \<Rightarrow> pystr) \<Rightarrow> data_root \<Rightarrow> bool" where
  "object_inv H r \<longleftrightarrow> (\<forall>ns k x. dir_get (object_dir ns r) k = Some x \<longrightarrow> (\<exists>b. x = File b \<and> H b = k))"

lemma objects_grow_inv:
  assumes "objects_grow H r s" "object_inv H r"
  shows "object_inv H s"
  unfolding object_inv_def
proof (intro allI impI)
  fix ns k x assume s: "dir_get (object_dir ns s) k = Some x"
  have le: "dir_le (object_dir ns r) (object_dir ns s)"
    using assms(1) by (cases ns) (simp_all add: objects_grow_def objects_le_def)
  show "\<exists>b. x = File b \<and> H b = k"
  proof (cases "dir_get (object_dir ns r) k")
    case None
    with s assms(1) show ?thesis by (simp add: objects_grow_def)
  next
    case (Some y)
    with le s have "y = x" by (auto dest: dir_leD)
    with Some assms(2) show ?thesis by (auto simp: object_inv_def)
  qed
qed

interpretation object_store: content_store "put_file_key H ns" "object_get H ns" H "object_inv H"
proof unfold_locales
  fix b r k s assume "put_file_key H ns b r = (Inr k, s)"
  then obtain n where "object_put_file H ns b r = (Inr (k, n), s)"
    by (auto simp: put_file_key_def map_sum_def split: prod.splits sum.splits)
  then show "k = H b \<and> is_ok (object_get H ns s k)"
    using object_put_file_get by (simp add: is_ok_iff)
next
  fix b r res s k assume "put_file_key H ns b r = (res, s)" "is_ok (object_get H ns r k)"
  moreover from this(1) have "objects_grow H r s"
    by (auto simp: put_file_key_def split: prod.splits intro: object_put_file_grow)
  ultimately show "is_ok (object_get H ns s k)"
    using objects_grow_get unfolding is_ok_iff by blast
next
  fix b r res s assume "object_inv H r" "put_file_key H ns b r = (res, s)"
  then show "object_inv H s"
    by (auto simp: put_file_key_def split: prod.splits intro: objects_grow_inv object_put_file_grow)
qed (simp_all add: object_get_hash)

lemma chunk_put_grow: "chunk_put H free ex n u b r = (res, s) \<Longrightarrow> objects_grow H r s"
proof -
  assume put: "chunk_put H free ex n u b r = (res, s)"
  have "object_dir ns s = object_dir ns r" for ns
    by (rule outside_chunks_eq(1) [OF chunk_put_outside [OF put]])
  with chunk_put_le [OF put] show "objects_grow H r s"
    by (simp add: objects_grow_def)
qed

lemma chunk_object_get:
  assumes "object_inv H s" "stored H s b"
  shows "\<exists>c. object_get H Raw s (H b) = Inr c"
proof (cases "dir_get (object_dir Raw s) (H b)")
  case None
  with assms(2) stored_get [OF assms(2)] show ?thesis
    unfolding object_get_cases stored_def by blast
next
  case (Some x)
  with assms(1) obtain c where "x = File c" "H c = H b" unfolding object_inv_def by blast
  with Some assms(2) show ?thesis unfolding object_get_cases stored_def by blast
qed

section \<open>Copying\<close>

lemma set_member_dir_le:
  "dir_le (member_dir m ns r) d \<Longrightarrow> objects_le r (set_member_dir m ns d r)"
  by (cases m; cases ns)
    (auto simp: member_dir_def set_member_dir_def objects_le_def set_object_dir_def object_dir_def)

lemma copy_member_le: "copy_member H x k d = (res, d') \<Longrightarrow> dir_le d d'"
  by (auto simp: copy_member_def intro: dir_le_put split: option.splits node.splits if_splits)

lemma copy_members_le: "copy_members H ns src nt ms t = (res, t') \<Longrightarrow> objects_le t t'"
proof (induction ms arbitrary: t)
  case (Cons mk ms)
  obtain m k where mk: "mk = (m, k)" by (cases mk)
  obtain x d where step: "copy_member H (dir_get (member_dir m ns src) k) k (member_dir m nt t) = (x, d)"
    by (cases "copy_member H (dir_get (member_dir m ns src) k) k (member_dir m nt t)")
  with Cons.prems mk have "t' = set_member_dir m nt d t
      \<or> copy_members H ns src nt ms (set_member_dir m nt d t) = (res, t')"
    by (auto split: sum.splits)
  moreover have "objects_le t (set_member_dir m nt d t)"
    by (rule set_member_dir_le) (rule copy_member_le [OF step])
  ultimately show ?case using Cons.IH objects_le_trans by blast
qed simp

section \<open>Properties\<close>

text \<open>verify answers True exactly when the object can be read in full, from either
  layout; the content read then hashes to the digest and size reports its length.\<close>

theorem object_verify_iff:
  "object_verify H ns r key = Inr True \<longleftrightarrow>
     (\<exists>b. object_get H ns r key = Inr b \<and> H b = key \<and> object_size ns r key = Inr (length b))"
  unfolding object_verify_get using object_get_hash object_size_get by metis

text \<open>Storing an object, as a file or as chunks, returns the digest and size of the
  content and makes the digest readable; no object changes or becomes unreadable, and the
  objects that are added hash to their names, also when put raises.\<close>

theorem object_put_sound:
  assumes "object_put H free ns chunked n u b r = (res, s)" and "object_inv H r"
  shows "objects_grow H r s \<and> object_inv H s \<and>
    (\<forall>k m. res = Inr (k, m) \<longrightarrow> k = H b \<and> m = length b \<and> object_verify H ns s k = Inr True)"
proof (cases "chunked \<and> ns = Raw")
  case True
  then have put: "chunk_put H free None n u b r = (res, s)" using assms(1) by (simp add: object_put_def)
  from chunk_put_grow [OF put] assms(2) have grow: "objects_grow H r s" "object_inv H s"
    by (auto intro: objects_grow_inv)
  moreover have "k = H b \<and> m = length b \<and> object_verify H ns s k = Inr True" if "res = Inr (k, m)" for k m
    using chunk_put_stored [OF put [unfolded that]] chunk_object_get [OF grow(2)] True
    by (auto simp: object_verify_get)
  ultimately show ?thesis by blast
next
  case False
  then have "res = Inl (ValueError ''only raw archival supports shared chunks'') \<and> s = r
      \<or> object_put_file H ns b r = (res, s)"
    using assms(1) by (auto simp: object_put_def split: if_splits)
  then show ?thesis
    using assms(2) object_put_file_grow [of H ns b r res s] object_put_file_get [of H ns b r _ _ s]
    by (auto simp: object_verify_get intro: objects_grow_inv)
qed

definition sample_store :: data_root where
  "sample_store = empty_root\<lparr>upload_files := [(sample_hash [7], File [7])]\<rparr>"

lemma sample_store_simps [simp]:
  "upload_files sample_store = [(sample_hash [7], File [7])]" "raw_files sample_store = []"
  by (simp_all add: sample_store_def empty_root_def)

lemma empty_root_dirs [simp]: "object_dir ns empty_root = []"
  by (cases ns) (simp_all add: empty_root_def)

lemma object_put_sound_witness:
  "object_verify sample_hash RevisionUpload
     (snd (object_put sample_hash (\<lambda>_. 0) RevisionUpload False 1 True [9] sample_store)) (sample_hash [9]) = Inr True"
proof -
  have inv: "object_inv sample_hash sample_store"
    unfolding object_inv_def
  proof (intro allI impI)
    fix ns k x assume "dir_get (object_dir ns sample_store) k = Some x"
    then show "\<exists>b. x = File b \<and> sample_hash b = k"
      by (cases ns) (auto simp: dir_get_def split: if_splits)
  qed
  have ne: "sample_hash [7] \<noteq> sample_hash [9]" by (simp add: sample_hash_def)
  have "fst (object_put sample_hash (\<lambda>_. 0) RevisionUpload False 1 True [9] sample_store) = Inr (sample_hash [9], 1)"
    using ne by (simp add: object_put_def object_put_file_def object_key_def dir_get_def)
  then show ?thesis
    using object_put_sound [OF _ inv, of "\<lambda>_. 0" RevisionUpload False 1 True "[9]"] by (metis prod.collapse)
qed

text \<open>Copying an object to another data root either raises or leaves the object readable
  there with the content it has at the source, or another content of the same digest; the
  objects that the target already had are not changed in either case.\<close>

theorem object_copy_to_sound:
  assumes "object_copy_to H ns src nt key t = (res, t')"
  shows "objects_le t t' \<and> (res = Inr () \<longrightarrow> (\<exists>c. object_get H nt t' key = Inr c \<and> H c = key \<and>
    (\<forall>b. object_get H ns src key = Inr b \<longrightarrow> H c = H b)))"
proof (cases "object_members ns src t key")
  case (Inl e)
  with assms show ?thesis by (auto simp: object_copy_to_def)
next
  case (Inr ms)
  obtain x t1 where step: "copy_members H ns src nt ms t = (x, t1)" by (cases "copy_members H ns src nt ms t")
  have t1: "t' = t1" "res = Inr () \<Longrightarrow> object_verify H nt t' key = Inr True"
    using assms Inr step by (simp_all add: object_copy_to_def bindS_def split: sum.splits if_splits)
  then show ?thesis
    using copy_members_le [OF step] object_get_hash unfolding object_verify_get by metis
qed

lemma object_copy_to_sound_witness:
  "\<exists>c. object_get sample_hash RevisionUpload
     (snd (object_copy_to sample_hash RevisionUpload sample_store RevisionUpload (sample_hash [7]) empty_root))
     (sample_hash [7]) = Inr c"
proof -
  have "fst (object_copy_to sample_hash RevisionUpload sample_store RevisionUpload (sample_hash [7]) empty_root) = Inr ()"
    by (simp add: object_copy_to_def object_members_def object_layout_def object_key_def dir_get_def
        copy_member_def member_dir_def set_member_dir_def bindS_def object_verify_def dir_put_def)
  then show ?thesis
    using object_copy_to_sound [of sample_hash RevisionUpload sample_store RevisionUpload "sample_hash [7]" empty_root]
    by (metis prod.collapse)
qed

end
