(* ===== verification/Transfers.thy ===== *)
theory Transfers
  imports Objects
begin

text \<open>
  Resumable uploads (\<open>storage/transfers.py\<close>) with the staging budget of
  \<open>storage/transfer_capacity.py\<close> and the write fence of \<open>storage/fencing.py\<close>. An upload is a
  partial file in a staging directory, named by its producer and digest, with a lock file
  beside it. Operations run one at a time, as the locks of the code make them; the lock
  files are part of the state because the staging scan counts them.
\<close>

section \<open>The write fence\<close>

definition acquire_writer :: "data_root \<Rightarrow> unit result" where
  "acquire_writer r = (if is_fenced r then Inl (WriteFenced ''primary write access is fenced'')
     else if has_current r \<or> has_manifest r then Inl (PermissionError ''replicas and snapshots are read-only'')
     else Inr ())"

section \<open>The staging budget\<close>

definition validate_budget :: "int option \<Rightarrow> int \<Rightarrow> unit result" where
  "validate_budget value scan_limit =
     (if \<not> (1 \<le> scan_limit \<and> scan_limit \<le> 1000000)
      then Inl (ValueError ''staging scan limit must be between 1 and 1000000 entries'')
      else if (case value of None \<Rightarrow> False | Some v \<Rightarrow> v < 1)
        then Inl (ValueError ''staging byte limit must be a positive integer'')
      else Inr ())"

definition ends_with :: "pystr \<Rightarrow> pystr \<Rightarrow> bool" where
  "ends_with s suf \<longleftrightarrow> length suf \<le> length s \<and> drop (length s - length suf) s = suf"

text \<open>The scan of one staging directory: entries and bytes seen so far, or the exception.\<close>

fun scan_staging :: "int \<Rightarrow> int \<Rightarrow> int \<Rightarrow> nat \<times> nat \<Rightarrow> dir \<Rightarrow> (nat \<times> nat) result" where
  "scan_staging limit incoming scan_limit (entries, used) [] = Inr (entries, used)"
| "scan_staging limit incoming scan_limit (entries, used) ((name, x) # d) =
     (if scan_limit < int (Suc entries) then Inl (OSError ''staging capacity scan limit reached'')
      else if \<not> ends_with name (lit ''.part'') then scan_staging limit incoming scan_limit (Suc entries, used) d
      else (case x of
          File b \<Rightarrow> if limit < int (used + length b) + incoming
            then Inl (OSError ''staging byte limit reached; retain upload for retry'')
            else scan_staging limit incoming scan_limit (Suc entries, used + length b) d
        | _ \<Rightarrow> Inl (OSError ''unsupported staging partial type'')))"

definition staging_admission :: "int \<Rightarrow> int option \<Rightarrow> int \<Rightarrow> data_root \<Rightarrow> unit result" where
  "staging_admission incoming limit scan_limit r = bindR (validate_budget limit scan_limit) (\<lambda>_.
     case limit of
       None \<Rightarrow> Inr ()
     | Some l \<Rightarrow> if incoming = 0 then Inr () else
         bindR (scan_staging l incoming scan_limit (0, 0) (raw_staging r)) (\<lambda>seen.
         bindR (scan_staging l incoming scan_limit seen (upload_staging r)) (\<lambda>(_, used).
           if l < int used + incoming
           then Inl (OSError ''staging byte limit reached; retain upload for retry'') else Inr ())))"

section \<open>Uploads\<close>

definition MAX_CHUNK :: nat where "MAX_CHUNK = 1024 * 1024"

record transfers =
  tr_namespace :: namespace
  tr_max_size :: int
  tr_chunked :: bool
  tr_limit :: "int option"
  tr_scan :: int

definition make_transfers :: "namespace \<Rightarrow> int \<Rightarrow> bool \<Rightarrow> int option \<Rightarrow> int \<Rightarrow> transfers result" where
  "make_transfers ns max_size chunked limit scan =
     (if chunked \<and> ns \<noteq> Raw then Inl (ValueError ''only raw archival supports shared chunks'')
      else bindR (validate_budget limit scan) (\<lambda>_. Inr \<lparr>tr_namespace = ns, tr_max_size = max_size,
        tr_chunked = chunked, tr_limit = limit, tr_scan = scan\<rparr>))"

definition stem :: "(bytes \<Rightarrow> pystr) \<Rightarrow> pystr \<Rightarrow> pystr \<Rightarrow> pystr" where
  "stem H producer key = H (utf8 producer) @ lit ''-'' @ key"

definition part_name :: "(bytes \<Rightarrow> pystr) \<Rightarrow> pystr \<Rightarrow> pystr \<Rightarrow> pystr" where
  "part_name H producer key = stem H producer key @ lit ''.part''"

definition lock_name :: "(bytes \<Rightarrow> pystr) \<Rightarrow> pystr \<Rightarrow> pystr \<Rightarrow> pystr" where
  "lock_name H producer key = stem H producer key @ lit ''.lock''"

definition stage :: "namespace \<Rightarrow> pystr \<Rightarrow> node \<Rightarrow> data_root \<Rightarrow> data_root" where
  "stage ns n x r = set_staging_dir ns (dir_put n x (staging_dir ns r)) r"

definition unstage :: "namespace \<Rightarrow> pystr \<Rightarrow> data_root \<Rightarrow> data_root" where
  "unstage ns n r = set_staging_dir ns (dir_del n (staging_dir ns r)) r"

text \<open>
  \<open>transfer_lock\<close>: the body runs with the lock held, or, when the lock may not be created and
  does not exist, with \<open>False\<close>. On exit a lock without a partial is removed.
\<close>

definition release :: "namespace \<Rightarrow> pystr \<Rightarrow> pystr \<Rightarrow> 'a result \<times> data_root \<Rightarrow> 'a result \<times> data_root" where
  "release ns part lock rs = (fst rs,
     if dir_get (staging_dir ns (snd rs)) part = None then unstage ns lock (snd rs) else snd rs)"

definition transfer_lock :: "namespace \<Rightarrow> pystr \<Rightarrow> pystr \<Rightarrow> bool \<Rightarrow> (bool \<Rightarrow> (data_root, 'a) op)
    \<Rightarrow> (data_root, 'a) op" where
  "transfer_lock ns part lock create body r = (case dir_get (staging_dir ns r) lock of
       None \<Rightarrow> if create then release ns part lock (body True (stage ns lock (File []) r)) else body False r
     | Some (File _) \<Rightarrow> release ns part lock (body True r)
     | Some Link \<Rightarrow> (Inl (OSError ''symbolic link''), r)
     | Some (Directory _) \<Rightarrow> (Inl (OSError ''invalid transfer lock''), r))"

datatype progress = Pending nat | Complete nat

definition unlink_part :: "namespace \<Rightarrow> pystr \<Rightarrow> (data_root, unit) op" where
  "unlink_part ns part r = (case dir_get (staging_dir ns r) part of
       Some (Directory _) \<Rightarrow> (Inl (OSError ''is a directory''), r)
     | _ \<Rightarrow> (Inr (), unstage ns part r))"

text \<open>\<open>_completed_path\<close>: whether the object exists, in either layout.\<close>

definition completed_path :: "namespace \<Rightarrow> data_root \<Rightarrow> pystr \<Rightarrow> bool result" where
  "completed_path ns r key = (case object_layout ns r key of
       Inl (FileNotFoundError _) \<Rightarrow> Inr False | Inl e \<Rightarrow> Inl e | Inr _ \<Rightarrow> Inr True)"

definition entry_size :: "node option \<Rightarrow> nat" where
  "entry_size x = (case x of Some (File b) \<Rightarrow> length b | Some (Directory n) \<Rightarrow> n | _ \<Rightarrow> 0)"

definition old_bytes :: "node option \<Rightarrow> bytes" where
  "old_bytes x = (case x of Some (File b) \<Rightarrow> b | _ \<Rightarrow> [])"

definition appendable :: "node option \<Rightarrow> bool" where
  "appendable x = (case x of None \<Rightarrow> True | Some (File _) \<Rightarrow> True | _ \<Rightarrow> False)"

text \<open>
  Publishing the checksum-verified partial \<open>b\<close>: as chunks, or by linking it under its
  digest, where an object that is already there must verify and have the declared size.
\<close>

definition publish_partial :: "(bytes \<Rightarrow> pystr) \<Rightarrow> (data_root \<Rightarrow> nat) \<Rightarrow> transfers \<Rightarrow> pystr \<Rightarrow> int \<Rightarrow> bytes
    \<Rightarrow> (data_root, unit) op" where
  "publish_partial H free t key whole b r =
     (let ns = tr_namespace t in
      if H b \<noteq> key then (Inl (ValueError ''completed upload checksum mismatch''), r)
      else if tr_chunked t then (case chunk_put H free (Some key) (length b) True b r of
          (Inl e, s) \<Rightarrow> (Inl e, s)
        | (Inr (k, n), s) \<Rightarrow> if int n \<noteq> whole
            then (Inl (ValueError ''raw file changed during chunk publication''), s) else (Inr (), s))
      else (case dir_get (object_dir ns r) key of
          None \<Rightarrow> (Inr (), set_object_dir ns (dir_put key (File b) (object_dir ns r)) r)
        | Some x \<Rightarrow> if object_verify H ns r key \<noteq> Inr True \<or> int (entry_size (Some x)) \<noteq> whole
            then (Inl (ValueError ''existing completed upload is corrupt''), r) else (Inr (), r)))"

text \<open>
  The body of \<open>_append\<close> under its lock. A partial that is not a regular file cannot be
  appended to.
\<close>

definition append_locked :: "(bytes \<Rightarrow> pystr) \<Rightarrow> (data_root \<Rightarrow> nat) \<Rightarrow> transfers \<Rightarrow> pystr \<Rightarrow> pystr \<Rightarrow> int \<Rightarrow> int
    \<Rightarrow> bytes \<Rightarrow> (data_root, progress) op" where
  "append_locked H free t part key off whole chunk r =
     (let ns = tr_namespace t; old = dir_get (staging_dir ns r) part in
      case completed_path ns r key of
        Inl e \<Rightarrow> (Inl e, r)
      | Inr True \<Rightarrow>
          if object_verify H ns r key \<noteq> Inr True
          then (Inl (ValueError ''completed object does not match upload''), r)
          else (case object_size ns r key of
              Inl e \<Rightarrow> (Inl e, r)
            | Inr n \<Rightarrow> if int n \<noteq> whole then (Inl (ValueError ''completed object does not match upload''), r)
                else bindS (unlink_part ns part) (\<lambda>_ r. (Inr (Complete (nat whole)), r)) r)
      | Inr False \<Rightarrow>
          if off \<noteq> int (entry_size old) then (Inl OffsetConflict, r)
          else (case staging_admission (int (length chunk)) (tr_limit t) (tr_scan t) r of
              Inl e \<Rightarrow> (Inl e, r)
            | Inr _ \<Rightarrow>
                if free r < length chunk + space_margin
                then (Inl (OSError ''insufficient space; pending upload retained''), r)
                else if \<not> appendable old then (Inl (OSError ''not a regular file''), r)
                else
                  let b = old_bytes old @ chunk; s = stage ns part (File b) r in
                  if int (length b) \<noteq> whole then (Inr (Pending (length b)), s)
                  else (case publish_partial H free t key whole b s of
                      (Inl e, s) \<Rightarrow> (Inl e, s)
                    | (Inr _, s) \<Rightarrow> bindS (unlink_part ns part) (\<lambda>_ r. (Inr (Complete (length b)), r)) s)))"

definition transfer_append :: "(bytes \<Rightarrow> pystr) \<Rightarrow> (data_root \<Rightarrow> nat) \<Rightarrow> transfers \<Rightarrow> pystr \<Rightarrow> pystr \<Rightarrow> int
    \<Rightarrow> int \<Rightarrow> bytes \<Rightarrow> (data_root, progress) op" where
  "transfer_append H free t producer key off whole chunk r = (case acquire_writer r of
       Inl e \<Rightarrow> (Inl e, r)
     | Inr _ \<Rightarrow>
         if \<not> (0 \<le> off \<and> off \<le> whole \<and> whole \<le> tr_max_size t) \<or> MAX_CHUNK < length chunk
         then (Inl (ValueError ''invalid transfer size or offset''), r)
         else if whole < off + int (length chunk) \<or> (chunk = [] \<and> off \<noteq> whole)
         then (Inl (ValueError ''chunk exceeds declared file size''), r)
         else (case object_key key of
             Inl e \<Rightarrow> (Inl e, r)
           | Inr _ \<Rightarrow> transfer_lock (tr_namespace t) (part_name H producer key) (lock_name H producer key) True
               (\<lambda>_. append_locked H free t (part_name H producer key) key off whole chunk) r))"

section \<open>Status\<close>

text \<open>
  \<open>_reclaim_completed_partial\<close> drops the producer's partial of a published object; a fenced
  store keeps it.
\<close>

definition reclaim_partial :: "(bytes \<Rightarrow> pystr) \<Rightarrow> transfers \<Rightarrow> pystr \<Rightarrow> pystr \<Rightarrow> (data_root, unit) op" where
  "reclaim_partial H t producer key r =
     (let ns = tr_namespace t; part = part_name H producer key in
      case dir_get (staging_dir ns r) part of
        None \<Rightarrow> (Inr (), r)
      | Some Link \<Rightarrow> (Inr (), r)
      | Some _ \<Rightarrow> (case acquire_writer r of
            Inl _ \<Rightarrow> (Inr (), r)
          | Inr _ \<Rightarrow> transfer_lock ns part (lock_name H producer key) True (\<lambda>_ r.
              case completed_path ns r key of
                Inl e \<Rightarrow> (Inl e, r)
              | Inr c \<Rightarrow> if \<not> c \<or> object_verify H ns r key \<noteq> Inr True
                  then (Inl (ValueError ''completed object changed before staging cleanup''), r)
                  else unlink_part ns part r) r))"

definition transfer_status :: "(bytes \<Rightarrow> pystr) \<Rightarrow> transfers \<Rightarrow> pystr \<Rightarrow> pystr \<Rightarrow> (data_root, progress) op" where
  "transfer_status H t producer key r =
     (let ns = tr_namespace t; part = part_name H producer key in
      case completed_path ns r key of
        Inl e \<Rightarrow> (Inl e, r)
      | Inr True \<Rightarrow>
          if object_verify H ns r key \<noteq> Inr True then (Inl (ValueError ''completed raw object is corrupt''), r)
          else bindS (reclaim_partial H t producer key) (\<lambda>_ r.
            case object_size ns r key of Inl e \<Rightarrow> (Inl e, r) | Inr n \<Rightarrow> (Inr (Complete n), r)) r
      | Inr False \<Rightarrow> transfer_lock ns part (lock_name H producer key) False (\<lambda>held r.
          (Inr (Pending (if held then entry_size (dir_get (staging_dir ns r) part) else 0)), r)) r)"

section \<open>What the steps of an append change\<close>

lemma stage_simps [simp]:
  "object_dir ns' (stage ns n x r) = object_dir ns' r" "object_dir ns' (unstage ns n r) = object_dir ns' r"
  "raw_files (stage ns n x r) = raw_files r" "raw_files (unstage ns n r) = raw_files r"
  "upload_files (stage ns n x r) = upload_files r" "upload_files (unstage ns n r) = upload_files r"
  "chunk_files (stage ns n x r) = chunk_files r" "chunk_files (unstage ns n r) = chunk_files r"
  "recipe_files (stage ns n x r) = recipe_files r" "recipe_files (unstage ns n r) = recipe_files r"
  "staging_dir ns' (stage ns n x r) = (if ns' = ns then dir_put n x (staging_dir ns r) else staging_dir ns' r)"
  "staging_dir ns' (unstage ns n r) = (if ns' = ns then dir_del n (staging_dir ns r) else staging_dir ns' r)"
  "is_fenced (stage ns n x r) = is_fenced r" "is_fenced (unstage ns n r) = is_fenced r"
  "has_current (stage ns n x r) = has_current r" "has_current (unstage ns n r) = has_current r"
  "has_manifest (stage ns n x r) = has_manifest r" "has_manifest (unstage ns n r) = has_manifest r"
  by (simp_all add: stage_def unstage_def)

text \<open>The objects of two data roots are the same; reading does not look at anything else.\<close>

definition same_objects :: "data_root \<Rightarrow> data_root \<Rightarrow> bool" where
  "same_objects r s \<longleftrightarrow> raw_files s = raw_files r \<and> upload_files s = upload_files r
     \<and> chunk_files s = chunk_files r \<and> recipe_files s = recipe_files r"

lemma same_objects_stage [simp]: "same_objects r (stage ns n x r)" "same_objects r (unstage ns n r)"
  by (simp_all add: same_objects_def)

lemma same_objects_dirs: "same_objects r s \<Longrightarrow> object_dir ns s = object_dir ns r"
  by (cases ns) (simp_all add: same_objects_def)

lemma same_objects_grow: "same_objects r s \<Longrightarrow> objects_grow H r s"
  using same_objects_dirs [of r s] by (simp add: objects_grow_def objects_le_def same_objects_def)

lemma same_objects_read:
  assumes "same_objects r s"
  shows "object_layout ns s key = object_layout ns r key" "object_verify H ns s key = object_verify H ns r key"
    "object_size ns s key = object_size ns r key" "object_get H ns s key = object_get H ns r key"
proof -
  have c: "chunk_files s = chunk_files r" "recipe_files s = recipe_files r" "object_dir ns s = object_dir ns r"
    using assms same_objects_dirs [OF assms] by (simp_all add: same_objects_def)
  have rc: "read_chunk H s = read_chunk H r" by (simp add: fun_eq_iff read_chunk_def c)
  have cr: "chunk_recipe s key = chunk_recipe r key" unfolding chunk_recipe_def c ..
  have ci: "chunk_iter H s key = chunk_iter H r key" by (simp add: chunk_iter_def cr rc)
  show l: "object_layout ns s key = object_layout ns r key" unfolding object_layout_def c ..
  show "object_verify H ns s key = object_verify H ns r key"
    unfolding object_verify_def c chunk_verify_def ci ..
  show "object_size ns s key = object_size ns r key" unfolding object_size_def l c cr ..
  show "object_get H ns s key = object_get H ns r key"
    unfolding object_get_def object_iter_def l c ci ..
qed

text \<open>Only the named entries of one staging directory change, and no marker.\<close>

definition staging_frame :: "namespace \<Rightarrow> pystr set \<Rightarrow> data_root \<Rightarrow> data_root \<Rightarrow> bool" where
  "staging_frame ns N r s \<longleftrightarrow>
     (\<forall>ns' n. ns' \<noteq> ns \<or> n \<notin> N \<longrightarrow> dir_get (staging_dir ns' s) n = dir_get (staging_dir ns' r) n)
     \<and> is_fenced s = is_fenced r \<and> has_current s = has_current r \<and> has_manifest s = has_manifest r"

lemma staging_frame_refl [simp]: "staging_frame ns N r r"
  by (simp add: staging_frame_def)

lemma staging_frame_trans: "staging_frame ns N a b \<Longrightarrow> staging_frame ns N b c \<Longrightarrow> staging_frame ns N a c"
  by (auto simp: staging_frame_def)

lemma staging_frame_stage:
  "n \<in> N \<Longrightarrow> staging_frame ns N r (stage ns n x r)" "n \<in> N \<Longrightarrow> staging_frame ns N r (unstage ns n r)"
  by (auto simp: staging_frame_def)

lemma part_not_lock: "part_name H p k \<noteq> lock_name H p k"
  by (simp add: part_name_def lock_name_def)

definition transfers_ok :: "transfers \<Rightarrow> bool" where
  "transfers_ok t \<longleftrightarrow> (tr_chunked t \<longrightarrow> tr_namespace t = Raw) \<and> validate_budget (tr_limit t) (tr_scan t) = Inr ()"

lemma make_transfers_ok: "make_transfers ns m c l sc = Inr t \<Longrightarrow> transfers_ok t"
  by (auto simp: make_transfers_def transfers_ok_def bindR_Inr_iff split: if_splits)

text \<open>Publishing a partial.\<close>

lemma publish_partial_frame:
  assumes "publish_partial H free t key whole b r = (res, s)"
  shows "objects_grow H r s \<and> (\<forall>ns. staging_dir ns s = staging_dir ns r)
    \<and> is_fenced s = is_fenced r \<and> has_current s = has_current r \<and> has_manifest s = has_manifest r"
proof (cases "H b = key \<and> tr_chunked t")
  case True
  obtain x s1 where step: "chunk_put H free (Some key) (length b) True b r = (x, s1)"
    by (cases "chunk_put H free (Some key) (length b) True b r")
  with assms True have "s = s1" by (auto simp: publish_partial_def Let_def split: sum.splits if_splits)
  then show ?thesis
    using chunk_put_grow [OF step] outside_chunks_eq [OF chunk_put_outside [OF step]] by simp
next
  case False
  let ?ns = "tr_namespace t"
  from False assms have "s = r \<or> H b = key \<and> dir_get (object_dir ?ns r) key = None
      \<and> s = set_object_dir ?ns (dir_put key (File b) (object_dir ?ns r)) r"
    by (auto simp: publish_partial_def Let_def split: option.splits if_splits)
  then show ?thesis
    by (cases ?ns) (auto simp: objects_grow_def objects_le_def set_object_dir_def object_dir_def staging_dir_def
        intro!: dir_le_put split: namespace.splits if_splits)
qed

lemma publish_partial_get:
  assumes "publish_partial H free t key whole b r = (Inr (), s)" "transfers_ok t" "is_hex 64 key"
    and "dir_get (object_dir (tr_namespace t) r) key = None"
  shows "H b = key \<and> object_get H (tr_namespace t) s key = Inr b"
proof (cases "tr_chunked t")
  case True
  then have raw: "tr_namespace t = Raw" using assms(2) by (simp add: transfers_ok_def)
  obtain x s1 where step: "chunk_put H free (Some key) (length b) True b r = (x, s1)"
    by (cases "chunk_put H free (Some key) (length b) True b r")
  with assms(1) True have b: "H b = key" "s1 = s" "\<exists>k n. x = Inr (k, n)"
    by (auto simp: publish_partial_def Let_def split: sum.splits if_splits)
  then have "stored H s b" using chunk_put_stored step by blast
  moreover have "dir_get (object_dir Raw s) key = None"
    using outside_chunks_eq(1) [OF chunk_put_outside [OF step]] assms(4) raw b by simp
  ultimately show ?thesis
    using b raw assms(3) stored_get by (auto simp: object_get_cases)
next
  case False
  with assms show ?thesis
    by (auto simp: publish_partial_def Let_def object_get_cases split: if_splits)
qed

text \<open>The outcomes of an append under its lock.\<close>

lemma append_locked_outcomes:
  assumes "append_locked H free t part key off whole chunk r = (res, s)"
  obtains (refused) e where "res = Inl e" "s = r"
  | (already) n where "res = Inr (Complete (nat whole))" "s = unstage (tr_namespace t) part r"
      "object_verify H (tr_namespace t) r key = Inr True" "object_size (tr_namespace t) r key = Inr n" "int n = whole"
  | (staged) b s0 where "completed_path (tr_namespace t) r key = Inr False"
      "appendable (dir_get (staging_dir (tr_namespace t) r) part)"
      "off = int (length (old_bytes (dir_get (staging_dir (tr_namespace t) r) part)))"
      "b = old_bytes (dir_get (staging_dir (tr_namespace t) r) part) @ chunk"
      "staging_admission (int (length chunk)) (tr_limit t) (tr_scan t) r = Inr ()"
      "s0 = stage (tr_namespace t) part (File b) r"
      "int (length b) \<noteq> whole \<and> res = Inr (Pending (length b)) \<and> s = s0 \<or>
       int (length b) = whole \<and> (\<exists>e. publish_partial H free t key whole b s0 = (Inl e, s) \<and> res = Inl e) \<or>
       int (length b) = whole \<and> (\<exists>s1. publish_partial H free t key whole b s0 = (Inr (), s1) \<and>
         res = Inr (Complete (length b)) \<and> s = unstage (tr_namespace t) part s1)"
proof -
  let ?ns = "tr_namespace t"
  let ?old = "dir_get (staging_dir ?ns r) part"
  consider (err) e where "completed_path ?ns r key = Inl e" | (published) "completed_path ?ns r key = Inr True"
    | (new) "completed_path ?ns r key = Inr False"
    by (cases "completed_path ?ns r key") auto
  then show thesis
  proof cases
    case err
    with assms refused show thesis by (auto simp: append_locked_def Let_def)
  next
    case published
    show thesis
    proof (cases "\<exists>n. object_verify H ?ns r key = Inr True \<and> object_size ?ns r key = Inr n \<and> int n = whole
        \<and> \<not> (\<exists>m. ?old = Some (Directory m))")
      case True
      with published assms have "res = Inr (Complete (nat whole)) \<and> s = unstage ?ns part r"
        by (auto simp: append_locked_def Let_def unlink_part_def bindS_def split: option.splits node.splits)
      with True already show thesis by blast
    next
      case False
      with published assms have "(\<exists>e. res = Inl e) \<and> s = r"
        by (auto simp: append_locked_def Let_def unlink_part_def bindS_def split: option.splits node.splits
            sum.splits if_splits)
      with refused show thesis by blast
    qed
  next
    case new
    let ?b = "old_bytes ?old @ chunk"
    let ?s0 = "stage ?ns part (File ?b) r"
    show thesis
    proof (cases "off = int (entry_size ?old) \<and> staging_admission (int (length chunk)) (tr_limit t) (tr_scan t) r = Inr ()
        \<and> \<not> free r < length chunk + space_margin \<and> appendable ?old")
      case False
      with new assms have "(\<exists>e. res = Inl e) \<and> s = r"
        by (auto simp: append_locked_def Let_def appendable_def split: option.splits node.splits
            sum.splits if_splits)
      with refused show thesis by blast
    next
      case True
      then have old: "entry_size ?old = length (old_bytes ?old)"
        by (auto simp: old_bytes_def appendable_def entry_size_def split: option.splits node.splits)
      from True new assms have run: "(if int (length ?b) \<noteq> whole then (Inr (Pending (length ?b)), ?s0)
          else (case publish_partial H free t key whole ?b ?s0 of (Inl e, s) \<Rightarrow> (Inl e, s)
            | (Inr _, s) \<Rightarrow> bindS (unlink_part ?ns part) (\<lambda>_ r. (Inr (Complete (length ?b)), r)) s)) = (res, s)"
        by (simp add: append_locked_def Let_def)
      obtain x s1 where pub: "publish_partial H free t key whole ?b ?s0 = (x, s1)"
        by (cases "publish_partial H free t key whole ?b ?s0")
      have "dir_get (staging_dir ?ns s1) part = Some (File ?b)"
        using publish_partial_frame [OF pub] by simp
      then have unlink: "unlink_part ?ns part s1 = (Inr (), unstage ?ns part s1)"
        by (simp add: unlink_part_def)
      have outcome: "int (length ?b) \<noteq> whole \<and> res = Inr (Pending (length ?b)) \<and> s = ?s0 \<or>
         int (length ?b) = whole \<and> (\<exists>e. publish_partial H free t key whole ?b ?s0 = (Inl e, s) \<and> res = Inl e) \<or>
         int (length ?b) = whole \<and> (\<exists>s1. publish_partial H free t key whole ?b ?s0 = (Inr (), s1) \<and>
           res = Inr (Complete (length ?b)) \<and> s = unstage ?ns part s1)"
        using run unlink unfolding pub by (cases x) (auto simp: bindS_def split: if_splits)
      show thesis
        by (rule staged [OF new _ _ refl _ refl outcome]) (use True old in auto)
    qed
  qed
qed

text \<open>The outcomes of an append.\<close>

lemma transfer_append_outcomes:
  assumes "transfer_append H free t producer key off whole chunk r = (res, s)"
  obtains (refused) e where "res = Inl e" "s = r"
  | (run) r0 s0 where "acquire_writer r = Inr ()" "is_hex 64 key" "length chunk \<le> MAX_CHUNK"
      "r0 = r \<or> r0 = stage (tr_namespace t) (lock_name H producer key) (File []) r"
      "append_locked H free t (part_name H producer key) key off whole chunk r0 = (res, s0)"
      "s = s0 \<or> s = unstage (tr_namespace t) (lock_name H producer key) s0"
      "s = snd (release (tr_namespace t) (part_name H producer key) (lock_name H producer key) (res, s0))"
      "\<exists>b. dir_get (staging_dir (tr_namespace t) r0) (lock_name H producer key) = Some (File b)"
proof -
  let ?ns = "tr_namespace t" and ?part = "part_name H producer key" and ?lock = "lock_name H producer key"
  show thesis
  proof (cases "acquire_writer r = Inr () \<and> 0 \<le> off \<and> off \<le> whole \<and> whole \<le> tr_max_size t
      \<and> length chunk \<le> MAX_CHUNK \<and> \<not> (whole < off + int (length chunk) \<or> (chunk = [] \<and> off \<noteq> whole))
      \<and> is_hex 64 key \<and> (dir_get (staging_dir ?ns r) ?lock = None \<or> (\<exists>b. dir_get (staging_dir ?ns r) ?lock = Some (File b)))")
    case False
    with assms have "(\<exists>e. res = Inl e) \<and> s = r"
      by (auto simp: transfer_append_def object_key_def transfer_lock_def
          split: sum.splits if_splits option.splits node.splits)
    with refused show thesis by blast
  next
    case True
    define r0 where "r0 = (if dir_get (staging_dir ?ns r) ?lock = None then stage ?ns ?lock (File []) r else r)"
    have r0: "r0 = r \<or> r0 = stage ?ns ?lock (File []) r" by (simp add: r0_def)
    have step: "release ?ns ?part ?lock (append_locked H free t ?part key off whole chunk r0) = (res, s)"
      using assms True by (auto simp: transfer_append_def object_key_def transfer_lock_def r0_def)
    obtain x s0 where body: "append_locked H free t ?part key off whole chunk r0 = (x, s0)"
      by (cases "append_locked H free t ?part key off whole chunk r0")
    with step have x: "x = res" and s: "s = snd (release ?ns ?part ?lock (res, s0))"
      by (auto simp: release_def)
    have "s = s0 \<or> s = unstage ?ns ?lock s0" by (simp add: s release_def)
    moreover have "\<exists>b. dir_get (staging_dir ?ns r0) ?lock = Some (File b)"
      using True by (auto simp: r0_def)
    ultimately show thesis
      using True by (intro run [of r0 s0] r0 s body [unfolded x]) simp_all
  qed
qed

lemma completed_path_False:
  "completed_path ns r key = Inr False \<Longrightarrow> is_hex 64 key \<Longrightarrow> dir_get (object_dir ns r) key = None"
  by (auto simp: completed_path_def object_layout_def object_key_def split: sum.splits exn.splits option.splits node.splits)

lemma append_locked_objects:
  assumes "append_locked H free t part key off whole chunk r = (res, s)" "transfers_ok t" "is_hex 64 key"
  shows "objects_grow H r s \<and> staging_frame (tr_namespace t) {part} r s
    \<and> (\<forall>n. res = Inr (Complete n) \<longrightarrow> int n = whole \<and> object_verify H (tr_namespace t) s key = Inr True
         \<and> object_size (tr_namespace t) s key = Inr n)"
  using assms(1)
proof (cases rule: append_locked_outcomes)
  case (already n)
  have same: "same_objects r s" by (simp add: already(2))
  have "object_verify H (tr_namespace t) s key = Inr True" "object_size (tr_namespace t) s key = Inr n"
    using already(3,4) by (simp_all only: same_objects_read [OF same])
  with already(1,2,5) same_objects_grow [OF same] show ?thesis
    by (auto simp: staging_frame_stage)
next
  case (staged b s0)
  let ?ns = "tr_namespace t"
  have s0: "objects_grow H r s0" "staging_frame ?ns {part} r s0"
    using staged(6) by (auto simp: staging_frame_stage intro: same_objects_grow)
  from staged(7) show ?thesis
  proof (elim disjE conjE exE)
    assume "res = Inr (Pending (length b))" "s = s0"
    with s0 show ?thesis by simp
  next
    fix e assume pub: "publish_partial H free t key whole b s0 = (Inl e, s)" and "res = Inl e"
    then show ?thesis
      using publish_partial_frame [OF pub] s0 by (auto simp: staging_frame_def intro: objects_grow_trans)
  next
    fix s1 assume whole: "int (length b) = whole" and pub: "publish_partial H free t key whole b s0 = (Inr (), s1)"
      and res: "res = Inr (Complete (length b))" and s: "s = unstage ?ns part s1"
    have same: "same_objects s1 s" by (simp add: s)
    have "dir_get (object_dir ?ns s0) key = None"
      using completed_path_False [OF staged(1) assms(3)] staged(6) by simp
    from publish_partial_get [OF pub assms(2,3) this] have get: "object_get H ?ns s key = Inr b"
      by (simp add: same_objects_read [OF same])
    have "staging_frame ?ns {part} s0 s"
      using publish_partial_frame [OF pub] by (auto simp: s staging_frame_def)
    moreover have "objects_grow H s0 s"
      using publish_partial_frame [OF pub] same_objects_grow [OF same] objects_grow_trans by blast
    ultimately show ?thesis
      using s0 get whole res objects_grow_trans staging_frame_trans object_size_get [OF get]
      by (auto simp: object_verify_get)
  qed
qed (simp)

lemma append_locked_part:
  fixes part key t r
  defines "old \<equiv> dir_get (staging_dir (tr_namespace t) r) part"
  assumes "append_locked H free t part key off whole chunk r = (res, s)"
  shows "dir_get (staging_dir (tr_namespace t) s) part = old
    \<or> appendable old \<and> off = int (length (old_bytes old))
      \<and> dir_get (staging_dir (tr_namespace t) s) part = Some (File (old_bytes old @ chunk))
    \<or> dir_get (staging_dir (tr_namespace t) s) part = None \<and> (\<exists>n. res = Inr (Complete n))"
  using assms(2)
proof (cases rule: append_locked_outcomes)
  case (staged b s0)
  from staged(7) show ?thesis
  proof (elim disjE conjE exE)
    fix e assume pub: "publish_partial H free t key whole b s0 = (Inl e, s)"
    with staged show ?thesis using publish_partial_frame [OF pub] by (simp add: old_def)
  qed (use staged in \<open>simp_all add: old_def\<close>)
qed (simp_all add: old_def)

section \<open>Staging use\<close>

lemma lit_append: "lit (s @ t) = lit s @ lit t"
  by (simp add: lit_def)

lemma ends_with_append [simp]: "ends_with (s @ t) t"
  by (simp add: ends_with_def)

lemma part_name_ends [simp]: "ends_with (part_name H p k) (lit ''.part'')"
  by (simp add: part_name_def)

lemma lock_name_ends [simp]: "\<not> ends_with (lock_name H p k) (lit ''.part'')"
  by (simp add: lock_name_def ends_with_def lit_def)

text \<open>The bytes that the partials of a directory hold, and of the whole data root.\<close>

definition part_bytes :: "dir \<Rightarrow> nat" where
  "part_bytes d = (\<Sum>nx \<leftarrow> d. if ends_with (fst nx) (lit ''.part'') then entry_size (Some (snd nx)) else 0)"

definition staging_used :: "data_root \<Rightarrow> nat" where
  "staging_used r = part_bytes (raw_staging r) + part_bytes (upload_staging r)"

lemma part_bytes_put:
  "part_bytes (dir_put n x d) + (if ends_with n (lit ''.part'') then entry_size (dir_get d n) else 0)
   = part_bytes d + (if ends_with n (lit ''.part'') then entry_size (Some x) else 0)"
  by (induction d) (auto simp: part_bytes_def dir_put_def dir_get_def entry_size_def)

lemma part_bytes_del: "part_bytes (dir_del n d) \<le> part_bytes d"
  by (induction d) (auto simp: part_bytes_def dir_del_def)

lemma staging_used_dirs:
  "staging_used r = part_bytes (staging_dir ns r) + part_bytes (staging_dir (if ns = Raw then RevisionUpload else Raw) r)"
  by (cases ns) (simp_all add: staging_used_def staging_dir_def)

lemma staging_used_frame:
  assumes "\<forall>ns. staging_dir ns s = staging_dir ns r"
  shows "staging_used s = staging_used r"
  using assms by (simp add: staging_used_dirs [of _ Raw])

lemma staging_used_unstage: "staging_used (unstage ns n r) \<le> staging_used r"
  using part_bytes_del by (simp add: staging_used_dirs [of _ ns])

lemma staging_used_stage:
  "staging_used (stage ns n x r) + (if ends_with n (lit ''.part'') then entry_size (dir_get (staging_dir ns r) n) else 0)
   = staging_used r + (if ends_with n (lit ''.part'') then entry_size (Some x) else 0)"
  using part_bytes_put [of n x "staging_dir ns r"] by (cases ns) (simp_all add: staging_used_dirs [of _ ns])

lemma scan_staging_used:
  "scan_staging limit inc sl (e, u) d = Inr (e', u') \<Longrightarrow> u' = u + part_bytes d"
  by (induction limit inc sl "(e, u)" d arbitrary: e u rule: scan_staging.induct)
    (auto simp: part_bytes_def entry_size_def split: if_splits node.splits)

lemma staging_admission_used:
  assumes "staging_admission inc (Some l) sl r = Inr ()" "inc \<noteq> 0"
  shows "int (staging_used r) + inc \<le> l"
  using assms by (auto simp: staging_admission_def staging_used_def bindR_Inr_iff dest!: scan_staging_used split: if_splits)

lemma append_locked_used:
  assumes "append_locked H free t part key off whole chunk r = (res, s)" "tr_limit t = Some l"
    and "ends_with part (lit ''.part'')"
  shows "int (staging_used s) \<le> max l (int (staging_used r))"
  using assms(1)
proof (cases rule: append_locked_outcomes)
  case (already n)
  then show ?thesis using staging_used_unstage [of "tr_namespace t" part r] by simp
next
  case (staged b s0)
  have "staging_used s0 = staging_used r + length chunk"
    using staging_used_stage [of "tr_namespace t" part "File b" r] staged(2,4,6) assms(3)
    by (auto simp: entry_size_def old_bytes_def appendable_def split: option.splits node.splits)
  moreover have "chunk = [] \<or> int (staging_used r) + int (length chunk) \<le> l"
    using staging_admission_used [of "int (length chunk)" l] staged(5) assms(2) by auto
  ultimately have s0: "int (staging_used s0) \<le> max l (int (staging_used r))" by auto
  have "staging_used s \<le> staging_used s0"
    using staged(7)
  proof (elim disjE conjE exE)
    fix e assume pub: "publish_partial H free t key whole b s0 = (Inl e, s)"
    then show ?thesis using staging_used_frame [of s s0] publish_partial_frame [OF pub] by simp
  next
    fix s1 assume pub: "publish_partial H free t key whole b s0 = (Inr (), s1)" and s: "s = unstage (tr_namespace t) part s1"
    then show ?thesis
      using staging_used_frame [of s1 s0] publish_partial_frame [OF pub] staging_used_unstage [of "tr_namespace t" part s1] by simp
  qed simp
  with s0 show ?thesis by linarith
qed simp

section \<open>The lock of a partial\<close>

text \<open>
  Every partial has its lock file beside it, so that \<open>status\<close> reports its true length. Appends
  and status queries keep it so.
\<close>

definition locks_inv :: "data_root \<Rightarrow> bool" where
  "locks_inv r \<longleftrightarrow> (\<forall>ns x. dir_get (staging_dir ns r) (x @ lit ''.part'') \<noteq> None \<longrightarrow>
     (\<exists>b. dir_get (staging_dir ns r) (x @ lit ''.lock'') = Some (File b)))"

lemma suffix_eq: "x @ lit ''.part'' \<noteq> y @ lit ''.lock''"
  by (simp add: lit_def append_eq_append_conv2)

lemma locks_inv_frame:
  assumes "locks_inv r0" and frame: "staging_frame ns {stem H p k @ lit ''.part''} r0 s0"
    and lock: "\<exists>b. dir_get (staging_dir ns r0) (stem H p k @ lit ''.lock'') = Some (File b)"
  shows "locks_inv s0"
  unfolding locks_inv_def
proof (intro allI impI)
  fix ns' x assume x: "dir_get (staging_dir ns' s0) (x @ lit ''.part'') \<noteq> None"
  have same: "dir_get (staging_dir ns' s0) (x @ lit ''.lock'') = dir_get (staging_dir ns' r0) (x @ lit ''.lock'')"
    using frame suffix_eq [of "stem H p k" x] by (auto simp: staging_frame_def)
  show "\<exists>b. dir_get (staging_dir ns' s0) (x @ lit ''.lock'') = Some (File b)"
  proof (cases "ns' = ns \<and> x = stem H p k")
    case True
    with lock same show ?thesis by simp
  next
    case False
    then have "dir_get (staging_dir ns' r0) (x @ lit ''.part'') \<noteq> None"
      using x frame by (auto simp: staging_frame_def)
    with assms(1) same show ?thesis by (simp add: locks_inv_def)
  qed
qed

lemma locks_inv_stage_lock: "locks_inv r \<Longrightarrow> locks_inv (stage ns (x @ lit ''.lock'') (File b) r)"
  using suffix_eq by (auto simp: locks_inv_def)

lemma locks_inv_release:
  assumes "locks_inv r"
  shows "locks_inv (snd (release ns (x @ lit ''.part'') (x @ lit ''.lock'') (res, r)))"
  using assms suffix_eq by (auto simp: locks_inv_def release_def)

lemma transfer_append_locks:
  assumes "transfer_append H free t producer key off whole chunk r = (res, s)" "transfers_ok t" "locks_inv r"
  shows "locks_inv s"
  using assms(1)
proof (cases rule: transfer_append_outcomes)
  case (run r0 s0)
  have names: "part_name H producer key = stem H producer key @ lit ''.part''"
    "lock_name H producer key = stem H producer key @ lit ''.lock''"
    by (simp_all add: part_name_def lock_name_def)
  have "locks_inv r0"
    using run(4) assms(3) locks_inv_stage_lock names by auto
  moreover have "staging_frame (tr_namespace t) {stem H producer key @ lit ''.part''} r0 s0"
    using append_locked_objects [OF run(5) assms(2) run(2)] names by simp
  ultimately have "locks_inv s0"
    using run(8) unfolding names by (rule locks_inv_frame)
  then show ?thesis
    unfolding run(7) names by (rule locks_inv_release)
qed (use assms(3) in simp)

lemma reclaim_partial_effect:
  assumes "reclaim_partial H t producer key r = (res, s)" "locks_inv r"
  shows "same_objects r s \<and> locks_inv s"
proof -
  let ?ns = "tr_namespace t" and ?x = "stem H producer key"
  let ?part = "?x @ lit ''.part''" and ?lock = "?x @ lit ''.lock''"
  have names: "part_name H producer key = ?part" "lock_name H producer key = ?lock"
    by (simp_all add: part_name_def lock_name_def)
  define body where "body = (\<lambda>(_ :: bool) r. case completed_path ?ns r key of
      Inl e \<Rightarrow> (Inl e, r)
    | Inr c \<Rightarrow> if \<not> c \<or> object_verify H ?ns r key \<noteq> Inr True
        then (Inl (ValueError ''completed object changed before staging cleanup''), r)
        else unlink_part ?ns ?part r)"
  have body: "snd (body True q) = q \<or> snd (body True q) = unstage ?ns ?part q" for q
    by (auto simp: body_def unlink_part_def split: sum.splits option.splits node.splits)
  have "s = r \<or> transfer_lock ?ns ?part ?lock True body r = (res, s)"
    using assms(1) unfolding body_def by (auto simp: reclaim_partial_def names Let_def split: option.splits node.splits sum.splits)
  then have "s = r \<or> (\<exists>r0 s0. (r0 = r \<or> r0 = stage ?ns ?lock (File []) r)
      \<and> (s0 = r0 \<or> s0 = unstage ?ns ?part r0) \<and> s = snd (release ?ns ?part ?lock (res, s0))
      \<and> (\<exists>b. dir_get (staging_dir ?ns r0) ?lock = Some (File b)))"
  proof (elim disjE)
    assume run: "transfer_lock ?ns ?part ?lock True body r = (res, s)"
    define r0 where "r0 = (if dir_get (staging_dir ?ns r) ?lock = None then stage ?ns ?lock (File []) r else r)"
    have cases: "s = r \<or> release ?ns ?part ?lock (body True r0) = (res, s)
        \<and> (\<exists>b. dir_get (staging_dir ?ns r0) ?lock = Some (File b))"
      using run by (auto simp: transfer_lock_def r0_def split: option.splits node.splits)
    have r0: "r0 = r \<or> r0 = stage ?ns ?lock (File []) r" by (simp add: r0_def)
    have "s = snd (release ?ns ?part ?lock (res, snd (body True r0)))"
      if "release ?ns ?part ?lock (body True r0) = (res, s)"
      using that by (auto simp: release_def)
    with cases r0 body [of r0] show ?thesis by blast
  qed simp
  then consider (same) "s = r" | (run) r0 s0 b where "r0 = r \<or> r0 = stage ?ns ?lock (File []) r"
      "s0 = r0 \<or> s0 = unstage ?ns ?part r0" "s = snd (release ?ns ?part ?lock (res, s0))"
      "dir_get (staging_dir ?ns r0) ?lock = Some (File b)"
    by blast
  then show ?thesis
  proof cases
    case (run r0 s0 b)
    note r0 = run(1) and s0 = run(2) and s = run(3) and lock = run(4)
    have "locks_inv r0" using r0 assms(2) locks_inv_stage_lock by blast
    moreover have "staging_frame ?ns {?part} r0 s0" using s0 by (auto simp: staging_frame_stage)
    ultimately have "locks_inv s0" using lock by (blast intro: locks_inv_frame)
    then have "locks_inv s" unfolding s by (rule locks_inv_release)
    moreover have "same_objects r s" using r0 s0 by (auto simp: s release_def same_objects_def)
    ultimately show ?thesis by blast
  qed (use assms(2) in \<open>simp_all add: same_objects_def\<close>)
qed

text \<open>A small upload for the instances of the properties.\<close>

definition sample_transfers :: transfers where
  "sample_transfers = \<lparr>tr_namespace = RevisionUpload, tr_max_size = 100, tr_chunked = False,
     tr_limit = Some 50, tr_scan = 10\<rparr>"

lemma sample_transfers_ok: "transfers_ok sample_transfers"
  by (simp add: transfers_ok_def sample_transfers_def validate_budget_def)

abbreviation sample_run :: "bytes \<Rightarrow> int \<Rightarrow> progress result \<times> data_root" where
  "sample_run chunk whole \<equiv> transfer_append sample_hash (\<lambda>_. 10 ^ 9) sample_transfers (lit ''p'')
     (sample_hash [9]) 0 whole chunk empty_root"

lemma sample_append:
  "fst (sample_run [9] 1) = Inr (Complete 1)"
  by (simp add: transfer_append_def acquire_writer_def sample_transfers_def empty_root_def
      MAX_CHUNK_def object_key_def transfer_lock_def release_def append_locked_def completed_path_def object_layout_def
      staging_dir_def staging_admission_def validate_budget_def scan_staging.simps stage_def set_staging_dir_def dir_put_def dir_get_def
      part_name_def lock_name_def stem_def bindS_def unlink_part_def publish_partial_def space_margin_def entry_size_def 
      appendable_def old_bytes_def Let_def ends_with_def lit_def unstage_def set_object_dir_def object_dir_def)

section \<open>Properties\<close>

text \<open>C21: An append, whatever it returns, changes no object and removes none, makes no other
  upload's staging entry change, and answers complete only when the object of the upload's
  digest verifies and has exactly the declared size.\<close>

theorem transfer_append_sound:
  assumes "transfer_append H free t producer key off whole chunk r = (res, s)" "transfers_ok t"
  shows "objects_grow H r s
    \<and> staging_frame (tr_namespace t) {part_name H producer key, lock_name H producer key} r s
    \<and> (\<forall>n. res = Inr (Complete n) \<longrightarrow> int n = whole
        \<and> object_verify H (tr_namespace t) s key = Inr True \<and> object_size (tr_namespace t) s key = Inr n)"
  using assms(1)
proof (cases rule: transfer_append_outcomes)
  case (run r0 s0)
  let ?ns = "tr_namespace t" and ?N = "{part_name H producer key, lock_name H producer key}"
  have r0: "objects_grow H r r0" "staging_frame ?ns ?N r r0"
    using run(4) by (auto simp: staging_frame_stage intro: same_objects_grow)
  have same: "same_objects s0 s" using run(6) by (auto simp: same_objects_def)
  have s: "objects_grow H s0 s" "staging_frame ?ns ?N s0 s"
    using run(6) same_objects_grow [OF same] by (auto simp: staging_frame_stage)
  note step = append_locked_objects [OF run(5) assms(2) run(2)]
  then have "staging_frame ?ns ?N r0 s0" by (auto simp: staging_frame_def)
  then show ?thesis
    using step r0 s by (auto simp: same_objects_read [OF same] intro: objects_grow_trans staging_frame_trans)
qed simp

lemma transfer_append_sound_witness:
  "object_verify sample_hash RevisionUpload (snd (sample_run [9] 1)) (sample_hash [9]) = Inr True"
  using transfer_append_sound [of sample_hash "\<lambda>_. 10 ^ 9" sample_transfers "lit ''p''" "sample_hash [9]" 0 1 "[9]"
      empty_root "fst (sample_run [9] 1)" "snd (sample_run [9] 1)"] sample_append sample_transfers_ok
  by (simp add: sample_transfers_def)

text \<open>The staged bytes of an upload only ever grow at their end: after an append the
  partial is as it was, or it has the chunk appended at exactly its previous length, or it
  is gone and the upload is complete.\<close>

theorem transfer_append_resumable:
  assumes "transfer_append H free t producer key off whole chunk r = (res, s)"
  shows "let old = dir_get (staging_dir (tr_namespace t) r) (part_name H producer key);
             new = dir_get (staging_dir (tr_namespace t) s) (part_name H producer key) in
    new = old
    \<or> appendable old \<and> off = int (length (old_bytes old)) \<and> new = Some (File (old_bytes old @ chunk))
    \<or> new = None \<and> (\<exists>n. res = Inr (Complete n))"
  using assms
proof (cases rule: transfer_append_outcomes)
  case (run r0 s0)
  have "dir_get (staging_dir (tr_namespace t) r0) (part_name H producer key)
      = dir_get (staging_dir (tr_namespace t) r) (part_name H producer key)"
    "dir_get (staging_dir (tr_namespace t) s) (part_name H producer key)
      = dir_get (staging_dir (tr_namespace t) s0) (part_name H producer key)"
    using run(4,6) by (auto simp: part_not_lock)
  with append_locked_part [OF run(5)] show ?thesis by (simp add: Let_def)
qed simp

lemma transfer_append_resumable_witness:
  "dir_get (staging_dir RevisionUpload (snd (sample_run [9] 2))) (part_name sample_hash (lit ''p'') (sample_hash [9]))
     \<in> {None, Some (File [9])}"
  using transfer_append_resumable [of sample_hash "\<lambda>_. 10 ^ 9" sample_transfers "lit ''p''" "sample_hash [9]" 0 2 "[9]"
      empty_root "fst (sample_run [9] 2)" "snd (sample_run [9] 2)"]
  by (auto simp: sample_transfers_def empty_root_def staging_dir_def old_bytes_def Let_def)

text \<open>C29: With a configured staging limit the partials of both namespaces together never grow
  beyond it: an append leaves the staged bytes within the limit, or within what they were
  before when they already exceeded it.\<close>

theorem transfer_append_budget:
  assumes "transfer_append H free t producer key off whole chunk r = (res, s)" "tr_limit t = Some l"
  shows "int (staging_used s) \<le> max l (int (staging_used r))"
  using assms(1)
proof (cases rule: transfer_append_outcomes)
  case (run r0 s0)
  have "staging_used r0 = staging_used r"
    using run(4) staging_used_stage [of "tr_namespace t" "lock_name H producer key" "File []" r] by auto
  moreover have "staging_used s \<le> staging_used s0"
    using run(6) staging_used_unstage by auto
  ultimately show ?thesis
    using append_locked_used [OF run(5) assms(2) part_name_ends] by linarith
qed simp


lemma transfer_append_budget_witness: "staging_used (snd (sample_run [9] 2)) \<le> 50"
  using transfer_append_budget [of sample_hash "\<lambda>_. 10 ^ 9" sample_transfers "lit ''p''" "sample_hash [9]" 0 2 "[9]"
      empty_root "fst (sample_run [9] 2)" "snd (sample_run [9] 2)" 50]
  by (simp add: sample_transfers_def staging_used_def part_bytes_def empty_root_def)

text \<open>A status query tells the truth: pending comes with exactly the number of staged
  bytes, of an object that is not there, and complete with the size of an object that
  verifies. The query itself changes no object.\<close>

theorem transfer_status_exact:
  assumes "transfer_status H t producer key r = (res, s)" "locks_inv r"
  shows "same_objects r s \<and> locks_inv s
    \<and> (\<forall>n. res = Inr (Pending n) \<longrightarrow>
         n = entry_size (dir_get (staging_dir (tr_namespace t) s) (part_name H producer key))
         \<and> completed_path (tr_namespace t) s key = Inr False)
    \<and> (\<forall>n. res = Inr (Complete n) \<longrightarrow>
         object_verify H (tr_namespace t) s key = Inr True \<and> object_size (tr_namespace t) s key = Inr n)"
proof -
  let ?ns = "tr_namespace t" and ?part = "part_name H producer key" and ?lock = "lock_name H producer key"
  have names: "?part = stem H producer key @ lit ''.part''" "?lock = stem H producer key @ lit ''.lock''"
    by (simp_all add: part_name_def lock_name_def)
  consider (err) e where "completed_path ?ns r key = Inl e" | (published) "completed_path ?ns r key = Inr True"
    | (new) "completed_path ?ns r key = Inr False"
    by (cases "completed_path ?ns r key") auto
  then show ?thesis
  proof cases
    case err
    with assms show ?thesis by (auto simp: transfer_status_def same_objects_def)
  next
    case published
    obtain x s1 where rec: "reclaim_partial H t producer key r = (x, s1)" by (cases "reclaim_partial H t producer key r")
    have "s = r \<and> (\<exists>e. res = Inl e) \<or> s = s1 \<and> object_verify H ?ns r key = Inr True
        \<and> (\<forall>n. res \<noteq> Inr (Pending n)) \<and> (\<forall>n. res = Inr (Complete n) \<longrightarrow> object_size ?ns s1 key = Inr n)"
      using assms(1) published rec
      by (auto simp: transfer_status_def Let_def bindS_def split: sum.splits if_splits)
    then show ?thesis
      using reclaim_partial_effect [OF rec assms(2)] assms(2) same_objects_read(2) [of r s1]
      by (auto simp: same_objects_def)
  next
    case new
    show ?thesis
    proof (cases "dir_get (staging_dir ?ns r) ?lock")
      case None
      then have "dir_get (staging_dir ?ns r) ?part = None"
        using assms(2) names unfolding locks_inv_def by (metis option.distinct(1))
      with assms new None show ?thesis
        by (auto simp: transfer_status_def transfer_lock_def same_objects_def entry_size_def)
    next
      case (Some l)
      show ?thesis
      proof (cases l)
        case (File b)
        let ?n = "entry_size (dir_get (staging_dir ?ns r) ?part)"
        have rs: "release ?ns ?part ?lock (Inr (Pending ?n), r) = (res, s)"
          using assms(1) new Some File by (simp add: transfer_status_def transfer_lock_def Let_def)
        then have res: "res = Inr (Pending ?n)" and s: "s = r \<or> s = unstage ?ns ?lock r"
          by (auto simp: release_def)
        have same: "same_objects r s" using s by (auto simp: same_objects_def)
        have "locks_inv s"
          using locks_inv_release [OF assms(2), of ?ns "stem H producer key" "Inr (Pending ?n)"] rs names by simp
        moreover have "dir_get (staging_dir ?ns s) ?part = dir_get (staging_dir ?ns r) ?part"
          using s by (auto simp: part_not_lock)
        moreover have "completed_path ?ns s key = Inr False"
          using new by (simp add: completed_path_def same_objects_read [OF same])
        ultimately show ?thesis using same res by simp
      qed (use assms new Some in \<open>auto simp: transfer_status_def transfer_lock_def same_objects_def\<close>)
    qed
  qed
qed

abbreviation sample_status :: "progress result \<times> data_root" where
  "sample_status \<equiv> transfer_status sample_hash sample_transfers (lit ''p'') (sample_hash [9]) empty_root"

lemma transfer_status_exact_witness: "fst sample_status = Inr (Pending 0) \<and> locks_inv (snd sample_status)"
proof -
  have "locks_inv empty_root" 
    by (auto simp: locks_inv_def empty_root_def staging_dir_def split: namespace.splits)
  then have "locks_inv (snd sample_status)"
    using transfer_status_exact [of sample_hash sample_transfers "lit ''p''" "sample_hash [9]" empty_root
        "fst sample_status" "snd sample_status"] by simp
  moreover have "fst sample_status = Inr (Pending 0)"
    by (simp add: transfer_status_def completed_path_def object_layout_def object_key_def sample_transfers_def
        transfer_lock_def empty_root_def staging_dir_def Let_def)
  ultimately show ?thesis by blast
qed

end
