(* ===== verification/Catalog.thy ===== *)
theory Catalog
  imports Objects
begin

text \<open>
  The transactional catalog of \<open>storage/catalog.py\<close>: its tables as a record of row lists, the
  ingestion of a session revision with every table it writes, and the targeted reads. SQLite
  executes a transaction atomically: an exception inside \<open>ingest\<close> rolls the tables back, so
  the model returns them unchanged. The event map of a revision, which the code stores
  as compressed canonical JSON, is the list of row ids.
\<close>

section \<open>Tables\<close>

record evidence_row =
  er_id :: nat
  er_session :: pystr
  er_hash :: pystr
  er_event :: event

record revision_row =
  rr_session :: pystr
  rr_revision :: pystr
  rr_source :: pystr
  rr_project :: pystr
  rr_title :: pystr
  rr_parent :: "pystr option"
  rr_subagent :: bool
  rr_parser :: pystr
  rr_count :: nat
  rr_map :: "nat list"

record raw_row =
  rw_session :: pystr
  rw_revision :: pystr
  rw_digest :: pystr
  rw_size :: nat
  rw_path :: pystr
  rw_fingerprint :: pystr

record alias_row =
  al_session :: pystr
  al_project :: pystr
  al_alias :: pystr
  al_legacy :: pystr
  al_native :: pystr

record legacy_row =
  lg_locator :: pystr
  lg_session :: pystr
  lg_revision :: pystr
  lg_event :: pystr

text \<open>
  \<open>ct_active\<close> holds for every session its \<open>active_events\<close> rows in ordinal order; \<open>ct_fts\<close> the
  row ids and texts of the full-text index.
\<close>

record catalog =
  ct_readonly :: bool
  ct_defaults :: "(pystr \<times> bool) list"
  ct_identity :: pystr
  ct_epoch :: nat
  ct_revisions :: "revision_row list"
  ct_heads :: "(pystr \<times> pystr) list"
  ct_evidence :: "evidence_row list"
  ct_active :: "(pystr \<times> nat list) list"
  ct_fts :: "(nat \<times> pystr) list"
  ct_producers :: "(pystr \<times> pystr \<times> pystr) list"
  ct_receipts :: "((pystr \<times> pystr) \<times> pystr \<times> pystr) list"
  ct_checkpoints :: "(pystr \<times> pystr \<times> pystr \<times> pystr) list"
  ct_raw :: "raw_row list"
  ct_legacy :: "legacy_row list"
  ct_aliases :: "alias_row list"

definition empty_catalog :: "pystr \<Rightarrow> catalog" where
  "empty_catalog identity = \<lparr>ct_readonly = False, ct_defaults = [], ct_identity = identity, ct_epoch = 0,
     ct_revisions = [], ct_heads = [], ct_evidence = [], ct_active = [], ct_fts = [], ct_producers = [],
     ct_receipts = [], ct_checkpoints = [], ct_raw = [], ct_legacy = [], ct_aliases = []\<rparr>"

definition find_revision :: "catalog \<Rightarrow> pystr \<Rightarrow> pystr \<Rightarrow> revision_row option" where
  "find_revision ct sid rv = List.find (\<lambda>r. rr_session r = sid \<and> rr_revision r = rv) (ct_revisions ct)"

definition head_of :: "catalog \<Rightarrow> pystr \<Rightarrow> pystr option" where
  "head_of ct sid = map_of (ct_heads ct) sid"

definition head_row :: "catalog \<Rightarrow> pystr \<Rightarrow> revision_row option" where
  "head_row ct sid = Option.bind (head_of ct sid) (find_revision ct sid)"

definition active_rows :: "catalog \<Rightarrow> pystr \<Rightarrow> nat list" where
  "active_rows ct sid = (case map_of (ct_active ct) sid of None \<Rightarrow> [] | Some rows \<Rightarrow> rows)"

definition evidence_by_id :: "catalog \<Rightarrow> nat \<Rightarrow> evidence_row option" where
  "evidence_by_id ct i = List.find (\<lambda>e. er_id e = i) (ct_evidence ct)"

section \<open>Ingesting evidence\<close>

text \<open>The content hash of an event covers its session and all its fields.\<close>

definition event_doc :: "pystr \<Rightarrow> event \<Rightarrow> bytes" where
  "event_doc sid e = encode_json (JObj ((lit ''session_id'', JStr sid) # event_dict e))"

definition event_hash :: "(bytes \<Rightarrow> pystr) \<Rightarrow> pystr \<Rightarrow> event \<Rightarrow> pystr" where
  "event_hash H sid e = H (event_doc sid e)"

text \<open>\<open>INTEGER PRIMARY KEY\<close>: a new row gets the largest id plus one.\<close>

definition next_id :: "evidence_row list \<Rightarrow> nat" where
  "next_id rows = Suc (fold max (map er_id rows) 0)"

text \<open>
  \<open>INSERT OR IGNORE INTO evidence\<close>, ignored when the content hash is already there, and the
  row id that the hash then has.
\<close>

definition insert_evidence :: "(bytes \<Rightarrow> pystr) \<Rightarrow> pystr \<Rightarrow> event \<Rightarrow> evidence_row list \<Rightarrow> evidence_row list" where
  "insert_evidence H sid e rows =
     (if event_hash H sid e \<in> er_hash ` set rows then rows
      else rows @ [\<lparr>er_id = next_id rows, er_session = sid, er_hash = event_hash H sid e, er_event = e\<rparr>])"

definition row_of_hash :: "pystr \<Rightarrow> evidence_row list \<Rightarrow> nat" where
  "row_of_hash h rows = (case List.find (\<lambda>r. er_hash r = h) rows of None \<Rightarrow> 0 | Some r \<Rightarrow> er_id r)"

definition append_active :: "pystr \<Rightarrow> nat \<Rightarrow> catalog \<Rightarrow> catalog" where
  "append_active sid i ct = ct\<lparr>ct_active := AList.update sid (active_rows ct sid @ [i]) (ct_active ct)\<rparr>"

text \<open>The full-text index refuses a second row with the same id.\<close>

definition insert_fts :: "nat \<Rightarrow> pystr \<Rightarrow> catalog \<Rightarrow> catalog result" where
  "insert_fts i txt ct = (if i \<in> fst ` set (ct_fts ct) then Inl (DatabaseError ''constraint failed'')
     else Inr (ct\<lparr>ct_fts := ct_fts ct @ [(i, txt)]\<rparr>))"

fun ingest_events :: "(bytes \<Rightarrow> pystr) \<Rightarrow> pystr \<Rightarrow> nat set \<Rightarrow> event list \<Rightarrow> catalog \<Rightarrow> (nat list \<times> catalog) result" where
  "ingest_events H sid previous [] ct = Inr ([], ct)"
| "ingest_events H sid previous (e # es) ct =
     (let rows = insert_evidence H sid e (ct_evidence ct);
          i = row_of_hash (event_hash H sid e) rows;
          ct = ct\<lparr>ct_evidence := rows\<rparr> in
      bindR (if i \<in> previous then Inr ct else insert_fts i (ev_text e) ct) (\<lambda>ct.
      bindR (ingest_events H sid previous es (append_active sid i ct)) (\<lambda>(ids, ct). Inr (i # ids, ct))))"

section \<open>Ingesting a revision\<close>

record raw_ref =
  raw_digest :: pystr
  raw_size :: nat
  raw_path :: pystr
  raw_fingerprint :: pystr

text \<open>Raw evidence must be durable before it is acknowledged.\<close>

definition check_raw :: "(bytes \<Rightarrow> pystr) \<Rightarrow> data_root \<Rightarrow> raw_ref option \<Rightarrow> unit result" where
  "check_raw H r raw = (case raw of None \<Rightarrow> Inr () | Some w \<Rightarrow>
     bindR (object_verify H Raw r (raw_digest w)) (\<lambda>ok.
       if \<not> ok then Inl (ValueError ''raw evidence must be durable and verified before acknowledgement'')
       else bindR (object_size Raw r (raw_digest w)) (\<lambda>n.
         if n \<noteq> raw_size w
         then Inl (ValueError ''raw evidence must be durable and verified before acknowledgement'') else Inr ())))"

definition legacy_parser :: pystr where
  "legacy_parser = lit ''legacy-archive-v1''"

definition needs_alias :: "revision_row option \<Rightarrow> session \<Rightarrow> bool" where
  "needs_alias prev s = (case prev of None \<Rightarrow> False | Some h \<Rightarrow>
     rr_source h = ses_source s \<and> ses_source s = lit ''codex'' \<and> rr_parser h = legacy_parser
     \<and> ses_parser s \<noteq> legacy_parser \<and> rr_project h \<noteq> [] \<and> ses_project s \<noteq> [] \<and> rr_project h \<noteq> ses_project s)"

definition insert_alias :: "alias_row \<Rightarrow> alias_row list \<Rightarrow> alias_row list" where
  "insert_alias a rows = (if \<exists>b \<in> set rows. al_session b = al_session a \<and> al_project b = al_project a \<and> al_alias b = al_alias a
     then rows else rows @ [a])"

definition insert_raw :: "raw_row \<Rightarrow> raw_row list \<Rightarrow> raw_row list" where
  "insert_raw w rows = (if \<exists>b \<in> set rows. rw_session b = rw_session w \<and> rw_revision b = rw_revision w
       \<and> rw_digest b = rw_digest w \<and> rw_path b = rw_path w
     then rows else rows @ [w])"

definition insert_new :: "'a \<Rightarrow> 'a list \<Rightarrow> 'a list" where
  "insert_new x xs = (if x \<in> set xs then xs else xs @ [x])"

definition revision_row_of :: "pystr \<Rightarrow> session \<Rightarrow> nat list \<Rightarrow> revision_row" where
  "revision_row_of rv s ids = \<lparr>rr_session = ses_id s, rr_revision = rv, rr_source = ses_source s,
     rr_project = ses_project s, rr_title = ses_title s, rr_parent = ses_parent s,
     rr_subagent = ses_subagent s, rr_parser = ses_parser s, rr_count = length (ses_events s), rr_map = ids\<rparr>"

text \<open>The branch for a revision that is not stored yet.\<close>

definition ingest_new :: "(bytes \<Rightarrow> pystr) \<Rightarrow> session \<Rightarrow> catalog \<Rightarrow> catalog result" where
  "ingest_new H s ct =
     (let sid = ses_id s; rv = session_revision H s; prev = head_row ct sid;
          previous = set (active_rows ct sid) in
      bindR (ingest_events H sid previous (ses_events s) (ct\<lparr>ct_active := AList.delete sid (ct_active ct)\<rparr>))
        (\<lambda>(ids, ct).
          let ct = ct\<lparr>ct_fts := filter (\<lambda>it. fst it \<notin> previous - set ids) (ct_fts ct),
                 ct_revisions := ct_revisions ct @ [revision_row_of rv s ids],
                 ct_heads := AList.update sid rv (ct_heads ct)\<rparr> in
          Inr (if needs_alias prev s then ct\<lparr>ct_aliases := insert_alias
                 \<lparr>al_session = sid, al_project = ses_project s, al_alias = rr_project (the prev),
                  al_legacy = rr_revision (the prev), al_native = rv\<rparr> (ct_aliases ct)\<rparr> else ct)))"

record ingest_result =
  ir_session :: pystr
  ir_revision :: pystr
  ir_duplicate :: bool

text \<open>The bookkeeping that every accepted request writes.\<close>

definition record_receipt :: "pystr \<Rightarrow> pystr \<Rightarrow> pystr \<Rightarrow> pystr \<Rightarrow> (pystr \<times> pystr) option \<Rightarrow> raw_ref option
    \<Rightarrow> catalog \<Rightarrow> catalog" where
  "record_receipt sid rv producer request checkpoint raw ct = ct\<lparr>
     ct_producers := insert_new (sid, rv, producer) (ct_producers ct),
     ct_receipts := ct_receipts ct @ [((producer, request), sid, rv)],
     ct_checkpoints := (case checkpoint of None \<Rightarrow> ct_checkpoints ct
       | Some (path, fingerprint) \<Rightarrow> AList.update path (fingerprint, sid, rv) (ct_checkpoints ct)),
     ct_raw := (case raw of None \<Rightarrow> ct_raw ct
       | Some w \<Rightarrow> insert_raw \<lparr>rw_session = sid, rw_revision = rv, rw_digest = raw_digest w, rw_size = raw_size w,
           rw_path = raw_path w, rw_fingerprint = raw_fingerprint w\<rparr> (ct_raw ct)),
     ct_epoch := Suc (ct_epoch ct)\<rparr>"

definition ingest :: "(bytes \<Rightarrow> pystr) \<Rightarrow> data_root \<Rightarrow> session \<Rightarrow> pystr \<Rightarrow> pystr \<Rightarrow> (pystr \<times> pystr) option
    \<Rightarrow> raw_ref option \<Rightarrow> (catalog, ingest_result) op" where
  "ingest H r s producer request checkpoint raw ct =
     (let sid = ses_id s; rv = session_revision H s in
      if ct_readonly ct then (Inl (PermissionError ''standby is read-only''), ct)
      else if producer = [] \<or> request = []
        then (Inl (ValueError ''producer and idempotency key are required''), ct)
      else (case check_raw H r raw of Inl e \<Rightarrow> (Inl e, ct) | Inr _ \<Rightarrow>
        (case map_of (ct_receipts ct) (producer, request) of
          Some prior \<Rightarrow>
            if prior \<noteq> (sid, rv) then (Inl (ValueError ''idempotency key reused for different content''), ct)
            else (Inr \<lparr>ir_session = sid, ir_revision = rv, ir_duplicate = True\<rparr>, ct)
        | None \<Rightarrow>
            (let exists = find_revision ct sid rv \<noteq> None in
             case (if exists then Inr ct else ingest_new H s ct) of
               Inl e \<Rightarrow> (Inl e, ct)
             | Inr ct' \<Rightarrow> (Inr \<lparr>ir_session = sid, ir_revision = rv, ir_duplicate = exists\<rparr>,
                 record_receipt sid rv producer request checkpoint raw ct')))))"

section \<open>Reads\<close>

definition revision_event_ids :: "catalog \<Rightarrow> pystr \<Rightarrow> pystr \<Rightarrow> nat list" where
  "revision_event_ids ct sid rv = (case find_revision ct sid rv of None \<Rightarrow> [] | Some r \<Rightarrow> rr_map r)"

text \<open>
  \<open>read_events\<close>: the rows are fetched in batches of 500 into a dictionary; a missing or
  repeated row makes its size differ from the number of ids.
\<close>

definition batch_size :: nat where "batch_size = 500"

function batches :: "nat \<Rightarrow> 'a list \<Rightarrow> 'a list list" where
  "batches n xs = (if n = 0 \<or> xs = [] then [] else take n xs # batches n (drop n xs))"
  by pat_completeness auto
termination
  by (relation "measure (\<lambda>(n, xs). length xs)") auto

declare batches.simps [simp del]

definition fetch_batch :: "catalog \<Rightarrow> nat list \<Rightarrow> (nat \<times> event) list" where
  "fetch_batch ct ids = map (\<lambda>e. (er_id e, er_event e)) (filter (\<lambda>e. er_id e \<in> set ids) (ct_evidence ct))"

definition fetch_events :: "catalog \<Rightarrow> nat list \<Rightarrow> (nat \<times> event) list" where
  "fetch_events ct ids = foldl (\<lambda>d b. foldl (\<lambda>d (k, v). AList.update k v d) d (fetch_batch ct b)) []
     (batches batch_size ids)"

definition read_events :: "catalog \<Rightarrow> nat list \<Rightarrow> event list result" where
  "read_events ct ids =
     (let events = fetch_events ct ids in
      if length events \<noteq> length ids then Inl (ValueError ''revision references missing or duplicate evidence'')
      else mapR (\<lambda>i. case map_of events i of None \<Rightarrow> Inl (KeyError ''row'') | Some e \<Rightarrow> Inr e) ids)"

definition export_json :: "revision_row \<Rightarrow> event list \<Rightarrow> json" where
  "export_json r evs = JObj [(lit ''session_id'', JStr (rr_session r)), (lit ''source'', JStr (rr_source r)),
     (lit ''project'', JStr (rr_project r)), (lit ''title'', JStr (rr_title r)),
     (lit ''parent_session_id'', parent_json (rr_parent r)), (lit ''parser_version'', JStr (rr_parser r)),
     (lit ''is_subagent'', JBool (rr_subagent r)), (lit ''events'', JList (map (JObj \<circ> event_dict) evs))]"

definition export_revision :: "catalog \<Rightarrow> pystr \<Rightarrow> pystr \<Rightarrow> json result" where
  "export_revision ct sid rv = (case find_revision ct sid rv of
       None \<Rightarrow> Inl (KeyError ''revision unavailable'')
     | Some r \<Rightarrow> bindR (read_events ct (rr_map r)) (\<lambda>evs.
         case json_loads (encode_json (export_json r evs)) of
           None \<Rightarrow> Inl (ValueError ''invalid JSON'') | Some v \<Rightarrow> Inr v))"

section \<open>Evidence rows\<close>

lemma event_doc_inject:
  assumes "event_doc sid e = event_doc sid' e'"
  shows "sid = sid' \<and> e = e'"
proof -
  let ?d = "\<lambda>sid e. (lit ''session_id'', JStr sid) # event_dict e"
  have "map_option normal_json (map_of (?d sid e) k) = map_option normal_json (map_of (?d sid' e') k)" for k
    using encode_json_inject [OF assms [unfolded event_doc_def]]
    by (rule normal_json_obj_lookup) (simp_all add: event_dict_def)
  from this [of "lit ''session_id''"] this [of "lit ''event_id''"] this [of "lit ''role''"] this [of "lit ''text''"]
    this [of "lit ''timestamp''"] this [of "lit ''origin''"] this [of "lit ''kind''"]
  show ?thesis by (simp add: event_dict_def)
qed

text \<open>
  The evidence table: ids and hashes are unique and every row has the hash of its content.
  \<open>D\<close> is the set of documents on which the hash is assumed to have no collision.
\<close>

definition evidence_inv :: "(bytes \<Rightarrow> pystr) \<Rightarrow> bytes set \<Rightarrow> evidence_row list \<Rightarrow> bool" where
  "evidence_inv H D rows \<longleftrightarrow> distinct (map er_id rows) \<and> distinct (map er_hash rows) \<and>
     (\<forall>e \<in> set rows. er_hash e = event_hash H (er_session e) (er_event e) \<and> event_doc (er_session e) (er_event e) \<in> D)"

lemma fold_max_ge: "x \<in> set xs \<Longrightarrow> x \<le> fold max xs (a :: nat)"
proof (induction xs arbitrary: a)
  case (Cons y ys)
  have "b \<le> fold max zs b" for zs and b :: nat
    by (induction zs arbitrary: b) (auto intro: order_trans [OF max.cobounded2])
  then have "y \<le> fold max ys (max y a)" by (rule order_trans [OF max.cobounded1])
  with Cons show ?case by auto
qed simp

lemma next_id_fresh: "next_id rows \<notin> er_id ` set rows"
proof
  assume "next_id rows \<in> er_id ` set rows"
  then have "next_id rows \<le> fold max (map er_id rows) 0" by (intro fold_max_ge) simp
  then show False by (simp add: next_id_def)
qed

lemma insert_evidence_inv:
  assumes "evidence_inv H D rows" "event_doc sid e \<in> D"
  shows "evidence_inv H D (insert_evidence H sid e rows)"
  using assms next_id_fresh [of rows] by (auto simp: evidence_inv_def insert_evidence_def)

lemma insert_evidence_grows: "\<exists>new. insert_evidence H sid e rows = rows @ new"
  by (simp add: insert_evidence_def)

text \<open>A lookup by hash finds the row of the event that was inserted.\<close>

lemma find_unique:
  assumes "distinct (map f xs)" "x \<in> set xs"
  shows "List.find (\<lambda>y. f y = f x) xs = Some x"
  using assms by (induction xs) (auto simp: image_iff)

lemma row_of_hash_row:
  assumes "evidence_inv H D rows" "inj_on H D" "event_doc sid e \<in> D" "event_hash H sid e \<in> er_hash ` set rows"
  obtains r where "r \<in> set rows" "er_id r = row_of_hash (event_hash H sid e) rows" "er_session r = sid" "er_event r = e"
proof -
  from assms(4) obtain r where r: "r \<in> set rows" "er_hash r = event_hash H sid e" by auto
  with assms(1) have "H (event_doc (er_session r) (er_event r)) = H (event_doc sid e)"
    "event_doc (er_session r) (er_event r) \<in> D"
    by (auto simp: evidence_inv_def event_hash_def)
  with assms(2,3) have "event_doc (er_session r) (er_event r) = event_doc sid e"
    by (auto dest: inj_onD)
  from event_doc_inject [OF this] have same: "er_session r = sid" "er_event r = e" by simp_all
  have "List.find (\<lambda>y. er_hash y = er_hash r) rows = Some r"
    by (rule find_unique) (use assms(1) r in \<open>simp_all add: evidence_inv_def\<close>)
  with r have "row_of_hash (event_hash H sid e) rows = er_id r" by (simp add: row_of_hash_def)
  with that r(1) same show thesis by simp
qed

text \<open>Row ids are looked up the same way when rows are added behind.\<close>

lemma row_of_hash_append: "h \<in> er_hash ` set rows \<Longrightarrow> row_of_hash h (rows @ new) = row_of_hash h rows"
  by (induction rows) (auto simp: row_of_hash_def)

lemma insert_evidence_has: "event_hash H sid e \<in> er_hash ` set (insert_evidence H sid e rows)"
  by (simp add: insert_evidence_def)

text \<open>The rows after a list of events.\<close>

definition insert_all :: "(bytes \<Rightarrow> pystr) \<Rightarrow> pystr \<Rightarrow> event list \<Rightarrow> evidence_row list \<Rightarrow> evidence_row list" where
  "insert_all H sid es rows = fold (insert_evidence H sid) es rows"

lemma insert_all_simps [simp]: "insert_all H sid [] rows = rows"
  "insert_all H sid (e # es) rows = insert_all H sid es (insert_evidence H sid e rows)"
  by (simp_all add: insert_all_def)

lemma insert_all_grows: "\<exists>new. insert_all H sid es rows = rows @ new"
proof (induction es arbitrary: rows)
  case (Cons e es)
  obtain new where new: "insert_evidence H sid e rows = rows @ new" using insert_evidence_grows by blast
  obtain new' where "insert_all H sid es (rows @ new) = (rows @ new) @ new'" using Cons.IH by blast
  with new show ?case by simp
qed simp

lemma insert_all_inv:
  "evidence_inv H D rows \<Longrightarrow> event_doc sid ` set es \<subseteq> D \<Longrightarrow> evidence_inv H D (insert_all H sid es rows)"
  by (induction es arbitrary: rows) (simp_all add: insert_evidence_inv)

lemma insert_all_has: "e \<in> set es \<Longrightarrow> event_hash H sid e \<in> er_hash ` set (insert_all H sid es rows)"
proof (induction es arbitrary: rows)
  case (Cons d es)
  show ?case
  proof (cases "e = d")
    case True
    obtain new where "insert_all H sid es (insert_evidence H sid d rows) = insert_evidence H sid d rows @ new"
      using insert_all_grows by blast
    then show ?thesis using insert_evidence_has [of H sid d rows] True by auto
  qed (use Cons in simp)
qed simp

definition ids_of :: "(bytes \<Rightarrow> pystr) \<Rightarrow> pystr \<Rightarrow> event list \<Rightarrow> evidence_row list \<Rightarrow> nat list" where
  "ids_of H sid es rows = map (\<lambda>e. row_of_hash (event_hash H sid e) rows) es"

text \<open>What ingesting the events does to the tables, when it returns.\<close>

lemma active_rows_append [simp]:
  "active_rows (append_active sid i ct) x = (if x = sid then active_rows ct sid @ [i] else active_rows ct x)"
  by (simp add: active_rows_def append_active_def update_conv')

lemma append_active_simps [simp]:
  "ct_evidence (append_active sid i ct) = ct_evidence ct" "ct_fts (append_active sid i ct) = ct_fts ct"
  by (simp_all add: append_active_def)

lemma ids_of_Cons:
  "ids_of H sid (e # es) (insert_all H sid (e # es) rows)
   = row_of_hash (event_hash H sid e) (insert_evidence H sid e rows)
     # ids_of H sid es (insert_all H sid es (insert_evidence H sid e rows))"
proof -
  obtain new where "insert_all H sid es (insert_evidence H sid e rows) = insert_evidence H sid e rows @ new"
    using insert_all_grows by blast
  then show ?thesis
    using row_of_hash_append [OF insert_evidence_has, of H sid e rows new] by (simp add: ids_of_def)
qed

lemma ingest_events_effect:
  assumes "ingest_events H sid P es ct = Inr (ids, ct')"
  shows "ids = ids_of H sid es (insert_all H sid es (ct_evidence ct)) \<and>
    ct' = ct\<lparr>ct_evidence := insert_all H sid es (ct_evidence ct),
      ct_active := ct_active ct',
      ct_fts := ct_fts ct @ map (\<lambda>(i, e). (i, ev_text e)) (filter (\<lambda>(i, e). i \<notin> P) (zip ids es))\<rparr> \<and>
    (\<forall>x. active_rows ct' x = (if x = sid then active_rows ct sid @ ids else active_rows ct x))"
  using assms
proof (induction es arbitrary: ct ids)
  case Nil
  then show ?case by (simp add: ids_of_def)
next
  case (Cons e es)
  let ?rows = "insert_evidence H sid e (ct_evidence ct)"
  let ?i = "row_of_hash (event_hash H sid e) ?rows"
  let ?ct1 = "ct\<lparr>ct_evidence := ?rows\<rparr>"
  from Cons.prems obtain ct2 ids' where
    ct2: "(if ?i \<in> P then Inr ?ct1 else insert_fts ?i (ev_text e) ?ct1) = Inr ct2"
    and rest: "ingest_events H sid P es (append_active sid ?i ct2) = Inr (ids', ct')" and ids: "ids = ?i # ids'"
    by (auto simp: Let_def bindR_Inr_iff)
  have ct2': "ct2 = ct\<lparr>ct_evidence := ?rows,
      ct_fts := ct_fts ct @ (if ?i \<in> P then [] else [(?i, ev_text e)])\<rparr>"
    using ct2 by (auto simp: insert_fts_def split: if_splits)
  have act: "active_rows ct2 x = active_rows ct x" for x by (simp add: ct2' active_rows_def)
  have ev2: "ct_evidence ct2 = ?rows" by (simp add: ct2')
  note IH0 = Cons.IH [OF rest, unfolded append_active_simps ev2]
  have IH: "ids' = ids_of H sid es (insert_all H sid es ?rows)"
    using IH0 by (rule conjunct1)
  have ct': "ct' = append_active sid ?i ct2\<lparr>ct_evidence := insert_all H sid es ?rows, ct_active := ct_active ct',
      ct_fts := ct_fts ct2 @ map (\<lambda>(i, e). (i, ev_text e)) (filter (\<lambda>(i, e). i \<notin> P) (zip ids' es))\<rparr>"
    using IH0 [THEN conjunct2] by (rule conjunct1)
  have active: "\<forall>x. active_rows ct' x = (if x = sid then active_rows ct sid @ ?i # ids' else active_rows ct x)"
    using IH0 [THEN conjunct2, THEN conjunct2] by (simp add: act)
  have "ids = ids_of H sid (e # es) (insert_all H sid (e # es) (ct_evidence ct))"
    by (subst ids_of_Cons) (simp only: ids IH)
  moreover have "ct' = ct\<lparr>ct_evidence := insert_all H sid (e # es) (ct_evidence ct), ct_active := ct_active ct',
      ct_fts := ct_fts ct @ map (\<lambda>(i, e). (i, ev_text e)) (filter (\<lambda>(i, e). i \<notin> P) (zip ids (e # es)))\<rparr>"
    by (subst ct') (simp add: ct2' ids append_active_def)
  ultimately show ?case using active ids by simp
qed

text \<open>It returns unless a row that is not active for the session is already indexed.\<close>

lemma ingest_events_returns:
  assumes "distinct (ids_of H sid es (insert_all H sid es (ct_evidence ct)))"
    and "\<forall>i \<in> set (ids_of H sid es (insert_all H sid es (ct_evidence ct))). i \<in> P \<or> i \<notin> fst ` set (ct_fts ct)"
  shows "\<exists>x. ingest_events H sid P es ct = Inr x"
  using assms
proof (induction es arbitrary: ct)
  case (Cons e es)
  let ?rows = "insert_evidence H sid e (ct_evidence ct)"
  let ?i = "row_of_hash (event_hash H sid e) ?rows"
  let ?ct2 = "ct\<lparr>ct_evidence := ?rows, ct_fts := ct_fts ct @ (if ?i \<in> P then [] else [(?i, ev_text e)])\<rparr>"
  have ids: "ids_of H sid (e # es) (insert_all H sid (e # es) (ct_evidence ct))
      = ?i # ids_of H sid es (insert_all H sid es ?rows)"
    by (rule ids_of_Cons)
  have step: "(if ?i \<in> P then Inr (ct\<lparr>ct_evidence := ?rows\<rparr>) else insert_fts ?i (ev_text e) (ct\<lparr>ct_evidence := ?rows\<rparr>)) = Inr ?ct2"
    using Cons.prems(2) unfolding ids by (auto simp: insert_fts_def)
  have "\<exists>x. ingest_events H sid P es (append_active sid ?i ?ct2) = Inr x"
    using Cons.prems unfolding ids by (intro Cons.IH) auto
  then show ?case by (simp only: ingest_events.simps Let_def step bindR_simps) auto
qed simp

section \<open>The catalog invariant\<close>

text \<open>
  A stored revision is the row of a session whose identity is the session's digest, and its
  event map leads to evidence rows with exactly the session's events.
\<close>

definition rows_for :: "evidence_row list \<Rightarrow> pystr \<Rightarrow> nat list \<Rightarrow> event list \<Rightarrow> bool" where
  "rows_for rows sid ids es \<longleftrightarrow>
     list_all2 (\<lambda>i e. \<exists>x \<in> set rows. er_id x = i \<and> er_session x = sid \<and> er_event x = e) ids es"

definition session_doc :: "session \<Rightarrow> bytes" where
  "session_doc s = encode_json (JObj (session_dict s))"

definition session_docs :: "session \<Rightarrow> bytes set" where
  "session_docs s = insert (session_doc s) (event_doc (ses_id s) ` set (ses_events s))"

definition revision_of :: "(bytes \<Rightarrow> pystr) \<Rightarrow> bytes set \<Rightarrow> evidence_row list \<Rightarrow> session \<Rightarrow> revision_row \<Rightarrow> bool" where
  "revision_of H D rows s r \<longleftrightarrow> r = revision_row_of (session_revision H s) s (rr_map r)
     \<and> distinct (rr_map r) \<and> rows_for rows (ses_id s) (rr_map r) (ses_events s) \<and> session_doc s \<in> D"

definition fts_inv :: "catalog \<Rightarrow> bool" where
  "fts_inv ct \<longleftrightarrow> distinct (map fst (ct_fts ct)) \<and> (\<forall>i t. (i, t) \<in> set (ct_fts ct) \<longleftrightarrow>
     (\<exists>x \<in> set (ct_evidence ct). er_id x = i \<and> ev_text (er_event x) = t \<and> i \<in> set (active_rows ct (er_session x))))"

definition catalog_inv :: "(bytes \<Rightarrow> pystr) \<Rightarrow> bytes set \<Rightarrow> catalog \<Rightarrow> bool" where
  "catalog_inv H D ct \<longleftrightarrow> evidence_inv H D (ct_evidence ct)
     \<and> distinct (map (\<lambda>r. (rr_session r, rr_revision r)) (ct_revisions ct))
     \<and> (\<forall>r \<in> set (ct_revisions ct). \<exists>s. revision_of H D (ct_evidence ct) s r)
     \<and> (\<forall>sid rv. head_of ct sid = Some rv \<longrightarrow> find_revision ct sid rv \<noteq> None)
     \<and> (\<forall>sid. active_rows ct sid = (case head_row ct sid of None \<Rightarrow> [] | Some r \<Rightarrow> rr_map r))
     \<and> fts_inv ct"

lemma rows_for_append: "rows_for rows sid ids es \<Longrightarrow> rows_for (rows @ new) sid ids es"
  unfolding rows_for_def by (erule list_all2_mono) auto

lemma rows_for_mem: "rows_for rows sid ids es \<Longrightarrow> i \<in> set ids \<Longrightarrow> \<exists>x \<in> set rows. er_id x = i \<and> er_session x = sid"
  unfolding rows_for_def by (fastforce simp: list_all2_conv_all_nth in_set_conv_nth)

lemma rows_for_zip:
  "rows_for rows sid ids es \<Longrightarrow> (i, e) \<in> set (zip ids es) \<Longrightarrow> \<exists>x \<in> set rows. er_id x = i \<and> er_session x = sid \<and> er_event x = e"
  unfolding rows_for_def by (auto simp: list_all2_iff)

lemma er_id_unique: "evidence_inv H D rows \<Longrightarrow> x \<in> set rows \<Longrightarrow> y \<in> set rows \<Longrightarrow> er_id x = er_id y \<Longrightarrow> x = y"
proof -
  assume "evidence_inv H D rows" and mem: "x \<in> set rows" "y \<in> set rows" "er_id x = er_id y"
  then have "inj_on er_id (set rows)" by (simp add: evidence_inv_def distinct_map)
  then show "x = y" by (rule inj_onD) (rule mem)+
qed

lemma ids_of_rows:
  assumes "evidence_inv H D rows" "inj_on H D" "event_doc sid ` set es \<subseteq> D" "\<forall>e \<in> set es. event_hash H sid e \<in> er_hash ` set rows"
  shows "rows_for rows sid (ids_of H sid es rows) es"
  unfolding rows_for_def ids_of_def list_all2_map1
proof (rule list.rel_refl_strong)
  fix e assume "e \<in> set es"
  then show "\<exists>x \<in> set rows. er_id x = row_of_hash (event_hash H sid e) rows \<and> er_session x = sid \<and> er_event x = e"
    using row_of_hash_row [OF assms(1,2), of sid e] assms(3,4) by blast
qed

lemma rows_for_distinct:
  assumes "evidence_inv H D rows" "rows_for rows sid ids es" "distinct es"
  shows "distinct ids"
  unfolding distinct_conv_nth
proof (intro allI impI)
  fix i j assume ij: "i < length ids" "j < length ids" "i \<noteq> j"
  have len: "length ids = length es" using assms(2) by (simp add: rows_for_def list_all2_lengthD)
  obtain x where x: "x \<in> set rows" "er_id x = ids ! i" "er_event x = es ! i"
    using assms(2) ij(1) by (auto simp: rows_for_def list_all2_conv_all_nth)
  obtain y where y: "y \<in> set rows" "er_id y = ids ! j" "er_event y = es ! j"
    using assms(2) ij(2) by (auto simp: rows_for_def list_all2_conv_all_nth)
  show "ids ! i \<noteq> ids ! j"
  proof
    assume "ids ! i = ids ! j"
    then have "x = y" using er_id_unique [OF assms(1) x(1) y(1)] x y by simp
    with x y have "es ! i = es ! j" by simp
    with assms(3) ij len show False by (simp add: nth_eq_iff_index_eq)
  qed
qed

lemma catalog_active_rows:
  assumes "catalog_inv H D ct" "i \<in> set (active_rows ct sid)"
  shows "\<exists>x \<in> set (ct_evidence ct). er_id x = i \<and> er_session x = sid"
proof -
  have "active_rows ct sid = (case head_row ct sid of None \<Rightarrow> [] | Some r \<Rightarrow> rr_map r)"
    using assms(1) unfolding catalog_inv_def by blast
  with assms(2) obtain r where r: "head_row ct sid = Some r" "i \<in> set (rr_map r)"
    by (cases "head_row ct sid") auto
  then obtain rv where "find_revision ct sid rv = Some r"
    by (auto simp: head_row_def bind_eq_Some_conv)
  then have mem: "r \<in> set (ct_revisions ct)" "rr_session r = sid"
    by (auto simp: find_revision_def dest: find_Some_set)
  with assms(1) obtain s where "revision_of H D (ct_evidence ct) s r"
    by (auto simp: catalog_inv_def)
  then have "ses_id s = sid" "rows_for (ct_evidence ct) (ses_id s) (rr_map r) (ses_events s)"
    using mem(2) by (auto simp: revision_of_def revision_row_of_def) (metis revision_row.select_convs(1))
  with r(2) show ?thesis using rows_for_mem by blast
qed

lemma find_append: "List.find P (xs @ ys) = (case List.find P xs of None \<Rightarrow> List.find P ys | Some x \<Rightarrow> Some x)"
  by (induction xs) auto

section \<open>Storing a new revision\<close>

text \<open>
  The full-text index after the session's rows have been replaced by \<open>ids\<close>: rows that are no
  longer active leave it and rows that became active enter it.
\<close>

lemma replace_fts:
  assumes inv: "evidence_inv H D rows'" and rows': "rows' = rows @ new" and fts: "distinct (map fst fts)"
      "\<forall>i t. (i, t) \<in> set fts \<longleftrightarrow> (\<exists>x \<in> set rows. er_id x = i \<and> ev_text (er_event x) = t \<and> i \<in> set (act (er_session x)))"
    and act: "\<forall>sid i. i \<in> set (act sid) \<longrightarrow> (\<exists>x \<in> set rows. er_id x = i \<and> er_session x = sid)"
    and ids: "rows_for rows' sid ids es" "distinct ids"
    and fts': "fts' = filter (\<lambda>it. fst it \<notin> set (act sid) - set ids)
      (fts @ map (\<lambda>(i, e). (i, ev_text e)) (filter (\<lambda>(i, e). i \<notin> set (act sid)) (zip ids es)))"
    and act': "\<forall>x. act' x = (if x = sid then ids else act x)"
  shows "distinct (map fst fts') \<and> (\<forall>i t. (i, t) \<in> set fts' \<longleftrightarrow>
    (\<exists>x \<in> set rows'. er_id x = i \<and> ev_text (er_event x) = t \<and> i \<in> set (act' (er_session x))))"
proof -
  let ?add = "filter (\<lambda>(i, e). i \<notin> set (act sid)) (zip ids es)"
  have len: "length ids = length es" using ids(1) by (simp add: rows_for_def list_all2_lengthD)
  have uniq: "x = y" if "x \<in> set rows'" "y \<in> set rows'" "er_id x = er_id y" for x y
    using er_id_unique [OF inv that] .
  have zip: "\<exists>x \<in> set rows'. er_id x = i \<and> er_session x = sid \<and> er_event x = e" if "(i, e) \<in> set (zip ids es)" for i e
    using rows_for_zip [OF ids(1) that] .
  have fresh: "i \<notin> fst ` set fts" if "(i, e) \<in> set ?add" for i e
  proof
    assume "i \<in> fst ` set fts"
    then obtain t where "(i, t) \<in> set fts" by auto
    then obtain x where x: "x \<in> set rows" "er_id x = i" "i \<in> set (act (er_session x))" using fts(2) by blast
    have "(i, e) \<in> set (zip ids es)" using that by simp
    from zip [OF this] obtain y where y: "y \<in> set rows'" "er_id y = i" "er_session y = sid" by blast
    have "x = y" using uniq x y rows' by simp
    with x y that show False by simp
  qed
  have "map fst ?add = filter (\<lambda>i. i \<notin> set (act sid)) ids"
    using len by (induction ids es rule: list_induct2) auto
  then have add: "distinct (map fst (map (\<lambda>(i, e). (i, ev_text e)) ?add))"
    using ids(2) by (simp add: o_def case_prod_unfold)
  have keys: "map fst (map (\<lambda>(i, e). (i, ev_text e)) ?add) = map fst ?add"
    by (simp add: o_def case_prod_unfold)
  have "set (map fst fts) \<inter> set (map fst ?add) = {}"
    using fresh by (fastforce simp del: set_filter)
  then have "distinct (map fst (fts @ map (\<lambda>(i, e). (i, ev_text e)) ?add))"
    using fts(1) add unfolding map_append distinct_append keys by blast
  then have dist: "distinct (map fst fts')"
    unfolding fts' by (rule distinct_map_filter)
  have iff: "(i, t) \<in> set fts' \<longleftrightarrow>
      (\<exists>x \<in> set rows'. er_id x = i \<and> ev_text (er_event x) = t \<and> i \<in> set (act' (er_session x)))" for i t
  proof
    assume "(i, t) \<in> set fts'"
    then consider (old) "(i, t) \<in> set fts" "i \<in> set (act sid) \<longrightarrow> i \<in> set ids"
      | (added) e where "(i, e) \<in> set (zip ids es)" "t = ev_text e"
      unfolding fts' by auto
    then show "\<exists>x \<in> set rows'. er_id x = i \<and> ev_text (er_event x) = t \<and> i \<in> set (act' (er_session x))"
    proof cases
      case old
      then obtain x where "x \<in> set rows" "er_id x = i" "ev_text (er_event x) = t" "i \<in> set (act (er_session x))"
        using fts(2) by blast
      with old(2) act' show ?thesis by (intro bexI [of _ x]) (auto simp: rows')
    next
      case added
      from zip [OF added(1)] obtain x where "x \<in> set rows'" "er_id x = i" "er_session x = sid" "er_event x = e" by blast
      moreover have "i \<in> set ids" using added(1) by (rule set_zip_leftD)
      ultimately show ?thesis using added(2) act' by (intro bexI [of _ x]) simp_all
    qed
  next
    assume "\<exists>x \<in> set rows'. er_id x = i \<and> ev_text (er_event x) = t \<and> i \<in> set (act' (er_session x))"
    then obtain x where x: "x \<in> set rows'" "er_id x = i" "ev_text (er_event x) = t" "i \<in> set (act' (er_session x))" by blast
    have old: "(i, t) \<in> set fts" if active: "i \<in> set (act (er_session x))"
    proof -
      obtain y where y: "y \<in> set rows" "er_id y = i" "er_session y = er_session x" using act active by blast
      with uniq x rows' have "y = x" by simp
      with y x active fts(2) show ?thesis by blast
    qed
    show "(i, t) \<in> set fts'"
    proof (cases "er_session x = sid")
      case False
      then have "i \<in> set (act (er_session x))" using x(4) act' by simp
      moreover have "i \<notin> set (act sid)"
      proof
        assume "i \<in> set (act sid)"
        then obtain y where "y \<in> set rows" "er_id y = i" "er_session y = sid" using act by blast
        with uniq x rows' False show False by auto
      qed
      ultimately show ?thesis using old by (simp add: fts')
    next
      case True
      then have i: "i \<in> set ids" using x(4) act' by simp
      show ?thesis
      proof (cases "i \<in> set (act sid)")
        case True
        with old \<open>er_session x = sid\<close> i show ?thesis by (simp add: fts')
      next
        case False
        from i len obtain e where e: "(i, e) \<in> set (zip ids es)"
          by (metis in_set_impl_in_set_zip1)
        from zip [OF e] obtain y where "y \<in> set rows'" "er_id y = i" "er_event y = e" by blast
        with uniq x have "e = er_event x" by auto
        with e x(3) False show ?thesis by (auto simp: fts' intro!: rev_image_eqI [of "(i, e)"])
      qed
    qed
  qed
  show ?thesis using dist iff by blast
qed

lemma ingest_new_effect:
  assumes inv: "catalog_inv H D ct" and inj: "inj_on H D" and docs: "session_docs s \<subseteq> D"
    and dist: "distinct (map ev_id (ses_events s))"
  obtains ids ct' where "ingest_new H s ct = Inr ct'"
    "ct' = ct\<lparr>ct_evidence := insert_all H (ses_id s) (ses_events s) (ct_evidence ct),
       ct_active := ct_active ct', ct_fts := ct_fts ct',
       ct_revisions := ct_revisions ct @ [revision_row_of (session_revision H s) s ids],
       ct_heads := AList.update (ses_id s) (session_revision H s) (ct_heads ct), ct_aliases := ct_aliases ct'\<rparr>"
    "rows_for (ct_evidence ct') (ses_id s) ids (ses_events s)" "distinct ids"
    "\<forall>x. active_rows ct' x = (if x = ses_id s then ids else active_rows ct x)" "fts_inv ct'"
proof -
  let ?sid = "ses_id s" and ?es = "ses_events s"
  let ?P = "set (active_rows ct ?sid)"
  let ?ct0 = "ct\<lparr>ct_active := AList.delete ?sid (ct_active ct)\<rparr>"
  let ?rows = "insert_all H ?sid ?es (ct_evidence ct)"
  let ?ids = "ids_of H ?sid ?es ?rows"
  have ev: "evidence_inv H D (ct_evidence ct)" and fts: "fts_inv ct"
    using inv by (simp_all add: catalog_inv_def)
  have eds: "event_doc ?sid ` set ?es \<subseteq> D" using docs by (simp add: session_docs_def)
  have ev': "evidence_inv H D ?rows" by (rule insert_all_inv [OF ev eds])
  obtain new where grow: "?rows = ct_evidence ct @ new" using insert_all_grows by blast
  have rows: "rows_for ?rows ?sid ?ids ?es"
    by (rule ids_of_rows [OF ev' inj eds]) (use insert_all_has in blast)
  have "distinct ?es" using dist by (simp add: distinct_map)
  then have ids: "distinct ?ids" by (rule rows_for_distinct [OF ev' rows])
  have act: "\<forall>sid i. i \<in> set (active_rows ct sid) \<longrightarrow> (\<exists>x \<in> set (ct_evidence ct). er_id x = i \<and> er_session x = sid)"
    using catalog_active_rows [OF inv] by blast
  have fresh: "i \<in> ?P \<or> i \<notin> fst ` set (ct_fts ct)" if i: "i \<in> set ?ids" for i
  proof (rule disjCI)
    assume "\<not> i \<notin> fst ` set (ct_fts ct)"
    then obtain x where x: "x \<in> set (ct_evidence ct)" "er_id x = i" "i \<in> set (active_rows ct (er_session x))"
      using fts by (auto simp: fts_inv_def)
    obtain y where "y \<in> set ?rows" "er_id y = i" "er_session y = ?sid" using rows_for_mem [OF rows i] by blast
    moreover from this have "x = y" using er_id_unique [OF ev', of x y] x grow by simp
    ultimately show "i \<in> ?P" using x by simp
  qed
  obtain res where res: "ingest_events H ?sid ?P ?es ?ct0 = Inr res"
    using ingest_events_returns [of H ?sid ?es ?ct0 ?P] ids fresh by auto
  obtain ids' ct1 where run: "ingest_events H ?sid ?P ?es ?ct0 = Inr (ids', ct1)"
    using res by (cases res) auto
  note eff = ingest_events_effect [OF run]
  have ids': "ids' = ?ids" using eff by simp
  have act0: "active_rows ?ct0 x = (if x = ?sid then [] else active_rows ct x)" for x
    by (simp add: active_rows_def delete_conv')
  have act1: "\<forall>x. active_rows ct1 x = (if x = ?sid then ?ids else active_rows ct x)"
    using eff act0 ids' by simp
  obtain A where A: "A = ct_active ct1" by blast
  have "ct1 = ?ct0\<lparr>ct_evidence := ?rows, ct_active := ct_active ct1,
      ct_fts := ct_fts ct @ map (\<lambda>(i, e). (i, ev_text e)) (filter (\<lambda>(i, e). i \<notin> ?P) (zip ?ids ?es))\<rparr>"
    using eff [THEN conjunct2, THEN conjunct1] ids' by simp
  from this [folded A] have ct1: "ct1 = ct\<lparr>ct_evidence := ?rows, ct_active := A,
      ct_fts := ct_fts ct @ map (\<lambda>(i, e). (i, ev_text e)) (filter (\<lambda>(i, e). i \<notin> ?P) (zip ?ids ?es))\<rparr>"
    by simp
  let ?fts = "filter (\<lambda>it. fst it \<notin> ?P - set ?ids) (ct_fts ct @ map (\<lambda>(i, e). (i, ev_text e))
      (filter (\<lambda>(i, e). i \<notin> ?P) (zip ?ids ?es)))"
  define aliases where "aliases = (if needs_alias (head_row ct ?sid) s then insert_alias
      \<lparr>al_session = ?sid, al_project = ses_project s, al_alias = rr_project (the (head_row ct ?sid)),
       al_legacy = rr_revision (the (head_row ct ?sid)), al_native = session_revision H s\<rparr> (ct_aliases ct)
      else ct_aliases ct)"
  define ct' where "ct' = ct\<lparr>ct_evidence := ?rows, ct_active := A, ct_fts := ?fts,
      ct_revisions := ct_revisions ct @ [revision_row_of (session_revision H s) s ?ids],
      ct_heads := AList.update ?sid (session_revision H s) (ct_heads ct), ct_aliases := aliases\<rparr>"
  have "ingest_new H s ct = Inr ct'"
    by (simp add: ingest_new_def run Let_def ids' ct'_def aliases_def) (simp add: ct1)
  moreover have act': "\<forall>x. active_rows ct' x = (if x = ?sid then ?ids else active_rows ct x)"
    using act1 by (simp add: active_rows_def ct'_def ct1)
  moreover have "fts_inv ct'"
    using fts replace_fts [OF ev' grow _ _ act rows ids refl act', of "ct_fts ct"]
    by (simp add: fts_inv_def ct'_def active_rows_def)
  ultimately show thesis
    using rows ids by (intro that [of ct' ?ids]) (simp_all add: ct'_def)
qed

lemma find_revision_append:
  assumes "ct_revisions ct' = ct_revisions ct @ [x]"
  shows "find_revision ct' a b = (case find_revision ct a b of
    None \<Rightarrow> if rr_session x = a \<and> rr_revision x = b then Some x else None | Some y \<Rightarrow> Some y)"
  by (simp add: find_revision_def assms find_append split: option.split)

lemma revision_of_append: "revision_of H D rows s r \<Longrightarrow> revision_of H D (rows @ new) s r"
  by (auto simp: revision_of_def intro: rows_for_append)

lemma revision_row_keys [simp]:
  "rr_session (revision_row_of rv s ids) = ses_id s" "rr_revision (revision_row_of rv s ids) = rv"
  "rr_map (revision_row_of rv s ids) = ids"
  by (simp_all add: revision_row_of_def)

lemma find_revision_None: "find_revision ct a b = None \<longleftrightarrow> (\<forall>r \<in> set (ct_revisions ct). (rr_session r, rr_revision r) \<noteq> (a, b))"
  by (auto simp: find_revision_def find_None_iff)

lemma ingest_new_inv:
  assumes inv: "catalog_inv H D ct" and inj: "inj_on H D" and docs: "session_docs s \<subseteq> D"
    and dist: "distinct (map ev_id (ses_events s))"
    and new: "find_revision ct (ses_id s) (session_revision H s) = None"
  obtains ids ct' where "ingest_new H s ct = Inr ct'" "catalog_inv H D ct'"
    "ct' = ct\<lparr>ct_evidence := insert_all H (ses_id s) (ses_events s) (ct_evidence ct),
       ct_active := ct_active ct', ct_fts := ct_fts ct',
       ct_revisions := ct_revisions ct @ [revision_row_of (session_revision H s) s ids],
       ct_heads := AList.update (ses_id s) (session_revision H s) (ct_heads ct), ct_aliases := ct_aliases ct'\<rparr>"
    "revision_of H D (ct_evidence ct') s (revision_row_of (session_revision H s) s ids)"
proof (rule ingest_new_effect [OF inv inj docs dist])
  fix ids ct'
  let ?rv = "session_revision H s" and ?row = "revision_row_of (session_revision H s) s ids"
  assume run: "ingest_new H s ct = Inr ct'"
    and eq: "ct' = ct\<lparr>ct_evidence := insert_all H (ses_id s) (ses_events s) (ct_evidence ct),
       ct_active := ct_active ct', ct_fts := ct_fts ct',
       ct_revisions := ct_revisions ct @ [?row],
       ct_heads := AList.update (ses_id s) ?rv (ct_heads ct), ct_aliases := ct_aliases ct'\<rparr>"
    and rows: "rows_for (ct_evidence ct') (ses_id s) ids (ses_events s)" and ids: "distinct ids"
    and act: "\<forall>x. active_rows ct' x = (if x = ses_id s then ids else active_rows ct x)" and fts: "fts_inv ct'"
  have ev': "ct_evidence ct' = insert_all H (ses_id s) (ses_events s) (ct_evidence ct)"
    and rev': "ct_revisions ct' = ct_revisions ct @ [?row]"
    and heads': "ct_heads ct' = AList.update (ses_id s) ?rv (ct_heads ct)"
    by (subst eq, simp)+
  obtain more where grow: "ct_evidence ct' = ct_evidence ct @ more"
    using insert_all_grows ev' by metis
  have "evidence_inv H D (ct_evidence ct')"
    unfolding ev' using inv docs by (intro insert_all_inv) (auto simp: catalog_inv_def session_docs_def)
  moreover have "distinct (map (\<lambda>r. (rr_session r, rr_revision r)) (ct_revisions ct'))"
    using inv new by (auto simp: rev' catalog_inv_def find_revision_None)
  moreover have row: "revision_of H D (ct_evidence ct') s ?row"
    using rows ids docs by (simp add: revision_of_def session_docs_def)
  moreover have "\<forall>r \<in> set (ct_revisions ct'). \<exists>s. revision_of H D (ct_evidence ct') s r"
    using inv row revision_of_append unfolding grow rev' catalog_inv_def by fastforce
  moreover have head: "head_of ct' x = (if x = ses_id s then Some ?rv else head_of ct x)" for x
    by (simp add: head_of_def heads' update_conv')
  moreover have found: "find_revision ct' a b = (case find_revision ct a b of
      None \<Rightarrow> if ses_id s = a \<and> ?rv = b then Some ?row else None | Some y \<Rightarrow> Some y)" for a b
    by (auto simp: find_revision_append [OF rev'] split: option.split)
  moreover have "\<forall>sid rv. head_of ct' sid = Some rv \<longrightarrow> find_revision ct' sid rv \<noteq> None"
  proof (intro allI impI)
    fix a b assume b: "head_of ct' a = Some b"
    show "find_revision ct' a b \<noteq> None"
    proof (cases "a = ses_id s")
      case True
      with b show ?thesis by (simp add: head found split: option.split)
    next
      case False
      then have "find_revision ct a b \<noteq> None"
        using b inv unfolding head catalog_inv_def by simp
      then show ?thesis by (auto simp: found)
    qed
  qed
  moreover have "active_rows ct' x = (case head_row ct' x of None \<Rightarrow> [] | Some r \<Rightarrow> rr_map r)" for x
  proof (cases "x = ses_id s")
    case True
    then show ?thesis using act new by (simp add: head_row_def head found)
  next
    case False
    then have "head_row ct' x = head_row ct x"
      by (cases "head_of ct x") (auto simp: head_row_def head found split: option.splits)
    with False act inv show ?thesis by (simp add: catalog_inv_def)
  qed
  ultimately have "catalog_inv H D ct'"
    using fts by (simp add: catalog_inv_def)
  then show thesis by (rule that [OF run _ eq row])
qed

section \<open>Reading events\<close>

lemma concat_batches: "0 < n \<Longrightarrow> concat (batches n xs) = xs"
  by (induction n xs rule: batches.induct) (subst batches.simps, simp)

text \<open>Filling a dictionary from pairs that agree with a function.\<close>

definition graph_of :: "('k \<Rightarrow> 'v) \<Rightarrow> 'k set \<Rightarrow> ('k \<times> 'v) list \<Rightarrow> bool" where
  "graph_of f K d \<longleftrightarrow> distinct (map fst d) \<and> fst ` set d = K \<and> (\<forall>kv \<in> set d. snd kv = f (fst kv))"

lemma graph_of_update: "graph_of f K d \<Longrightarrow> graph_of f (insert k K) (AList.update k (f k) d)"
proof -
  assume d: "graph_of f K d"
  have keys: "fst ` set (AList.update k (f k) d) = insert k (fst ` set d)"
    using dom_update [of k "f k" d] by (simp add: dom_map_of_conv_image_fst)
  have vals: "\<forall>kv \<in> set d. snd kv = f (fst kv) \<Longrightarrow> \<forall>kv \<in> set (AList.update k (f k) d). snd kv = f (fst kv)" for d
    by (induction d) auto
  show ?thesis
    using d keys vals [of d] distinct_update [of d k "f k"] unfolding graph_of_def by blast
qed

lemma graph_of_foldl:
  "graph_of f K d \<Longrightarrow> \<forall>kv \<in> set kvs. snd kv = f (fst kv) \<Longrightarrow>
     graph_of f (K \<union> fst ` set kvs) (foldl (\<lambda>d (k, v). AList.update k v d) d kvs)"
proof (induction kvs arbitrary: K d)
  case (Cons kv kvs)
  then have "graph_of f (insert (fst kv) K) (AList.update (fst kv) (snd kv) d)"
    by (simp add: graph_of_update)
  from Cons.IH [OF this] Cons.prems(2) show ?case by (simp add: case_prod_unfold)
qed simp

definition event_at :: "catalog \<Rightarrow> nat \<Rightarrow> event" where
  "event_at ct i = er_event (the (evidence_by_id ct i))"

lemma event_at_row:
  assumes "evidence_inv H D (ct_evidence ct)" "x \<in> set (ct_evidence ct)"
  shows "event_at ct (er_id x) = er_event x"
proof -
  have "distinct (map er_id (ct_evidence ct))" using assms(1) by (simp add: evidence_inv_def)
  from find_unique [OF this assms(2)] show ?thesis by (simp add: event_at_def evidence_by_id_def)
qed

lemma fetch_events_graph:
  assumes inv: "evidence_inv H D (ct_evidence ct)" and ids: "set ids \<subseteq> er_id ` set (ct_evidence ct)"
  shows "graph_of (event_at ct) (set ids) (fetch_events ct ids)"
proof -
  have batch: "\<forall>kv \<in> set (fetch_batch ct b). snd kv = event_at ct (fst kv)"
    "fst ` set (fetch_batch ct b) = set b \<inter> er_id ` set (ct_evidence ct)" for b
    using event_at_row [OF inv] by (auto simp: fetch_batch_def image_image)
  have step: "graph_of (event_at ct) (K \<union> (set b \<inter> er_id ` set (ct_evidence ct)))
      (foldl (\<lambda>d (k, v). AList.update k v d) d (fetch_batch ct b))" if "graph_of (event_at ct) K d" for K d b
    using graph_of_foldl [OF that batch(1)] by (simp add: batch(2))
  have "graph_of (event_at ct) (K \<union> (set (concat bs) \<inter> er_id ` set (ct_evidence ct)))
      (foldl (\<lambda>d b. foldl (\<lambda>d (k, v). AList.update k v d) d (fetch_batch ct b)) d bs)"
    if "graph_of (event_at ct) K d" for K d bs
    using that
  proof (induction bs arbitrary: K d)
    case (Cons b bs)
    from Cons.IH [OF step [OF Cons.prems, of b]] show ?case by (simp add: Int_Un_distrib2 Un_assoc)
  qed simp
  from this [of "{}" "[]" "batches batch_size ids"] show ?thesis
    using ids by (simp add: fetch_events_def graph_of_def concat_batches batch_size_def Int_absorb2)
qed

lemma read_events_rows:
  assumes inv: "evidence_inv H D (ct_evidence ct)" and rows: "rows_for (ct_evidence ct) sid ids es" and dist: "distinct ids"
  shows "read_events ct ids = Inr es"
proof -
  have "set ids \<subseteq> er_id ` set (ct_evidence ct)"
    using rows_for_mem [OF rows] by blast
  from fetch_events_graph [OF inv this] have d: "graph_of (event_at ct) (set ids) (fetch_events ct ids)" .
  have "length (fetch_events ct ids) = card (set (map fst (fetch_events ct ids)))"
    using d distinct_card [of "map fst (fetch_events ct ids)"] by (simp add: graph_of_def)
  then have len: "length (fetch_events ct ids) = length ids"
    using d dist by (simp add: graph_of_def distinct_card)
  have found: "map_of (fetch_events ct ids) i = Some (event_at ct i)" if "i \<in> set ids" for i
    using d that by (force simp: graph_of_def map_of_eq_Some_iff)
  have "list_all2 (\<lambda>i e. e = event_at ct i) ids es"
    using rows unfolding rows_for_def by (rule list_all2_mono) (use event_at_row [OF inv] in auto)
  then have "list_all2 (\<lambda>i e. i \<in> set ids \<and> e = event_at ct i) ids es"
    by (auto simp: list_all2_conv_all_nth)
  then show ?thesis
    unfolding read_events_def Let_def using len
    by (simp add: mapR_Inr_iff) (erule list_all2_mono, simp add: found)
qed

section \<open>The outcomes of an ingestion\<close>

lemma record_receipt_simps [simp]:
  "ct_evidence (record_receipt sid rv p q c w ct) = ct_evidence ct" "ct_revisions (record_receipt sid rv p q c w ct) = ct_revisions ct"
  "ct_heads (record_receipt sid rv p q c w ct) = ct_heads ct" "ct_active (record_receipt sid rv p q c w ct) = ct_active ct"
  "ct_fts (record_receipt sid rv p q c w ct) = ct_fts ct"
  "ct_receipts (record_receipt sid rv p q c w ct) = ct_receipts ct @ [((p, q), sid, rv)]"
  "ct_epoch (record_receipt sid rv p q c w ct) = Suc (ct_epoch ct)" "ct_readonly (record_receipt sid rv p q c w ct) = ct_readonly ct"
  by (simp_all add: record_receipt_def)

lemma same_tables:
  assumes "ct_evidence ct' = ct_evidence ct" "ct_revisions ct' = ct_revisions ct" "ct_heads ct' = ct_heads ct"
    "ct_active ct' = ct_active ct" "ct_fts ct' = ct_fts ct"
  shows "catalog_inv H D ct' = catalog_inv H D ct" "find_revision ct' = find_revision ct" "head_of ct' = head_of ct"
    "head_row ct' = head_row ct" "active_rows ct' = active_rows ct" "export_revision ct' = export_revision ct"
proof -
  show f: "find_revision ct' = find_revision ct" by (simp add: fun_eq_iff find_revision_def assms)
  show h: "head_of ct' = head_of ct" by (simp add: fun_eq_iff head_of_def assms)
  show r: "head_row ct' = head_row ct" by (simp add: fun_eq_iff head_row_def f h)
  show a: "active_rows ct' = active_rows ct" by (simp add: fun_eq_iff active_rows_def assms)
  show "catalog_inv H D ct' = catalog_inv H D ct"
    by (simp add: catalog_inv_def fts_inv_def f h r a assms)
  have "read_events ct' = read_events ct"
    by (simp add: fun_eq_iff read_events_def fetch_events_def fetch_batch_def assms)
  then show "export_revision ct' = export_revision ct"
    by (intro ext) (simp only: export_revision_def f)
qed

lemma ingest_outcomes:
  assumes "ingest H r s producer request checkpoint raw ct = (res, ct')"
  obtains (refused) e where "res = Inl e" "ct' = ct"
  | (repeated) "map_of (ct_receipts ct) (producer, request) = Some (ses_id s, session_revision H s)"
      "res = Inr \<lparr>ir_session = ses_id s, ir_revision = session_revision H s, ir_duplicate = True\<rparr>" "ct' = ct"
  | (known) "map_of (ct_receipts ct) (producer, request) = None" "find_revision ct (ses_id s) (session_revision H s) \<noteq> None"
      "res = Inr \<lparr>ir_session = ses_id s, ir_revision = session_revision H s, ir_duplicate = True\<rparr>"
      "ct' = record_receipt (ses_id s) (session_revision H s) producer request checkpoint raw ct"
  | (stored) ct1 where "map_of (ct_receipts ct) (producer, request) = None"
      "find_revision ct (ses_id s) (session_revision H s) = None" "ingest_new H s ct = Inr ct1"
      "res = Inr \<lparr>ir_session = ses_id s, ir_revision = session_revision H s, ir_duplicate = False\<rparr>"
      "ct' = record_receipt (ses_id s) (session_revision H s) producer request checkpoint raw ct1"
proof -
  show thesis
  proof (cases "ct_readonly ct \<or> producer = [] \<or> request = [] \<or> check_raw H r raw \<noteq> Inr ()")
    case True
    then have "(\<exists>e. res = Inl e) \<and> ct' = ct"
      using assms by (auto simp: ingest_def Let_def split: if_splits sum.splits)
    with refused show thesis by blast
  next
    case False
    show thesis
    proof (cases "map_of (ct_receipts ct) (producer, request)")
      case (Some prior)
      with False assms have "(if prior \<noteq> (ses_id s, session_revision H s)
          then (Inl (ValueError ''idempotency key reused for different content''), ct)
          else (Inr \<lparr>ir_session = ses_id s, ir_revision = session_revision H s, ir_duplicate = True\<rparr>, ct)) = (res, ct')"
        by (simp add: ingest_def Let_def)
      with Some refused repeated show thesis by (auto split: if_splits)
    next
      case None
      show thesis
      proof (cases "find_revision ct (ses_id s) (session_revision H s)")
        case (Some x)
        with None False assms known show thesis by (auto simp: ingest_def Let_def)
      next
        case absent: None
        show thesis
        proof (cases "ingest_new H s ct")
          case (Inl e)
          with None absent False assms have "res = Inl e \<and> ct' = ct" by (simp add: ingest_def Let_def)
          with refused show thesis by blast
        next
          case (Inr ct1)
          with None absent False assms
          have "res = Inr \<lparr>ir_session = ses_id s, ir_revision = session_revision H s, ir_duplicate = False\<rparr>
              \<and> ct' = record_receipt (ses_id s) (session_revision H s) producer request checkpoint raw ct1"
            by (auto simp: ingest_def Let_def)
          with None absent Inr stored show thesis by blast
        qed
      qed
    qed
  qed
qed

text \<open>The sessions that the constructors let through, with their documents in \<open>D\<close>.\<close>

definition session_fits :: "bytes set \<Rightarrow> session \<Rightarrow> bool" where
  "session_fits D s \<longleftrightarrow> session_docs s \<subseteq> D \<and> distinct (map ev_id (ses_events s))"

lemma ingest_inv:
  assumes "ingest H r s p q c w ct = (res, ct')" "catalog_inv H D ct" "inj_on H D" "session_fits D s"
  shows "catalog_inv H D ct'"
  using assms(1)
proof (cases rule: ingest_outcomes)
  case known
  have "catalog_inv H D ct' = catalog_inv H D ct" by (rule same_tables) (simp_all add: known)
  with assms(2) show ?thesis by simp
next
  case (stored ct1)
  have "catalog_inv H D ct' = catalog_inv H D ct1" by (rule same_tables) (simp_all add: stored)
  moreover have "catalog_inv H D ct1"
  proof -
    have "session_docs s \<subseteq> D" "distinct (map ev_id (ses_events s))"
      using assms(4) by (simp_all add: session_fits_def)
    then obtain ct2 where "ingest_new H s ct = Inr ct2" "catalog_inv H D ct2"
      using ingest_new_inv [OF assms(2,3) _ _ stored(2)] by metis
    with stored(3) show ?thesis by simp
  qed
  ultimately show ?thesis by simp
qed (use assms(2) in simp_all)

end
