(* ===== verification/Catalog_History.thy ===== *)
theory Catalog_History
  imports Catalog
begin

text \<open>
  What a history of ingestions keeps: nothing that was stored is lost or changed, an accepted
  session can always be exported again exactly as it was sent, a retry is answered
  from its receipt, and the references between the tables stay closed. A history is a list of
  requests that the catalog answers one after the other; the code serialises them by SQLite's
  write lock.
\<close>

section \<open>Histories\<close>

record ingest_request =
  rq_session :: session
  rq_producer :: pystr
  rq_key :: pystr
  rq_checkpoint :: "(pystr \<times> pystr) option"
  rq_raw :: "raw_ref option"
  rq_root :: data_root

definition ingest_one :: "(bytes \<Rightarrow> pystr) \<Rightarrow> ingest_request \<Rightarrow> (catalog, ingest_result) op" where
  "ingest_one H q = ingest H (rq_root q) (rq_session q) (rq_producer q) (rq_key q) (rq_checkpoint q) (rq_raw q)"

fun ingest_history :: "(bytes \<Rightarrow> pystr) \<Rightarrow> ingest_request list \<Rightarrow> catalog \<Rightarrow> ingest_result result list \<times> catalog" where
  "ingest_history H [] ct = ([], ct)"
| "ingest_history H (q # qs) ct =
     (let (res, ct') = ingest_one H q ct; (rest, ct'') = ingest_history H qs ct' in (res # rest, ct''))"

definition history_docs :: "ingest_request list \<Rightarrow> bytes set" where
  "history_docs qs = (\<Union>q \<in> set qs. session_docs (rq_session q))"

lemma ingest_history_length: "ingest_history H qs ct = (results, ct') \<Longrightarrow> length results = length qs"
  by (induction qs arbitrary: ct results) (auto split: prod.splits)

lemma ingest_history_append:
  "ingest_history H (qs @ rs) ct = (let (a, ct1) = ingest_history H qs ct; (b, ct2) = ingest_history H rs ct1 in (a @ b, ct2))"
  by (induction qs arbitrary: ct) (auto split: prod.splits)

section \<open>Tables only grow\<close>

definition catalog_grows :: "catalog \<Rightarrow> catalog \<Rightarrow> bool" where
  "catalog_grows ct ct' \<longleftrightarrow> (\<exists>es. ct_evidence ct' = ct_evidence ct @ es) \<and> (\<exists>rs. ct_revisions ct' = ct_revisions ct @ rs)
     \<and> (\<exists>cs. ct_receipts ct' = ct_receipts ct @ cs) \<and> ct_readonly ct' = ct_readonly ct"

lemma catalog_grows_refl [simp]: "catalog_grows ct ct"
  by (simp add: catalog_grows_def)

lemma catalog_grows_trans: "catalog_grows a b \<Longrightarrow> catalog_grows b c \<Longrightarrow> catalog_grows a c"
  by (auto simp: catalog_grows_def)

lemma ingest_new_tables:
  assumes "ingest_new H s ct = Inr ct'"
  shows "ct_evidence ct' = insert_all H (ses_id s) (ses_events s) (ct_evidence ct) \<and>
    (\<exists>ids. ct_revisions ct' = ct_revisions ct @ [revision_row_of (session_revision H s) s ids]) \<and>
    ct_heads ct' = AList.update (ses_id s) (session_revision H s) (ct_heads ct) \<and>
    ct_receipts ct' = ct_receipts ct \<and> ct_readonly ct' = ct_readonly ct \<and>
    ct_producers ct' = ct_producers ct \<and> ct_raw ct' = ct_raw ct \<and> ct_checkpoints ct' = ct_checkpoints ct"
proof -
  let ?ct0 = "ct\<lparr>ct_active := AList.delete (ses_id s) (ct_active ct)\<rparr>"
  obtain res where res: "ingest_events H (ses_id s) (set (active_rows ct (ses_id s))) (ses_events s) ?ct0 = Inr res"
    using assms by (auto simp: ingest_new_def Let_def bindR_Inr_iff)
  then obtain ids ct1 where run: "ingest_events H (ses_id s) (set (active_rows ct (ses_id s))) (ses_events s) ?ct0 = Inr (ids, ct1)"
    by (cases res) simp
  obtain A F where A: "A = ct_active ct1"
    and F: "F = ct_fts ct @ map (\<lambda>(i, e). (i, ev_text e)) (filter (\<lambda>(i, e). i \<notin> set (active_rows ct (ses_id s))) (zip ids (ses_events s)))"
    by blast
  have "ct1 = ?ct0\<lparr>ct_evidence := insert_all H (ses_id s) (ses_events s) (ct_evidence ct), ct_active := ct_active ct1,
      ct_fts := ct_fts ct @ map (\<lambda>(i, e). (i, ev_text e)) (filter (\<lambda>(i, e). i \<notin> set (active_rows ct (ses_id s))) (zip ids (ses_events s)))\<rparr>"
    using ingest_events_effect [OF run, THEN conjunct2, THEN conjunct1] by simp
  from this [folded A F] have ct1: "ct1 = ct\<lparr>ct_evidence := insert_all H (ses_id s) (ses_events s) (ct_evidence ct),
      ct_active := A, ct_fts := F\<rparr>"
    by simp
  obtain ct2 where ct2: "ct2 = ct1\<lparr>ct_fts := filter (\<lambda>it. fst it \<notin> set (active_rows ct (ses_id s)) - set ids) (ct_fts ct1),
      ct_revisions := ct_revisions ct1 @ [revision_row_of (session_revision H s) s ids],
      ct_heads := AList.update (ses_id s) (session_revision H s) (ct_heads ct1)\<rparr>" by blast
  have "ct' = ct2 \<or> (\<exists>al. ct' = ct2\<lparr>ct_aliases := al\<rparr>)"
    using assms by (auto simp: ingest_new_def run Let_def ct2 split: if_splits)
  moreover have "ct_evidence ct2 = insert_all H (ses_id s) (ses_events s) (ct_evidence ct)"
    "ct_revisions ct2 = ct_revisions ct @ [revision_row_of (session_revision H s) s ids]"
    "ct_heads ct2 = AList.update (ses_id s) (session_revision H s) (ct_heads ct)"
    "ct_receipts ct2 = ct_receipts ct" "ct_readonly ct2 = ct_readonly ct" "ct_producers ct2 = ct_producers ct"
    "ct_raw ct2 = ct_raw ct" "ct_checkpoints ct2 = ct_checkpoints ct"
    by (simp_all add: ct2 ct1)
  ultimately show ?thesis by auto
qed

lemma ingest_grows:
  assumes "ingest H r s p q c w ct = (res, ct')"
  shows "catalog_grows ct ct'"
  using assms
proof (cases rule: ingest_outcomes)
  case (stored ct1)
  obtain es where "insert_all H (ses_id s) (ses_events s) (ct_evidence ct) = ct_evidence ct @ es"
    using insert_all_grows by blast
  with ingest_new_tables [OF stored(3)] show ?thesis
    by (auto simp: stored catalog_grows_def)
qed (simp_all add: catalog_grows_def)

lemma ingest_history_grows: "ingest_history H qs ct = (results, ct') \<Longrightarrow> catalog_grows ct ct'"
proof (induction qs arbitrary: ct results)
  case (Cons q qs)
  obtain res ct1 where one: "ingest_one H q ct = (res, ct1)" by (cases "ingest_one H q ct")
  with Cons.prems obtain rest where "ingest_history H qs ct1 = (rest, ct')"
    by (auto split: prod.splits)
  from Cons.IH [OF this] ingest_grows [OF one [unfolded ingest_one_def]] show ?case
    by (blast intro: catalog_grows_trans)
qed simp

lemma grows_find_revision: "catalog_grows ct ct' \<Longrightarrow> find_revision ct a b = Some r \<Longrightarrow> find_revision ct' a b = Some r"
  by (auto simp: catalog_grows_def find_revision_def find_append)

lemma grows_receipt: "catalog_grows ct ct' \<Longrightarrow> map_of (ct_receipts ct) k = Some v \<Longrightarrow> map_of (ct_receipts ct') k = Some v"
  by (auto simp: catalog_grows_def)

lemma grows_revision_of:
  "catalog_grows ct ct' \<Longrightarrow> revision_of H D (ct_evidence ct) s r \<Longrightarrow> revision_of H D (ct_evidence ct') s r"
  by (auto simp: catalog_grows_def intro: revision_of_append)

section \<open>Exports\<close>

definition session_text_ok :: "session \<Rightarrow> bool" where
  "session_text_ok s \<longleftrightarrow> json_ok (JObj (session_dict s))"

lemma normal_export:
  "normal_json (export_json (revision_row_of rv s ids) (ses_events s)) = normal_json (JObj (session_dict s))"
  unfolding normal_session_dict by (simp add: export_json_def revision_row_of_def session_members_def lit_def)

lemma json_ok_export: "session_text_ok s \<Longrightarrow> json_ok (export_json (revision_row_of rv s ids) (ses_events s))"
  by (simp add: session_text_ok_def export_json_def revision_row_of_def session_dict_def)

lemma export_stored:
  assumes inv: "catalog_inv H D ct" and row: "find_revision ct sid rv = Some r"
    and of_s: "revision_of H D (ct_evidence ct) s r" and ok: "session_text_ok s"
  shows "export_revision ct sid rv = Inr (normal_json (JObj (session_dict s)))"
proof -
  have ev: "evidence_inv H D (ct_evidence ct)" using inv by (simp add: catalog_inv_def)
  have "rows_for (ct_evidence ct) (ses_id s) (rr_map r) (ses_events s)" "distinct (rr_map r)"
    using of_s by (simp_all add: revision_of_def)
  then have "read_events ct (rr_map r) = Inr (ses_events s)" by (rule read_events_rows [OF ev])
  moreover have "r = revision_row_of (session_revision H s) s (rr_map r)"
    using of_s by (simp add: revision_of_def)
  then have "export_json r (ses_events s) = export_json (revision_row_of (session_revision H s) s (rr_map r)) (ses_events s)"
    by simp
  then have "json_loads (encode_json (export_json r (ses_events s))) = Some (normal_json (JObj (session_dict s)))"
    using json_loads_encode [OF json_ok_export [OF ok]] normal_export by simp
  ultimately show ?thesis unfolding export_revision_def row by simp
qed

text \<open>A stored row with a session's keys is that session's row.\<close>

lemma revision_of_find:
  assumes inv: "catalog_inv H D ct" and inj: "inj_on H D" and doc: "session_doc s \<in> D"
    and row: "find_revision ct sid (session_revision H s) = Some r"
  shows "revision_of H D (ct_evidence ct) s r" "sid = ses_id s"
proof -
  have mem: "r \<in> set (ct_revisions ct)" "rr_session r = sid" "rr_revision r = session_revision H s"
    using find_Some_set [OF row [unfolded find_revision_def]] by simp_all
  then obtain t where t: "revision_of H D (ct_evidence ct) t r" using inv by (auto simp: catalog_inv_def)
  then have r: "r = revision_row_of (session_revision H t) t (rr_map r)" by (simp add: revision_of_def)
  have "rr_revision r = session_revision H t" "rr_session r = ses_id t" by (subst r, simp)+
  with mem(3) have "H (session_doc t) = H (session_doc s)"
    by (simp add: session_revision_def json_digest_def session_doc_def)
  moreover have "session_doc t \<in> D" using t by (simp add: revision_of_def)
  ultimately have "session_doc t = session_doc s" using inj doc by (simp add: inj_on_eq_iff)
  then have "t = s" by (simp add: session_doc_def encode_session_inject)
  with t \<open>rr_session r = ses_id t\<close> mem(2) show "revision_of H D (ct_evidence ct) s r" "sid = ses_id s" by simp_all
qed

section \<open>References between the tables\<close>

text \<open>
  The foreign keys of the schema, and the two tables that have none: receipts and checkpoints.
\<close>

definition references_inv :: "catalog \<Rightarrow> bool" where
  "references_inv ct \<longleftrightarrow>
     (\<forall>(k, a, b) \<in> set (ct_receipts ct). find_revision ct a b \<noteq> None) \<and>
     (\<forall>(a, b, p) \<in> set (ct_producers ct). find_revision ct a b \<noteq> None) \<and>
     (\<forall>(path, f, a, b) \<in> set (ct_checkpoints ct). find_revision ct a b \<noteq> None) \<and>
     (\<forall>w \<in> set (ct_raw ct). find_revision ct (rw_session w) (rw_revision w) \<noteq> None) \<and>
     (\<forall>al \<in> set (ct_aliases ct). find_revision ct (al_session al) (al_legacy al) \<noteq> None
        \<and> find_revision ct (al_session al) (al_native al) \<noteq> None)"

lemma references_grow:
  assumes "references_inv ct" "\<And>a b. find_revision ct a b \<noteq> None \<Longrightarrow> find_revision ct1 a b \<noteq> None"
    "ct_receipts ct1 = ct_receipts ct" "ct_producers ct1 = ct_producers ct" "ct_checkpoints ct1 = ct_checkpoints ct"
    "ct_raw ct1 = ct_raw ct"
    "\<forall>al \<in> set (ct_aliases ct1). al \<in> set (ct_aliases ct) \<or> (find_revision ct1 (al_session al) (al_legacy al) \<noteq> None
        \<and> find_revision ct1 (al_session al) (al_native al) \<noteq> None)"
  shows "references_inv ct1"
proof -
  have "find_revision ct1 (al_session al) (al_legacy al) \<noteq> None \<and> find_revision ct1 (al_session al) (al_native al) \<noteq> None"
    if "al \<in> set (ct_aliases ct1)" for al
    using assms(1,2,7) that unfolding references_inv_def by blast
  then show ?thesis
    using assms(1) unfolding references_inv_def assms(3-6) by (auto simp del: not_None_eq intro!: assms(2))
qed

lemma update_subset: "set (AList.update k v d) \<subseteq> insert (k, v) (set d)"
  by (induction d) auto

lemma record_receipt_references:
  assumes "references_inv ct" "find_revision ct sid rv \<noteq> None"
  shows "references_inv (record_receipt sid rv p q c w ct)"
proof -
  let ?ct = "record_receipt sid rv p q c w ct"
  have f: "find_revision ?ct = find_revision ct" by (rule same_tables) simp_all
  have P: "set (ct_producers ?ct) \<subseteq> insert (sid, rv, p) (set (ct_producers ct))"
    by (auto simp: record_receipt_def insert_new_def)
  have C: "\<exists>path fp. set (ct_checkpoints ?ct) \<subseteq> insert (path, fp, sid, rv) (set (ct_checkpoints ct))"
    using update_subset by (fastforce simp: record_receipt_def split: option.split)
  have W: "\<forall>x \<in> set (ct_raw ?ct). x \<in> set (ct_raw ct) \<or> (rw_session x = sid \<and> rw_revision x = rv)"
    by (simp add: record_receipt_def insert_raw_def split: option.split)
  have A: "ct_aliases ?ct = ct_aliases ct" by (simp add: record_receipt_def)
  have "\<forall>(k, a, b) \<in> set (ct_receipts ?ct). find_revision ct a b \<noteq> None"
    using assms unfolding references_inv_def by auto
  moreover have "find_revision ct a b \<noteq> None" if "(a, b, x) \<in> set (ct_producers ?ct)" for a b x
  proof -
    have "(a, b, x) \<in> set (ct_producers ct) \<or> (a = sid \<and> b = rv)" using that P by blast
    with assms show ?thesis by (auto simp: references_inv_def simp del: not_None_eq)
  qed
  moreover have "find_revision ct a b \<noteq> None" if "(path, fp, a, b) \<in> set (ct_checkpoints ?ct)" for path fp a b
  proof -
    have "(path, fp, a, b) \<in> set (ct_checkpoints ct) \<or> (a = sid \<and> b = rv)" using that C by blast
    with assms show ?thesis by (auto simp: references_inv_def simp del: not_None_eq)
  qed
  moreover have "\<forall>w \<in> set (ct_raw ?ct). find_revision ct (rw_session w) (rw_revision w) \<noteq> None"
    using assms W unfolding references_inv_def by metis
  moreover have "\<forall>al \<in> set (ct_aliases ?ct). find_revision ct (al_session al) (al_legacy al) \<noteq> None
        \<and> find_revision ct (al_session al) (al_native al) \<noteq> None"
    using assms(1) unfolding references_inv_def A by blast
  ultimately show ?thesis unfolding references_inv_def f by blast
qed

lemma ingest_new_aliases:
  assumes "ingest_new H s ct = Inr ct'" "al \<in> set (ct_aliases ct')"
  shows "al \<in> set (ct_aliases ct) \<or> (al_session al = ses_id s \<and> al_native al = session_revision H s
    \<and> (\<exists>h. head_row ct (ses_id s) = Some h \<and> al_legacy al = rr_revision h))"
proof -
  obtain ids ct1 where run: "ingest_events H (ses_id s) (set (active_rows ct (ses_id s))) (ses_events s)
      (ct\<lparr>ct_active := AList.delete (ses_id s) (ct_active ct)\<rparr>) = Inr (ids, ct1)"
    using assms(1) by (auto simp: ingest_new_def Let_def bindR_Inr_iff)
  obtain A where A: "A = ct_active ct1" by blast
  note eff = ingest_events_effect [OF run, THEN conjunct2, THEN conjunct1, folded A]
  have "ct_aliases ct1 = ct_aliases ct" by (subst eff) simp
  then show ?thesis
    using assms by (cases "head_row ct (ses_id s)")
      (auto simp: ingest_new_def run Let_def insert_alias_def needs_alias_def split: if_splits)
qed

lemma ingest_references:
  assumes "ingest H r s p q c w ct = (res, ct')" "references_inv ct"
  shows "references_inv ct'"
  using assms(1)
proof (cases rule: ingest_outcomes)
  case known
  then show ?thesis using assms(2) by (simp add: record_receipt_references)
next
  case (stored ct1)
  note tabs = ingest_new_tables [OF stored(3)]
  obtain ids where revs: "ct_revisions ct1 = ct_revisions ct @ [revision_row_of (session_revision H s) s ids]"
    using tabs by blast
  have found: "find_revision ct1 a b \<noteq> None" if "find_revision ct a b \<noteq> None \<or> (a = ses_id s \<and> b = session_revision H s)" for a b
    using that by (auto simp: find_revision_append [OF revs] split: option.split)
  have "find_revision ct1 (al_session al) (al_legacy al) \<noteq> None \<and> find_revision ct1 (al_session al) (al_native al) \<noteq> None"
    if new: "al \<in> set (ct_aliases ct1)" "al \<notin> set (ct_aliases ct)" for al
  proof -
    from ingest_new_aliases [OF stored(3) new(1)] new(2) obtain h where
      h: "al_session al = ses_id s" "al_native al = session_revision H s" "head_row ct (ses_id s) = Some h" "al_legacy al = rr_revision h"
      by blast
    from h(3) obtain rv where rv: "find_revision ct (ses_id s) rv = Some h"
      by (auto simp: head_row_def bind_eq_Some_conv)
    then have "rr_revision h = rv" using find_Some_set by (fastforce simp: find_revision_def)
    then have "find_revision ct (ses_id s) (al_legacy al) \<noteq> None" using rv h(4) by simp
    then show ?thesis using h(1,2) found by simp
  qed
  then have "references_inv ct1"
    using tabs found by (intro references_grow [OF assms(2)]) auto
  then show ?thesis
    using found by (simp add: stored record_receipt_references)
qed (use assms(2) in simp_all)

section \<open>Histories keep the invariants\<close>

definition history_fits :: "bytes set \<Rightarrow> ingest_request list \<Rightarrow> bool" where
  "history_fits D qs \<longleftrightarrow> (\<forall>q \<in> set qs. session_fits D (rq_session q))"

lemma ingest_history_inv:
  assumes "ingest_history H qs ct = (results, ct')" "inj_on H D" "history_fits D qs" "catalog_inv H D ct" "references_inv ct"
  shows "catalog_inv H D ct' \<and> references_inv ct'"
  using assms
proof (induction qs arbitrary: ct results)
  case (Cons q qs)
  obtain res ct1 where one: "ingest_one H q ct = (res, ct1)" by (cases "ingest_one H q ct")
  with Cons.prems(1) obtain rest where rest: "ingest_history H qs ct1 = (rest, ct')"
    by (auto split: prod.splits)
  have "catalog_inv H D ct1" "references_inv ct1"
    using ingest_inv [OF one [unfolded ingest_one_def] Cons.prems(4,2)]
      ingest_references [OF one [unfolded ingest_one_def] Cons.prems(5)] Cons.prems(3)
    by (simp_all add: history_fits_def)
  with Cons.IH [OF rest Cons.prems(2)] Cons.prems(3) show ?case by (simp add: history_fits_def)
qed simp

lemma empty_catalog_inv [simp]: "catalog_inv H D (empty_catalog ident)" "references_inv (empty_catalog ident)"
  by (simp_all add: empty_catalog_def catalog_inv_def evidence_inv_def head_of_def active_rows_def head_row_def
      fts_inv_def references_inv_def)

lemma valid_history_fits:
  assumes "\<forall>q \<in> set qs. valid_session utc (rq_session q)"
  shows "history_fits (history_docs qs) qs"
  using assms by (auto simp: history_fits_def session_fits_def history_docs_def valid_session_def)

text \<open>An accepted request names a stored revision, and its session is the one of the request.\<close>

lemma ingest_accepted:
  assumes "ingest H r s p q c w ct = (Inr a, ct')" "references_inv ct"
  shows "ir_session a = ses_id s \<and> ir_revision a = session_revision H s
    \<and> find_revision ct' (ses_id s) (session_revision H s) \<noteq> None
    \<and> map_of (ct_receipts ct') (p, q) = Some (ses_id s, session_revision H s)"
  using assms(1)
proof (cases rule: ingest_outcomes)
  case repeated
  then have "((p, q), ses_id s, session_revision H s) \<in> set (ct_receipts ct)" by (simp add: map_of_SomeD)
  then have "find_revision ct (ses_id s) (session_revision H s) \<noteq> None"
    using assms(2) by (auto simp: references_inv_def)
  with repeated show ?thesis by simp
next
  case known
  have "find_revision ct' = find_revision ct" by (rule same_tables) (simp_all add: known)
  with known show ?thesis by (simp add: map_add_def)
next
  case (stored ct1)
  have "find_revision ct' = find_revision ct1" by (rule same_tables) (simp_all add: stored)
  moreover from ingest_new_tables [OF stored(3)] obtain ids where
    "ct_revisions ct1 = ct_revisions ct @ [revision_row_of (session_revision H s) s ids]" "ct_receipts ct1 = ct_receipts ct"
    by blast
  ultimately show ?thesis
    using stored by (auto simp: find_revision_append map_add_def split: option.split)
qed simp

section \<open>What a history guarantees\<close>

lemma ingest_history_accepted:
  assumes "ingest_history H qs ct = (results, ct')" "references_inv ct" "inj_on H D" "history_fits D qs" "catalog_inv H D ct"
    "(q, Inr a) \<in> set (zip qs results)"
  shows "ir_session a = ses_id (rq_session q) \<and> ir_revision a = session_revision H (rq_session q)
    \<and> find_revision ct' (ir_session a) (ir_revision a) \<noteq> None
    \<and> map_of (ct_receipts ct') (rq_producer q, rq_key q) = Some (ir_session a, ir_revision a)"
  using assms
proof (induction qs arbitrary: ct results)
  case (Cons q0 qs)
  obtain res ct1 where one: "ingest_one H q0 ct = (res, ct1)" by (cases "ingest_one H q0 ct")
  with Cons.prems(1) obtain rest where rest: "ingest_history H qs ct1 = (rest, ct')" "results = res # rest"
    by (auto split: prod.splits)
  note ing = one [unfolded ingest_one_def]
  have fits: "history_fits D qs" "session_fits D (rq_session q0)" using Cons.prems(4) by (simp_all add: history_fits_def)
  have inv1: "references_inv ct1" "catalog_inv H D ct1"
    using ingest_references [OF ing Cons.prems(2)] ingest_inv [OF ing Cons.prems(5,3) fits(2)] by simp_all
  from Cons.prems(6) rest(2) consider (here) "q = q0" "res = Inr a" | (later) "(q, Inr a) \<in> set (zip qs rest)" by auto
  then show ?case
  proof cases
    case here
    note acc = ingest_accepted [OF ing [unfolded here(2)] Cons.prems(2)]
    have grow: "catalog_grows ct1 ct'" by (rule ingest_history_grows [OF rest(1)])
    show ?thesis
      using acc grows_find_revision [OF grow] grows_receipt [OF grow] here(1) by auto
  next
    case later
    show ?thesis by (rule Cons.IH [OF rest(1) inv1(1) Cons.prems(3) fits(1) inv1(2) later])
  qed
qed simp

lemma history_export:
  assumes "ingest_history H qs (empty_catalog ident) = (results, ct)" "inj_on H (history_docs qs)"
    "\<forall>q \<in> set qs. valid_session utc (rq_session q) \<and> session_text_ok (rq_session q)"
    "(q, Inr a) \<in> set (zip qs results)"
  shows "ir_session a = ses_id (rq_session q) \<and> ir_revision a = session_revision H (rq_session q) \<and>
    export_revision ct (ir_session a) (ir_revision a) = Inr (normal_json (JObj (session_dict (rq_session q))))"
proof -
  have fits: "history_fits (history_docs qs) qs" using assms(3) by (intro valid_history_fits) blast
  have inv: "catalog_inv H (history_docs qs) ct"
    using ingest_history_inv [OF assms(1,2) fits] by simp
  note acc = ingest_history_accepted [OF assms(1) _ assms(2) fits _ assms(4), simplified]
  obtain r where r: "find_revision ct (ir_session a) (ir_revision a) = Some r" using acc by auto
  have q: "q \<in> set qs" using assms(4) by (rule set_zip_leftD)
  then have doc: "session_doc (rq_session q) \<in> history_docs qs" by (auto simp: history_docs_def session_docs_def)
  have "revision_of H (history_docs qs) (ct_evidence ct) (rq_session q) r"
    using revision_of_find(1) [OF inv assms(2) doc, of "ir_session a"] r acc by simp
  from export_stored [OF inv r this] acc assms(3) q show ?thesis by simp
qed

text \<open>
  C13: An acknowledged session is never lost or altered. Take any history of requests on a
  fresh catalog: uploads of any sessions by any producers, repeated, refused and conflicting
  ones included. If a request was answered without an error, then after the whole history the answer's
  revision still exports, and building a session from the export, as the snapshot reader and the
  server do, gives exactly the session of the request. The hash must not collide
  on the documents of the history.
\<close>

theorem acknowledged_session_is_kept:
  assumes "ingest_history H qs (empty_catalog ident) = (results, ct)" "inj_on H (history_docs qs)"
    "\<forall>q \<in> set qs. valid_session utc (rq_session q) \<and> session_text_ok (rq_session q)"
    "(q, Inr a) \<in> set (zip qs results)"
  shows "\<exists>v. export_revision ct (ir_session a) (ir_revision a) = Inr v \<and> session_of_json utc v = Inr (rq_session q)"
proof -
  have "valid_session utc (rq_session q)" using assms(3,4) by (auto dest: set_zip_leftD)
  from session_of_json_normal [OF this] history_export [OF assms] show ?thesis by blast
qed

text \<open>A small history: a session, a longer revision of it, and the first one again under a new key.\<close>

definition sample_session :: "pystr list \<Rightarrow> session" where
  "sample_session ts = \<lparr>ses_id = lit ''s'', ses_events = map (\<lambda>t. \<lparr>ev_id = t, ev_role = lit ''user'', ev_text = t,
     ev_time = [], ev_origin = lit ''user'', ev_kind = lit ''message''\<rparr>) ts, ses_source = lit ''codex'',
     ses_project = [], ses_title = [], ses_parent = None, ses_subagent = False, ses_parser = lit ''codex-v1''\<rparr>"

definition sample_request :: "pystr list \<Rightarrow> string \<Rightarrow> ingest_request" where
  "sample_request ts k = \<lparr>rq_session = sample_session ts, rq_producer = lit ''p'', rq_key = lit k, rq_checkpoint = None,
     rq_raw = None, rq_root = empty_root\<rparr>"

definition sample_history :: "ingest_request list" where
  "sample_history = [sample_request [lit ''a''] ''1'', sample_request [lit ''a'', lit ''b''] ''2'', sample_request [lit ''a''] ''3'']"

definition no_time :: "pystr \<Rightarrow> pystr result" where
  "no_time v = Inl (ValueError ''invalid timestamp'')"

lemma sample_session_valid: "distinct ts \<Longrightarrow> [] \<notin> set ts \<Longrightarrow> valid_session no_time (sample_session ts)"
  by (auto simp: valid_session_def sample_session_def valid_event_def event_roles_def normalize_time_def comp_def)

lemma sample_session_text: "list_all str_ok ts \<Longrightarrow> session_text_ok (sample_session ts)"
  by (auto simp: session_text_ok_def session_dict_def sample_session_def event_dict_def parent_json_def list_all_iff)

lemma sample_history_ok:
  "\<forall>q \<in> set sample_history. valid_session no_time (rq_session q) \<and> session_text_ok (rq_session q)"
  by (simp add: sample_history_def sample_request_def sample_session_valid sample_session_text)

text \<open>The identity is a hash without collisions.\<close>

lemma sample_first:
  "ingest_history id sample_history (empty_catalog []) = (results, ct) \<Longrightarrow>
     \<exists>a. (sample_request [lit ''a''] ''1'', Inr a) \<in> set (zip sample_history results)"
  by (auto simp: sample_history_def sample_request_def ingest_one_def ingest_def check_raw_def empty_catalog_def
      find_revision_def ingest_new_def head_row_def head_of_def active_rows_def sample_session_def insert_fts_def Let_def
      split: prod.splits)

lemma acknowledged_session_is_kept_witness:
  "\<exists>results ct (a :: ingest_result) v. ingest_history id sample_history (empty_catalog []) = (results, ct) \<and>
     export_revision ct (ir_session a) (ir_revision a) = Inr v \<and> session_of_json no_time v = Inr (sample_session [lit ''a''])"
proof -
  obtain results ct where run: "ingest_history id sample_history (empty_catalog []) = (results, ct)"
    by (cases "ingest_history id sample_history (empty_catalog [])")
  from sample_first [OF this] obtain a where "(sample_request [lit ''a''] ''1'', Inr a) \<in> set (zip sample_history results)" ..
  from acknowledged_session_is_kept [OF run inj_on_id sample_history_ok this] obtain v where
    "export_revision ct (ir_session a) (ir_revision a) = Inr v" "session_of_json no_time v = Inr (sample_session [lit ''a''])"
    by (auto simp: sample_request_def)
  with run show ?thesis by blast
qed

text \<open>
  C25: In every catalog that a history of requests leads to, the tables agree: evidence rows are
  unique per content, every stored revision lists existing rows with exactly its session's
  events in order, every head is stored, the active rows of a session are those of its head, the
  full-text index holds exactly the active rows, and receipts, producers, checkpoints,
  raw references and aliases name stored revisions only.
\<close>

theorem history_keeps_catalog_consistent:
  assumes "ingest_history H qs (empty_catalog ident) = (results, ct)" "inj_on H (history_docs qs)"
    "\<forall>q \<in> set qs. valid_session utc (rq_session q)"
  shows "catalog_inv H (history_docs qs) ct \<and> references_inv ct"
  using ingest_history_inv [OF assms(1,2) valid_history_fits [OF assms(3)]] by simp

lemma history_keeps_catalog_consistent_witness:
  "catalog_inv id (history_docs sample_history) (snd (ingest_history id sample_history (empty_catalog [])))
   \<and> references_inv (snd (ingest_history id sample_history (empty_catalog [])))"
  by (rule history_keeps_catalog_consistent [OF surjective_pairing inj_on_id])
    (use sample_history_ok in blast)

lemma ingest_receipt:
  assumes "ingest H r s p q c w ct = (Inr a, ct')"
  shows "map_of (ct_receipts ct') (p, q) = Some (ses_id s, session_revision H s) \<and> ct_readonly ct' = ct_readonly ct
    \<and> \<not> ct_readonly ct \<and> p \<noteq> [] \<and> q \<noteq> [] \<and> ir_session a = ses_id s \<and> ir_revision a = session_revision H s"
proof -
  have ok: "\<not> ct_readonly ct \<and> p \<noteq> [] \<and> q \<noteq> []"
    using assms by (auto simp: ingest_def Let_def split: if_splits)
  from assms show ?thesis
  proof (cases rule: ingest_outcomes)
    case (stored ct1)
    with ingest_new_tables [OF stored(3)] ok show ?thesis by (simp add: map_add_def)
  qed (use ok in \<open>simp_all add: map_add_def\<close>)
qed

text \<open>
  C22: A request is idempotent under its key, however many other requests the
  catalog answers in between. Sending the same content again under the same producer and
  key gives the first answer marked as a duplicate; sending any other revision under it is refused;
  neither changes the catalog. The raw evidence named by the retry must still verify.
\<close>

theorem retry_answered_from_receipt:
  assumes "ingest_one H q ct = (Inr a, ct1)" "ingest_history H qs ct1 = (results, ct2)"
    "rq_producer q' = rq_producer q" "rq_key q' = rq_key q" "check_raw H (rq_root q') (rq_raw q') = Inr ()"
  shows "ingest_one H q' ct2 =
    (if ses_id (rq_session q') = ses_id (rq_session q)
        \<and> session_revision H (rq_session q') = session_revision H (rq_session q)
     then Inr (a\<lparr>ir_duplicate := True\<rparr>)
     else Inl (ValueError ''idempotency key reused for different content''), ct2)"
proof -
  have first: "map_of (ct_receipts ct1) (rq_producer q, rq_key q) = Some (ses_id (rq_session q), session_revision H (rq_session q))"
    "\<not> ct_readonly ct1" "rq_producer q \<noteq> []" "rq_key q \<noteq> []"
    "ir_session a = ses_id (rq_session q)" "ir_revision a = session_revision H (rq_session q)"
    using ingest_receipt [OF assms(1) [unfolded ingest_one_def]] by simp_all
  have grow: "catalog_grows ct1 ct2" by (rule ingest_history_grows [OF assms(2)])
  then have "\<not> ct_readonly ct2" using first(2) by (simp add: catalog_grows_def)
  with grows_receipt [OF grow first(1)] first(3-6) show ?thesis
    by (cases a) (auto simp: ingest_one_def ingest_def assms(3-5) Let_def)
qed

lemma sample_accepted:
  "\<exists>a ct1. ingest_one id (sample_request [lit ''a''] ''1'') (empty_catalog []) = (Inr a, ct1)"
  by (auto simp: sample_request_def ingest_one_def ingest_def check_raw_def empty_catalog_def
      find_revision_def ingest_new_def head_row_def head_of_def active_rows_def sample_session_def insert_fts_def Let_def)

lemma retry_answered_from_receipt_witness:
  "\<exists>a ct1 results ct2. ingest_one id (sample_request [lit ''a''] ''1'') (empty_catalog []) = (Inr a, ct1)
     \<and> ingest_history id sample_history ct1 = (results, ct2)
     \<and> ingest_one id (sample_request [lit ''a''] ''1'') ct2 = (Inr (a\<lparr>ir_duplicate := True\<rparr>), ct2)"
proof -
  obtain a ct1 where one: "ingest_one id (sample_request [lit ''a''] ''1'') (empty_catalog []) = (Inr a, ct1)"
    using sample_accepted by blast
  obtain results ct2 where more: "ingest_history id sample_history ct1 = (results, ct2)"
    by (cases "ingest_history id sample_history ct1")
  have "check_raw id (rq_root (sample_request [lit ''a''] ''1'')) (rq_raw (sample_request [lit ''a''] ''1'')) = Inr ()"
    by (simp add: sample_request_def check_raw_def)
  from retry_answered_from_receipt [OF one more refl refl this] one more show ?thesis by simp
qed

text \<open>
  C26: A well-formed request is accepted. With a fresh key, on a writable catalog and with raw
  evidence that verifies or none, ingestion raises no database error; the answer names the
  session's revision and says whether it was stored before. A new revision becomes the head of its
  session; one that is already stored leaves the head where it is. No other session's head moves.
\<close>

theorem ingest_accepts_and_moves_head:
  assumes "catalog_inv H D ct" "inj_on H D" "session_fits D (rq_session q)"
    "\<not> ct_readonly ct" "rq_producer q \<noteq> []" "rq_key q \<noteq> []" "check_raw H (rq_root q) (rq_raw q) = Inr ()"
    "map_of (ct_receipts ct) (rq_producer q, rq_key q) = None"
  shows "let s = rq_session q; known = find_revision ct (ses_id s) (session_revision H s) \<noteq> None in
    \<exists>ct'. ingest_one H q ct = (Inr \<lparr>ir_session = ses_id s, ir_revision = session_revision H s, ir_duplicate = known\<rparr>, ct') \<and>
      (\<forall>sid. head_of ct' sid = (if sid = ses_id s \<and> \<not> known then Some (session_revision H s) else head_of ct sid))"
proof (cases "find_revision ct (ses_id (rq_session q)) (session_revision H (rq_session q))")
  case None
  let ?s = "rq_session q"
  have docs: "session_docs ?s \<subseteq> D" "distinct (map ev_id (ses_events ?s))"
    using assms(3) by (simp_all add: session_fits_def)
  obtain ct1 where new: "ingest_new H ?s ct = Inr ct1"
    using ingest_new_inv [OF assms(1,2) docs None] by metis
  have "ct_heads ct1 = AList.update (ses_id ?s) (session_revision H ?s) (ct_heads ct)"
    using ingest_new_tables [OF new] by simp
  then show ?thesis
    using assms(4-8) new None
    by (simp add: ingest_one_def ingest_def Let_def head_of_def update_conv')
next
  case (Some r)
  then show ?thesis
    using assms(4-8) by (simp add: ingest_one_def ingest_def Let_def head_of_def)
qed

lemma ingest_accepts_and_moves_head_witness:
  "let s = sample_session [lit ''a'', lit ''b''] in
   \<exists>ct'. ingest_one id (sample_request [lit ''a'', lit ''b''] ''2'') (empty_catalog []) =
       (Inr \<lparr>ir_session = ses_id s, ir_revision = session_revision id s, ir_duplicate = False\<rparr>, ct')
     \<and> head_of ct' (ses_id s) = Some (session_revision id s)"
proof -
  let ?q = "sample_request [lit ''a'', lit ''b''] ''2''"
  have fits: "session_fits UNIV (rq_session ?q)"
    by (simp add: session_fits_def sample_request_def sample_session_def)
  have "\<not> ct_readonly (empty_catalog [])" "rq_producer ?q \<noteq> []" "rq_key ?q \<noteq> []"
    "check_raw id (rq_root ?q) (rq_raw ?q) = Inr ()" "map_of (ct_receipts (empty_catalog [])) (rq_producer ?q, rq_key ?q) = None"
    by (simp_all add: sample_request_def check_raw_def empty_catalog_def)
  from ingest_accepts_and_moves_head [OF empty_catalog_inv(1) inj_on_id fits this] show ?thesis
    by (auto simp: Let_def sample_request_def empty_catalog_def find_revision_def)
qed

section \<open>The search index\<close>

lemma ingest_history_rows:
  assumes "ingest_history H qs ct = (results, ct')" "r \<in> set (ct_revisions ct')"
  shows "r \<in> set (ct_revisions ct) \<or>
    (\<exists>q \<in> set qs. rr_session r = ses_id (rq_session q) \<and> rr_revision r = session_revision H (rq_session q))"
  using assms
proof (induction qs arbitrary: ct results)
  case (Cons q qs)
  obtain res ct1 where one: "ingest_one H q ct = (res, ct1)" by (cases "ingest_one H q ct")
  with Cons.prems(1) obtain rest where rest: "ingest_history H qs ct1 = (rest, ct')"
    by (auto split: prod.splits)
  have "x \<in> set (ct_revisions ct) \<or> (rr_session x = ses_id (rq_session q) \<and> rr_revision x = session_revision H (rq_session q))"
    if "x \<in> set (ct_revisions ct1)" for x
    using one [unfolded ingest_one_def]
  proof (cases rule: ingest_outcomes)
    case (stored ct2)
    with ingest_new_tables [OF stored(3)] that show ?thesis by auto
  qed (use that in simp_all)
  with Cons.IH [OF rest Cons.prems(2)] show ?case by auto
qed simp

lemma rows_for_event:
  assumes "rows_for rows sid ids es" "e \<in> set es"
  shows "\<exists>i \<in> set ids. \<exists>x \<in> set rows. er_id x = i \<and> er_session x = sid \<and> er_event x = e"
proof -
  have len: "length ids = length es" using assms(1) by (simp add: rows_for_def list_all2_lengthD)
  with assms(2) obtain i where "(i, e) \<in> set (zip ids es)" by (metis in_set_impl_in_set_zip2)
  with rows_for_zip [OF assms(1) this] show ?thesis by (blast dest: set_zip_leftD)
qed

lemma rows_for_id:
  assumes "rows_for rows sid ids es" "i \<in> set ids"
  shows "\<exists>e \<in> set es. \<exists>x \<in> set rows. er_id x = i \<and> er_session x = sid \<and> er_event x = e"
proof -
  have len: "length ids = length es" using assms(1) by (simp add: rows_for_def list_all2_lengthD)
  with assms(2) obtain e where "(i, e) \<in> set (zip ids es)" by (metis in_set_impl_in_set_zip1)
  with rows_for_zip [OF assms(1) this] show ?thesis by (blast dest: set_zip_rightD)
qed

lemma head_row_session:
  assumes "catalog_inv H D ct" "inj_on H D" "session_doc s \<in> D" "head_of ct (ses_id s) = Some (session_revision H s)"
  obtains r where "head_row ct (ses_id s) = Some r" "revision_of H D (ct_evidence ct) s r"
proof -
  obtain r where r: "find_revision ct (ses_id s) (session_revision H s) = Some r"
    using assms(1,4) unfolding catalog_inv_def by blast
  from revision_of_find(1) [OF assms(1-3) r] r assms(4) show thesis
    by (intro that [of r]) (simp_all add: head_row_def)
qed

text \<open>
  C24: Keyword search sees the heads and nothing else. After any history the full-text index
  contains a text exactly when it is the text of an event of some session whose uploaded revision
  is that session's head; texts that only superseded revisions have are gone from the index.
\<close>

theorem search_index_is_the_heads:
  assumes "ingest_history H qs (empty_catalog ident) = (results, ct)" "inj_on H (history_docs qs)"
    "\<forall>q \<in> set qs. valid_session utc (rq_session q)"
  shows "t \<in> snd ` set (ct_fts ct) \<longleftrightarrow> (\<exists>q \<in> set qs. head_of ct (ses_id (rq_session q)) = Some (session_revision H (rq_session q))
    \<and> t \<in> ev_text ` set (ses_events (rq_session q)))"
proof -
  let ?D = "history_docs qs"
  have inv: "catalog_inv H ?D ct" using ingest_history_inv [OF assms(1,2) valid_history_fits [OF assms(3)]] by simp
  then have fts: "\<And>i t. (i, t) \<in> set (ct_fts ct) \<longleftrightarrow> (\<exists>x \<in> set (ct_evidence ct). er_id x = i \<and> ev_text (er_event x) = t
      \<and> i \<in> set (active_rows ct (er_session x)))"
    and act: "\<And>sid. active_rows ct sid = (case head_row ct sid of None \<Rightarrow> [] | Some r \<Rightarrow> rr_map r)"
    and ev: "evidence_inv H ?D (ct_evidence ct)"
    by (simp_all add: catalog_inv_def fts_inv_def)
  have doc: "session_doc (rq_session q) \<in> ?D" if "q \<in> set qs" for q
    using that by (auto simp: history_docs_def session_docs_def)
  show ?thesis
  proof
    assume "t \<in> snd ` set (ct_fts ct)"
    then obtain x where x: "x \<in> set (ct_evidence ct)" "ev_text (er_event x) = t" "er_id x \<in> set (active_rows ct (er_session x))"
      using fts by auto
    then obtain h where h: "head_row ct (er_session x) = Some h" "er_id x \<in> set (rr_map h)"
      by (cases "head_row ct (er_session x)") (auto simp: act)
    then obtain rv where rv: "head_of ct (er_session x) = Some rv" "find_revision ct (er_session x) rv = Some h"
      by (auto simp: head_row_def bind_eq_Some_conv)
    from find_Some_set [OF rv(2) [unfolded find_revision_def]] have
      mem: "h \<in> set (ct_revisions ct)" "rr_session h = er_session x" "rr_revision h = rv" by simp_all
    from ingest_history_rows [OF assms(1) mem(1)] mem obtain q where
      q: "q \<in> set qs" "er_session x = ses_id (rq_session q)" "rv = session_revision H (rq_session q)"
      by (auto simp: empty_catalog_def)
    have "revision_of H ?D (ct_evidence ct) (rq_session q) h"
      using revision_of_find(1) [OF inv assms(2) doc [OF q(1)], of "er_session x"] rv(2) q(3) by simp
    then have "rows_for (ct_evidence ct) (ses_id (rq_session q)) (rr_map h) (ses_events (rq_session q))" by (simp add: revision_of_def)
    then obtain y e where "y \<in> set (ct_evidence ct)" "er_id y = er_id x" "er_event y = e" "e \<in> set (ses_events (rq_session q))"
      using rows_for_id [OF _ h(2)] by blast
    moreover from this have "y = x" using er_id_unique [OF ev, of y x] x(1) by simp
    ultimately show "\<exists>q \<in> set qs. head_of ct (ses_id (rq_session q)) = Some (session_revision H (rq_session q))
        \<and> t \<in> ev_text ` set (ses_events (rq_session q))"
      using q rv(1) x(2) by (intro bexI [of _ q]) auto
  next
    assume "\<exists>q \<in> set qs. head_of ct (ses_id (rq_session q)) = Some (session_revision H (rq_session q))
        \<and> t \<in> ev_text ` set (ses_events (rq_session q))"
    then obtain q e where q: "q \<in> set qs" "head_of ct (ses_id (rq_session q)) = Some (session_revision H (rq_session q))"
      and e: "e \<in> set (ses_events (rq_session q))" "t = ev_text e" by blast
    obtain h where h: "head_row ct (ses_id (rq_session q)) = Some h" "revision_of H ?D (ct_evidence ct) (rq_session q) h"
      using head_row_session [OF inv assms(2) doc [OF q(1)] q(2)] by blast
    then have "rows_for (ct_evidence ct) (ses_id (rq_session q)) (rr_map h) (ses_events (rq_session q))" by (simp add: revision_of_def)
    then obtain i x where "i \<in> set (rr_map h)" "x \<in> set (ct_evidence ct)" "er_id x = i" "er_session x = ses_id (rq_session q)" "er_event x = e"
      using rows_for_event [OF _ e(1)] by blast
    then have "(i, t) \<in> set (ct_fts ct)"
      unfolding fts using h(1) e(2) by (intro bexI [of _ x]) (simp_all add: act)
    then show "t \<in> snd ` set (ct_fts ct)" by force
  qed
qed

lemma search_index_is_the_heads_witness:
  "lit ''zz'' \<notin> snd ` set (ct_fts (snd (ingest_history id sample_history (empty_catalog []))))"
  using search_index_is_the_heads [OF surjective_pairing inj_on_id, of sample_history no_time "lit ''zz''" "[]"] sample_history_ok
  by (auto simp: sample_history_def sample_request_def sample_session_def)

end
