(* ===== verification/Interp.thy ===== *)
theory Interp
  imports Records
begin

text \<open>
  What the parsers use of Python's string type, and the parts of the interpreter that are data or
  foreign code: JSON decoding, the text of a container, the Unicode database, HTML entities, UUID
  syntax. They are the fields of \<open>interp\<close>, an argument of the definitions that need them.
\<close>

section \<open>The interpreter\<close>

text \<open>
  \<open>py_loads\<close> is \<open>json.loads\<close> of a text (\<open>None\<close>: it raises \<open>JSONDecodeError\<close>), \<open>py_repr\<close> the
  \<open>str()\<close> of a list or dictionary, \<open>py_cases\<close> the other characters that a case-insensitive
  pattern takes for a character, \<open>py_alnum\<close> and \<open>py_digit\<close> the classes of the Unicode
  database, \<open>py_casefold\<close> and \<open>py_unescape\<close> \<open>str.casefold\<close> and \<open>html.unescape\<close>, \<open>py_uuid\<close>
  the number that \<open>uuid.UUID(text)\<close> holds, if the text is one, and \<open>py_number\<close> the value of a
  numeric token. A number that is not an integer is whatever value these give for it; the
  parsers only print it.
\<close>

record interp =
  py_loads :: "pystr \<Rightarrow> json option"
  py_repr :: "json \<Rightarrow> pystr"
  py_cases :: "nat \<Rightarrow> nat list"
  py_alnum :: "nat \<Rightarrow> bool"
  py_digit :: "nat \<Rightarrow> bool"
  py_casefold :: "pystr \<Rightarrow> pystr"
  py_unescape :: "pystr \<Rightarrow> pystr"
  py_uuid :: "pystr \<Rightarrow> nat option"
  py_number :: "pystr \<Rightarrow> json"

text \<open>\<open>str(value)\<close>.\<close>

definition py_str :: "interp \<Rightarrow> json \<Rightarrow> pystr" where
  "py_str ip v = (case v of
       JStr s \<Rightarrow> s
     | JNull \<Rightarrow> lit ''None''
     | JBool b \<Rightarrow> lit (if b then ''True'' else ''False'')
     | JInt i \<Rightarrow> show_int i
     | _ \<Rightarrow> py_repr ip v)"

text \<open>\<open>v or w\<close>, \<open>d.get(key)\<close> and \<open>d.get(key, default)\<close> on decoded values.\<close>

definition or_else :: "json \<Rightarrow> json \<Rightarrow> json" where
  "or_else v w = (if truthy v then v else w)"

definition get_or :: "(pystr \<times> json) list \<Rightarrow> string \<Rightarrow> json \<Rightarrow> json" where
  "get_or kvs k d = (case jget kvs k of None \<Rightarrow> d | Some v \<Rightarrow> v)"

abbreviation get :: "(pystr \<times> json) list \<Rightarrow> string \<Rightarrow> json" where
  "get kvs k \<equiv> get_or kvs k JNull"

text \<open>\<open>str(value or "")\<close>.\<close>

definition text_of :: "interp \<Rightarrow> json \<Rightarrow> pystr" where
  "text_of ip v = (if truthy v then py_str ip v else [])"

section \<open>Strings\<close>

definition starts_with :: "pystr \<Rightarrow> pystr \<Rightarrow> bool" where
  "starts_with s p \<longleftrightarrow> take (length p) s = p"

text \<open>\<open>s.find(p)\<close> as the text before the first occurrence and the text after it.\<close>

fun break_at :: "pystr \<Rightarrow> pystr \<Rightarrow> (pystr \<times> pystr) option" where
  "break_at p s = (if starts_with s p then Some ([], drop (length p) s) else (case s of
       [] \<Rightarrow> None
     | c # t \<Rightarrow> map_option (\<lambda>(a, b). (c # a, b)) (break_at p t)))"

declare break_at.simps [simp del]

definition contains :: "pystr \<Rightarrow> pystr \<Rightarrow> bool" where
  "contains s p \<longleftrightarrow> break_at p s \<noteq> None"

lemma break_at_join: "break_at p s = Some (a, b) \<Longrightarrow> s = a @ p @ b"
proof (induction s arbitrary: a b)
  case Nil
  then show ?case by (auto simp: break_at.simps starts_with_def split: if_splits)
next
  case (Cons c s)
  show ?case
  proof (cases "starts_with (c # s) p")
    case True
    with Cons.prems have "a = []" "b = drop (length p) (c # s)" by (simp_all add: break_at.simps)
    with True show ?thesis unfolding starts_with_def by (metis append_Nil append_take_drop_id)
  next
    case False
    with Cons.prems obtain a' where "break_at p s = Some (a', b)" "a = c # a'" by (auto simp: break_at.simps)
    with Cons.IH show ?thesis by simp
  qed
qed

lemma break_at_length: "break_at p s = Some (a, b) \<Longrightarrow> length s = length a + length p + length b"
  by (drule break_at_join) simp

text \<open>\<open>sep.join(parts)\<close>, \<open>s.split()\<close>, \<open>s.splitlines()\<close> and \<open>s.strip(chars)\<close>.\<close>

fun join :: "pystr \<Rightarrow> pystr list \<Rightarrow> pystr" where
  "join sep [] = []"
| "join sep [s] = s"
| "join sep (s # ss) = s @ sep @ join sep ss"

function split_space :: "pystr \<Rightarrow> pystr list" where
  "split_space s = (let t = dropWhile py_space s in
     if t = [] then [] else takeWhile (\<lambda>c. \<not> py_space c) t # split_space (dropWhile (\<lambda>c. \<not> py_space c) t))"
  by pat_completeness auto
termination
proof (relation "measure length")
  fix s t :: pystr
  assume t: "t = dropWhile py_space s" "t \<noteq> []"
  obtain c u where cu: "t = c # u" using t(2) by (meson neq_Nil_conv)
  have "\<not> py_space c" using t cu by (metis hd_dropWhile list.sel(1))
  then have "length (dropWhile (\<lambda>c. \<not> py_space c) t) \<le> length u" by (simp add: cu length_dropWhile_le)
  also have "\<dots> < length t" by (simp add: cu)
  also have "\<dots> \<le> length s" by (simp add: t(1) length_dropWhile_le)
  finally show "(dropWhile (\<lambda>c. \<not> py_space c) t, s) \<in> measure length" by simp
qed simp

declare split_space.simps [simp del]

definition line_break :: "nat \<Rightarrow> bool" where
  "line_break c \<longleftrightarrow> (10 \<le> c \<and> c \<le> 13) \<or> (28 \<le> c \<and> c \<le> 30) \<or> c \<in> {133, 8232, 8233}"

fun split_lines_from :: "pystr \<Rightarrow> pystr \<Rightarrow> pystr list" where
  "split_lines_from acc [] = (if acc = [] then [] else [rev acc])"
| "split_lines_from acc (c # s) =
     (if c = 13 \<and> take 1 s = [10] then rev acc # split_lines_from [] (tl s)
      else if line_break c then rev acc # split_lines_from [] s else split_lines_from (c # acc) s)"

definition split_lines :: "pystr \<Rightarrow> pystr list" where
  "split_lines s = split_lines_from [] s"

definition strip_chars :: "pystr \<Rightarrow> pystr \<Rightarrow> pystr" where
  "strip_chars cs s = rev (dropWhile (\<lambda>c. c \<in> set cs) (rev (dropWhile (\<lambda>c. c \<in> set cs) s)))"

lemma length_strip: "length (strip s) \<le> length s"
  unfolding strip_def by (metis length_dropWhile_le length_rev order_trans)

end
