(* ===== verification/Regex.thy ===== *)
theory Regex
  imports Interp
begin

text \<open>
  The regular expressions of Python's \<open>re\<close> as far as the program uses them: ordered
  alternatives, greedy and lazy repetition of a character class, optional groups, named groups and
  references to them, word boundaries, one-character look-around, case-insensitive
  matching. The matcher backtracks in the order of Python's and is a function of the
  continuation, so that it is structurally recursive in the pattern.
\<close>

section \<open>Patterns\<close>

datatype citem = Range nat nat | WordC | SpaceC | NotSpaceC | DigitC

datatype rx =
    Empty
  | RSet bool "citem list"
  | RSeq rx rx
  | RAlt rx rx
  | ROpt rx
  | RRep bool nat "nat option" bool "citem list"
  | RGroup string rx
  | RBack string
  | RBegin
  | REnd
  | RWordB
  | RNotBehind bool "citem list"
  | RNotAhead bool "citem list"

text \<open>
  \<open>RSet\<close> has its negation and its items; \<open>RRep\<close> whether it is greedy, its bounds, and the
  class it repeats.
\<close>

fun item_match :: "interp \<Rightarrow> nat \<Rightarrow> citem \<Rightarrow> bool" where
  "item_match ip c (Range a b) = (a \<le> c \<and> c \<le> b)"
| "item_match ip c WordC = (py_alnum ip c \<or> c = 95)"
| "item_match ip c SpaceC = py_space c"
| "item_match ip c NotSpaceC = (\<not> py_space c)"
| "item_match ip c DigitC = py_digit ip c"

definition set_match :: "interp \<Rightarrow> bool \<Rightarrow> bool \<Rightarrow> citem list \<Rightarrow> nat \<Rightarrow> bool" where
  "set_match ip ic neg items c \<longleftrightarrow>
     (\<exists>d \<in> set (c # (if ic then py_cases ip c else [])). \<exists>i \<in> set items. item_match ip d i) \<noteq> neg"

section \<open>Matching\<close>

record mstate =
  ms_prev :: "nat option"
  ms_rest :: pystr
  ms_groups :: "(string \<times> pystr) list"

definition skip :: "nat \<Rightarrow> mstate \<Rightarrow> mstate" where
  "skip n st = (if n = 0 then st else st\<lparr>ms_prev := Some (ms_rest st ! (n - 1)), ms_rest := drop n (ms_rest st)\<rparr>)"

fun first_some :: "('a \<Rightarrow> 'b option) \<Rightarrow> 'a list \<Rightarrow> 'b option" where
  "first_some f [] = None"
| "first_some f (x # xs) = (case f x of None \<Rightarrow> first_some f xs | Some y \<Rightarrow> Some y)"

text \<open>How often a class can be repeated here, in the order in which the matcher tries it.\<close>

definition rep_counts :: "bool \<Rightarrow> nat \<Rightarrow> nat option \<Rightarrow> (nat \<Rightarrow> bool) \<Rightarrow> pystr \<Rightarrow> nat list" where
  "rep_counts greedy lo hi p s =
     (let n = length (takeWhile p s); m = (case hi of None \<Rightarrow> n | Some h \<Rightarrow> min h n) in
      if greedy then rev [lo..<Suc m] else [lo..<Suc m])"

definition is_word :: "interp \<Rightarrow> nat option \<Rightarrow> bool" where
  "is_word ip c = (case c of None \<Rightarrow> False | Some d \<Rightarrow> item_match ip d WordC)"

definition head_char :: "pystr \<Rightarrow> nat option" where
  "head_char s = (case s of [] \<Rightarrow> None | c # _ \<Rightarrow> Some c)"

definition same_case :: "interp \<Rightarrow> bool \<Rightarrow> nat \<Rightarrow> nat \<Rightarrow> bool" where
  "same_case ip ic c d \<longleftrightarrow> c = d \<or> (ic \<and> d \<in> set (py_cases ip c))"

fun rmatch :: "interp \<Rightarrow> bool \<Rightarrow> rx \<Rightarrow> mstate \<Rightarrow> (mstate \<Rightarrow> 'a option) \<Rightarrow> 'a option" where
  "rmatch ip ic Empty st k = k st"
| "rmatch ip ic (RSet neg items) st k = (case ms_rest st of [] \<Rightarrow> None
     | c # _ \<Rightarrow> if set_match ip ic neg items c then k (skip 1 st) else None)"
| "rmatch ip ic (RSeq a b) st k = rmatch ip ic a st (\<lambda>st. rmatch ip ic b st k)"
| "rmatch ip ic (RAlt a b) st k = (case rmatch ip ic a st k of None \<Rightarrow> rmatch ip ic b st k | Some y \<Rightarrow> Some y)"
| "rmatch ip ic (ROpt a) st k = (case rmatch ip ic a st k of None \<Rightarrow> k st | Some y \<Rightarrow> Some y)"
| "rmatch ip ic (RRep greedy lo hi neg items) st k =
     first_some (\<lambda>n. k (skip n st)) (rep_counts greedy lo hi (set_match ip ic neg items) (ms_rest st))"
| "rmatch ip ic (RGroup name a) st k = rmatch ip ic a st (\<lambda>st'.
     k (st'\<lparr>ms_groups := (name, take (length (ms_rest st) - length (ms_rest st')) (ms_rest st)) # ms_groups st'\<rparr>))"
| "rmatch ip ic (RBack name) st k = (case map_of (ms_groups st) name of None \<Rightarrow> None
     | Some s \<Rightarrow> if length s \<le> length (ms_rest st) \<and> list_all2 (same_case ip ic) s (take (length s) (ms_rest st))
         then k (skip (length s) st) else None)"
| "rmatch ip ic RBegin st k = (if ms_prev st = None then k st else None)"
| "rmatch ip ic REnd st k = (if ms_rest st = [] \<or> ms_rest st = [10] then k st else None)"
| "rmatch ip ic RWordB st k = (if is_word ip (ms_prev st) \<noteq> is_word ip (head_char (ms_rest st)) then k st else None)"
| "rmatch ip ic (RNotBehind neg items) st k =
     (if (case ms_prev st of None \<Rightarrow> False | Some c \<Rightarrow> set_match ip ic neg items c) then None else k st)"
| "rmatch ip ic (RNotAhead neg items) st k =
     (if (case ms_rest st of [] \<Rightarrow> False | c # _ \<Rightarrow> set_match ip ic neg items c) then None else k st)"

text \<open>
  A match that starts at a given place, \<open>pattern.search\<close>, and \<open>pattern.sub\<close> with a function of
  the match; a match has its text, its groups and the text behind it.
\<close>

record match =
  mt_text :: pystr
  mt_groups :: "(string \<times> pystr) list"
  mt_prev :: "nat option"
  mt_after :: pystr

definition re_at :: "interp \<Rightarrow> bool \<Rightarrow> rx \<Rightarrow> nat option \<Rightarrow> pystr \<Rightarrow> match option" where
  "re_at ip ic r prev s = rmatch ip ic r \<lparr>ms_prev = prev, ms_rest = s, ms_groups = []\<rparr>
     (\<lambda>st. Some \<lparr>mt_text = take (length s - length (ms_rest st)) s, mt_groups = ms_groups st,
        mt_prev = ms_prev st, mt_after = ms_rest st\<rparr>)"

abbreviation re_match :: "interp \<Rightarrow> bool \<Rightarrow> rx \<Rightarrow> pystr \<Rightarrow> match option" where
  "re_match ip ic r s \<equiv> re_at ip ic r None s"

definition group :: "match \<Rightarrow> string \<Rightarrow> pystr" where
  "group m name = (case map_of (mt_groups m) name of None \<Rightarrow> [] | Some s \<Rightarrow> s)"

fun re_search_from :: "interp \<Rightarrow> bool \<Rightarrow> rx \<Rightarrow> nat option \<Rightarrow> pystr \<Rightarrow> (nat \<times> match) option" where
  "re_search_from ip ic r prev s = (case re_at ip ic r prev s of
       Some m \<Rightarrow> Some (0, m)
     | None \<Rightarrow> (case s of [] \<Rightarrow> None
         | c # t \<Rightarrow> map_option (\<lambda>(i, m). (Suc i, m)) (re_search_from ip ic r (Some c) t)))"

declare re_search_from.simps [simp del]

definition re_search :: "interp \<Rightarrow> bool \<Rightarrow> rx \<Rightarrow> pystr \<Rightarrow> match option" where
  "re_search ip ic r s = map_option snd (re_search_from ip ic r None s)"

function re_sub_from :: "interp \<Rightarrow> bool \<Rightarrow> rx \<Rightarrow> (match \<Rightarrow> pystr) \<Rightarrow> nat option \<Rightarrow> pystr \<Rightarrow> pystr" where
  "re_sub_from ip ic r f prev s =
     (let plain = (case s of [] \<Rightarrow> [] | c # t \<Rightarrow> c # re_sub_from ip ic r f (Some c) t) in
      case re_at ip ic r prev s of
        None \<Rightarrow> plain
      | Some m \<Rightarrow> if length (mt_after m) < length s
          then f m @ re_sub_from ip ic r f (mt_prev m) (mt_after m)
          else f m @ plain)"
  by pat_completeness auto
termination by (relation "measure (\<lambda>(ip, ic, r, f, prev, s). length s)") auto

declare re_sub_from.simps [simp del]

definition re_sub :: "interp \<Rightarrow> bool \<Rightarrow> rx \<Rightarrow> (match \<Rightarrow> pystr) \<Rightarrow> pystr \<Rightarrow> pystr" where
  "re_sub ip ic r f s = re_sub_from ip ic r f None s"

section \<open>Building patterns\<close>

definition rchar :: "nat \<Rightarrow> rx" where
  "rchar c = RSet False [Range c c]"

definition rtext :: "pystr \<Rightarrow> rx" where
  "rtext s = foldr (\<lambda>c r. RSeq (rchar c) r) s Empty"

abbreviation rlit :: "string \<Rightarrow> rx" where
  "rlit s \<equiv> rtext (lit s)"

fun rseq :: "rx list \<Rightarrow> rx" where
  "rseq [] = Empty"
| "rseq [r] = r"
| "rseq (r # rs) = RSeq r (rseq rs)"

fun ralt :: "rx list \<Rightarrow> rx" where
  "ralt [] = Empty"
| "ralt [r] = r"
| "ralt (r # rs) = RAlt r (ralt rs)"

text \<open>\<open>\s*\<close>, \<open>\s+\<close>, and \<open>.*?\<close> with \<open>DOTALL\<close>.\<close>

abbreviation spaces :: rx where "spaces \<equiv> RRep True 0 None False [SpaceC]"
abbreviation spaces1 :: rx where "spaces1 \<equiv> RRep True 1 None False [SpaceC]"
abbreviation any_lazy :: rx where "any_lazy \<equiv> RRep False 0 None True []"

abbreviation chars :: "string \<Rightarrow> citem list" where
  "chars s \<equiv> map (\<lambda>c. Range c c) (lit s)"

definition alnum :: "citem list" where
  "alnum = [Range 65 90, Range 97 122, Range 48 57]"

section \<open>A match is a part of the text\<close>

lemma first_some_Some: "first_some f xs = Some y \<Longrightarrow> \<exists>x \<in> set xs. f x = Some y"
  by (induction xs) (auto split: option.splits)

definition tail_of :: "mstate \<Rightarrow> mstate \<Rightarrow> bool" where
  "tail_of st st' \<longleftrightarrow> (\<exists>n \<le> length (ms_rest st). ms_rest st' = drop n (ms_rest st))"

lemma tail_of_refl [simp]: "tail_of st st"
  by (auto simp: tail_of_def intro: exI [of _ 0])

lemma tail_of_trans: "tail_of a b \<Longrightarrow> tail_of b c \<Longrightarrow> tail_of a c"
proof -
  assume "tail_of a b" "tail_of b c"
  then obtain n m where n: "n \<le> length (ms_rest a)" "ms_rest b = drop n (ms_rest a)"
    and m: "m \<le> length (ms_rest b)" "ms_rest c = drop m (ms_rest b)" by (auto simp: tail_of_def)
  then have "ms_rest c = drop (m + n) (ms_rest a)" "m + n \<le> length (ms_rest a)" by simp_all
  then show ?thesis unfolding tail_of_def by blast
qed

lemma tail_of_skip: "n \<le> length (ms_rest st) \<Longrightarrow> tail_of st (skip n st)"
  by (auto simp: skip_def tail_of_def)

lemma rmatch_tail: "rmatch ip ic r st k = Some y \<Longrightarrow> \<exists>st'. tail_of st st' \<and> k st' = Some y"
proof (induction r arbitrary: st k)
  case (RSet neg items)
  then show ?case
    by (auto split: list.splits if_splits intro!: exI [of _ "skip 1 st"] tail_of_skip simp del: One_nat_def)
next
  case (RSeq a b)
  from RSeq.prems have "rmatch ip ic a st (\<lambda>st. rmatch ip ic b st k) = Some y" by simp
  from RSeq.IH(1) [OF this] obtain st1 where 1: "tail_of st st1" "rmatch ip ic b st1 k = Some y" by blast
  from RSeq.IH(2) [OF 1(2)] show ?case using 1(1) tail_of_trans by blast
next
  case (RAlt a b)
  then show ?case by (auto split: option.splits)
next
  case (ROpt a)
  then show ?case by (auto split: option.splits intro: tail_of_refl)
next
  case (RRep greedy lo hi neg items)
  then obtain n where n: "n \<in> set (rep_counts greedy lo hi (set_match ip ic neg items) (ms_rest st))" "k (skip n st) = Some y"
    by (auto dest: first_some_Some)
  have "n \<le> length (takeWhile (set_match ip ic neg items) (ms_rest st))"
    using n(1) by (auto simp: rep_counts_def Let_def split: if_splits option.splits)
  also have "\<dots> \<le> length (ms_rest st)" by (rule length_takeWhile_le)
  finally show ?case using n(2) tail_of_skip by blast
next
  case (RGroup name a)
  from RGroup.prems obtain st' where "tail_of st st'"
    "k (st'\<lparr>ms_groups := (name, take (length (ms_rest st) - length (ms_rest st')) (ms_rest st)) # ms_groups st'\<rparr>) = Some y"
    by (auto dest: RGroup.IH)
  then show ?case unfolding tail_of_def
    by (intro exI [of _ "st'\<lparr>ms_groups := (name, take (length (ms_rest st) - length (ms_rest st')) (ms_rest st)) # ms_groups st'\<rparr>"]) simp
next
  case (RBack name)
  then show ?case by (auto split: option.splits if_splits intro: tail_of_skip)
qed (auto split: if_splits intro: tail_of_refl)

lemma re_at_split:
  assumes "re_at ip ic r prev s = Some m"
  shows "s = mt_text m @ mt_after m"
proof -
  from rmatch_tail [OF assms [unfolded re_at_def]] obtain n where
    "n \<le> length s" "mt_after m = drop n s" "mt_text m = take (length s - length (mt_after m)) s"
    by (auto simp: tail_of_def)
  then show ?thesis by simp
qed

section \<open>The least length of a match\<close>

fun rx_min :: "rx \<Rightarrow> nat" where
  "rx_min (RSet neg items) = 1"
| "rx_min (RSeq a b) = rx_min a + rx_min b"
| "rx_min (RAlt a b) = min (rx_min a) (rx_min b)"
| "rx_min (RRep greedy lo hi neg items) = lo"
| "rx_min (RGroup name a) = rx_min a"
| "rx_min _ = 0"

definition ahead :: "nat \<Rightarrow> mstate \<Rightarrow> mstate \<Rightarrow> bool" where
  "ahead n st st' \<longleftrightarrow> length (ms_rest st') + n \<le> length (ms_rest st)"

lemma ahead_trans: "ahead n a b \<Longrightarrow> ahead m b c \<Longrightarrow> ahead (n + m) a c"
  by (simp add: ahead_def)

lemma ahead_refl [simp]: "ahead 0 st st"
  by (simp add: ahead_def)

lemma tail_ahead: "tail_of a b \<Longrightarrow> ahead 0 a b"
  by (auto simp: tail_of_def ahead_def)

lemma rmatch_ahead: "rmatch ip ic r st k = Some y \<Longrightarrow> \<exists>st'. ahead (rx_min r) st st' \<and> k st' = Some y"
proof (induction r arbitrary: st k)
  case (RSet neg items)
  then have "k (skip 1 st) = Some y \<and> ahead 1 st (skip 1 st)"
    by (auto simp: skip_def ahead_def split: list.splits if_splits)
  then show ?case by auto
next
  case (RSeq a b)
  from RSeq.prems have "rmatch ip ic a st (\<lambda>st. rmatch ip ic b st k) = Some y" by simp
  from RSeq.IH(1) [OF this] obtain st1 where 1: "ahead (rx_min a) st st1" "rmatch ip ic b st1 k = Some y" by blast
  from RSeq.IH(2) [OF 1(2)] show ?case using 1(1) ahead_trans by fastforce
next
  case (RAlt a b)
  show ?case
  proof (cases "rmatch ip ic a st k")
    case None
    with RAlt.prems have "rmatch ip ic b st k = Some y" by simp
    from RAlt.IH(2) [OF this] show ?thesis by (force simp: ahead_def)
  next
    case (Some z)
    with RAlt.prems have "rmatch ip ic a st k = Some y" by simp
    from RAlt.IH(1) [OF this] show ?thesis by (force simp: ahead_def)
  qed
next
  case (ROpt a)
  then have "(\<exists>st'. ahead (rx_min a) st st' \<and> k st' = Some y) \<or> k st = Some y"
    by (auto split: option.splits)
  then show ?case
  proof
    assume "\<exists>st'. ahead (rx_min a) st st' \<and> k st' = Some y"
    then obtain st' where "ahead (rx_min a) st st'" "k st' = Some y" by blast
    then show ?thesis by (intro exI [of _ st']) (simp add: ahead_def)
  next
    assume "k st = Some y"
    then show ?thesis by (intro exI [of _ st]) simp
  qed
next
  case (RRep greedy lo hi neg items)
  then obtain n where n: "n \<in> set (rep_counts greedy lo hi (set_match ip ic neg items) (ms_rest st))" "k (skip n st) = Some y"
    by (auto dest: first_some_Some)
  have "n \<le> length (takeWhile (set_match ip ic neg items) (ms_rest st))" "lo \<le> n"
    using n(1) by (auto simp: rep_counts_def Let_def split: if_splits option.splits)
  moreover have "length (takeWhile (set_match ip ic neg items) (ms_rest st)) \<le> length (ms_rest st)"
    by (rule length_takeWhile_le)
  ultimately have "ahead lo st (skip n st)" by (auto simp: skip_def ahead_def)
  with n(2) show ?case by auto
next
  case (RGroup name a)
  from RGroup.prems obtain st' where "ahead (rx_min a) st st'"
    "k (st'\<lparr>ms_groups := (name, take (length (ms_rest st) - length (ms_rest st')) (ms_rest st)) # ms_groups st'\<rparr>) = Some y"
    by (auto dest: RGroup.IH)
  then show ?case
    by (intro exI [of _ "st'\<lparr>ms_groups := (name, take (length (ms_rest st) - length (ms_rest st')) (ms_rest st)) # ms_groups st'\<rparr>"])
      (simp add: ahead_def)
next
  case (RBack name)
  then show ?case
    using rmatch_tail [OF RBack.prems] tail_ahead by fastforce
qed (auto split: if_splits intro: ahead_refl)

lemma re_at_min: "re_at ip ic r prev s = Some m \<Longrightarrow> rx_min r \<le> length s - length (mt_after m) \<and> length (mt_after m) \<le> length s"
  using rmatch_ahead [of ip ic r "\<lparr>ms_prev = prev, ms_rest = s, ms_groups = []\<rparr>"]
  by (fastforce simp: re_at_def ahead_def)

lemma re_at_shorter: "re_at ip ic r prev s = Some m \<Longrightarrow> 0 < rx_min r \<Longrightarrow> length (mt_after m) < length s"
  using re_at_min [of ip ic r prev s m] by linarith

lemma rx_min_rtext [simp]: "rx_min (rtext s) = length s"
  by (induction s) (simp_all add: rtext_def rchar_def)

lemma rx_min_rchar [simp]: "rx_min (rchar c) = 1"
  by (simp add: rchar_def)

text \<open>A text shorter than that is left alone.\<close>

lemma short_no_match: "length s < rx_min r \<Longrightarrow> re_at ip ic r prev s = None"
  using re_at_min [of ip ic r prev s] by (cases "re_at ip ic r prev s") fastforce+

lemma short_sub: "length s < rx_min r \<Longrightarrow> re_sub ip ic r f s = s"
proof -
  have "length s < rx_min r \<Longrightarrow> re_sub_from ip ic r f prev s = s" for prev
    by (induction s arbitrary: prev) (subst re_sub_from.simps, simp add: short_no_match)+
  then show "length s < rx_min r \<Longrightarrow> re_sub ip ic r f s = s" by (simp add: re_sub_def)
qed

end
