(* ===== verification/Redact.thy ===== *)
theory Redact
  imports Regex
begin

text \<open>
  The redaction and classification of captured text in \<open>capture/parsers/base.py\<close>: the patterns as
  data, the redaction passes and their fixed point, bounded previews, the
  removal of injected context, the classification of user content, and the
  bounded breadcrumbs of a turn.
\<close>

section \<open>Patterns of credentials\<close>

definition quote_items :: "citem list" where
  "quote_items = [Range 34 34, Range 39 39]"

definition PRIVATE_KEY_RE :: rx where
  "PRIVATE_KEY_RE = rseq [rlit ''-----BEGIN '',
     RGroup ''kind'' (RSeq (RRep True 0 None False [Range 65 90, Range 48 57, Range 32 32]) (rlit ''PRIVATE KEY'')),
     rlit ''-----'', any_lazy, rlit ''-----END '', RBack ''kind'', rlit ''-----'']"

definition AUTHORIZATION_RE :: rx where
  "AUTHORIZATION_RE = rseq [RGroup ''1'' (rseq [RWordB, rlit ''Authorization'', spaces, rlit '':'', spaces,
     ralt [rlit ''Bearer'', rlit ''Basic''], spaces1]), RRep True 1 None True (SpaceC # chars '',;'')]"

definition BEARER_RE :: rx where
  "BEARER_RE = rseq [RGroup ''1'' (rseq [RWordB, rlit ''Bearer'', spaces1]),
     RRep True 12 None False (alnum @ chars ''._~+/=-'')]"

definition URL_PASSWORD_RE :: rx where
  "URL_PASSWORD_RE = rseq [RGroup ''prefix'' (rseq [rlit ''http'', ROpt (rlit ''s''), rlit ''://'',
       RRep True 1 None True (SpaceC # chars ''/:@''), rlit '':'']),
     RGroup ''secret'' (RRep True 1 None True (SpaceC # chars ''@/'')), RGroup ''suffix'' (rlit ''@'')]"

definition CURL_PASSWORD_RE :: rx where
  "CURL_PASSWORD_RE = rseq [RGroup ''prefix'' (rseq [RNotBehind False [NotSpaceC], ralt [rlit ''-u'', rlit ''--user''],
       spaces1, RGroup ''quote'' (ROpt (RSet False quote_items)),
       RRep True 1 None True (SpaceC # chars '':'' @ quote_items), rlit '':'']),
     RGroup ''secret'' (RRep True 1 None True (SpaceC # chars ''@'' @ quote_items)),
     ROpt (RGroup ''suffix'' (RSeq (rlit ''@'') (RRep True 1 None True (SpaceC # quote_items)))), RBack ''quote'']"

abbreviation dash_opt :: rx where
  "dash_opt \<equiv> ROpt (RSet False (chars ''_-''))"

definition SENSITIVE_ASSIGNMENT_RE :: rx where
  "SENSITIVE_ASSIGNMENT_RE = rseq [RGroup ''prefix'' (rseq [RNotBehind False (WordC # chars ''.-''),
       ralt [rlit ''pass'', RSeq (RRep True 0 None False (alnum @ chars ''_.-''))
         (ralt [rseq [rlit ''api'', dash_opt, rlit ''key''], rseq [rlit ''access'', dash_opt, rlit ''key''],
            rseq [rlit ''auth'', dash_opt, rlit ''token''], rseq [rlit ''refresh'', dash_opt, rlit ''token''],
            rseq [rlit ''client'', dash_opt, rlit ''secret''], rseq [rlit ''private'', dash_opt, rlit ''key''],
            rlit ''password'', rlit ''passwd'', rlit ''secret'', rlit ''token''])],
       spaces, ralt [rlit ''='', rlit '':''], spaces]),
     RGroup ''value'' (ralt [rseq [rchar 34, RRep True 0 None True [Range 34 34, Range 13 13, Range 10 10], rchar 34],
       rseq [rchar 39, RRep True 0 None True [Range 39 39, Range 13 13, Range 10 10], rchar 39],
       RRep True 1 None True (SpaceC # chars '',;}]'')])]"

definition KNOWN_TOKEN_RE :: rx where
  "KNOWN_TOKEN_RE = rseq [RWordB, ralt [
     RSeq (rlit ''github_pat_'') (RRep True 20 None False (alnum @ chars ''_'')),
     rseq [rlit ''gh'', RSet False (chars ''pousr''), rlit ''_'', RRep True 20 None False alnum],
     RSeq (rlit ''glpat-'') (RRep True 15 None False (alnum @ chars ''_-'')),
     RSeq (rlit ''hf_'') (RRep True 20 None False alnum),
     RSeq (rlit ''sk-'') (RRep True 20 None False (alnum @ chars ''_-'')),
     rseq [rlit ''xox'', RSet False (chars ''baprs''), rlit ''-'', RRep True 10 None False (alnum @ chars ''-'')]], RWordB]"

definition REDACTION_MARKER :: pystr where
  "REDACTION_MARKER = lit ''[REDACTED]''"

definition safe_secret_values :: "pystr list" where
  "safe_secret_values = map lit [[], ''none'', ''null'', ''true'', ''false'', ''unknown'', ''example'', ''dummy'',
     ''changeme'', ''redacted'', ''[redacted]'', ''<redacted>'']"

section \<open>Redaction\<close>

definition has_marker :: "interp \<Rightarrow> pystr \<Rightarrow> bool" where
  "has_marker ip s = contains s (py_casefold ip REDACTION_MARKER)"

definition replace_delimited_secret :: "interp \<Rightarrow> match \<Rightarrow> pystr" where
  "replace_delimited_secret ip m = (if has_marker ip (py_casefold ip (group m ''secret'')) then mt_text m
     else group m ''prefix'' @ REDACTION_MARKER @ group m ''suffix'' @ group m ''quote'')"

definition replace_assignment :: "interp \<Rightarrow> match \<Rightarrow> pystr" where
  "replace_assignment ip m =
     (let raw = group m ''value'';
          quote = (if take 1 raw \<in> {[34], [39]} \<and> drop (length raw - 1) raw = take 1 raw then take 1 raw else []);
          plain = (if quote = [] then raw else butlast (tl raw));
          normalized = py_casefold ip (strip plain) in
      if normalized \<in> set safe_secret_values \<or> has_marker ip normalized
        \<or> (\<exists>p \<in> {lit ''$'', lit ''${'', lit ''<'', lit ''[''}. starts_with plain p)
      then mt_text m else group m ''prefix'' @ quote @ REDACTION_MARKER @ quote)"

definition redact_sensitive_once :: "interp \<Rightarrow> pystr \<Rightarrow> pystr" where
  "redact_sensitive_once ip text0 =
     (let text1 = re_sub ip False PRIVATE_KEY_RE (\<lambda>m. REDACTION_MARKER @ lit '' PRIVATE KEY'') text0;
          text2 = re_sub ip True AUTHORIZATION_RE (\<lambda>m. group m ''1'' @ REDACTION_MARKER) text1;
          text3 = re_sub ip True BEARER_RE (\<lambda>m. group m ''1'' @ REDACTION_MARKER) text2;
          text4 = re_sub ip True URL_PASSWORD_RE (replace_delimited_secret ip) text3;
          text5 = re_sub ip True CURL_PASSWORD_RE (replace_delimited_secret ip) text4;
          text6 = re_sub ip True SENSITIVE_ASSIGNMENT_RE (replace_assignment ip) text5 in
      re_sub ip False KNOWN_TOKEN_RE (\<lambda>m. REDACTION_MARKER @ lit '' TOKEN'') text6)"

fun redact_passes :: "nat \<Rightarrow> interp \<Rightarrow> pystr \<Rightarrow> pystr" where
  "redact_passes 0 ip s = s"
| "redact_passes (Suc n) ip s = (let r = redact_sensitive_once ip s in if r = s then s else redact_passes n ip r)"

definition redact_text :: "interp \<Rightarrow> pystr \<Rightarrow> pystr" where
  "redact_text ip s = redact_passes 4 ip s"

definition redact_sensitive_text :: "interp \<Rightarrow> json \<Rightarrow> pystr" where
  "redact_sensitive_text ip value = redact_text ip (text_of ip value)"

text \<open>
  \<open>s.rfind(marker, 0, hi)\<close>: the last start of a complete occurrence before \<open>hi\<close>.
\<close>

definition rfind_marker :: "pystr \<Rightarrow> pystr \<Rightarrow> nat \<Rightarrow> nat option" where
  "rfind_marker s p hi = (let t = take hi s in
     List.find (\<lambda>i. take (length p) (drop i t) = p) (rev [0..<Suc (length t - length p)]))"

definition redact_sensitive_preview :: "interp \<Rightarrow> pystr \<Rightarrow> nat \<Rightarrow> pystr" where
  "redact_sensitive_preview ip value max_chars =
     (let redacted = redact_text ip value in
      if length redacted \<le> max_chars then redacted
      else let bounded = redact_text ip (take max_chars redacted) in
        if length bounded \<le> max_chars then bounded
        else (case rfind_marker bounded REDACTION_MARKER (max_chars + length REDACTION_MARKER) of
            Some i \<Rightarrow> if max_chars < i + length REDACTION_MARKER then take i bounded else take max_chars bounded
          | None \<Rightarrow> take max_chars bounded))"

definition truncation_marker :: pystr where
  "truncation_marker = 10 # lit ''...[truncated]...'' @ [10]"

definition bounded_head_tail :: "interp \<Rightarrow> json \<Rightarrow> int \<Rightarrow> pystr" where
  "bounded_head_tail ip value max_chars =
     (let redacted = strip (redact_sensitive_text ip value) in
      if max_chars \<le> 0 then []
      else if int (length redacted) \<le> max_chars then redacted
      else if max_chars \<le> int (length truncation_marker) then redact_sensitive_preview ip redacted (nat max_chars)
      else let available = nat max_chars - length truncation_marker; head = available div 2; tail = available - head in
        redact_sensitive_preview ip (take head redacted @ truncation_marker @ drop (length redacted - tail) redacted)
          (nat max_chars))"

section \<open>Injected context\<close>

definition tag_name :: "string list \<Rightarrow> rx" where
  "tag_name names = ralt (map rlit names)"

definition LEADING_INJECTED_BLOCK_RE :: rx where
  "LEADING_INJECTED_BLOCK_RE = rseq [RBegin, spaces, rlit ''<'',
     RGroup ''tag'' (tag_name [''skill'', ''system-reminder'', ''environment_context'', ''recommended_plugins'']),
     RWordB, RRep True 0 None True (chars ''>''), rlit ''>'', any_lazy, rlit ''</'', RBack ''tag'', rlit ''>'', spaces]"

definition LEADING_AGENTS_BLOCK_RE :: rx where
  "LEADING_AGENTS_BLOCK_RE = rseq [RBegin, spaces, rlit ''#'', spaces, rlit ''AGENTS.md instructions for '',
     RRep True 1 None True [Range 13 13, Range 10 10], ROpt (rchar 13), rchar 10, spaces, rlit ''<INSTRUCTIONS'', RWordB,
     RRep True 0 None True (chars ''>''), rlit ''>'', any_lazy, rlit ''</INSTRUCTIONS>'', spaces]"

definition MALFORMED_INJECTED_PREFIX_RE :: rx where
  "MALFORMED_INJECTED_PREFIX_RE = rseq [RBegin, spaces, ralt (map (\<lambda>t. RSeq (rlit t) (ralt [RSet False [SpaceC], rlit ''>'']))
       [''<skill'', ''<system-reminder'', ''<environment_context'', ''<recommended_plugins'']
     @ [rseq [rlit ''#'', spaces, rlit ''AGENTS.md instructions for ''], rlit ''Base directory for this skill:''])]"

text \<open>
  The loop removes leading blocks. A match is never empty (\<open>leading_blocks_shorter\<close> below), so the
  text gets shorter and the test of the length is always true.
\<close>

function strip_blocks :: "interp \<Rightarrow> pystr \<Rightarrow> pystr" where
  "strip_blocks ip s =
     (case (case re_match ip True LEADING_INJECTED_BLOCK_RE s of None \<Rightarrow> re_match ip True LEADING_AGENTS_BLOCK_RE s
         | Some m \<Rightarrow> Some m) of
       None \<Rightarrow> s
     | Some m \<Rightarrow> if length (mt_after m) < length s then strip_blocks ip (mt_after m) else s)"
  by pat_completeness auto
termination by (relation "measure (\<lambda>(ip, s). length s)") auto

declare strip_blocks.simps [simp del]

definition strip_injected_context_text :: "interp \<Rightarrow> json \<Rightarrow> pystr" where
  "strip_injected_context_text ip value =
     (let original = text_of ip value; s = strip_blocks ip original in
      if s \<noteq> original then strip s
      else if re_match ip True MALFORMED_INJECTED_PREFIX_RE s \<noteq> None then [] else s)"

section \<open>Control envelopes and user content\<close>

definition known_control_envelopes :: "(pystr \<times> string list) list" where
  "known_control_envelopes =
     [(lit ''file-history-snapshot'', [''snapshot'', ''files'', ''fileHistory'']),
      (lit ''progress'', [''data'', ''progress'', ''toolUseID'', ''tool_use_id'']),
      (lit ''queue-operation'', [''operation'', ''action''])]"

text \<open>A dictionary lookup with a container as its key raises.\<close>

definition is_known_control_envelope :: "interp \<Rightarrow> json \<Rightarrow> bool result" where
  "is_known_control_envelope ip value =
     (let s = strip (text_of ip value) in
      if \<not> starts_with s (lit ''{'') then Inr False
      else (case py_loads ip s of
          Some (JObj kvs) \<Rightarrow>
            (let t = get kvs ''type'' in
             if unhashable t then Inl (TypeError ''unhashable type'')
             else Inr (case (if is_str t then map_of known_control_envelopes (str_of t) else None) of
                 None \<Rightarrow> False
               | Some expected \<Rightarrow> \<exists>k \<in> set expected. jget kvs k \<noteq> None))
        | _ \<Rightarrow> Inr False))"

definition REALTIME_DELEGATION_RE :: rx where
  "REALTIME_DELEGATION_RE = rseq [RBegin, spaces, rlit ''<realtime_delegation'', RWordB, RRep True 0 None True (chars ''>''),
     rlit ''>'', spaces, RGroup ''body'' any_lazy, spaces, rlit ''</realtime_delegation>'', spaces, REnd]"

definition REALTIME_INPUT_RE :: rx where
  "REALTIME_INPUT_RE = rseq [rlit ''<input'', RWordB, RRep True 0 None True (chars ''>''), rlit ''>'',
     RGroup ''text'' any_lazy, rlit ''</input>'']"

definition REALTIME_TRANSCRIPT_RE :: rx where
  "REALTIME_TRANSCRIPT_RE = rseq [rlit ''<transcript_delta'', RWordB, RRep True 0 None True (chars ''>''), rlit ''>'',
     RGroup ''text'' any_lazy, rlit ''</transcript_delta>'']"

definition NOTIFICATION_ENVELOPE_RE :: rx where
  "NOTIFICATION_ENVELOPE_RE = rseq [RBegin, spaces, rlit ''<'', ralt (map rlit [''subagent_notification'',
     ''subagent-notification'', ''task-notification'', ''task_notification'', ''codex_delegation'', ''turn_aborted'']), RWordB]"

definition SUMMARY_ENVELOPE_RE :: rx where
  "SUMMARY_ENVELOPE_RE = rseq [RBegin, spaces, rlit ''<'', ralt (map rlit [''summary'', ''codex_internal_context'']), RWordB]"

definition CONTINUATION_SUMMARY_RE :: rx where
  "CONTINUATION_SUMMARY_RE = rseq [RBegin, spaces, ralt (map rlit
     [''This session is being continued from a previous conversation'',
      ''This conversation is being continued from a previous conversation'',
      ''The conversation is summarized below:''])]"

text \<open>The text, its origin, and the texts of the context blocks, which are all summaries.\<close>

definition classify_user_content :: "interp \<Rightarrow> pystr \<Rightarrow> pystr \<times> pystr \<times> pystr list" where
  "classify_user_content ip value =
     (let s = strip value in
      case re_match ip True REALTIME_DELEGATION_RE s of
        Some m \<Rightarrow>
          (let body = group m ''body'' in
           case re_search ip True REALTIME_INPUT_RE body of
             Some input \<Rightarrow>
               (strip (py_unescape ip (group input ''text'')), lit ''user'',
                (case re_search ip True REALTIME_TRANSCRIPT_RE body of
                   None \<Rightarrow> []
                 | Some t \<Rightarrow> (let transcript = strip (py_unescape ip (group t ''text'')) in
                     if transcript = [] then [] else [transcript])))
           | None \<Rightarrow> (s, lit ''summary'', []))
      | None \<Rightarrow>
          if re_match ip True NOTIFICATION_ENVELOPE_RE s \<noteq> None then (s, lit ''notification'', [])
          else if re_match ip True SUMMARY_ENVELOPE_RE s \<noteq> None \<or> re_match ip True CONTINUATION_SUMMARY_RE s \<noteq> None
          then (s, lit ''summary'', [])
          else (s, lit ''user'', []))"

section \<open>Every pattern consumes\<close>

text \<open>
  No pattern that a substitution or a loop uses matches the empty text, so the case of an empty
  match in \<open>re_sub\<close> and \<open>strip_blocks\<close> does not arise.
\<close>

lemma leading_blocks_shorter:
  "re_match ip True LEADING_INJECTED_BLOCK_RE s = Some m \<Longrightarrow> length (mt_after m) < length s"
  "re_match ip True LEADING_AGENTS_BLOCK_RE s = Some m \<Longrightarrow> length (mt_after m) < length s"
  by (erule re_at_shorter, simp add: LEADING_INJECTED_BLOCK_RE_def LEADING_AGENTS_BLOCK_RE_def)+

lemma redaction_patterns_consume:
  "\<forall>r \<in> {PRIVATE_KEY_RE, AUTHORIZATION_RE, BEARER_RE, URL_PASSWORD_RE, CURL_PASSWORD_RE, SENSITIVE_ASSIGNMENT_RE,
     KNOWN_TOKEN_RE}. 0 < rx_min r"
  by (simp add: PRIVATE_KEY_RE_def AUTHORIZATION_RE_def BEARER_RE_def URL_PASSWORD_RE_def CURL_PASSWORD_RE_def
      SENSITIVE_ASSIGNMENT_RE_def KNOWN_TOKEN_RE_def)

section \<open>Bounds\<close>

lemma rfind_marker_le: "rfind_marker s p hi = Some i \<Longrightarrow> p \<noteq> [] \<Longrightarrow> i + length p \<le> hi"
proof -
  assume "rfind_marker s p hi = Some i" and p: "p \<noteq> []"
  then have "take (length p) (drop i (take hi s)) = p"
    using find_Some_set unfolding rfind_marker_def Let_def by fastforce
  then have "length p = min (length p) (length (take hi s) - i)" by (metis length_drop length_take min.commute)
  with p show ?thesis by (cases p) (auto simp: min_def split: if_splits)
qed

lemma length_preview: "length (redact_sensitive_preview ip s n) \<le> n"
proof -
  have le: "i \<le> n" if "rfind_marker t REDACTION_MARKER (n + length REDACTION_MARKER) = Some i" for t i
    using rfind_marker_le [OF that] by (simp add: REDACTION_MARKER_def)
  then show ?thesis
    by (auto simp: redact_sensitive_preview_def Let_def min_def split: option.split dest!: le)
qed

lemma length_preview_int: "0 \<le> n \<Longrightarrow> int (length (redact_sensitive_preview ip s (nat n))) \<le> n"
  using length_preview [of ip s "nat n"] by linarith

lemma length_bounded_head_tail: "int (length (bounded_head_tail ip v n)) \<le> max 0 n"
  using length_preview_int [of n] by (auto simp: bounded_head_tail_def Let_def simp del: diff_diff_left)

text \<open>Redaction returns a text that one more pass leaves alone, unless four passes were not enough.\<close>

lemma redact_passes_fixed:
  "redact_sensitive_once ip (redact_passes n ip s) = redact_passes n ip s \<or> redact_passes n ip s = (redact_sensitive_once ip ^^ n) s"
proof (induction n arbitrary: s)
  case (Suc n)
  then show ?case by (auto simp: Let_def funpow_swap1)
qed simp

section \<open>Short texts\<close>

text \<open>A text of less than six characters has no secret, and is the user's own.\<close>

lemma redact_short: "length s < 6 \<Longrightarrow> redact_text ip s = s"
proof -
  assume s: "length s < 6"
  have "redact_sensitive_once ip s = s"
    using s by (simp add: redact_sensitive_once_def short_sub PRIVATE_KEY_RE_def AUTHORIZATION_RE_def BEARER_RE_def
        URL_PASSWORD_RE_def CURL_PASSWORD_RE_def SENSITIVE_ASSIGNMENT_RE_def KNOWN_TOKEN_RE_def)
  then show ?thesis by (simp add: redact_text_def numeral_eq_Suc)
qed

lemma classify_short: "length (strip s) < 6 \<Longrightarrow> classify_user_content ip s = (strip s, lit ''user'', [])"
  by (simp add: classify_user_content_def short_no_match REALTIME_DELEGATION_RE_def NOTIFICATION_ENVELOPE_RE_def
      SUMMARY_ENVELOPE_RE_def CONTINUATION_SUMMARY_RE_def)

end
