(* ===== verification/Turns.thy ===== *)
theory Turns
  imports Redact
begin

text \<open>
  The parsers' common format (\<open>capture/parsers/base.py\<close>): tool calls, turns, parsed
  sessions, the bounded excerpts of tool results and the breadcrumbs of a turn.
\<close>

section \<open>Turns\<close>

record tool_call =
  tc_name :: json
  tc_summary :: pystr

record provenance =
  pv_start :: nat
  pv_end :: nat

text \<open>A block is a dictionary; the source path of a turn is that of its file.\<close>

type_synonym block = "(pystr \<times> json) list"

record turn =
  tn_time :: json
  tn_user :: pystr
  tn_assistant :: pystr
  tn_tools :: "tool_call list"
  tn_files :: "pystr list"
  tn_commands :: "pystr list"
  tn_blocks :: "block list"
  tn_prov :: "provenance option"
  tn_origin :: pystr
  tn_native :: "pystr option"

record parsed =
  ps_slug :: json
  ps_turns :: "turn list"
  ps_project :: json
  ps_subagent :: bool
  ps_parent :: json
  ps_native :: pystr
  ps_empty :: bool

section \<open>Excerpts of tool results\<close>

definition raw_results :: "block list \<Rightarrow> json list" where
  "raw_results bs = map (\<lambda>b. get_or b ''text'' (JStr []))
     (filter (\<lambda>b. get b ''type'' = JStr (lit ''tool_result'') \<and> truthy (get b ''text'')) bs)"

definition tool_result_excerpts :: "interp \<Rightarrow> turn \<Rightarrow> nat \<Rightarrow> nat \<Rightarrow> pystr list" where
  "tool_result_excerpts ip tn max_chars max_items =
     (let raw = take max_items (raw_results (tn_blocks tn)) in
      if raw = [] \<or> max_chars = 0 then []
      else let per_item = max 1 (max_chars div length raw) in
        filter (\<lambda>e. e \<noteq> []) (map (\<lambda>t. bounded_head_tail ip t (int per_item)) raw))"

section \<open>Breadcrumbs\<close>

definition tool_line :: "interp \<Rightarrow> tool_call \<Rightarrow> pystr" where
  "tool_line ip c =
     (let n = strip (if truthy (tc_name c) then py_str ip (tc_name c) else lit ''unknown'');
          name = (if n = [] then lit ''unknown'' else n);
          summary = strip (redact_text ip (tc_summary c)) in
      if summary = [] then name else name @ lit '': '' @ summary)"

text \<open>The first \<open>limit\<close> distinct texts, redacted; \<open>limit\<close> is positive.\<close>

fun unique_texts :: "interp \<Rightarrow> nat \<Rightarrow> pystr list \<Rightarrow> pystr list \<Rightarrow> pystr list" where
  "unique_texts ip limit seen [] = []"
| "unique_texts ip limit seen (v # vs) =
     (let s = strip v in
      if s \<noteq> [] \<and> s \<notin> set seen
      then redact_text ip s # (if limit \<le> 1 then [] else unique_texts ip (limit - 1) (s # seen) vs)
      else unique_texts ip limit seen vs)"

definition breadcrumb :: "string \<Rightarrow> string \<Rightarrow> string \<Rightarrow> string \<Rightarrow> pystr list \<Rightarrow> (pystr \<times> pystr \<times> pystr) list" where
  "breadcrumb kind role label sep parts = (if parts = [] then []
     else [(lit kind, lit role, lit label @ join (lit sep) parts)])"

definition turn_breadcrumb_events :: "interp \<Rightarrow> turn \<Rightarrow> nat \<Rightarrow> bool \<Rightarrow> (pystr \<times> pystr \<times> pystr) list" where
  "turn_breadcrumb_events ip tn max_chars include_results =
     (let events =
        breadcrumb ''tool_call'' ''tool'' ''Tools: '' ''; '' (map (tool_line ip) (take 8 (tn_tools tn)))
        @ breadcrumb ''file'' ''file'' ''Files: '' '' '' (unique_texts ip 12 [] (tn_files tn))
        @ breadcrumb ''command'' ''command'' ''Commands: '' '' ; '' (unique_texts ip 8 [] (tn_commands tn))
        @ (if include_results then map (\<lambda>e. (lit ''tool_result'', lit ''tool_result'', lit ''Result: '' @ e))
             (tool_result_excerpts ip tn (max_chars - 8) 4) else []) in
      map (\<lambda>(kind, role, t). (kind, role, take max_chars t)) (filter (\<lambda>(kind, role, t). t \<noteq> []) events))"

section \<open>Bounds\<close>

lemma unique_texts_length: "length (unique_texts ip limit seen vs) \<le> max 1 limit"
  by (induction ip limit seen vs rule: unique_texts.induct) (auto simp: Let_def le_max_iff_disj)

lemma excerpt_length:
  assumes "e \<in> set (tool_result_excerpts ip tn max_chars max_items)"
  shows "length e \<le> max 1 (max_chars div length (take max_items (raw_results (tn_blocks tn))))"
proof -
  let ?raw = "take max_items (raw_results (tn_blocks tn))"
  let ?per = "max 1 (max_chars div length ?raw)"
  from assms obtain t where "e = bounded_head_tail ip t (int ?per)"
    by (auto simp: tool_result_excerpts_def Let_def split: if_splits)
  then have "int (length e) \<le> max 0 (int ?per)" using length_bounded_head_tail by blast
  then show ?thesis by linarith
qed

lemma sum_list_bound: "\<forall>x \<in> set xs. f x \<le> (k :: nat) \<Longrightarrow> sum_list (map f xs) \<le> length xs * k"
  by (induction xs) auto

lemma length_excerpts: "length (tool_result_excerpts ip tn max_chars max_items) \<le> max_items"
  by (auto simp: tool_result_excerpts_def Let_def intro: order_trans [OF length_filter_le])

lemma length_breadcrumb: "length (breadcrumb kind role label sep parts) \<le> 1"
  by (simp add: breadcrumb_def)

lemma excerpts_total: "sum_list (map length (tool_result_excerpts ip tn max_chars max_items)) \<le> max max_items max_chars"
proof (cases "take max_items (raw_results (tn_blocks tn)) = [] \<or> max_chars = 0")
  case True
  then show ?thesis by (auto simp: tool_result_excerpts_def Let_def)
next
  case False
  let ?k = "length (take max_items (raw_results (tn_blocks tn)))"
  have k: "0 < ?k" "?k \<le> max_items" using False by auto
  have "length (tool_result_excerpts ip tn max_chars max_items) \<le> ?k"
    by (auto simp: tool_result_excerpts_def Let_def intro: order_trans [OF length_filter_le])
  then have "sum_list (map length (tool_result_excerpts ip tn max_chars max_items)) \<le> ?k * max 1 (max_chars div ?k)"
    using sum_list_bound [of "tool_result_excerpts ip tn max_chars max_items" length] excerpt_length
    by (meson mult_le_mono1 order_trans)
  also have "\<dots> \<le> max ?k max_chars"
  proof (cases "max_chars div ?k \<le> 1")
    case True
    then have "max 1 (max_chars div ?k) = 1" by simp
    then show ?thesis by (simp only: mult_1_right max.cobounded1)
  next
    case False
    then have "max 1 (max_chars div ?k) = max_chars div ?k" by simp
    then show ?thesis using times_div_less_eq_dividend [of ?k max_chars] by (simp only: max.coboundedI2)
  qed
  finally show ?thesis using k(2) by linarith
qed

text \<open>
  What a turn leaves in the archive beside its messages is bounded, whatever the tools
  printed: every breadcrumb has at most the given number of characters and there are at
  most seven of them; the excerpts of tool results are at most as many as asked for, together
  no longer than the budget, or one character each where the budget is smaller than their
  number; and a preview never exceeds its limit, although redaction can make a text longer.
\<close>

theorem breadcrumbs_are_bounded:
  "list_all (\<lambda>(kind, role, t). length t \<le> max_chars) (turn_breadcrumb_events ip tn max_chars results) \<and>
   length (turn_breadcrumb_events ip tn max_chars results) \<le> 7 \<and>
   length (tool_result_excerpts ip tn max_chars max_items) \<le> max_items \<and>
   sum_list (map length (tool_result_excerpts ip tn max_chars max_items)) \<le> max max_items max_chars \<and>
   length (redact_sensitive_preview ip s n) \<le> n"
proof (intro conjI)
  show "list_all (\<lambda>(kind, role, t). length t \<le> max_chars) (turn_breadcrumb_events ip tn max_chars results)"
    by (auto simp: turn_breadcrumb_events_def Let_def list_all_iff simp del: set_filter)
  have "length (turn_breadcrumb_events ip tn max_chars results) \<le> 1 + (1 + (1 + 4))"
    unfolding turn_breadcrumb_events_def Let_def length_map
    by (rule order_trans [OF length_filter_le], unfold length_append)
      (intro add_mono length_breadcrumb, simp add: length_excerpts)
  then show "length (turn_breadcrumb_events ip tn max_chars results) \<le> 7" by simp
qed (rule length_excerpts excerpts_total length_preview)+

end
