(* ===== verification/Codex_Tools.thy ===== *)
theory Codex_Tools
  imports Turns
begin

text \<open>
  Reading tool calls of Codex records (\<open>capture/parsers/codex.py\<close>): the texts of message blocks,
  the static parser of JavaScript literals with the scan for nested calls, the
  summaries of inputs, and the paths in commands and patches.
\<close>

section \<open>Message contents\<close>

definition MAX_TOOL_RESULT_CHARS :: nat where "MAX_TOOL_RESULT_CHARS = 12000"
definition MAX_WRAPPER_SCAN_CHARS :: nat where "MAX_WRAPPER_SCAN_CHARS = 65536"
definition MAX_NESTED_TOOL_CALLS :: nat where "MAX_NESTED_TOOL_CALLS = 8"

definition tool_map :: "(pystr \<times> pystr) list" where
  "tool_map = [(lit ''exec_command'', lit ''Bash''), (lit ''shell_command'', lit ''Bash''), (lit ''shell'', lit ''Bash''),
     (lit ''write_stdin'', lit ''BashInput''), (lit ''apply_patch'', lit ''Edit''), (lit ''update_plan'', lit ''TodoWrite''),
     (lit ''request_permissions'', lit ''PermissionRequest'')]"

text \<open>Calling a string method on another value raises.\<close>

definition text_block :: "json \<Rightarrow> pystr result" where
  "text_block b = (case b of
       JObj kvs \<Rightarrow>
         if get kvs ''type'' \<in> {JStr (lit ''input_text''), JStr (lit ''output_text''), JStr (lit ''text'')}
         then (case get_or kvs ''text'' (JStr []) of JStr s \<Rightarrow> Inr (strip s) | _ \<Rightarrow> Inl (AttributeError ''strip''))
         else Inr []
     | _ \<Rightarrow> Inr [])"

definition extract_text :: "json \<Rightarrow> pystr result" where
  "extract_text content = (case content of
       JStr s \<Rightarrow> Inr (strip s)
     | JList bs \<Rightarrow> bindR (mapR text_block bs) (\<lambda>parts. Inr (join [10] (filter (\<lambda>p. p \<noteq> []) parts)))
     | _ \<Rightarrow> Inr [])"

definition extract_agent_task_text :: "interp \<Rightarrow> json \<Rightarrow> pystr result" where
  "extract_agent_task_text ip content =
     (let c = (case content of
           JStr s \<Rightarrow> if starts_with (dropWhile py_space s) (lit ''['')
             then (case py_loads ip s of None \<Rightarrow> content | Some v \<Rightarrow> v) else content
         | _ \<Rightarrow> content) in
      bindR (extract_text c) (\<lambda>t. Inr (take 2000 t)))"

text \<open>
  A version 7 UUID of the RFC 4122 variant has its milliseconds in the first 48 bits.
\<close>

definition uuid7_time :: "interp \<Rightarrow> json \<Rightarrow> nat option" where
  "uuid7_time ip v = (case py_uuid ip (py_str ip v) of
       None \<Rightarrow> None
     | Some n \<Rightarrow> if odd (n div 2 ^ 63) \<and> even (n div 2 ^ 62) \<and> n div 2 ^ 76 mod 16 = 7
         then Some (n div 2 ^ 80) else None)"

definition nested_parent_id :: "json \<Rightarrow> json" where
  "nested_parent_id source = (case source of
       JObj kvs \<Rightarrow> (case get kvs ''subagent'' of
           JObj sub \<Rightarrow> (case get sub ''thread_spawn'' of JObj spawn \<Rightarrow> get spawn ''parent_thread_id'' | _ \<Rightarrow> JNull)
         | _ \<Rightarrow> JNull)
     | _ \<Rightarrow> JNull)"

definition parse_arguments :: "interp \<Rightarrow> json \<Rightarrow> json" where
  "parse_arguments ip raw = (case raw of
       JObj kvs \<Rightarrow> raw
     | JStr s \<Rightarrow> (case py_loads ip s of None \<Rightarrow> JObj [(lit ''input'', raw)] | Some v \<Rightarrow> v)
     | _ \<Rightarrow> JObj [])"

section \<open>Static JavaScript literals\<close>

text \<open>
  The parser is a source text and an index; here the text that is left stands for both.
\<close>

function js_skip_space :: "pystr \<Rightarrow> pystr" where
  "js_skip_space s = (case s of
       [] \<Rightarrow> []
     | c # t \<Rightarrow>
         if py_space c then js_skip_space t
         else if starts_with s (lit ''//'')
           then (case break_at [10] (drop 2 s) of None \<Rightarrow> [] | Some (a, b) \<Rightarrow> js_skip_space b)
         else if starts_with s (lit ''/*'')
           then (case break_at (lit ''*/'') (drop 2 s) of None \<Rightarrow> [] | Some (a, b) \<Rightarrow> js_skip_space b)
         else s)"
  by pat_completeness auto
termination by (relation "measure length") (auto dest!: break_at_length)

declare js_skip_space.simps [simp del]

definition js_escape :: "nat \<Rightarrow> nat" where
  "js_escape c = (if c = 110 then 10 else if c = 114 then 13 else if c = 116 then 9 else if c = 98 then 8
     else if c = 102 then 12 else if c = 118 then 11 else if c = 48 then 0 else c)"

definition js_error :: "string \<Rightarrow> 'a result" where
  "js_error msg = Inl (ValueError msg)"

text \<open>\<open>_string\<close> behind its opening quote.\<close>

fun js_chars :: "nat \<Rightarrow> pystr \<Rightarrow> (pystr \<times> pystr) result" where
  "js_chars q [] = js_error ''unterminated string''"
| "js_chars q (c # s) =
     (if c = q then Inr ([], s)
      else if c = 92 \<and> s \<noteq> []
        then bindR (js_chars q (tl s)) (\<lambda>(t, r). Inr (js_escape (hd s) # t, r))
      else if q = 96 \<and> c = 36 \<and> starts_with s (lit ''{'') then js_error ''dynamic template literal''
      else bindR (js_chars q s) (\<lambda>(t, r). Inr (c # t, r)))"

definition ident_start :: "citem list" where
  "ident_start = [Range 65 90, Range 97 122, Range 95 95, Range 36 36]"

definition js_identifier :: "interp \<Rightarrow> pystr \<Rightarrow> (pystr \<times> pystr) result" where
  "js_identifier ip s = (case re_match ip False
       (RSeq (RSet False ident_start) (RRep True 0 None False (Range 48 57 # ident_start))) s of
     None \<Rightarrow> js_error ''expected identifier'' | Some m \<Rightarrow> Inr (mt_text m, mt_after m))"

definition js_quote :: "nat \<Rightarrow> bool" where
  "js_quote c \<longleftrightarrow> c = 39 \<or> c = 34 \<or> c = 96"

definition js_key :: "interp \<Rightarrow> pystr \<Rightarrow> (pystr \<times> pystr) result" where
  "js_key ip s = (case s of [] \<Rightarrow> js_error ''unterminated object''
     | c # t \<Rightarrow> if js_quote c then js_chars c t else js_identifier ip s)"

definition js_token_re :: rx where
  "js_token_re = RSeq (ralt [rlit ''true'', rlit ''false'', rlit ''null'',
     rseq [ROpt (rlit ''-''), ralt [rlit ''0'', RSeq (RSet False [Range 49 57]) (RRep True 0 None False [DigitC])],
       ROpt (RSeq (rlit ''.'') (RRep True 1 None False [DigitC]))]]) RWordB"

definition js_token :: "interp \<Rightarrow> pystr \<Rightarrow> (json \<times> pystr) result" where
  "js_token ip s = (case re_match ip False js_token_re s of
       None \<Rightarrow> js_error ''dynamic expression''
     | Some m \<Rightarrow> (let token = mt_text m in
         Inr (if token = lit ''true'' then JBool True else if token = lit ''false'' then JBool False
           else if token = lit ''null'' then JNull else py_number ip token, mt_after m)))"

text \<open>
  The loops over members and elements take the parser of the nested values and fuel for
  the members, each of which consumes a character; \<open>js_members_fuel\<close> and
  \<open>js_elements_fuel\<close> show that the length of the text is enough.
\<close>

fun js_members :: "interp \<Rightarrow> (pystr \<Rightarrow> (json \<times> pystr) result) \<Rightarrow> nat \<Rightarrow> (pystr \<times> json) list \<Rightarrow> pystr
    \<Rightarrow> (json \<times> pystr) result" where
  "js_members ip val 0 out s = Inl (RuntimeError ''fuel'')"
| "js_members ip val (Suc n) out s =
     (let s = js_skip_space s in
      if starts_with s (lit ''}'') then Inr (JObj out, tl s)
      else bindR (js_key ip s) (\<lambda>(key, s).
        let s = js_skip_space s in
        if \<not> starts_with s (lit '':'') then js_error ''expected colon''
        else bindR (val (tl s)) (\<lambda>(v, s).
          let s = js_skip_space s; out = AList.update key v out in
          if starts_with s (lit '','') then js_members ip val n out (tl s)
          else if starts_with s (lit ''}'') then Inr (JObj out, tl s)
          else js_error ''expected object delimiter'')))"

fun js_elements :: "(pystr \<Rightarrow> (json \<times> pystr) result) \<Rightarrow> nat \<Rightarrow> json list \<Rightarrow> pystr \<Rightarrow> (json \<times> pystr) result" where
  "js_elements val 0 out s = Inl (RuntimeError ''fuel'')"
| "js_elements val (Suc n) out s =
     (let s = js_skip_space s in
      if starts_with s (lit '']'') then Inr (JList out, tl s)
      else bindR (val s) (\<lambda>(v, s).
        let s = js_skip_space s; out = out @ [v] in
        if starts_with s (lit '','') then js_elements val n out (tl s)
        else if starts_with s (lit '']'') then Inr (JList out, tl s)
        else js_error ''expected array delimiter''))"

text \<open>\<open>parse\<close>: its argument counts the levels that are left, 9 at the top.\<close>

fun js_value :: "interp \<Rightarrow> nat \<Rightarrow> pystr \<Rightarrow> (json \<times> pystr) result" where
  "js_value ip 0 s = js_error ''literal nesting too deep''"
| "js_value ip (Suc depth) s =
     (case js_skip_space s of
        [] \<Rightarrow> js_error ''missing literal''
      | c # t \<Rightarrow>
          if js_quote c then bindR (js_chars c t) (\<lambda>(v, r). Inr (JStr v, r))
          else if c = 123 then js_members ip (js_value ip depth) (Suc (length t)) [] t
          else if c = 91 then js_elements (js_value ip depth) (Suc (length t)) [] t
          else js_token ip (c # t))"

definition js_parse :: "interp \<Rightarrow> pystr \<Rightarrow> (json \<times> pystr) result" where
  "js_parse ip s = js_value ip 9 s"

section \<open>Progress of the literal parser\<close>

lemma js_skip_space_le: "length (js_skip_space s) \<le> length s"
proof (induction s rule: js_skip_space.induct)
  case (1 s)
  show ?case
  proof (cases s)
    case (Cons c t)
    have "length (js_skip_space b) \<le> length s"
      if "\<not> py_space c" "starts_with s (lit ''//'')" "break_at [10] (drop 2 s) = Some (a, b)" for a b
      using 1(2) [OF Cons that refl] that(3) by (auto dest!: break_at_length simp: Cons)
    moreover have "length (js_skip_space b) \<le> length s"
      if "\<not> py_space c" "\<not> starts_with s (lit ''//'')" "starts_with s (lit ''/*'')" "break_at (lit ''*/'') (drop 2 s) = Some (a, b)" for a b
      using 1(3) [OF Cons that refl] that(4) by (auto dest!: break_at_length simp: Cons)
    moreover have "length (js_skip_space t) \<le> length s" if "py_space c"
      using 1(1) [OF Cons that] by (simp add: Cons)
    ultimately show ?thesis
      by (subst js_skip_space.simps) (simp add: Cons split: option.split)
  qed (simp add: js_skip_space.simps)
qed

lemma js_chars_shorter: "js_chars q s = Inr (t, r) \<Longrightarrow> length r < length s"
proof (induction q s arbitrary: t r rule: js_chars.induct)
  case (2 q c s)
  show ?case
  proof (cases "c = q")
    case False
    then consider (esc) "c = 92" "s \<noteq> []" | (other) "\<not> (c = 92 \<and> s \<noteq> [])" by blast
    then show ?thesis
    proof cases
      case esc
      with False 2(3) obtain t' where "js_chars q (tl s) = Inr (t', r)" by (auto simp: bindR_Inr_iff)
      from 2(1) [OF False _ this] esc show ?thesis by (cases s) auto
    next
      case other
      with False 2(3) obtain t' where nt: "\<not> (q = 96 \<and> c = 36 \<and> starts_with s (lit ''{''))" "js_chars q s = Inr (t', r)"
        by (auto simp: bindR_Inr_iff js_error_def split: if_splits)
      from 2(2) [OF False other nt] show ?thesis by simp
    qed
  qed (use 2(3) in simp)
qed (simp add: js_error_def)

lemma js_identifier_shorter: "js_identifier ip s = Inr (t, r) \<Longrightarrow> length r < length s"
  by (auto simp: js_identifier_def js_error_def split: option.splits intro!: re_at_shorter)

lemma js_key_shorter: "js_key ip s = Inr (t, r) \<Longrightarrow> length r < length s"
  by (auto simp: js_key_def js_error_def split: list.splits if_splits
      dest: js_chars_shorter js_identifier_shorter)

lemma js_token_shorter: "js_token ip s = Inr (t, r) \<Longrightarrow> length r < length s"
  by (auto simp: js_token_def js_error_def Let_def js_token_re_def split: option.splits intro!: re_at_shorter)

lemma starts_with_tl: "starts_with s (lit [c]) \<Longrightarrow> s \<noteq> [] \<and> length (tl s) < length s"
  by (cases s) (auto simp: starts_with_def lit_def)

definition shrinks :: "(pystr \<Rightarrow> (json \<times> pystr) result) \<Rightarrow> bool" where
  "shrinks val \<longleftrightarrow> (\<forall>s v r. val s = Inr (v, r) \<longrightarrow> length r < length s)"

lemma shrinksD: "shrinks val \<Longrightarrow> val s = Inr (v, r) \<Longrightarrow> length r < length s"
  unfolding shrinks_def by blast

lemma js_members_shorter:
  "shrinks val \<Longrightarrow> js_members ip val n out s = Inr (v, r) \<Longrightarrow> length r < length s"
proof (induction n arbitrary: out s)
  case (Suc n)
  let ?s = "js_skip_space s"
  have le: "length ?s \<le> length s" by (rule js_skip_space_le)
  show ?case
  proof (cases "starts_with ?s (lit ''}'')")
    case True
    then show ?thesis using Suc.prems(2) le starts_with_tl [OF True] by (auto simp: Let_def)
  next
    case False
    with Suc.prems(2) obtain key s1 v1 s2 where key: "js_key ip ?s = Inr (key, s1)"
      and colon: "starts_with (js_skip_space s1) (lit '':'')"
      and val: "val (tl (js_skip_space s1)) = Inr (v1, s2)"
      and rest: "(let s = js_skip_space s2; out = AList.update key v1 out in
          if starts_with s (lit '','') then js_members ip val n out (tl s)
          else if starts_with s (lit ''}'') then Inr (JObj out, tl s)
          else js_error ''expected object delimiter'') = Inr (v, r)"
      by (auto simp: Let_def bindR_Inr_iff js_error_def split: if_splits)
    have 1: "length s1 < length ?s" by (rule js_key_shorter [OF key])
    have 2: "length s2 < length (tl (js_skip_space s1))" by (rule shrinksD [OF Suc.prems(1) val])
    have 3: "length (tl (js_skip_space s1)) \<le> length s1" using js_skip_space_le [of s1] by simp
    have 4: "length (js_skip_space s2) \<le> length s2" by (rule js_skip_space_le)
    from rest consider "js_members ip val n (AList.update key v1 out) (tl (js_skip_space s2)) = Inr (v, r)"
      | "r = tl (js_skip_space s2)"
      by (auto simp: Let_def js_error_def split: if_splits)
    then show ?thesis
    proof cases
      case 1
      have "length r < length (tl (js_skip_space s2))" by (rule Suc.IH [OF Suc.prems(1) 1])
      then show ?thesis using \<open>length s1 < length ?s\<close> 2 3 4 le by simp
    next
      case 2
      then show ?thesis using 1 \<open>length s2 < length (tl (js_skip_space s1))\<close> 3 4 le by simp
    qed
  qed
qed simp

lemma js_elements_shorter:
  "shrinks val \<Longrightarrow> js_elements val n out s = Inr (v, r) \<Longrightarrow> length r < length s"
proof (induction n arbitrary: out s)
  case (Suc n)
  let ?s = "js_skip_space s"
  have le: "length ?s \<le> length s" by (rule js_skip_space_le)
  show ?case
  proof (cases "starts_with ?s (lit '']'')")
    case True
    then show ?thesis using Suc.prems(2) le starts_with_tl [OF True] by (auto simp: Let_def)
  next
    case False
    with Suc.prems(2) obtain v1 s2 where val: "val ?s = Inr (v1, s2)"
      and rest: "js_elements val n (out @ [v1]) (tl (js_skip_space s2)) = Inr (v, r) \<or> r = tl (js_skip_space s2)"
      by (auto simp: Let_def bindR_Inr_iff js_error_def split: if_splits)
    have 2: "length s2 < length ?s" using Suc.prems(1) val by (simp add: shrinks_def)
    have 4: "length (js_skip_space s2) \<le> length s2" by (rule js_skip_space_le)
    from rest show ?thesis
    proof
      assume "js_elements val n (out @ [v1]) (tl (js_skip_space s2)) = Inr (v, r)"
      from Suc.IH [OF Suc.prems(1) this] show ?thesis using 2 4 le by simp
    qed (use 2 4 le in simp)
  qed
qed simp

lemma js_value_shrinks: "shrinks (js_value ip depth)"
proof (induction depth)
  case (Suc depth)
  have "length r < length s" if run: "js_value ip (Suc depth) s = Inr (v, r)" for s v r
  proof -
    from run obtain c t where ct: "js_skip_space s = c # t"
      by (cases "js_skip_space s") (simp_all add: js_error_def)
    have "length (c # t) \<le> length s" using js_skip_space_le [of s] ct by simp
    moreover from run have "length r < length (c # t)"
      using js_members_shorter [OF Suc, of ip "Suc (length t)" "[]" t v r]
        js_elements_shorter [OF Suc, of "Suc (length t)" "[]" t v r] js_token_shorter [of ip "c # t" v r]
      by (auto simp: ct bindR_Inr_iff split: if_splits dest!: js_chars_shorter)
    ultimately show ?thesis by simp
  qed
  then show ?case by (simp only: shrinks_def) blast
qed (simp add: shrinks_def js_error_def)

lemma js_parse_shorter: "js_parse ip s = Inr (v, r) \<Longrightarrow> length r < length s"
  using js_value_shrinks unfolding js_parse_def shrinks_def by blast

text \<open>The fuel is enough: the parser fails with a \<open>ValueError\<close> only.\<close>

definition value_errors :: "('s \<Rightarrow> 'a result) \<Rightarrow> bool" where
  "value_errors f \<longleftrightarrow> (\<forall>s e. f s = Inl e \<longrightarrow> (\<exists>m. e = ValueError m))"

lemma js_chars_errors: "js_chars q s = Inl e \<Longrightarrow> \<exists>m. e = ValueError m"
  by (induction q s rule: js_chars.induct) (auto simp: js_error_def bindR_Inl_iff split: if_splits prod.splits)

lemma js_key_errors: "js_key ip s = Inl e \<Longrightarrow> \<exists>m. e = ValueError m"
  by (auto simp: js_key_def js_error_def js_identifier_def split: list.splits if_splits option.splits dest: js_chars_errors)

lemma js_members_fuel:
  assumes "shrinks val" "value_errors val"
  shows "js_members ip val n out s = Inl e \<Longrightarrow> length s < n \<Longrightarrow> \<exists>m. e = ValueError m"
proof (induction n arbitrary: out s)
  case (Suc n)
  let ?s = "js_skip_space s"
  have le: "length ?s \<le> length s" by (rule js_skip_space_le)
  show ?case
  proof (rule ccontr)
    assume no: "\<not> ?thesis"
    have fin: "\<not> starts_with ?s (lit ''}'')" using Suc.prems(1) by (auto simp: Let_def)
    obtain key s1 where key: "js_key ip ?s = Inr (key, s1)"
      using Suc.prems(1) fin no js_key_errors [of ip ?s e] by (cases "js_key ip ?s") (auto simp: Let_def)
    have colon: "starts_with (js_skip_space s1) (lit '':'')"
      using Suc.prems(1) fin key no by (auto simp: Let_def js_error_def split: if_splits)
    obtain v1 s2 where val: "val (tl (js_skip_space s1)) = Inr (v1, s2)"
      using Suc.prems(1) fin key colon no assms(2)
      by (cases "val (tl (js_skip_space s1))") (auto simp: Let_def value_errors_def)
    have more: "js_members ip val n (AList.update key v1 out) (tl (js_skip_space s2)) = Inl e"
      using Suc.prems(1) fin key colon val no by (auto simp: Let_def js_error_def split: if_splits)
    have "length s1 < length ?s" by (rule js_key_shorter [OF key])
    moreover have "length s2 < length (tl (js_skip_space s1))" by (rule shrinksD [OF assms(1) val])
    moreover have "length (js_skip_space s1) \<le> length s1" "length (js_skip_space s2) \<le> length s2"
      by (rule js_skip_space_le)+
    ultimately have "length (tl (js_skip_space s2)) < n" using le Suc.prems(2) by simp
    from Suc.IH [OF more this] no show False by blast
  qed
qed simp

lemma js_elements_fuel:
  assumes "shrinks val" "value_errors val"
  shows "js_elements val n out s = Inl e \<Longrightarrow> length s < n \<Longrightarrow> \<exists>m. e = ValueError m"
proof (induction n arbitrary: out s)
  case (Suc n)
  let ?s = "js_skip_space s"
  have le: "length ?s \<le> length s" by (rule js_skip_space_le)
  show ?case
  proof (rule ccontr)
    assume no: "\<not> ?thesis"
    have fin: "\<not> starts_with ?s (lit '']'')" using Suc.prems(1) by (auto simp: Let_def)
    obtain v1 s2 where val: "val ?s = Inr (v1, s2)"
      using Suc.prems(1) fin no assms(2) by (cases "val ?s") (auto simp: Let_def value_errors_def)
    have more: "js_elements val n (out @ [v1]) (tl (js_skip_space s2)) = Inl e"
      using Suc.prems(1) fin val no by (auto simp: Let_def js_error_def split: if_splits)
    have "length s2 < length ?s" using assms(1) val by (simp add: shrinks_def)
    moreover have "length (js_skip_space s2) \<le> length s2" by (rule js_skip_space_le)
    ultimately have "length (tl (js_skip_space s2)) < n" using le Suc.prems(2) by simp
    from Suc.IH [OF more this] no show False by blast
  qed
qed simp

lemma js_value_errors: "value_errors (js_value ip depth)"
proof (induction depth)
  case (Suc depth)
  have "\<exists>m. e = ValueError m" if run: "js_value ip (Suc depth) s = Inl e" for s e
  proof (cases "js_skip_space s")
    case Nil
    with run show ?thesis by (auto simp: js_error_def)
  next
    case (Cons c t)
    with run show ?thesis
      using js_members_fuel [OF js_value_shrinks Suc, of ip "Suc (length t)" "[]" t e]
        js_elements_fuel [OF js_value_shrinks Suc, of "Suc (length t)" "[]" t e]
      by (auto simp: bindR_Inl_iff js_token_def js_error_def Let_def split: if_splits option.splits prod.splits
          dest: js_chars_errors)
  qed
  then show ?case by (simp only: value_errors_def) blast
qed (simp add: value_errors_def js_error_def)

section \<open>Nested tool calls\<close>

definition nested_marker :: rx where
  "nested_marker = rseq [RWordB, rlit ''tools'', spaces, rlit ''.'', spaces,
     RGroup ''1'' (ralt [rlit ''exec_command'', rlit ''apply_patch'', rlit ''write_stdin'']), spaces, rlit ''('']"

definition prev_char :: "pystr \<Rightarrow> pystr \<Rightarrow> nat option" where
  "prev_char s rest = Some (s ! (length s - length rest - 1))"

text \<open>
  The scan: comments and string literals are skipped, an unterminated literal ends it, and
  a call whose argument is not static is passed over. \<open>room\<close> is the number of calls that may
  still be found.
\<close>

definition nested_call :: "pystr \<Rightarrow> json \<Rightarrow> (pystr \<times> json) list" where
  "nested_call name v = (case v of
       JObj kvs \<Rightarrow> [(name, v)]
     | JStr t \<Rightarrow> if name = lit ''apply_patch'' then [(name, JObj [(lit ''input'', v)])] else []
     | _ \<Rightarrow> [])"

lemma nested_marker_shorter: "re_at ip False nested_marker prev s = Some m \<Longrightarrow> length (mt_after m) < length s"
proof -
  have "0 < rx_min nested_marker" by (simp add: nested_marker_def)
  then show "re_at ip False nested_marker prev s = Some m \<Longrightarrow> length (mt_after m) < length s" by (rule re_at_shorter [rotated])
qed

function scan_calls :: "interp \<Rightarrow> nat \<Rightarrow> nat option \<Rightarrow> pystr \<Rightarrow> (pystr \<times> json) list" where
  "scan_calls ip room prev s =
     (if s = [] \<or> room = 0 then []
      else if starts_with s (lit ''//'')
        then (case break_at [10] (drop 2 s) of None \<Rightarrow> [] | Some (a, b) \<Rightarrow> scan_calls ip room (prev_char s b) b)
      else if starts_with s (lit ''/*'')
        then (case break_at (lit ''*/'') (drop 2 s) of None \<Rightarrow> [] | Some (a, b) \<Rightarrow> scan_calls ip room (prev_char s b) b)
      else if js_quote (hd s)
        then (case js_chars (hd s) (tl s) of Inl e \<Rightarrow> [] | Inr (t, b) \<Rightarrow> scan_calls ip room (prev_char s b) b)
      else (case re_at ip False nested_marker prev s of
          None \<Rightarrow> scan_calls ip room (Some (hd s)) (tl s)
        | Some m \<Rightarrow>
            (case js_parse ip (mt_after m) of
              Inl e \<Rightarrow> scan_calls ip room (prev_char s (mt_after m)) (mt_after m)
            | Inr (v, b) \<Rightarrow> (let found = nested_call (group m ''1'') v in
                found @ scan_calls ip (room - length found) (prev_char s b) b))))"
  by pat_completeness auto

termination
  by (relation "measure (\<lambda>(ip, room, prev, s). length s)")
    (auto dest!: break_at_length js_chars_shorter nested_marker_shorter js_parse_shorter)

declare scan_calls.simps [simp del]

definition static_nested_tool_calls :: "interp \<Rightarrow> json \<Rightarrow> (pystr \<times> json) list" where
  "static_nested_tool_calls ip value =
     scan_calls ip MAX_NESTED_TOOL_CALLS None (take MAX_WRAPPER_SCAN_CHARS (text_of ip value))"

text \<open>Explicit arrays of calls. Looking up a container in a dictionary raises.\<close>

definition call_lists :: "json \<Rightarrow> json list" where
  "call_lists owner = (case owner of
       JObj kvs \<Rightarrow> concat (map (\<lambda>k. case get kvs k of JList xs \<Rightarrow> xs | _ \<Rightarrow> []) [''nested_calls'', ''tool_calls'', ''calls''])
     | _ \<Rightarrow> [])"

definition structured_call :: "interp \<Rightarrow> json \<Rightarrow> (pystr \<times> json) list result" where
  "structured_call ip item = (case item of
       JObj kvs \<Rightarrow>
         (let name = or_else (get kvs ''name'') (get kvs ''tool_name'') in
          if unhashable name then Inl (TypeError ''unhashable type'')
          else if is_str name \<and> map_of tool_map (str_of name) \<noteq> None
            then Inr [(str_of name, parse_arguments ip (get_or kvs ''arguments'' (get_or kvs ''input'' (JObj []))))]
            else Inr [])
     | _ \<Rightarrow> Inr [])"

definition structured_nested_tool_calls :: "interp \<Rightarrow> json \<Rightarrow> json \<Rightarrow> (pystr \<times> json) list result" where
  "structured_nested_tool_calls ip payload inp =
     bindR (mapR (structured_call ip) (take MAX_NESTED_TOOL_CALLS (call_lists payload @ call_lists inp)))
       (\<lambda>cs. Inr (concat cs))"

lemma length_nested_call: "length (nested_call n v) \<le> 1"
  by (simp add: nested_call_def split: json.split)

lemma length_scan_calls: "length (scan_calls ip room prev s) \<le> room"
proof (induction ip room prev s rule: scan_calls.induct)
  case (1 ip room prev s)
  show ?case
  proof (cases "s = [] \<or> room = 0 \<or> starts_with s (lit ''//'') \<or> starts_with s (lit ''/*'') \<or> js_quote (hd s)")
    case True
    then show ?thesis
      using 1(1-3) by (subst scan_calls.simps) (auto simp del: scan_calls.simps split: option.split sum.split)
  next
    case False
    note no = False
    show ?thesis
    proof (cases "re_at ip False nested_marker prev s")
      case None
      with no have "scan_calls ip room prev s = scan_calls ip room (Some (hd s)) (tl s)" by (subst scan_calls.simps) simp
      with 1(4) no None show ?thesis by simp
    next
      case (Some m)
      show ?thesis
      proof (cases "js_parse ip (mt_after m)")
        case (Inl e)
        with no Some have "scan_calls ip room prev s = scan_calls ip room (prev_char s (mt_after m)) (mt_after m)"
          by (subst scan_calls.simps) simp
        with 1(5) no Some Inl show ?thesis by simp
      next
        case (Inr vb)
        obtain v b where vb: "vb = (v, b)" by (cases vb)
        let ?f = "nested_call (group m ''1'') v"
        from no Some Inr vb have "scan_calls ip room prev s = ?f @ scan_calls ip (room - length ?f) (prev_char s b) b"
          by (subst scan_calls.simps) (simp add: Let_def)
        moreover have "length (scan_calls ip (room - length ?f) (prev_char s b) b) \<le> room - length ?f"
          using 1(6) no Some Inr vb by simp
        moreover have "length ?f \<le> room" using length_nested_call [of "group m ''1''" v] no by linarith
        ultimately show ?thesis by simp
      qed
    qed
  qed
qed

lemma structured_call_length: "structured_call ip item = Inr cs \<Longrightarrow> length cs \<le> 1"
  by (auto simp: structured_call_def Let_def split: json.splits if_splits)

lemma mapR_concat_length:
  "mapR f xs = Inr yss \<Longrightarrow> (\<And>x ys. f x = Inr ys \<Longrightarrow> length ys \<le> 1) \<Longrightarrow> length (concat yss) \<le> length xs"
proof (induction xs arbitrary: yss)
  case (Cons x xs)
  then obtain ys yss' where "f x = Inr ys" "mapR f xs = Inr yss'" "yss = ys # yss'" by (auto simp: bindR_Inr_iff)
  with Cons.IH [of yss'] Cons.prems(2) [of x ys] Cons.prems(2) show ?case by fastforce
qed simp

lemma length_structured: "structured_nested_tool_calls ip payload inp = Inr cs \<Longrightarrow> length cs \<le> MAX_NESTED_TOOL_CALLS"
  unfolding structured_nested_tool_calls_def bindR_Inr_iff
  by (auto dest!: mapR_concat_length [OF _ structured_call_length])

text \<open>
  C40: Scanning the source of a wrapper call never evaluates or trusts it: the scan always ends
  (the definitions are total functions of the text), the parser of literals fails in no other
  way than by the \<open>ValueError\<close> the scan handles, it always consumes something when it
  succeeds, whatever the text is, and at most eight nested calls are taken from one record, from
  the explicit arrays as well as from the source.
\<close>

theorem nested_call_scan_is_safe:
  "length (static_nested_tool_calls ip v) \<le> 8 \<and>
   (case structured_nested_tool_calls ip p q of Inl e \<Rightarrow> e = TypeError ''unhashable type'' | Inr cs \<Rightarrow> length cs \<le> 8) \<and>
   (case js_parse ip s of Inl e \<Rightarrow> \<exists>m. e = ValueError m | Inr (w, rest) \<Rightarrow> length rest < length s)"
proof (intro conjI)
  show "length (static_nested_tool_calls ip v) \<le> 8"
    unfolding static_nested_tool_calls_def using length_scan_calls [of ip MAX_NESTED_TOOL_CALLS]
    by (simp add: MAX_NESTED_TOOL_CALLS_def)
  have err: "structured_call ip x = Inl e \<Longrightarrow> e = TypeError ''unhashable type''" for x e
    by (auto simp: structured_call_def Let_def split: json.splits if_splits)
  have "mapR (structured_call ip) xs = Inl e \<Longrightarrow> e = TypeError ''unhashable type''" for xs e
    by (induction xs) (auto simp: bindR_Inl_iff dest: err)
  then show "case structured_nested_tool_calls ip p q of Inl e \<Rightarrow> e = TypeError ''unhashable type'' | Inr cs \<Rightarrow> length cs \<le> 8"
    using length_structured [of ip p q]
    by (auto simp: structured_nested_tool_calls_def bindR_Inl_iff MAX_NESTED_TOOL_CALLS_def split: sum.split)
  show "case js_parse ip s of Inl e \<Rightarrow> \<exists>m. e = ValueError m | Inr (w, rest) \<Rightarrow> length rest < length s"
    using js_value_errors [of ip 9] js_parse_shorter [of ip s]
    by (auto simp: value_errors_def js_parse_def split: sum.split)
qed

section \<open>Shell words\<close>

text \<open>
  \<open>shlex.split\<close> in its POSIX mode without comments: the state machine over the characters, with
  the token so far and whether a quotation has been seen in it.
\<close>

datatype sh_state = Between | InWord | Quoted nat | EscapedFrom sh_state

definition sh_space :: "nat \<Rightarrow> bool" where
  "sh_space c \<longleftrightarrow> c \<in> {32, 9, 13, 10}"

fun shlex_run :: "sh_state \<Rightarrow> bool \<Rightarrow> pystr \<Rightarrow> pystr \<Rightarrow> pystr list result" where
  "shlex_run Between quoted tok [] = Inr []"
| "shlex_run InWord quoted tok [] = Inr (if quoted \<or> tok \<noteq> [] then [tok] else [])"
| "shlex_run (Quoted q) quoted tok [] = Inl (ValueError ''No closing quotation'')"
| "shlex_run (EscapedFrom st) quoted tok [] = Inl (ValueError ''No escaped character'')"
| "shlex_run Between quoted tok (c # s) =
     (if sh_space c then shlex_run Between quoted tok s
      else if c = 92 then shlex_run (EscapedFrom InWord) quoted tok s
      else if c = 39 \<or> c = 34 then shlex_run (Quoted c) True tok s
      else shlex_run InWord quoted [c] s)"
| "shlex_run InWord quoted tok (c # s) =
     (if sh_space c then (if quoted \<or> tok \<noteq> [] then bindR (shlex_run Between False [] s) (\<lambda>ts. Inr (tok # ts))
        else shlex_run Between quoted tok s)
      else if c = 39 \<or> c = 34 then shlex_run (Quoted c) True tok s
      else if c = 92 then shlex_run (EscapedFrom InWord) quoted tok s
      else shlex_run InWord quoted (tok @ [c]) s)"
| "shlex_run (Quoted q) quoted tok (c # s) =
     (if c = q then shlex_run InWord True tok s
      else if c = 92 \<and> q = 34 then shlex_run (EscapedFrom (Quoted q)) True tok s
      else shlex_run (Quoted q) True (tok @ [c]) s)"
| "shlex_run (EscapedFrom st) quoted tok (c # s) =
     shlex_run st quoted (tok @ (case st of Quoted q \<Rightarrow> if c \<noteq> 92 \<and> c \<noteq> q then [92, c] else [c] | _ \<Rightarrow> [c])) s"

definition shlex_split :: "pystr \<Rightarrow> pystr list result" where
  "shlex_split s = shlex_run Between False [] s"

section \<open>Paths\<close>

definition path_suffix_re :: rx where
  "path_suffix_re = rseq [rlit ''.'', RSet False alnum, RRep True 0 (Some 8) False (alnum @ chars ''_-''),
     ROpt (RSeq (rlit '':'') (RRep True 1 None False [DigitC])), REnd]"

definition looks_like_path :: "interp \<Rightarrow> pystr \<Rightarrow> bool" where
  "looks_like_path ip token =
     (if \<exists>c \<in> set (lit ''|*?[]{}()''). c \<in> set token then False
      else if \<exists>p \<in> {lit ''/'', lit ''./'', lit ''../'', lit ''~/''}. starts_with token p then True
      else if 47 \<in> set token then True
      else re_search ip False path_suffix_re token \<noteq> None)"

definition extract_command_paths :: "interp \<Rightarrow> pystr \<Rightarrow> pystr list" where
  "extract_command_paths ip command =
     (let tokens = (case shlex_split command of Inl e \<Rightarrow> split_space command | Inr ts \<Rightarrow> ts);
          stripped = map (strip_chars (34 # 39 # lit ''`:,;()[]{}'')) tokens in
      dedup_from [] (filter (\<lambda>t. t \<noteq> [] \<and> \<not> starts_with t (lit ''-'') \<and> looks_like_path ip t) stripped))"

definition patch_prefixes :: "pystr list" where
  "patch_prefixes = [lit ''*** Add File: '', lit ''*** Update File: '', lit ''*** Delete File: '']"

definition patch_text :: "interp \<Rightarrow> (pystr \<times> json) list \<Rightarrow> pystr" where
  "patch_text ip kvs = py_str ip (or_else (get kvs ''input'') (or_else (get kvs ''patch'') (JStr [])))"

definition extract_patch_paths :: "interp \<Rightarrow> json \<Rightarrow> pystr list" where
  "extract_patch_paths ip inp =
     (let patch = (case inp of JObj kvs \<Rightarrow> patch_text ip kvs | _ \<Rightarrow> []) in
      concat (map (\<lambda>line. case List.find (starts_with line) patch_prefixes of
          None \<Rightarrow> [] | Some p \<Rightarrow> [drop (length p) line]) (split_lines patch)))"

section \<open>Tool calls\<close>

definition replace_first :: "pystr \<Rightarrow> pystr \<Rightarrow> pystr \<Rightarrow> pystr" where
  "replace_first p q s = (case break_at p s of None \<Rightarrow> s | Some (a, b) \<Rightarrow> a @ q @ b)"

definition item_summary :: "interp \<Rightarrow> (pystr \<times> json) list \<Rightarrow> pystr" where
  "item_summary ip kvs = (case kvs of [] \<Rightarrow> [] | (k, v) # _ \<Rightarrow> k @ lit ''='' @ take 100 (py_str ip v))"

definition edit_summary :: "interp \<Rightarrow> (pystr \<times> json) list \<Rightarrow> pystr" where
  "edit_summary ip kvs =
     (let patch = patch_text ip kvs in
      case List.find (\<lambda>line. \<exists>p \<in> set patch_prefixes. starts_with line p) (split_lines patch) of
        Some line \<Rightarrow> take 300 (replace_first (lit ''*** '') [] line)
      | None \<Rightarrow> take 300 patch)"

definition tool_input_summary :: "interp \<Rightarrow> json \<Rightarrow> json \<Rightarrow> pystr" where
  "tool_input_summary ip name inp = (case inp of
       JObj kvs \<Rightarrow>
         if name = JStr (lit ''Bash'') \<or> name = JStr (lit ''BashInput'')
         then take 300 (py_str ip (or_else (get kvs ''cmd'') (or_else (get kvs ''command'')
           (or_else (get kvs ''chars'') (JStr [])))))
         else if name = JStr (lit ''Edit'') then edit_summary ip kvs
         else (case (if name = JStr (lit ''TodoWrite'') then get kvs ''plan'' else JNull) of
             JList plan \<Rightarrow> show_nat (length plan) @ lit '' plan items''
           | _ \<Rightarrow> (case (if name = JStr (lit ''WebSearch'') then get_or kvs ''action'' (JObj []) else JNull) of
               JObj action \<Rightarrow> take 300 (py_str ip (or_else (get action ''query'') (or_else (get action ''url'')
                 (or_else (get action ''pattern'') (JStr [])))))
             | _ \<Rightarrow> item_summary ip kvs))
     | _ \<Rightarrow> take 200 (py_str ip inp))"

definition tool_name :: "json \<Rightarrow> json result" where
  "tool_name raw = (if unhashable raw then Inl (TypeError ''unhashable type'')
     else Inr (case (if is_str raw then map_of tool_map (str_of raw) else None) of None \<Rightarrow> raw | Some n \<Rightarrow> JStr n))"

definition end_at :: "nat \<Rightarrow> turn \<Rightarrow> turn" where
  "end_at line tn = tn\<lparr>tn_prov := map_option (\<lambda>p. p\<lparr>pv_end := line\<rparr>) (tn_prov tn)\<rparr>"

definition tool_block :: "json \<Rightarrow> json \<Rightarrow> pystr \<Rightarrow> block" where
  "tool_block name inp summary = [(lit ''type'', JStr (lit ''tool_use'')), (lit ''name'', name), (lit ''input'', inp),
     (lit ''summary'', JStr summary)]"

definition add_tool :: "json \<Rightarrow> json \<Rightarrow> pystr \<Rightarrow> nat \<Rightarrow> turn \<Rightarrow> turn" where
  "add_tool name inp summary line tn = end_at line (tn\<lparr>
     tn_tools := tn_tools tn @ [\<lparr>tc_name = name, tc_summary = summary\<rparr>],
     tn_blocks := tn_blocks tn @ [tool_block name inp summary]\<rparr>)"

text \<open>The command and the files of a shell call.\<close>

definition bash_evidence :: "interp \<Rightarrow> (pystr \<times> json) list \<Rightarrow> turn \<Rightarrow> turn" where
  "bash_evidence ip kvs tn =
     (let command = or_else (get kvs ''cmd'') (get kvs ''command''); workdir = get kvs ''workdir'';
          c = py_str ip command;
          tn = (if truthy command then tn\<lparr>tn_commands := tn_commands tn @ [take 300 c],
              tn_files := tn_files tn @ map (take 500) (take 12 (extract_command_paths ip (take MAX_WRAPPER_SCAN_CHARS c)))\<rparr>
            else tn) in
      if truthy workdir then tn\<lparr>tn_files := tn_files tn @ [take 500 (py_str ip workdir)]\<rparr> else tn)"

definition append_tool_call :: "interp \<Rightarrow> json \<Rightarrow> json \<Rightarrow> nat \<Rightarrow> turn \<Rightarrow> turn result" where
  "append_tool_call ip raw_name inp line tn = bindR (tool_name raw_name) (\<lambda>name.
     let tn = add_tool name inp (tool_input_summary ip name inp) line tn in
     if name = JStr (lit ''Bash'') then (case inp of
         JObj kvs \<Rightarrow> Inr (bash_evidence ip kvs tn)
       | _ \<Rightarrow> Inl (AttributeError ''get''))
     else if name = JStr (lit ''Edit'')
       then Inr (tn\<lparr>tn_files := tn_files tn @ map (take 500) (take 12 (extract_patch_paths ip inp))\<rparr>)
     else Inr tn)"

definition output_part :: "interp \<Rightarrow> json \<Rightarrow> pystr" where
  "output_part ip b = (case b of
       JObj kvs \<Rightarrow> py_str ip (or_else (get kvs ''text'') (or_else (get kvs ''content'') (JStr [])))
     | _ \<Rightarrow> py_str ip b)"

definition extract_output_text :: "interp \<Rightarrow> (pystr \<times> json) list \<Rightarrow> pystr" where
  "extract_output_text ip payload = (case get_or payload ''output'' (JStr []) of
       JStr s \<Rightarrow> take MAX_TOOL_RESULT_CHARS s
     | JList bs \<Rightarrow> take MAX_TOOL_RESULT_CHARS (join [10] (filter (\<lambda>p. p \<noteq> []) (map (output_part ip) bs)))
     | v \<Rightarrow> take 500 (py_str ip v))"

end
