(* ===== verification/Codex.thy ===== *)
theory Codex
  imports Codex_Tools Json_Loads
begin

text \<open>
  The Codex session parser (\<open>capture/parsers/codex.py\<close>): records of a JSON-lines file, the scan
  for ownership metadata, the boundary between inherited and own history, and the fold of the
  response records into turns. The scan and the fold are functions of the list of records, so that
  a parse that resumes in the middle of a file can be compared with a full one.
\<close>

section \<open>Records of a file\<close>

text \<open>
  Iterating over a file in text mode: lines end at a line feed, a carriage return or both, and
  are handed out with a line feed. Each line is decoded on its own; a line that is not
  UTF-8 raises there (the code reads ahead and may raise a few lines earlier).
\<close>

function text_lines :: "bytes \<Rightarrow> bytes \<Rightarrow> bytes list" where
  "text_lines acc [] = (if acc = [] then [] else [rev acc])"
| "text_lines acc (c # s) =
     (if c = 10 then rev (10 # acc) # text_lines [] s
      else if c = 13 then rev (10 # acc) # text_lines [] (if take 1 s = [10] then tl s else s)
      else text_lines (c # acc) s)"
  by pat_completeness auto
termination by (relation "measure (\<lambda>(acc, s). length s)") auto

text \<open>
  \<open>_iter_json_records\<close>: the records behind a line, each with its number, or the exception that
  reading it raises. A line that is not JSON is an error in strict mode and passed over otherwise.
\<close>

type_synonym item = "nat \<times> (pystr \<times> json) list result"

definition utf8_strict :: "bytes \<Rightarrow> pystr option" where
  "utf8_strict b = (case utf8_decode b of None \<Rightarrow> None
     | Some s \<Rightarrow> if \<exists>c \<in> set s. 55296 \<le> c \<and> c \<le> 57343 then None else Some s)"

definition decode_line :: "interp \<Rightarrow> bool \<Rightarrow> nat \<Rightarrow> nat \<times> bytes \<Rightarrow> item list" where
  "decode_line ip strict after_line nl = (case utf8_strict (snd nl) of
       None \<Rightarrow> [(fst nl, Inl UnicodeDecodeError)]
     | Some s \<Rightarrow> if fst nl \<le> after_line then []
         else (case py_loads ip s of
           None \<Rightarrow> if strict then [(fst nl, Inl (ValueError ''invalid Codex JSON record''))] else []
         | Some (JObj kvs) \<Rightarrow> [(fst nl, Inr kvs)]
         | Some _ \<Rightarrow> if strict then [(fst nl, Inl (ValueError ''invalid Codex event envelope''))] else []))"

definition iter_json_records :: "interp \<Rightarrow> bool \<Rightarrow> nat option \<Rightarrow> nat \<Rightarrow> bytes \<Rightarrow> item list" where
  "iter_json_records ip strict after_line start_line content = (case after_line of
       None \<Rightarrow> []
     | Some n \<Rightarrow> concat (map (decode_line ip strict n) (enumerate (start_line + 1) (text_lines [] content))))"

section \<open>Ownership metadata\<close>

record scan =
  sc_meta :: "(nat \<times> (pystr \<times> json) list) list"
  sc_trigger :: "nat option"
  sc_starts :: "(nat \<times> json) list"
  sc_kept :: "item list"

definition empty_scan :: scan where
  "empty_scan = \<lparr>sc_meta = [], sc_trigger = None, sc_starts = [], sc_kept = []\<rparr>"

definition metadata_keys :: "string list" where
  "metadata_keys = [''id'', ''session_id'', ''cwd'', ''source'', ''thread_source'', ''parent_thread_id'',
     ''forked_from_id'', ''agent_path'', ''agent_nickname'']"

text \<open>
  \<open>{key: payload[key] for key in metadata_keys if key in payload}\<close>, where a payload that is not an
  object raises when the test finds a key in it or cannot be made.
\<close>

definition select_metadata :: "json \<Rightarrow> (pystr \<times> json) list result" where
  "select_metadata payload = (case payload of
       JObj kvs \<Rightarrow> Inr (concat (map (\<lambda>k. case jget kvs k of None \<Rightarrow> [] | Some v \<Rightarrow> [(lit k, v)]) metadata_keys))
     | JList xs \<Rightarrow> if \<exists>k \<in> set metadata_keys. JStr (lit k) \<in> set xs
         then Inl (TypeError ''list indices must be integers'') else Inr []
     | JStr s \<Rightarrow> if \<exists>k \<in> set metadata_keys. contains s (lit k)
         then Inl (TypeError ''string indices must be integers'') else Inr []
     | _ \<Rightarrow> Inl (TypeError ''argument is not iterable''))"

definition object_of :: "json \<Rightarrow> (pystr \<times> json) list result" where
  "object_of v = (case v of JObj kvs \<Rightarrow> Inr kvs | _ \<Rightarrow> Inl (AttributeError ''get''))"

definition payload_of :: "(pystr \<times> json) list \<Rightarrow> json" where
  "payload_of kvs = get_or kvs ''payload'' (JObj [])"

definition event_record :: "string \<Rightarrow> (pystr \<times> json) list \<Rightarrow> (pystr \<times> json) list" where
  "event_record t payload = [(lit ''type'', JStr (lit t)), (lit ''payload'', JObj payload)]"

definition scan_started :: "nat \<Rightarrow> (pystr \<times> json) list \<Rightarrow> scan \<Rightarrow> scan result" where
  "scan_started line kvs sc =
     (if get kvs ''type'' \<noteq> JStr (lit ''event_msg'') then Inr sc
      else bindR (object_of (payload_of kvs)) (\<lambda>p.
        if get p ''type'' \<noteq> JStr (lit ''task_started'') then Inr sc
        else Inr (sc\<lparr>sc_starts := sc_starts sc @ [(line, get p ''turn_id'')],
          sc_kept := sc_kept sc @ [(line, Inr (event_record ''event_msg''
            [(lit ''type'', JStr (lit ''task_started'')), (lit ''turn_id'', get p ''turn_id'')]))]\<rparr>)))"

definition scan_record :: "nat \<Rightarrow> (pystr \<times> json) list \<Rightarrow> scan \<Rightarrow> scan result" where
  "scan_record line kvs sc =
     (if get kvs ''type'' = JStr (lit ''session_meta'')
      then bindR (select_metadata (payload_of kvs)) (\<lambda>selected.
        Inr (sc\<lparr>sc_meta := sc_meta sc @ [(line, selected)],
          sc_kept := sc_kept sc @ [(line, Inr (event_record ''session_meta'' selected))]\<rparr>))
      else if get kvs ''type'' = JStr (lit ''inter_agent_communication_metadata'')
      then bindR (object_of (payload_of kvs)) (\<lambda>p.
        if truthy (get p ''trigger_turn'') \<and> sc_trigger sc = None
        then Inr (sc\<lparr>sc_trigger := Some line, sc_kept := sc_kept sc @ [(line, Inr (event_record
            ''inter_agent_communication_metadata'' [(lit ''trigger_turn'', JBool True)]))]\<rparr>)
        else Inr sc)
      else scan_started line kvs sc)"

text \<open>A loop over records stops at the first exception.\<close>

fun fold_items :: "(nat \<Rightarrow> (pystr \<times> json) list \<Rightarrow> 's \<Rightarrow> 's result) \<Rightarrow> item list \<Rightarrow> 's \<Rightarrow> 's result" where
  "fold_items f [] s = Inr s"
| "fold_items f ((line, r) # items) s = bindR r (\<lambda>kvs. bindR (f line kvs s) (fold_items f items))"

definition scan_metadata :: "item list \<Rightarrow> scan result" where
  "scan_metadata items = fold_items scan_record items empty_scan"

section \<open>Ownership\<close>

record ownership =
  ow_matching :: "(pystr \<times> json) list"
  ow_boundary :: "nat option"
  ow_subagent :: bool
  ow_parent :: json
  ow_empty :: bool

definition matching_metadata :: "pystr \<Rightarrow> scan \<Rightarrow> (pystr \<times> json) list option" where
  "matching_metadata native sc = map_option snd (List.find (\<lambda>p. get (snd p) ''id'' = JStr native) (sc_meta sc))"

definition is_subagent :: "(pystr \<times> json) list \<Rightarrow> bool" where
  "is_subagent m \<longleftrightarrow> get m ''thread_source'' = JStr (lit ''subagent'')
     \<or> (case get m ''source'' of JObj kvs \<Rightarrow> jget kvs ''subagent'' \<noteq> None | _ \<Rightarrow> False)"

definition parent_of :: "pystr \<Rightarrow> (pystr \<times> json) list \<Rightarrow> json" where
  "parent_of native m = or_else (get m ''parent_thread_id'') (or_else (get m ''forked_from_id'')
     (or_else (nested_parent_id (get m ''source''))
       (if get m ''session_id'' \<noteq> JStr native then get m ''session_id'' else JNull)))"

definition foreign_lines :: "pystr \<Rightarrow> scan \<Rightarrow> nat list" where
  "foreign_lines native sc = map fst (filter (\<lambda>p. truthy (get (snd p) ''id'') \<and> get (snd p) ''id'' \<noteq> JStr native) (sc_meta sc))"

text \<open>
  The first task that starts at or after the creation of the child, by the times in the UUIDs;
  otherwise the trigger of an inter-agent message behind all foreign metadata.
\<close>

definition started_after :: "interp \<Rightarrow> nat option \<Rightarrow> json \<Rightarrow> bool" where
  "started_after ip child turn_id = (case child of None \<Rightarrow> False
     | Some c \<Rightarrow> int c \<le> (case uuid7_time ip turn_id of None \<Rightarrow> -1 | Some t \<Rightarrow> if t = 0 then -1 else int t))"

definition child_boundary :: "interp \<Rightarrow> pystr \<Rightarrow> scan \<Rightarrow> nat option" where
  "child_boundary ip native sc =
     (case List.find (\<lambda>p. started_after ip (uuid7_time ip (JStr native)) (snd p)) (sc_starts sc) of
        Some (line, turn_id) \<Rightarrow> Some line
      | None \<Rightarrow> (case sc_trigger sc of
          None \<Rightarrow> None
        | Some t \<Rightarrow> if fold max (foreign_lines native sc) 0 < t then Some t else None))"

definition own_history :: "interp \<Rightarrow> pystr \<Rightarrow> scan \<Rightarrow> ownership" where
  "own_history ip native sc =
     (let m = (case matching_metadata native sc of Some m \<Rightarrow> m
           | None \<Rightarrow> (case sc_meta sc of [] \<Rightarrow> [] | p # _ \<Rightarrow> snd p)) in
      if \<not> is_subagent m
      then \<lparr>ow_matching = m, ow_boundary = Some 0, ow_subagent = False, ow_parent = JNull, ow_empty = False\<rparr>
      else let parent = parent_of native m;
               boundary = (if foreign_lines native sc = [] then Some 0 else child_boundary ip native sc) in
        \<lparr>ow_matching = m, ow_boundary = boundary, ow_subagent = True, ow_parent = parent, ow_empty = (boundary = None)\<rparr>)"

text \<open>
  The ownership text is only compared with other ownership texts, which are sorted JSON; the model
  keeps the value with its members in order.
\<close>

definition ownership_json :: "pystr \<Rightarrow> ownership \<Rightarrow> json" where
  "ownership_json native own = normal_json (JList [JStr native, JObj (ow_matching own),
     (case ow_boundary own of None \<Rightarrow> JNull | Some n \<Rightarrow> JInt (int n)), JBool (ow_subagent own), ow_parent own, JBool (ow_empty own)])"

section \<open>Turns\<close>

text \<open>The finished turns and the current one.\<close>

type_synonym turns = "turn list \<times> turn option"

definition user_block :: "pystr \<Rightarrow> json \<Rightarrow> pystr \<Rightarrow> block" where
  "user_block t time origin = [(lit ''type'', JStr (lit ''user_text'')), (lit ''text'', JStr t), (lit ''timestamp'', time),
     (lit ''user_origin'', JStr origin)]"

definition context_block :: "pystr \<Rightarrow> block" where
  "context_block t = [(lit ''type'', JStr (lit ''user_context'')), (lit ''text'', JStr t), (lit ''user_origin'', JStr (lit ''summary''))]"

definition new_turn :: "nat \<Rightarrow> json \<Rightarrow> pystr \<Rightarrow> pystr \<Rightarrow> pystr list \<Rightarrow> pystr option \<Rightarrow> turn" where
  "new_turn line time t origin contexts native = \<lparr>tn_time = time, tn_user = t, tn_assistant = [], tn_tools = [],
     tn_files = [], tn_commands = [], tn_blocks = user_block t time origin # map context_block contexts,
     tn_prov = Some \<lparr>pv_start = line, pv_end = line\<rparr>, tn_origin = origin, tn_native = native\<rparr>"

definition push :: "turns \<Rightarrow> turn \<Rightarrow> turns" where
  "push ts tn = (fst ts @ (case snd ts of None \<Rightarrow> [] | Some c \<Rightarrow> [c]), Some tn)"

definition set_current :: "turns \<Rightarrow> turn \<Rightarrow> turns" where
  "set_current ts tn = (fst ts, Some tn)"

definition agent_task :: "interp \<Rightarrow> pystr \<Rightarrow> (pystr \<times> json) list \<Rightarrow> nat \<Rightarrow> json \<Rightarrow> (pystr \<times> json) list \<Rightarrow> turn result" where
  "agent_task ip native m line time payload = bindR (extract_agent_task_text ip (get_or payload ''content'' (JStr []))) (\<lambda>t.
     let label = or_else (get m ''agent_path'') (or_else (get m ''agent_nickname'') (JStr native));
         t = (if t = [] then lit ''Subagent task: '' @ py_str ip label else t) in
     Inr (new_turn line time t (lit ''user'') [] None))"

text \<open>A user message, or nothing when it has no text of the user.\<close>

definition user_turn :: "interp \<Rightarrow> nat \<Rightarrow> json \<Rightarrow> (pystr \<times> json) list \<Rightarrow> turn option result" where
  "user_turn ip line time payload = bindR (extract_text (get_or payload ''content'' (JStr []))) (\<lambda>t.
     if t = [] then Inr None
     else bindR (is_known_control_envelope ip (JStr t)) (\<lambda>control.
       if control then Inr None
       else (case classify_user_content ip t of (u, origin, contexts) \<Rightarrow>
         if u = [] then Inr None
         else Inr (Some (new_turn line time u origin contexts
           (if truthy (get payload ''id'') then Some (py_str ip (get payload ''id'')) else None))))))"

definition assistant_text :: "nat \<Rightarrow> json \<Rightarrow> (pystr \<times> json) list \<Rightarrow> turn \<Rightarrow> turn result" where
  "assistant_text line time payload tn = bindR (extract_text (get_or payload ''content'' (JStr []))) (\<lambda>t.
     if t = [] then Inr tn
     else Inr (end_at line (tn\<lparr>tn_assistant := tn_assistant tn @ t @ [10],
       tn_blocks := tn_blocks tn @ [[(lit ''type'', JStr (lit ''assistant_text'')), (lit ''text'', JStr t), (lit ''timestamp'', time)]]\<rparr>)))"

fun append_calls :: "interp \<Rightarrow> nat \<Rightarrow> (pystr \<times> json) list \<Rightarrow> turn \<Rightarrow> turn result" where
  "append_calls ip line [] tn = Inr tn"
| "append_calls ip line ((name, inp) # cs) tn = bindR (append_tool_call ip (JStr name) inp line tn) (append_calls ip line cs)"

definition custom_tool_call :: "interp \<Rightarrow> nat \<Rightarrow> (pystr \<times> json) list \<Rightarrow> turn \<Rightarrow> turn result" where
  "custom_tool_call ip line payload tn =
     (let raw_name = get_or payload ''name'' (JStr (lit ''unknown''));
          inp = parse_arguments ip (get_or payload ''input'' (JStr [])) in
      bindR (append_tool_call ip raw_name inp line tn) (\<lambda>tn.
        if raw_name \<noteq> JStr (lit ''exec'') then Inr tn
        else bindR (structured_nested_tool_calls ip (JObj payload) inp) (\<lambda>nested.
          append_calls ip line (if nested = [] then static_nested_tool_calls ip (get_or payload ''input'' (JStr []))
            else nested) tn)))"

definition web_search :: "interp \<Rightarrow> nat \<Rightarrow> (pystr \<times> json) list \<Rightarrow> turn \<Rightarrow> turn" where
  "web_search ip line payload tn =
     (let inp = JObj [(lit ''action'', get_or payload ''action'' (JObj []))] in
      add_tool (JStr (lit ''WebSearch'')) inp (tool_input_summary ip (JStr (lit ''WebSearch'')) inp) line tn)"

definition call_output :: "interp \<Rightarrow> nat \<Rightarrow> (pystr \<times> json) list \<Rightarrow> turn \<Rightarrow> turn" where
  "call_output ip line payload tn = end_at line (tn\<lparr>tn_blocks := tn_blocks tn @
     [[(lit ''type'', JStr (lit ''tool_result'')), (lit ''tool_use_id'', get payload ''call_id''),
       (lit ''text'', JStr (extract_output_text ip payload))]]\<rparr>)"

text \<open>One response record, with the session's own identity and metadata.\<close>

definition in_turn :: "turns \<Rightarrow> (turn \<Rightarrow> turn result) \<Rightarrow> turns result" where
  "in_turn ts f = (case snd ts of None \<Rightarrow> Inr ts | Some tn \<Rightarrow> bindR (f tn) (\<lambda>tn. Inr (set_current ts tn)))"

definition response_payload :: "interp \<Rightarrow> pystr \<Rightarrow> ownership \<Rightarrow> nat \<Rightarrow> json \<Rightarrow> (pystr \<times> json) list \<Rightarrow> turns \<Rightarrow> turns result" where
  "response_payload ip native own line time payload ts =
     (let ptype = get payload ''type''; role = get payload ''role'' in
      if ptype = JStr (lit ''agent_message'') \<and> ow_subagent own \<and> snd ts = None
      then bindR (agent_task ip native (ow_matching own) line time payload) (\<lambda>tn. Inr (push ts tn))
      else if ptype = JStr (lit ''message'') then
        (if role = JStr (lit ''user'')
         then bindR (user_turn ip line time payload) (\<lambda>r. Inr (case r of None \<Rightarrow> ts | Some tn \<Rightarrow> push ts tn))
         else if role = JStr (lit ''assistant'') then in_turn ts (assistant_text line time payload)
         else Inr ts)
      else if ptype = JStr (lit ''function_call'')
      then in_turn ts (append_tool_call ip (get_or payload ''name'' (JStr (lit ''unknown'')))
        (parse_arguments ip (get_or payload ''arguments'' (JObj []))) line)
      else if ptype = JStr (lit ''custom_tool_call'') then in_turn ts (custom_tool_call ip line payload)
      else if ptype = JStr (lit ''web_search_call'') then in_turn ts (\<lambda>tn. Inr (web_search ip line payload tn))
      else if ptype = JStr (lit ''function_call_output'') \<or> ptype = JStr (lit ''custom_tool_call_output'')
      then in_turn ts (\<lambda>tn. Inr (call_output ip line payload tn))
      else Inr ts)"

definition response_record :: "interp \<Rightarrow> pystr \<Rightarrow> ownership \<Rightarrow> nat \<Rightarrow> (pystr \<times> json) list \<Rightarrow> turns \<Rightarrow> turns result" where
  "response_record ip native own line kvs ts =
     (if get kvs ''type'' \<noteq> JStr (lit ''response_item'') then Inr ts
      else bindR (object_of (payload_of kvs)) (\<lambda>payload.
        response_payload ip native own line (get_or kvs ''timestamp'' (JStr [])) payload ts))"

definition all_turns :: "turns \<Rightarrow> turn list" where
  "all_turns ts = fst ts @ (case snd ts of None \<Rightarrow> [] | Some tn \<Rightarrow> [tn])"

definition finish_turn :: "turn \<Rightarrow> turn" where
  "finish_turn tn = tn\<lparr>tn_assistant := strip (tn_assistant tn), tn_files := dedup_from [] (tn_files tn),
     tn_commands := dedup_from [] (tn_commands tn)\<rparr>"

section \<open>A session\<close>

text \<open>
  A path is its file name and its directory; the identity is the name's stem, or its last five
  parts for a rollout.
\<close>

record path =
  path_name :: pystr
  path_dir :: pystr

fun split_on :: "nat \<Rightarrow> pystr \<Rightarrow> pystr list" where
  "split_on c [] = [[]]"
| "split_on c (x # s) = (case split_on c s of [] \<Rightarrow> [[x]] | p # ps \<Rightarrow> if x = c then [] # p # ps else (x # p) # ps)"

definition path_stem :: "pystr \<Rightarrow> pystr" where
  "path_stem name = (let parts = split_on 46 name in
     if length parts \<le> 1 \<or> last parts = [] \<or> join [46] (butlast parts) = [] then name else join [46] (butlast parts))"

definition session_id_from_path :: "path \<Rightarrow> pystr" where
  "session_id_from_path p = (let s = path_stem (path_name p); parts = split_on 45 s in
     if starts_with s (lit ''rollout-'') \<and> 6 \<le> length parts then join [45] (drop (length parts - 5) parts) else s)"

text \<open>\<open>_load_thread_names\<close> of the lines of the index; a row that is not an object raises.\<close>

fun load_thread_names :: "interp \<Rightarrow> pystr list \<Rightarrow> (json \<times> json) list \<Rightarrow> (json \<times> json) list result" where
  "load_thread_names ip [] names = Inr names"
| "load_thread_names ip (l # ls) names = (case py_loads ip l of
       None \<Rightarrow> load_thread_names ip ls names
     | Some row \<Rightarrow> bindR (object_of row) (\<lambda>kvs.
         let sid = get kvs ''id''; name = get kvs ''thread_name'' in
         if truthy sid \<and> truthy name
         then (if unhashable sid then Inl (TypeError ''unhashable type'') else load_thread_names ip ls (AList.update sid name names))
         else load_thread_names ip ls names))"

text \<open>Where a resumed parse goes on: the ownership it expects, the bytes from its turn on, and the line.\<close>

record resume =
  rs_ownership :: json
  rs_rest :: bytes
  rs_line :: nat

record parse_out =
  po_session :: parsed
  po_kept :: "item list"
  po_ownership :: "json option"
  po_resumed :: bool

definition foreign_session :: "pystr \<Rightarrow> path \<Rightarrow> (pystr \<times> json) list \<Rightarrow> parsed" where
  "foreign_session native p m = \<lparr>ps_slug = JStr native, ps_turns = [],
     ps_project = or_else (get m ''cwd'') (JStr (path_dir p)), ps_subagent = True,
     ps_parent = or_else (get m ''id'') (get m ''session_id''), ps_native = native, ps_empty = True\<rparr>"

definition session_label :: "pystr \<Rightarrow> (pystr \<times> json) list \<Rightarrow> (json \<times> json) list \<Rightarrow> json result" where
  "session_label native m names =
     (let thread_id = or_else (get m ''id'') (or_else (get m ''session_id'') (JStr native)) in
      if unhashable thread_id then Inl (TypeError ''unhashable type'')
      else Inr (or_else (case map_of names thread_id of None \<Rightarrow> JNull | Some n \<Rightarrow> n)
        (or_else (get m ''agent_nickname'') (or_else (get m ''agent_path'') thread_id))))"

definition foreign_only :: "pystr \<Rightarrow> scan \<Rightarrow> bool" where
  "foreign_only native sc \<longleftrightarrow> matching_metadata native sc = None \<and> (\<exists>p \<in> set (sc_meta sc). truthy (get (snd p) ''id''))"

definition parse_turns :: "interp \<Rightarrow> bool \<Rightarrow> pystr \<Rightarrow> ownership \<Rightarrow> nat \<Rightarrow> bytes \<Rightarrow> turn list result" where
  "parse_turns ip strict native own start_line content =
     bindR (fold_items (response_record ip native own) (iter_json_records ip strict (ow_boundary own) start_line content) ([], None))
       (\<lambda>ts. Inr (map finish_turn (all_turns ts)))"

definition parse_session :: "interp \<Rightarrow> bool \<Rightarrow> (json \<times> json) list \<Rightarrow> path \<Rightarrow> item list \<Rightarrow> bytes \<Rightarrow> resume option
    \<Rightarrow> parse_out result" where
  "parse_session ip strict names p metadata content resume =
     (let native = session_id_from_path p in
      bindR (scan_metadata metadata) (\<lambda>sc.
        if foreign_only native sc
        then Inr \<lparr>po_session = foreign_session native p (snd (hd (sc_meta sc))), po_kept = sc_kept sc,
          po_ownership = None, po_resumed = False\<rparr>
        else let own = own_history ip native sc; otext = ownership_json native own;
                 resumed = (case resume of None \<Rightarrow> False | Some r \<Rightarrow> rs_ownership r = otext) in
          bindR (case resume of
              Some r \<Rightarrow> if resumed then parse_turns ip strict native own (rs_line r - 1) (rs_rest r)
                else parse_turns ip strict native own 0 content
            | None \<Rightarrow> parse_turns ip strict native own 0 content) (\<lambda>turns.
          bindR (session_label native (ow_matching own) names) (\<lambda>label.
            Inr \<lparr>po_session = \<lparr>ps_slug = label, ps_turns = turns,
                ps_project = or_else (get (ow_matching own) ''cwd'') (JStr (path_dir p)), ps_subagent = ow_subagent own,
                ps_parent = ow_parent own, ps_native = native, ps_empty = ow_empty own\<rparr>,
              po_kept = sc_kept sc, po_ownership = Some otext, po_resumed = resumed\<rparr>))))"

definition parse_file :: "interp \<Rightarrow> bool \<Rightarrow> (json \<times> json) list \<Rightarrow> path \<Rightarrow> bytes \<Rightarrow> parse_out result" where
  "parse_file ip strict names p content =
     parse_session ip strict names p (iter_json_records ip strict (Some 0) 0 content) content None"

end
