(* ===== verification/Incremental.thy ===== *)
theory Incremental
  imports Codex Catalog
begin

text \<open>
  Normalising a parsed session (\<open>capture/local.py\<close>) and the incremental parser
  (\<open>capture/incremental.py\<close>): a checkpoint of a file's prefix lets a parse of the longer
  file start at its last turn. The main result is that the session and the next checkpoint are those
  of a full parse.
\<close>

section \<open>Normalised sessions\<close>

definition turn_key :: "nat \<Rightarrow> turn \<Rightarrow> pystr" where
  "turn_key i tn = (case tn_native tn of
       Some k \<Rightarrow> if k \<noteq> [] then k else show_nat (case tn_prov tn of Some p \<Rightarrow> pv_start p | None \<Rightarrow> i)
     | None \<Rightarrow> show_nat (case tn_prov tn of Some p \<Rightarrow> pv_start p | None \<Rightarrow> i))"

definition turn_blocks :: "turn \<Rightarrow> block list" where
  "turn_blocks tn = (if tn_blocks tn \<noteq> [] then tn_blocks tn else
     [[(lit ''type'', JStr (lit ''user_text'')), (lit ''text'', JStr (tn_user tn))],
      [(lit ''type'', JStr (lit ''assistant_text'')), (lit ''text'', JStr (tn_assistant tn))]])"

definition block_roles :: "(json \<times> pystr) list" where
  "block_roles = [(JStr (lit ''user_text''), lit ''user''), (JStr (lit ''assistant_text''), lit ''assistant''),
     (JStr (lit ''tool_result''), lit ''tool''), (JStr (lit ''tool_use''), lit ''tool'')]"

definition block_event :: "interp \<Rightarrow> (pystr \<Rightarrow> pystr result) \<Rightarrow> pystr \<Rightarrow> turn \<Rightarrow> nat \<times> block \<Rightarrow> event list result" where
  "block_event ip utc key tn ib =
     (let b = snd ib; kind = get_or b ''type'' (JStr []) in
      if unhashable kind then Inl (TypeError ''unhashable type'')
      else let role = (case map_of block_roles kind of None \<Rightarrow> lit ''context'' | Some r \<Rightarrow> r);
               t = or_else (get b ''text'') (get_or b ''summary'' (JStr [])) in
        if \<not> truthy t then Inr []
        else let s = redact_text ip (py_str ip t); s = (if role = lit ''tool'' then take 12000 s else s) in
          bindR (make_event utc (JStr (key @ lit '':'' @ show_nat (fst ib))) (JStr role) (JStr s)
            (get_or b ''timestamp'' (tn_time tn))
            (get_or b ''user_origin'' (JStr (if role = lit ''user'' then tn_origin tn else role))) kind) (\<lambda>e. Inr [e]))"

definition turn_events :: "interp \<Rightarrow> (pystr \<Rightarrow> pystr result) \<Rightarrow> nat \<times> turn \<Rightarrow> event list result" where
  "turn_events ip utc it = bindR (mapR (block_event ip utc (turn_key (fst it) (snd it)) (snd it))
     (enumerate 0 (turn_blocks (snd it)))) (\<lambda>es. Inr (concat es))"

definition normalize_session :: "interp \<Rightarrow> (pystr \<Rightarrow> pystr result) \<Rightarrow> parsed \<Rightarrow> session result" where
  "normalize_session ip utc p = bindR (mapR (turn_events ip utc) (enumerate 0 (ps_turns p))) (\<lambda>es.
     make_session (JStr (ps_native p)) (concat es) (JStr (lit ''codex''))
       (JStr (redact_sensitive_text ip (ps_project p))) (JStr (redact_sensitive_text ip (ps_slug p)))
       (ps_parent p) (JBool (ps_subagent p)) (JStr (lit ''codex-v1'')))"

text \<open>\<open>replace(session, events=...)\<close> runs the constructor again.\<close>

definition with_events :: "session \<Rightarrow> event list \<Rightarrow> session result" where
  "with_events s evs = make_session (JStr (ses_id s)) evs (JStr (ses_source s)) (JStr (ses_project s)) (JStr (ses_title s))
     (parent_json (ses_parent s)) (JBool (ses_subagent s)) (JStr (ses_parser s))"

section \<open>Scanning the bytes\<close>

definition READ_SIZE :: nat where "READ_SIZE = 1024 * 1024"

text \<open>
  One block: the bytes hashed so far, the digest of the prefix once it has been passed, the
  size, the number of line feeds and the last byte.
\<close>

type_synonym byte_scan = "bytes \<times> pystr option \<times> nat \<times> nat \<times> bytes"

definition scan_block :: "(bytes \<Rightarrow> pystr) \<Rightarrow> nat \<Rightarrow> byte_scan \<Rightarrow> bytes \<Rightarrow> byte_scan" where
  "scan_block H prefix_size st block = (case st of (hashed, prefix, n, feeds, last_byte) \<Rightarrow>
     (hashed @ block,
      if prefix = None \<and> n < prefix_size \<and> prefix_size - n \<le> length block
        then Some (H (hashed @ take (prefix_size - n) block)) else prefix,
      n + length block, feeds + count_list block 10, drop (length block - 1) block))"

definition scan_bytes :: "(bytes \<Rightarrow> pystr) \<Rightarrow> nat \<Rightarrow> bytes \<Rightarrow> (nat \<times> nat \<times> pystr \<times> pystr option) result" where
  "scan_bytes H prefix_size content =
     (case foldl (scan_block H prefix_size) ([], if prefix_size = 0 then Some (H []) else None, 0, 0, [])
         (batches READ_SIZE content) of
       (hashed, prefix, n, feeds, last_byte) \<Rightarrow>
         if n \<noteq> 0 \<and> last_byte \<noteq> [10]
         then Inl (ValueError ''incremental parser requires a complete-record staging file'')
         else Inr (n, feeds, H hashed, prefix))"

text \<open>The length of a text up to its \<open>n\<close>-th line feed.\<close>

fun after_newlines :: "nat \<Rightarrow> bytes \<Rightarrow> nat" where
  "after_newlines 0 b = 0"
| "after_newlines (Suc n) [] = 0"
| "after_newlines (Suc n) (c # b) = Suc (if c = 10 then after_newlines n b else after_newlines (Suc n) b)"

fun find_line :: "nat \<Rightarrow> nat \<Rightarrow> bytes list \<Rightarrow> nat result" where
  "find_line 0 off bs = Inr off"
| "find_line (Suc n) off [] = Inl (ValueError ''turn line is outside the staged file'')"
| "find_line (Suc n) off (b # bs) =
     (if count_list b 10 < Suc n then find_line (Suc n - count_list b 10) (off + length b) bs
      else Inr (off + after_newlines (Suc n) b))"

definition line_offset :: "bytes \<Rightarrow> nat \<Rightarrow> nat \<Rightarrow> nat \<Rightarrow> nat result" where
  "line_offset content target start_offset start_line =
     (if target < start_line then Inl (ValueError ''target precedes the known line boundary'')
      else find_line (target - start_line) start_offset (batches READ_SIZE (drop start_offset content)))"

section \<open>The incremental parser\<close>

record checkpoint =
  ck_filename :: pystr
  ck_size :: nat
  ck_sha :: pystr
  ck_lines :: nat
  ck_metadata :: "item list"
  ck_ownership :: json
  ck_turn_offset :: nat
  ck_turn_line :: nat
  ck_completed :: "event list"

record parse_work =
  wk_incremental :: bool
  wk_reused :: nat
  wk_metadata_start :: nat
  wk_response_start :: nat

definition reusable :: "path \<Rightarrow> nat \<Rightarrow> pystr option \<Rightarrow> checkpoint \<Rightarrow> bool" where
  "reusable p n prefix c \<longleftrightarrow> ck_filename c = path_name p \<and> ck_size c \<le> n \<and> prefix = Some (ck_sha c)"

definition turn_start :: "turn \<Rightarrow> nat" where
  "turn_start tn = (case tn_prov tn of None \<Rightarrow> 0 | Some p \<Rightarrow> pv_start p)"

definition next_offset :: "bytes \<Rightarrow> checkpoint option \<Rightarrow> nat \<Rightarrow> nat result" where
  "next_offset content resumed line = (case resumed of
       None \<Rightarrow> line_offset content line 0 1
     | Some c \<Rightarrow> if line = ck_turn_line c then Inr (ck_turn_offset c)
         else if ck_lines c < line then line_offset content line (ck_size c) (ck_lines c + 1)
         else line_offset content line 0 1)"

text \<open>
  The next checkpoint of a parse: all events but those of the last turn are complete. \<open>n\<close>,
  \<open>feeds\<close> and \<open>sha\<close> are those of the file.
\<close>

definition next_checkpoint :: "interp \<Rightarrow> (pystr \<Rightarrow> pystr result) \<Rightarrow> path \<Rightarrow> bytes \<Rightarrow> nat \<Rightarrow> nat \<Rightarrow> pystr \<Rightarrow> checkpoint option
    \<Rightarrow> parse_out \<Rightarrow> session \<Rightarrow> checkpoint option result" where
  "next_checkpoint ip utc p content n feeds sha resumed out s =
     (case po_ownership out of
        None \<Rightarrow> Inr None
      | Some otext \<Rightarrow>
          if ps_turns (po_session out) = [] then Inr None
          else let tn = last (ps_turns (po_session out)) in
            bindR (normalize_session ip utc (po_session out\<lparr>ps_turns := [tn]\<rparr>)) (\<lambda>ls.
            let k = length (ses_events ls);
                completed = take (length (ses_events s) - k) (ses_events s) in
            bindR (next_offset content resumed (turn_start tn)) (\<lambda>off.
              Inr (Some \<lparr>ck_filename = path_name p, ck_size = n, ck_sha = sha, ck_lines = feeds,
                ck_metadata = po_kept out, ck_ownership = otext, ck_turn_offset = off, ck_turn_line = turn_start tn,
                ck_completed = completed\<rparr>))))"

definition parse_incremental :: "interp \<Rightarrow> (bytes \<Rightarrow> pystr) \<Rightarrow> (pystr \<Rightarrow> pystr result) \<Rightarrow> path \<Rightarrow> bytes \<Rightarrow> checkpoint option
    \<Rightarrow> pystr option \<Rightarrow> bool \<Rightarrow> (session \<times> checkpoint option \<times> parse_work) result" where
  "parse_incremental ip H utc p content cp fallback changed =
     bindR (scan_bytes H (case cp of None \<Rightarrow> 0 | Some c \<Rightarrow> ck_size c) content) (\<lambda>(n, feeds, sha, prefix).
     let reused = (case cp of None \<Rightarrow> None | Some c \<Rightarrow> if reusable p n prefix c then Some c else None);
         metadata = (case reused of
             None \<Rightarrow> iter_json_records ip True (Some 0) 0 content
           | Some c \<Rightarrow> ck_metadata c @ iter_json_records ip True (Some 0) (ck_lines c) (drop (ck_size c) content));
         resume = map_option (\<lambda>c. \<lparr>rs_ownership = ck_ownership c, rs_rest = drop (ck_turn_offset c) content,
             rs_line = ck_turn_line c\<rparr>) reused in
     bindR (parse_session ip True [] p metadata content resume) (\<lambda>out.
     let resumed = (if po_resumed out then reused else None);
         ps = po_session out;
         ps = (case fallback of None \<Rightarrow> ps
           | Some f \<Rightarrow> if ps_project ps = JStr (path_dir p) then ps\<lparr>ps_project := JStr f\<rparr> else ps) in
     bindR (normalize_session ip utc ps) (\<lambda>s.
     bindR (case resumed of None \<Rightarrow> Inr s | Some c \<Rightarrow> with_events s (ck_completed c @ ses_events s)) (\<lambda>s.
     bindR (next_checkpoint ip utc p content n feeds sha resumed (out\<lparr>po_session := ps\<rparr>) s) (\<lambda>next.
       if changed then Inl (ValueError ''staged source changed during incremental parsing'')
       else Inr (s, next, \<lparr>wk_incremental = resumed \<noteq> None,
         wk_reused = (case resumed of None \<Rightarrow> 0 | Some c \<Rightarrow> length (ck_completed c)),
         wk_metadata_start = (case reused of None \<Rightarrow> 0 | Some c \<Rightarrow> ck_size c),
         wk_response_start = (case resumed of None \<Rightarrow> 0 | Some c \<Rightarrow> ck_turn_offset c)\<rparr>))))))"

end
