(* ===== verification/Resume.thy ===== *)
theory Resume
  imports Incremental
begin

text \<open>
  The incremental parser gives what a full parse gives. The proof follows the four things a
  checkpoint stands for: the bytes of the prefix (hashed and counted in blocks), the metadata kept
  from it (folding it again gives the same scan), the turns in front of the last one (what comes
  later only extends the list), and their events (which do not depend on the turn's position).
\<close>

section \<open>Bytes and lines\<close>

definition complete :: "bytes \<Rightarrow> bool" where
  "complete b \<longleftrightarrow> b = [] \<or> last b = 10"

text \<open>
  Text mode takes a carriage return without a line feed for the end of a line, the incremental
  parser counts line feeds; a document of the statements below has none.
\<close>

fun lone_cr :: "bytes \<Rightarrow> bool" where
  "lone_cr [] = False"
| "lone_cr (c # s) \<longleftrightarrow> c = 13 \<and> take 1 s \<noteq> [10] \<or> lone_cr s"

lemma complete_Nil [simp]: "complete []"
  by (simp add: complete_def)

lemma complete_append: "complete a \<Longrightarrow> complete (a @ b) = complete b"
  by (cases "b = []") (simp_all add: complete_def)

lemma lone_cr_append: "complete a \<Longrightarrow> lone_cr (a @ b) \<longleftrightarrow> lone_cr a \<or> lone_cr b"
proof (induction a)
  case (Cons c a)
  show ?case
  proof (cases "a = []")
    case True
    with Cons.prems show ?thesis by (simp add: complete_def)
  next
    case False
    then obtain x t where "a = x # t" by (cases a) simp_all
    with Cons show ?thesis by (auto simp: complete_def)
  qed
qed simp

lemma text_lines_append:
  assumes "if a = [] then acc = [] else last a = 10"
  shows "text_lines acc (a @ b) = text_lines acc a @ text_lines [] b"
  using assms
proof (induction acc a rule: text_lines.induct)
  case (2 acc c s)
  consider "c = 10" | "c = 13" | "c \<noteq> 10" "c \<noteq> 13" by blast
  then show ?case
  proof cases
    case 1
    have "if s = [] then True else last s = 10" using 2(4) 1 by (auto split: if_splits)
    with 2(1) 1 show ?thesis by simp
  next
    case 2
    with \<open>if c # s = [] then _ else _\<close> obtain x t where s: "s = x # t" by (cases s) (simp_all split: if_splits)
    have t: "if t = [] then True else last t = 10" "if s = [] then True else last s = 10"
      using \<open>if c # s = [] then _ else _\<close> s by (simp_all split: if_splits)
    show ?thesis
      using 2 s "2.IH"(2) t by (cases "x = 10") simp_all
  next
    case 3
    with 2(4) have "s \<noteq> []" by auto
    with 2(3,4) 3 show ?thesis by simp
  qed
qed simp

lemma length_text_lines:
  assumes "if a = [] then acc = [] else last a = 10" and "\<not> lone_cr a"
  shows "length (text_lines acc a) = count_list a 10"
  using assms
proof (induction acc a rule: text_lines.induct)
  case (2 acc c s)
  consider "c = 10" | "c = 13" | "c \<noteq> 10" "c \<noteq> 13" by blast
  then show ?case
  proof cases
    case 1
    with 2(1,4,5) show ?thesis by (simp split: if_splits)
  next
    case 2
    with \<open>\<not> lone_cr (c # s)\<close> obtain t where s: "s = 10 # t" by (cases s) simp_all
    have "length (text_lines [] t) = count_list t 10"
      using "2.IH"(2) 2 s "2.prems" by (simp split: if_splits)
    with 2 s show ?thesis by simp
  next
    case 3
    with 2(4) have "s \<noteq> []" by auto
    with 2(3-5) 3 show ?thesis by simp
  qed
qed (simp split: if_splits)

lemma after_newlines_append: "after_newlines n (a @ b) =
   (if n \<le> count_list a 10 then after_newlines n a else length a + after_newlines (n - count_list a 10) b)"
  by (induction n a rule: after_newlines.induct) (auto simp: Suc_diff_Suc not_le less_Suc_eq_le split: if_splits)

lemma after_newlines_all: "complete a \<Longrightarrow> after_newlines (count_list a 10) a = length a"
proof (induction a)
  case (Cons c a)
  show ?case
  proof (cases "a = []")
    case True
    with Cons.prems show ?thesis by (simp add: complete_def)
  next
    case False
    have a: "complete a" "a \<noteq> []" using Cons.prems False by (simp_all add: complete_def)
    then have "10 \<in> set a" by (metis complete_def last_in_set)
    then have "0 < count_list a 10" using count_list_0_iff [of a 10] by linarith
    then obtain k where "count_list a 10 = Suc k" by (cases "count_list a 10") simp_all
    with Cons.IH [OF a(1)] show ?thesis by simp
  qed
qed simp

lemma take_after_newlines:
  assumes "n \<le> count_list a 10"
  shows "complete (take (after_newlines n a) a)" "count_list (take (after_newlines n a) a) 10 = n"
    "after_newlines n a \<le> length a"
proof -
  have "complete (take (after_newlines n a) a) \<and> count_list (take (after_newlines n a) a) 10 = n \<and> after_newlines n a \<le> length a"
    using assms
  proof (induction n a rule: after_newlines.induct)
    case (3 n c b)
    show ?case
    proof (cases "c = 10")
      case True
      with 3 have "complete (take (after_newlines n b) b) \<and> count_list (take (after_newlines n b) b) 10 = n
        \<and> after_newlines n b \<le> length b" by simp
      with True show ?thesis by (auto simp: complete_def)
    next
      case False
      with 3 have IH: "complete (take (after_newlines (Suc n) b) b) \<and> count_list (take (after_newlines (Suc n) b) b) 10 = Suc n
        \<and> after_newlines (Suc n) b \<le> length b" by simp
      then have "take (after_newlines (Suc n) b) b \<noteq> []" by (metis count_list.simps(1) nat.distinct(1))
      with IH False show ?thesis by (auto simp: complete_def)
    qed
  qed simp_all
  then show "complete (take (after_newlines n a) a)" "count_list (take (after_newlines n a) a) 10 = n"
    "after_newlines n a \<le> length a" by auto
qed

lemma find_line_eq: "find_line r off bs = (if r \<le> count_list (concat bs) 10
   then Inr (off + after_newlines r (concat bs)) else Inl (ValueError ''turn line is outside the staged file''))"
proof (induction r off bs rule: find_line.induct)
  case (3 n off b bs)
  show ?case
  proof (cases "count_list b 10 < Suc n")
    case True
    with 3 show ?thesis by (auto simp: after_newlines_append)
  next
    case False
    then show ?thesis by (simp add: after_newlines_append)
  qed
qed simp_all

lemma line_offset_eq: "start \<le> target \<Longrightarrow> line_offset content target off start =
   (if target - start \<le> count_list (drop off content) 10 then Inr (off + after_newlines (target - start) (drop off content))
    else Inl (ValueError ''turn line is outside the staged file''))"
  by (simp add: line_offset_def find_line_eq concat_batches READ_SIZE_def)

section \<open>Hashing in blocks\<close>

definition scanned :: "(bytes \<Rightarrow> pystr) \<Rightarrow> nat \<Rightarrow> bytes \<Rightarrow> bytes \<Rightarrow> byte_scan" where
  "scanned H k x l = (x, if k \<le> length x then Some (H (take k x)) else None, length x, count_list x 10, l)"

lemma scan_block_scanned: "scan_block H k (scanned H k x l) b = scanned H k (x @ b) (drop (length b - 1) b)"
  by (auto simp: scan_block_def scanned_def)

lemma batches_nonempty: "b \<in> set (batches n xs) \<Longrightarrow> b \<noteq> []"
  by (induction n xs rule: batches.induct) (subst (asm) batches.simps, auto split: if_splits)

lemma foldl_scanned: "foldl (scan_block H k) (scanned H k x l) bs
   = scanned H k (x @ concat bs) (if bs = [] then l else drop (length (last bs) - 1) (last bs))"
  by (induction bs arbitrary: x l) (simp_all add: scan_block_scanned)

lemma last_concat: "\<forall>b \<in> set bs. b \<noteq> [] \<Longrightarrow> bs \<noteq> [] \<Longrightarrow> last (concat bs) = last (last bs)"
  by (induction bs) auto

lemma drop_last: "b \<noteq> [] \<Longrightarrow> drop (length b - 1) b = [last b]"
  by (cases b rule: rev_cases) simp_all

lemma scan_bytes_eq: "scan_bytes H k c = (if complete c
   then Inr (length c, count_list c 10, H c, if k \<le> length c then Some (H (take k c)) else None)
   else Inl (ValueError ''incremental parser requires a complete-record staging file''))"
proof -
  let ?bs = "batches READ_SIZE c"
  have c: "concat ?bs = c" by (simp add: concat_batches READ_SIZE_def)
  have ne: "\<forall>b \<in> set ?bs. b \<noteq> []" by (blast dest: batches_nonempty)
  let ?l = "if ?bs = [] then [] else drop (length (last ?bs) - 1) (last ?bs)"
  have "foldl (scan_block H k) (scanned H k [] []) ?bs = scanned H k c ?l"
    by (simp only: foldl_scanned c append_Nil)
  moreover have "scanned H k [] [] = ([], if k = 0 then Some (H []) else None, 0, 0, [])" by (simp add: scanned_def)
  moreover have "?l \<noteq> [10] \<longleftrightarrow> \<not> complete c" if "c \<noteq> []"
  proof -
    have bs: "?bs \<noteq> []" using c that by auto
    with ne have "last ?bs \<noteq> []" by simp
    with bs show ?thesis using last_concat [OF ne bs] c that drop_last [of "last ?bs"] by (simp add: complete_def)
  qed
  ultimately show ?thesis by (cases "c = []") (auto simp: scan_bytes_def scanned_def)
qed

section \<open>Records\<close>

lemma enumerate_append: "enumerate n (xs @ ys) = enumerate n xs @ enumerate (n + length xs) ys"
  by (induction xs arbitrary: n) simp_all

lemma iter_append:
  assumes "complete a" "\<not> lone_cr a"
  shows "iter_json_records ip st n k (a @ b)
    = iter_json_records ip st n k a @ iter_json_records ip st n (k + count_list a 10) b"
proof -
  have a: "if a = [] then [] = [] else last a = 10" using assms(1) by (auto simp: complete_def)
  have "text_lines [] (a @ b) = text_lines [] a @ text_lines [] b" using a by (rule text_lines_append)
  moreover have "length (text_lines [] a) = count_list a 10" using a assms(2) by (rule length_text_lines)
  ultimately show ?thesis by (simp add: iter_json_records_def enumerate_append split: option.split)
qed

lemma fold_items_append: "fold_items f (xs @ ys) s = bindR (fold_items f xs s) (fold_items f ys)"
proof (induction f xs s rule: fold_items.induct)
  case (2 f line r items s)
  show ?case
  proof (cases r)
    case (Inr kvs)
    with 2 show ?thesis by (cases "f line kvs s") simp_all
  qed simp
qed simp

text \<open>Line numbers grow.\<close>

lemma decode_line_fst: "it \<in> set (decode_line ip st n nl) \<Longrightarrow> fst it = fst nl"
  by (auto simp: decode_line_def split: option.splits json.splits if_splits)

lemma length_decode_line: "length (decode_line ip st n nl) \<le> 1"
  by (auto simp: decode_line_def split: option.splits json.splits if_splits)

lemma decoded_after: "it \<in> set (concat (map (decode_line ip st n) (enumerate k ls))) \<Longrightarrow> k \<le> fst it"
  by (induction ls arbitrary: k) (auto dest: decode_line_fst dest!: Suc_leD)

lemma iter_after: "it \<in> set (iter_json_records ip st n k x) \<Longrightarrow> k < fst it"
  by (auto simp: iter_json_records_def split: option.splits dest!: decoded_after simp del: set_concat)

lemma decoded_before: "it \<in> set (concat (map (decode_line ip st n) (enumerate k ls))) \<Longrightarrow> fst it < k + length ls"
  by (induction ls arbitrary: k) (auto dest: decode_line_fst simp del: set_concat, fastforce)

lemma iter_before: "it \<in> set (iter_json_records ip st n k x) \<Longrightarrow> fst it \<le> k + length (text_lines [] x)"
  by (auto simp: iter_json_records_def split: option.splits dest!: decoded_before simp del: set_concat)

lemma iter_sorted: "sorted_wrt (<) (map fst (iter_json_records ip st n k x))"
proof -
  have "sorted_wrt (<) (map fst (concat (map (decode_line ip st m) (enumerate k ls))))" for m k ls
  proof (induction ls arbitrary: k)
    case (Cons l ls)
    have "sorted_wrt (<) (map fst (decode_line ip st m (k, l)))"
      using length_decode_line [of ip st m "(k, l)"] by (cases "decode_line ip st m (k, l)") simp_all
    with Cons show ?case by (fastforce simp: sorted_wrt_append dest: decode_line_fst decoded_after simp del: set_concat)
  qed simp
  then show ?thesis by (simp add: iter_json_records_def split: option.split)
qed

section \<open>The metadata scan again\<close>

lemma jget_selected: "k \<in> set ks \<Longrightarrow> distinct ks \<Longrightarrow>
   jget (concat (map (\<lambda>k. case jget kvs k of None \<Rightarrow> [] | Some v \<Rightarrow> [(lit k, v)]) ks)) k = jget kvs k"
proof (induction ks)
  case (Cons j ks)
  let ?c = "\<lambda>ks. concat (map (\<lambda>k. case jget kvs k of None \<Rightarrow> [] | Some v \<Rightarrow> [(lit k, v)]) ks)"
  have keys: "fst ` set (?c ks) \<subseteq> lit ` set ks" for ks by (auto split: option.splits)
  show ?case
  proof (cases "k = j")
    case True
    with Cons.prems keys [of ks] have "map_of (?c ks) (lit k) = None" by (auto simp: map_of_eq_None_iff)
    then show ?thesis using True by (simp add: jget_def split: option.split)
  next
    case False
    then have "jget (?c (j # ks)) k = jget (?c ks) k" by (simp add: jget_def split: option.split)
    with Cons False show ?thesis by simp
  qed
qed simp

lemma select_metadata_again: "select_metadata p = Inr m \<Longrightarrow> select_metadata (JObj m) = Inr m"
proof (cases p)
  case (JObj kvs)
  moreover assume "select_metadata p = Inr m"
  ultimately have m: "m = concat (map (\<lambda>k. case jget kvs k of None \<Rightarrow> [] | Some v \<Rightarrow> [(lit k, v)]) metadata_keys)"
    by (simp add: select_metadata_def)
  have "distinct metadata_keys" by (simp add: metadata_keys_def)
  then have "map (\<lambda>k. case jget m k of None \<Rightarrow> [] | Some v \<Rightarrow> [(lit k, v)]) metadata_keys
     = map (\<lambda>k. case jget kvs k of None \<Rightarrow> [] | Some v \<Rightarrow> [(lit k, v)]) metadata_keys"
    unfolding m by (intro map_cong refl) (simp only: jget_selected)
  then have "select_metadata (JObj m) = Inr (concat (map (\<lambda>k. case jget kvs k of None \<Rightarrow> [] | Some v \<Rightarrow> [(lit k, v)]) metadata_keys))"
    by (simp only: select_metadata_def json.case)
  then show ?thesis by (simp only: m)
next
  case (JList xs)
  moreover assume "select_metadata p = Inr m"
  ultimately have "m = []" by (simp add: select_metadata_def split: if_splits)
  then show ?thesis by (simp add: select_metadata_def jget_def)
next
  case (JStr xs)
  moreover assume "select_metadata p = Inr m"
  ultimately have "m = []" by (simp add: select_metadata_def split: if_splits)
  then show ?thesis by (simp add: select_metadata_def jget_def)
qed (simp_all add: select_metadata_def)

lemma get_event_record [simp]:
  "get (event_record t p) ''type'' = JStr (lit t)" "payload_of (event_record t p) = JObj p"
  by (simp_all add: event_record_def payload_of_def get_or_def jget_def)

lemma object_of_JObj [simp]: "object_of (JObj kvs) = Inr kvs"
  by (simp add: object_of_def)

lemma get_kept [simp]: "get [(lit ''trigger_turn'', v)] ''trigger_turn'' = v"
  "get [(lit ''type'', v), (lit ''turn_id'', w)] ''type'' = v" "get [(lit ''type'', v), (lit ''turn_id'', w)] ''turn_id'' = w"
  by (simp_all add: get_or_def jget_def)

lemma scan_record_again:
  assumes "scan_record line kvs sc = Inr sc'" "fold_items scan_record (sc_kept sc) empty_scan = Inr sc"
  shows "fold_items scan_record (sc_kept sc') empty_scan = Inr sc'"
proof (cases "sc_kept sc' = sc_kept sc")
  case True
  have "sc' = sc"
    using assms(1) True
    by (auto simp: scan_record_def scan_started_def bindR_Inr_iff split: if_splits)
  with assms(2) show ?thesis by simp
next
  case False
  then obtain r where r: "sc_kept sc' = sc_kept sc @ [(line, Inr r)]" "scan_record line r sc = Inr sc'"
    using assms(1)
    by (auto simp: scan_record_def scan_started_def bindR_Inr_iff dest: select_metadata_again split: if_splits)
  show ?thesis by (simp add: r fold_items_append assms(2))
qed

lemma scan_again: "scan_metadata items = Inr sc \<Longrightarrow> fold_items scan_record (sc_kept sc) empty_scan = Inr sc"
proof -
  have "fold_items scan_record items s = Inr sc \<Longrightarrow> fold_items scan_record (sc_kept s) empty_scan = Inr s
    \<Longrightarrow> fold_items scan_record (sc_kept sc) empty_scan = Inr sc" for s
    by (induction scan_record items s rule: fold_items.induct) (auto simp: bindR_Inr_iff dest: scan_record_again)
  then show "scan_metadata items = Inr sc \<Longrightarrow> fold_items scan_record (sc_kept sc) empty_scan = Inr sc"
    by (simp add: scan_metadata_def empty_scan_def)
qed

lemma scan_resumed:
  "scan_metadata as = Inr sc \<Longrightarrow> scan_metadata (sc_kept sc @ bs) = scan_metadata (as @ bs)"
  by (simp add: scan_metadata_def fold_items_append scan_again [unfolded scan_metadata_def])

section \<open>The fold over the responses\<close>

text \<open>
  The law of a response record: it works on the current turn and keeps where that started, or
  it adds a new turn that starts at its own line and does not depend on the turns before, or
  it does the latter only when there is no current turn.
\<close>

definition started :: "turn \<Rightarrow> nat option" where
  "started tn = map_option pv_start (tn_prov tn)"

definition works_on_current :: "(turns \<Rightarrow> turns result) \<Rightarrow> bool" where
  "works_on_current R \<longleftrightarrow> (\<exists>f. R = (\<lambda>ts. in_turn ts f) \<and> (\<forall>tn tn'. f tn = Inr tn' \<longrightarrow> started tn' = started tn))"

definition adds_turn :: "nat \<Rightarrow> (turns \<Rightarrow> turns result) \<Rightarrow> bool" where
  "adds_turn line R \<longleftrightarrow> (\<exists>r. R = (\<lambda>ts. bindR r (\<lambda>x. Inr (case x of None \<Rightarrow> ts | Some tn \<Rightarrow> push ts tn)))
     \<and> (\<forall>tn. r = Inr (Some tn) \<longrightarrow> started tn = Some line))"

definition starts_first :: "nat \<Rightarrow> (turns \<Rightarrow> turns result) \<Rightarrow> bool" where
  "starts_first line R \<longleftrightarrow> (\<exists>r. R = (\<lambda>ts. if snd ts = None then bindR r (\<lambda>tn. Inr (push ts tn)) else Inr ts)
     \<and> (\<forall>tn. r = Inr tn \<longrightarrow> started tn = Some line))"

locale turn_fold =
  fixes R :: "nat \<Rightarrow> (pystr \<times> json) list \<Rightarrow> turns \<Rightarrow> turns result"
  assumes record_cases: "works_on_current (R line kvs) \<or> adds_turn line (R line kvs) \<or> starts_first line (R line kvs)"
begin

lemma step_start:
  assumes "R line kvs ts = Inr ts'"
  obtains (kept) "fst ts' = fst ts" "map_option started (snd ts') = map_option started (snd ts)"
  | (added) tn where "ts' = push ts tn" "started tn = Some line" "R line kvs ([], None) = Inr ([], Some tn)"
  using record_cases [of line kvs]
proof (elim disjE)
  assume "works_on_current (R line kvs)"
  with assms show ?thesis
    by (intro kept; auto simp: works_on_current_def in_turn_def bindR_Inr_iff set_current_def split: option.splits)
next
  assume "adds_turn line (R line kvs)"
  then obtain r where r: "R line kvs = (\<lambda>ts. bindR r (\<lambda>x. Inr (case x of None \<Rightarrow> ts | Some tn \<Rightarrow> push ts tn)))"
    "\<forall>tn. r = Inr (Some tn) \<longrightarrow> started tn = Some line" unfolding adds_turn_def by blast
  from assms obtain x where x: "r = Inr x" "ts' = (case x of None \<Rightarrow> ts | Some tn \<Rightarrow> push ts tn)"
    by (auto simp: r bindR_Inr_iff)
  show ?thesis
  proof (cases x)
    case None
    with x show ?thesis by (intro kept) simp_all
  next
    case (Some tn)
    with x r show ?thesis by (intro added [of tn]) (simp_all add: push_def)
  qed
next
  assume "starts_first line (R line kvs)"
  then obtain r where r: "R line kvs = (\<lambda>ts. if snd ts = None then bindR r (\<lambda>tn. Inr (push ts tn)) else Inr ts)"
    "\<forall>tn. r = Inr tn \<longrightarrow> started tn = Some line" unfolding starts_first_def by blast
  show ?thesis
  proof (cases "snd ts = None")
    case True
    with assms obtain tn where "r = Inr tn" "ts' = push ts tn" by (auto simp: r bindR_Inr_iff)
    with r show ?thesis by (intro added [of tn]) (simp_all add: push_def)
  next
    case False
    with assms show ?thesis by (intro kept) (simp_all add: r)
  qed
qed

text \<open>Behind a current turn the turns before it play no part.\<close>

lemma step_prefix:
  "R line kvs (ds @ xs, Some tn) = bindR (R line kvs (xs, Some tn)) (\<lambda>ts. Inr (ds @ fst ts, snd ts))"
  using record_cases [of line kvs]
proof (elim disjE)
  assume "works_on_current (R line kvs)"
  then obtain f where f: "R line kvs = (\<lambda>ts. in_turn ts f)" unfolding works_on_current_def by blast
  show ?thesis by (cases "f tn") (simp_all add: f in_turn_def set_current_def)
next
  assume "adds_turn line (R line kvs)"
  then obtain r where r: "R line kvs = (\<lambda>ts. bindR r (\<lambda>x. Inr (case x of None \<Rightarrow> ts | Some tn \<Rightarrow> push ts tn)))"
    unfolding adds_turn_def by blast
  show ?thesis
  proof (cases r)
    case (Inr x)
    then show ?thesis by (cases x) (simp_all add: r push_def)
  qed (simp add: r)
qed (auto simp: starts_first_def)

lemma step_some: "R line kvs (xs, Some tn) = Inr ts \<Longrightarrow> snd ts \<noteq> None"
  by (erule step_start) (auto simp: push_def)

lemma fold_prefix: "fold_items R items (ds @ xs, Some tn) =
   bindR (fold_items R items (xs, Some tn)) (\<lambda>ts. Inr (ds @ fst ts, snd ts))"
proof (induction items arbitrary: xs tn)
  case (Cons it items)
  obtain line r where it: "it = (line, r)" by (cases it)
  show ?case
  proof (cases r)
    case (Inr kvs)
    show ?thesis
    proof (cases "R line kvs (xs, Some tn)")
      case (Inr ts)
      obtain ys c where ts: "ts = (ys, Some c)" using step_some [OF Inr] by (cases ts) auto
      show ?thesis using Cons.IH Inr ts \<open>r = Inr kvs\<close> by (simp add: it step_prefix)
    qed (simp add: it Inr step_prefix)
  qed (simp add: it)
qed simp

lemma fold_start:
  assumes "fold_items R items ts = Inr ts'"
  shows "fst ts' = fst ts \<and> map_option started (snd ts') = map_option started (snd ts)
    \<or> (\<exists>tn line. snd ts' = Some tn \<and> started tn = Some line \<and> line \<in> fst ` set items)"
  using assms
proof (induction items arbitrary: ts)
  case (Cons it items)
  obtain line r where it: "it = (line, r)" by (cases it)
  from Cons.prems obtain kvs ts1 where 1: "R line kvs ts = Inr ts1" "fold_items R items ts1 = Inr ts'"
    by (auto simp: it bindR_Inr_iff)
  from 1(1) show ?case
  proof (cases rule: step_start)
    case kept
    with Cons.IH [OF 1(2)] show ?thesis by auto
  next
    case (added tn)
    with Cons.IH [OF 1(2)] show ?thesis by (auto simp: push_def it map_option_case split: option.splits)
  qed
qed simp

lemma fold_none: "fold_items R items ([], None) = Inr ts \<Longrightarrow> snd ts = None \<Longrightarrow> fst ts = []"
  by (drule fold_start) auto

text \<open>A fold that starts in front of the record of the last turn gives the turns from there on.\<close>

lemma fold_from_last_turn:
  assumes fold: "fold_items R (us @ ws) ([], None) = Inr (ds, Some tn)"
    and start: "started tn = Some line"
    and sorted: "sorted_wrt (<) (map fst ws)"
    and us: "\<forall>it \<in> set us. fst it < line" and ws: "\<forall>it \<in> set ws. line \<le> fst it"
  shows "fold_items R (us @ ws @ bs) ([], None) =
    bindR (fold_items R (ws @ bs) ([], None)) (\<lambda>ts. Inr (ds @ fst ts, snd ts))"
    "fold_items R ws ([], None) = Inr ([], Some tn)"
proof -
  from fold obtain s0 where s0: "fold_items R us ([], None) = Inr s0" "fold_items R ws s0 = Inr (ds, Some tn)"
    by (auto simp: fold_items_append bindR_Inr_iff)
  have before: "map_option started (snd s0) \<noteq> Some (Some line)"
    using fold_start [OF s0(1)] us by fastforce
  have "ws \<noteq> []" using s0(2) before start by auto
  then obtain l r rest where cons: "ws = (l, r) # rest" by (cases ws) auto
  from s0(2) obtain kvs s1 where r: "r = Inr kvs" and s1: "R l kvs s0 = Inr s1" "fold_items R rest s1 = Inr (ds, Some tn)"
    by (auto simp: cons bindR_Inr_iff)
  have later: "\<forall>it \<in> set rest. line < fst it" using sorted ws by (fastforce simp: cons)
  have 1: "fst s1 = ds" "map_option started (snd s1) = Some (Some line)"
    using fold_start [OF s1(2)] later start by (cases "snd s1"; auto)+
  from s1(1) obtain t where t: "s1 = push s0 t" "R l kvs ([], None) = Inr ([], Some t)"
  proof (cases rule: step_start)
    case kept
    with 1 before show ?thesis by simp
  qed blast
  then have s1_eq: "s1 = (ds @ [], Some t)" using 1 by (simp add: push_def)
  have whole: "fold_items R (us @ ws @ cs) ([], None) = bindR (fold_items R (rest @ cs) ([], Some t)) (\<lambda>ts. Inr (ds @ fst ts, snd ts))"
    for cs
  proof -
    have "fold_items R (us @ ws @ cs) ([], None) = fold_items R (rest @ cs) (ds @ [], Some t)"
      by (simp add: fold_items_append s0(1) cons r s1(1) s1_eq)
    then show ?thesis by (simp only: fold_prefix)
  qed
  have part: "fold_items R (ws @ cs) ([], None) = fold_items R (rest @ cs) ([], Some t)" for cs
    by (simp add: cons r t(2))
  from whole part show "fold_items R (us @ ws @ bs) ([], None) =
    bindR (fold_items R (ws @ bs) ([], None)) (\<lambda>ts. Inr (ds @ fst ts, snd ts))" by simp
  show "fold_items R ws ([], None) = Inr ([], Some tn)"
    using whole [of "[]"] part [of "[]"] fold by (cases "fold_items R rest ([], Some t)") auto
qed

end

text \<open>The response records of the parser have this law.\<close>

lemma started_updates [simp]:
  "started (end_at line tn) = started tn" "started (tn\<lparr>tn_files := fs\<rparr>) = started tn"
  "started (tn\<lparr>tn_commands := cs\<rparr>) = started tn" "started (tn\<lparr>tn_assistant := a\<rparr>) = started tn"
  "started (tn\<lparr>tn_blocks := bs\<rparr>) = started tn" "started (tn\<lparr>tn_tools := us\<rparr>) = started tn"
  by (simp_all add: started_def end_at_def option.map_comp o_def)

lemma started_bash [simp]: "started (bash_evidence ip kvs tn) = started tn"
  by (simp add: bash_evidence_def Let_def)

lemma started_add_tool [simp]: "started (add_tool n inp s line tn) = started tn"
  by (simp add: add_tool_def)

lemma started_tool_call:
  assumes "append_tool_call ip n inp line tn = Inr tn'"
  shows "started tn' = started tn"
proof -
  obtain name where "(if name = JStr (lit ''Bash'') then (case inp of
         JObj kvs \<Rightarrow> Inr (bash_evidence ip kvs (add_tool name inp (tool_input_summary ip name inp) line tn))
       | _ \<Rightarrow> Inl (AttributeError ''get''))
     else if name = JStr (lit ''Edit'')
       then Inr ((add_tool name inp (tool_input_summary ip name inp) line tn)\<lparr>tn_files :=
         tn_files (add_tool name inp (tool_input_summary ip name inp) line tn) @ map (take 500) (take 12 (extract_patch_paths ip inp))\<rparr>)
     else Inr (add_tool name inp (tool_input_summary ip name inp) line tn)) = Inr tn'"
    using assms unfolding append_tool_call_def bindR_Inr_iff Let_def by blast
  then show ?thesis by (cases inp) (auto split: if_splits)
qed

lemma started_calls: "append_calls ip line cs tn = Inr tn' \<Longrightarrow> started tn' = started tn"
  by (induction ip line cs tn rule: append_calls.induct) (auto simp: bindR_Inr_iff dest: started_tool_call)

lemma started_custom: "custom_tool_call ip line payload tn = Inr tn' \<Longrightarrow> started tn' = started tn"
  by (auto simp: custom_tool_call_def Let_def bindR_Inr_iff split: if_splits dest!: started_tool_call started_calls)

lemma started_assistant: "assistant_text line time payload tn = Inr tn' \<Longrightarrow> started tn' = started tn"
  by (auto simp: assistant_text_def bindR_Inr_iff split: if_splits)

lemma started_new_turn [simp]: "started (new_turn line time t w cs n) = Some line"
  by (simp add: started_def new_turn_def)

lemma started_task: "agent_task ip native m line time payload = Inr tn \<Longrightarrow> started tn = Some line"
  by (auto simp: agent_task_def bindR_Inr_iff Let_def)

lemma started_user: "user_turn ip line time payload = Inr (Some tn) \<Longrightarrow> started tn = Some line"
  by (auto simp: user_turn_def bindR_Inr_iff split: if_splits prod.splits)

lemma no_turn: "adds_turn line Inr"
  unfolding adds_turn_def by (intro exI [of _ "Inr None"]) simp

lemma current_law: "(\<And>tn tn'. f tn = Inr tn' \<Longrightarrow> started tn' = started tn) \<Longrightarrow> works_on_current (\<lambda>ts. in_turn ts f)"
  unfolding works_on_current_def by blast

lemma user_law: "adds_turn line (\<lambda>ts. bindR (user_turn ip line time payload)
   (\<lambda>r. Inr (case r of None \<Rightarrow> ts | Some tn \<Rightarrow> push ts tn)))"
  unfolding adds_turn_def by (blast dest: started_user)

lemma no_law: "adds_turn line (\<lambda>ts. Inr ts)"
  using no_turn by (simp add: fun_eq_iff)

lemma payload_cases:
  "works_on_current (response_payload ip native own line time payload) \<or>
   adds_turn line (response_payload ip native own line time payload) \<or>
   starts_first line (response_payload ip native own line time payload)"
proof -
  let ?R = "response_payload ip native own line time payload"
  let ?is = "\<lambda>t. get payload ''type'' = JStr (lit t)" and ?role = "\<lambda>r. get payload ''role'' = JStr (lit r)"
  have other: "?is t \<Longrightarrow> s \<noteq> t \<Longrightarrow> get payload ''type'' \<noteq> JStr (lit s)" for s t by simp
  consider (task) "?is ''agent_message''" "ow_subagent own"
    | (user) "?is ''message''" "?role ''user''" | (asst) "?is ''message''" "?role ''assistant''"
    | (call) "?is ''function_call''" | (custom) "?is ''custom_tool_call''" | (web) "?is ''web_search_call''"
    | (out) "?is ''function_call_output'' \<or> ?is ''custom_tool_call_output''"
    | (none) "\<not> (?is ''agent_message'' \<and> ow_subagent own)"
        "\<not> ?is ''message'' \<or> \<not> ?role ''user'' \<and> \<not> ?role ''assistant''"
        "\<not> ?is ''function_call''" "\<not> ?is ''custom_tool_call''" "\<not> ?is ''web_search_call''"
        "\<not> ?is ''function_call_output''" "\<not> ?is ''custom_tool_call_output''"
    by blast
  then show ?thesis
  proof cases
    case task
    then have "?R = (\<lambda>ts. if snd ts = None then bindR (agent_task ip native (ow_matching own) line time payload)
        (\<lambda>tn. Inr (push ts tn)) else Inr ts)"
      by (simp add: response_payload_def fun_eq_iff Let_def)
    then have "starts_first line ?R" unfolding starts_first_def by (blast dest: started_task)
    then show ?thesis by blast
  next
    case user
    then have "?R = (\<lambda>ts. bindR (user_turn ip line time payload) (\<lambda>r. Inr (case r of None \<Rightarrow> ts | Some tn \<Rightarrow> push ts tn)))"
      by (simp add: response_payload_def fun_eq_iff Let_def)
    then show ?thesis by (simp only: user_law) simp
  next
    case asst
    then have eq: "?R = (\<lambda>ts. in_turn ts (assistant_text line time payload))" by (simp add: response_payload_def fun_eq_iff Let_def)
    have "works_on_current ?R" unfolding eq by (rule current_law) (erule started_assistant)
    then show ?thesis by blast
  next
    case call
    then have eq: "?R = (\<lambda>ts. in_turn ts (append_tool_call ip (get_or payload ''name'' (JStr (lit ''unknown'')))
        (parse_arguments ip (get_or payload ''arguments'' (JObj []))) line))" by (simp add: response_payload_def fun_eq_iff Let_def)
    have "works_on_current ?R" unfolding eq by (rule current_law) (erule started_tool_call)
    then show ?thesis by blast
  next
    case custom
    then have eq: "?R = (\<lambda>ts. in_turn ts (custom_tool_call ip line payload))" by (simp add: response_payload_def fun_eq_iff Let_def)
    have "works_on_current ?R" unfolding eq by (rule current_law) (erule started_custom)
    then show ?thesis by blast
  next
    case web
    then have "?R = (\<lambda>ts. in_turn ts (\<lambda>tn. Inr (web_search ip line payload tn)))" by (simp add: response_payload_def fun_eq_iff Let_def)
    moreover have "works_on_current (\<lambda>ts. in_turn ts (\<lambda>tn. Inr (web_search ip line payload tn)))"
      by (rule current_law) (auto simp: web_search_def Let_def)
    ultimately show ?thesis by simp
  next
    case out
    then have "?R = (\<lambda>ts. in_turn ts (\<lambda>tn. Inr (call_output ip line payload tn)))" by (auto simp: response_payload_def fun_eq_iff Let_def)
    moreover have "works_on_current (\<lambda>ts. in_turn ts (\<lambda>tn. Inr (call_output ip line payload tn)))"
      by (rule current_law) (auto simp: call_output_def)
    ultimately show ?thesis by simp
  next
    case none
    have "?R = (\<lambda>ts. Inr ts)"
    proof
      fix ts :: turns
      have 1: "\<not> (?is ''agent_message'' \<and> ow_subagent own \<and> snd ts = None)" using none(1) by blast
      show "?R ts = Inr ts"
        unfolding response_payload_def Let_def if_not_P [OF 1] if_not_P [OF none(3)] if_not_P [OF none(4)] if_not_P [OF none(5)]
        using none(2,6,7) by simp
    qed
    then show ?thesis by (simp only: no_law) simp
  qed
qed

interpretation responses: turn_fold "response_record ip native own" for ip native own
proof
  fix line kvs
  show "works_on_current (response_record ip native own line kvs) \<or> adds_turn line (response_record ip native own line kvs) \<or>
    starts_first line (response_record ip native own line kvs)"
  proof (cases "get kvs ''type'' = JStr (lit ''response_item'')")
    case True
    show ?thesis
    proof (cases "object_of (payload_of kvs)")
      case (Inl e)
      with True have "response_record ip native own line kvs = (\<lambda>ts. bindR (Inl e) (\<lambda>x. Inr (case x of None \<Rightarrow> ts | Some tn \<Rightarrow> push ts tn)))"
        by (simp add: response_record_def fun_eq_iff)
      then have "adds_turn line (response_record ip native own line kvs)" unfolding adds_turn_def by blast
      then show ?thesis by blast
    next
      case (Inr payload)
      with True have "response_record ip native own line kvs
          = response_payload ip native own line (get_or kvs ''timestamp'' (JStr [])) payload"
        by (simp add: response_record_def fun_eq_iff)
      then show ?thesis by (simp only: payload_cases)
    qed
  next
    case False
    then have "response_record ip native own line kvs = (\<lambda>ts. Inr ts)" by (simp add: response_record_def fun_eq_iff)
    then show ?thesis by (simp only: no_law) simp
  qed
qed

section \<open>Turns behind a checkpoint\<close>

lemma turn_start_started: "started tn \<noteq> None \<Longrightarrow> started tn = Some (turn_start tn)"
  by (auto simp: started_def turn_start_def split: option.splits)

lemma started_finish [simp]: "started (finish_turn tn) = started tn"
  by (simp add: started_def finish_turn_def)

lemma turn_start_finish [simp]: "turn_start (finish_turn tn) = turn_start tn"
  by (simp add: turn_start_def finish_turn_def)

text \<open>All turns of a fold start somewhere.\<close>

definition all_started :: "turns \<Rightarrow> bool" where
  "all_started ts \<longleftrightarrow> (\<forall>tn \<in> set (all_turns ts). started tn \<noteq> None)"

lemma response_all_started:
  assumes "response_record ip native own line kvs ts = Inr ts'" "all_started ts"
  shows "all_started ts'"
  using assms(1)
proof (cases rule: responses.step_start)
  case kept
  with assms(2) show ?thesis
    by (cases "snd ts"; cases "snd ts'") (auto simp: all_started_def all_turns_def)
next
  case (added tn)
  with assms(2) show ?thesis by (auto simp: all_started_def all_turns_def push_def split: option.splits)
qed

lemma fold_all_started:
  "fold_items (response_record ip native own) items ts = Inr ts' \<Longrightarrow> all_started ts \<Longrightarrow> all_started ts'"
proof (induction items arbitrary: ts)
  case (Cons it items)
  then show ?case by (cases it) (auto simp: bindR_Inr_iff dest: response_all_started)
qed simp

lemma parse_turns_started: "parse_turns ip st native own k x = Inr ts \<Longrightarrow> \<forall>tn \<in> set ts. started tn \<noteq> None"
  by (auto simp: parse_turns_def bindR_Inr_iff all_started_def all_turns_def dest!: fold_all_started)

text \<open>The line of the last turn is a line of the file.\<close>

lemma last_turn:
  assumes "parse_turns ip st native own 0 a = Inr ts" "ts \<noteq> []"
  obtains ds tn n where "ow_boundary own = Some n"
    "fold_items (response_record ip native own) (iter_json_records ip st (Some n) 0 a) ([], None) = Inr (ds, Some tn)"
    "ts = map finish_turn (ds @ [tn])" "started tn = Some (turn_start (last ts))" "0 < turn_start (last ts)"
proof -
  from assms(1) obtain s where s: "fold_items (response_record ip native own)
      (iter_json_records ip st (ow_boundary own) 0 a) ([], None) = Inr s" "ts = map finish_turn (all_turns s)"
    by (auto simp: parse_turns_def bindR_Inr_iff)
  from assms(2) s(2) responses.fold_none [OF s(1)] obtain tn where tn: "snd s = Some tn"
    by (cases "snd s") (auto simp: all_turns_def)
  from responses.fold_start [OF s(1)] tn obtain line where line: "started tn = Some line"
      "line \<in> fst ` set (iter_json_records ip st (ow_boundary own) 0 a)" by auto
  then obtain n where n: "ow_boundary own = Some n" by (cases "ow_boundary own") (auto simp: iter_json_records_def)
  have ts: "ts = map finish_turn (fst s @ [tn])" using s(2) tn by (simp add: all_turns_def)
  moreover have "turn_start (last ts) = line" using ts line(1) turn_start_started [of tn] by simp
  moreover have "0 < line" using line(2) iter_after by fastforce
  ultimately show ?thesis using that [of n "fst s" tn] s(1) tn line(1) n by (cases s) simp
qed

text \<open>The bytes of a checkpoint: where the last turn's line begins.\<close>

lemma turns_resumed:
  assumes a: "complete a" "\<not> lone_cr a" and turns: "parse_turns ip True native own 0 a = Inr ts" "ts \<noteq> []"
    and off: "line_offset a (turn_start (last ts)) 0 1 = Inr off"
  shows "parse_turns ip True native own 0 (a @ b) =
    bindR (parse_turns ip True native own (turn_start (last ts) - 1) (drop off (a @ b))) (\<lambda>us. Inr (butlast ts @ us))"
    "parse_turns ip True native own (turn_start (last ts) - 1) (drop off (a @ b)) \<noteq> Inr []"
    "off \<le> length a"
proof -
  let ?R = "response_record ip native own" and ?L = "turn_start (last ts)"
  obtain ds tn n where 1: "ow_boundary own = Some n"
    "fold_items ?R (iter_json_records ip True (Some n) 0 a) ([], None) = Inr (ds, Some tn)"
    "ts = map finish_turn (ds @ [tn])" "started tn = Some ?L" "0 < ?L"
    using last_turn [OF turns] .
  from off 1(5) have L: "?L - 1 \<le> count_list a 10" "off = after_newlines (?L - 1) a"
    by (simp_all add: line_offset_eq split: if_splits)
  let ?u = "take off a" and ?w = "drop off a"
  have u: "complete ?u" "count_list ?u 10 = ?L - 1" and le: "off \<le> length a"
    using take_after_newlines [OF L(1)] L(2) by simp_all
  have w: "complete ?w" and lone: "\<not> lone_cr ?u" "\<not> lone_cr ?w"
    using a complete_append [OF u(1), of ?w] lone_cr_append [OF u(1), of ?w] by simp_all
  let ?iu = "iter_json_records ip True (Some n) 0 ?u" and ?iw = "iter_json_records ip True (Some n) (?L - 1) ?w"
  have ia: "iter_json_records ip True (Some n) 0 a = ?iu @ ?iw"
    using iter_append [OF u(1) lone(1), of ip True "Some n" 0 ?w] u(2) by simp
  let ?ib = "iter_json_records ip True (Some n) (?L - 1 + count_list ?w 10) b"
  have iwb: "iter_json_records ip True (Some n) (?L - 1) (?w @ b) = ?iw @ ?ib"
    using iter_append [OF w lone(2)] .
  have "iter_json_records ip True (Some n) 0 (?u @ (?w @ b)) = ?iu @ (?iw @ ?ib)"
    using iter_append [OF u(1) lone(1), of ip True "Some n" 0 "?w @ b"] u(2) by (simp only: iwb add_0)
  then have iab: "iter_json_records ip True (Some n) 0 (a @ b) = ?iu @ ?iw @ ?ib"
    by (simp only: append_assoc [symmetric, of ?u] append_take_drop_id)
  have "length (text_lines [] ?u) = ?L - 1"
    using length_text_lines [of ?u "[]"] u lone(1) by (auto simp: complete_def)
  then have before: "\<forall>it \<in> set ?iu. fst it < ?L" using iter_before [of _ ip True "Some n" 0 ?u] 1(5) by fastforce
  have behind: "\<forall>it \<in> set ?iw. ?L \<le> fst it" using iter_after [of _ ip True "Some n" "?L - 1" ?w] by fastforce
  note split = responses.fold_from_last_turn [OF 1(2) [unfolded ia] 1(4) iter_sorted before behind]
  have part: "drop off (a @ b) = ?w @ b" using le by simp
  have butlast: "butlast ts = map finish_turn ds" using 1(3) by simp
  show "parse_turns ip True native own 0 (a @ b) =
    bindR (parse_turns ip True native own (?L - 1) (drop off (a @ b))) (\<lambda>us. Inr (butlast ts @ us))"
    unfolding parse_turns_def 1(1) part iab iwb split(1) butlast
    by (cases "fold_items ?R (?iw @ ?ib) ([], None)") (simp_all add: all_turns_def)
  show "parse_turns ip True native own (?L - 1) (drop off (a @ b)) \<noteq> Inr []"
  proof
    assume "parse_turns ip True native own (?L - 1) (drop off (a @ b)) = Inr []"
    then obtain s where s: "fold_items ?R ?ib ([], Some tn) = Inr s" "all_turns s = []"
      unfolding parse_turns_def 1(1) part iwb by (auto simp: bindR_Inr_iff fold_items_append split(2) simp del: One_nat_def)
    with responses.fold_start [OF s(1)] show False by (auto simp: all_turns_def split: option.splits)
  qed
  show "off \<le> length a" by (rule le)
qed

section \<open>The same ownership\<close>

text \<open>
  Metadata only grows behind a prefix, and the same ownership text then stands for the same
  ownership: another matching record would have another identity.
\<close>

lemma fold_scan_grows:
  "fold_items scan_record items sc = Inr sc' \<Longrightarrow> \<exists>ms. sc_meta sc' = sc_meta sc @ ms"
proof (induction items arbitrary: sc)
  case (Cons it items)
  obtain line r where it: "it = (line, r)" by (cases it)
  from Cons.prems obtain kvs sc1 where 1: "scan_record line kvs sc = Inr sc1" "fold_items scan_record items sc1 = Inr sc'"
    by (auto simp: it bindR_Inr_iff)
  have "\<exists>ms. sc_meta sc1 = sc_meta sc @ ms"
    using 1(1) by (auto simp: scan_record_def scan_started_def bindR_Inr_iff split: if_splits)
  with Cons.IH [OF 1(2)] show ?case by auto
qed simp

lemma scan_metadata_grows:
  assumes "scan_metadata as = Inr sc" "scan_metadata (as @ bs) = Inr sc'"
  obtains ms where "sc_meta sc' = sc_meta sc @ ms"
proof -
  have "fold_items scan_record bs sc = Inr sc'"
    using assms by (simp add: scan_metadata_def fold_items_append)
  then show ?thesis using fold_scan_grows that by blast
qed

definition selected :: "pystr \<Rightarrow> scan \<Rightarrow> (pystr \<times> json) list" where
  "selected native sc = (case matching_metadata native sc of Some m \<Rightarrow> m
     | None \<Rightarrow> (case sc_meta sc of [] \<Rightarrow> [] | p # _ \<Rightarrow> snd p))"

lemma own_history_selected: "own_history ip native sc =
   (let m = selected native sc in
      if \<not> is_subagent m
      then \<lparr>ow_matching = m, ow_boundary = Some 0, ow_subagent = False, ow_parent = JNull, ow_empty = False\<rparr>
      else let parent = parent_of native m;
               boundary = (if foreign_lines native sc = [] then Some 0 else child_boundary ip native sc) in
        \<lparr>ow_matching = m, ow_boundary = boundary, ow_subagent = True, ow_parent = parent, ow_empty = (boundary = None)\<rparr>)"
  by (simp only: own_history_def selected_def)

lemma own_history_eqI:
  assumes "selected native sc = selected native sc'"
    and "ow_boundary (own_history ip native sc) = ow_boundary (own_history ip native sc')"
  shows "own_history ip native sc = own_history ip native sc'"
  using assms(2) unfolding own_history_selected assms(1) Let_def
  by (auto simp: eq_commute [of "Some (0 :: nat)"] split: if_splits)

lemma own_matching: "ow_matching (own_history ip native sc) = selected native sc"
  by (simp add: own_history_selected Let_def)

text \<open>What the normal form of the members keeps: whether there are any, and texts.\<close>

lemma normal_json_text: "normal_json v = JStr t \<longleftrightarrow> v = JStr t"
  by (cases v) simp_all

definition has_text :: "(pystr \<times> json) list \<Rightarrow> pystr \<Rightarrow> pystr \<Rightarrow> bool" where
  "has_text kvs k t \<longleftrightarrow> (k, JStr t) \<in> set kvs"

lemma normal_members: "normal_json (JObj kvs) = normal_json (JObj lws) \<Longrightarrow> has_text kvs k t = has_text lws k t"
proof -
  have "has_text kvs k t \<longleftrightarrow> (k, JStr t) \<in> set (sort_key fst (map (\<lambda>(k, v). (k, normal_json v)) kvs))" for kvs
    unfolding has_text_def set_sort set_map by (force simp: eq_commute [of "JStr t"] normal_json_text)
  note this [of kvs] this [of lws]
  moreover assume "normal_json (JObj kvs) = normal_json (JObj lws)"
  ultimately show "has_text kvs k t = has_text lws k t" by (simp only: normal_json.simps json.inject)
qed

lemma normal_empty: "normal_json (JObj []) = normal_json (JObj kvs) \<longleftrightarrow> kvs = []"
proof -
  have "length (sort_key fst (map (\<lambda>(k, v). (k, normal_json v)) kvs)) = length kvs" by simp
  then show ?thesis by (simp only: normal_json.simps json.inject list.map sort_key_simps) (metis length_0_conv)
qed

text \<open>The members that a record keeps have distinct keys.\<close>

lemma selected_keys:
  "distinct ks \<Longrightarrow> distinct (map fst (concat (map (\<lambda>k. case jget kvs k of None \<Rightarrow> [] | Some v \<Rightarrow> [(lit k, v)]) ks)))"
  by (induction ks) (auto split: option.splits)

lemma select_metadata_distinct: "select_metadata p = Inr m \<Longrightarrow> distinct (map fst m)"
proof -
  have "distinct metadata_keys" by (simp add: metadata_keys_def)
  then show "select_metadata p = Inr m \<Longrightarrow> distinct (map fst m)"
    by (cases p) (auto simp: select_metadata_def split: if_splits intro: selected_keys simp del: map_concat)
qed

definition metas_distinct :: "scan \<Rightarrow> bool" where
  "metas_distinct sc \<longleftrightarrow> (\<forall>p \<in> set (sc_meta sc). distinct (map fst (snd p)))"

lemma scan_record_distinct:
  assumes "scan_record line kvs sc = Inr sc'" "metas_distinct sc"
  shows "metas_distinct sc'"
proof -
  have "sc_meta sc' = sc_meta sc \<or> (\<exists>m. select_metadata (payload_of kvs) = Inr m \<and> sc_meta sc' = sc_meta sc @ [(line, m)])"
    using assms(1) by (auto simp: scan_record_def scan_started_def bindR_Inr_iff split: if_splits)
  then show ?thesis
  proof (elim disjE exE conjE)
    fix m assume m: "select_metadata (payload_of kvs) = Inr m" and sc': "sc_meta sc' = sc_meta sc @ [(line, m)]"
    have "distinct (map fst m)" by (rule select_metadata_distinct [OF m])
    with assms(2) show ?thesis unfolding metas_distinct_def sc' by fastforce
  qed (use assms(2) in \<open>simp add: metas_distinct_def\<close>)
qed

lemma scan_distinct: "scan_metadata items = Inr sc \<Longrightarrow> metas_distinct sc"
proof -
  have "fold_items scan_record items s = Inr sc \<Longrightarrow> metas_distinct s \<Longrightarrow> metas_distinct sc" for s
    by (induction scan_record items s rule: fold_items.induct) (auto simp: bindR_Inr_iff dest: scan_record_distinct)
  then show "scan_metadata items = Inr sc \<Longrightarrow> metas_distinct sc"
    by (simp add: scan_metadata_def metas_distinct_def empty_scan_def)
qed

lemma get_text: "distinct (map fst kvs) \<Longrightarrow> get kvs k = JStr t \<longleftrightarrow> has_text kvs (lit k) t"
  by (auto simp: get_or_def jget_def has_text_def split: option.splits dest: map_of_SomeD)
    (metis Some_eq_map_of_iff option.distinct(1) option.inject json.inject)+

lemma find_over_append: "List.find P (xs @ ys) = (case List.find P xs of None \<Rightarrow> List.find P ys | Some x \<Rightarrow> Some x)"
  by (induction xs) auto

lemma same_selection:
  assumes meta: "sc_meta sc' = sc_meta sc @ ms" and dist: "metas_distinct sc'"
    and same: "normal_json (JObj (selected native sc)) = normal_json (JObj (selected native sc'))"
  shows "selected native sc = selected native sc'"
proof (cases "List.find (\<lambda>p. get (snd p) ''id'' = JStr native) (sc_meta sc)")
  case (Some p)
  then show ?thesis by (simp add: selected_def matching_metadata_def meta find_over_append)
next
  case None
  show ?thesis
  proof (cases "List.find (\<lambda>p. get (snd p) ''id'' = JStr native) ms")
    case (Some p)
    then have p: "p \<in> set ms" "get (snd p) ''id'' = JStr native" by (auto dest: find_Some_set)
    have sel: "selected native sc' = snd p" using None Some by (simp add: selected_def matching_metadata_def meta find_over_append)
    have "has_text (snd p) (lit ''id'') native"
      using p dist by (auto simp: metas_distinct_def meta get_text)
    then have has: "has_text (selected native sc) (lit ''id'') native" using normal_members [OF same] sel by simp
    show ?thesis
    proof (cases "sc_meta sc")
      case Nil
      then show ?thesis using has None by (simp add: selected_def matching_metadata_def has_text_def)
    next
      case (Cons q qs)
      then have "selected native sc = snd q" using None by (simp add: selected_def matching_metadata_def split: if_splits)
      moreover have "distinct (map fst (snd q))" using dist by (simp add: metas_distinct_def meta Cons)
      ultimately have "get (snd q) ''id'' = JStr native" using has by (simp add: get_text)
      with None Cons show ?thesis by simp
    qed
  next
    case no: None
    show ?thesis
    proof (cases "sc_meta sc")
      case Nil
      then have "selected native sc = []" by (simp add: selected_def matching_metadata_def)
      with same show ?thesis using normal_empty by simp
    next
      case (Cons q qs)
      with None no show ?thesis by (simp add: selected_def matching_metadata_def meta find_over_append split: if_splits)
    qed
  qed
qed

lemma same_ownership:
  assumes "scan_metadata as = Inr sc" "scan_metadata (as @ bs) = Inr sc'"
    and same: "ownership_json native (own_history ip native sc) = ownership_json native (own_history ip native sc')"
  shows "own_history ip native sc = own_history ip native sc'"
proof (rule own_history_eqI)
  let ?o = "own_history ip native sc" and ?o' = "own_history ip native sc'"
  from same have 1: "normal_json (JObj (ow_matching ?o)) = normal_json (JObj (ow_matching ?o'))"
    and 2: "normal_json (case ow_boundary ?o of None \<Rightarrow> JNull | Some n \<Rightarrow> JInt (int n))
      = normal_json (case ow_boundary ?o' of None \<Rightarrow> JNull | Some n \<Rightarrow> JInt (int n))"
    unfolding ownership_json_def by (simp_all only: normal_json.simps(5) list.map list.inject json.inject)
  obtain ms where "sc_meta sc' = sc_meta sc @ ms" using scan_metadata_grows [OF assms(1,2)] .
  then show "selected native sc = selected native sc'"
    using scan_distinct [OF assms(2)] 1 unfolding own_matching by (rule same_selection)
  from 2 show "ow_boundary ?o = ow_boundary ?o'" by (auto split: option.splits)
qed

section \<open>The events of turns\<close>

lemma mapR_append: "mapR f (xs @ ys) = bindR (mapR f xs) (\<lambda>us. bindR (mapR f ys) (\<lambda>vs. Inr (us @ vs)))"
proof (induction xs)
  case Nil
  show ?case by (cases "mapR f ys") simp_all
next
  case (Cons x xs)
  show ?case
  proof (cases "f x")
    case (Inr u)
    then show ?thesis using Cons by (cases "mapR f xs"; cases "mapR f ys") simp_all
  qed simp
qed

definition events_of :: "interp \<Rightarrow> (pystr \<Rightarrow> pystr result) \<Rightarrow> turn list \<Rightarrow> event list list result" where
  "events_of ip utc = mapR (\<lambda>tn. turn_events ip utc (0, tn))"

lemma turn_events_index: "started tn \<noteq> None \<Longrightarrow> turn_events ip utc (i, tn) = turn_events ip utc (0, tn)"
  by (auto simp: turn_events_def turn_key_def started_def split: option.split)

lemma events_enumerate:
  "\<forall>tn \<in> set tns. started tn \<noteq> None \<Longrightarrow> mapR (turn_events ip utc) (enumerate k tns) = events_of ip utc tns"
proof (induction tns arbitrary: k)
  case (Cons tn tns)
  then have "turn_events ip utc (k, tn) = turn_events ip utc (0, tn)" by (intro turn_events_index) simp
  with Cons show ?case by (simp add: events_of_def)
qed (simp add: events_of_def)

lemma events_append: "events_of ip utc (xs @ ys)
   = bindR (events_of ip utc xs) (\<lambda>us. bindR (events_of ip utc ys) (\<lambda>vs. Inr (us @ vs)))"
  by (simp add: events_of_def mapR_append)

definition headed :: "interp \<Rightarrow> parsed \<Rightarrow> event list \<Rightarrow> session result" where
  "headed ip p evs = make_session (JStr (ps_native p)) evs (JStr (lit ''codex''))
     (JStr (redact_sensitive_text ip (ps_project p))) (JStr (redact_sensitive_text ip (ps_slug p)))
     (ps_parent p) (JBool (ps_subagent p)) (JStr (lit ''codex-v1''))"

lemma headed_turns [simp]: "headed ip (p\<lparr>ps_turns := ts\<rparr>) = headed ip p"
  by (simp add: headed_def fun_eq_iff)

lemma normalize_headed: "\<forall>tn \<in> set (ps_turns p). started tn \<noteq> None \<Longrightarrow>
   normalize_session ip utc p = bindR (events_of ip utc (ps_turns p)) (\<lambda>es. headed ip p (concat es))"
  by (simp add: normalize_session_def events_enumerate headed_def)

lemma headed_events: "headed ip p evs = Inr s \<Longrightarrow> ses_events s = evs"
  by (auto simp: headed_def make_session_def split: if_splits)

lemma headed_more_fails: "headed ip p evs = Inl e \<Longrightarrow> headed ip p (cs @ evs) = Inl e"
  by (auto simp: headed_def make_session_def split: if_splits)

lemma headed_more:
  assumes "headed ip p evs = Inr s"
  shows "with_events s (cs @ evs) = headed ip p (cs @ evs)"
proof -
  from assms have id: "ps_native p \<noteq> []" and parent: "ps_parent p = JNull \<or> is_str (ps_parent p)"
    and s: "s = \<lparr>ses_id = ps_native p, ses_events = evs, ses_source = lit ''codex'',
       ses_project = redact_sensitive_text ip (ps_project p), ses_title = redact_sensitive_text ip (ps_slug p),
       ses_parent = (if ps_parent p = JNull then None else Some (str_of (ps_parent p))), ses_subagent = ps_subagent p,
       ses_parser = lit ''codex-v1''\<rparr>"
    by (auto simp: headed_def make_session_def split: if_splits)
  have "parent_json (if ps_parent p = JNull then None else Some (str_of (ps_parent p))) = ps_parent p"
    using parent by (auto simp: parent_json_def dest: is_str_cases)
  then show ?thesis by (simp add: with_events_def headed_def s)
qed

lemma normalize_resumed:
  assumes "\<forall>tn \<in> set (bs @ us). started tn \<noteq> None" and "events_of ip utc bs = Inr es" and "ps_turns p = bs @ us"
  shows "normalize_session ip utc p =
    bindR (normalize_session ip utc (p\<lparr>ps_turns := us\<rparr>)) (\<lambda>s. with_events s (concat es @ ses_events s))"
proof (cases "events_of ip utc us")
  case (Inl e)
  with assms show ?thesis by (simp add: normalize_headed events_append)
next
  case (Inr vs)
  with assms have whole: "normalize_session ip utc p = headed ip p (concat es @ concat vs)"
    by (simp add: normalize_headed events_append)
  show ?thesis
  proof (cases "headed ip p (concat vs)")
    case (Inl e)
    with assms \<open>events_of ip utc us = Inr vs\<close> show ?thesis unfolding whole
      by (simp add: normalize_headed headed_more_fails)
  next
    case (Inr s)
    with assms \<open>events_of ip utc us = Inr vs\<close> show ?thesis unfolding whole
      by (simp add: normalize_headed headed_more headed_events)
  qed
qed

section \<open>What a checkpoint stands for\<close>

definition native_of :: "pystr \<Rightarrow> pystr" where
  "native_of name = session_id_from_path \<lparr>path_name = name, path_dir = []\<rparr>"

lemma native_of_path: "session_id_from_path p = native_of (path_name p)"
  by (simp add: native_of_def session_id_from_path_def)

definition stands_for :: "interp \<Rightarrow> (bytes \<Rightarrow> pystr) \<Rightarrow> (pystr \<Rightarrow> pystr result) \<Rightarrow> checkpoint \<Rightarrow> bytes \<Rightarrow> scan \<Rightarrow> turn list
    \<Rightarrow> event list list \<Rightarrow> bool" where
  "stands_for ip H utc ck a sc ts es \<longleftrightarrow>
     complete a \<and> ck_size ck = length a \<and> ck_sha ck = H a \<and> ck_lines ck = count_list a 10 \<and>
     scan_metadata (iter_json_records ip True (Some 0) 0 a) = Inr sc \<and> ck_metadata ck = sc_kept sc \<and>
     ck_ownership ck = ownership_json (native_of (ck_filename ck)) (own_history ip (native_of (ck_filename ck)) sc) \<and>
     parse_turns ip True (native_of (ck_filename ck)) (own_history ip (native_of (ck_filename ck)) sc) 0 a = Inr ts \<and>
     ts \<noteq> [] \<and> ck_turn_line ck = turn_start (last ts) \<and> line_offset a (ck_turn_line ck) 0 1 = Inr (ck_turn_offset ck) \<and>
     events_of ip utc (butlast ts) = Inr es \<and> ck_completed ck = concat es"

section \<open>A parse after the scan of the bytes\<close>

definition tail_of_parse :: "interp \<Rightarrow> (bytes \<Rightarrow> pystr) \<Rightarrow> (pystr \<Rightarrow> pystr result) \<Rightarrow> path \<Rightarrow> bytes \<Rightarrow> pystr option \<Rightarrow> bool
    \<Rightarrow> checkpoint option \<Rightarrow> parse_out \<Rightarrow> (session \<times> checkpoint option) result" where
  "tail_of_parse ip H utc p content fallback changed resumed out =
     (let ps = (case fallback of None \<Rightarrow> po_session out
           | Some f \<Rightarrow> if ps_project (po_session out) = JStr (path_dir p) then (po_session out)\<lparr>ps_project := JStr f\<rparr>
             else po_session out) in
     bindR (normalize_session ip utc ps) (\<lambda>s.
     bindR (case resumed of None \<Rightarrow> Inr s | Some c \<Rightarrow> with_events s (ck_completed c @ ses_events s)) (\<lambda>s.
     bindR (next_checkpoint ip utc p content (length content) (count_list content 10) (H content) resumed
         (out\<lparr>po_session := ps\<rparr>) s) (\<lambda>next.
       if changed then Inl (ValueError ''staged source changed during incremental parsing'') else Inr (s, next)))))"

definition parse_metadata :: "interp \<Rightarrow> bytes \<Rightarrow> checkpoint option \<Rightarrow> item list" where
  "parse_metadata ip content reused = (case reused of
       None \<Rightarrow> iter_json_records ip True (Some 0) 0 content
     | Some c \<Rightarrow> ck_metadata c @ iter_json_records ip True (Some 0) (ck_lines c) (drop (ck_size c) content))"

definition parse_resume :: "bytes \<Rightarrow> checkpoint option \<Rightarrow> resume option" where
  "parse_resume content = map_option (\<lambda>c. \<lparr>rs_ownership = ck_ownership c, rs_rest = drop (ck_turn_offset c) content,
     rs_line = ck_turn_line c\<rparr>)"

text \<open>The result of a parse without the account of its work.\<close>

definition result_of :: "(session \<times> checkpoint option \<times> parse_work) result \<Rightarrow> (session \<times> checkpoint option) result" where
  "result_of r = bindR r (\<lambda>(s, next, work). Inr (s, next))"

lemma result_of_simps [simp]: "result_of (Inl e) = Inl e" "result_of (Inr (s, next, w)) = Inr (s, next)"
  by (simp_all add: result_of_def)

definition reused_of :: "(bytes \<Rightarrow> pystr) \<Rightarrow> path \<Rightarrow> bytes \<Rightarrow> checkpoint option \<Rightarrow> checkpoint option" where
  "reused_of H p content cp = (case cp of None \<Rightarrow> None | Some c \<Rightarrow>
     if reusable p (length content) (if ck_size c \<le> length content then Some (H (take (ck_size c) content)) else None) c
     then Some c else None)"

lemma reused_none: "reused_of H p content None = None"
  by (simp add: reused_of_def)

lemma bindR_cong_result: "(\<And>x. result_of (f x) = g x) \<Longrightarrow> result_of (bindR r f) = bindR r g"
  by (cases r) simp_all

lemma result_of_if: "result_of (if b then Inl e else Inr (s, next, w)) = (if b then Inl e else Inr (s, next))"
  by simp

lemma parse_incremental_parts:
  "result_of (parse_incremental ip H utc p content cp fallback changed) =
     (if \<not> complete content then Inl (ValueError ''incremental parser requires a complete-record staging file'')
      else bindR (parse_session ip True [] p (parse_metadata ip content (reused_of H p content cp)) content
          (parse_resume content (reused_of H p content cp)))
        (\<lambda>out. tail_of_parse ip H utc p content fallback changed (if po_resumed out then reused_of H p content cp else None) out))"
proof (cases "complete content")
  case True
  have reused: "(case cp of None \<Rightarrow> None | Some c \<Rightarrow> if reusable p (length content)
      (if (case cp of None \<Rightarrow> 0 | Some c \<Rightarrow> ck_size c) \<le> length content
       then Some (H (take (case cp of None \<Rightarrow> 0 | Some c \<Rightarrow> ck_size c) content)) else None) c then Some c else None)
    = reused_of H p content cp"
    by (simp add: reused_of_def split: option.split)
  show ?thesis
    unfolding parse_incremental_def scan_bytes_eq if_P [OF True] bindR_simps prod.case Let_def reused
      parse_metadata_def [symmetric] parse_resume_def [symmetric]
    using True
    by (simp add: tail_of_parse_def Let_def bindR_cong_result result_of_if)
next
  case False
  then show ?thesis by (simp add: parse_incremental_def scan_bytes_eq)
qed

section \<open>A resumed parse\<close>

lemma next_offset_resumed:
  assumes sf: "stands_for ip H utc ck a sc ts es" and line: "0 < line"
  shows "next_offset (a @ b) (Some ck) line = next_offset (a @ b) None line"
proof -
  have a: "complete a" "ck_size ck = length a" "ck_lines ck = count_list a 10" "line_offset a (ck_turn_line ck) 0 1 = Inr (ck_turn_offset ck)"
    using sf by (auto simp: stands_for_def)
  have whole: "line_offset (a @ b) line 0 1 = (if line - 1 \<le> count_list a 10 + count_list b 10
      then Inr (after_newlines (line - 1) (a @ b)) else Inl (ValueError ''turn line is outside the staged file''))"
    using line by (simp add: line_offset_eq)
  consider (old) "line = ck_turn_line ck" | (new) "line \<noteq> ck_turn_line ck" "ck_lines ck < line"
    | (other) "line \<noteq> ck_turn_line ck" "\<not> ck_lines ck < line" by blast
  then show ?thesis
  proof cases
    case old
    then show ?thesis using a(4) line
      by (auto simp: next_offset_def line_offset_eq after_newlines_append split: if_splits)
  next
    case new
    have "line_offset (a @ b) line (length a) (count_list a 10 + 1) =
      (if line - (count_list a 10 + 1) \<le> count_list b 10 then Inr (length a + after_newlines (line - (count_list a 10 + 1)) b)
       else Inl (ValueError ''turn line is outside the staged file''))"
      using new(2) by (simp add: line_offset_eq a(3))
    moreover have "after_newlines (line - 1) (a @ b) = length a + after_newlines (line - (count_list a 10 + 1)) b"
      using new(2) after_newlines_all [OF a(1)] a(3)
      by (cases "line = Suc (count_list a 10)") (auto simp: after_newlines_append)
    moreover have "line - 1 \<le> count_list a 10 + count_list b 10 \<longleftrightarrow> line - (count_list a 10 + 1) \<le> count_list b 10"
      using new(2) a(3) by linarith
    ultimately show ?thesis using new a by (simp add: next_offset_def whole [unfolded One_nat_def])
  qed (simp add: next_offset_def)
qed

lemma metadata_resumed:
  assumes sf: "stands_for ip H utc ck a sc ts es" and "\<not> lone_cr a"
  shows "scan_metadata (parse_metadata ip (a @ b) (Some ck)) = scan_metadata (parse_metadata ip (a @ b) None)"
proof -
  have a: "complete a" "ck_size ck = length a" "ck_lines ck = count_list a 10" "ck_metadata ck = sc_kept sc"
    "scan_metadata (iter_json_records ip True (Some 0) 0 a) = Inr sc"
    using sf by (simp_all add: stands_for_def)
  show ?thesis
    using scan_resumed [OF a(5)] iter_append [OF a(1) assms(2), of ip True "Some 0" 0 b]
    by (simp add: parse_metadata_def a(2-4))
qed

lemma full_not_resumed: "parse_session ip st names p items c (parse_resume d None) = Inr out \<Longrightarrow> \<not> po_resumed out"
  by (auto simp: parse_session_def parse_resume_def bindR_Inr_iff Let_def split: if_splits)

lemma session_resumed:
  fixes b :: bytes
  assumes sf: "stands_for ip H utc ck a sc ts es" and name: "ck_filename ck = path_name p" and lone: "\<not> lone_cr a"
  defines "full \<equiv> parse_session ip True [] p (parse_metadata ip (a @ b) None) (a @ b) (parse_resume (a @ b) None)"
    and "inc \<equiv> parse_session ip True [] p (parse_metadata ip (a @ b) (Some ck)) (a @ b) (parse_resume (a @ b) (Some ck))"
  obtains (same) "inc = full" "\<And>out. full = Inr out \<Longrightarrow> \<not> po_resumed out"
  | (resumed) out us where "full = Inr out" "ps_turns (po_session out) = butlast ts @ us" "us \<noteq> []"
    "inc = Inr (out\<lparr>po_session := (po_session out)\<lparr>ps_turns := us\<rparr>, po_resumed := True\<rparr>)"
    "po_ownership out \<noteq> None" "\<forall>tn \<in> set (butlast ts @ us). started tn \<noteq> None" "0 < turn_start (last us)" "\<not> po_resumed out"
proof (cases "scan_metadata (parse_metadata ip (a @ b) None)")
  case (Inl e)
  then have "full = Inl e" "inc = Inl e" using metadata_resumed [OF sf lone]
    by (simp_all add: full_def inc_def parse_session_def)
  then show ?thesis by (intro same) simp_all
next
  case (Inr sc')
  let ?n = "native_of (path_name p)"
  let ?own = "own_history ip ?n sc'"
  have scans: "scan_metadata (parse_metadata ip (a @ b) (Some ck)) = Inr sc'" using metadata_resumed [OF sf lone] Inr by simp
  have a: "complete a" "ck_turn_line ck = turn_start (last ts)" "line_offset a (turn_start (last ts)) 0 1 = Inr (ck_turn_offset ck)"
    "scan_metadata (iter_json_records ip True (Some 0) 0 a) = Inr sc" "ts \<noteq> []"
    "ck_ownership ck = ownership_json ?n (own_history ip ?n sc)" "parse_turns ip True ?n (own_history ip ?n sc) 0 a = Inr ts"
    using sf by (auto simp: stands_for_def name)
  have grown: "scan_metadata (iter_json_records ip True (Some 0) 0 a @ iter_json_records ip True (Some 0) (count_list a 10) b) = Inr sc'"
    using Inr iter_append [OF a(1) lone, of ip True "Some 0" 0 b] by (simp add: parse_metadata_def)
  show ?thesis
  proof (cases "foreign_only ?n sc' \<or> ck_ownership ck \<noteq> ownership_json ?n ?own")
    case True
    then have "inc = full"
      by (auto simp: full_def inc_def parse_session_def native_of_path Inr scans parse_resume_def Let_def)
    moreover have "full = Inr out \<Longrightarrow> \<not> po_resumed out" for out
      unfolding full_def by (rule full_not_resumed)
    ultimately show ?thesis by (intro same)
  next
    case False
    then have "ownership_json ?n (own_history ip ?n sc) = ownership_json ?n ?own" using a(6) by simp
    then have own: "?own = own_history ip ?n sc" by (rule same_ownership [OF a(4) grown, symmetric])
    note turns = turns_resumed [OF a(1) lone a(7,5,3)]
    let ?f = "parse_turns ip True ?n ?own 0 (a @ b)"
      and ?i = "parse_turns ip True ?n ?own (turn_start (last ts) - 1) (drop (ck_turn_offset ck) (a @ b))"
    let ?out = "\<lambda>turns label res. \<lparr>po_session = \<lparr>ps_slug = label, ps_turns = turns,
                ps_project = or_else (get (ow_matching ?own) ''cwd'') (JStr (path_dir p)), ps_subagent = ow_subagent ?own,
                ps_parent = ow_parent ?own, ps_native = ?n, ps_empty = ow_empty ?own\<rparr>,
              po_kept = sc_kept sc', po_ownership = Some (ownership_json ?n ?own), po_resumed = res\<rparr>"
    have full: "full = bindR ?f (\<lambda>turns. bindR (session_label ?n (ow_matching ?own) []) (\<lambda>label. Inr (?out turns label False)))"
      using False by (simp add: full_def parse_session_def native_of_path Inr parse_resume_def Let_def)
    have inc: "inc = bindR ?i (\<lambda>turns. bindR (session_label ?n (ow_matching ?own) []) (\<lambda>label. Inr (?out turns label True)))"
      using False by (simp add: inc_def parse_session_def native_of_path scans parse_resume_def Let_def a(2))
    have fi: "?f = bindR ?i (\<lambda>us. Inr (butlast ts @ us))" unfolding own by (rule turns(1))
    show ?thesis
    proof (cases ?i)
      case (Inl e)
      then show ?thesis using full inc fi by (intro same) simp_all
    next
      case (Inr us)
      note us = this
      show ?thesis
      proof (cases "session_label ?n (ow_matching ?own) []")
        case (Inl e)
        then show ?thesis using full inc fi us by (intro same) simp_all
      next
        case (Inr label)
        have f: "?f = Inr (butlast ts @ us)" using fi us by simp
        have ne: "us \<noteq> []" using us turns(2) [of b] unfolding own by auto
        have st: "\<forall>tn \<in> set (butlast ts @ us). started tn \<noteq> None" using f by (rule parse_turns_started)
        have "butlast ts @ us \<noteq> []" "last (butlast ts @ us) = last us" using ne by simp_all
        then have line: "0 < turn_start (last us)" using last_turn [OF f] by metis
        have full': "full = Inr (?out (butlast ts @ us) label False)" unfolding full f Inr bindR_simps ..
        have inc': "inc = Inr (?out us label True)" unfolding inc us Inr bindR_simps ..
        show ?thesis by (rule resumed [OF full' _ ne _ _ st line]) (simp_all add: inc')
      qed
    qed
  qed
qed

lemma next_checkpoint_resumed:
  assumes sf: "stands_for ip H utc ck a sc ts es" and turns: "ps_turns ps = bs @ us" "us \<noteq> []" "0 < turn_start (last us)"
  shows "next_checkpoint ip utc p (a @ b) n f sha (Some ck) (out\<lparr>po_session := ps\<lparr>ps_turns := us\<rparr>, po_resumed := r\<rparr>) s
    = next_checkpoint ip utc p (a @ b) n f sha None (out\<lparr>po_session := ps\<rparr>) s"
proof -
  have "next_offset (a @ b) (Some ck) (turn_start (last us)) = next_offset (a @ b) None (turn_start (last us))"
    using next_offset_resumed [OF sf turns(3)] .
  then show ?thesis using turns by (simp add: next_checkpoint_def Let_def split: option.split)
qed

lemma bindR_assoc: "bindR (bindR m f) g = bindR m (\<lambda>x. bindR (f x) g)"
  by (cases m) simp_all

lemma tail_resumed:
  assumes sf: "stands_for ip H utc ck a sc ts es" and turns: "ps_turns (po_session out) = butlast ts @ us" "us \<noteq> []"
    and started: "\<forall>tn \<in> set (butlast ts @ us). started tn \<noteq> None" and line: "0 < turn_start (last us)"
  shows "tail_of_parse ip H utc p (a @ b) fb ch (Some ck) (out\<lparr>po_session := (po_session out)\<lparr>ps_turns := us\<rparr>, po_resumed := r\<rparr>)
    = tail_of_parse ip H utc p (a @ b) fb ch None out"
proof -
  let ?f = "\<lambda>q. case fb of None \<Rightarrow> q | Some f \<Rightarrow> if ps_project q = JStr (path_dir p) then q\<lparr>ps_project := JStr f\<rparr> else q"
  let ?ps = "?f (po_session out)"
  have f: "?f ((po_session out)\<lparr>ps_turns := us\<rparr>) = ?ps\<lparr>ps_turns := us\<rparr>" by (simp split: option.split)
  have t: "ps_turns ?ps = butlast ts @ us" using turns(1) by (simp split: option.split)
  have ev: "events_of ip utc (butlast ts) = Inr es" "ck_completed ck = concat es" using sf by (simp_all add: stands_for_def)
  have norm: "normalize_session ip utc ?ps =
    bindR (normalize_session ip utc (?ps\<lparr>ps_turns := us\<rparr>)) (\<lambda>s. with_events s (ck_completed ck @ ses_events s))"
    unfolding ev(2) by (rule normalize_resumed [OF started ev(1) t])
  let ?inc = "out\<lparr>po_session := (po_session out)\<lparr>ps_turns := us\<rparr>, po_resumed := r\<rparr>"
  have ps: "po_session ?inc = (po_session out)\<lparr>ps_turns := us\<rparr>"
    and upd: "?inc\<lparr>po_session := q\<rparr> = out\<lparr>po_session := q, po_resumed := r\<rparr>" for q by simp_all
  show ?thesis
    unfolding tail_of_parse_def Let_def ps f upd norm bindR_assoc next_checkpoint_resumed [OF sf t turns(2) line] option.case bindR_simps
    ..
qed

lemma parse_resumed:
  assumes sf: "stands_for ip H utc ck a sc ts es" and name: "ck_filename ck = path_name p" and lone: "\<not> lone_cr a"
  shows "bindR (parse_session ip True [] p (parse_metadata ip (a @ b) (Some ck)) (a @ b) (parse_resume (a @ b) (Some ck)))
      (\<lambda>out. tail_of_parse ip H utc p (a @ b) fb ch (if po_resumed out then Some ck else None) out)
    = bindR (parse_session ip True [] p (parse_metadata ip (a @ b) None) (a @ b) (parse_resume (a @ b) None))
      (\<lambda>out. tail_of_parse ip H utc p (a @ b) fb ch None out)"
  using sf name lone
proof (cases rule: session_resumed [where b = b])
  case same
  then show ?thesis
    by (cases "parse_session ip True [] p (parse_metadata ip (a @ b) None) (a @ b) (parse_resume (a @ b) None)") simp_all
next
  case (resumed out us)
  show ?thesis using tail_resumed [OF sf resumed(2,3,6,7)] by (simp add: resumed(1,4))
qed

section \<open>The checkpoint of a parse\<close>

lemma events_of_last:
  assumes "events_of ip utc (xs @ [tn]) = Inr vs"
  obtains us es where "events_of ip utc xs = Inr us" "events_of ip utc [tn] = Inr [es]" "concat vs = concat us @ es"
  using assms by (auto simp: events_append bindR_Inr_iff) (auto simp: events_of_def bindR_Inr_iff)

lemma completed_events:
  assumes started: "\<forall>tn \<in> set (ps_turns ps). started tn \<noteq> None" and ne: "ps_turns ps \<noteq> []"
    and s: "normalize_session ip utc ps = Inr s" and ls: "normalize_session ip utc (ps\<lparr>ps_turns := [last (ps_turns ps)]\<rparr>) = Inr ls"
  obtains es where "events_of ip utc (butlast (ps_turns ps)) = Inr es"
    "take (length (ses_events s) - length (ses_events ls)) (ses_events s) = concat es"
proof -
  let ?xs = "butlast (ps_turns ps)" and ?tn = "last (ps_turns ps)"
  have split: "ps_turns ps = ?xs @ [?tn]" using ne by simp
  have "normalize_session ip utc ps = bindR (events_of ip utc (?xs @ [?tn])) (\<lambda>es. headed ip ps (concat es))"
    using normalize_headed [OF started] split by simp
  with s obtain vs where vs: "events_of ip utc (?xs @ [?tn]) = Inr vs" "headed ip ps (concat vs) = Inr s"
    by (auto simp: bindR_Inr_iff)
  obtain us es where es: "events_of ip utc ?xs = Inr us" "events_of ip utc [?tn] = Inr [es]" "concat vs = concat us @ es"
    using events_of_last [OF vs(1)] .
  have "\<forall>tn \<in> set (ps_turns (ps\<lparr>ps_turns := [?tn]\<rparr>)). started tn \<noteq> None" using started ne by simp
  then have "normalize_session ip utc (ps\<lparr>ps_turns := [?tn]\<rparr>) = headed ip ps es"
    by (simp add: normalize_headed es(2))
  then have "ses_events ls = es" using ls headed_events by simp
  moreover have "ses_events s = concat us @ es" using headed_events [OF vs(2)] es(3) by simp
  ultimately show ?thesis using that es(1) by simp
qed

lemma parse_session_full:
  assumes "parse_session ip True [] p items c None = Inr out" "po_ownership out = Some otext"
  obtains sc ts where "scan_metadata items = Inr sc" "po_kept out = sc_kept sc"
    "otext = ownership_json (native_of (path_name p)) (own_history ip (native_of (path_name p)) sc)"
    "parse_turns ip True (native_of (path_name p)) (own_history ip (native_of (path_name p)) sc) 0 c = Inr ts"
    "ps_turns (po_session out) = ts"
  using assms by (auto simp: parse_session_def native_of_path bindR_Inr_iff Let_def split: if_splits)

lemma full_stands_for:
  assumes "result_of (parse_incremental ip H utc p a None fb ch) = Inr (s, Some ck)"
  shows "ck_filename ck = path_name p \<and> (\<exists>sc ts es. stands_for ip H utc ck a sc ts es)"
proof -
  have a: "complete a" and "bindR (parse_session ip True [] p (parse_metadata ip a None) a None)
      (\<lambda>out. tail_of_parse ip H utc p a fb ch None out) = Inr (s, Some ck)"
    using assms unfolding parse_incremental_parts reused_none if_cancel
    by (simp_all add: parse_resume_def split: if_splits)
  then obtain out where out: "parse_session ip True [] p (parse_metadata ip a None) a None = Inr out"
    and tail: "tail_of_parse ip H utc p a fb ch None out = Inr (s, Some ck)" by (auto simp: bindR_Inr_iff)
  define ps where "ps = (case fb of None \<Rightarrow> po_session out
      | Some f \<Rightarrow> if ps_project (po_session out) = JStr (path_dir p) then (po_session out)\<lparr>ps_project := JStr f\<rparr> else po_session out)"
  have turns: "ps_turns ps = ps_turns (po_session out)" by (simp add: ps_def split: option.split)
  from tail have s: "normalize_session ip utc ps = Inr s"
    and next_ck: "next_checkpoint ip utc p a (length a) (count_list a 10) (H a) None (out\<lparr>po_session := ps\<rparr>) s = Inr (Some ck)"
    unfolding tail_of_parse_def Let_def ps_def [symmetric] by (auto simp: bindR_Inr_iff split: if_splits)
  from next_ck obtain otext where otext: "po_ownership out = Some otext"
    by (cases "po_ownership out") (simp_all add: next_checkpoint_def)
  from next_ck otext have ne: "ps_turns ps \<noteq> []" by (auto simp: next_checkpoint_def)
  let ?tn = "last (ps_turns ps)"
  from next_ck otext ne obtain ls off where ls: "normalize_session ip utc (ps\<lparr>ps_turns := [?tn]\<rparr>) = Inr ls"
    and off: "next_offset a None (turn_start ?tn) = Inr off"
    and ck: "ck = \<lparr>ck_filename = path_name p, ck_size = length a, ck_sha = H a, ck_lines = count_list a 10,
                ck_metadata = po_kept out, ck_ownership = otext, ck_turn_offset = off, ck_turn_line = turn_start ?tn,
                ck_completed = take (length (ses_events s) - length (ses_events ls)) (ses_events s)\<rparr>"
    by (auto simp: next_checkpoint_def Let_def bindR_Inr_iff)
  obtain sc ts where sc: "scan_metadata (parse_metadata ip a None) = Inr sc" "po_kept out = sc_kept sc"
    "otext = ownership_json (native_of (path_name p)) (own_history ip (native_of (path_name p)) sc)"
    "parse_turns ip True (native_of (path_name p)) (own_history ip (native_of (path_name p)) sc) 0 a = Inr ts"
    "ps_turns (po_session out) = ts"
    using parse_session_full [OF out otext] .
  have "\<forall>tn \<in> set (ps_turns ps). started tn \<noteq> None" using parse_turns_started [OF sc(4)] turns sc(5) by simp
  then obtain es where es: "events_of ip utc (butlast (ps_turns ps)) = Inr es"
    "take (length (ses_events s) - length (ses_events ls)) (ses_events s) = concat es"
    using completed_events [OF _ ne s ls] by blast
  have "stands_for ip H utc ck a sc ts es"
    unfolding stands_for_def using a sc es off ne turns by (simp add: ck parse_metadata_def next_offset_def)
  then show ?thesis by (auto simp: ck)
qed

lemma incremental_is_full:
  assumes inj: "inj_on H {take n x |n x. x \<in> D}" and a: "a \<in> D" "\<not> lone_cr a" and content: "content \<in> D"
    and sf: "stands_for ip H utc ck a sc ts es"
  shows "result_of (parse_incremental ip H utc p content (Some ck) fb ch) = result_of (parse_incremental ip H utc p content None fb ch)"
proof (cases "reused_of H p content (Some ck)")
  case None
  show ?thesis unfolding parse_incremental_parts reused_none None ..
next
  case (Some c)
  then have c: "c = ck" and name: "ck_filename ck = path_name p" and le: "length a \<le> length content"
    and hash: "H (take (length a) content) = H a"
    using sf by (auto simp: reused_of_def reusable_def stands_for_def split: if_splits)
  have "a = take (length a) a" by simp
  then have "a \<in> {take n x |n x. x \<in> D}" using a(1) by blast
  then have "take (length a) content = a" using content by (intro inj_onD [OF inj hash]) auto
  then obtain b where b: "content = a @ b" by (metis append_take_drop_id)
  show ?thesis
    unfolding parse_incremental_parts reused_none Some c if_cancel unfolding b parse_resumed [OF sf name a(2)] ..
qed

text \<open>
  The checkpoints there are: those of full parses of documents in \<open>D\<close>, and those of parses that
  started from one of them.
\<close>

inductive checkpoint_of :: "interp \<Rightarrow> (bytes \<Rightarrow> pystr) \<Rightarrow> (pystr \<Rightarrow> pystr result) \<Rightarrow> bytes set \<Rightarrow> checkpoint \<Rightarrow> bool"
  for ip H utc D where
  full: "a \<in> D \<Longrightarrow> result_of (parse_incremental ip H utc p a None fb ch) = Inr (s, Some ck) \<Longrightarrow> checkpoint_of ip H utc D ck"
| resumed: "checkpoint_of ip H utc D old \<Longrightarrow> a \<in> D \<Longrightarrow>
    result_of (parse_incremental ip H utc p a (Some old) fb ch) = Inr (s, Some ck) \<Longrightarrow> checkpoint_of ip H utc D ck"

lemma checkpoint_stands_for:
  assumes "inj_on H {take n x |n x. x \<in> D}" "\<forall>x \<in> D. \<not> lone_cr x" "checkpoint_of ip H utc D ck"
  shows "\<exists>a sc ts es. a \<in> D \<and> stands_for ip H utc ck a sc ts es"
  using assms(3)
proof (induction rule: checkpoint_of.induct)
  case (full a p fb ch s ck)
  then show ?case using full_stands_for by blast
next
  case (resumed old a p fb ch s ck)
  then obtain a0 sc ts es where "a0 \<in> D" "stands_for ip H utc old a0 sc ts es" by blast
  then have "result_of (parse_incremental ip H utc p a None fb ch) = Inr (s, Some ck)"
    using incremental_is_full [OF assms(1)] assms(2) resumed(2,3) by metis
  then show ?case using full_stands_for resumed(2) by blast
qed

text \<open>
  C12: Parsing a grown file from a checkpoint gives the session, the next checkpoint and the
  exceptions of a full parse of it, whichever checkpoint of an earlier parse is used (a full one or
  one that itself resumed, of this file or of another). The hypotheses: SHA-256 has no
  collisions among the prefixes of the documents, and no document has a carriage return without a line
  feed, which text mode counts as a line and the incremental parser does not.
\<close>

theorem resumed_parse_is_full_parse:
  assumes "inj_on H {take n x |n x. x \<in> D}" "\<forall>x \<in> D. \<not> lone_cr x"
    and "checkpoint_of ip H utc D ck" "content \<in> D"
  shows "result_of (parse_incremental ip H utc p content (Some ck) fb ch) = result_of (parse_incremental ip H utc p content None fb ch)"
proof -
  obtain a sc ts es where "a \<in> D" "stands_for ip H utc ck a sc ts es" using checkpoint_stands_for [OF assms(1-3)] by blast
  then show ?thesis using incremental_is_full [OF assms(1)] assms(2,4) by blast
qed

text \<open>A file with one message of the user, and the same file with one more.\<close>

definition sample_members :: "string \<Rightarrow> (pystr \<times> json) list" where
  "sample_members t = [(lit ''type'', JStr (lit ''response_item'')), (lit ''timestamp'', JStr (lit ''t'')),
     (lit ''payload'', JObj [(lit ''type'', JStr (lit ''message'')), (lit ''role'', JStr (lit ''user'')),
        (lit ''content'', JStr (lit t))])]"

definition sample_interp :: interp where
  "sample_interp = \<lparr>py_loads = (\<lambda>s. Some (JObj (sample_members (if s = [117, 10] then ''x'' else ''y'')))),
     py_repr = (\<lambda>v. []), py_cases = (\<lambda>c. []), py_alnum = (\<lambda>c. 97 \<le> c \<and> c \<le> 122), py_digit = (\<lambda>c. False),
     py_casefold = (\<lambda>s. s), py_unescape = (\<lambda>s. s), py_uuid = (\<lambda>s. None), py_number = (\<lambda>s. JNull)\<rparr>"

definition sample_path :: path where
  "sample_path = \<lparr>path_name = lit ''s'', path_dir = lit ''d''\<rparr>"

lemma sample_records: "iter_json_records sample_interp True (Some 0) 0 [117, 10] = [(1, Inr (sample_members ''x''))]"
proof -
  have "utf8_decode [117, 10] = Some [117, 10]"
    using utf8_decode_utf8 [of "[117, 10]"] by (simp add: str_ok_def utf8_cp_def max_cp_def)
  then have "utf8_strict [117, 10] = Some [117, 10]" by (simp add: utf8_strict_def)
  then show ?thesis by (simp add: iter_json_records_def decode_line_def sample_interp_def)
qed

lemma sample_get:
  "get (sample_members t) ''type'' = JStr (lit ''response_item'')"
  "get_or (sample_members t) ''timestamp'' d = JStr (lit ''t'')"
  "payload_of (sample_members t) = JObj [(lit ''type'', JStr (lit ''message'')), (lit ''role'', JStr (lit ''user'')),
        (lit ''content'', JStr (lit t))]"
  by (simp_all add: sample_members_def get_or_def jget_def payload_of_def)

lemma sample_role:
  "get [(lit ''type'', v), (lit ''role'', w), (lit ''content'', u)] ''type'' = v"
  "get [(lit ''type'', v), (lit ''role'', w), (lit ''content'', u)] ''role'' = w"
  by (simp_all add: get_or_def jget_def)

lemma sample_scan: "scan_metadata [(n, Inr (sample_members t))] = Inr empty_scan"
  by (simp add: scan_metadata_def scan_record_def scan_started_def sample_get)

definition sample_own :: ownership where
  "sample_own = \<lparr>ow_matching = [], ow_boundary = Some 0, ow_subagent = False, ow_parent = JNull, ow_empty = False\<rparr>"

lemma sample_ownership: "own_history sample_interp n empty_scan = sample_own"
  by (simp add: own_history_def matching_metadata_def empty_scan_def sample_own_def is_subagent_def get_or_def jget_def)

definition sample_turn :: turn where
  "sample_turn = new_turn 1 (JStr (lit ''t'')) (lit ''x'') (lit ''user'') [] None"

lemma sample_turns: "parse_turns sample_interp True n sample_own 0 [117, 10] = Inr [sample_turn]"
proof -
  have "user_turn sample_interp 1 (JStr (lit ''t'')) [(lit ''type'', JStr (lit ''message'')), (lit ''role'', JStr (lit ''user'')),
        (lit ''content'', JStr (lit ''x''))] = Inr (Some sample_turn)"
    by (simp add: user_turn_def extract_text_def get_or_def jget_def is_known_control_envelope_def text_of_def py_str_def
       classify_short strip_def lit_def py_space_def starts_with_def sample_turn_def)
  then have "response_record sample_interp n sample_own 1 (sample_members ''x'') ([], None) = Inr ([], Some sample_turn)"
    by (simp add: response_record_def sample_get response_payload_def Let_def sample_role push_def)
  moreover have "finish_turn sample_turn = sample_turn" by (simp add: finish_turn_def sample_turn_def new_turn_def strip_def)
  ultimately show ?thesis by (simp add: parse_turns_def sample_own_def [THEN arg_cong, of ow_boundary] sample_records all_turns_def)
qed

lemma sample_native: "native_of (lit ''s'') = lit ''s''"
  by (simp add: native_of_def session_id_from_path_def path_stem_def Let_def lit_def starts_with_def)

lemma sample_session: "parse_session sample_interp True [] sample_path [(1, Inr (sample_members ''x''))] [117, 10] None =
   Inr \<lparr>po_session = \<lparr>ps_slug = JStr (lit ''s''), ps_turns = [sample_turn], ps_project = JStr (lit ''d''), ps_subagent = False,
       ps_parent = JNull, ps_native = lit ''s'', ps_empty = False\<rparr>,
     po_kept = [], po_ownership = Some (ownership_json (lit ''s'') sample_own), po_resumed = False\<rparr>"
proof -
  have native: "session_id_from_path sample_path = lit ''s''" by (simp add: native_of_path sample_path_def sample_native)
  have own: "ow_matching sample_own = []" "ow_subagent sample_own = False" "ow_parent sample_own = JNull" "ow_empty sample_own = False"
    by (simp_all add: sample_own_def)
  have label: "session_label (lit ''s'') [] [] = Inr (JStr (lit ''s''))"
    by (simp add: session_label_def get_or_def jget_def or_else_def Let_def)
  have "\<not> foreign_only (lit ''s'') empty_scan" by (simp add: foreign_only_def empty_scan_def)
  then show ?thesis
    by (simp add: parse_session_def native sample_scan sample_ownership sample_turns own label Let_def)
      (simp add: get_or_def jget_def or_else_def sample_path_def empty_scan_def)
qed

definition sample_event :: event where
  "sample_event = \<lparr>ev_id = show_nat (Suc 0) @ lit '':'' @ show_nat 0, ev_role = lit ''user'', ev_text = lit ''x'', ev_time = lit ''t'',
     ev_origin = lit ''user'', ev_kind = lit ''user_text''\<rparr>"

lemma sample_events: "turn_events sample_interp Inr (i, sample_turn) = Inr [sample_event]"
  by (simp add: turn_events_def turn_blocks_def turn_key_def sample_turn_def new_turn_def user_block_def block_event_def get_or_def
      jget_def block_roles_def or_else_def unhashable_def py_str_def redact_short make_event_def
      event_roles_def normalize_time_def sample_event_def Let_def)

lemma sample_checkpoint:
  "\<exists>s ck. result_of (parse_incremental sample_interp (\<lambda>b. b) Inr sample_path [117, 10] None None False) = Inr (s, Some ck)"
proof -
  let ?ps = "\<lparr>ps_slug = JStr (lit ''s''), ps_turns = [sample_turn], ps_project = JStr (lit ''d''), ps_subagent = False,
       ps_parent = JNull, ps_native = lit ''s'', ps_empty = False\<rparr>"
  let ?s = "\<lparr>ses_id = lit ''s'', ses_events = [sample_event], ses_source = lit ''codex'', ses_project = lit ''d'',
       ses_title = lit ''s'', ses_parent = None, ses_subagent = False, ses_parser = lit ''codex-v1''\<rparr>"
  have norm: "normalize_session sample_interp Inr ?ps = Inr ?s"
    by (simp add: normalize_session_def sample_events make_session_def redact_sensitive_text_def redact_short text_of_def py_str_def)
  have "turn_start sample_turn = 1" by (simp add: sample_turn_def new_turn_def turn_start_def)
  then have off: "next_offset [117, 10] None (turn_start sample_turn) = Inr 0" by (simp add: next_offset_def line_offset_eq)
  have "complete [117, 10]" by (simp add: complete_def)
  then show ?thesis
    by (simp add: parse_incremental_parts reused_none parse_metadata_def sample_records [unfolded One_nat_def]
        sample_session [unfolded One_nat_def] parse_resume_def tail_of_parse_def Let_def norm next_checkpoint_def off)
qed

lemma resumed_parse_is_full_parse_witness:
  "\<exists>ck. checkpoint_of sample_interp (\<lambda>b. b) Inr {[117, 10], [117, 10, 118, 10]} ck \<and>
     result_of (parse_incremental sample_interp (\<lambda>b. b) Inr sample_path [117, 10, 118, 10] (Some ck) None False)
       = result_of (parse_incremental sample_interp (\<lambda>b. b) Inr sample_path [117, 10, 118, 10] None None False)"
proof -
  let ?D = "{[117, 10], [117, 10, 118, 10]} :: bytes set"
  obtain s ck where "result_of (parse_incremental sample_interp (\<lambda>b. b) Inr sample_path [117, 10] None None False) = Inr (s, Some ck)"
    using sample_checkpoint by blast
  then have ck: "checkpoint_of sample_interp (\<lambda>b. b) Inr ?D ck" by (intro checkpoint_of.full [where a = "[117, 10]"]) simp_all
  have inj: "inj_on (\<lambda>b. b) {take n x |n x. x \<in> ?D}" by simp
  have lone: "\<forall>x \<in> ?D. \<not> lone_cr x" by simp
  have "[117, 10, 118, 10] \<in> ?D" by simp
  from resumed_parse_is_full_parse [OF inj lone ck this] ck show ?thesis by blast
qed

end
