(* ===== verification/Credentials.thy ===== *)
theory Credentials
  imports Records Files
begin

text \<open>
  Device credentials (\<open>interfaces/credentials.py\<close>): the registry file that maps devices to the
  digests of their tokens, with its authority and epoch, and the operations that issue, revoke,
  export and receive it. The file is the state; locks make the operations atomic. Random
  tokens and identities are arguments.
\<close>

section \<open>Documents\<close>

type_synonym document = "(pystr \<times> json) list"

text \<open>\<open>d.get(key)\<close>, and equality of dictionaries, which does not look at the order of members.\<close>

definition member :: "document \<Rightarrow> string \<Rightarrow> json" where
  "member d k = (case jget d k of None \<Rightarrow> JNull | Some v \<Rightarrow> v)"

definition same_json :: "json \<Rightarrow> json \<Rightarrow> bool" where
  "same_json v w \<longleftrightarrow> normal_json v = normal_json w"

definition name_char :: "nat \<Rightarrow> bool" where
  "name_char c \<longleftrightarrow> (48 \<le> c \<and> c \<le> 57) \<or> (65 \<le> c \<and> c \<le> 90) \<or> (97 \<le> c \<and> c \<le> 122)"

text \<open>\<open>[A-Za-z0-9][A-Za-z0-9_.-]{0,127}\<close>\<close>

definition device_name :: "pystr \<Rightarrow> bool" where
  "device_name s = (case s of [] \<Rightarrow> False
     | c # t \<Rightarrow> name_char c \<and> length t \<le> 127 \<and> list_all (\<lambda>d. name_char d \<or> d \<in> {95, 46, 45}) t)"

definition is_versioned :: "document \<Rightarrow> bool" where
  "is_versioned d \<longleftrightarrow> member d ''version'' = JInt 2"

definition device_entries :: "document \<Rightarrow> json" where
  "device_entries d = (if is_versioned d then member d ''devices'' else JObj d)"

definition valid_header :: "document \<Rightarrow> bool" where
  "valid_header d \<longleftrightarrow> set (map fst d) = lit ` {''version'', ''authority'', ''epoch'', ''devices'', ''replica''}
     \<and> (case member d ''authority'' of JStr s \<Rightarrow> is_hex 32 s | _ \<Rightarrow> False)
     \<and> (case member d ''epoch'' of JInt i \<Rightarrow> 0 \<le> i | _ \<Rightarrow> False)
     \<and> (case member d ''replica'' of JBool _ \<Rightarrow> True | _ \<Rightarrow> False)"

definition valid_entries :: "json \<Rightarrow> bool" where
  "valid_entries v = (case v of
       JObj es \<Rightarrow> (\<forall>(name, value) \<in> set es. device_name name \<and> (case value of JStr s \<Rightarrow> is_hex 64 s | _ \<Rightarrow> False))
     | _ \<Rightarrow> False)"

definition validate_registry :: "json \<Rightarrow> document result" where
  "validate_registry v = (case v of
       JObj d \<Rightarrow>
         if is_versioned d \<and> \<not> valid_header d then Inl (ValueError ''invalid credential authority or revision'')
         else if \<not> valid_entries (device_entries d) then Inl (ValueError ''invalid credential entries'')
         else Inr d
     | _ \<Rightarrow> Inl (ValueError ''invalid credential registry''))"

section \<open>The registry file\<close>

text \<open>The decoded file, if it exists; reading a missing file raises.\<close>

type_synonym registry = "json option"

definition read_registry :: "registry \<Rightarrow> document result" where
  "read_registry r = (case r of None \<Rightarrow> Inl (FileNotFoundError ''registry'') | Some v \<Rightarrow> validate_registry v)"

definition entries_of :: "document \<Rightarrow> (pystr \<times> json) list" where
  "entries_of d = (case device_entries d of JObj es \<Rightarrow> es | _ \<Rightarrow> [])"

definition set_member :: "string \<Rightarrow> json \<Rightarrow> document \<Rightarrow> document" where
  "set_member k v d = AList.update (lit k) v d"

definition epoch_of :: "document \<Rightarrow> int" where
  "epoch_of d = (case member d ''epoch'' of JInt i \<Rightarrow> i | _ \<Rightarrow> 0)"

text \<open>
  \<open>update_device\<close>: a token, with whether its file already exists, issues a credential; without one
  the device is revoked. The epoch of a versioned registry grows with every change.
\<close>

definition stored_entries :: "document \<Rightarrow> (pystr \<times> json) list \<Rightarrow> document" where
  "stored_entries d es = (if is_versioned d
     then set_member ''devices'' (JObj es) (set_member ''epoch'' (JInt (epoch_of d + 1)) d) else es)"

definition update_device :: "(bytes \<Rightarrow> pystr) \<Rightarrow> pystr \<Rightarrow> (pystr \<times> bool) option \<Rightarrow> (registry, unit) op" where
  "update_device H producer token r =
     (if \<not> device_name producer then (Inl (ValueError ''invalid device name''), r)
      else (case (if r = None then Inr [] else read_registry r) of
        Inl e \<Rightarrow> (Inl e, r)
      | Inr d \<Rightarrow>
          if member d ''replica'' = JBool True
          then (Inl (ValueError ''replica credentials must be updated through their authority''), r)
          else (case token of
              None \<Rightarrow> (Inr (), Some (JObj (stored_entries d (AList.delete producer (entries_of d)))))
            | Some (t, file_exists) \<Rightarrow>
                if producer \<in> fst ` set (entries_of d)
                then (Inl (ValueError ''device exists; revoke before replacing credentials''), r)
                else if file_exists then (Inl (FileExistsError ''token file''), r)
                else (Inr (), Some (JObj (stored_entries d (AList.update producer (JStr (H (utf8 t))) (entries_of d))))))))"

text \<open>What identifies a revision of the credentials.\<close>

definition credential_identity :: "(bytes \<Rightarrow> pystr) \<Rightarrow> document \<Rightarrow> (pystr \<times> json) list" where
  "credential_identity H d = [(lit ''authority'', member d ''authority''), (lit ''epoch'', member d ''epoch''),
     (lit ''digest'', JStr (json_digest H (JObj (map (\<lambda>k. (lit k, member d k)) [''version'', ''authority'', ''epoch'', ''devices'']))))]"

definition versioned :: "pystr \<Rightarrow> document \<Rightarrow> document" where
  "versioned authority es = [(lit ''version'', JInt 2), (lit ''authority'', JStr authority), (lit ''epoch'', JInt 0),
     (lit ''devices'', JObj es), (lit ''replica'', JBool False)]"

definition export_credentials :: "pystr \<Rightarrow> (registry, document) op" where
  "export_credentials authority r = (case read_registry r of
       Inl e \<Rightarrow> (Inl e, r)
     | Inr d \<Rightarrow>
         if member d ''replica'' = JBool True then (Inl (ValueError ''replica cannot publish credentials''), r)
         else if is_versioned d then (Inr d, r)
         else (Inr (versioned authority d), Some (JObj (versioned authority d))))"

definition conflicts :: "(bytes \<Rightarrow> pystr) \<Rightarrow> document \<Rightarrow> document \<Rightarrow> bool" where
  "conflicts H current d \<longleftrightarrow> member current ''replica'' \<noteq> JBool True
     \<or> member current ''authority'' \<noteq> member d ''authority'' \<or> epoch_of d < epoch_of current
     \<or> (epoch_of current = epoch_of d \<and> credential_identity H current \<noteq> credential_identity H d)"

definition replica_of :: "document \<Rightarrow> document" where
  "replica_of d = set_member ''replica'' (JBool True) d"

definition receive_credentials :: "(bytes \<Rightarrow> pystr) \<Rightarrow> json \<Rightarrow> (registry, (pystr \<times> json) list) op" where
  "receive_credentials H v r = (case validate_registry v of
       Inl e \<Rightarrow> (Inl e, r)
     | Inr d \<Rightarrow>
         if \<not> is_versioned d \<or> member d ''replica'' = JBool True
         then (Inl (ValueError ''an authoritative versioned registry is required''), r)
         else (case r of
             None \<Rightarrow> (Inr (credential_identity H d), Some (JObj (replica_of d)))
           | Some _ \<Rightarrow> (case read_registry r of
               Inl e \<Rightarrow> (Inl e, r)
             | Inr current \<Rightarrow>
                 if \<not> is_versioned current
                 then (if \<not> same_json (JObj current) (member d ''devices'')
                   then (Inl (ValueError ''legacy registry differs; reconcile before binding authority''), r)
                   else (Inr (credential_identity H d), Some (JObj (replica_of d))))
                 else if conflicts H current d
                 then (Inl (ValueError ''credential authority or revision conflicts with receiver''), r)
                 else (Inr (credential_identity H d), Some (JObj (replica_of d))))))"

section \<open>Authentication\<close>

text \<open>
  The server's middleware: the registry is read for every request, the token's digest selects the
  device, and a body above the limit is refused. The answer is the device, or the status that the
  request gets.
\<close>

definition MAX_REQUEST :: nat where "MAX_REQUEST = 8 * 1024 * 1024"

definition MAX_REVISION_UPLOAD :: nat where "MAX_REVISION_UPLOAD = 256 * 1024 * 1024"

definition bearer :: pystr where "bearer = lit ''Bearer ''"

definition authenticate :: "(bytes \<Rightarrow> pystr) \<Rightarrow> registry \<Rightarrow> pystr \<Rightarrow> nat \<Rightarrow> pystr result" where
  "authenticate H r supplied body_size = (case read_registry r of
       Inl e \<Rightarrow> Inl (HTTPException 503 ''unavailable'')
     | Inr d \<Rightarrow>
         if take 7 supplied \<noteq> bearer then Inl (HTTPException 401 ''unauthorized'')
         else (case List.find (\<lambda>(name, expected). expected = JStr (H (utf8 (drop 7 supplied)))) (entries_of d) of
             None \<Rightarrow> Inl (HTTPException 401 ''unauthorized'')
           | Some (name, expected) \<Rightarrow>
               if MAX_REQUEST < body_size then Inl (HTTPException 413 ''request_too_large'') else Inr name))"

section \<open>Documents under updates\<close>

lemma member_set [simp]: "member (set_member k v d) j = (if j = k then v else member d j)"
  by (simp add: member_def set_member_def jget_def update_conv' split: option.split)

lemma set_member_keys: "lit k \<in> set (map fst d) \<Longrightarrow> set (map fst (set_member k v d)) = set (map fst d)"
proof -
  have "k \<in> set (map fst d) \<Longrightarrow> map fst (AList.update k v d) = map fst d" for k :: pystr
    by (induction d) auto
  then show "lit k \<in> set (map fst d) \<Longrightarrow> set (map fst (set_member k v d)) = set (map fst d)" by (simp only: set_member_def)
qed

lemma header_keys: "valid_header d \<Longrightarrow> lit ''epoch'' \<in> set (map fst d) \<and> lit ''devices'' \<in> set (map fst d)
   \<and> lit ''replica'' \<in> set (map fst d)"
  by (simp add: valid_header_def)

lemma valid_header_set:
  assumes "valid_header d"
  shows "valid_header (set_member ''devices'' v d)" "0 \<le> i \<Longrightarrow> valid_header (set_member ''epoch'' (JInt i) d)"
    "valid_header (set_member ''replica'' (JBool b) d)"
proof -
  have keys: "set (map fst (set_member ''devices'' v d)) = set (map fst d)" "set (map fst (set_member ''epoch'' w d)) = set (map fst d)"
    "set (map fst (set_member ''replica'' w d)) = set (map fst d)" for v w
    using header_keys [OF assms] set_member_keys by blast+
  show "valid_header (set_member ''devices'' v d)" using assms unfolding valid_header_def keys by simp
  show "0 \<le> i \<Longrightarrow> valid_header (set_member ''epoch'' (JInt i) d)" using assms unfolding valid_header_def keys by simp
  show "valid_header (set_member ''replica'' (JBool b) d)" using assms unfolding valid_header_def keys by simp
qed

lemma update_fresh_entry: "k \<notin> fst ` set es \<Longrightarrow> AList.update k v es = es @ [(k, v)]"
  by (induction es) auto

lemma valid_entries_update:
  "valid_entries (JObj es) \<Longrightarrow> device_name p \<Longrightarrow> is_hex 64 h \<Longrightarrow> p \<notin> fst ` set es \<Longrightarrow> valid_entries (JObj (AList.update p (JStr h) es))"
  by (auto simp: valid_entries_def update_fresh_entry)

lemma valid_entries_delete: "valid_entries (JObj es) \<Longrightarrow> valid_entries (JObj (AList.delete p es))"
  by (auto simp: valid_entries_def AList.delete_eq)

text \<open>A registry of entries alone has no version: its values are texts.\<close>

lemma entries_unversioned: "valid_entries (JObj es) \<Longrightarrow> \<not> is_versioned es \<and> member es ''replica'' \<noteq> JBool True"
  by (auto simp: valid_entries_def is_versioned_def member_def jget_def split: option.splits dest!: map_of_SomeD)

lemma read_registry_valid:
  assumes "read_registry r = Inr d"
  shows "r = Some (JObj d) \<and> (is_versioned d \<longrightarrow> valid_header d) \<and> device_entries d = JObj (entries_of d) \<and> valid_entries (JObj (entries_of d))"
  using assms
  by (auto simp: read_registry_def validate_registry_def entries_of_def valid_entries_def split: option.splits json.splits if_splits)

lemma read_stored:
  assumes d: "is_versioned d \<longrightarrow> valid_header d" and es: "valid_entries (JObj es)" and pos: "is_versioned d \<longrightarrow> 0 \<le> epoch_of d"
  shows "read_registry (Some (JObj (stored_entries d es))) = Inr (stored_entries d es)"
    "entries_of (stored_entries d es) = es"
proof -
  show "read_registry (Some (JObj (stored_entries d es))) = Inr (stored_entries d es)"
  proof (cases "is_versioned d")
    case True
    then have "valid_header (stored_entries d es)" using d pos by (simp add: stored_entries_def valid_header_set)
    then show ?thesis using True es
      by (simp add: read_registry_def validate_registry_def stored_entries_def is_versioned_def device_entries_def)
  next
    case False
    then show ?thesis using es entries_unversioned [OF es]
      by (simp add: read_registry_def validate_registry_def stored_entries_def device_entries_def)
  qed
  show "entries_of (stored_entries d es) = es"
    using entries_unversioned [OF es] by (simp add: entries_of_def device_entries_def stored_entries_def is_versioned_def)
qed

lemma epoch_nonneg: "valid_header d \<Longrightarrow> 0 \<le> epoch_of d"
  by (auto simp: valid_header_def epoch_of_def split: json.splits)

text \<open>What a successful update stores, and that it can be read back.\<close>

lemma update_device_read:
  assumes "update_device H p token r = (Inr (), r')" "hash_ok H"
  obtains d es where "(if r = None then Inr [] else read_registry r) = Inr d" "read_registry r' = Inr (stored_entries d es)"
    "entries_of (stored_entries d es) = es" "member (stored_entries d es) ''replica'' \<noteq> JBool True"
    "es = (case token of None \<Rightarrow> AList.delete p (entries_of d) | Some (t, f) \<Rightarrow> AList.update p (JStr (H (utf8 t))) (entries_of d))"
    "token \<noteq> None \<longrightarrow> p \<notin> fst ` set (entries_of d)" "device_name p"
proof -
  from assms(1) obtain d where d: "(if r = None then Inr [] else read_registry r) = Inr d" and name: "device_name p"
    and rep: "member d ''replica'' \<noteq> JBool True"
    by (auto simp: update_device_def split: if_splits sum.splits)
  let ?es = "case token of None \<Rightarrow> AList.delete p (entries_of d) | Some (t, f) \<Rightarrow> AList.update p (JStr (H (utf8 t))) (entries_of d)"
  have r': "r' = Some (JObj (stored_entries d ?es))" and fresh: "token \<noteq> None \<longrightarrow> p \<notin> fst ` set (entries_of d)"
    using assms(1) d name rep by (cases token; simp add: update_device_def split: if_splits prod.splits)+
  have valid: "is_versioned d \<longrightarrow> valid_header d" "valid_entries (JObj (entries_of d))"
  proof -
    have "(is_versioned d \<longrightarrow> valid_header d) \<and> valid_entries (JObj (entries_of d))"
    proof (cases "r = None")
      case True
      with d show ?thesis by (simp add: is_versioned_def member_def jget_def entries_of_def device_entries_def valid_entries_def)
    next
      case False
      with d read_registry_valid [of r d] show ?thesis by simp
    qed
    then show "is_versioned d \<longrightarrow> valid_header d" "valid_entries (JObj (entries_of d))" by simp_all
  qed
  have es: "valid_entries (JObj ?es)"
    using valid(2) name fresh assms(2) by (auto simp: hash_ok_def valid_entries_update valid_entries_delete split: option.split)
  note stored = read_stored [OF valid(1) es]
  have pos: "is_versioned d \<longrightarrow> 0 \<le> epoch_of d" using valid(1) epoch_nonneg by blast
  have "member (stored_entries d ?es) ''replica'' \<noteq> JBool True"
    using rep entries_unversioned [OF es] by (simp add: stored_entries_def)
  then show ?thesis using that d stored(1,2) [OF pos] r' fresh name by blast
qed

definition is_token :: "(bytes \<Rightarrow> pystr) \<Rightarrow> pystr \<Rightarrow> pystr \<times> json \<Rightarrow> bool" where
  "is_token H t e \<longleftrightarrow> snd e = JStr (H (utf8 t))"

lemma authenticate_token: "read_registry r = Inr d \<Longrightarrow> authenticate H r (bearer @ t) n =
   (case List.find (is_token H t) (entries_of d) of
      None \<Rightarrow> Inl (HTTPException 401 ''unauthorized'')
    | Some e \<Rightarrow> if MAX_REQUEST < n then Inl (HTTPException 413 ''request_too_large'') else Inr (fst e))"
proof -
  assume "read_registry r = Inr d"
  moreover have "(\<lambda>(name, expected). expected = JStr (H (utf8 (drop 7 (bearer @ t))))) = is_token H t"
    by (simp add: fun_eq_iff is_token_def bearer_def lit_def)
  moreover have "take 7 (bearer @ t) = bearer" by (simp add: bearer_def lit_def)
  ultimately show ?thesis by (simp add: authenticate_def case_prod_unfold split: option.split)
qed


lemma sample_issue:
  "update_device sample_hash (lit ''a'') (Some (lit ''t'', False)) None
     = (Inr (), Some (JObj [(lit ''a'', JStr (sample_hash (utf8 (lit ''t''))))]))"
  by (simp add: update_device_def device_name_def name_char_def lit_def member_def jget_def stored_entries_def is_versioned_def
      entries_of_def device_entries_def)


section \<open>Replicas\<close>

text \<open>A replica that is sent a series of documents.\<close>

definition receive_all :: "(bytes \<Rightarrow> pystr) \<Rightarrow> json list \<Rightarrow> registry \<Rightarrow> registry" where
  "receive_all H vs r = fold (\<lambda>v r. snd (receive_credentials H v r)) vs r"

lemma receive_accepted:
  assumes "receive_credentials H (JObj b) r = (Inr x, r1)"
  shows "r1 = Some (JObj (replica_of b)) \<and> read_registry r1 = Inr (replica_of b) \<and> is_versioned b"
proof -
  from assms have valid: "validate_registry (JObj b) = Inr b" and v: "is_versioned b" and r1: "r1 = Some (JObj (replica_of b))"
    by (auto simp: receive_credentials_def validate_registry_def split: if_splits option.splits sum.splits)
  have h: "valid_header b" and e: "valid_entries (device_entries b)" using valid v
    by (auto simp: validate_registry_def split: if_splits)
  have v': "is_versioned (replica_of b)" using v by (simp add: replica_of_def is_versioned_def)
  have "valid_header (replica_of b)" using valid_header_set(3) [OF h] by (simp add: replica_of_def)
  moreover have "device_entries (replica_of b) = device_entries b" using v v' by (simp add: device_entries_def) (simp add: replica_of_def)
  ultimately show ?thesis using e v v' by (simp add: r1 read_registry_def validate_registry_def)
qed

lemma epoch_replica [simp]: "epoch_of (replica_of b) = epoch_of b"
  by (simp add: epoch_of_def replica_of_def)

lemma old_document_refused:
  assumes r: "read_registry r = Inr b" "is_versioned b" and old: "case v of JObj d \<Rightarrow> epoch_of d < epoch_of b | _ \<Rightarrow> True"
  shows "snd (receive_credentials H v r) = r"
proof (cases "validate_registry v")
  case (Inr d)
  then have v: "v = JObj d" by (auto simp: validate_registry_def split: json.splits if_splits)
  have "r \<noteq> None" using r(1) by (cases r) (simp_all add: read_registry_def)
  moreover have "conflicts H b d" using old v by (simp add: conflicts_def)
  ultimately show ?thesis using r Inr by (auto simp: receive_credentials_def split: option.split)
qed (simp add: receive_credentials_def)

lemma old_documents_refused:
  assumes "read_registry r = Inr b" "is_versioned b" and "\<forall>v \<in> set vs. case v of JObj d \<Rightarrow> epoch_of d < epoch_of b | _ \<Rightarrow> True"
  shows "receive_all H vs r = r"
  using assms(3) by (induction vs) (simp_all add: receive_all_def old_document_refused [OF assms(1,2)])

text \<open>
  C6: A revocation is final at a replica. Once it has received the registry in which the
  authority revoked a device, no earlier document of the authority (or anything that is not a registry) brings
  the device's token back, in whatever order and number they arrive; and every change at the
  authority has a larger epoch than all documents before it.
\<close>

theorem revocation_is_final:
  assumes revoke: "update_device H p None (Some (JObj a)) = (Inr (), Some (JObj b))" and a: "is_versioned a" and hash: "hash_ok H"
    and receive: "receive_credentials H (JObj b) r = (Inr x, r1)"
    and token: "\<forall>e \<in> set (entries_of a). is_token H t e \<longrightarrow> fst e = p"
    and old: "\<forall>v \<in> set vs. case v of JObj d \<Rightarrow> epoch_of d \<le> epoch_of a | _ \<Rightarrow> True"
  shows "epoch_of b = epoch_of a + 1 \<and> authenticate H (receive_all H vs r1) (bearer @ t) n = Inl (HTTPException 401 ''unauthorized'')"
proof -
  obtain d es where d: "(if Some (JObj a) = None then Inr [] else read_registry (Some (JObj a))) = Inr d"
    "read_registry (Some (JObj b)) = Inr (stored_entries d es)" "entries_of (stored_entries d es) = es" "es = AList.delete p (entries_of d)"
    by (rule update_device_read [OF revoke hash]) auto
  have da: "d = a" using d(1) read_registry_valid [of "Some (JObj a)" d] by simp
  have b: "b = stored_entries a es" using d(2) read_registry_valid [of "Some (JObj b)"] da by simp
  have epoch: "epoch_of b = epoch_of a + 1" using a by (simp add: b stored_entries_def epoch_of_def)
  have r1: "read_registry r1 = Inr (replica_of b)" "is_versioned (replica_of b)"
    using receive_accepted [OF receive] by (blast, simp add: replica_of_def is_versioned_def)
  have "\<forall>v \<in> set vs. case v of JObj d \<Rightarrow> epoch_of d < epoch_of (replica_of b) | _ \<Rightarrow> True"
    using old by (auto simp: epoch split: json.splits)
  then have same: "receive_all H vs r1 = r1" by (rule old_documents_refused [OF r1])
  have "is_versioned b" using receive_accepted [OF receive] by simp
  then have "device_entries (replica_of b) = device_entries b"
    using r1(2) by (simp add: device_entries_def) (simp add: replica_of_def)
  then have "entries_of (replica_of b) = AList.delete p (entries_of a)" using d(3,4) da b by (simp add: entries_of_def)
  then have "List.find (is_token H t) (entries_of (replica_of b)) = None"
    using token by (auto simp: find_None_set AList.delete_eq)
  then show ?thesis using epoch by (simp add: same authenticate_token [OF r1(1)])
qed

definition sample_registry :: document where
  "sample_registry = versioned (replicate 32 48) [(lit ''a'', JStr (sample_hash (utf8 (lit ''t''))))]"

lemma revocation_is_final_witness:
  "\<exists>b r1. update_device sample_hash (lit ''a'') None (Some (JObj sample_registry)) = (Inr (), Some (JObj b)) \<and>
     authenticate sample_hash (receive_all sample_hash [JObj sample_registry, JNull] r1) (bearer @ lit ''t'') 0
       = Inl (HTTPException 401 ''unauthorized'')"
proof -
  let ?b = "stored_entries sample_registry []"
  have v: "is_versioned sample_registry" by (simp add: sample_registry_def versioned_def is_versioned_def member_def jget_def)
  have es: "entries_of sample_registry = [(lit ''a'', JStr (sample_hash (utf8 (lit ''t''))))]"
    using v by (simp add: entries_of_def device_entries_def) (simp add: sample_registry_def versioned_def member_def jget_def)
  have de: "device_entries sample_registry = JObj (entries_of sample_registry)"
    using v by (simp add: entries_of_def device_entries_def) (simp add: sample_registry_def versioned_def member_def jget_def)
  have name: "device_name (lit ''a'')" by (simp add: device_name_def name_char_def lit_def)
  have h: "valid_header sample_registry"
    by (auto simp: valid_header_def sample_registry_def versioned_def member_def jget_def is_hex_def hex_digit_def list_all_iff)
  have ve: "valid_entries (JObj (entries_of sample_registry))" using name by (simp add: es valid_entries_def)
  have read: "read_registry (Some (JObj sample_registry)) = Inr sample_registry"
    using h ve by (simp add: read_registry_def validate_registry_def de)
  have rep: "member sample_registry ''replica'' = JBool False" by (simp add: sample_registry_def versioned_def member_def jget_def)
  have revoke: "update_device sample_hash (lit ''a'') None (Some (JObj sample_registry)) = (Inr (), Some (JObj ?b))"
    using name read rep by (simp add: update_device_def es)
  have vb: "is_versioned ?b" "member ?b ''replica'' = JBool False" using v rep by (simp_all add: stored_entries_def is_versioned_def)
  have "read_registry (Some (JObj ?b)) = Inr ?b"
    using read_stored(1) [of sample_registry "[]"] h epoch_nonneg [OF h] by (simp add: valid_entries_def)
  then have "validate_registry (JObj ?b) = Inr ?b" by (simp add: read_registry_def)
  then have receive: "receive_credentials sample_hash (JObj ?b) None = (Inr (credential_identity sample_hash ?b), Some (JObj (replica_of ?b)))"
    using vb by (simp add: receive_credentials_def)
  have token: "\<forall>e \<in> set (entries_of sample_registry). is_token sample_hash (lit ''t'') e \<longrightarrow> fst e = lit ''a''" by (simp add: es)
  have old: "\<forall>v \<in> set [JObj sample_registry, JNull]. case v of JObj d \<Rightarrow> epoch_of d \<le> epoch_of sample_registry | _ \<Rightarrow> True" by simp
  show ?thesis using revocation_is_final [OF revoke v hash_ok_sample receive token old] revoke by blast
qed

end
