(* ===== verification/Server.thy ===== *)
theory Server
  imports Credentials Catalog_History Transfers
begin

text \<open>
  The HTTP handlers of \<open>interfaces/server.py\<close> that change or expose the catalog and the
  uploads, over decoded JSON bodies. A handler is a function of the request's device and body and of
  the server's state; \<open>HTTPException\<close> and the exceptions that the middleware or the framework
  turns into a status are values. Handlers are serialised by the transactions and locks they take.
\<close>

section \<open>State and configuration\<close>

record server =
  sv_root :: data_root
  sv_catalog :: catalog

record server_config =
  sc_readonly :: bool
  sc_chunked :: bool
  sc_limit :: "int option"
  sc_scan :: int

text \<open>
  Statuses of exceptions: the middleware answers a fenced primary with 503 and malformed
  requests with 400; everything else is an internal error.
\<close>

definition is_value_error :: "exn \<Rightarrow> bool" where
  "is_value_error e = (case e of ValueError _ \<Rightarrow> True | UnicodeDecodeError \<Rightarrow> True | OffsetConflict \<Rightarrow> True
     | SourceChangedError \<Rightarrow> True | _ \<Rightarrow> False)"

definition is_os_error :: "exn \<Rightarrow> bool" where
  "is_os_error e = (case e of OSError _ \<Rightarrow> True | PermissionError _ \<Rightarrow> True | WriteFenced _ \<Rightarrow> True
     | FileExistsError _ \<Rightarrow> True | FileNotFoundError _ \<Rightarrow> True | _ \<Rightarrow> False)"

definition http_status :: "exn \<Rightarrow> nat" where
  "http_status e = (case e of
       HTTPException n _ \<Rightarrow> n
     | WriteFenced _ \<Rightarrow> 503
     | TypeError _ \<Rightarrow> 400
     | KeyError _ \<Rightarrow> 400
     | _ \<Rightarrow> if is_value_error e then 400 else 500)"

text \<open>\<open>Catalog(root)\<close> for writing.\<close>

definition open_catalog :: "data_root \<Rightarrow> unit result" where
  "open_catalog r = (if has_current r then Inl (PermissionError ''replica generations are read-only'')
     else if has_manifest r then Inl (PermissionError ''verified snapshots are read-only'')
     else acquire_writer r)"

text \<open>Sets of keys.\<close>

definition keys_within :: "(pystr \<times> json) list \<Rightarrow> string list \<Rightarrow> bool" where
  "keys_within kvs ks \<longleftrightarrow> set (map fst kvs) \<subseteq> set (map lit ks)"

definition keys_exactly :: "(pystr \<times> json) list \<Rightarrow> string list \<Rightarrow> bool" where
  "keys_exactly kvs ks \<longleftrightarrow> set (map fst kvs) = set (map lit ks)"

definition field :: "(pystr \<times> json) list \<Rightarrow> string \<Rightarrow> json" where
  "field kvs k = field_or kvs k JNull"

section \<open>Revisions\<close>

text \<open>
  A value bound to a SQL parameter compared with a text column: numbers are converted to their
  text, \<open>NULL\<close> matches nothing, and containers cannot be bound.
\<close>

definition sql_text :: "json \<Rightarrow> pystr option result" where
  "sql_text v = (case v of
       JStr s \<Rightarrow> Inr (Some s)
     | JNull \<Rightarrow> Inr None
     | JBool b \<Rightarrow> Inr (Some (show_nat (of_bool b)))
     | JInt i \<Rightarrow> if - (2 ^ 63) \<le> i \<and> i < 2 ^ 63 then Inr (Some (show_int i)) else Inl (RuntimeError ''OverflowError'')
     | _ \<Rightarrow> Inl (DatabaseError ''type is not supported''))"

text \<open>
  The raw reference of an envelope. The model takes it typed as clients send it; another
  type of member is a \<open>TypeError\<close> here.
\<close>

definition raw_of_json :: "json \<Rightarrow> raw_ref option result" where
  "raw_of_json v = (if \<not> truthy v then Inr None else case v of
       JObj kvs \<Rightarrow>
         if \<not> (\<forall>k \<in> {''digest'', ''size'', ''path'', ''fingerprint''}. jget kvs k \<noteq> None) then Inl (KeyError ''raw'')
         else (case (field kvs ''digest'', field kvs ''size'', field kvs ''path'', field kvs ''fingerprint'') of
             (JStr d, JInt n, JStr p, JStr f) \<Rightarrow>
               if n < 0 then Inl (ValueError ''raw evidence must be durable and verified before acknowledgement'')
               else Inr (Some \<lparr>raw_digest = d, raw_size = nat n, raw_path = p, raw_fingerprint = f\<rparr>)
           | _ \<Rightarrow> Inl (TypeError ''raw''))
     | _ \<Rightarrow> Inl (TypeError ''raw''))"

definition durable_json :: "ingest_result \<Rightarrow> json" where
  "durable_json r = JObj [(lit ''version'', JInt 1), (lit ''status'', JStr (lit ''durable'')),
     (lit ''session_id'', JStr (ir_session r)), (lit ''revision'', JStr (ir_revision r)), (lit ''duplicate'', JBool (ir_duplicate r))]"

definition head_json :: "catalog \<Rightarrow> pystr \<Rightarrow> json" where
  "head_json ct sid = (case head_of ct sid of None \<Rightarrow> JNull | Some rv \<Rightarrow> JStr rv)"

text \<open>
  \<open>POST /v1/revisions\<close>: a compare-and-write on the head of the session. A request that has a
  receipt is answered from it, whatever the head is now.
\<close>

definition lookup_receipt :: "catalog \<Rightarrow> pystr \<Rightarrow> pystr option \<Rightarrow> (pystr \<times> pystr) option" where
  "lookup_receipt ct producer rid = (case rid of None \<Rightarrow> None | Some q \<Rightarrow> map_of (ct_receipts ct) (producer, q))"

definition compare_and_write :: "(bytes \<Rightarrow> pystr) \<Rightarrow> pystr \<Rightarrow> session \<Rightarrow> json \<Rightarrow> json \<Rightarrow> json \<Rightarrow> (server, json) op" where
  "compare_and_write H producer s request expected raw sv =
     (let ct = sv_catalog sv; rv = session_revision H s; current = head_json ct (ses_id s) in
      case sql_text request of
        Inl e \<Rightarrow> (Inl e, sv)
      | Inr rid \<Rightarrow>
          let prior = lookup_receipt ct producer rid in
          if prior = None \<and> unhashable expected then (Inl (TypeError ''unhashable type''), sv)
          else if prior = None \<and> current \<noteq> expected \<and> current \<noteq> JStr rv
          then (Inl (HTTPException 409 ''session revision conflict; reconcile before retry''), sv)
          else (case raw_of_json raw of
              Inl e \<Rightarrow> (Inl e, sv)
            | Inr w \<Rightarrow> (case ingest H (sv_root sv) s producer (if truthy request then the rid else []) None w ct of
                (Inl e, ct') \<Rightarrow> (Inl e, sv\<lparr>sv_catalog := ct'\<rparr>)
              | (Inr res, ct') \<Rightarrow> (Inr (durable_json res), sv\<lparr>sv_catalog := ct'\<rparr>))))"

definition post_revisions :: "(bytes \<Rightarrow> pystr) \<Rightarrow> (pystr \<Rightarrow> pystr result) \<Rightarrow> server_config \<Rightarrow> pystr
    \<Rightarrow> (pystr \<times> json) list \<Rightarrow> (server, json) op" where
  "post_revisions H utc cfg producer data sv =
     (if sc_readonly cfg then (Inl (HTTPException 409 ''standby does not accept writes''), sv)
      else if \<not> keys_within data [''request_id'', ''expected_revision'', ''session'', ''raw'']
        \<or> \<not> set (map lit [''request_id'', ''expected_revision'', ''session'']) \<subseteq> set (map fst data)
      then (Inl (HTTPException 400 ''revision envelope fields do not match version 1''), sv)
      else (case session_of_json utc (field data ''session'') of
          Inl e \<Rightarrow> (Inl e, sv)
        | Inr s \<Rightarrow> (case open_catalog (sv_root sv) of
            Inl e \<Rightarrow> (Inl e, sv)
          | Inr _ \<Rightarrow> compare_and_write H producer s (field data ''request_id'') (field data ''expected_revision'')
              (field data ''raw'') sv)))"

section \<open>Heads for clients that reconcile\<close>

definition session_list :: "json \<Rightarrow> nat \<Rightarrow> pystr list option" where
  "session_list v n = (case v of
       JList xs \<Rightarrow> if 1 \<le> length xs \<and> length xs \<le> n \<and> (\<forall>x \<in> set xs. case x of JStr s \<Rightarrow> 0 < length s \<and> length s \<le> 256 | _ \<Rightarrow> False)
         then Some (map str_of xs) else None
     | _ \<Rightarrow> None)"

definition migration_head :: "catalog \<Rightarrow> pystr \<times> pystr \<Rightarrow> (pystr \<times> json) list" where
  "migration_head ct h = (case find_revision ct (fst h) (snd h) of None \<Rightarrow> []
     | Some r \<Rightarrow> [(fst h, JObj [(lit ''session_id'', JStr (fst h)), (lit ''revision'', JStr (snd h)),
         (lit ''source'', JStr (rr_source r)), (lit ''parser_version'', JStr (rr_parser r))])])"

definition heads_json :: "(pystr \<times> json) list \<Rightarrow> json" where
  "heads_json hs = JObj [(lit ''version'', JInt 1), (lit ''heads'', JObj hs)]"

definition migration_heads :: "server_config \<Rightarrow> (pystr \<times> json) list \<Rightarrow> server \<Rightarrow> json result" where
  "migration_heads cfg data sv =
     (if sc_readonly cfg then Inl (HTTPException 409 ''migration checkpoints must come from the primary'')
      else (case (if keys_exactly data [''sessions''] then session_list (field data ''sessions'') 100 else None) of
          None \<Rightarrow> Inl (HTTPException 400 ''migration lookup requires 1-100 session identities'')
        | Some sids \<Rightarrow> Inr (heads_json (concat (map (migration_head (sv_catalog sv))
            (filter (\<lambda>h. fst h \<in> set sids) (ct_heads (sv_catalog sv))))))))"

text \<open>The largest raw archive of a revision, the first by digest among equals.\<close>

definition best_raw :: "catalog \<Rightarrow> pystr \<Rightarrow> pystr \<Rightarrow> raw_row option" where
  "best_raw ct sid rv = (case sort_key (\<lambda>w. - int (rw_size w)) (sort_key rw_digest
       (filter (\<lambda>w. rw_session w = sid \<and> rw_revision w = rv) (ct_raw ct))) of [] \<Rightarrow> None | w # _ \<Rightarrow> Some w)"

definition recovery_head :: "catalog \<Rightarrow> pystr \<Rightarrow> (pystr \<times> json) list" where
  "recovery_head ct sid = (case head_row ct sid of None \<Rightarrow> []
     | Some r \<Rightarrow> [(sid, JObj [(lit ''session_id'', JStr sid), (lit ''revision'', JStr (rr_revision r)),
         (lit ''source'', JStr (if rr_source r = lit ''codex'' then lit ''codex'' else lit ''unsupported'')),
         (lit ''raw'', (case best_raw ct sid (rr_revision r) of None \<Rightarrow> JNull
            | Some w \<Rightarrow> JObj [(lit ''digest'', JStr (rw_digest w)), (lit ''size'', JInt (int (rw_size w)))]))])])"

definition recovery_heads :: "server_config \<Rightarrow> (pystr \<times> json) list \<Rightarrow> server \<Rightarrow> json result" where
  "recovery_heads cfg data sv =
     (if sc_readonly cfg then Inl (HTTPException 409 ''recovery checkpoints must come from the primary'')
      else (case (if keys_exactly data [''sessions''] then session_list (field data ''sessions'') 10 else None) of
          None \<Rightarrow> Inl (HTTPException 400 ''recovery lookup requires 1-10 session identities'')
        | Some sids \<Rightarrow> Inr (heads_json (concat (map (recovery_head (sv_catalog sv)) (dedup_from [] sids))))))"

section \<open>Acknowledged raw sources\<close>

definition bounded_text :: "nat \<Rightarrow> json \<Rightarrow> bool" where
  "bounded_text maximum v = (case v of JStr s \<Rightarrow> 0 < length (utf8 s) \<and> length (utf8 s) \<le> maximum | _ \<Rightarrow> False)"

definition check_source :: "json \<Rightarrow> (pystr \<times> pystr \<times> pystr) result" where
  "check_source v = (case v of
       JObj kvs \<Rightarrow>
         if \<not> keys_exactly kvs [''path'', ''fingerprint'', ''digest''] then Inl (ValueError ''invalid source fields'')
         else if \<not> bounded_text 4096 (field kvs ''path'') \<or> \<not> bounded_text 2048 (field kvs ''fingerprint'')
         then Inl (ValueError ''invalid source identity'')
         else (case field kvs ''digest'' of
             JStr d \<Rightarrow> if is_hex 64 d then Inr (str_of (field kvs ''path''), str_of (field kvs ''fingerprint''), d)
               else Inl (ValueError ''invalid raw digest'')
           | _ \<Rightarrow> Inl (ValueError ''invalid raw digest''))
     | _ \<Rightarrow> Inl (ValueError ''invalid source fields''))"

text \<open>The distinct head revisions of this device that were captured with exactly this raw file.\<close>

definition acknowledged_rows :: "catalog \<Rightarrow> pystr \<Rightarrow> pystr \<times> pystr \<times> pystr \<Rightarrow> (pystr \<times> pystr \<times> nat) list" where
  "acknowledged_rows ct producer src = (case src of (path, fingerprint, dg) \<Rightarrow>
     take 2 (dedup_from [] (map (\<lambda>w. (rw_session w, rw_revision w, rw_size w)) (filter (\<lambda>w.
       rw_path w = path \<and> rw_fingerprint w = fingerprint \<and> rw_digest w = dg
       \<and> head_of ct (rw_session w) = Some (rw_revision w)
       \<and> (rw_session w, rw_revision w, producer) \<in> set (ct_producers ct)) (ct_raw ct)))))"

definition match_json :: "catalog \<Rightarrow> pystr \<Rightarrow> nat \<times> json \<Rightarrow> json list result" where
  "match_json ct producer iv = bindR (check_source (snd iv)) (\<lambda>src.
     case acknowledged_rows ct producer src of
       [(sid, rv, n)] \<Rightarrow> Inr (if length (utf8 sid) \<le> 512 then [JObj [(lit ''index'', JInt (int (fst iv))), (lit ''session_id'', JStr sid),
           (lit ''revision'', JStr rv), (lit ''size'', JInt (int n))]] else [])
     | _ \<Rightarrow> Inr [])"

definition raw_acknowledgements :: "server_config \<Rightarrow> pystr \<Rightarrow> (pystr \<times> json) list \<Rightarrow> server \<Rightarrow> json result" where
  "raw_acknowledgements cfg producer data sv =
     (if sc_readonly cfg then Inl (HTTPException 409 ''raw acknowledgements come from the primary'')
      else (case (if keys_exactly data [''sources''] then field data ''sources'' else JNull) of
          JList xs \<Rightarrow>
            if \<not> (1 \<le> length xs \<and> length xs \<le> 50) then Inl (ValueError ''lookup accepts 1-50 raw sources'')
            else bindR (mapR (match_json (sv_catalog sv) producer) (enumerate 0 xs)) (\<lambda>ms.
              Inr (JObj [(lit ''version'', JInt 1), (lit ''status'', JStr (lit ''ok'')), (lit ''matches'', JList (concat ms))]))
        | _ \<Rightarrow> Inl (ValueError ''lookup accepts 1-50 raw sources'')))"

section \<open>Uploads\<close>

definition RAW_MAX :: int where "RAW_MAX = 32 * 1024 ^ 3"

definition progress_json :: "progress \<Rightarrow> json" where
  "progress_json p = (case p of
       Pending n \<Rightarrow> JObj [(lit ''version'', JInt 1), (lit ''status'', JStr (lit ''pending'')), (lit ''offset'', JInt (int n))]
     | Complete n \<Rightarrow> JObj [(lit ''version'', JInt 1), (lit ''status'', JStr (lit ''complete'')), (lit ''offset'', JInt (int n))])"

definition raw_transfers :: "server_config \<Rightarrow> transfers result" where
  "raw_transfers cfg = make_transfers Raw RAW_MAX (sc_chunked cfg) (sc_limit cfg) (sc_scan cfg)"

definition revision_transfers :: "server_config \<Rightarrow> transfers result" where
  "revision_transfers cfg = make_transfers RevisionUpload (int MAX_REVISION_UPLOAD) False (sc_limit cfg) (sc_scan cfg)"

definition on_root :: "(data_root, progress) op \<Rightarrow> (server, json) op" where
  "on_root f sv = (case f (sv_root sv) of
       (Inl e, r) \<Rightarrow> (Inl e, sv\<lparr>sv_root := r\<rparr>) | (Inr p, r) \<Rightarrow> (Inr (progress_json p), sv\<lparr>sv_root := r\<rparr>))"

text \<open>A storage failure or a lost race becomes a 503 that tells the client to keep its copy.\<close>

definition retryable :: "(server, json) op \<Rightarrow> (server, json) op" where
  "retryable f sv = (case f sv of
       (Inl e, sv) \<Rightarrow> (Inl (if e = OffsetConflict \<or> is_os_error e then HTTPException 503 ''retry from durable offset'' else e), sv)
     | r \<Rightarrow> r)"

definition object_status :: "(bytes \<Rightarrow> pystr) \<Rightarrow> server_config \<Rightarrow> (server_config \<Rightarrow> transfers result) \<Rightarrow> pystr \<Rightarrow> pystr \<Rightarrow> (server, json) op" where
  "object_status H cfg mk producer key sv =
     (if sc_readonly cfg then (Inl (HTTPException 409 ''transfer is available only on the primary''), sv)
      else (case mk cfg of Inl e \<Rightarrow> (Inl e, sv) | Inr t \<Rightarrow> on_root (transfer_status H t producer key) sv))"

definition raw_chunk :: "(bytes \<Rightarrow> pystr) \<Rightarrow> (data_root \<Rightarrow> nat) \<Rightarrow> server_config \<Rightarrow> pystr \<Rightarrow> pystr \<Rightarrow> int \<Rightarrow> int \<Rightarrow> bytes \<Rightarrow> (server, json) op" where
  "raw_chunk H free cfg producer key off whole chunk sv =
     (if sc_readonly cfg then (Inl (HTTPException 409 ''standby does not accept raw uploads''), sv)
      else retryable (\<lambda>sv. case raw_transfers cfg of Inl e \<Rightarrow> (Inl e, sv)
        | Inr t \<Rightarrow> on_root (transfer_append H free t producer key off whole chunk) sv) sv)"

definition revision_chunk :: "(bytes \<Rightarrow> pystr) \<Rightarrow> (data_root \<Rightarrow> nat) \<Rightarrow> server_config \<Rightarrow> pystr \<Rightarrow> pystr \<Rightarrow> int \<Rightarrow> int \<Rightarrow> bytes \<Rightarrow> (server, json) op" where
  "revision_chunk H free cfg producer key off whole chunk sv =
     (if sc_readonly cfg then (Inl (HTTPException 409 ''standby does not accept revision uploads''), sv)
      else if int MAX_REVISION_UPLOAD < whole then (Inl (HTTPException 413 ''normalized revision exceeds transfer limit''), sv)
      else retryable (\<lambda>sv. case revision_transfers cfg of Inl e \<Rightarrow> (Inl e, sv)
        | Inr t \<Rightarrow> on_root (transfer_append H free t producer key off whole chunk) sv) sv)"

text \<open>
  \<open>POST /v1/revision-objects\<close>: the envelope was uploaded as an object; it is checked, decoded and
  ingested like a direct request, and then dropped. \<open>busy\<close>: another process holds the guard.
\<close>

definition staged_envelope :: "(bytes \<Rightarrow> pystr) \<Rightarrow> data_root \<Rightarrow> json \<Rightarrow> int \<Rightarrow> (pystr \<times> (pystr \<times> json) list) result" where
  "staged_envelope H r key n = (case key of
       JStr k \<Rightarrow> bindR (object_key k) (\<lambda>_. case dir_get (upload_files r) k of
           None \<Rightarrow> Inl (FileNotFoundError ''revision object'')
         | Some x \<Rightarrow>
             if int (entry_size (Some x)) \<noteq> n \<or> object_verify H RevisionUpload r k \<noteq> Inr True
             then Inl (HTTPException 400 ''revision object checksum or size mismatch'')
             else (case json_loads (old_bytes (Some x)) of
                 None \<Rightarrow> Inl (ValueError ''invalid JSON'')
               | Some (JObj kvs) \<Rightarrow> Inr (k, kvs)
               | Some _ \<Rightarrow> Inl (HTTPException 400 ''revision envelope must be an object'')))
     | _ \<Rightarrow> Inl (TypeError ''digest''))"

definition drop_upload :: "pystr \<Rightarrow> server \<Rightarrow> server" where
  "drop_upload k sv = sv\<lparr>sv_root := set_object_dir RevisionUpload (dir_del k (upload_files (sv_root sv))) (sv_root sv)\<rparr>"

definition ingest_staged :: "(bytes \<Rightarrow> pystr) \<Rightarrow> (pystr \<Rightarrow> pystr result) \<Rightarrow> server_config \<Rightarrow> bool \<Rightarrow> pystr \<Rightarrow> json \<Rightarrow> int \<Rightarrow> (server, json) op" where
  "ingest_staged H utc cfg busy producer key n sv =
     (if busy then (Inl (OSError ''guard''), sv)
      else (case revision_transfers cfg of Inl e \<Rightarrow> (Inl e, sv)
        | Inr _ \<Rightarrow> (case staged_envelope H (sv_root sv) key n of
              Inl e \<Rightarrow> (Inl e, sv)
            | Inr (k, kvs) \<Rightarrow> (case post_revisions H utc cfg producer kvs sv of
                  (Inl e, sv') \<Rightarrow> (Inl e, sv') | (Inr res, sv') \<Rightarrow> (Inr res, drop_upload k sv')))))"

definition ingest_revision_object :: "(bytes \<Rightarrow> pystr) \<Rightarrow> (pystr \<Rightarrow> pystr result) \<Rightarrow> server_config \<Rightarrow> bool \<Rightarrow> pystr
    \<Rightarrow> (pystr \<times> json) list \<Rightarrow> (server, json) op" where
  "ingest_revision_object H utc cfg busy producer data sv =
     (if sc_readonly cfg then (Inl (HTTPException 409 ''standby does not accept writes''), sv)
      else (case (if keys_exactly data [''digest'', ''size''] then field data ''size'' else JNull) of
          JInt n \<Rightarrow>
            if \<not> (0 < n \<and> n \<le> int MAX_REVISION_UPLOAD)
            then (Inl (HTTPException 413 ''normalized revision exceeds transfer limit''), sv)
            else (case ingest_staged H utc cfg busy producer (field data ''digest'') n sv of
                (Inl e, sv') \<Rightarrow> (Inl (if is_os_error e then HTTPException 503 ''revision staging unavailable'' else e), sv')
              | r \<Rightarrow> r)
        | _ \<Rightarrow> (Inl (HTTPException 400 ''invalid revision object reference''), sv)))"

end
