(* ===== verification/Client.thy ===== *)
theory Client
  imports Server
begin

text \<open>
  The client of \<open>interfaces/client.py\<close> over an abstract network: a world that answers requests, or
  does not, and may change with each. Reads fail over to a standby, writes go to the primary only,
  and uploads resume at the offset that the server reports.
\<close>

section \<open>Requests and answers\<close>

datatype request =
    Get pystr
  | Post pystr json
  | Put pystr nat nat bytes

text \<open>
  What the transport gives for a request: no answer (after a time-out or not), or a status and a
  body. \<open>failure\<close> is what a \<open>RemoteError\<close> carries.
\<close>

datatype http_outcome = NoAnswer bool | Answer nat bytes

type_synonym failure = "nat option \<times> string"

type_synonym dict = "(pystr \<times> json) list"

definition versioned_dict :: "json \<Rightarrow> dict option" where
  "versioned_dict v = (case v of JObj kvs \<Rightarrow> if int_of (field kvs ''version'') = Some 1 then Some kvs else None | _ \<Rightarrow> None)"

definition MAX_ANSWER :: nat where "MAX_ANSWER = 65536"

definition busy_reason :: "nat \<Rightarrow> bytes \<Rightarrow> string" where
  "busy_reason code body = (if code = 503 then (case json_loads (take (MAX_ANSWER + 1) body) of
       Some (JObj kvs) \<Rightarrow> if field kvs ''reason'' = JStr (lit ''search_busy'') then ''search_busy'' else ''server_error''
     | _ \<Rightarrow> ''server_error'') else ''server_error'')"

text \<open>The answer to a request that is not streamed.\<close>

definition decode_answer :: "http_outcome \<Rightarrow> failure + dict" where
  "decode_answer o' = (case o' of
       NoAnswer timed_out \<Rightarrow> Inl (None, if timed_out then ''read_timeout'' else ''connection_error'')
     | Answer code body \<Rightarrow>
         if \<not> (200 \<le> code \<and> code < 300) then Inl (Some code, busy_reason code body)
         else if MAX_ANSWER < length body then Inl (Some 502, ''connection_error'')
         else (case Option.bind (json_loads body) versioned_dict of
             None \<Rightarrow> Inl (Some 502, ''connection_error'') | Some kvs \<Rightarrow> Inr kvs))"

text \<open>
  A streamed answer: frames on lines, progress until a result or an error. A line that is cut
  off or longer than one read ends the stream.
\<close>

definition MAX_LINE :: nat where "MAX_LINE = 66000"

definition frame_line :: "bytes \<Rightarrow> bytes" where
  "frame_line b = take (MAX_LINE + 1) (takeWhile (\<lambda>c. c \<noteq> 10) b @ (if 10 \<in> set b then [10] else []))"

definition frame_result :: "dict \<Rightarrow> failure + dict" where
  "frame_result kvs =
     (if field kvs ''type'' = JStr (lit ''error'') then Inl (Some 500, ''search_failed'')
      else if field kvs ''type'' \<noteq> JStr (lit ''result'') then Inl (Some 502, ''connection_error'')
      else (case versioned_dict (field kvs ''result'') of
          None \<Rightarrow> Inl (Some 502, ''connection_error'')
        | Some res \<Rightarrow> if MAX_ANSWER < length (encode_json (JObj res)) then Inl (Some 502, ''connection_error'') else Inr res))"

function read_stream :: "bytes \<Rightarrow> failure + dict" where
  "read_stream b =
     (let line = frame_line b in
      if line = [] \<or> last line \<noteq> 10 then Inl (Some 502, ''stream_interrupted'')
      else if MAX_LINE < length line then Inl (Some 502, ''connection_error'')
      else (case Option.bind (json_loads line) versioned_dict of
          None \<Rightarrow> Inl (Some 502, ''connection_error'')
        | Some kvs \<Rightarrow> if field kvs ''type'' = JStr (lit ''progress'') then read_stream (drop (length line) b)
            else frame_result kvs))"
  by pat_completeness auto
termination
proof (relation "measure length")
  fix b line :: bytes
  assume line: "line = frame_line b" "\<not> (line = [] \<or> last line \<noteq> 10)"
  then have "b \<noteq> []" by (auto simp: frame_line_def)
  with line show "(drop (length line) b, b) \<in> measure length" by simp
qed simp

declare read_stream.simps [simp del]

section \<open>Reads\<close>

definition retryable_read :: "failure \<Rightarrow> bool" where
  "retryable_read f \<longleftrightarrow> fst f \<in> {None, Some 500, Some 502, Some 503, Some 504}"

definition serve :: "string \<Rightarrow> dict \<Rightarrow> dict" where
  "serve name kvs = AList.update (lit ''served_by'') (JStr (lit name)) kvs"

definition failure_json :: "string \<Rightarrow> failure \<Rightarrow> json" where
  "failure_json name f = JObj [(lit ''server'', JStr (lit name)), (lit ''reason'', JStr (lit (snd f))),
     (lit ''http_status'', (case fst f of None \<Rightarrow> JNull | Some n \<Rightarrow> JInt (int n)))]"

definition overall_reason :: "string list \<Rightarrow> string" where
  "overall_reason rs =
     (if ''search_progress_timeout'' \<in> set rs then ''search_progress_timeout''
      else if ''search_failed'' \<in> set rs then ''search_failed''
      else if ''stream_interrupted'' \<in> set rs then ''search_interrupted''
      else if ''read_timeout'' \<in> set rs then ''search_timeout''
      else if ''search_busy'' \<in> set rs then ''search_busy''
      else ''search_servers_unreachable'')"

fun try_servers :: "(string \<times> (failure + dict)) list \<Rightarrow> (string \<times> failure) list \<Rightarrow> dict result" where
  "try_servers [] fs = Inr [(lit ''version'', JInt 1), (lit ''status'', JStr (lit ''unavailable'')),
     (lit ''reason'', JStr (lit (overall_reason (map (snd \<circ> snd) fs)))), (lit ''failures'', JList (map (\<lambda>(n, f). failure_json n f) fs))]"
| "try_servers ((name, answer) # others) fs = (case answer of
       Inr kvs \<Rightarrow> Inr (serve name kvs)
     | Inl f \<Rightarrow> if \<not> retryable_read f then Inl (RemoteError (fst f)) else try_servers others (fs @ [(name, f)]))"

text \<open>
  \<open>read\<close>: the primary, then the standby if there is one; each server's answer is given (the
  standby's is only asked for after the primary has failed).
\<close>

definition client_read :: "string \<Rightarrow> (failure + dict) \<Rightarrow> (failure + dict) option \<Rightarrow> dict result" where
  "client_read operation primary standby =
     (if operation \<notin> {''search'', ''context'', ''status''} then Inl (ValueError ''unsupported read operation'')
      else try_servers ((''primary'', primary) # (case standby of None \<Rightarrow> [] | Some a \<Rightarrow> [(''standby'', a)])) [])"

section \<open>Writes\<close>

text \<open>The world that serves the requests of one device to the primary.\<close>

type_synonym 'w send = "request \<Rightarrow> ('w, dict) op"

definition remote_502 :: exn where "remote_502 = RemoteError (Some 502)"

definition progress_status :: "dict \<Rightarrow> json" where
  "progress_status kvs = field kvs ''status''"

definition is_complete :: "dict \<Rightarrow> bool" where
  "is_complete kvs \<longleftrightarrow> field kvs ''status'' = JStr (lit ''complete'')"

definition at_offset :: "dict \<Rightarrow> nat \<Rightarrow> bool" where
  "at_offset kvs n \<longleftrightarrow> int_of (field kvs ''offset'') = Some (int n)"

text \<open>\<open>_upload_object\<close>: the loop sends what is missing and ends with an empty chunk if need be.\<close>

function upload_rest :: "'w send \<Rightarrow> pystr \<Rightarrow> bytes \<Rightarrow> nat \<Rightarrow> ('w, dict) op" where
  "upload_rest send route content offset w =
     (let chunk = take (min MAX_CHUNK (length content - offset)) (drop offset content) in
      case send (Put route offset (length content) chunk) w of
        (Inl e, w) \<Rightarrow> (Inl e, w)
      | (Inr progress, w) \<Rightarrow>
          if \<not> at_offset progress (offset + length chunk) then (Inl remote_502, w)
          else if is_complete progress then (Inr progress, w)
          else if chunk = [] then (Inl remote_502, w)
          else upload_rest send route content (offset + length chunk) w)"
  by pat_completeness auto
termination
proof (relation "measure (\<lambda>(send, route, content, offset, w). length content - offset)")
  fix chunk content :: bytes and offset :: nat
  assume "chunk = take (min MAX_CHUNK (length content - offset)) (drop offset content)" "chunk \<noteq> []"
  then have "0 < length chunk" "offset < length content" by auto
  then show "((send, route, content, offset + length chunk, w'), send, route, content, offset, w)
      \<in> measure (\<lambda>(send, route, content, offset, w). length content - offset)" for send route w w'
    by (simp add: diff_less_mono2 del: length_greater_0_conv)
qed simp

declare upload_rest.simps [simp del]

definition upload_object :: "'w send \<Rightarrow> pystr \<Rightarrow> pystr \<Rightarrow> bytes \<Rightarrow> ('w, dict) op" where
  "upload_object send prefix key content w = (case object_key key of
       Inl e \<Rightarrow> (Inl e, w)
     | Inr _ \<Rightarrow> (let route = prefix @ key in case send (Get route) w of
           (Inl e, w) \<Rightarrow> (Inl e, w)
         | (Inr progress, w) \<Rightarrow>
             if jget progress ''status'' = None then (Inl (KeyError ''status''), w)
             else if is_complete progress
             then (if jget progress ''offset'' = None then (Inl (KeyError ''offset''), w)
               else if \<not> at_offset progress (length content) then (Inl (RemoteError (Some 409)), w) else (Inr progress, w))
             else if jget progress ''offset'' = None then (Inl (KeyError ''offset''), w)
             else (case int_of (field progress ''offset'') of
                 Some i \<Rightarrow> if 0 \<le> i \<and> i \<le> int (length content) then upload_rest send route content (nat i) w
                   else (Inl remote_502, w)
               | None \<Rightarrow> (Inl remote_502, w))))"

text \<open>
  \<open>upload\<close>: a large envelope goes through an object upload and a reference to it.
\<close>

definition upload :: "(bytes \<Rightarrow> pystr) \<Rightarrow> 'w send \<Rightarrow> json \<Rightarrow> ('w, dict) op" where
  "upload H send payload w =
     (let encoded = encode_json payload in
      if MAX_REVISION_UPLOAD < length encoded then (Inl (RemoteError (Some 413)), w)
      else if MAX_REQUEST < length encoded
      then bindS (upload_object send (lit ''/v1/revision-objects/'') (H encoded) encoded) (\<lambda>_.
        send (Post (lit ''/v1/revision-objects'') (JObj [(lit ''digest'', JStr (H encoded)), (lit ''size'', JInt (int (length encoded)))]))) w
      else send (Post (lit ''/v1/revisions'') payload) w)"

text \<open>
  \<open>upload_raw_store\<close> reads the object lazily; \<open>object_yields\<close> is what the iterator gives, one
  content at a time, ending with the exception if there is one.
\<close>

definition object_yields :: "(bytes \<Rightarrow> pystr) \<Rightarrow> data_root \<Rightarrow> pystr \<Rightarrow> bytes result list" where
  "object_yields H r key = (case object_layout Raw r key of
       Inl e \<Rightarrow> [Inl e]
     | Inr ChunkedV1 \<Rightarrow> (case chunk_recipe r key of
           Inl e \<Rightarrow> [Inl e]
         | Inr (n, chunks) \<Rightarrow> map (read_chunk H r) chunks @
             (if is_ok (chunk_iter H r key) then [] else [Inl (ValueError ''reconstructed raw-file checksum mismatch'')]))
     | Inr PlainFile \<Rightarrow> (case dir_get (raw_files r) key of
           Some (File b) \<Rightarrow> map Inr (split_bytes BUFFER b) @
             (if H b = key then [] else [Inl (ValueError ''raw object checksum mismatch'')])
         | _ \<Rightarrow> [Inl (OSError ''not a regular file'')]))"

function send_content :: "'w send \<Rightarrow> pystr \<Rightarrow> nat \<Rightarrow> bytes \<Rightarrow> nat \<times> dict \<Rightarrow> ('w, nat \<times> dict) op" where
  "send_content send route whole content op w =
     (if content = [] then (Inr op, w)
      else let chunk = take MAX_CHUNK content; expected = fst op + length chunk in
        case send (Put route (fst op) whole chunk) w of
          (Inl e, w) \<Rightarrow> (Inl e, w)
        | (Inr progress, w) \<Rightarrow>
            if \<not> at_offset progress expected \<or> is_complete progress \<and> expected \<noteq> whole then (Inl remote_502, w)
            else send_content send route whole (drop MAX_CHUNK content) (expected, progress) w)"
  by pat_completeness auto
termination
  by (relation "measure (\<lambda>(send, route, whole, content, op, w). length content)") (auto simp: MAX_CHUNK_def)

declare send_content.simps [simp del]

text \<open>\<open>position\<close> is how far the local object has been read; the prefix the server has is skipped.\<close>

fun send_yields :: "'w send \<Rightarrow> pystr \<Rightarrow> nat \<Rightarrow> bytes result list \<Rightarrow> nat \<Rightarrow> nat \<times> dict \<Rightarrow> ('w, nat \<times> nat \<times> dict) op" where
  "send_yields send route whole [] position op w = (Inr (position, op), w)"
| "send_yields send route whole (y # ys) position op w = (case y of
       Inl e \<Rightarrow> (Inl e, w)
     | Inr content \<Rightarrow> (case send_content send route whole (drop (fst op - position) content) op w of
           (Inl e, w) \<Rightarrow> (Inl e, w)
         | (Inr op, w) \<Rightarrow> send_yields send route whole ys (position + length content) op w))"

definition upload_raw_store :: "(bytes \<Rightarrow> pystr) \<Rightarrow> 'w send \<Rightarrow> data_root \<Rightarrow> pystr \<Rightarrow> ('w, dict) op" where
  "upload_raw_store H send r key w = (case bindR (object_key key) (\<lambda>_. object_size Raw r key) of
       Inl e \<Rightarrow> (Inl e, w)
     | Inr whole \<Rightarrow> (let route = lit ''/v1/objects/'' @ key in case send (Get route) w of
           (Inl e, w) \<Rightarrow> (Inl e, w)
         | (Inr progress, w) \<Rightarrow> (case field progress ''offset'' of
               JInt i \<Rightarrow>
                 if \<not> (0 \<le> i \<and> i \<le> int whole) then (Inl remote_502, w)
                 else if is_complete progress
                 then (if i \<noteq> int whole then (Inl (RemoteError (Some 409)), w) else (Inr progress, w))
                 else if field progress ''status'' \<noteq> JStr (lit ''pending'') then (Inl remote_502, w)
                 else (case send_yields send route whole (object_yields H r key) 0 (nat i, progress) w of
                     (Inl e, w) \<Rightarrow> (Inl e, w)
                   | (Inr (position, offset, progress), w) \<Rightarrow>
                       if position \<noteq> whole then (Inl (ValueError ''raw object size changed during upload''), w)
                       else (case (if is_complete progress then (Inr progress, w) else send (Put route offset whole []) w) of
                           (Inl e, w) \<Rightarrow> (Inl e, w)
                         | (Inr progress, w) \<Rightarrow>
                             if \<not> is_complete progress \<or> \<not> at_offset progress whole then (Inl remote_502, w)
                             else (Inr progress, w)))
             | _ \<Rightarrow> (Inl remote_502, w))))"

definition upload_raw :: "'w send \<Rightarrow> data_root \<Rightarrow> pystr \<Rightarrow> ('w, dict) op" where
  "upload_raw send r key w = (case dir_get (raw_files r) key of
       Some (File b) \<Rightarrow> upload_object send (lit ''/v1/objects/'') key b w
     | _ \<Rightarrow> (case object_key key of Inl e \<Rightarrow> (Inl e, w)
         | Inr _ \<Rightarrow> (case send (Get (lit ''/v1/objects/'' @ key)) w of (Inl e, w) \<Rightarrow> (Inl e, w)
             | (Inr _, w) \<Rightarrow> (Inl (FileNotFoundError ''raw object''), w))))"

section \<open>Lookups\<close>

text \<open>The checks of what the server says about heads.\<close>

definition check_head :: "(dict \<Rightarrow> bool) \<Rightarrow> pystr \<times> json \<Rightarrow> bool" where
  "check_head ok h = (case snd h of JObj kvs \<Rightarrow> field kvs ''session_id'' = JStr (fst h) \<and> ok kvs | _ \<Rightarrow> False)"

definition checked_heads :: "(dict \<Rightarrow> bool) \<Rightarrow> pystr list \<Rightarrow> dict \<Rightarrow> dict result" where
  "checked_heads ok sids kvs = (case field kvs ''heads'' of
       JObj heads \<Rightarrow> if set (map fst heads) \<subseteq> set sids \<and> list_all (check_head ok) heads then Inr heads else Inl remote_502
     | _ \<Rightarrow> Inl remote_502)"

definition migration_head_ok :: "dict \<Rightarrow> bool" where
  "migration_head_ok kvs = (case field kvs ''revision'' of JStr rv \<Rightarrow> length rv = 64 | _ \<Rightarrow> False)"

definition recovery_head_ok :: "dict \<Rightarrow> bool" where
  "recovery_head_ok kvs = ((case field kvs ''revision'' of JStr rv \<Rightarrow> is_hex 64 rv | _ \<Rightarrow> False) \<and>
     (case field kvs ''raw'' of
        JNull \<Rightarrow> True
      | JObj raw \<Rightarrow> (case (field raw ''size'', field raw ''digest'') of
            (JInt n, JStr d) \<Rightarrow> 0 < n \<and> n \<le> RAW_MAX \<and> is_hex 64 d | _ \<Rightarrow> False)
      | _ \<Rightarrow> False))"

definition lookup_heads :: "'w send \<Rightarrow> string \<Rightarrow> (dict \<Rightarrow> bool) \<Rightarrow> pystr list \<Rightarrow> ('w, dict) op" where
  "lookup_heads send route ok sids = bindS (send (Post (lit route) (JObj [(lit ''sessions'', JList (map JStr sids))])))
     (\<lambda>kvs w. (checked_heads ok sids kvs, w))"

definition client_migration_heads :: "'w send \<Rightarrow> pystr list \<Rightarrow> ('w, dict) op" where
  "client_migration_heads send = lookup_heads send ''/v1/migration-heads'' migration_head_ok"

definition client_recovery_heads :: "'w send \<Rightarrow> pystr list \<Rightarrow> ('w, dict) op" where
  "client_recovery_heads send = lookup_heads send ''/v1/recovery-heads'' recovery_head_ok"

text \<open>Acknowledged raw sources: each index once, and well-formed.\<close>

fun check_matches :: "nat \<Rightarrow> int list \<Rightarrow> json list \<Rightarrow> bool" where
  "check_matches n seen [] = True"
| "check_matches n seen (m # ms) = (case m of
       JObj row \<Rightarrow> keys_exactly row [''index'', ''session_id'', ''revision'', ''size''] \<and>
         (case (field row ''index'', field row ''session_id'', field row ''revision'', field row ''size'') of
            (JInt i, JStr sid, JStr rv, JInt k) \<Rightarrow> 0 \<le> i \<and> i < int n \<and> i \<notin> set seen \<and> 0 < length (utf8 sid)
              \<and> length (utf8 sid) \<le> 512 \<and> is_hex 64 rv \<and> 0 < k \<and> k \<le> RAW_MAX \<and> check_matches n (i # seen) ms
          | _ \<Rightarrow> False)
     | _ \<Rightarrow> False)"

definition client_raw_acknowledgements :: "'w send \<Rightarrow> json list \<Rightarrow> ('w, json list) op" where
  "client_raw_acknowledgements send sources w =
     (if \<not> (1 \<le> length sources \<and> length sources \<le> 50) then (Inl (ValueError ''lookup accepts 1-50 raw sources''), w)
      else bindS (send (Post (lit ''/v1/raw-acknowledgements'') (JObj [(lit ''sources'', JList sources)]))) (\<lambda>kvs w.
        case field kvs ''matches'' of
          JList ms \<Rightarrow> if field kvs ''status'' = JStr (lit ''ok'') \<and> length ms \<le> length sources \<and> check_matches (length sources) [] ms
            then (Inr ms, w) else (Inl remote_502, w)
        | _ \<Rightarrow> (Inl remote_502, w)) w)"

end
