(* ===== verification/Queue.thy ===== *)
theory Queue
  imports Client
begin

text \<open>
  The durable outbound queue of a capture device (\<open>capture/queue.py\<close>): what a capture enqueues,
  how the head of each session's chain is sent, retried, refused or retired, how expected revisions
  are reconciled, and what happens to the staged raw files. The remote is the world behind
  \<open>send\<close>; times are whole seconds.
\<close>

section \<open>Tables\<close>

text \<open>
  The payload of a pending row is the text of an envelope. Only \<open>ingest\<close> writes it and only its
  expected revision is ever rewritten, so it is kept as the envelope that the text encodes.
\<close>

record envelope =
  en_request :: pystr
  en_expected :: "pystr option"
  en_session :: session
  en_raw :: "raw_ref option"

definition opt_json :: "pystr option \<Rightarrow> json" where
  "opt_json x = (case x of None \<Rightarrow> JNull | Some s \<Rightarrow> JStr s)"

definition raw_json :: "raw_ref \<Rightarrow> json" where
  "raw_json w = JObj [(lit ''digest'', JStr (raw_digest w)), (lit ''size'', JInt (int (raw_size w))),
     (lit ''path'', JStr (raw_path w)), (lit ''fingerprint'', JStr (raw_fingerprint w))]"

definition envelope_dict :: "envelope \<Rightarrow> dict" where
  "envelope_dict e = [(lit ''request_id'', JStr (en_request e)), (lit ''expected_revision'', opt_json (en_expected e)),
     (lit ''session'', JObj (session_dict (en_session e)))]
     @ (case en_raw e of None \<Rightarrow> [] | Some w \<Rightarrow> [(lit ''raw'', raw_json w)])"

definition envelope_json :: "envelope \<Rightarrow> json" where
  "envelope_json e = JObj (envelope_dict e)"

datatype upload_state = Waiting | Conflict | Rejected

record pending_row =
  pd_seq :: nat
  pd_request :: pystr
  pd_session :: pystr
  pd_revision :: pystr
  pd_payload :: envelope
  pd_attempts :: nat
  pd_next :: int
  pd_state :: upload_state

record raw_ack =
  ra_fingerprint :: pystr
  ra_digest :: pystr
  ra_size :: nat
  ra_session :: pystr
  ra_revision :: pystr

text \<open>Pending rows stand in the order of their sequence numbers.\<close>

record upload_queue =
  uq_pending :: "pending_row list"
  uq_captured :: "(pystr \<times> pystr) list"
  uq_acknowledged :: "(pystr \<times> pystr) list"
  uq_raw_captures :: "(pystr \<times> pystr \<times> pystr) list"
  uq_raw_acks :: "(pystr \<times> raw_ack) list"

definition empty_queue :: upload_queue where
  "empty_queue = \<lparr>uq_pending = [], uq_captured = [], uq_acknowledged = [], uq_raw_captures = [], uq_raw_acks = []\<rparr>"

definition queue_fingerprint :: "upload_queue \<Rightarrow> pystr \<Rightarrow> pystr option" where
  "queue_fingerprint q path = map_of (uq_captured q) path"

definition queue_has_raw :: "upload_queue \<Rightarrow> pystr \<Rightarrow> pystr \<Rightarrow> bool" where
  "queue_has_raw q path fingerprint \<longleftrightarrow> map_option fst (map_of (uq_raw_captures q) path) = Some fingerprint"

definition queue_status :: "upload_queue \<Rightarrow> (upload_state \<Rightarrow> nat) \<times> nat" where
  "queue_status q = ((\<lambda>st. length (filter (\<lambda>p. pd_state p = st) (uq_pending q))), length (uq_pending q))"

section \<open>Enqueueing\<close>

definition session_rows :: "upload_queue \<Rightarrow> pystr \<Rightarrow> pending_row list" where
  "session_rows q sid = filter (\<lambda>p. pd_session p = sid) (uq_pending q)"

definition previous_revision :: "upload_queue \<Rightarrow> pystr \<Rightarrow> pystr option" where
  "previous_revision q sid = (case rev (session_rows q sid) of
       p # _ \<Rightarrow> Some (pd_revision p) | [] \<Rightarrow> map_of (uq_acknowledged q) sid)"

definition next_seq :: "pending_row list \<Rightarrow> nat" where
  "next_seq ps = Suc (fold max (map pd_seq ps) 0)"

definition new_row :: "(bytes \<Rightarrow> pystr) \<Rightarrow> session \<Rightarrow> pystr \<Rightarrow> raw_ref option \<Rightarrow> upload_queue \<Rightarrow> pending_row" where
  "new_row H s request raw q = \<lparr>pd_seq = next_seq (uq_pending q), pd_request = request, pd_session = ses_id s,
     pd_revision = session_revision H s,
     pd_payload = \<lparr>en_request = request, en_expected = previous_revision q (ses_id s), en_session = s, en_raw = raw\<rparr>,
     pd_attempts = 0, pd_next = 0, pd_state = Waiting\<rparr>"

definition note_capture :: "(pystr \<times> pystr) option \<Rightarrow> raw_ref option \<Rightarrow> upload_queue \<Rightarrow> upload_queue" where
  "note_capture checkpoint raw q = q\<lparr>
     uq_captured := (case checkpoint of None \<Rightarrow> uq_captured q | Some (path, fp) \<Rightarrow> AList.update path fp (uq_captured q)),
     uq_raw_captures := (case raw of None \<Rightarrow> uq_raw_captures q
       | Some w \<Rightarrow> AList.update (raw_path w) (raw_fingerprint w, raw_digest w) (uq_raw_captures q))\<rparr>"

definition queue_ingest :: "(bytes \<Rightarrow> pystr) \<Rightarrow> session \<Rightarrow> pystr \<Rightarrow> (pystr \<times> pystr) option \<Rightarrow> raw_ref option
    \<Rightarrow> (upload_queue, ingest_result) op" where
  "queue_ingest H s request checkpoint raw q =
     (let existing = List.find (\<lambda>p. pd_request p = request) (uq_pending q); rv = session_revision H s in
      if (case existing of None \<Rightarrow> False | Some p \<Rightarrow> pd_revision p \<noteq> rv)
      then (Inl (ValueError ''idempotency key reused for different content''), q)
      else (Inr \<lparr>ir_session = ses_id s, ir_revision = rv, ir_duplicate = (existing \<noteq> None)\<rparr>,
        note_capture checkpoint raw
          (if existing = None then q\<lparr>uq_pending := uq_pending q @ [new_row H s request raw q]\<rparr> else q)))"

section \<open>Sending\<close>

text \<open>A device: its queue, its staged files, and the remote as it is seen through the network.\<close>

record 'w device =
  dv_queue :: upload_queue
  dv_root :: data_root
  dv_net :: 'w

definition is_oldest :: "upload_queue \<Rightarrow> pending_row \<Rightarrow> bool" where
  "is_oldest q p = list_all (\<lambda>b. \<not> (pd_session b = pd_session p \<and> pd_seq b < pd_seq p)) (uq_pending q)"

definition due_rows :: "upload_queue \<Rightarrow> int \<Rightarrow> nat \<Rightarrow> pending_row list" where
  "due_rows q now limit = take limit
     (filter (\<lambda>p. pd_state p = Waiting \<and> pd_next p \<le> now \<and> is_oldest q p) (uq_pending q))"

definition send_raw :: "(bytes \<Rightarrow> pystr) \<Rightarrow> 'w send \<Rightarrow> data_root \<Rightarrow> raw_ref \<Rightarrow> ('w, dict) op" where
  "send_raw H send r w net = (case object_layout Raw r (raw_digest w) of
       Inl e \<Rightarrow> (Inl e, net)
     | Inr ChunkedV1 \<Rightarrow> upload_raw_store H send r (raw_digest w) net
     | Inr PlainFile \<Rightarrow> upload_raw send r (raw_digest w) net)"

definition send_envelope :: "(bytes \<Rightarrow> pystr) \<Rightarrow> 'w send \<Rightarrow> data_root \<Rightarrow> envelope \<Rightarrow> ('w, dict) op" where
  "send_envelope H send r e net = (case en_raw e of
       None \<Rightarrow> upload H send (envelope_json e) net
     | Some w \<Rightarrow> bindS (send_raw H send r w) (\<lambda>_. upload H send (envelope_json e)) net)"

definition is_durable :: "dict \<Rightarrow> pystr \<Rightarrow> bool" where
  "is_durable receipt rv \<longleftrightarrow> field receipt ''status'' = JStr (lit ''durable'') \<and> field receipt ''revision'' = JStr rv"

definition retire_row :: "pending_row \<Rightarrow> envelope \<Rightarrow> upload_queue \<Rightarrow> upload_queue" where
  "retire_row p e q = q\<lparr>
     uq_acknowledged := AList.update (pd_session p) (pd_revision p) (uq_acknowledged q),
     uq_raw_acks := (case en_raw e of None \<Rightarrow> uq_raw_acks q
       | Some w \<Rightarrow> AList.update (raw_path w) \<lparr>ra_fingerprint = raw_fingerprint w, ra_digest = raw_digest w,
           ra_size = raw_size w, ra_session = pd_session p, ra_revision = pd_revision p\<rparr> (uq_raw_acks q)),
     uq_pending := filter (\<lambda>b. pd_seq b \<noteq> pd_seq p) (uq_pending q)\<rparr>"

definition still_pending :: "upload_queue \<Rightarrow> pystr \<Rightarrow> bool" where
  "still_pending q dg = list_ex (\<lambda>b. map_option raw_digest (en_raw (pd_payload b)) = Some dg) (uq_pending q)"

text \<open>The plain transfer copy of a raw file goes when no pending row needs it.\<close>

definition drop_copy :: "upload_queue \<Rightarrow> raw_ref option \<Rightarrow> data_root \<Rightarrow> data_root" where
  "drop_copy q raw r = (case raw of None \<Rightarrow> r
     | Some w \<Rightarrow> if still_pending q (raw_digest w) then r
         else (case dir_get (raw_files r) (raw_digest w) of
             Some (Directory _) \<Rightarrow> r | _ \<Rightarrow> r\<lparr>raw_files := dir_del (raw_digest w) (raw_files r)\<rparr>))"

definition attempt_row :: "(bytes \<Rightarrow> pystr) \<Rightarrow> 'w send \<Rightarrow> pending_row \<Rightarrow> ('w device, unit) op" where
  "attempt_row H send p d = (case List.find (\<lambda>b. pd_seq b = pd_seq p) (uq_pending (dv_queue d)) of
       None \<Rightarrow> (Inl (TypeError ''NoneType''), d)
     | Some b \<Rightarrow> (let e = pd_payload b in case send_envelope H send (dv_root d) e (dv_net d) of
           (Inl x, net) \<Rightarrow> (Inl x, d\<lparr>dv_net := net\<rparr>)
         | (Inr receipt, net) \<Rightarrow>
             if \<not> is_durable receipt (pd_revision p) then (Inl remote_502, d\<lparr>dv_net := net\<rparr>)
             else let q = retire_row p e (dv_queue d) in
               (Inr (), \<lparr>dv_queue = q, dv_root = drop_copy q (en_raw e) (dv_root d), dv_net = net\<rparr>)))"

definition failed_state :: "nat option \<Rightarrow> upload_state" where
  "failed_state status = (if status \<in> {Some 400, Some 413, Some 422} then Rejected
     else if status = Some 409 then Conflict else Waiting)"

definition retry_delay :: "nat \<Rightarrow> int" where
  "retry_delay attempts = min 300 (2 ^ min (attempts + 1) 9)"

definition refuse_row :: "int \<Rightarrow> nat option \<Rightarrow> pending_row \<Rightarrow> upload_queue \<Rightarrow> upload_queue" where
  "refuse_row now status p q = q\<lparr>uq_pending := map (\<lambda>b. if pd_seq b = pd_seq p
     then b\<lparr>pd_attempts := pd_attempts b + 1, pd_next := now + retry_delay (pd_attempts p), pd_state := failed_state status\<rparr>
     else b) (uq_pending q)\<rparr>"

definition is_outage :: "nat option \<Rightarrow> bool" where
  "is_outage status \<longleftrightarrow> status \<in> {None, Some 401, Some 403, Some 429, Some 500, Some 502, Some 503, Some 504}"

fun flush_rows :: "(bytes \<Rightarrow> pystr) \<Rightarrow> 'w send \<Rightarrow> int \<Rightarrow> pending_row list \<Rightarrow> nat \<times> nat \<Rightarrow> ('w device, nat \<times> nat) op" where
  "flush_rows H send now [] (sent, failed) d = (Inr (sent, failed), d)"
| "flush_rows H send now (p # ps) (sent, failed) d = (case attempt_row H send p d of
       (Inr _, d) \<Rightarrow> flush_rows H send now ps (Suc sent, failed) d
     | (Inl x, d) \<Rightarrow> (case x of
           RemoteError status \<Rightarrow>
             let d = d\<lparr>dv_queue := refuse_row now status p (dv_queue d)\<rparr> in
             if is_outage status then (Inr (sent, Suc failed), d)
             else flush_rows H send now ps (sent, Suc failed) d
         | _ \<Rightarrow> (Inl x, d)))"

definition flush_queue :: "(bytes \<Rightarrow> pystr) \<Rightarrow> 'w send \<Rightarrow> nat \<Rightarrow> int \<Rightarrow> ('w device, nat \<times> nat) op" where
  "flush_queue H send limit now d = flush_rows H send now (due_rows (dv_queue d) now limit) (0, 0) d"

section \<open>Reconciling expected revisions\<close>

definition set_expected :: "pystr option \<Rightarrow> nat \<Rightarrow> upload_queue \<Rightarrow> upload_queue" where
  "set_expected rv sq q = q\<lparr>uq_pending := map (\<lambda>b. if pd_seq b = sq
     then b\<lparr>pd_payload := (pd_payload b)\<lparr>en_expected := rv\<rparr>, pd_state := Waiting, pd_next := 0\<rparr> else b) (uq_pending q)\<rparr>"

definition is_codex :: "pending_row \<Rightarrow> bool" where
  "is_codex p \<longleftrightarrow> ses_source (en_session (pd_payload p)) = lit ''codex''"

definition head_dict :: "dict \<Rightarrow> pystr \<Rightarrow> dict" where
  "head_dict heads sid = (case map_of heads sid of Some (JObj kvs) \<Rightarrow> kvs | _ \<Rightarrow> [])"

text \<open>First native captures of sessions that the primary has from the legacy archive.\<close>

definition bootstrap_rows :: "upload_queue \<Rightarrow> nat \<Rightarrow> pending_row list" where
  "bootstrap_rows q limit = take limit (filter (\<lambda>p. pd_state p \<noteq> Rejected \<and> en_expected (pd_payload p) = None
     \<and> is_codex p \<and> is_oldest q p) (uq_pending q))"

definition bootstrap_row :: "dict \<Rightarrow> pending_row \<Rightarrow> upload_queue \<times> nat \<Rightarrow> upload_queue \<times> nat" where
  "bootstrap_row heads p qn = (let head = head_dict heads (pd_session p) in
     if field head ''source'' \<noteq> JStr (lit ''codex'') \<or> field head ''parser_version'' \<noteq> JStr (lit ''legacy-archive-v1'')
     then qn else (set_expected (Some (str_of (field head ''revision''))) (pd_seq p) (fst qn), Suc (snd qn)))"

fun bootstrap_batches :: "'w send \<Rightarrow> pending_row list list \<Rightarrow> nat \<Rightarrow> ('w device, nat) op" where
  "bootstrap_batches send [] n d = (Inr n, d)"
| "bootstrap_batches send (b # bs) n d = (case client_migration_heads send (map pd_session b) (dv_net d) of
       (Inl e, net) \<Rightarrow> (Inl e, d\<lparr>dv_net := net\<rparr>)
     | (Inr heads, net) \<Rightarrow> (let (q, n) = fold (bootstrap_row heads) b (dv_queue d, n) in
         bootstrap_batches send bs n (d\<lparr>dv_net := net, dv_queue := q\<rparr>)))"

definition bootstrap_imports :: "'w send \<Rightarrow> nat \<Rightarrow> ('w device, nat) op" where
  "bootstrap_imports send limit d = bootstrap_batches send (batches 100 (bootstrap_rows (dv_queue d) limit)) 0 d"

text \<open>
  A capture that extends the raw file of the primary's head may replace it: the staged file must
  have the primary's file as its prefix.
\<close>

definition reconcile_rows :: "upload_queue \<Rightarrow> nat \<Rightarrow> pending_row list" where
  "reconcile_rows q limit = take limit (filter (\<lambda>p. pd_state p \<noteq> Rejected \<and> is_codex p \<and> en_raw (pd_payload p) \<noteq> None
     \<and> is_oldest q p) (uq_pending q))"

definition extends_raw :: "(bytes \<Rightarrow> pystr) \<Rightarrow> data_root \<Rightarrow> raw_ref \<Rightarrow> dict \<Rightarrow> bool result" where
  "extends_raw H r w previous = (case (int_of (field previous ''size''), field previous ''digest'') of
       (Some n, JStr k) \<Rightarrow>
         if int (raw_size w) < n then Inr False
         else (case mapR id (object_yields H r (raw_digest w)) of
             Inl e \<Rightarrow> if is_os_error e \<or> is_value_error e then Inr False else Inl e
           | Inr cs \<Rightarrow> Inr (n \<le> int (length (concat cs)) \<and> H (take (nat n) (concat cs)) = k))
     | _ \<Rightarrow> Inl (TypeError ''raw''))"

definition reconcile_row :: "(bytes \<Rightarrow> pystr) \<Rightarrow> data_root \<Rightarrow> dict \<Rightarrow> pending_row \<Rightarrow> upload_queue \<times> nat
    \<Rightarrow> (upload_queue \<times> nat) result" where
  "reconcile_row H r heads p qn =
     (if map_of heads (pd_session p) = None then Inr (set_expected None (pd_seq p) (fst qn), Suc (snd qn))
      else let head = head_dict heads (pd_session p) in
        case (en_raw (pd_payload p), field head ''raw'') of
          (Some w, JObj previous) \<Rightarrow>
            if field head ''source'' \<noteq> JStr (lit ''codex'') \<or> previous = [] then Inr qn
            else bindR (extends_raw H r w previous) (\<lambda>ok.
              Inr (if ok then (set_expected (Some (str_of (field head ''revision''))) (pd_seq p) (fst qn), Suc (snd qn)) else qn))
        | _ \<Rightarrow> Inr qn)"

fun reconcile_batch :: "(bytes \<Rightarrow> pystr) \<Rightarrow> dict \<Rightarrow> pending_row list \<Rightarrow> nat \<Rightarrow> ('w device, nat) op" where
  "reconcile_batch H heads [] n d = (Inr n, d)"
| "reconcile_batch H heads (p # ps) n d = (case reconcile_row H (dv_root d) heads p (dv_queue d, n) of
       Inl e \<Rightarrow> (Inl e, d)
     | Inr (q, n) \<Rightarrow> reconcile_batch H heads ps n (d\<lparr>dv_queue := q\<rparr>))"

fun reconcile_batches :: "(bytes \<Rightarrow> pystr) \<Rightarrow> 'w send \<Rightarrow> pending_row list list \<Rightarrow> nat \<Rightarrow> ('w device, nat) op" where
  "reconcile_batches H send [] n d = (Inr n, d)"
| "reconcile_batches H send (b # bs) n d = (case client_recovery_heads send (map pd_session b) (dv_net d) of
       (Inl e, net) \<Rightarrow> (Inl e, d\<lparr>dv_net := net\<rparr>)
     | (Inr heads, net) \<Rightarrow> bindS (reconcile_batch H heads b n) (reconcile_batches H send bs) (d\<lparr>dv_net := net\<rparr>))"

definition reconcile_raw_prefixes :: "(bytes \<Rightarrow> pystr) \<Rightarrow> 'w send \<Rightarrow> nat \<Rightarrow> ('w device, nat) op" where
  "reconcile_raw_prefixes H send limit d = reconcile_batches H send (batches 10 (reconcile_rows (dv_queue d) limit)) 0 d"

section \<open>Cleaning up the staged chunks\<close>

text \<open>
  Every member must be well-formed and every pending raw file available before anything is
  removed; then recipes and chunks that no pending row needs are unlinked.
\<close>

definition staged_keys :: "dir \<Rightarrow> pystr list result" where
  "staged_keys d = mapR (\<lambda>kx. case kx of
     (k, File _) \<Rightarrow> if is_hex 64 k then Inr k else Inl (ValueError ''unexpected staging member'')
   | _ \<Rightarrow> Inl (ValueError ''unexpected staging member'')) d"

definition pending_digests :: "upload_queue \<Rightarrow> pystr list" where
  "pending_digests q = dedup_from [] (concat (map (\<lambda>p. case en_raw (pd_payload p) of None \<Rightarrow> [] | Some w \<Rightarrow> [raw_digest w]) (uq_pending q)))"

definition retained_chunks :: "data_root \<Rightarrow> (pystr \<times> pystr list) list \<Rightarrow> pystr \<Rightarrow> pystr list result" where
  "retained_chunks r recipes key = (case map_of recipes key of
       Some ks \<Rightarrow> Inr ks
     | None \<Rightarrow> bindR (object_layout Raw r key) (\<lambda>l. if l \<noteq> PlainFile then Inl (ValueError ''pending raw staging is unavailable'') else Inr []))"

definition keep_only :: "pystr list \<Rightarrow> dir \<Rightarrow> dir" where
  "keep_only keys d = filter (\<lambda>kx. fst kx \<in> set keys) d"

definition prune_staging :: "upload_queue \<Rightarrow> (data_root, nat) op" where
  "prune_staging q r =
     (case bindR (staged_keys (recipe_files r)) (\<lambda>rs. bindR (staged_keys (chunk_files r)) (\<lambda>cs.
        bindR (mapR (\<lambda>k. bindR (chunk_recipe r k) (\<lambda>(_, ds). Inr (k, map fst ds))) rs) (\<lambda>recipes.
        bindR (mapR (retained_chunks r recipes) (pending_digests q)) (\<lambda>kept.
          if \<not> set (concat kept) \<subseteq> set cs then Inl (ValueError ''pending raw chunks are unavailable'') else Inr (concat kept))))) of
        Inl e \<Rightarrow> (Inl e, r)
      | Inr kept \<Rightarrow> (let rs = keep_only (pending_digests q) (recipe_files r); cs = keep_only kept (chunk_files r) in
          (Inr (length (recipe_files r) - length rs + (length (chunk_files r) - length cs)),
           r\<lparr>recipe_files := rs, chunk_files := cs\<rparr>)))"

section \<open>Flush\<close>

text \<open>
  \<open>busy\<close>: another flush holds the lock. The cleanup is deferred when it fails.
\<close>

datatype flush_result = Coalesced | Flushed nat nat nat nat "nat option"

definition clean_staging :: "('w device, nat option) op" where
  "clean_staging d = (case prune_staging (dv_queue d) (dv_root d) of
       (Inl e, r) \<Rightarrow> (if is_os_error e \<or> is_value_error e then Inr None else Inl e, d\<lparr>dv_root := r\<rparr>)
     | (Inr n, r) \<Rightarrow> (Inr (Some n), d\<lparr>dv_root := r\<rparr>))"

definition flush :: "(bytes \<Rightarrow> pystr) \<Rightarrow> 'w send \<Rightarrow> bool \<Rightarrow> int \<Rightarrow> int \<Rightarrow> bool \<Rightarrow> bool \<Rightarrow> ('w device, flush_result) op" where
  "flush H send busy limit now bootstrap reconcile d =
     (if \<not> (1 \<le> limit \<and> limit \<le> 1000) then (Inl (ValueError ''flush limit must be between 1 and 1000''), d)
      else if busy then (Inr Coalesced, d)
      else bindS (if bootstrap then bootstrap_imports send (nat limit) else (\<lambda>d. (Inr 0, d))) (\<lambda>b.
           bindS (if reconcile then reconcile_raw_prefixes H send (nat limit) else (\<lambda>d. (Inr 0, d))) (\<lambda>n.
           bindS (flush_queue H send (nat limit) now) (\<lambda>(sent, failed).
           bindS clean_staging (\<lambda>c d. (Inr (Flushed sent failed b n c), d))))) d)"

end
