(* ===== verification/Delivery.thy ===== *)
theory Delivery
  imports Queue
begin

text \<open>
  What the outbound queue promises: per session it is a first-in first-out queue of revisions, whose
  head leaves only when the remote has said that it stores it. The remote is the locale
  \<open>remote\<close>; its interpretation is the server of \<open>Server\<close> behind a network that loses requests
  and answers.
\<close>

section \<open>What no request undoes\<close>

definition keeps :: "('w \<Rightarrow> 'r \<Rightarrow> bool) \<Rightarrow> ('w, 'a) op \<Rightarrow> bool" where
  "keeps holds f \<longleftrightarrow> (\<forall>w rv. holds w rv \<longrightarrow> holds (snd (f w)) rv)"

lemma keepsD: "keeps holds f \<Longrightarrow> f w = (res, w') \<Longrightarrow> holds w rv \<Longrightarrow> holds w' rv"
  by (metis keeps_def snd_conv)

lemma keeps_const [simp]: "keeps holds (\<lambda>w. (x, w))"
  by (simp add: keeps_def)

lemma keeps_bindS: "keeps holds f \<Longrightarrow> (\<And>a. keeps holds (g a)) \<Longrightarrow> keeps holds (bindS f g)"
  by (auto simp: keeps_def bindS_def split: prod.splits sum.splits) (metis snd_conv)+

lemma keepsI: "(\<And>w rv. holds w rv \<Longrightarrow> holds (snd (f w)) rv) \<Longrightarrow> keeps holds f"
  by (simp add: keeps_def)

lemma upload_rest_keeps: "(\<And>q. keeps holds (send q)) \<Longrightarrow> keeps holds (upload_rest send route content offset)"
proof (rule keepsI)
  fix w rv assume "\<And>q. keeps holds (send q)" "holds w rv"
  then show "holds (snd (upload_rest send route content offset w)) rv"
  proof (induction send route content offset w rule: upload_rest.induct)
    case (1 send route content offset w)
    let ?chunk = "take (min MAX_CHUNK (length content - offset)) (drop offset content)"
    obtain x w1 where answer: "send (Put route offset (length content) ?chunk) w = (x, w1)"
      by (cases "send (Put route offset (length content) ?chunk) w")
    have "holds w1 rv" using keepsD [OF "1.prems"(1) answer "1.prems"(2)] .
    then show ?case using "1.IH" [OF refl answer [symmetric]] "1.prems"(1)
      by (subst upload_rest.simps) (cases x; simp add: Let_def answer)
  qed
qed

lemma send_content_keeps: "(\<And>q. keeps holds (send q)) \<Longrightarrow> keeps holds (send_content send route whole content sp)"
proof (rule keepsI)
  fix w rv assume "\<And>q. keeps holds (send q)" "holds w rv"
  then show "holds (snd (send_content send route whole content sp w)) rv"
  proof (induction send route whole content sp w rule: send_content.induct)
    case (1 send route whole content sp w)
    obtain x w1 where answer: "send (Put route (fst sp) whole (take MAX_CHUNK content)) w = (x, w1)"
      by (cases "send (Put route (fst sp) whole (take MAX_CHUNK content)) w")
    have "holds w1 rv" using keepsD [OF "1.prems"(1) answer "1.prems"(2)] .
    then show ?case using "1.IH" [OF _ refl refl answer [symmetric]] "1.prems"
      by (subst send_content.simps) (cases x; simp add: Let_def answer)
  qed
qed

section \<open>Chains of revisions\<close>

text \<open>What of a row never changes while it is pending.\<close>

definition identity :: "pending_row \<Rightarrow> nat \<times> pystr \<times> pystr \<times> pystr \<times> session \<times> raw_ref option" where
  "identity p = (pd_seq p, pd_request p, pd_session p, pd_revision p, en_session (pd_payload p), en_raw (pd_payload p))"

definition row_ok :: "(bytes \<Rightarrow> pystr) \<Rightarrow> pending_row \<Rightarrow> bool" where
  "row_ok H p \<longleftrightarrow> pd_request p = en_request (pd_payload p) \<and> pd_session p = ses_id (en_session (pd_payload p))
     \<and> pd_revision p = session_revision H (en_session (pd_payload p))"

definition linked :: "pending_row list \<Rightarrow> bool" where
  "linked ps \<longleftrightarrow> successively (\<lambda>a b. en_expected (pd_payload b) = Some (pd_revision a)) ps"

definition queue_inv :: "(bytes \<Rightarrow> pystr) \<Rightarrow> upload_queue \<Rightarrow> bool" where
  "queue_inv H q \<longleftrightarrow> sorted_wrt (<) (map pd_seq (uq_pending q)) \<and> distinct (map pd_request (uq_pending q))
     \<and> (\<forall>p \<in> set (uq_pending q). row_ok H p) \<and> (\<forall>sid. linked (session_rows q sid))"

definition has_row :: "upload_queue \<Rightarrow> pending_row \<Rightarrow> bool" where
  "has_row q p \<longleftrightarrow> identity p \<in> identity ` set (uq_pending q)"

lemma queue_invD:
  assumes "queue_inv H q"
  shows "sorted_wrt (<) (map pd_seq (uq_pending q))" "distinct (map pd_seq (uq_pending q))"
    "distinct (map pd_request (uq_pending q))" "p \<in> set (uq_pending q) \<Longrightarrow> row_ok H p" "linked (session_rows q sid)"
  using assms by (auto simp: queue_inv_def strict_sorted_iff)

lemma seq_unique: "queue_inv H q \<Longrightarrow> a \<in> set (uq_pending q) \<Longrightarrow> b \<in> set (uq_pending q) \<Longrightarrow> pd_seq a = pd_seq b \<Longrightarrow> a = b"
  using queue_invD(2) by (metis distinct_map inj_onD)

lemma has_rowE:
  assumes "has_row q p"
  obtains b where "b \<in> set (uq_pending q)" "identity b = identity p" "pd_seq b = pd_seq p" "pd_session b = pd_session p"
    "pd_revision b = pd_revision p"
  using assms by (auto simp: has_row_def identity_def)

lemma session_rows_mem: "p \<in> set (session_rows q sid) \<longleftrightarrow> p \<in> set (uq_pending q) \<and> pd_session p = sid"
  by (auto simp: session_rows_def)

lemma oldest_first:
  assumes "queue_inv H q" "b \<in> set (uq_pending q)" "is_oldest q b"
  obtains rest where "session_rows q (pd_session b) = b # rest" "\<forall>c \<in> set rest. pd_seq c \<noteq> pd_seq b"
proof -
  let ?rows = "session_rows q (pd_session b)"
  have sorted: "sorted_wrt (\<lambda>x y. pd_seq x < pd_seq y) ?rows"
    using queue_invD(1) [OF assms(1)] by (simp add: session_rows_def sorted_wrt_map sorted_wrt_filter)
  have b: "b \<in> set ?rows" using assms(2) by (simp add: session_rows_mem)
  then obtain c rest where rows: "?rows = c # rest" by (cases ?rows) auto
  then have "c \<in> set ?rows" by simp
  then have "\<not> pd_seq c < pd_seq b" using assms(3) by (auto simp: is_oldest_def list_all_iff session_rows_mem)
  with b rows sorted have "c = b" by auto
  with rows sorted that show thesis by fastforce
qed

text \<open>The specification: a first-in first-out queue per session and what was acknowledged last.\<close>

record outbox =
  ob_chain :: "pystr \<Rightarrow> pystr list"
  ob_acked :: "pystr \<Rightarrow> pystr option"

definition outbox_of :: "upload_queue \<Rightarrow> outbox" where
  "outbox_of q = \<lparr>ob_chain = (\<lambda>sid. map pd_revision (session_rows q sid)), ob_acked = map_of (uq_acknowledged q)\<rparr>"

inductive delivers :: "pystr set \<Rightarrow> outbox \<Rightarrow> outbox \<Rightarrow> bool" for S where
  "ob_chain ob sid = rv # rest \<Longrightarrow> rv \<in> S \<Longrightarrow>
     delivers S ob \<lparr>ob_chain = (ob_chain ob)(sid := rest), ob_acked = (ob_acked ob)(sid := Some rv)\<rparr>"

lemma delivers_mono: "delivers S a b \<Longrightarrow> S \<subseteq> T \<Longrightarrow> delivers T a b"
  by (auto elim!: delivers.cases intro: delivers.intros)

lemma retire_rows:
  assumes inv: "queue_inv H q" and row: "has_row q p" "is_oldest q p"
  shows "\<exists>b rest. session_rows q (pd_session p) = b # rest \<and> pd_revision b = pd_revision p
    \<and> session_rows (retire_row p e q) (pd_session p) = rest
    \<and> (\<forall>sid. sid \<noteq> pd_session p \<longrightarrow> session_rows (retire_row p e q) sid = session_rows q sid)"
proof -
  obtain b where b: "b \<in> set (uq_pending q)" "pd_seq b = pd_seq p" "pd_session b = pd_session p" "pd_revision b = pd_revision p"
    using row(1) by (rule has_rowE)
  have "is_oldest q b" using row(2) b by (simp add: is_oldest_def)
  with inv b(1) obtain rest where rest: "session_rows q (pd_session b) = b # rest" "\<forall>c \<in> set rest. pd_seq c \<noteq> pd_seq b"
    by (rule oldest_first)
  have rows: "session_rows (retire_row p e q) sid = filter (\<lambda>c. pd_seq c \<noteq> pd_seq p) (session_rows q sid)" for sid
    by (simp add: session_rows_def retire_row_def conj_commute)
  have "pd_seq c \<noteq> pd_seq p" if "c \<in> set (session_rows q sid)" "sid \<noteq> pd_session p" for c sid
    using that b seq_unique [OF inv _ b(1), of c] by (metis session_rows_mem)
  then have "session_rows (retire_row p e q) sid = session_rows q sid" if "sid \<noteq> pd_session p" for sid
    using that by (simp add: rows)
  moreover have "session_rows (retire_row p e q) (pd_session p) = rest"
    using rest b by (simp add: rows)
  ultimately show ?thesis using rest b by metis
qed

lemma retire_row_delivers:
  assumes "queue_inv H q" "has_row q p" "is_oldest q p" and S: "pd_revision p \<in> S"
  shows "delivers S (outbox_of q) (outbox_of (retire_row p e q))"
proof -
  obtain b rest where rows: "session_rows q (pd_session p) = b # rest" "pd_revision b = pd_revision p"
      "session_rows (retire_row p e q) (pd_session p) = rest"
      "\<forall>sid. sid \<noteq> pd_session p \<longrightarrow> session_rows (retire_row p e q) sid = session_rows q sid"
    using retire_rows [OF assms(1-3)] by blast
  have acked: "map_of (uq_acknowledged (retire_row p e q)) = (map_of (uq_acknowledged q))(pd_session p := Some (pd_revision p))"
    by (simp add: retire_row_def update_conv')
  have "(\<lambda>sid. map pd_revision (session_rows (retire_row p e q) sid))
      = (\<lambda>sid. map pd_revision (session_rows q sid))(pd_session p := map pd_revision rest)"
    using rows by (intro ext) (case_tac "x = pd_session p"; simp)
  then have "outbox_of (retire_row p e q) = \<lparr>ob_chain = (ob_chain (outbox_of q))(pd_session p := map pd_revision rest),
      ob_acked = (ob_acked (outbox_of q))(pd_session p := Some (pd_revision p))\<rparr>"
    by (simp add: outbox_of_def acked)
  moreover have "ob_chain (outbox_of q) (pd_session p) = pd_revision p # map pd_revision rest"
    using rows by (simp add: outbox_of_def)
  ultimately show ?thesis using S by (simp add: delivers.intros)
qed

lemma linked_tail: "linked (x # xs) \<Longrightarrow> linked xs"
  by (cases xs) (auto simp: linked_def)

lemma retire_row_inv:
  assumes inv: "queue_inv H q" and row: "has_row q p" "is_oldest q p"
  shows "queue_inv H (retire_row p e q)"
proof -
  obtain b rest where rows: "session_rows q (pd_session p) = b # rest"
      "session_rows (retire_row p e q) (pd_session p) = rest"
      "\<forall>sid. sid \<noteq> pd_session p \<longrightarrow> session_rows (retire_row p e q) sid = session_rows q sid"
    using retire_rows [OF assms] by blast
  have "linked (session_rows (retire_row p e q) sid)" for sid
    using rows queue_invD(5) [OF inv, of sid] by (cases "sid = pd_session p") (auto dest: linked_tail)
  moreover have "uq_pending (retire_row p e q) = filter (\<lambda>b. pd_seq b \<noteq> pd_seq p) (uq_pending q)"
    by (simp add: retire_row_def)
  ultimately show ?thesis using inv
    by (simp add: queue_inv_def sorted_wrt_map sorted_wrt_filter distinct_map_filter)
qed

lemma retire_row_others:
  assumes "has_row q b" "pd_seq b \<noteq> pd_seq p"
  shows "has_row (retire_row p e q) b" and "is_oldest q c \<Longrightarrow> is_oldest (retire_row p e q) c"
  using assms by (auto simp: has_row_def retire_row_def is_oldest_def list_all_iff identity_def image_iff)

text \<open>Updates that rewrite rows in place.\<close>

lemma map_identity:
  assumes "\<And>b. b \<in> set (uq_pending q) \<Longrightarrow> identity (f b) = identity b" and acked: "uq_acknowledged q' = uq_acknowledged q"
    and q': "uq_pending q' = map f (uq_pending q)"
  shows "outbox_of q' = outbox_of q" "has_row q' p = has_row q p" "is_oldest q' p = is_oldest q p"
    "session_rows q' sid = map f (session_rows q sid)"
proof -
  have same: "pd_seq (f b) = pd_seq b" "pd_session (f b) = pd_session b" "pd_revision (f b) = pd_revision b"
    if "b \<in> set (uq_pending q)" for b using assms(1) [OF that] by (auto simp: identity_def)
  show rows: "session_rows q' sid = map f (session_rows q sid)" for sid
    using same by (auto simp: session_rows_def q' filter_map o_def intro!: arg_cong2 [where f = map] filter_cong)
  show "outbox_of q' = outbox_of q"
    using same by (auto simp: outbox_of_def rows acked session_rows_mem intro!: ext)
  have "identity ` set (uq_pending q') = identity ` set (uq_pending q)"
    using assms(1) by (auto simp: q' image_image)
  then show "has_row q' p = has_row q p" by (simp add: has_row_def)
  show "is_oldest q' p = is_oldest q p" using same by (auto simp: is_oldest_def list_all_iff q')
qed

lemma in_set_tail: "x \<in> set (tl xs) \<Longrightarrow> x \<in> set xs"
  by (cases xs) auto

lemma linked_map:
  "(\<And>a. pd_revision (f a) = pd_revision a) \<Longrightarrow> (\<And>x. x \<in> set (tl xs) \<Longrightarrow> en_expected (pd_payload (f x)) = en_expected (pd_payload x))
    \<Longrightarrow> linked (map f xs) = linked xs"
  by (induction xs rule: induct_list012) (auto simp: linked_def)

lemma map_inv:
  assumes inv: "queue_inv H q" and f: "\<And>b. identity (f b) = identity b" "\<And>b. en_request (pd_payload (f b)) = en_request (pd_payload b)"
    and acked: "uq_acknowledged q' = uq_acknowledged q" and q': "uq_pending q' = map f (uq_pending q)"
    and expected: "\<And>sid x. x \<in> set (tl (session_rows q sid)) \<Longrightarrow> en_expected (pd_payload (f x)) = en_expected (pd_payload x)"
  shows "queue_inv H q'"
proof -
  have same: "pd_seq (f b) = pd_seq b" "pd_request (f b) = pd_request b" "pd_revision (f b) = pd_revision b" for b
    using f(1) [of b] by (auto simp: identity_def)
  have "row_ok H (f b) = row_ok H b" for b using f(1) [of b] f(2) [of b] by (auto simp: row_ok_def identity_def)
  moreover have "linked (session_rows q' sid)" for sid
    using map_identity(4) [of q f q', OF f(1) acked q', of sid] linked_map [of f, OF same(3) expected] queue_invD(5) [OF inv] by simp
  ultimately show ?thesis using inv by (auto simp: queue_inv_def q' o_def same)
qed

definition expect :: "pystr option \<Rightarrow> nat \<Rightarrow> pending_row \<Rightarrow> pending_row" where
  "expect rv sq b = (if pd_seq b = sq
     then b\<lparr>pd_payload := (pd_payload b)\<lparr>en_expected := rv\<rparr>, pd_state := Waiting, pd_next := 0\<rparr> else b)"

lemma set_expected_map: "uq_pending (set_expected rv sq q) = map (expect rv sq) (uq_pending q)"
  "uq_acknowledged (set_expected rv sq q) = uq_acknowledged q"
  by (simp_all add: set_expected_def expect_def [abs_def])

lemma identity_expect: "identity (expect rv sq b) = identity b"
  by (simp add: expect_def identity_def)

lemmas set_expected_same = map_identity [OF identity_expect set_expected_map(2) set_expected_map(1)]

lemma set_expected_inv:
  assumes inv: "queue_inv H q" and row: "has_row q p" "is_oldest q p"
  shows "queue_inv H (set_expected rv (pd_seq p) q)"
proof (rule map_inv [OF inv identity_expect _ set_expected_map(2,1)])
  obtain b where b: "b \<in> set (uq_pending q)" "pd_seq b = pd_seq p" "pd_session b = pd_session p" "pd_revision b = pd_revision p"
    using row(1) by (rule has_rowE)
  have "is_oldest q b" using row(2) b by (simp add: is_oldest_def)
  with inv b(1) obtain rest where rest: "session_rows q (pd_session b) = b # rest" "\<forall>c \<in> set rest. pd_seq c \<noteq> pd_seq b"
    by (rule oldest_first)
  show "en_expected (pd_payload (expect rv (pd_seq p) x)) = en_expected (pd_payload x)"
    if x: "x \<in> set (tl (session_rows q sid))" for sid x
  proof (cases "pd_seq x = pd_seq p")
    case True
    have "x \<in> set (uq_pending q)" "pd_session x = sid" using x in_set_tail [OF x] by (simp_all add: session_rows_mem)
    then have "x = b" using True b seq_unique [OF inv] by metis
    with x rest b show ?thesis using \<open>pd_session x = sid\<close> by auto
  qed (simp add: expect_def)
qed (simp add: expect_def)

definition refuse :: "int \<Rightarrow> nat option \<Rightarrow> pending_row \<Rightarrow> pending_row \<Rightarrow> pending_row" where
  "refuse now status p b = (if pd_seq b = pd_seq p
     then b\<lparr>pd_attempts := pd_attempts b + 1, pd_next := now + retry_delay (pd_attempts p), pd_state := failed_state status\<rparr>
     else b)"

lemma refuse_row_map: "uq_pending (refuse_row now status p q) = map (refuse now status p) (uq_pending q)"
  "uq_acknowledged (refuse_row now status p q) = uq_acknowledged q"
  by (simp_all add: refuse_row_def refuse_def [abs_def])

lemma identity_refuse: "identity (refuse now status p b) = identity b"
  by (simp add: refuse_def identity_def)

lemmas refuse_row_same = map_identity [OF identity_refuse refuse_row_map(2) refuse_row_map(1)]

lemma refuse_row_inv: "queue_inv H q \<Longrightarrow> queue_inv H (refuse_row now status p q)"
  by (rule map_inv [OF _ identity_refuse _ refuse_row_map(2,1)]) (auto simp: refuse_def)

text \<open>Enqueueing appends to the chain of the session, or finds the request already there.\<close>

lemma note_capture_simps [simp]: "uq_pending (note_capture c w q) = uq_pending q"
  "uq_acknowledged (note_capture c w q) = uq_acknowledged q"
  by (simp_all add: note_capture_def)

lemma queue_inv_pending: "uq_pending q' = uq_pending q \<Longrightarrow> queue_inv H q' = queue_inv H q"
  by (simp add: queue_inv_def session_rows_def)

lemma next_seq_above: "p \<in> set ps \<Longrightarrow> pd_seq p < next_seq ps"
  using fold_max_ge [of "pd_seq p" "map pd_seq ps" 0] by (simp add: next_seq_def less_Suc_eq_le)

lemma new_row_ok: "row_ok H (new_row H s request raw q)"
  by (simp add: row_ok_def new_row_def)

lemma linked_snoc: "linked (xs @ [y]) \<longleftrightarrow> linked xs \<and> (xs = [] \<or> en_expected (pd_payload y) = Some (pd_revision (last xs)))"
  by (auto simp: linked_def successively_append_iff)

lemma enqueue_inv:
  assumes inv: "queue_inv H q" and fresh: "List.find (\<lambda>p. pd_request p = request) (uq_pending q) = None"
    and q': "uq_pending q' = uq_pending q @ [new_row H s request raw q]"
  shows "queue_inv H q'"
proof -
  let ?n = "new_row H s request raw q"
  have rows: "session_rows q' sid = session_rows q sid @ (if sid = ses_id s then [?n] else [])" for sid
    by (simp add: session_rows_def q' new_row_def)
  have "linked (session_rows q' sid)" for sid
    using queue_invD(5) [OF inv, of sid]
    by (auto simp: rows linked_snoc new_row_def previous_revision_def rev_swap split: list.splits)
  moreover have "\<forall>p \<in> set (uq_pending q). pd_seq p < pd_seq ?n" using next_seq_above by (simp add: new_row_def)
  moreover have "request \<notin> pd_request ` set (uq_pending q)" using fresh by (auto simp: find_None_set)
  moreover have "pd_request ?n = request" by (simp add: new_row_def)
  ultimately show ?thesis using inv new_row_ok [of H s request raw q]
    by (auto simp: queue_inv_def q' sorted_wrt_append)
qed

text \<open>Nothing of the rows but expected revisions and retry state has changed.\<close>

definition same_rows :: "upload_queue \<Rightarrow> upload_queue \<Rightarrow> bool" where
  "same_rows q q' \<longleftrightarrow> outbox_of q' = outbox_of q \<and> (\<forall>p. has_row q' p = has_row q p \<and> is_oldest q' p = is_oldest q p)"

lemma same_rows_refl [simp]: "same_rows q q"
  by (simp add: same_rows_def)

lemma same_rows_trans: "same_rows a b \<Longrightarrow> same_rows b c \<Longrightarrow> same_rows a c"
  by (simp add: same_rows_def)

lemma set_expected_same_rows [simp]: "same_rows q (set_expected rv sq q)"
  unfolding same_rows_def using set_expected_same by blast

lemma refuse_row_same_rows [simp]: "same_rows q (refuse_row now status p q)"
  unfolding same_rows_def using refuse_row_same by blast

definition heads_in :: "upload_queue \<Rightarrow> pending_row list \<Rightarrow> bool" where
  "heads_in q ps \<longleftrightarrow> (\<forall>p \<in> set ps. has_row q p \<and> is_oldest q p)"

lemma heads_in_same: "same_rows q q' \<Longrightarrow> heads_in q' ps = heads_in q ps"
  by (simp add: heads_in_def same_rows_def)

lemma heads_in_Cons [simp]: "heads_in q (p # ps) \<longleftrightarrow> has_row q p \<and> is_oldest q p \<and> heads_in q ps"
  by (auto simp: heads_in_def)

lemma own_rows: "set ps \<subseteq> {p \<in> set (uq_pending q). is_oldest q p} \<Longrightarrow> heads_in q ps"
  by (auto simp: heads_in_def has_row_def)

lemma bootstrap_row_same:
  assumes "queue_inv H q" "has_row q p" "is_oldest q p" "bootstrap_row heads p (q, n) = (q', n')"
  shows "queue_inv H q' \<and> same_rows q q'"
  using assms set_expected_inv [OF assms(1-3)] by (auto simp: bootstrap_row_def Let_def split: if_splits)

lemma bootstrap_fold_same:
  assumes "queue_inv H q" "heads_in q b" "fold (bootstrap_row heads) b (q, n) = (q', n')"
  shows "queue_inv H q' \<and> same_rows q q'"
  using assms
proof (induction b arbitrary: q n)
  case (Cons p b)
  obtain q1 n1 where step: "bootstrap_row heads p (q, n) = (q1, n1)" by (cases "bootstrap_row heads p (q, n)")
  have "queue_inv H q1 \<and> same_rows q q1" using bootstrap_row_same [OF Cons.prems(1) _ _ step] Cons.prems(2) by simp
  then show ?case using Cons.IH [of q1 n1] Cons.prems step heads_in_same same_rows_trans by (metis fold_simps(2) heads_in_Cons)
qed simp

lemma reconcile_row_same:
  assumes "queue_inv H q" "has_row q p" "is_oldest q p" "reconcile_row H r heads p (q, n) = Inr (q', n')"
  shows "queue_inv H q' \<and> same_rows q q'"
proof -
  have "q' = q \<or> (\<exists>rv. q' = set_expected rv (pd_seq p) q)"
    using assms(4) by (auto simp: reconcile_row_def Let_def bindR_Inr_iff split: if_splits option.splits json.splits)
  then show ?thesis using assms(1) set_expected_inv [OF assms(1-3)] by auto
qed

text \<open>What an operation on a device may do.\<close>

definition moves :: "('w \<Rightarrow> pystr \<Rightarrow> bool) \<Rightarrow> 'w device \<Rightarrow> 'w device \<Rightarrow> bool" where
  "moves holds d d' \<longleftrightarrow> (delivers {rv. holds (dv_net d') rv})\<^sup>*\<^sup>* (outbox_of (dv_queue d)) (outbox_of (dv_queue d'))
     \<and> (\<forall>rv. holds (dv_net d) rv \<longrightarrow> holds (dv_net d') rv)"

lemma rtranclp_subset: "r\<^sup>*\<^sup>* a b \<Longrightarrow> (\<And>x y. r x y \<Longrightarrow> s x y) \<Longrightarrow> s\<^sup>*\<^sup>* a b"
  by (metis mono_rtranclp)

lemma moves_trans:
  assumes "moves holds a b" "moves holds b c"
  shows "moves holds a c"
proof -
  have "{rv. holds (dv_net b) rv} \<subseteq> {rv. holds (dv_net c) rv}" using assms(2) by (auto simp: moves_def)
  then have "(delivers {rv. holds (dv_net c) rv})\<^sup>*\<^sup>* (outbox_of (dv_queue a)) (outbox_of (dv_queue b))"
    using assms(1) by (auto simp: moves_def intro: rtranclp_subset delivers_mono)
  then show ?thesis using assms by (auto simp: moves_def)
qed

lemma moves_same: "same_rows (dv_queue d) (dv_queue d') \<Longrightarrow> (\<And>rv. holds (dv_net d) rv \<Longrightarrow> holds (dv_net d') rv) \<Longrightarrow> moves holds d d'"
  by (simp add: moves_def same_rows_def)

text \<open>\<open>good\<close> is what the queue assumes of the remote throughout.\<close>

definition dev_ok :: "(bytes \<Rightarrow> pystr) \<Rightarrow> ('w \<Rightarrow> bool) \<Rightarrow> 'w device \<Rightarrow> bool" where
  "dev_ok H good d \<longleftrightarrow> queue_inv H (dv_queue d) \<and> good (dv_net d)"

definition sound :: "(bytes \<Rightarrow> pystr) \<Rightarrow> ('w \<Rightarrow> bool) \<Rightarrow> ('w \<Rightarrow> pystr \<Rightarrow> bool) \<Rightarrow> ('w device, 'a) op \<Rightarrow> bool" where
  "sound H good holds f \<longleftrightarrow> (\<forall>d. dev_ok H good d \<longrightarrow> dev_ok H good (snd (f d)) \<and> moves holds d (snd (f d)))"

lemma sound_bindS:
  fixes f :: "('w device, 'a) op" and g :: "'a \<Rightarrow> ('w device, 'b) op"
  shows "sound H good holds f \<Longrightarrow> (\<And>a. sound H good holds (g a)) \<Longrightarrow> sound H good holds (bindS f g)"
  unfolding sound_def
proof (intro allI impI)
  fix d :: "'w device"
  assume f: "\<forall>d. dev_ok H good d \<longrightarrow> dev_ok H good (snd (f d)) \<and> moves holds d (snd (f d))"
    and g: "\<And>a. \<forall>d. dev_ok H good d \<longrightarrow> dev_ok H good (snd (g a d)) \<and> moves holds d (snd (g a d))"
    and inv: "dev_ok H good d"
  obtain x d1 where step: "f d = (x, d1)" by (cases "f d")
  have d1: "dev_ok H good d1" "moves holds d d1" using f inv step by (metis snd_conv)+
  show "dev_ok H good (snd (bindS f g d)) \<and> moves holds d (snd (bindS f g d))"
  proof (cases x)
    case (Inr a)
    have "snd (bindS f g d) = snd (g a d1)" using step Inr by (simp add: bindS_def)
    then show ?thesis using g [of a] d1 moves_trans by metis
  qed (use step d1 in \<open>simp add: bindS_def\<close>)
qed

lemma sound_const [simp]: "sound H good holds (\<lambda>d. (x, d))"
  by (simp add: sound_def moves_same)

lemma sound_guard: "sound H good holds f \<Longrightarrow> sound H good holds (\<lambda>d. if b then (x, d) else f d)"
  by (simp add: sound_def moves_same)

lemma sound_if: "sound H good holds f \<Longrightarrow> sound H good holds g \<Longrightarrow> sound H good holds (if b then f else g)"
  by simp

section \<open>The remote\<close>

text \<open>
  What no request undoes, no operation of the client undoes.
\<close>

locale lasting =
  fixes send :: "'w send" and holds :: "'w \<Rightarrow> 'r \<Rightarrow> bool"
  assumes send_keeps: "keeps holds (send q)"
begin

text \<open>The rules that follow an operation through its branches.\<close>

lemma keeps_call: "holds w rv \<Longrightarrow> keeps holds f \<Longrightarrow> holds (snd (f w)) rv"
  by (simp add: keeps_def)

lemma keeps_send:
  assumes "holds w rv" "keeps holds f" "\<And>e w'. holds w' rv \<Longrightarrow> holds (snd (g e w')) rv"
    "\<And>x w'. holds w' rv \<Longrightarrow> holds (snd (h x w')) rv"
  shows "holds (snd (case f w of (Inl e, w') \<Rightarrow> g e w' | (Inr x, w') \<Rightarrow> h x w')) rv"
  using assms keepsD [OF assms(2) prod.collapse [symmetric] assms(1)]
  by (cases "f w"; cases "fst (f w)") auto

lemma keeps_branches:
  "holds w rv \<Longrightarrow> holds (snd (x, w)) rv"
  "(b \<Longrightarrow> holds (snd y) rv) \<Longrightarrow> (\<not> b \<Longrightarrow> holds (snd z) rv) \<Longrightarrow> holds (snd (if b then y else z)) rv"
  "(\<And>e. holds (snd (f e)) rv) \<Longrightarrow> (\<And>a. holds (snd (g a)) rv) \<Longrightarrow> holds (snd (case r of Inl e \<Rightarrow> f e | Inr a \<Rightarrow> g a)) rv"
  "holds (snd y) rv \<Longrightarrow> (\<And>a. holds (snd (h a)) rv) \<Longrightarrow> holds (snd (case p of None \<Rightarrow> y | Some a \<Rightarrow> h a)) rv"
  "holds (snd y) rv \<Longrightarrow> holds (snd z) rv \<Longrightarrow> holds (snd (case l of PlainFile \<Rightarrow> y | ChunkedV1 \<Rightarrow> z)) rv"
  by (auto split: sum.splits option.splits layout.splits)

lemma keeps_nested:
  "holds (snd n) rv \<Longrightarrow> (\<And>b. holds (snd (u b)) rv) \<Longrightarrow> (\<And>i. holds (snd (f i)) rv) \<Longrightarrow> (\<And>s. holds (snd (t s)) rv) \<Longrightarrow> (\<And>xs. holds (snd (h xs)) rv)
    \<Longrightarrow> (\<And>kvs. holds (snd (g kvs)) rv)
    \<Longrightarrow> holds (snd (case v of JNull \<Rightarrow> n | JBool b \<Rightarrow> u b | JInt i \<Rightarrow> f i | JStr s \<Rightarrow> t s | JList xs \<Rightarrow> h xs | JObj kvs \<Rightarrow> g kvs)) rv"
  "holds (snd y) rv \<Longrightarrow> (\<And>b. holds (snd (k b)) rv) \<Longrightarrow> holds (snd y) rv \<Longrightarrow> holds (snd y) rv
    \<Longrightarrow> holds (snd (case x of Some (File b) \<Rightarrow> k b | _ \<Rightarrow> y)) rv"
  "(\<And>a b. holds (snd (j a b)) rv) \<Longrightarrow> holds (snd (case r of (a, b) \<Rightarrow> j a b)) rv"
  "(b \<Longrightarrow> holds (snd (h' p w)) rv) \<Longrightarrow> (\<not> b \<Longrightarrow> holds (snd (case s of (Inl e, w') \<Rightarrow> g' e w' | (Inr x, w') \<Rightarrow> h' x w')) rv)
    \<Longrightarrow> holds (snd (case if b then (Inr p, w) else s of (Inl e, w') \<Rightarrow> g' e w' | (Inr x, w') \<Rightarrow> h' x w')) rv"
  by (cases v; simp) (auto split: option.splits node.splits prod.splits)

lemmas keeps_rules = keeps_branches keeps_nested send_keeps
  keeps_send [where f = "send q" for q] keeps_call [where f = "send q" for q]
  keeps_send [where f = "send_content send t n c sp" for t n c sp]
  keeps_send [where f = "send_yields send t n ys k sp" for t n ys k sp]
  keeps_call [where f = "upload_rest send t c n" for t c n]
  keeps_call [where f = "send_yields send t n ys k sp" for t n ys k sp]
  keeps_call [where f = "upload_object send t k c" for t k c]
  upload_rest_keeps [of holds send] send_content_keeps [of holds send]

lemma upload_object_keeps: "keeps holds (upload_object send prefix key content)"
  unfolding upload_object_def Let_def
  by (rule keepsI, (rule keeps_rules | assumption)+)

lemma upload_keeps: "keeps holds (upload H send payload)"
  unfolding upload_def Let_def
  by (rule keepsI, (rule keeps_rules keeps_call [where f = "bindS f g" for f g] keeps_bindS upload_object_keeps | assumption)+)

lemma send_yields_keeps: "keeps holds (send_yields send route whole ys position sp)"
proof (induction ys arbitrary: position sp)
  case (Cons y ys)
  show ?case unfolding send_yields.simps
    by (rule keepsI, (rule keeps_rules Cons.IH | assumption)+)
qed (simp add: keeps_def)

lemma upload_raw_store_keeps: "keeps holds (upload_raw_store H send r key)"
  unfolding upload_raw_store_def Let_def
  by (rule keepsI, (rule keeps_rules(1-6,8-) keeps_nested send_yields_keeps | assumption)+)

lemma upload_raw_keeps: "keeps holds (upload_raw send r key)"
  unfolding upload_raw_def
  by (rule keepsI, (rule keeps_nested(2) keeps_rules(1-5,10-) send_keeps upload_object_keeps | assumption)+)

lemma send_raw_keeps: "keeps holds (send_raw H send r w)"
  using upload_raw_keeps upload_raw_store_keeps
  by (auto simp: keeps_def send_raw_def split: sum.splits layout.splits)

lemma send_envelope_keeps: "keeps holds (send_envelope H send r e)"
  using upload_keeps send_raw_keeps
  by (cases "en_raw e") (auto simp: send_envelope_def [abs_def] intro: keeps_bindS)

lemma lookup_heads_keeps: "keeps holds (lookup_heads send route ok sids)"
  unfolding lookup_heads_def by (intro keeps_bindS send_keeps) simp

end

text \<open>
  What the queue relies on: no request undoes what the remote holds or what makes it good, and an
  answer of a good remote that confirms a revision is true.
\<close>

locale remote = lasting send holds + good: lasting send "\<lambda>w _ :: unit. good w"
  for send :: "'w send" and holds :: "'w \<Rightarrow> pystr \<Rightarrow> bool" and good :: "'w \<Rightarrow> bool" +
  assumes durable_holds: "good w \<Longrightarrow> send q w = (Inr kvs, w') \<Longrightarrow> is_durable kvs rv \<Longrightarrow> holds w' rv"
begin

lemma good_call: "keeps (\<lambda>w _ :: unit. good w) f \<Longrightarrow> f w = (x, w') \<Longrightarrow> good w \<Longrightarrow> good w'"
  by (rule keepsD)

lemma upload_durable:
  assumes "good w" "upload H send payload w = (Inr kvs, w')" "is_durable kvs rv"
  shows "holds w' rv"
  using assms good_call [OF good.upload_object_keeps _ assms(1)]
  by (auto simp: upload_def Let_def bindS_def split: if_splits sum.splits prod.splits intro: durable_holds)
    (metis durable_holds)

lemma send_envelope_durable:
  assumes "good w" "send_envelope H send r e w = (Inr kvs, w')" "is_durable kvs rv"
  shows "holds w' rv"
  using assms good_call [OF good.send_raw_keeps _ assms(1)]
  by (auto simp: send_envelope_def bindS_def split: option.splits sum.splits prod.splits intro: upload_durable)
    (metis upload_durable)

lemma attempt_row_keeps:
  assumes "attempt_row H send p d = (res, d')"
  shows "holds (dv_net d) rv \<Longrightarrow> holds (dv_net d') rv" and "good (dv_net d) \<Longrightarrow> good (dv_net d')"
  using assms keepsD [OF send_envelope_keeps] good_call [OF good.send_envelope_keeps]
  by (auto simp: attempt_row_def Let_def split: option.splits sum.splits prod.splits if_splits)

lemma attempt_row_cases:
  assumes "attempt_row H send p d = (res, d')" "good (dv_net d)"
  shows "(\<exists>e. res = Inl e \<and> dv_queue d' = dv_queue d)
      \<or> (\<exists>e. res = Inr () \<and> dv_queue d' = retire_row p e (dv_queue d) \<and> holds (dv_net d') (pd_revision p))"
  using assms send_envelope_durable [OF assms(2), of H "dv_root d"]
  by (auto simp: attempt_row_def Let_def split: option.splits sum.splits prod.splits if_splits)

lemma attempt_row_sound:
  assumes step: "attempt_row H send p d = (res, d')" and ok: "dev_ok H good d"
    and row: "has_row (dv_queue d) p" "is_oldest (dv_queue d) p"
  shows "dev_ok H good d' \<and> moves holds d d'"
proof -
  have inv: "queue_inv H (dv_queue d)" "good (dv_net d)" using ok by (simp_all add: dev_ok_def)
  show ?thesis using attempt_row_cases [OF step inv(2)]
  proof (elim disjE exE conjE)
    fix e assume "dv_queue d' = dv_queue d"
    then show ?thesis using inv attempt_row_keeps [OF step] by (auto simp: dev_ok_def intro: moves_same)
  next
    fix e assume q: "dv_queue d' = retire_row p e (dv_queue d)" and held: "holds (dv_net d') (pd_revision p)"
    show ?thesis
      using retire_row_inv [OF inv(1) row, of e] retire_row_delivers [OF inv(1) row, of "{rv. holds (dv_net d') rv}" e] held
        attempt_row_keeps [OF step] inv(2)
      by (auto simp: q moves_def dev_ok_def)
  qed
qed

lemma attempt_row_rest:
  assumes "attempt_row H send p d = (res, d')" "good (dv_net d)" "heads_in (dv_queue d) ps" "pd_seq p \<notin> pd_seq ` set ps"
  shows "heads_in (dv_queue d') ps"
  using attempt_row_cases [OF assms(1,2)] assms(3,4)
  by (auto simp: heads_in_def dest!: bspec) (metis imageI retire_row_others)+

lemma flush_rows_sound:
  assumes "dev_ok H good d" "heads_in (dv_queue d) ps" "distinct (map pd_seq ps)" "flush_rows H send now ps sf d = (res, d')"
  shows "dev_ok H good d' \<and> moves holds d d'"
  using assms
proof (induction ps arbitrary: sf d)
  case Nil
  then show ?case by (cases sf) (auto intro: moves_same)
next
  case (Cons p ps)
  obtain sent failed where sf: "sf = (sent, failed)" by (cases sf)
  obtain x d1 where step: "attempt_row H send p d = (x, d1)" by (cases "attempt_row H send p d")
  have row: "has_row (dv_queue d) p" "is_oldest (dv_queue d) p" using Cons.prems(2) by auto
  have d1: "dev_ok H good d1" "moves holds d d1" using attempt_row_sound [OF step Cons.prems(1) row] by auto
  have rest: "heads_in (dv_queue d1) ps"
    by (rule attempt_row_rest [OF step]) (use Cons.prems in \<open>auto simp: dev_ok_def\<close>)
  show ?case
  proof (cases "\<exists>status. x = Inl (RemoteError status)")
    case True
    then obtain status where x: "x = Inl (RemoteError status)" by blast
    let ?d2 = "d1\<lparr>dv_queue := refuse_row now status p (dv_queue d1)\<rparr>"
    have d2: "dev_ok H good ?d2" "heads_in (dv_queue ?d2) ps" "moves holds d1 ?d2"
      using d1 rest heads_in_same [OF refuse_row_same_rows] by (auto simp: dev_ok_def intro: refuse_row_inv moves_same)
    have "flush_rows H send now (p # ps) sf d = (if is_outage status then (Inr (sent, Suc failed), ?d2)
        else flush_rows H send now ps (sent, Suc failed) ?d2)"
      by (simp add: sf step x Let_def)
    then show ?thesis using Cons.IH [OF d2(1,2)] Cons.prems d2(1) moves_trans [OF d1(2) d2(3)] moves_trans [OF moves_trans [OF d1(2) d2(3)]]
      by (auto split: if_splits)
  next
    case False
    show ?thesis
    proof (cases x)
      case (Inl e)
      then have "flush_rows H send now (p # ps) sf d = (Inl e, d1)" using False by (simp add: sf step split: exn.splits)
      then show ?thesis using Cons.prems d1 by simp
    next
      case (Inr u)
      then show ?thesis using Cons.IH [OF d1(1) rest] Cons.prems moves_trans [OF d1(2)] by (simp add: sf step)
    qed
  qed
qed

lemma flush_queue_sound: "sound H good holds (flush_queue H send limit now)"
  unfolding sound_def
proof (intro allI impI)
  fix d :: "'w device" assume inv: "dev_ok H good d"
  have "distinct (map pd_seq (due_rows (dv_queue d) now limit))"
    using queue_invD(2) [of H "dv_queue d"] inv by (auto simp: dev_ok_def due_rows_def take_map [symmetric] intro!: distinct_take distinct_map_filter)
  moreover have "heads_in (dv_queue d) (due_rows (dv_queue d) now limit)"
    by (intro own_rows) (auto simp: due_rows_def dest: in_set_takeD)
  ultimately show "dev_ok H good (snd (flush_queue H send limit now d)) \<and> moves holds d (snd (flush_queue H send limit now d))"
    using flush_rows_sound [OF inv] by (metis flush_queue_def prod.collapse)
qed

lemma bootstrap_batches_sound:
  assumes "dev_ok H good d" "\<forall>b \<in> set bs. heads_in (dv_queue d) b" "bootstrap_batches send bs n d = (res, d')"
  shows "dev_ok H good d' \<and> moves holds d d'"
  using assms
proof (induction bs arbitrary: n d)
  case Nil
  then show ?case by (auto intro: moves_same)
next
  case (Cons b bs)
  obtain x net where step: "client_migration_heads send (map pd_session b) (dv_net d) = (x, net)"
    by (cases "client_migration_heads send (map pd_session b) (dv_net d)")
  have net: "holds (dv_net d) rv \<Longrightarrow> holds net rv" "good (dv_net d) \<Longrightarrow> good net" for rv
    using keepsD [OF lookup_heads_keeps] good_call [OF good.lookup_heads_keeps] step by (simp_all add: client_migration_heads_def)
  show ?case
  proof (cases x)
    case (Inl e)
    then show ?thesis using Cons.prems step net by (auto simp: dev_ok_def intro: moves_same)
  next
    case (Inr heads)
    obtain q m where fold: "fold (bootstrap_row heads) b (dv_queue d, n) = (q, m)" by (cases "fold (bootstrap_row heads) b (dv_queue d, n)")
    have q: "queue_inv H q" "same_rows (dv_queue d) q" using bootstrap_fold_same [OF _ _ fold] Cons.prems by (auto simp: dev_ok_def)
    let ?d1 = "d\<lparr>dv_net := net, dv_queue := q\<rparr>"
    have "moves holds d ?d1" using q net by (auto intro: moves_same)
    moreover have "bootstrap_batches send bs m ?d1 = (res, d')" using Cons.prems(3) by (simp add: step Inr fold)
    ultimately show ?thesis using Cons.IH [of ?d1 m] Cons.prems q net heads_in_same [OF q(2)] moves_trans by (auto simp: dev_ok_def)
  qed
qed

lemma reconcile_batch_sound:
  assumes "queue_inv H (dv_queue d)" "heads_in (dv_queue d) b" "reconcile_batch H heads b n d = (res, d')"
  shows "queue_inv H (dv_queue d') \<and> same_rows (dv_queue d) (dv_queue d') \<and> dv_net d' = dv_net d"
  using assms
proof (induction b arbitrary: n d)
  case (Cons p b)
  show ?case
  proof (cases "reconcile_row H (dv_root d) heads p (dv_queue d, n)")
    case (Inr qn)
    obtain q m where qn: "qn = (q, m)" by (cases qn)
    have q: "queue_inv H q" "same_rows (dv_queue d) q"
      using reconcile_row_same [OF Cons.prems(1)] Cons.prems(2) Inr qn by auto
    then show ?thesis using Cons.IH [of "d\<lparr>dv_queue := q\<rparr>" m] Cons.prems heads_in_same [OF q(2)] same_rows_trans [OF q(2)]
      by (simp add: Inr qn)
  qed (use Cons in simp)
qed simp

lemma reconcile_batches_sound:
  assumes "dev_ok H good d" "\<forall>b \<in> set bs. heads_in (dv_queue d) b" "reconcile_batches H send bs n d = (res, d')"
  shows "dev_ok H good d' \<and> moves holds d d'"
  using assms
proof (induction bs arbitrary: n d)
  case Nil
  then show ?case by (auto intro: moves_same)
next
  case (Cons b bs)
  obtain x net where step: "client_recovery_heads send (map pd_session b) (dv_net d) = (x, net)"
    by (cases "client_recovery_heads send (map pd_session b) (dv_net d)")
  have net: "holds (dv_net d) rv \<Longrightarrow> holds net rv" "good (dv_net d) \<Longrightarrow> good net" for rv
    using keepsD [OF lookup_heads_keeps] good_call [OF good.lookup_heads_keeps] step by (simp_all add: client_recovery_heads_def)
  show ?case
  proof (cases x)
    case (Inl e)
    then show ?thesis using Cons.prems step net by (auto simp: dev_ok_def intro: moves_same)
  next
    case (Inr heads)
    obtain y d1 where batch: "reconcile_batch H heads b n (d\<lparr>dv_net := net\<rparr>) = (y, d1)"
      by (cases "reconcile_batch H heads b n (d\<lparr>dv_net := net\<rparr>)")
    have d1: "dev_ok H good d1" "same_rows (dv_queue d) (dv_queue d1)" "dv_net d1 = net"
      using reconcile_batch_sound [OF _ _ batch] Cons.prems net by (auto simp: dev_ok_def)
    have first: "moves holds d d1" using d1 net by (auto intro: moves_same)
    show ?thesis
    proof (cases y)
      case (Inr m)
      have "reconcile_batches H send bs m d1 = (res, d')" using Cons.prems(3) by (simp add: step \<open>x = Inr heads\<close> bindS_def batch Inr)
      then show ?thesis using Cons.IH [of d1 m] Cons.prems(2) d1(1) heads_in_same [OF d1(2)] moves_trans [OF first] by auto
    next
      case (Inl e)
      then show ?thesis using Cons.prems(3) d1(1) first by (simp add: step \<open>x = Inr heads\<close> bindS_def batch)
    qed
  qed
qed

lemma heads_in_batches: "0 < n \<Longrightarrow> heads_in q ps \<Longrightarrow> \<forall>b \<in> set (batches n ps). heads_in q b"
  using concat_batches [of n ps] by (auto simp: heads_in_def) (metis UN_I set_concat)+

lemma bootstrap_sound: "sound H good holds (bootstrap_imports send limit)"
  unfolding sound_def
proof (intro allI impI)
  fix d :: "'w device" assume inv: "dev_ok H good d"
  have "heads_in (dv_queue d) (bootstrap_rows (dv_queue d) limit)"
    by (intro own_rows) (auto simp: bootstrap_rows_def dest: in_set_takeD)
  then show "dev_ok H good (snd (bootstrap_imports send limit d)) \<and> moves holds d (snd (bootstrap_imports send limit d))"
    unfolding bootstrap_imports_def
    by (intro bootstrap_batches_sound [OF inv _ prod.collapse [symmetric]] heads_in_batches) simp_all
qed

lemma reconcile_sound: "sound H good holds (reconcile_raw_prefixes H send limit)"
  unfolding sound_def
proof (intro allI impI)
  fix d :: "'w device" assume inv: "dev_ok H good d"
  have "heads_in (dv_queue d) (reconcile_rows (dv_queue d) limit)"
    by (intro own_rows) (auto simp: reconcile_rows_def dest: in_set_takeD)
  then show "dev_ok H good (snd (reconcile_raw_prefixes H send limit d)) \<and> moves holds d (snd (reconcile_raw_prefixes H send limit d))"
    unfolding reconcile_raw_prefixes_def
    by (intro reconcile_batches_sound [OF inv _ prod.collapse [symmetric]] heads_in_batches) simp_all
qed

lemma clean_staging_sound: "sound H good holds clean_staging"
  by (auto simp: sound_def dev_ok_def clean_staging_def split: prod.splits sum.splits intro!: moves_same)

lemma flush_sound: "sound H good holds (flush H send busy limit now bootstrap reconcile)"
  unfolding flush_def [abs_def]
  by (intro sound_guard sound_bindS sound_if bootstrap_sound reconcile_sound sound_const)
    (auto intro!: sound_bindS flush_queue_sound clean_staging_sound sound_const)

end

end
