(* ===== verification/Network.thy ===== *)
theory Network
  imports Delivery
begin

text \<open>
  The primary as a device sees it: the routes of \<open>interfaces/server.py\<close>, the texts of requests and
  answers, other devices that are served in between, and a network that loses requests or answers.
  It is a \<open>remote\<close>, so what the queue does over it is never lost.
\<close>

section \<open>Routes\<close>

definition route_key :: "string \<Rightarrow> pystr \<Rightarrow> pystr option" where
  "route_key prefix route = (let n = length prefix in
     if take n route = lit prefix \<and> 47 \<notin> set (drop n route) \<and> n < length route then Some (drop n route) else None)"

definition lookup :: "(server \<Rightarrow> json result) \<Rightarrow> (server, json) op" where
  "lookup f sv = (f sv, sv)"

definition post_route :: "(bytes \<Rightarrow> pystr) \<Rightarrow> (pystr \<Rightarrow> pystr result) \<Rightarrow> server_config \<Rightarrow> bool \<Rightarrow> pystr \<Rightarrow> pystr \<Rightarrow> dict
    \<Rightarrow> (server, json) op" where
  "post_route H utc cfg busy producer route data =
     (if route = lit ''/v1/revisions'' then post_revisions H utc cfg producer data
      else if route = lit ''/v1/revision-objects'' then ingest_revision_object H utc cfg busy producer data
      else if route = lit ''/v1/migration-heads'' then lookup (migration_heads cfg data)
      else if route = lit ''/v1/recovery-heads'' then lookup (recovery_heads cfg data)
      else if route = lit ''/v1/raw-acknowledgements'' then lookup (raw_acknowledgements cfg producer data)
      else (\<lambda>sv. (Inl (HTTPException 404 ''Not Found''), sv)))"

text \<open>
  A request of the device \<open>producer\<close>, whose token the middleware has accepted. \<open>free\<close> is the free
  disk space, \<open>busy\<close> whether another worker holds the ingest guard.
\<close>

fun handle :: "(bytes \<Rightarrow> pystr) \<Rightarrow> (pystr \<Rightarrow> pystr result) \<Rightarrow> (data_root \<Rightarrow> nat) \<Rightarrow> server_config \<Rightarrow> bool \<Rightarrow> pystr \<Rightarrow> request
    \<Rightarrow> (server, json) op" where
  "handle H utc free cfg busy producer (Get route) sv =
     (case route_key ''/v1/objects/'' route of
        Some key \<Rightarrow> object_status H cfg raw_transfers producer key sv
      | None \<Rightarrow> (case route_key ''/v1/revision-objects/'' route of
            Some key \<Rightarrow> object_status H cfg revision_transfers producer key sv
          | None \<Rightarrow> (Inl (HTTPException 404 ''Not Found''), sv)))"
| "handle H utc free cfg busy producer (Put route off whole chunk) sv =
     (if MAX_REQUEST < length chunk then (Inl (HTTPException 413 ''request_too_large''), sv)
      else case route_key ''/v1/objects/'' route of
        Some key \<Rightarrow> raw_chunk H free cfg producer key (int off) (int whole) chunk sv
      | None \<Rightarrow> (case route_key ''/v1/revision-objects/'' route of
            Some key \<Rightarrow> revision_chunk H free cfg producer key (int off) (int whole) chunk sv
          | None \<Rightarrow> (Inl (HTTPException 404 ''Not Found''), sv)))"
| "handle H utc free cfg busy producer (Post route payload) sv =
     (if MAX_REQUEST < length (encode_json payload) then (Inl (HTTPException 413 ''request_too_large''), sv)
      else case json_loads (encode_json payload) of
        Some (JObj data) \<Rightarrow> post_route H utc cfg busy producer route data sv
      | _ \<Rightarrow> (Inl (HTTPException 422 ''Unprocessable''), sv))"

text \<open>An answer that has no UTF-8 text is an internal error, after the request has been carried out.\<close>

definition respond :: "json result \<Rightarrow> http_outcome" where
  "respond res = (case res of
       Inr v \<Rightarrow> if json_ok v then Answer 200 (encode_json v) else Answer 500 []
     | Inl e \<Rightarrow> Answer (http_status e) [])"

section \<open>The network\<close>

datatype fate = Delivered | RequestLost bool | AnswerLost bool

record turn =
  tn_before :: "(pystr \<times> request) list"
  tn_busy :: bool
  tn_fate :: fate

record network =
  nw_server :: server
  nw_turns :: "turn list"

definition next_turn :: "network \<Rightarrow> turn" where
  "next_turn nw = (case nw_turns nw of [] \<Rightarrow> \<lparr>tn_before = [], tn_busy = False, tn_fate = Delivered\<rparr> | t # _ \<Rightarrow> t)"

definition serve_others :: "(bytes \<Rightarrow> pystr) \<Rightarrow> (pystr \<Rightarrow> pystr result) \<Rightarrow> (data_root \<Rightarrow> nat) \<Rightarrow> server_config
    \<Rightarrow> (pystr \<times> request) list \<Rightarrow> server \<Rightarrow> server" where
  "serve_others H utc free cfg = fold (\<lambda>(p, q) sv. snd (handle H utc free cfg False p q sv))"

definition net_send :: "(bytes \<Rightarrow> pystr) \<Rightarrow> (pystr \<Rightarrow> pystr result) \<Rightarrow> (data_root \<Rightarrow> nat) \<Rightarrow> server_config \<Rightarrow> pystr
    \<Rightarrow> network send" where
  "net_send H utc free cfg producer q nw =
     (let t = next_turn nw; sv = serve_others H utc free cfg (tn_before t) (nw_server nw);
          (res, sv') = handle H utc free cfg (tn_busy t) producer q sv;
          (outcome, sv'') = (case tn_fate t of Delivered \<Rightarrow> (respond res, sv')
            | RequestLost late \<Rightarrow> (NoAnswer late, sv) | AnswerLost late \<Rightarrow> (NoAnswer late, sv')) in
      (case decode_answer outcome of Inl f \<Rightarrow> Inl (RemoteError (fst f)) | Inr kvs \<Rightarrow> Inr kvs,
       \<lparr>nw_server = sv'', nw_turns = tl (nw_turns nw)\<rparr>))"

section \<open>The server never forgets a revision\<close>

definition in_catalog :: "catalog \<Rightarrow> pystr \<Rightarrow> bool" where
  "in_catalog ct rv \<longleftrightarrow> (\<exists>r \<in> set (ct_revisions ct). rr_revision r = rv)"

definition net_holds :: "network \<Rightarrow> pystr \<Rightarrow> bool" where
  "net_holds nw rv = in_catalog (sv_catalog (nw_server nw)) rv"

lemma grows_in_catalog: "catalog_grows ct ct' \<Longrightarrow> in_catalog ct rv \<Longrightarrow> in_catalog ct' rv"
  by (auto simp: catalog_grows_def in_catalog_def)

lemma find_in_catalog: "find_revision ct sid rv = Some r \<Longrightarrow> in_catalog ct rv"
  by (auto simp: find_revision_def in_catalog_def dest!: find_Some_set)


text \<open>Every request either leaves the catalog alone, confirming nothing, or is one ingest.\<close>

definition status_of :: "json \<Rightarrow> json" where
  "status_of v = (case v of JObj kvs \<Rightarrow> field kvs ''status'' | _ \<Rightarrow> JNull)"

definition quiet :: "json result \<Rightarrow> bool" where
  "quiet res = (case res of Inl _ \<Rightarrow> True | Inr v \<Rightarrow> status_of v \<noteq> JStr (lit ''durable''))"

definition one_ingest :: "(bytes \<Rightarrow> pystr) \<Rightarrow> server \<Rightarrow> json result \<Rightarrow> server \<Rightarrow> bool" where
  "one_ingest H sv res sv' \<longleftrightarrow> (\<exists>s p q w.
     (\<exists>e e'. ingest H (sv_root sv) s p q None w (sv_catalog sv) = (Inl e, sv_catalog sv') \<and> res = Inl e')
     \<or> (\<exists>a. ingest H (sv_root sv) s p q None w (sv_catalog sv) = (Inr a, sv_catalog sv') \<and> res = Inr (durable_json a)))"

definition served :: "(bytes \<Rightarrow> pystr) \<Rightarrow> server \<Rightarrow> json result \<Rightarrow> server \<Rightarrow> bool" where
  "served H sv res sv' \<longleftrightarrow> (sv_catalog sv' = sv_catalog sv \<and> quiet res) \<or> one_ingest H sv res sv'"

lemma served_refused [simp]: "served H sv (Inl e) sv"
  by (simp add: served_def quiet_def)

lemma quiet_error [simp]: "quiet (Inl e)"
  by (simp add: quiet_def)

lemma one_ingestI:
  "ingest H (sv_root sv) s p q None w (sv_catalog sv) = (Inr a, sv_catalog sv') \<Longrightarrow> one_ingest H sv (Inr (durable_json a)) sv'"
  "ingest H (sv_root sv) s p q None w (sv_catalog sv) = (Inl e, sv_catalog sv') \<Longrightarrow> one_ingest H sv (Inl e') sv'"
  unfolding one_ingest_def by blast+

lemma compare_and_write_served:
  assumes "compare_and_write H producer s request expected raw sv = (res, sv')"
  shows "served H sv res sv'"
proof (cases "sv' = sv \<and> (\<exists>e. res = Inl e)")
  case False
  then obtain rid w where parts: "sql_text request = Inr rid" "raw_of_json raw = Inr w"
      "compare_and_write H producer s request expected raw sv =
        (case ingest H (sv_root sv) s producer (if truthy request then the rid else []) None w (sv_catalog sv) of
           (Inl e, ct') \<Rightarrow> (Inl e, sv\<lparr>sv_catalog := ct'\<rparr>)
         | (Inr res, ct') \<Rightarrow> (Inr (durable_json res), sv\<lparr>sv_catalog := ct'\<rparr>))"
    using assms by (auto simp: compare_and_write_def Let_def split: if_splits sum.splits)
  obtain x ct where one: "ingest H (sv_root sv) s producer (if truthy request then the rid else []) None w (sv_catalog sv) = (x, ct)"
    by (cases "ingest H (sv_root sv) s producer (if truthy request then the rid else []) None w (sv_catalog sv)")
  show ?thesis
  proof (cases x)
    case (Inl e)
    then have "res = Inl e" "sv' = sv\<lparr>sv_catalog := ct\<rparr>" using assms one parts(3) by auto
    then show ?thesis using one_ingestI(2) [of H sv s _ _ w e sv'] one Inl by (simp add: served_def)
  next
    case (Inr a)
    then have "res = Inr (durable_json a)" "sv' = sv\<lparr>sv_catalog := ct\<rparr>" using assms one parts(3) by auto
    then show ?thesis using one_ingestI(1) [of H sv s _ _ w a sv'] one Inr by (simp add: served_def)
  qed
qed auto

lemma post_revisions_served: "post_revisions H utc cfg producer data sv = (res, sv') \<Longrightarrow> served H sv res sv'"
  unfolding post_revisions_def
  by (auto split: if_splits sum.splits dest: compare_and_write_served)

lemma served_drop: "served H sv res sv1 \<Longrightarrow> sv_catalog sv' = sv_catalog sv1 \<Longrightarrow> served H sv res sv'"
  by (simp add: served_def one_ingest_def)

lemma served_error: "served H sv (Inl e) sv' \<Longrightarrow> served H sv (Inl e') sv'"
  by (auto simp: served_def one_ingest_def quiet_def)

lemma ingest_staged_served: "ingest_staged H utc cfg busy producer key n sv = (res, sv') \<Longrightarrow> served H sv res sv'"
  unfolding ingest_staged_def
  by (auto split: if_splits sum.splits prod.splits dest: post_revisions_served intro: served_drop simp: drop_upload_def)

lemma ingest_object_served: "ingest_revision_object H utc cfg busy producer data sv = (res, sv') \<Longrightarrow> served H sv res sv'"
  unfolding ingest_revision_object_def
  by (auto split: if_splits sum.splits prod.splits json.splits dest: ingest_staged_served intro: served_error)

lemma on_root_served: "on_root f sv = (res, sv') \<Longrightarrow> sv_catalog sv' = sv_catalog sv \<and> quiet res"
  by (auto simp: on_root_def quiet_def status_of_def progress_json_def field_def field_or_def jget_def
      split: prod.splits sum.splits progress.splits)

lemma retryable_served:
  assumes "\<And>res sv'. f sv = (res, sv') \<Longrightarrow> sv_catalog sv' = sv_catalog sv \<and> quiet res" "retryable f sv = (res, sv')"
  shows "sv_catalog sv' = sv_catalog sv \<and> quiet res"
  using assms by (cases "f sv"; cases "fst (f sv)") (auto simp: retryable_def quiet_def)

lemma transfer_served:
  "(case t of Inl e \<Rightarrow> (Inl e, sv) | Inr t \<Rightarrow> on_root (f t) sv) = (res, sv') \<Longrightarrow> sv_catalog sv' = sv_catalog sv \<and> quiet res"
  by (auto simp: quiet_def split: sum.splits dest: on_root_served)

lemma retry_served:
  assumes "retryable (\<lambda>sv. case t of Inl e \<Rightarrow> (Inl e, sv) | Inr t \<Rightarrow> on_root (f t) sv) sv = (res, sv')"
  shows "sv_catalog sv' = sv_catalog sv \<and> quiet res"
  by (rule retryable_served [OF _ assms]) (rule transfer_served)

lemma object_routes_served:
  "object_status H cfg mk producer key sv = (res, sv') \<Longrightarrow> sv_catalog sv' = sv_catalog sv \<and> quiet res"
  "raw_chunk H free cfg producer key off whole chunk sv = (res, sv') \<Longrightarrow> sv_catalog sv' = sv_catalog sv \<and> quiet res"
  "revision_chunk H free cfg producer key off whole chunk sv = (res, sv') \<Longrightarrow> sv_catalog sv' = sv_catalog sv \<and> quiet res"
proof -
  show "object_status H cfg mk producer key sv = (res, sv') \<Longrightarrow> sv_catalog sv' = sv_catalog sv \<and> quiet res"
    by (auto simp: object_status_def quiet_def split: if_splits sum.splits dest!: on_root_served)
  show "raw_chunk H free cfg producer key off whole chunk sv = (res, sv') \<Longrightarrow> sv_catalog sv' = sv_catalog sv \<and> quiet res"
    unfolding raw_chunk_def by (auto simp: quiet_def split: if_splits dest!: retry_served)
  show "revision_chunk H free cfg producer key off whole chunk sv = (res, sv') \<Longrightarrow> sv_catalog sv' = sv_catalog sv \<and> quiet res"
    unfolding revision_chunk_def by (auto simp: quiet_def split: if_splits dest!: retry_served)
qed

lemma lookups_quiet:
  "quiet (migration_heads cfg data sv)" "quiet (recovery_heads cfg data sv)" "quiet (raw_acknowledgements cfg producer data sv)"
  by (auto simp: quiet_def status_of_def migration_heads_def recovery_heads_def raw_acknowledgements_def heads_json_def
      field_def field_or_def jget_def bindR_Inr_iff split: sum.splits if_splits option.splits json.splits)

lemma post_route_served: "post_route H utc cfg busy producer route data sv = (res, sv') \<Longrightarrow> served H sv res sv'"
  using lookups_quiet
  by (auto simp: post_route_def lookup_def served_def split: if_splits
      dest: post_revisions_served [unfolded served_def] ingest_object_served [unfolded served_def] simp: quiet_def)

lemma handle_served: "handle H utc free cfg busy producer q sv = (res, sv') \<Longrightarrow> served H sv res sv'"
proof (cases q)
  case (Get route)
  then show "handle H utc free cfg busy producer q sv = (res, sv') \<Longrightarrow> served H sv res sv'"
    by (auto split: option.splits dest!: object_routes_served(1) simp: served_def)
next
  case (Put route off whole chunk)
  then show "handle H utc free cfg busy producer q sv = (res, sv') \<Longrightarrow> served H sv res sv'"
    by (auto split: option.splits if_splits dest!: object_routes_served(2,3) simp: served_def)
next
  case (Post route payload)
  then show "handle H utc free cfg busy producer q sv = (res, sv') \<Longrightarrow> served H sv res sv'"
    by (auto split: option.splits if_splits json.splits dest: post_route_served)
qed

section \<open>The network is a remote\<close>

lemma served_references: "served H sv res sv' \<Longrightarrow> references_inv (sv_catalog sv) \<Longrightarrow> references_inv (sv_catalog sv')"
  by (auto simp: served_def one_ingest_def dest: ingest_references)

lemma served_grows: "served H sv res sv' \<Longrightarrow> catalog_grows (sv_catalog sv) (sv_catalog sv')"
  by (auto simp: served_def one_ingest_def dest: ingest_grows)

lemma served_durable:
  assumes "served H sv (Inr v) sv'" "references_inv (sv_catalog sv)" "status_of v = JStr (lit ''durable'')"
  shows "\<exists>a. v = durable_json a \<and> in_catalog (sv_catalog sv') (ir_revision a)"
proof -
  have "one_ingest H sv (Inr v) sv'" using assms(1,3) by (auto simp: served_def quiet_def)
  then obtain s p q w a where one: "ingest H (sv_root sv) s p q None w (sv_catalog sv) = (Inr a, sv_catalog sv')" "v = durable_json a"
    by (auto simp: one_ingest_def)
  have "in_catalog (sv_catalog sv') (ir_revision a)"
    using ingest_accepted [OF one(1) assms(2)] find_in_catalog by (metis not_None_eq)
  with one show ?thesis by blast
qed

lemma serve_others_keeps:
  "references_inv (sv_catalog sv) \<Longrightarrow> references_inv (sv_catalog (serve_others H utc free cfg qs sv))"
  "in_catalog (sv_catalog sv) rv \<Longrightarrow> in_catalog (sv_catalog (serve_others H utc free cfg qs sv)) rv"
proof -
  have step: "served H sv (fst (handle H utc free cfg b p q sv)) (snd (handle H utc free cfg b p q sv))" for b p q sv
    by (rule handle_served) simp
  show "references_inv (sv_catalog sv) \<Longrightarrow> references_inv (sv_catalog (serve_others H utc free cfg qs sv))"
    unfolding serve_others_def by (induction qs arbitrary: sv) (auto dest: served_references [OF step])
  show "in_catalog (sv_catalog sv) rv \<Longrightarrow> in_catalog (sv_catalog (serve_others H utc free cfg qs sv)) rv"
    unfolding serve_others_def by (induction qs arbitrary: sv) (auto dest: grows_in_catalog [OF served_grows [OF step]])
qed

text \<open>What arrives at the client: the server's value, in canonical order, or a failure.\<close>

lemma json_loads_empty [simp]: "json_loads [] = None"
  by code_simp

lemma decode_respond:
  assumes "decode_answer (respond res) = Inr kvs"
  shows "\<exists>v. res = Inr v \<and> json_ok v \<and> normal_json v = JObj kvs"
  using assms by (auto simp: respond_def decode_answer_def versioned_dict_def bind_eq_Some_conv json_loads_encode
      split: sum.splits if_splits option.splits json.splits)

lemma normal_field:
  assumes "normal_json (JObj kvs) = JObj nvs" "distinct (map fst kvs)"
  shows "map_of nvs k = map_option normal_json (map_of kvs k)"
proof -
  have "nvs = sort_key fst (map (\<lambda>kv. (fst kv, normal_json (snd kv))) kvs)"
    using assms(1) by (simp add: case_prod_unfold)
  moreover have "distinct (map fst (map (\<lambda>kv. (fst kv, normal_json (snd kv))) kvs))"
    using assms(2) by (simp add: o_def)
  ultimately show ?thesis by (simp add: map_of_sort_key map_of_map_snd)
qed

lemma normal_string: "normal_json v = JStr s \<longleftrightarrow> v = JStr s"
  by (cases v) auto

lemma durable_answer:
  assumes "decode_answer (respond res) = Inr kvs" "is_durable kvs rv"
  obtains v where "res = Inr v" "status_of v = JStr (lit ''durable'')" "\<forall>a. v = durable_json a \<longrightarrow> ir_revision a = rv"
proof -
  obtain v where v: "res = Inr v" "json_ok v" "normal_json v = JObj kvs" using decode_respond [OF assms(1)] by blast
  obtain ws where ws: "v = JObj ws" using v(3) by (cases v) auto
  have look: "map_of kvs k = map_option normal_json (map_of ws k)" for k
    using normal_field [of ws kvs k] v(2,3) ws by simp
  have "field ws k = JStr s" if "field kvs k = JStr s" for k s
    using that look [of "lit k"] by (auto simp: field_def field_or_def jget_def normal_string split: option.splits)
  then have "field ws ''status'' = JStr (lit ''durable'')" "field ws ''revision'' = JStr rv"
    using assms(2) by (auto simp: is_durable_def)
  moreover from this(2) have "ir_revision a = rv" if "v = durable_json a" for a
    using that by (auto simp: ws durable_json_def field_def field_or_def jget_def)
  ultimately show thesis using that [of v] v(1) by (simp add: status_of_def ws)
qed

lemma net_send_cases:
  assumes "net_send H utc free cfg producer q nw = (x, nw')"
  obtains sv res sv' where "sv = serve_others H utc free cfg (tn_before (next_turn nw)) (nw_server nw)"
    "handle H utc free cfg (tn_busy (next_turn nw)) producer q sv = (res, sv')"
    "nw_server nw' = sv \<and> (\<exists>e. x = Inl e) \<or> nw_server nw' = sv' \<and> ((\<exists>e. x = Inl e) \<or> (\<exists>kvs. x = Inr kvs \<and> decode_answer (respond res) = Inr kvs))"
proof -
  define sv where "sv = serve_others H utc free cfg (tn_before (next_turn nw)) (nw_server nw)"
  obtain res sv' where step: "handle H utc free cfg (tn_busy (next_turn nw)) producer q sv = (res, sv')"
    by (cases "handle H utc free cfg (tn_busy (next_turn nw)) producer q sv")
  show thesis
  proof (rule that [OF sv_def step])
    show "nw_server nw' = sv \<and> (\<exists>e. x = Inl e) \<or> nw_server nw' = sv' \<and> ((\<exists>e. x = Inl e) \<or> (\<exists>kvs. x = Inr kvs \<and> decode_answer (respond res) = Inr kvs))"
      using assms step unfolding net_send_def Let_def sv_def [symmetric]
      by (auto simp: decode_answer_def [of "NoAnswer _"] split: fate.splits sum.splits)
  qed
qed

definition net_good :: "network \<Rightarrow> bool" where
  "net_good nw = references_inv (sv_catalog (nw_server nw))"

lemma net_send_keeps:
  "net_holds nw rv \<Longrightarrow> net_send H utc free cfg producer q nw = (x, nw') \<Longrightarrow> net_holds nw' rv"
  "net_good nw \<Longrightarrow> net_send H utc free cfg producer q nw = (x, nw') \<Longrightarrow> net_good nw'"
  by (auto simp: net_holds_def net_good_def elim!: net_send_cases dest!: handle_served
      intro: serve_others_keeps grows_in_catalog served_grows served_references)

lemma net_send_durable:
  assumes "net_good nw" "net_send H utc free cfg producer q nw = (Inr kvs, nw')" "is_durable kvs rv"
  shows "net_holds nw' rv"
  using assms(2)
proof (cases rule: net_send_cases)
  case (1 sv res sv')
  have good: "references_inv (sv_catalog sv)" using assms(1) 1(1) serve_others_keeps(1) by (simp add: net_good_def)
  have answer: "nw_server nw' = sv'" "decode_answer (respond res) = Inr kvs" using 1(3) by auto
  obtain v where v: "res = Inr v" "status_of v = JStr (lit ''durable'')" "\<forall>a. v = durable_json a \<longrightarrow> ir_revision a = rv"
    using answer(2) assms(3) by (rule durable_answer)
  show ?thesis
    using served_durable [OF handle_served [OF 1(2) [unfolded v(1)]] good v(2)] v(3) answer(1) by (auto simp: net_holds_def)
qed

interpretation net: remote "net_send H utc free cfg producer" net_holds net_good
proof unfold_locales
  show "keeps net_holds (net_send H utc free cfg producer q)" for q
    by (rule keepsI) (rule net_send_keeps(1) [OF _ prod.collapse [symmetric]])
  show "keeps (\<lambda>w _ :: unit. net_good w) (net_send H utc free cfg producer q)" for q
    by (rule keepsI) (rule net_send_keeps(2) [OF _ prod.collapse [symmetric]])
qed (rule net_send_durable)

end
