(* ===== verification/Devices.thy ===== *)
theory Devices
  imports Network
begin

text \<open>
  Histories of a capture device: captures, flushes, staged files and changing networks, in any
  order, against the primary of \<open>Network\<close>.
\<close>

section \<open>Steps of a device\<close>

text \<open>
  Flushes may be skipped by a running one, retried, and cut short by the network; what is staged on
  disk and what the network will do are arbitrary between the steps.
\<close>

datatype device_event =
    Capture session pystr "(pystr \<times> pystr) option" "raw_ref option"
  | Flush bool int int bool bool
  | Staged data_root
  | Turns "turn list"

type_synonym primary = "(pystr \<Rightarrow> pystr result) \<times> (data_root \<Rightarrow> nat) \<times> server_config"

definition primary_send :: "(bytes \<Rightarrow> pystr) \<Rightarrow> primary \<Rightarrow> pystr \<Rightarrow> network send" where
  "primary_send H p = net_send H (fst p) (fst (snd p)) (snd (snd p))"

fun device_step :: "(bytes \<Rightarrow> pystr) \<Rightarrow> primary \<Rightarrow> pystr \<Rightarrow> device_event \<Rightarrow> network device \<Rightarrow> network device" where
  "device_step H p producer (Capture s request checkpoint raw) d =
     d\<lparr>dv_queue := snd (queue_ingest H s request checkpoint raw (dv_queue d))\<rparr>"
| "device_step H p producer (Flush busy limit now bootstrap reconcile) d =
     snd (flush H (primary_send H p producer) busy limit now bootstrap reconcile d)"
| "device_step H p producer (Staged r) d = d\<lparr>dv_root := r\<rparr>"
| "device_step H p producer (Turns ts) d = d\<lparr>dv_net := (dv_net d)\<lparr>nw_turns := ts\<rparr>\<rparr>"

definition run_device :: "(bytes \<Rightarrow> pystr) \<Rightarrow> primary \<Rightarrow> pystr \<Rightarrow> device_event list \<Rightarrow> network device \<Rightarrow> network device" where
  "run_device H p producer = fold (device_step H p producer)"

abbreviation device_catalog :: "network device \<Rightarrow> catalog" where
  "device_catalog d \<equiv> sv_catalog (nw_server (dv_net d))"

section \<open>The outbox of a device\<close>

definition appended :: "pystr \<Rightarrow> pystr \<Rightarrow> outbox \<Rightarrow> outbox" where
  "appended sid rv ob = ob\<lparr>ob_chain := (ob_chain ob)(sid := ob_chain ob sid @ [rv])\<rparr>"

inductive outbox_step :: "pystr set \<Rightarrow> outbox \<Rightarrow> outbox \<Rightarrow> bool" for S where
  enqueue: "outbox_step S ob (appended sid rv ob)"
| deliver: "delivers S ob ob' \<Longrightarrow> outbox_step S ob ob'"

lemma outbox_step_mono: "outbox_step S a b \<Longrightarrow> S \<subseteq> T \<Longrightarrow> outbox_step T a b"
  by (induction rule: outbox_step.induct) (auto intro: outbox_step.intros delivers_mono)

text \<open>A queued revision stays queued until it is delivered.\<close>

lemma delivers_keeps: "delivers S a b \<Longrightarrow> rv \<in> set (ob_chain a sid) \<Longrightarrow> rv \<in> set (ob_chain b sid) \<or> rv \<in> S"
  by (induction rule: delivers.induct) (auto split: if_splits)

lemma outbox_step_keeps: "outbox_step S a b \<Longrightarrow> rv \<in> set (ob_chain a sid) \<Longrightarrow> rv \<in> set (ob_chain b sid) \<or> rv \<in> S"
  by (induction rule: outbox_step.induct) (auto simp: appended_def dest: delivers_keeps)

lemma outbox_steps_keep: "(outbox_step S)\<^sup>*\<^sup>* a b \<Longrightarrow> rv \<in> set (ob_chain a sid) \<Longrightarrow> rv \<in> set (ob_chain b sid) \<or> rv \<in> S"
  by (induction rule: rtranclp_induct) (auto dest: outbox_step_keeps)

lemma queue_ingest_outbox:
  assumes "queue_inv H q" "queue_ingest H s request checkpoint raw q = (res, q')"
  shows "queue_inv H q' \<and> (outbox_of q' = outbox_of q \<or> outbox_of q' = appended (ses_id s) (session_revision H s) (outbox_of q))
    \<and> (is_ok res \<longrightarrow> (\<exists>sid. session_revision H s \<in> set (ob_chain (outbox_of q') sid)))"
proof (cases "List.find (\<lambda>p. pd_request p = request) (uq_pending q)")
  case None
  let ?q1 = "q\<lparr>uq_pending := uq_pending q @ [new_row H s request raw q]\<rparr>"
  have q': "q' = note_capture checkpoint raw ?q1" using assms(2) None by (simp add: queue_ingest_def Let_def)
  have inv: "queue_inv H q'" by (rule enqueue_inv [OF assms(1) None]) (simp add: q')
  have rows: "session_rows q' sid = session_rows q sid @ (if sid = ses_id s then [new_row H s request raw q] else [])" for sid
    by (simp add: session_rows_def q' new_row_def)
  have chain: "map pd_revision (session_rows q' sid) = map pd_revision (session_rows q sid) @ (if sid = ses_id s then [session_revision H s] else [])" for sid
    by (simp add: rows new_row_def)
  have "uq_acknowledged q' = uq_acknowledged q" by (simp add: q')
  then have "outbox_of q' = appended (ses_id s) (session_revision H s) (outbox_of q)"
    by (simp add: outbox_of_def appended_def chain fun_eq_iff)
  moreover have "session_revision H s \<in> set (ob_chain (outbox_of q') (ses_id s))" by (simp add: outbox_of_def chain)
  ultimately show ?thesis using inv by blast
next
  case (Some p)
  have p: "p \<in> set (uq_pending q)" using Some by (auto dest: find_Some_set)
  show ?thesis
  proof (cases "pd_revision p = session_revision H s")
    case True
    then have q': "q' = note_capture checkpoint raw q" using assms(2) Some by (simp add: queue_ingest_def Let_def)
    have same: "uq_pending q' = uq_pending q" "uq_acknowledged q' = uq_acknowledged q" by (simp_all add: q')
    then have "outbox_of q' = outbox_of q" by (simp add: outbox_of_def session_rows_def)
    moreover have "queue_inv H q'" using assms(1) queue_inv_pending [OF same(1)] by simp
    moreover have "session_revision H s \<in> set (ob_chain (outbox_of q) (pd_session p))"
      using p True by (auto simp: outbox_of_def session_rows_mem intro!: image_eqI [of _ _ p])
    ultimately show ?thesis by auto
  next
    case False
    then have "q' = q" "\<not> is_ok res" using assms(2) Some by (auto simp: queue_ingest_def Let_def)
    then show ?thesis using assms(1) by simp
  qed
qed

section \<open>What a history does\<close>

definition stored_revisions :: "network device \<Rightarrow> pystr set" where
  "stored_revisions d = {rv. in_catalog (device_catalog d) rv}"

lemma device_step_sound:
  assumes "dev_ok H net_good d"
  shows "dev_ok H net_good (device_step H p producer st d)
    \<and> (outbox_step (stored_revisions (device_step H p producer st d)))\<^sup>*\<^sup>* (outbox_of (dv_queue d)) (outbox_of (dv_queue (device_step H p producer st d)))
    \<and> stored_revisions d \<subseteq> stored_revisions (device_step H p producer st d)"
proof (cases st)
  case (Capture s request checkpoint raw)
  obtain res q where step: "queue_ingest H s request checkpoint raw (dv_queue d) = (res, q)"
    by (cases "queue_ingest H s request checkpoint raw (dv_queue d)")
  have "queue_inv H (dv_queue d)" using assms by (simp add: dev_ok_def)
  note after = queue_ingest_outbox [OF this step]
  have "outbox_of q = outbox_of (dv_queue d) \<or> outbox_step S (outbox_of (dv_queue d)) (outbox_of q)" for S
    using after outbox_step.enqueue by metis
  then have q: "queue_inv H q" "(outbox_step S)\<^sup>*\<^sup>* (outbox_of (dv_queue d)) (outbox_of q)" for S
    using after by (metis r_into_rtranclp rtranclp.rtrancl_refl)+
  then show ?thesis using assms by (auto simp: Capture step dev_ok_def stored_revisions_def)
next
  case (Flush busy limit now bootstrap reconcile)
  let ?d = "device_step H p producer st d"
  have "dev_ok H net_good ?d \<and> moves net_holds d ?d"
    using net.flush_sound assms by (simp add: Flush primary_send_def sound_def)
  moreover have "{rv. net_holds (dv_net ?d) rv} = stored_revisions ?d" by (simp add: stored_revisions_def net_holds_def)
  ultimately show ?thesis
    by (auto simp: moves_def stored_revisions_def net_holds_def intro: rtranclp_subset outbox_step.deliver)
next
  case (Staged r)
  then show ?thesis using assms by (simp add: dev_ok_def stored_revisions_def)
next
  case (Turns ts)
  then show ?thesis using assms by (simp add: dev_ok_def stored_revisions_def net_good_def)
qed

lemma run_device_sound:
  assumes "dev_ok H net_good d"
  shows "dev_ok H net_good (run_device H p producer steps d)
    \<and> (outbox_step (stored_revisions (run_device H p producer steps d)))\<^sup>*\<^sup>* (outbox_of (dv_queue d)) (outbox_of (dv_queue (run_device H p producer steps d)))
    \<and> stored_revisions d \<subseteq> stored_revisions (run_device H p producer steps d)"
  using assms
proof (induction steps arbitrary: d)
  case (Cons st steps)
  let ?d1 = "device_step H p producer st d" and ?d' = "run_device H p producer (st # steps) d"
  have split: "?d' = run_device H p producer steps ?d1" by (simp add: run_device_def)
  note one = device_step_sound [OF Cons.prems, of p producer st]
  note rest = Cons.IH [of ?d1, folded split]
  have "(outbox_step (stored_revisions ?d'))\<^sup>*\<^sup>* (outbox_of (dv_queue d)) (outbox_of (dv_queue ?d1))"
    using one rest by (auto intro: rtranclp_subset outbox_step_mono)
  then show ?case using one rest by (auto intro: rtranclp_trans)
qed (simp add: run_device_def)

section \<open>The properties\<close>

text \<open>
  C1: A capture is never lost. Once \<open>ingest\<close> has accepted a session, then after any further captures,
  flushes and network failures its revision is still pending in the queue or stored in the primary's
  catalog.
\<close>

theorem captured_session_is_queued_or_stored:
  assumes "queue_inv H (dv_queue d)" "references_inv (device_catalog d)"
    and "queue_ingest H s request checkpoint raw (dv_queue d) = (Inr res, q)"
    and "d' = run_device H p producer steps (d\<lparr>dv_queue := q\<rparr>)"
  shows "session_revision H s \<in> pd_revision ` set (uq_pending (dv_queue d')) \<or> in_catalog (device_catalog d') (session_revision H s)"
proof -
  let ?d1 = "d\<lparr>dv_queue := q\<rparr>"
  have q: "queue_inv H q" "\<exists>sid. session_revision H s \<in> set (ob_chain (outbox_of q) sid)"
    using queue_ingest_outbox [OF assms(1,3)] by auto
  have "dev_ok H net_good ?d1" using q(1) assms(2) by (simp add: dev_ok_def net_good_def)
  from run_device_sound [OF this, of p producer steps, folded assms(4)]
  have "(outbox_step (stored_revisions d'))\<^sup>*\<^sup>* (outbox_of q) (outbox_of (dv_queue d'))" by simp
  then obtain sid where "session_revision H s \<in> set (ob_chain (outbox_of (dv_queue d')) sid) \<or> session_revision H s \<in> stored_revisions d'"
    using q(2) by (blast dest: outbox_steps_keep)
  then show ?thesis by (auto simp: outbox_of_def stored_revisions_def session_rows_mem)
qed

definition sample_device :: "network device" where
  "sample_device = \<lparr>dv_queue = empty_queue, dv_root = empty_root,
     dv_net = \<lparr>nw_server = \<lparr>sv_root = empty_root, sv_catalog = empty_catalog (lit ''primary'')\<rparr>, nw_turns = []\<rparr>\<rparr>"

definition sample_primary :: primary where
  "sample_primary = (no_time, \<lambda>_. 2 ^ 40, \<lparr>sc_readonly = False, sc_chunked = False, sc_limit = None, sc_scan = 1000\<rparr>)"

lemma sample_device_simps [simp]: "dv_queue sample_device = empty_queue" "device_catalog sample_device = empty_catalog (lit ''primary'')"
  by (simp_all add: sample_device_def)

lemma empty_queue_simps [simp]: "uq_pending empty_queue = []" "note_capture None None q = q"
  by (simp_all add: empty_queue_def note_capture_def)

lemma queue_ingest_fresh:
  assumes "request \<notin> pd_request ` set (uq_pending q)"
  shows "queue_ingest H s request checkpoint raw q = (Inr \<lparr>ir_session = ses_id s, ir_revision = session_revision H s, ir_duplicate = False\<rparr>,
       note_capture checkpoint raw (q\<lparr>uq_pending := uq_pending q @ [new_row H s request raw q]\<rparr>))"
proof -
  have "List.find (\<lambda>p. pd_request p = request) (uq_pending q) = None" using assms by (auto simp: find_None_set)
  then show ?thesis by (simp add: queue_ingest_def Let_def)
qed

lemma empty_queue_inv [simp]: "queue_inv H empty_queue"
  by (simp add: queue_inv_def empty_queue_def session_rows_def linked_def)

lemma captured_session_is_queued_or_stored_witness:
  "let s = sample_session [lit ''a'', lit ''b'']; q = snd (queue_ingest sample_hash s (lit ''r1'') None None empty_queue);
     d' = run_device sample_hash sample_primary (lit ''laptop'') [Flush False 10 0 False False] (sample_device\<lparr>dv_queue := q\<rparr>)
   in session_revision sample_hash s \<in> pd_revision ` set (uq_pending (dv_queue d')) \<or> in_catalog (device_catalog d') (session_revision sample_hash s)"
  unfolding Let_def
  by (rule captured_session_is_queued_or_stored [where d = sample_device and checkpoint = None and raw = None and request = "lit ''r1''"])
    (simp_all add: queue_ingest_fresh)

text \<open>
  C2: The queue refines a first-in first-out queue per session: every history of a device only appends
  captured revisions and takes the oldest one away, as acknowledged, when the primary has it.
\<close>

theorem device_refines_outbox:
  assumes "queue_inv H (dv_queue d)" "references_inv (device_catalog d)"
  shows "(outbox_step {rv. in_catalog (device_catalog (run_device H p producer steps d)) rv})\<^sup>*\<^sup>*
    (outbox_of (dv_queue d)) (outbox_of (dv_queue (run_device H p producer steps d)))"
  using run_device_sound [of H d p producer steps] assms by (simp add: dev_ok_def net_good_def stored_revisions_def)

lemma device_refines_outbox_witness:
  "let steps = [Capture (sample_session [lit ''a'']) (lit ''r1'') None None, Flush False 10 0 False False];
     d' = run_device sample_hash sample_primary (lit ''laptop'') steps sample_device
   in (outbox_step {rv. in_catalog (device_catalog d') rv})\<^sup>*\<^sup>* (outbox_of empty_queue) (outbox_of (dv_queue d'))"
  using device_refines_outbox [of sample_hash sample_device] by (simp add: Let_def)

text \<open>
  C3: The expected revisions of a session's pending rows form a chain: each row expects the revision of
  the row before it, whatever was sent, refused or reconciled in between.
\<close>

theorem expected_revisions_form_a_chain:
  assumes "queue_inv H (dv_queue d)" "references_inv (device_catalog d)"
    and "session_rows (dv_queue (run_device H p producer steps d)) sid = before @ a # b # later"
  shows "en_expected (pd_payload b) = Some (pd_revision a) \<and> pd_seq a < pd_seq b
    \<and> pd_revision b = session_revision H (en_session (pd_payload b)) \<and> ses_id (en_session (pd_payload b)) = sid"
proof -
  let ?q = "dv_queue (run_device H p producer steps d)"
  have inv: "queue_inv H ?q"
    using run_device_sound [of H d p producer steps] assms(1,2) by (simp add: dev_ok_def net_good_def)
  have "linked (before @ a # b # later)" using queue_invD(5) [OF inv, of sid] assms(3) by simp
  moreover have "sorted_wrt (<) (map pd_seq (session_rows ?q sid))"
    using queue_invD(1) [OF inv] by (simp add: session_rows_def sorted_wrt_map sorted_wrt_filter)
  moreover have "b \<in> set (uq_pending ?q)" "pd_session b = sid" using session_rows_mem [of b ?q sid] assms(3) by auto
  ultimately show ?thesis using queue_invD(4) [OF inv, of b] assms(3)
    by (auto simp: linked_def successively_append_iff sorted_wrt_append row_ok_def)
qed

lemma expected_revisions_form_a_chain_witness:
  "let s = sample_session [lit ''a'']; t = sample_session [lit ''a'', lit ''b'']; q = snd (queue_ingest sample_hash s (lit ''r1'') None None empty_queue)
   in en_expected (pd_payload (new_row sample_hash t (lit ''r2'') None q)) = Some (session_revision sample_hash s)"
proof -
  define s t where "s = sample_session [lit ''a'']" and "t = sample_session [lit ''a'', lit ''b'']"
  define a q where "a = new_row sample_hash s (lit ''r1'') None empty_queue" and "q = empty_queue\<lparr>uq_pending := [a]\<rparr>"
  define b where "b = new_row sample_hash t (lit ''r2'') None q"
  have q: "snd (queue_ingest sample_hash s (lit ''r1'') None None empty_queue) = q"
    by (simp add: queue_ingest_fresh a_def q_def)
  have "pd_request a = lit ''r1''" by (simp add: a_def new_row_def)
  then have "snd (queue_ingest sample_hash t (lit ''r2'') None None q) = q\<lparr>uq_pending := [a, b]\<rparr>"
    by (subst queue_ingest_fresh) (simp_all add: b_def q_def [symmetric], simp_all add: q_def)
  then have "dv_queue (run_device sample_hash sample_primary (lit ''laptop'') [Capture s (lit ''r1'') None None, Capture t (lit ''r2'') None None] sample_device)
      = q\<lparr>uq_pending := [a, b]\<rparr>"
    by (simp add: run_device_def q)
  then have "session_rows (dv_queue (run_device sample_hash sample_primary (lit ''laptop'')
      [Capture s (lit ''r1'') None None, Capture t (lit ''r2'') None None] sample_device)) (lit ''s'') = [] @ a # b # []"
    by (simp add: session_rows_def a_def b_def new_row_def s_def t_def sample_session_def)
  from expected_revisions_form_a_chain [OF _ _ this]
  show ?thesis unfolding s_def [symmetric] t_def [symmetric] Let_def q b_def [symmetric] by (simp add: a_def new_row_def)
qed

end
