(* ===== verification/Snippets.thy ===== *)
theory Snippets
  imports Regex
begin

text \<open>
  The presentation side of a search: what a query is made of, the full-text expression and the
  substring candidates that stand for it (\<open>storage/catalog.py\<close>, \<open>storage/literal.py\<close>), where a text
  matches it, and the excerpts that are shown (\<open>storage/snippets.py\<close>).
\<close>

section \<open>Query units\<close>

text \<open>\<open>re.findall\<close> of quoted phrases and words: pairs of which one is empty.\<close>

function query_units :: "pystr \<Rightarrow> (pystr \<times> pystr) list" where
  "query_units [] = []"
| "query_units (c # t) =
     (let p = takeWhile (\<lambda>x. x \<noteq> 34) t; w = takeWhile (\<lambda>x. \<not> py_space x) t in
      if c = 34 \<and> p \<noteq> [] \<and> length p < length t then (p, []) # query_units (drop (Suc (length p)) t)
      else if py_space c then query_units t
      else ([], c # w) # query_units (drop (length w) t))"
  by pat_completeness auto
termination by (relation "measure length") auto

definition unit_text :: "pystr \<times> pystr \<Rightarrow> pystr" where
  "unit_text u = (if fst u \<noteq> [] then fst u else snd u)"

text \<open>A string literal of the full-text query language.\<close>

definition fts_quote :: "pystr \<Rightarrow> pystr" where
  "fts_quote v = 34 # concat (map (\<lambda>c. if c = 34 then [34, 34] else [c]) v) @ [34]"

definition fts_expression :: "pystr \<Rightarrow> pystr" where
  "fts_expression text = join (lit '' OR '') (map (fts_quote \<circ> unit_text) (query_units text))"

section \<open>Substring candidates\<close>

definition printable :: "nat \<Rightarrow> bool" where
  "printable c \<longleftrightarrow> 32 \<le> c \<and> c < 127"

text \<open>\<open>lower()\<close> of SQL, and of Python on printable ASCII text.\<close>

definition ascii_lower :: "nat \<Rightarrow> nat" where
  "ascii_lower c = (if 65 \<le> c \<and> c \<le> 90 then c + 32 else c)"

abbreviation sql_lower :: "pystr \<Rightarrow> pystr" where
  "sql_lower \<equiv> map ascii_lower"

fun triples_from :: "nat \<Rightarrow> pystr list \<Rightarrow> pystr \<Rightarrow> pystr list" where
  "triples_from n seen (a # b # c # s) =
     (let t = [a, b, c] in
      if list_all printable t \<and> sql_lower t \<notin> set seen
      then if length seen + 1 = n then seen @ [sql_lower t] else triples_from n (seen @ [sql_lower t]) (b # c # s)
      else triples_from n seen (b # c # s))"
| "triples_from n seen s = seen"

definition triples :: "pystr \<Rightarrow> pystr list" where
  "triples text = triples_from 8 [] text"

definition terms :: "pystr \<Rightarrow> pystr" where
  "terms text = join (lit '' AND '') (map fts_quote (triples text))"

section \<open>Where a text matches\<close>

definition word_char :: "interp \<Rightarrow> nat \<Rightarrow> bool" where
  "word_char ip c \<longleftrightarrow> py_alnum ip c \<or> c = 95"

text \<open>A unit as a pattern that does not begin or end inside a word.\<close>

definition unit_pattern :: "interp \<Rightarrow> pystr \<Rightarrow> rx" where
  "unit_pattern ip v = RSeq (if v \<noteq> [] \<and> word_char ip (hd v) then RNotBehind False [WordC] else Empty)
     (RSeq (rtext v) (if v \<noteq> [] \<and> word_char ip (last v) then RNotAhead False [WordC] else Empty))"

definition trailing :: "pystr" where "trailing = lit ''?!,;:''"

definition unit_value :: "pystr \<times> pystr \<Rightarrow> pystr" where
  "unit_value u = (if fst u \<noteq> [] then fst u else rev (dropWhile (\<lambda>c. c \<in> set trailing) (rev (snd u))))"

definition search_start :: "interp \<Rightarrow> rx \<Rightarrow> pystr \<Rightarrow> nat option" where
  "search_start ip r s = map_option fst (re_search_from ip True r None s)"

definition unit_candidate :: "interp \<Rightarrow> pystr \<Rightarrow> pystr \<times> pystr \<Rightarrow> int list list" where
  "unit_candidate ip text u = (let v = unit_value u in
     if v = [] then [] else (case search_start ip (unit_pattern ip v) text of
       None \<Rightarrow> [] | Some i \<Rightarrow> [[of_bool (fst u \<noteq> []), int (length v), - int i]]))"

definition match_offset :: "interp \<Rightarrow> pystr \<Rightarrow> pystr \<Rightarrow> nat" where
  "match_offset ip text query = (case search_start ip (rtext (strip_chars [34] query)) text of
       Some i \<Rightarrow> i
     | None \<Rightarrow> (case concat (map (unit_candidate ip text) (query_units query)) of
           [] \<Rightarrow> 0 | c # cs \<Rightarrow> nat (- (fold max cs c ! 2))))"

definition ellipsis :: nat where "ellipsis = 8230"

definition window :: "pystr \<Rightarrow> nat \<Rightarrow> nat \<Rightarrow> pystr" where
  "window text start limit = (if start \<noteq> 0 then [ellipsis] else []) @ take limit (drop start text)
     @ (if start + limit < length text then [ellipsis] else [])"

definition excerpt :: "interp \<Rightarrow> pystr \<Rightarrow> pystr \<Rightarrow> nat \<Rightarrow> pystr" where
  "excerpt ip text query limit = window text (match_offset ip text query - limit div 4) limit"

section \<open>Snippets\<close>

text \<open>The distinct units of the query, at most 32, with whether they are phrases.\<close>

fun snippet_units :: "interp \<Rightarrow> nat \<Rightarrow> (pystr \<times> pystr \<times> bool) list \<Rightarrow> (pystr \<times> pystr) list \<Rightarrow> (pystr \<times> bool) list" where
  "snippet_units ip n seen [] = map snd seen"
| "snippet_units ip n seen (u # us) = (let v = unit_value u; k = py_casefold ip v in
     if v = [] \<or> k \<in> fst ` set seen then snippet_units ip n seen us
     else let seen = seen @ [(k, v, fst u \<noteq> [])] in
       if length seen = n then map snd seen else snippet_units ip n seen us)"

fun find_spans :: "interp \<Rightarrow> rx \<Rightarrow> nat \<Rightarrow> nat option \<Rightarrow> pystr \<Rightarrow> nat \<Rightarrow> (nat \<times> nat) list" where
  "find_spans ip r 0 prev s base = []"
| "find_spans ip r (Suc n) prev s base = (case re_search_from ip True r prev s of
       None \<Rightarrow> []
     | Some (i, m) \<Rightarrow> (let e = base + (length s - length (mt_after m)) in
         (base + i, e) # find_spans ip r n (mt_prev m) (mt_after m) e))"

record hit =
  ht_start :: nat
  ht_end :: nat
  ht_unit :: nat
  ht_weight :: nat
  ht_phrase :: bool

definition unit_hits :: "interp \<Rightarrow> pystr \<Rightarrow> nat \<times> pystr \<times> bool \<Rightarrow> hit list" where
  "unit_hits ip text iu = (case iu of (unit, v, phrase) \<Rightarrow>
     map (\<lambda>(s, e). \<lparr>ht_start = s, ht_end = e, ht_unit = unit,
         ht_weight = min (length v) 12 * (if phrase then 3 else 1), ht_phrase = phrase\<rparr>)
       (find_spans ip (unit_pattern ip v) 32 None (take 128000 text) 0))"

definition query_hits :: "interp \<Rightarrow> pystr \<Rightarrow> pystr \<Rightarrow> hit list" where
  "query_hits ip text query = concat (map (unit_hits ip text)
     (enumerate 0 (snippet_units ip 32 [] (query_units (take 4096 query)))))"

definition covered :: "hit list \<Rightarrow> nat \<Rightarrow> nat \<Rightarrow> hit list" where
  "covered hits start limit = filter (\<lambda>h. start \<le> ht_start h \<and> ht_end h \<le> start + limit) hits"

definition first_start :: "hit list \<Rightarrow> nat" where
  "first_start hits = (case map ht_start hits of [] \<Rightarrow> 0 | x # xs \<Rightarrow> fold min xs x)"

definition score :: "hit list \<Rightarrow> nat \<Rightarrow> int list" where
  "score hits start =
     (let units = dedup_from [] (map ht_unit hits); weights = map (\<lambda>h. (ht_unit h, ht_weight h)) hits in
      [int (length (dedup_from [] (map ht_unit (filter ht_phrase hits)))),
       int (sum_list (map (\<lambda>u. the (map_of weights u)) units)), int (length units), - int start])"

definition weigh_start :: "hit list \<Rightarrow> nat \<Rightarrow> nat \<Rightarrow> (int list \<times> nat \<times> nat) option \<Rightarrow> (int list \<times> nat \<times> nat) option" where
  "weigh_start hits limit start best =
     (let cs = covered hits start limit; v = score cs start in
      if cs = [] then best
      else (case best of
          None \<Rightarrow> Some (v, start, first_start cs)
        | Some (w, _) \<Rightarrow> if w < v then Some (v, start, first_start cs) else best))"

definition select_snippet :: "interp \<Rightarrow> pystr \<Rightarrow> pystr \<Rightarrow> int \<Rightarrow> (nat \<times> pystr) result" where
  "select_snippet ip text query limit =
     (if limit < 1 then Inl (ValueError ''snippet limit must be positive'')
      else let l = nat limit; hits = query_hits ip text query in
        if hits = [] then Inr (0, window text 0 l)
        else let starts = sort (dedup_from [] (map (\<lambda>h. ht_start h - l div 4) hits @ map ht_start hits)) in
          (case fold (weigh_start hits l) starts None of
             None \<Rightarrow> Inr (first_start hits, window text (first_start hits - l div 4) l)
           | Some (_, start, anchor) \<Rightarrow> Inr (anchor, window text start l)))"

section \<open>Nothing of a query is executed\<close>

text \<open>
  The reader of the query language's string literals: \<open>OR\<close>-separated strings, in which a doubled
  quote is a quote.
\<close>

fun read_string :: "pystr \<Rightarrow> (pystr \<times> pystr) option" where
  "read_string [] = None"
| "read_string (c # s) = (if c \<noteq> 34 then map_option (\<lambda>(v, r). (c # v, r)) (read_string s)
     else (case s of d # r \<Rightarrow> if d = 34 then map_option (\<lambda>(v, r). (34 # v, r)) (read_string r) else Some ([], s)
       | [] \<Rightarrow> Some ([], [])))"

fun read_strings :: "nat \<Rightarrow> pystr \<Rightarrow> pystr \<Rightarrow> pystr list option" where
  "read_strings 0 sep s = None"
| "read_strings (Suc n) sep s = (case s of
       [] \<Rightarrow> None
     | c # t \<Rightarrow> if c \<noteq> 34 then None else (case read_string t of
           None \<Rightarrow> None
         | Some (v, r) \<Rightarrow> if r = [] then Some [v]
             else if starts_with r sep then map_option ((#) v) (read_strings n sep (drop (length sep) r)) else None))"

lemma read_string_quoted:
  assumes "r = [] \<or> hd r \<noteq> 34"
  shows "read_string (concat (map (\<lambda>c. if c = 34 then [34, 34] else [c]) v) @ 34 # r) = Some (v, r)"
  using assms by (induction v) (auto split: list.split)

lemma read_strings_join:
  assumes "vs \<noteq> []" "length vs \<le> n" "sep \<noteq> []" "hd sep \<noteq> 34"
  shows "read_strings n sep (join sep (map fts_quote vs)) = Some vs"
  using assms(1,2)
proof (induction vs arbitrary: n)
  case (Cons v vs)
  then obtain m where n: "n = Suc m" by (cases n) auto
  show ?case
  proof (cases vs)
    case Nil
    then show ?thesis using read_string_quoted [of "[]" v] by (simp add: n fts_quote_def)
  next
    case (Cons w ws)
    have "read_strings m sep (join sep (map fts_quote vs)) = Some vs"
      using Cons.IH [of m] Cons.prems n Cons by simp
    moreover have "join sep (map fts_quote (v # vs)) = 34 # concat (map (\<lambda>c. if c = 34 then [34, 34] else [c]) v) @ 34 # (sep @ join sep (map fts_quote vs))"
      by (simp add: Cons fts_quote_def)
    moreover have "hd (sep @ join sep (map fts_quote vs)) \<noteq> 34" using assms(3,4) by simp
    ultimately show ?thesis
      using read_string_quoted [of "sep @ join sep (map fts_quote vs)" v] assms(3) by (simp add: n starts_with_def)
  qed
qed simp

lemma query_units_nonempty: "u \<in> set (query_units s) \<Longrightarrow> unit_text u \<noteq> []"
proof (induction s rule: query_units.induct)
  case (2 c t)
  show ?case using "2.prems" "2.IH" [OF refl refl] by (auto simp: Let_def unit_text_def split: if_splits)
qed simp

lemma length_query_units: "length (query_units s) \<le> length s"
proof (induction s rule: query_units.induct)
  case (2 c t)
  show ?case
    using 2 [OF refl refl] by (auto simp: Let_def)
qed simp

lemma query_units_some: "\<exists>c \<in> set s. \<not> py_space c \<Longrightarrow> query_units s \<noteq> []"
proof (induction s rule: query_units.induct)
  case (2 c t)
  show ?case using "2.prems" "2.IH"(2) [OF refl refl] by (auto simp: Let_def)
qed simp

lemma strip_nonspace: "strip s \<noteq> [] \<Longrightarrow> \<exists>c \<in> set s. \<not> py_space c"
proof (rule ccontr)
  assume "strip s \<noteq> []" "\<not> (\<exists>c \<in> set s. \<not> py_space c)"
  moreover from this(2) have "dropWhile py_space s = []" by (simp add: dropWhile_eq_Nil_conv)
  ultimately show False by (simp add: strip_def)
qed

text \<open>
  C36: The full-text expression of a query is a disjunction of string literals that read back as
  exactly the phrases and words of the query: no part of a query is executed as query syntax.
\<close>

theorem fts_expression_only_quotes:
  assumes "strip text \<noteq> []"
  shows "read_strings (length text) (lit '' OR '') (fts_expression text) = Some (map unit_text (query_units text))
    \<and> list_all (\<lambda>v. v \<noteq> []) (map unit_text (query_units text)) \<and> query_units text \<noteq> []"
proof -
  have units: "query_units text \<noteq> []" using query_units_some strip_nonspace [OF assms] by blast
  have "read_strings (length text) (lit '' OR '') (join (lit '' OR '') (map fts_quote (map unit_text (query_units text))))
      = Some (map unit_text (query_units text))"
    by (rule read_strings_join) (use units length_query_units [of "text"] in \<open>simp_all add: lit_def\<close>)
  then show ?thesis using units query_units_nonempty by (auto simp: fts_expression_def list_all_iff)
qed

lemma fts_expression_only_quotes_witness:
  "read_strings 16 (lit '' OR '') (fts_expression (lit ''x'' @ 34 # lit '' NEAR '' @ 34 # lit ''a b'' @ 34 # lit '' *c''))
    = Some [lit ''x'' @ [34], lit ''NEAR'', lit ''a b'', lit ''*c'']"
proof -
  let ?t = "lit ''x'' @ 34 # lit '' NEAR '' @ 34 # lit ''a b'' @ 34 # lit '' *c''"
  have "query_units ?t = [([], lit ''x'' @ [34]), ([], lit ''NEAR''), (lit ''a b'', []), ([], lit ''*c'')]"
    by (simp add: lit_def Let_def py_space_def)
  moreover have "strip ?t \<noteq> []" "length ?t = 16" by (simp_all add: lit_def strip_def py_space_def)
  ultimately show ?thesis using fts_expression_only_quotes [of ?t] by (simp only: unit_text_def list.map fst_conv snd_conv) simp
qed

section \<open>Matches lie in the text\<close>

lemma re_search_from_bounds:
  "re_search_from ip ic r prev s = Some (i, m) \<Longrightarrow> i + rx_min r + length (mt_after m) \<le> length s"
proof (induction s arbitrary: prev i)
  case Nil
  then have "re_at ip ic r prev [] = Some m" "i = 0" by (auto simp: re_search_from.simps split: option.splits)
  then show ?case using re_at_min [of ip ic r prev "[]" m] by simp
next
  case (Cons c s)
  show ?case
  proof (cases "re_at ip ic r prev (c # s)")
    case (Some m')
    then have "i = 0" "m' = m" using Cons.prems by (simp_all add: re_search_from.simps)
    moreover have "rx_min r + length (mt_after m') \<le> length (c # s)" using re_at_min [OF Some] by arith
    ultimately show ?thesis by simp
  next
    case None
    then obtain j where "re_search_from ip ic r (Some c) s = Some (j, m)" "i = Suc j"
      using Cons.prems by (subst (asm) re_search_from.simps) auto
    then show ?thesis using Cons.IH by fastforce
  qed
qed

lemma search_start_bound: "search_start ip r s = Some i \<Longrightarrow> i + rx_min r \<le> length s"
  using re_search_from_bounds by (fastforce simp: search_start_def)

lemma rx_min_unit [simp]: "rx_min (unit_pattern ip v) = length v"
  by (simp add: unit_pattern_def)

lemma fold_max_in: "fold max cs (c :: 'a :: linorder) \<in> insert c (set cs)"
  by (induction cs arbitrary: c) (auto simp: max_def split: if_splits dest: meta_spec)

lemma fold_min_in: "fold min cs (c :: 'a :: linorder) \<in> insert c (set cs)"
  by (induction cs arbitrary: c) (auto simp: min_def split: if_splits dest: meta_spec)

lemma match_offset_bound: "match_offset ip text query \<le> length text"
proof (cases "search_start ip (rtext (strip_chars [34] query)) text")
  case (Some i)
  then show ?thesis using search_start_bound [OF Some] by (simp add: match_offset_def)
next
  case None
  have cand: "\<exists>i. k ! 2 = - int i \<and> i \<le> length text" if "k \<in> set (concat (map (unit_candidate ip text) (query_units query)))" for k
    using that by (auto simp: unit_candidate_def Let_def split: if_splits option.splits dest!: search_start_bound [OF sym] search_start_bound)
  show ?thesis
  proof (cases "concat (map (unit_candidate ip text) (query_units query))")
    case (Cons c cs)
    have "fold max cs c \<in> set (concat (map (unit_candidate ip text) (query_units query)))"
      using fold_max_in [of cs c] Cons by auto
    then obtain i where "fold max cs c ! 2 = - int i" "i \<le> length text" using cand by blast
    then show ?thesis by (simp add: match_offset_def None Cons)
  next
    case Nil
    show ?thesis unfolding match_offset_def None option.case Nil by simp
  qed
qed

lemma window_length: "length (window text start limit) \<le> limit + 2"
proof -
  have "length (take limit (drop start text)) \<le> limit" by simp
  then show ?thesis unfolding window_def length_append by (auto simp del: length_take)
qed

lemma find_spans_bounds:
  "(a, b) \<in> set (find_spans ip r n prev s base) \<Longrightarrow> base \<le> a \<and> a + rx_min r \<le> b \<and> b \<le> base + length s"
proof (induction n arbitrary: prev s base)
  case (Suc n)
  then obtain i m where m: "re_search_from ip True r prev s = Some (i, m)"
    by (cases "re_search_from ip True r prev s") auto
  note bound = re_search_from_bounds [OF m]
  let ?e = "base + (length s - length (mt_after m))"
  consider "a = base + i" "b = ?e" | "(a, b) \<in> set (find_spans ip r n (mt_prev m) (mt_after m) ?e)"
    using Suc.prems m by (auto simp: Let_def)
  then show ?case
  proof cases
    case 2
    then show ?thesis using Suc.IH [OF 2] bound by arith
  qed (use bound in simp)
qed simp

lemma snippet_units_nonempty:
  "\<forall>x \<in> set seen. fst (snd x) \<noteq> [] \<Longrightarrow> u \<in> set (snippet_units ip n seen us) \<Longrightarrow> fst u \<noteq> []"
proof (induction us arbitrary: seen)
  case (Cons x us)
  show ?case
    using Cons.prems Cons.IH [OF Cons.prems(1)] Cons.IH [of "seen @ [(py_casefold ip (unit_value x), unit_value x, fst x \<noteq> [])]"]
    by (auto simp: Let_def split: if_splits)
qed auto

lemma query_hits_bounds: "h \<in> set (query_hits ip text query) \<Longrightarrow> ht_start h < ht_end h \<and> ht_end h \<le> length text"
proof -
  assume "h \<in> set (query_hits ip text query)"
  then obtain k v phrase a b where unit: "(k, v, phrase) \<in> set (enumerate 0 (snippet_units ip 32 [] (query_units (take 4096 query))))"
    and span: "(a, b) \<in> set (find_spans ip (unit_pattern ip v) 32 None (take 128000 text) 0)" "ht_start h = a" "ht_end h = b"
    by (fastforce simp: query_hits_def unit_hits_def)
  have "(v, phrase) \<in> set (snippet_units ip 32 [] (query_units (take 4096 query)))"
    using unit by (metis enumerate_eq_zip set_zip_rightD)
  then have "v \<noteq> []" using snippet_units_nonempty [of "[]"] by fastforce
  then show ?thesis using find_spans_bounds [OF span(1)] span by (cases v) auto
qed

section \<open>The best window\<close>

lemma first_start_in: "cs \<noteq> [] \<Longrightarrow> \<exists>h \<in> set cs. ht_start h = first_start cs"
  using fold_min_in [of "map ht_start (tl cs)" "ht_start (hd cs)"]
  by (cases cs) (auto simp: first_start_def)

text \<open>What the running best of the windows examined so far is.\<close>

definition best_of :: "hit list \<Rightarrow> nat \<Rightarrow> nat set \<Rightarrow> (int list \<times> nat \<times> nat) option \<Rightarrow> bool" where
  "best_of hits limit seen best = (case best of
       None \<Rightarrow> \<forall>s \<in> seen. covered hits s limit = []
     | Some (v, start, anchor) \<Rightarrow> covered hits start limit \<noteq> [] \<and> v = score (covered hits start limit) start
         \<and> anchor = first_start (covered hits start limit)
         \<and> (\<forall>s \<in> seen. covered hits s limit = [] \<or> score (covered hits s limit) s \<le> v))"

lemma weigh_start_best:
  "best_of hits limit seen best \<Longrightarrow> best_of hits limit (insert s seen) (weigh_start hits limit s best)"
  by (auto simp: best_of_def weigh_start_def Let_def split: option.splits prod.splits if_splits)

lemma fold_weigh_best:
  "best_of hits limit seen best \<Longrightarrow> best_of hits limit (seen \<union> set ss) (fold (weigh_start hits limit) ss best)"
proof (induction ss arbitrary: seen best)
  case (Cons s ss)
  show ?case using Cons.IH [OF weigh_start_best [OF Cons.prems, of s]] by simp
qed simp

definition window_starts :: "hit list \<Rightarrow> nat \<Rightarrow> nat set" where
  "window_starts hits limit = (\<lambda>h. ht_start h - limit div 4) ` set hits \<union> ht_start ` set hits"

lemma covered_bounds: "h \<in> set (covered hits start limit) \<Longrightarrow> h \<in> set hits \<and> start \<le> ht_start h \<and> ht_end h \<le> start + limit"
  by (simp add: covered_def)

text \<open>
  C35: A snippet of a text for a query is a window of the text, of at most the limit's length; the
  returned offset lies in that window and in the text, it is where a unit of the query matches when
  one does, and no other window that is examined has a better score.
\<close>

theorem select_snippet_best:
  assumes "select_snippet ip text query limit = Inr (anchor, snippet)"
  shows "\<exists>start. start \<le> anchor \<and> int anchor < int start + limit \<and> anchor \<le> length text
    \<and> snippet = window text start (nat limit) \<and> int (length snippet) \<le> limit + 2
    \<and> (query_hits ip text query = [] \<longrightarrow> anchor = 0)
    \<and> (query_hits ip text query \<noteq> [] \<longrightarrow> anchor \<in> ht_start ` set (query_hits ip text query))
    \<and> (\<forall>s \<in> window_starts (query_hits ip text query) (nat limit).
        score (covered (query_hits ip text query) s (nat limit)) s \<le> score (covered (query_hits ip text query) start (nat limit)) start
        \<or> covered (query_hits ip text query) s (nat limit) = [])"
proof -
  let ?hits = "query_hits ip text query" and ?l = "nat limit"
  let ?starts = "sort (dedup_from [] (map (\<lambda>h. ht_start h - ?l div 4) ?hits @ map ht_start ?hits))"
  have pos: "0 < limit" "int ?l = limit" using assms by (auto simp: select_snippet_def split: if_splits)
  have short: "int (length (window text s ?l)) \<le> limit + 2" for s using window_length [of "text" s ?l] pos by linarith
  show ?thesis
  proof (cases "?hits = []")
    case True
    then have "anchor = 0" "snippet = window text 0 ?l" using assms by (auto simp: select_snippet_def split: if_splits)
    then show ?thesis using True pos short by (auto simp: window_starts_def)
  next
    case False
    have "set ?starts = window_starts ?hits ?l" by (simp add: window_starts_def set_dedup_from)
    then have best: "best_of ?hits ?l (window_starts ?hits ?l) (fold (weigh_start ?hits ?l) ?starts None)"
      using fold_weigh_best [of ?hits ?l "{}" None ?starts] by (simp add: best_of_def)
    show ?thesis
    proof (cases "fold (weigh_start ?hits ?l) ?starts None")
      case None
      then have res: "anchor = first_start ?hits" "snippet = window text (first_start ?hits - ?l div 4) ?l"
        using assms False by (auto simp: select_snippet_def Let_def split: if_splits)
      obtain h where h: "h \<in> set ?hits" "ht_start h = anchor" using first_start_in [OF False] res by auto
      have "?l div 4 < ?l" "anchor \<in> ht_start ` set ?hits" using pos h by force+
      then show ?thesis
        using res h False None best query_hits_bounds [OF h(1)] short pos
        by (intro exI [of _ "anchor - ?l div 4"]) (auto simp: best_of_def)
    next
      case (Some b)
      obtain v start a where b: "b = (v, start, a)" by (cases b) auto
      have res: "anchor = a" "snippet = window text start ?l"
        using assms False Some b by (auto simp: select_snippet_def Let_def split: if_splits)
      have cov: "covered ?hits start ?l \<noteq> []" "a = first_start (covered ?hits start ?l)"
        "\<forall>s \<in> window_starts ?hits ?l. covered ?hits s ?l = [] \<or> score (covered ?hits s ?l) s \<le> score (covered ?hits start ?l) start"
        using best Some b by (auto simp: best_of_def)
      obtain h where h: "h \<in> set (covered ?hits start ?l)" "ht_start h = anchor" using first_start_in [OF cov(1)] cov(2) res by auto
      note hb = covered_bounds [OF h(1)]
      have "anchor \<in> ht_start ` set ?hits" using hb h by force
      then show ?thesis
        using res h(2) cov(3) hb query_hits_bounds [of h ip "text" query] short pos
        by (intro exI [of _ start]) auto
    qed
  qed
qed

definition plain_interp :: interp where
  "plain_interp = \<lparr>py_loads = (\<lambda>_. None), py_repr = (\<lambda>_. []), py_cases = (\<lambda>_. []),
     py_alnum = (\<lambda>c. 97 \<le> c \<and> c \<le> 122), py_digit = (\<lambda>_. False), py_casefold = (\<lambda>s. s), py_unescape = (\<lambda>s. s),
     py_uuid = (\<lambda>_. None), py_number = (\<lambda>_. JNull)\<rparr>"

lemma sample_hits: "query_hits plain_interp (lit ''ab cd ef'') (lit ''cd'') =
    [\<lparr>ht_start = 3, ht_end = 5, ht_unit = 0, ht_weight = 2, ht_phrase = False\<rparr>]"
proof -
  let ?r = "unit_pattern plain_interp [99, 100]"
  have units: "snippet_units plain_interp 32 [] (query_units (take 4096 (lit ''cd''))) = [([99, 100], False)]"
    by (simp add: lit_def py_space_def Let_def unit_value_def trailing_def plain_interp_def)
  have head: "take 128000 (lit ''ab cd ef'') = [97, 98, 32, 99, 100, 32, 101, 102]" by (simp add: lit_def)
  have first: "re_search_from plain_interp True ?r None [97, 98, 32, 99, 100, 32, 101, 102]
      = Some (3, \<lparr>mt_text = [99, 100], mt_groups = [], mt_prev = Some 100, mt_after = [32, 101, 102]\<rparr>)"
    by (simp add: unit_pattern_def word_char_def plain_interp_def re_search_from.simps re_at_def rtext_def rchar_def
        set_match_def skip_def)
  have second: "re_search_from plain_interp True ?r (Some 100) [32, 101, 102] = None"
    by (simp add: unit_pattern_def word_char_def plain_interp_def re_search_from.simps re_at_def rtext_def rchar_def
        set_match_def skip_def)
  have step: "find_spans plain_interp ?r (Suc (Suc 30)) None [97, 98, 32, 99, 100, 32, 101, 102] 0 = [(3, 5)]"
    unfolding find_spans.simps first by (simp add: second)
  moreover have "Suc (Suc 30) = 32" by simp
  ultimately have spans: "find_spans plain_interp ?r 32 None [97, 98, 32, 99, 100, 32, 101, 102] 0 = [(3, 5)]" by metis
  show ?thesis unfolding query_hits_def units by (simp add: unit_hits_def head spans)
qed

lemma sample_snippet: "select_snippet plain_interp (lit ''ab cd ef'') (lit ''cd'') 4 = Inr (3, ellipsis # lit '' cd '' @ [ellipsis])"
  unfolding select_snippet_def sample_hits
  by (simp add: Let_def weigh_start_def covered_def score_def first_start_def window_def lit_def)

lemma select_snippet_best_witness:
  "\<exists>start. start \<le> 3 \<and> (3 :: int) < int start + 4
     \<and> ellipsis # lit '' cd '' @ [ellipsis] = window (lit ''ab cd ef'') start (nat 4)"
  using select_snippet_best [OF sample_snippet] by auto

end
