(* ===== verification/Search.thy ===== *)
theory Search
  imports Snippets Catalog_History "HOL-Library.Product_Lexorder"
begin

text \<open>
  Retrieval from the catalog: the rows a query may see (\<open>scope\<close> of \<open>storage/catalog.py\<close>, with the
  closure of the excluded sessions), full-text and substring search over them, the fusion of ranked
  candidates (\<open>storage/ranking.py\<close>), and the context of a citation. The full-text matcher of SQLite and the
  floating-point operations of the ranking are arguments.
\<close>

section \<open>Sources\<close>

text \<open>
  The rows of \<open>source_defaults\<close> in source order over the built-in defaults; a later entry of the
  dictionary replaces an earlier one in place.
\<close>

definition pi_label :: "pystr \<Rightarrow> pystr" where
  "pi_label s = (if s = lit ''pi-dev'' then lit ''pi-legacy'' else s)"

definition source_defaults :: "catalog \<Rightarrow> (pystr \<times> bool) list" where
  "source_defaults ct = foldl (\<lambda>d (s, b). AList.update (pi_label s) b d)
     [(lit ''pi'', True), (lit ''pi-legacy'', True)] (sort_key fst (ct_defaults ct))"

definition put_default :: "(pystr \<times> bool) list \<Rightarrow> pystr \<times> bool \<Rightarrow> (pystr \<times> bool) list" where
  "put_default rows sb = (case sb of (s, enabled) \<Rightarrow>
     if s = lit ''pi-dev'' \<or> s = lit ''pi-legacy'' then AList.update (lit ''pi-legacy'') enabled (AList.delete (lit ''pi-dev'') rows)
     else AList.update s enabled rows)"

definition configure_sources :: "(pystr \<times> bool) list \<Rightarrow> (catalog, unit) op" where
  "configure_sources defaults ct =
     (if ct_readonly ct then (Inl (PermissionError ''source defaults require a writable primary''), ct)
      else if \<exists>(s, _) \<in> set defaults. s = [] \<or> 64 < length s
        then (Inl (ValueError ''source defaults require source names and booleans''), ct)
      else (Inr (), ct\<lparr>ct_defaults := foldl put_default (ct_defaults ct) defaults, ct_epoch := Suc (ct_epoch ct)\<rparr>))"

definition expand_source :: "pystr \<Rightarrow> pystr list" where
  "expand_source s = (if s = lit ''pi-dev'' \<or> s = lit ''pi-legacy'' then [lit ''pi-dev'', lit ''pi-legacy''] else [s])"

definition expand_sources :: "pystr list \<Rightarrow> pystr list" where
  "expand_sources ss = sort (dedup_from [] (concat (map expand_source ss)))"

definition excluded_sources :: "catalog \<Rightarrow> pystr list" where
  "excluded_sources ct = map fst (filter (\<lambda>sb. \<not> snd sb) (source_defaults ct))"

definition source_scope :: "catalog \<Rightarrow> query \<Rightarrow> json" where
  "source_scope ct q = (case q_sources q of
       Some ss \<Rightarrow> JObj [(lit ''mode'', JStr (lit ''explicit'')),
         (lit ''sources'', JList (map JStr (dedup_from [] (map pi_label ss))))]
     | None \<Rightarrow> JObj [(lit ''mode'', JStr (if q_all_sources q then lit ''all'' else lit ''defaults'')),
         (lit ''excluded_sources'', JList (map JStr (if q_all_sources q then [] else sort (excluded_sources ct))))])"

section \<open>Scope\<close>

text \<open>
  The recursive table of excluded sessions: every new row is queued and its children, the
  sessions whose head names it as parent, are added once.
\<close>

definition children :: "catalog \<Rightarrow> pystr \<Rightarrow> pystr list" where
  "children ct x = filter (\<lambda>sid. case head_row ct sid of None \<Rightarrow> False | Some r \<Rightarrow> rr_parent r = Some x)
     (map fst (ct_heads ct))"

lemma dedup_from_fresh: "set (dedup_from seen xs) \<inter> set seen = {}"
  by (simp add: set_dedup_from Diff_Int_distrib2 Int_commute)

function expand :: "catalog \<Rightarrow> pystr list \<Rightarrow> pystr list \<Rightarrow> pystr list" where
  "expand ct seen [] = seen"
| "expand ct seen (x # queue) = (let new = dedup_from seen (children ct x) in expand ct (seen @ new) (queue @ new))"
  by pat_completeness auto
termination
proof (relation "measures [\<lambda>(ct, seen, queue). card (fst ` set (ct_heads ct) - set seen), \<lambda>(ct, seen, queue). length queue]")
  fix ct :: catalog and seen queue new :: "pystr list" and x
  assume new: "new = dedup_from seen (children ct x)"
  let ?rest = "\<lambda>s. fst ` set (ct_heads ct) - set s"
  have sub: "set new \<subseteq> ?rest seen" unfolding new by (auto simp: set_dedup_from children_def)
  have "card (?rest (seen @ new)) < card (?rest seen)" if "new \<noteq> []"
  proof -
    have "hd new \<in> set new" using that by simp
    then have "hd new \<in> ?rest seen" "hd new \<notin> ?rest (seen @ new)" using sub by auto
    then have "?rest (seen @ new) \<subset> ?rest seen" by auto
    then show ?thesis by (simp add: psubset_card_mono)
  qed
  then show "((ct, seen @ new, queue @ new), (ct, seen, x # queue))
      \<in> measures [\<lambda>(ct, seen, queue). card (fst ` set (ct_heads ct) - set seen), \<lambda>(ct, seen, queue). length queue]"
    by (cases "new = []") simp_all
qed simp

definition excluded :: "catalog \<Rightarrow> pystr list \<Rightarrow> pystr list" where
  "excluded ct ids = (let start = dedup_from [] ids in expand ct start start)"

text \<open>A row of the \<open>events\<close> view joined with its head and its revision.\<close>

record joined =
  jn_row :: evidence_row
  jn_ordinal :: nat
  jn_rev :: revision_row

definition event_view :: "catalog \<Rightarrow> (evidence_row \<times> pystr \<times> nat) list" where
  "event_view ct = concat (map (\<lambda>b. concat (map (\<lambda>sid. concat (map (\<lambda>(k, i).
     if i = er_id b then (case head_of ct sid of None \<Rightarrow> [] | Some rv \<Rightarrow> [(b, rv, k)]) else [])
     (enumerate 0 (active_rows ct sid)))) (dedup_from [] (map fst (ct_active ct))))) (ct_evidence ct))"

definition joined_rows :: "catalog \<Rightarrow> joined list" where
  "joined_rows ct = concat (map (\<lambda>(b, rv, k).
     if head_of ct (er_session b) = Some rv then (case find_revision ct (er_session b) rv of
         None \<Rightarrow> [] | Some r \<Rightarrow> [\<lparr>jn_row = b, jn_ordinal = k, jn_rev = r\<rparr>]) else []) (event_view ct))"

definition instr_lower :: "pystr \<Rightarrow> pystr \<Rightarrow> bool" where
  "instr_lower s p \<longleftrightarrow> contains (sql_lower s) (sql_lower p)"

definition in_sources :: "catalog \<Rightarrow> query \<Rightarrow> revision_row \<Rightarrow> bool" where
  "in_sources ct q r = (case q_sources q of
       Some ss \<Rightarrow> rr_source r \<in> set (expand_sources ss)
     | None \<Rightarrow> q_all_sources q \<or> rr_source r \<notin> set (expand_sources (excluded_sources ct)))"

definition in_project :: "catalog \<Rightarrow> pystr \<Rightarrow> revision_row \<Rightarrow> bool" where
  "in_project ct p r \<longleftrightarrow> instr_lower (rr_project r) p \<or> (\<exists>a \<in> set (ct_aliases ct).
     al_session a = rr_session r \<and> al_project a = rr_project r \<and> instr_lower (al_alias a) p)"

definition when_given :: "pystr option \<Rightarrow> (pystr \<Rightarrow> bool) \<Rightarrow> bool" where
  "when_given v P = (case v of None \<Rightarrow> True | Some s \<Rightarrow> s = [] \<or> P s)"

definition in_scope :: "catalog \<Rightarrow> query \<Rightarrow> joined \<Rightarrow> bool" where
  "in_scope ct q j \<longleftrightarrow> (let b = jn_row j; e = er_event b; r = jn_rev j in
     in_sources ct q r
     \<and> when_given (q_role q) (\<lambda>role. ev_role e = role \<and> (role = lit ''user'' \<longrightarrow> ev_origin e = lit ''user''))
     \<and> when_given (q_project q) (\<lambda>p. in_project ct p r)
     \<and> when_given (q_after q) (\<lambda>t. t \<le> ev_time e) \<and> when_given (q_before q) (\<lambda>t. ev_time e < t)
     \<and> when_given (q_session q) (\<lambda>s. er_session b = s)
     \<and> (q_subagents q \<or> \<not> rr_subagent r)
     \<and> when_given (q_producer q) (\<lambda>p. (er_session b, rr_revision r, p) \<in> set (ct_producers ct))
     \<and> (q_exclude q = [] \<or> er_session b \<notin> set (excluded ct (q_exclude q))))"

section \<open>Ranking\<close>

text \<open>The floating-point constants and operations that the ranking uses.\<close>

record 'f floats =
  fl_nat :: "nat \<Rightarrow> 'f"
  fl_tenth :: 'f
  fl_fifth :: 'f
  fl_two_fifths :: 'f
  fl_three_quarters :: 'f
  fl_mul :: "'f \<Rightarrow> 'f \<Rightarrow> 'f"
  fl_add :: "'f \<Rightarrow> 'f \<Rightarrow> 'f"
  fl_div :: "'f \<Rightarrow> 'f \<Rightarrow> 'f"
  fl_neg :: "'f \<Rightarrow> 'f"

definition SCAFFOLD_RE :: rx where
  "SCAFFOLD_RE = rseq [spaces, rlit ''<'', ralt [rlit ''subagent_notification'', rlit ''system'',
     rlit ''environment_context'', rlit ''turn_aborted''], RWordB]"

definition PLANNING_RE :: rx where
  "PLANNING_RE = rseq [RWordB, ralt [rlit ''plan'', rlit ''planning'', rlit ''next'', rlit ''intend'', rlit ''proposal'',
     rlit ''propose''], RWordB]"

text \<open>The first-person announcements of an assistant; 8217 is the typographic apostrophe, 8212 the dash.\<close>

definition will_forms :: rx where
  "will_forms = ralt [rlit (CHR 0x27 # ''ll''), rtext (8217 # lit ''ll'')]"

definition ANNOUNCE_RE :: rx where
  "ANNOUNCE_RE = RSeq (ralt
     [RSeq (rlit ''I'') (ralt [rlit (CHR 0x27 # ''m''), rtext (8217 # lit ''m''), rlit '' am'', rlit '' will'',
        rlit (CHR 0x27 # ''ll''), rtext (8217 # lit ''ll'')]),
      rlit ''Let me'',
      rseq [rlit ''Yes'', RRep True 1 None False (Range 8212 8212 # chars '', ''), rlit ''I'', will_forms],
      RSeq (rlit ''The next '') (ralt [rlit ''step'', rlit ''layer''])]) RWordB"

definition mrr :: rx where
  "mrr = rseq [RWordB, rlit ''MRR'', RWordB]"

definition BENCHMARK_RE :: rx where
  "BENCHMARK_RE = ralt [rlit ''gold set'', rlit ''benchmark'', rlit ''recall@'', mrr]"

definition EVALUATION_RE :: rx where
  "EVALUATION_RE = ralt [rlit ''benchmark'', rlit ''evaluat'', rlit ''ranking'', rlit ''recall'', mrr]"

text \<open>\<open>len(text.split())\<close>.\<close>

fun word_count :: "bool \<Rightarrow> pystr \<Rightarrow> nat" where
  "word_count inside [] = 0"
| "word_count inside (c # s) = (if py_space c then word_count False s
     else (if inside then 0 else 1) + word_count True s)"

definition evidence_weight :: "interp \<Rightarrow> 'f floats \<Rightarrow> pystr \<Rightarrow> pystr \<Rightarrow> query \<Rightarrow> 'f" where
  "evidence_weight ip fl txt role q =
     (let q_found = (\<lambda>r. re_search ip True r (q_text q) \<noteq> None);
          w = (if nonempty_opt (q_role q) then fl_nat fl 1
               else if role = lit ''tool'' \<or> role = lit ''context'' then fl_fifth fl
               else if role = lit ''user'' then fl_three_quarters fl else fl_nat fl 1);
          w = (if re_match ip False SCAFFOLD_RE txt \<noteq> None then fl_mul fl w (fl_tenth fl) else w);
          w = (if role = lit ''tool'' \<and> 5 \<le> word_count False (q_text q)
                 \<and> contains (py_casefold ip txt) (py_casefold ip (q_text q)) then fl_mul fl w (fl_tenth fl) else w);
          w = (if role = lit ''assistant'' \<and> \<not> q_found PLANNING_RE \<and> re_match ip False ANNOUNCE_RE txt \<noteq> None
               then fl_mul fl w (fl_two_fifths fl) else w) in
      if re_search ip True BENCHMARK_RE txt \<noteq> None \<and> \<not> q_found EVALUATION_RE then fl_mul fl w (fl_fifth fl) else w)"

text \<open>A search result; results of other channels may carry further fields.\<close>

record 'f search_hit =
  sh_cite :: citation
  sh_role :: pystr
  sh_time :: pystr
  sh_origin :: pystr
  sh_excerpt :: pystr
  sh_project :: pystr
  sh_title :: pystr
  sh_score :: 'f
  sh_weight :: "'f option"

type_synonym rank_key = "pystr \<times> pystr \<times> pystr"

definition hit_key :: "('f, 'a) search_hit_scheme \<Rightarrow> rank_key" where
  "hit_key h = (cite_session (sh_cite h), cite_revision (sh_cite h), cite_event (sh_cite h))"

definition lookup_or :: "('k \<times> 'v) list \<Rightarrow> 'k \<Rightarrow> 'v \<Rightarrow> 'v" where
  "lookup_or d k v = (case map_of d k of None \<Rightarrow> v | Some w \<Rightarrow> w)"

record ('f, 'h) fusion =
  fu_merged :: "(rank_key \<times> 'h) list"
  fu_scores :: "(rank_key \<times> 'f) list"
  fu_best :: "(rank_key \<times> 'f) list"

definition fuse :: "'f :: linorder floats \<Rightarrow> nat \<times> ('f, 'a) search_hit_scheme
    \<Rightarrow> ('f, ('f, 'a) search_hit_scheme) fusion \<Rightarrow> ('f, ('f, 'a) search_hit_scheme) fusion" where
  "fuse fl rh fu = (case rh of (rank, h) \<Rightarrow>
     let key = hit_key h; c = fl_div fl (fl_nat fl 1) (fl_nat fl (1 + rank));
         fu = (if lookup_or (fu_best fu) key (fl_nat fl 0) < c
           then fu\<lparr>fu_merged := AList.update key h (fu_merged fu), fu_best := AList.update key c (fu_best fu)\<rparr> else fu) in
     fu\<lparr>fu_scores := AList.update key (fl_add fl (lookup_or (fu_scores fu) key (fl_nat fl 0)) c) (fu_scores fu)\<rparr>)"

text \<open>
  The greedy order that discounts a session by the number of its passages already chosen.
\<close>

lemma arg_min_list_mem: "xs \<noteq> [] \<Longrightarrow> arg_min_list (f :: 'a \<Rightarrow> 'b :: linorder) xs \<in> set xs"
  by (induction f xs rule: arg_min_list.induct) (auto simp: Let_def)

definition discounted :: "'f :: linorder floats \<Rightarrow> pystr \<Rightarrow> (rank_key \<times> 'f) list \<Rightarrow> (pystr \<times> nat) list \<Rightarrow> rank_key
    \<Rightarrow> bool \<times> 'f \<times> rank_key" where
  "discounted fl pin scores seen key = (fst key \<noteq> pin,
     fl_div fl (fl_neg fl (lookup_or scores key (fl_nat fl 0))) (fl_nat fl (1 + lookup_or seen (fst key) 0)), key)"

function balance :: "'f :: linorder floats \<Rightarrow> pystr \<Rightarrow> (rank_key \<times> 'f) list \<Rightarrow> (pystr \<times> nat) list \<Rightarrow> rank_key list
    \<Rightarrow> rank_key list" where
  "balance fl pin scores seen remaining = (if remaining = [] then [] else
     (let key = arg_min_list (discounted fl pin scores seen) remaining in
      key # balance fl pin scores (AList.update (fst key) (lookup_or seen (fst key) 0 + 1) seen) (remove1 key remaining)))"
  by pat_completeness auto
termination
  by (relation "measure (\<lambda>(fl, pin, scores, seen, remaining). length remaining)")
     (auto simp: length_remove1 arg_min_list_mem)

declare balance.simps [simp del]

definition rank_results :: "'f :: linorder floats \<Rightarrow> query \<Rightarrow> ('f, 'a) search_hit_scheme list \<Rightarrow> ('f, 'a) search_hit_scheme list
    \<Rightarrow> ('f, 'a) search_hit_scheme list" where
  "rank_results fl q lexical semantic =
     (let fu = foldl (\<lambda>fu rh. fuse fl rh fu) \<lparr>fu_merged = [], fu_scores = [], fu_best = []\<rparr>
            (enumerate 1 lexical @ enumerate 1 semantic);
          weighted = map (\<lambda>(k, s). (k, case map_of (fu_merged fu) k of None \<Rightarrow> s
            | Some h \<Rightarrow> fl_mul fl s (case sh_weight h of None \<Rightarrow> fl_nat fl 1 | Some w \<Rightarrow> w))) (fu_scores fu);
          pin = strip (q_text q);
          ordered = sort_key (\<lambda>k. (fst k \<noteq> pin, fl_neg fl (lookup_or weighted k (fl_nat fl 0)), k)) (map fst weighted);
          ordered = (if nonempty_opt (q_session q) then ordered else balance fl pin weighted [] ordered) in
      map (\<lambda>k. (the (map_of (fu_merged fu) k))\<lparr>sh_weight := None, sh_score := lookup_or weighted k (fl_nat fl 0)\<rparr>) ordered)"

section \<open>Search\<close>

text \<open>
  SQLite's matchers: the rank of a row of the full-text index for a query expression, if it
  matches, and whether a text is a candidate of the trigram index for an expression.
\<close>

record 'f search_env =
  se_match :: "(nat \<times> pystr) list \<Rightarrow> pystr \<Rightarrow> nat \<Rightarrow> 'f option"
  se_literal :: "pystr \<Rightarrow> pystr \<Rightarrow> bool"
  se_ready :: bool
  se_floats :: "'f floats"

definition match_rank :: "interp \<Rightarrow> 'f search_env \<Rightarrow> catalog \<Rightarrow> query \<Rightarrow> joined \<Rightarrow> 'f option" where
  "match_rank ip env ct q j = (let txt = ev_text (er_event (jn_row j)) in
     if q_literal q then
       (if instr_lower txt (q_text q)
          \<and> (terms (q_text q) \<noteq> [] \<and> se_ready env \<longrightarrow> se_literal env (terms (q_text q)) txt \<or> 0 \<in> set txt)
        then Some (fl_nat (se_floats env) 0) else None)
     else if er_id (jn_row j) \<in> fst ` set (ct_fts ct)
       then se_match env (ct_fts ct) (fts_expression (q_text q)) (er_id (jn_row j)) else None)"

text \<open>\<open>ORDER BY rank, timestamp DESC, session_id, ordinal\<close>, least significant key first.\<close>

definition order_rows :: "('f :: linorder \<times> joined) list \<Rightarrow> ('f \<times> joined) list" where
  "order_rows rows = sort_key fst (rev (sort_key (\<lambda>x. ev_time (er_event (jn_row (snd x))))
     (rev (sort_key (\<lambda>x. (er_session (jn_row (snd x)), jn_ordinal (snd x))) rows))))"

definition matching_rows :: "interp \<Rightarrow> 'f :: linorder search_env \<Rightarrow> catalog \<Rightarrow> query \<Rightarrow> ('f \<times> joined) list" where
  "matching_rows ip env ct q = concat (map (\<lambda>j. case match_rank ip env ct q j of None \<Rightarrow> [] | Some r \<Rightarrow> [(r, j)])
     (filter (in_scope ct q) (joined_rows ct)))"

definition hit_of :: "interp \<Rightarrow> 'f :: linorder search_env \<Rightarrow> query \<Rightarrow> 'f \<times> joined \<Rightarrow> 'f search_hit" where
  "hit_of ip env q rj = (case rj of (r, j) \<Rightarrow> let b = jn_row j; e = er_event b in
     \<lparr>sh_cite = \<lparr>cite_session = er_session b, cite_revision = rr_revision (jn_rev j), cite_event = ev_id e,
        cite_offset = match_offset ip (ev_text e) (q_text q)\<rparr>,
      sh_role = ev_role e, sh_time = ev_time e, sh_origin = ev_origin e,
      sh_excerpt = excerpt ip (ev_text e) (q_text q) 800, sh_project = rr_project (jn_rev j),
      sh_title = rr_title (jn_rev j), sh_score = fl_neg (se_floats env) r,
      sh_weight = (if q_literal q then None else Some (evidence_weight ip (se_floats env) (ev_text e) (ev_role e) q))\<rparr>)"

record status =
  st_sessions :: nat
  st_events :: nat
  st_publication :: pystr
  st_defaults :: "(pystr \<times> bool) list"
  st_sources :: "(pystr \<times> nat \<times> nat) list"

definition head_rows :: "catalog \<Rightarrow> revision_row list" where
  "head_rows ct = concat (map (\<lambda>(sid, rv). case find_revision ct sid rv of None \<Rightarrow> [] | Some r \<Rightarrow> [r]) (ct_heads ct))"

definition publication :: "catalog \<Rightarrow> pystr" where
  "publication ct = ct_identity ct @ lit '':'' @ show_int (int (ct_epoch ct))"

definition catalog_status :: "catalog \<Rightarrow> status" where
  "catalog_status ct = (let rs = head_rows ct in
     \<lparr>st_sessions = length rs, st_events = sum_list (map rr_count rs), st_publication = publication ct,
      st_defaults = source_defaults ct,
      st_sources = map (\<lambda>s. let ts = filter (\<lambda>r. pi_label (rr_source r) = s) rs in
        (s, length ts, sum_list (map rr_count ts))) (dedup_from [] (map (pi_label \<circ> rr_source) rs))\<rparr>)"

record 'f search_response =
  sp_ok :: bool
  sp_results :: "'f search_hit list"
  sp_more :: bool
  sp_coverage :: status
  sp_scope :: json

definition search :: "interp \<Rightarrow> 'f :: linorder search_env \<Rightarrow> catalog \<Rightarrow> query \<Rightarrow> bool \<Rightarrow> 'f search_response" where
  "search ip env ct q raw_candidates =
     (let limit = nat (q_limit q);
          n = (if q_literal q \<or> raw_candidates then limit else max limit 50);
          rows = take (n + 1) (order_rows (matching_rows ip env ct q));
          results = map (hit_of ip env q) (take n rows);
          results = (if q_literal q \<or> raw_candidates then results
            else take limit (rank_results (se_floats env) q results [])) in
      \<lparr>sp_ok = results \<noteq> [], sp_results = results, sp_more = limit < length rows,
       sp_coverage = catalog_status ct, sp_scope = source_scope ct q\<rparr>)"

section \<open>Context\<close>

definition legacy_citations :: "catalog \<Rightarrow> pystr \<Rightarrow> citation list result" where
  "legacy_citations ct locator =
     (let rows = take 101 (sort_key lg_event (filter (\<lambda>r. lg_locator r = locator) (ct_legacy ct))) in
      if 100 < length rows \<or> 1 < card (set (map lg_session rows))
      then Inl (ValueError ''legacy locator is ambiguous or too broad; use a specific event citation'')
      else mapR (\<lambda>r. make_citation (JStr (lg_session r)) (JStr (lg_revision r)) (JStr (lg_event r)) (JInt 0)) rows)"

text \<open>A text is compared with the locators as SQLite does with a parameter of another type.\<close>

definition locator_text :: "json \<Rightarrow> pystr option result" where
  "locator_text v = (case v of JStr s \<Rightarrow> Inr (Some s) | JNull \<Rightarrow> Inr None | JBool b \<Rightarrow> Inr (Some (show_int (of_bool b)))
     | JInt i \<Rightarrow> Inr (Some (show_int i)) | _ \<Rightarrow> Inl (DatabaseError ''unsupported type''))"

datatype context_item =
    CtxLocator json
  | CtxMissing citation
  | CtxEvents citation "(event \<times> nat option) list"

text \<open>
  The requested values: a citation object, or a dictionary, which is a locator or the
  members of a citation. The result has the unavailable locators and the resolved citations.
\<close>

fun resolve :: "catalog \<Rightarrow> (citation + (pystr \<times> json) list) list \<Rightarrow> (context_item list \<times> citation list) result" where
  "resolve ct [] = Inr ([], [])"
| "resolve ct (v # vs) =
     bindR (case v of
         Inl c \<Rightarrow> Inr ([], [c])
       | Inr kvs \<Rightarrow> if set (map fst kvs) = {lit ''legacy_locator''}
           then (let l = field_or kvs ''legacy_locator'' JNull in
             bindR (locator_text l) (\<lambda>t. bindR (case t of None \<Rightarrow> Inr [] | Some s \<Rightarrow> legacy_citations ct s) (\<lambda>ms.
               Inr (if ms = [] then [CtxLocator l] else [], ms))))
           else bindR (citation_of_dict kvs) (\<lambda>c. Inr ([], [c])))
       (\<lambda>(a, cs). bindR (resolve ct vs) (\<lambda>(b, ds). Inr (a @ b, cs @ ds)))"

definition cited_event :: "citation \<Rightarrow> event \<Rightarrow> (event \<times> nat option) result" where
  "cited_event c e =
     (if ev_id e \<noteq> cite_event c then Inr (e, None)
      else if length (ev_text e) < cite_offset c then Inl (ValueError ''citation offset is outside the cited event'')
      else if 4096 < length (ev_text e)
        then (let start = cite_offset c - 256 in Inr (e\<lparr>ev_text := take 4096 (drop start (ev_text e))\<rparr>, Some start))
      else Inr (e, None))"

definition find_index :: "('a \<Rightarrow> bool) \<Rightarrow> 'a list \<Rightarrow> nat option" where
  "find_index P xs = (let n = length (takeWhile (\<lambda>x. \<not> P x) xs) in if n < length xs then Some n else None)"

definition context_of :: "catalog \<Rightarrow> nat \<Rightarrow> citation \<Rightarrow> context_item result" where
  "context_of ct neighbors c =
     (let ids = revision_event_ids ct (cite_session c) (cite_revision c);
          cands = map er_id (filter (\<lambda>b. er_session b = cite_session c \<and> ev_id (er_event b) = cite_event c) (ct_evidence ct)) in
      case find_index (\<lambda>i. i \<in> set cands) ids of
        None \<Rightarrow> Inr (CtxMissing c)
      | Some p \<Rightarrow> bindR (read_events ct (take (p + neighbors + 1 - (p - neighbors)) (drop (p - neighbors) ids)))
          (\<lambda>evs. bindR (mapR (cited_event c) evs) (\<lambda>evs. Inr (CtxEvents c evs))))"

definition context_items :: "catalog \<Rightarrow> (citation + (pystr \<times> json) list) list \<Rightarrow> int \<Rightarrow> context_item list result" where
  "context_items ct values neighbors =
     (if 100 < length values \<or> \<not> (0 \<le> neighbors \<and> neighbors \<le> 10)
        then Inl (ValueError ''context accepts at most 100 citations and 0-10 neighbors'')
      else bindR (resolve ct values) (\<lambda>(missing, resolved).
        if 100 < length resolved then Inl (ValueError ''expanded legacy context exceeds 100 events; narrow the request'')
        else bindR (mapR (context_of ct (nat neighbors)) resolved) (\<lambda>items. Inr (missing @ items))))"

text \<open>The status of the response.\<close>

definition item_ok :: "context_item \<Rightarrow> bool" where
  "item_ok i = (case i of CtxEvents _ _ \<Rightarrow> True | _ \<Rightarrow> False)"

definition context_partial :: "context_item list \<Rightarrow> bool" where
  "context_partial items \<longleftrightarrow> \<not> list_all item_ok items"

end
