(* ===== verification/Retrieval.thy ===== *)
theory Retrieval
  imports Search Complex_Main
begin

text \<open>
  Facts of retrieval: the recursive exclusion is the transitive closure over parents, the trigram
  index changes no result, the fusion of ranked candidates is a permutation of their keys,
  results stay in scope and their citations resolve.
\<close>

section \<open>Excluded sessions\<close>

text \<open>The reference: a named session, and every session whose head has an excluded parent.\<close>

inductive is_excluded :: "catalog \<Rightarrow> pystr list \<Rightarrow> pystr \<Rightarrow> bool" for ct ids where
  named: "x \<in> set ids \<Longrightarrow> is_excluded ct ids x"
| child: "is_excluded ct ids x \<Longrightarrow> head_row ct y = Some r \<Longrightarrow> rr_parent r = Some x \<Longrightarrow> is_excluded ct ids y"

lemma children_iff: "y \<in> set (children ct x) \<longleftrightarrow> (\<exists>r. head_row ct y = Some r \<and> rr_parent r = Some x)"
proof -
  have "y \<in> fst ` set (ct_heads ct)" if "head_row ct y = Some r" for r
    using that by (force simp: head_row_def head_of_def bind_eq_Some_conv dest: map_of_SomeD)
  then show ?thesis by (auto simp: children_def split: option.splits)
qed

lemma expand_contains: "set seen \<subseteq> set (expand ct seen queue)"
  by (induction ct seen queue rule: expand.induct) (auto simp: Let_def)

lemma expand_closed:
  assumes "\<forall>x \<in> set seen - set queue. set (children ct x) \<subseteq> set seen" "x \<in> set (expand ct seen queue)"
  shows "set (children ct x) \<subseteq> set (expand ct seen queue)"
  using assms
proof (induction ct seen queue rule: expand.induct)
  case (2 ct seen y queue)
  let ?new = "dedup_from seen (children ct y)"
  have "\<forall>x \<in> set (seen @ ?new) - set (queue @ ?new). set (children ct x) \<subseteq> set (seen @ ?new)"
    using "2.prems"(1) by (auto simp: set_dedup_from)
  from "2.IH" [OF refl this] "2.prems"(2) show ?case by (simp add: Let_def)
qed simp

lemma expand_least:
  assumes "set seen \<subseteq> S" "set queue \<subseteq> S" "\<And>x. x \<in> S \<Longrightarrow> set (children ct x) \<subseteq> S"
  shows "set (expand ct seen queue) \<subseteq> S"
  using assms
proof (induction ct seen queue rule: expand.induct)
  case (2 ct seen y queue)
  have "set (dedup_from seen (children ct y)) \<subseteq> S" using "2.prems"(2,3) by (auto simp: set_dedup_from)
  with "2.IH" [OF refl] "2.prems" show ?case by (simp add: Let_def)
qed simp

lemma excluded_iff: "x \<in> set (excluded ct ids) \<longleftrightarrow> is_excluded ct ids x"
proof
  have step: "set (children ct y) \<subseteq> {x. is_excluded ct ids x}" if "y \<in> {x. is_excluded ct ids x}" for y
    using that by (auto simp: children_iff intro: is_excluded.child)
  have "set (dedup_from [] ids) \<subseteq> {x. is_excluded ct ids x}"
    by (auto simp: set_dedup_from intro: is_excluded.named)
  with expand_least [OF this this step] show "x \<in> set (excluded ct ids) \<Longrightarrow> is_excluded ct ids x"
    by (auto simp: excluded_def Let_def)
next
  assume "is_excluded ct ids x"
  then show "x \<in> set (excluded ct ids)"
  proof induction
    case (named x)
    then show ?case using expand_contains [of "dedup_from [] ids"] by (auto simp: excluded_def Let_def set_dedup_from)
  next
    case (child x y r)
    then have "y \<in> set (children ct x)" by (auto simp: children_iff)
    with expand_closed [of "dedup_from [] ids" "dedup_from [] ids" ct x] child.IH show ?case
      by (auto simp: excluded_def Let_def)
  qed
qed

text \<open>
  C33: The sessions that a query excludes are exactly the named ones and their descendants:
  the recursive table of the search statement computes the closure, cycles of parents included.
\<close>

theorem excluded_is_closure: "x \<in> set (excluded ct ids) \<longleftrightarrow> is_excluded ct ids x"
  by (rule excluded_iff)

section \<open>The trigram index\<close>

text \<open>
  What is relied on of the index: a text without NUL is a candidate for a conjunction of
  strings of three printable characters when each of them occurs in it, whatever its case.
\<close>

definition trigram_finds :: "(pystr \<Rightarrow> pystr \<Rightarrow> bool) \<Rightarrow> bool" where
  "trigram_finds cand \<longleftrightarrow> (\<forall>ts txt. 0 \<notin> set txt
     \<and> (\<forall>t \<in> set ts. length t = 3 \<and> list_all printable t \<and> contains (sql_lower txt) t)
     \<longrightarrow> cand (join (lit '' AND '') (map fts_quote ts)) txt)"

lemma contains_parts: "contains s p \<longleftrightarrow> (\<exists>a b. s = a @ p @ b)"
proof
  assume "contains s p"
  then show "\<exists>a b. s = a @ p @ b" by (auto simp: contains_def dest: break_at_join)
next
  assume "\<exists>a b. s = a @ p @ b"
  then obtain a b where "s = a @ p @ b" by blast
  then show "contains s p"
  proof (induction a arbitrary: s)
    case Nil
    then show ?case by (simp add: contains_def break_at.simps starts_with_def)
  next
    case (Cons c a)
    then have "contains (a @ p @ b) p" by blast
    then show ?case using Cons.prems by (simp add: contains_def) (subst break_at.simps, auto)
  qed
qed

lemma contains_trans: "contains s p \<Longrightarrow> contains p t \<Longrightarrow> contains s t"
proof -
  assume "contains s p" "contains p t"
  then obtain a b c d where "s = a @ p @ b" "p = c @ t @ d" by (auto simp: contains_parts)
  then have "s = (a @ c) @ t @ (d @ b)" by simp
  then show ?thesis unfolding contains_parts by blast
qed

lemma printable_lower: "printable c \<Longrightarrow> printable (ascii_lower c)"
  by (auto simp: printable_def ascii_lower_def)

lemma triples_from_parts:
  assumes "t \<in> set (triples_from n seen s)"
  shows "t \<in> set seen \<or> (length t = 3 \<and> list_all printable t \<and> contains (sql_lower s) t)"
  using assms
proof (induction n seen s rule: triples_from.induct)
  case (1 n seen a b c s)
  have here: "contains (sql_lower (a # b # c # s)) (sql_lower [a, b, c])"
    unfolding contains_parts by (rule exI [of _ "[]"], rule exI [of _ "sql_lower s"]) simp
  have later: "contains (sql_lower (a # b # c # s)) (sql_lower (b # c # s))"
    unfolding contains_parts by (rule exI [of _ "[ascii_lower a]"], rule exI [of _ "[]"]) simp
  show ?case
    using "1.prems" "1.IH" [OF refl] here contains_trans [OF later] printable_lower
    by (auto simp: Let_def split: if_splits)
qed auto

lemma trigram_candidate:
  assumes "trigram_finds cand" "instr_lower txt q"
  shows "cand (terms q) txt \<or> 0 \<in> set txt"
proof (cases "0 \<in> set txt")
  case False
  have "length t = 3 \<and> list_all printable t \<and> contains (sql_lower txt) t" if "t \<in> set (triples q)" for t
    using triples_from_parts [of t 8 "[]" q] that assms(2) contains_trans
    by (auto simp: triples_def instr_lower_def)
  then show ?thesis using assms(1) False by (simp add: trigram_finds_def terms_def)
qed simp

text \<open>
  C32: A substring search gives the results of a scan of every visible event: the trigram index,
  when it is there, narrows the candidates without losing a match, whatever the case, the length
  and the characters of the query.
\<close>

theorem literal_search_exact:
  assumes "trigram_finds (se_literal env)" "q_literal q"
  shows "sp_results (search ip env ct q raw) = map (hit_of ip env q) (take (nat (q_limit q))
    (order_rows (map (Pair (fl_nat (se_floats env) 0))
      (filter (\<lambda>j. in_scope ct q j \<and> instr_lower (ev_text (er_event (jn_row j))) (q_text q)) (joined_rows ct)))))"
proof -
  have "concat (map (\<lambda>j. case match_rank ip env ct q j of None \<Rightarrow> [] | Some r \<Rightarrow> [(r, j)]) (filter (in_scope ct q) js))
      = map (Pair (fl_nat (se_floats env) 0))
          (filter (\<lambda>j. in_scope ct q j \<and> instr_lower (ev_text (er_event (jn_row j))) (q_text q)) js)" for js
    using trigram_candidate [OF assms(1)] assms(2) by (induction js) (auto simp: match_rank_def Let_def)
  then show ?thesis using assms(2) by (simp add: search_def Let_def matching_rows_def min_def)
qed

section \<open>Fusion of ranked candidates\<close>

text \<open>Of the floating-point operations only this is relied on: a reciprocal rank is positive.\<close>

definition ranks_positive :: "'f :: linorder floats \<Rightarrow> nat \<Rightarrow> bool" where
  "ranks_positive fl n \<longleftrightarrow> list_all (\<lambda>k. fl_nat fl 0 < fl_div fl (fl_nat fl 1) (fl_nat fl (1 + k))) [1..<Suc n]"

definition fused :: "('f, 'a) search_hit_scheme list \<Rightarrow> ('f, ('f, 'a) search_hit_scheme) fusion \<Rightarrow> bool" where
  "fused hs fu \<longleftrightarrow> fst ` set (fu_scores fu) = hit_key ` set hs \<and> distinct (map fst (fu_scores fu))
     \<and> fst ` set (fu_merged fu) = hit_key ` set hs \<and> fst ` set (fu_best fu) = hit_key ` set hs
     \<and> (\<forall>k h. map_of (fu_merged fu) k = Some h \<longrightarrow> h \<in> set hs \<and> hit_key h = k)"

lemma keys_update: "fst ` set (AList.update k v d) = insert k (fst ` set d)"
  using dom_update [of k v d] by (simp add: dom_map_of_conv_image_fst)

lemma fuse_fused:
  assumes "fused hs fu" "fl_nat fl 0 < fl_div fl (fl_nat fl 1) (fl_nat fl (1 + n))"
  shows "fused (hs @ [h]) (fuse fl (n, h) fu)"
proof -
  have new: "lookup_or (fu_best fu) (hit_key h) (fl_nat fl 0) < fl_div fl (fl_nat fl 1) (fl_nat fl (1 + n))"
    if "hit_key h \<notin> hit_key ` set hs"
  proof -
    have "map_of (fu_best fu) (hit_key h) = None" using that assms(1) by (simp add: fused_def map_of_eq_None_iff)
    then show ?thesis using assms(2) by (simp add: lookup_or_def)
  qed
  have old: "insert (hit_key h) (hit_key ` set hs) = hit_key ` set hs" if "hit_key h \<in> hit_key ` set hs"
    using that by (rule insert_absorb)
  show ?thesis
    using assms(1) new old
    by (cases "hit_key h \<in> hit_key ` set hs") (auto simp: fused_def fuse_def Let_def keys_update update_conv' distinct_update)
qed

lemma fold_fuse:
  assumes "fused hs fu" "list_all (\<lambda>k. fl_nat fl 0 < fl_div fl (fl_nat fl 1) (fl_nat fl (1 + k))) (map fst ps)"
  shows "fused (hs @ map snd ps) (foldl (\<lambda>fu rh. fuse fl rh fu) fu ps)"
  using assms
proof (induction ps arbitrary: hs fu)
  case (Cons p ps)
  obtain n h where p: "p = (n, h)" by (cases p)
  from fuse_fused [OF Cons.prems(1), of fl n h] Cons.prems(2) p Cons.IH [of "hs @ [h]"] show ?case by simp
qed simp

lemma fuse_all:
  assumes "ranks_positive fl (max (length xs) (length ys))"
  shows "fused (xs @ ys) (foldl (\<lambda>fu rh. fuse fl rh fu) \<lparr>fu_merged = [], fu_scores = [], fu_best = []\<rparr>
    (enumerate 1 xs @ enumerate 1 ys))"
proof -
  have "fused [] \<lparr>fu_merged = [], fu_scores = [], fu_best = []\<rparr>" by (simp add: fused_def)
  moreover have "list_all (\<lambda>k. fl_nat fl 0 < fl_div fl (fl_nat fl 1) (fl_nat fl (1 + k)))
      (map fst (enumerate 1 xs @ enumerate 1 ys))"
    unfolding map_append map_fst_enumerate list_all_iff
    using assms unfolding ranks_positive_def list_all_iff by (auto simp del: upt_Suc)
  ultimately show ?thesis using fold_fuse [of "[]"] by fastforce
qed

text \<open>The greedy order is a permutation that begins with the passages of the pinned session.\<close>

lemma discounted_pin:
  "discounted fl pin scores seen k \<le> discounted fl pin scores seen l \<Longrightarrow> fst l = pin \<Longrightarrow> fst k = pin"
  by (auto simp: discounted_def less_eq_prod_def)

lemma arg_min_list_least:
  assumes "x \<in> set xs"
  shows "f (arg_min_list f xs) \<le> (f x :: 'b :: linorder)"
proof -
  have "xs \<noteq> []" using assms by auto
  then have "f (arg_min_list f xs) = Min (f ` set xs)" by (rule f_arg_min_list_f)
  then show ?thesis using assms by simp
qed

lemma balance_permutes:
  "mset (balance fl pin scores seen remaining) = mset remaining
   \<and> sorted_wrt (\<lambda>k l. fst l = pin \<longrightarrow> fst k = pin) (balance fl pin scores seen remaining)"
proof (induction fl pin scores seen remaining rule: balance.induct)
  case (1 fl pin scores seen remaining)
  show ?case
  proof (cases "remaining = []")
    case False
    let ?k = "arg_min_list (discounted fl pin scores seen) remaining"
    have mem: "?k \<in> set remaining" using arg_min_list_mem [OF False] .
    have first: "fst l = pin \<longrightarrow> fst ?k = pin" if "l \<in> set remaining" for l
      using discounted_pin [OF arg_min_list_least [where f = "discounted fl pin scores seen", OF that]] by blast
    note IH = "1.IH" [OF False refl]
    have "set (balance fl pin scores (AList.update (fst ?k) (lookup_or seen (fst ?k) 0 + 1) seen) (remove1 ?k remaining))
        \<subseteq> set remaining"
      using IH by (metis mset_eq_setD set_remove1_subset)
    then show ?thesis
      using IH False mem first by (subst (1 2) balance.simps) (auto simp: Let_def)
  qed (simp add: balance.simps)
qed

lemma sort_pin:
  "sorted_wrt (\<lambda>k l. fst l = pin \<longrightarrow> fst k = pin) (sort_key (\<lambda>k. (fst k \<noteq> pin, f k, k)) (ks :: ('k :: linorder \<times> 'v :: linorder) list))"
proof -
  have "sorted_wrt (\<lambda>k l. (fst k \<noteq> pin, f k, k) \<le> (fst l \<noteq> pin, f l, l)) (sort_key (\<lambda>k. (fst k \<noteq> pin, f k, k)) ks)"
    using sorted_sort_key [of "\<lambda>k. (fst k \<noteq> pin, f k, k)" ks] by (simp add: sorted_wrt_map)
  then show ?thesis by (rule sorted_wrt_mono_rel [rotated]) (auto simp: less_eq_prod_def)
qed

definition same_hit :: "('f, 'a) search_hit_scheme \<Rightarrow> ('f, 'a) search_hit_scheme \<Rightarrow> bool" where
  "same_hit h r \<longleftrightarrow> r = h\<lparr>sh_weight := None, sh_score := sh_score r\<rparr>"

lemma rank_results_facts:
  fixes fl :: "'f :: linorder floats" and xs ys :: "('f, 'a) search_hit_scheme list"
  assumes "ranks_positive fl (max (length xs) (length ys))"
  shows "distinct (map hit_key (rank_results fl q xs ys))
    \<and> set (map hit_key (rank_results fl q xs ys)) = hit_key ` (set xs \<union> set ys)
    \<and> (\<forall>r \<in> set (rank_results fl q xs ys). \<exists>h \<in> set xs \<union> set ys. same_hit h r)
    \<and> sorted_wrt (\<lambda>a b. cite_session (sh_cite b) = strip (q_text q) \<longrightarrow> cite_session (sh_cite a) = strip (q_text q))
        (rank_results fl q xs ys)"
proof -
  define fu where "fu = foldl (\<lambda>fu rh. fuse fl rh fu) \<lparr>fu_merged = [], fu_scores = [], fu_best = []\<rparr>
    (enumerate 1 xs @ enumerate 1 ys)"
  have fused: "fused (xs @ ys) fu" unfolding fu_def by (rule fuse_all [OF assms])
  define weighted where "weighted = map (\<lambda>(k, s). (k, case map_of (fu_merged fu) k of None \<Rightarrow> s
     | Some h \<Rightarrow> fl_mul fl s (case sh_weight h of None \<Rightarrow> fl_nat fl 1 | Some w \<Rightarrow> w))) (fu_scores fu)"
  have keys: "map fst weighted = map fst (fu_scores fu)" by (auto simp: weighted_def)
  define pin where "pin = strip (q_text q)"
  define key where "key = (\<lambda>k. (fst k \<noteq> pin, fl_neg fl (lookup_or weighted k (fl_nat fl 0)), k))"
  define ks where "ks = (if nonempty_opt (q_session q) then sort_key key (map fst weighted)
     else balance fl pin weighted [] (sort_key key (map fst weighted)))"
  define out where "out = (\<lambda>k. (the (map_of (fu_merged fu) k))\<lparr>sh_weight := None, sh_score := lookup_or weighted k (fl_nat fl 0)\<rparr>)"
  have rs: "rank_results fl q xs ys = map out ks"
    unfolding rank_results_def Let_def ks_def out_def key_def weighted_def pin_def fu_def by (rule refl)
  have "mset ks = mset (map fst weighted)" unfolding ks_def using balance_permutes [of fl pin weighted "[]"] by auto
  then have ks: "mset ks = mset (map fst (fu_scores fu))" using keys by simp
  have dist: "distinct ks" using fused mset_eq_imp_distinct_iff [OF ks] by (simp add: fused_def)
  have set_ks: "set ks = hit_key ` (set xs \<union> set ys)"
    using fused mset_eq_setD [OF ks] by (auto simp: fused_def)
  have found: "\<exists>h \<in> set xs \<union> set ys. map_of (fu_merged fu) k = Some h \<and> hit_key h = k" if "k \<in> set ks" for k
  proof -
    have "k \<in> fst ` set (fu_merged fu)" using that set_ks fused by (auto simp: fused_def)
    then obtain h where "map_of (fu_merged fu) k = Some h" by (metis map_of_eq_None_iff not_None_eq)
    moreover have "\<forall>k h. map_of (fu_merged fu) k = Some h \<longrightarrow> h \<in> set (xs @ ys) \<and> hit_key h = k"
      using fused unfolding fused_def by blast
    ultimately show ?thesis unfolding set_append by blast
  qed
  have out_key: "hit_key (out k) = k" if "k \<in> set ks" for k
    using found [OF that] by (auto simp: out_def hit_key_def)
  then have map_key: "map hit_key (rank_results fl q xs ys) = ks" by (simp add: rs map_idI)
  have "sorted_wrt (\<lambda>k l. fst l = pin \<longrightarrow> fst k = pin) ks"
    unfolding ks_def
    using balance_permutes [of fl pin weighted "[]" "sort_key key (map fst weighted)", THEN conjunct2]
      sort_pin [of pin "\<lambda>k. fl_neg fl (lookup_or weighted k (fl_nat fl 0))" "map fst weighted", folded key_def]
    by simp
  then have "sorted_wrt (\<lambda>a b. fst (hit_key b) = pin \<longrightarrow> fst (hit_key a) = pin) (rank_results fl q xs ys)"
    unfolding map_key [symmetric] sorted_wrt_map .
  moreover have "\<exists>h \<in> set xs \<union> set ys. same_hit h (out k)" if "k \<in> set ks" for k
    using found [OF that] by (auto simp: out_def same_hit_def)
  ultimately show ?thesis using dist set_ks map_key by (auto simp: rs pin_def hit_key_def)
qed

text \<open>
  C34: Fusing the ranked candidates of the channels loses and invents nothing: every cited event of
  either list occurs in the result exactly once, with all members of a candidate that cites it but the
  score, and the passages of a session that the query names by its identity come first.
\<close>

theorem rank_results_permutes:
  assumes "ranks_positive fl (max (length lexical) (length semantic))"
  shows "distinct (map hit_key (rank_results fl q lexical semantic))
    \<and> set (map hit_key (rank_results fl q lexical semantic)) = hit_key ` (set lexical \<union> set semantic)
    \<and> list_all (\<lambda>r. \<exists>h \<in> set lexical \<union> set semantic. same_hit h r) (rank_results fl q lexical semantic)
    \<and> sorted_wrt (\<lambda>a b. cite_session (sh_cite a) = strip (q_text q) \<or> cite_session (sh_cite b) \<noteq> strip (q_text q))
        (rank_results fl q lexical semantic)"
  using rank_results_facts [OF assms, of q] by (auto simp: list_all_iff elim!: sorted_wrt_mono_rel [rotated])

section \<open>Results\<close>

definition hit_matches :: "interp \<Rightarrow> 'f :: linorder search_env \<Rightarrow> catalog \<Rightarrow> query \<Rightarrow> 'f search_hit \<Rightarrow> bool" where
  "hit_matches ip env ct q h \<longleftrightarrow> (\<exists>r j. (r, j) \<in> set (matching_rows ip env ct q)
     \<and> (h = hit_of ip env q (r, j) \<or> same_hit (hit_of ip env q (r, j)) h))"

lemma set_order_rows [simp]: "set (order_rows rows) = set rows"
  by (simp add: order_rows_def)

lemma ranks_positive_mono: "ranks_positive fl n \<Longrightarrow> m \<le> n \<Longrightarrow> ranks_positive fl m"
  by (auto simp: ranks_positive_def list_all_iff simp del: upt_Suc)

lemma search_hits:
  assumes "ranks_positive (se_floats env) (max (nat (q_limit q)) 50)" "h \<in> set (sp_results (search ip env ct q raw))"
  shows "hit_matches ip env ct q h"
proof -
  let ?hits = "\<lambda>n. map (hit_of ip env q) (take n (order_rows (matching_rows ip env ct q)))"
  have match: "\<exists>r j. (r, j) \<in> set (matching_rows ip env ct q) \<and> x = hit_of ip env q (r, j)" if x: "x \<in> set (?hits n)" for x n
  proof -
    obtain p where p: "p \<in> set (take n (order_rows (matching_rows ip env ct q)))" "x = hit_of ip env q p"
      using x unfolding set_map by blast
    from in_set_takeD [OF p(1)] p(2) have "p \<in> set (matching_rows ip env ct q)" by simp
    with p(2) show ?thesis by (cases p) blast
  qed
  show ?thesis
  proof (cases "q_literal q \<or> raw")
    case True
    then have "h \<in> set (?hits (nat (q_limit q)))"
      using assms(2) by (auto simp: search_def Let_def min_def simp del: set_map)
    from match [OF this] show ?thesis unfolding hit_matches_def by blast
  next
    case False
    let ?xs = "?hits (max (nat (q_limit q)) 50)"
    have "h \<in> set (rank_results (se_floats env) q ?xs [])"
      using assms(2) False by (auto simp: search_def Let_def min_def simp del: set_map dest: in_set_takeD split: if_splits)
    moreover have "ranks_positive (se_floats env) (max (length ?xs) (length []))"
      using ranks_positive_mono [OF assms(1)] by simp
    ultimately have "\<exists>x \<in> set ?xs \<union> set []. same_hit x h" using rank_results_facts [of "se_floats env" ?xs "[]" q] by blast
    then obtain x where "x \<in> set ?xs" "same_hit x h" unfolding list.set Un_empty_right by (rule bexE)
    with match [OF this(1)] show ?thesis unfolding hit_matches_def by blast
  qed
qed

lemma in_concat_map: "y \<in> set (concat (map f xs)) \<longleftrightarrow> (\<exists>x \<in> set xs. y \<in> set (f x))"
  by simp

lemma event_view_mem:
  assumes "(b, rv, k) \<in> set (event_view ct)"
  shows "b \<in> set (ct_evidence ct) \<and> (\<exists>sid. (k, er_id b) \<in> set (enumerate 0 (active_rows ct sid)))"
proof -
  obtain x sid p where x: "x \<in> set (ct_evidence ct)" and p: "p \<in> set (enumerate 0 (active_rows ct sid))"
    and v: "(b, rv, k) \<in> set (case p of (k, i) \<Rightarrow> if i = er_id x then (case head_of ct sid of None \<Rightarrow> []
        | Some rv \<Rightarrow> [(x, rv, k)]) else [])"
    using assms unfolding event_view_def in_concat_map by blast
  obtain n i where ni: "p = (n, i)" by (cases p)
  have "i = er_id x" "(b, k) = (x, n)"
    using v unfolding ni prod.case by (cases "i = er_id x"; cases "head_of ct sid"; simp)+
  with x p ni show ?thesis by auto
qed

lemma joined_row_facts:
  assumes "catalog_inv H D ct" "j \<in> set (joined_rows ct)"
  shows "jn_row j \<in> set (ct_evidence ct)" "head_of ct (er_session (jn_row j)) = Some (rr_revision (jn_rev j))"
    "find_revision ct (er_session (jn_row j)) (rr_revision (jn_rev j)) = Some (jn_rev j)"
    "er_id (jn_row j) \<in> set (rr_map (jn_rev j))"
proof -
  obtain b rv k sid where view: "b \<in> set (ct_evidence ct)" "(k, er_id b) \<in> set (enumerate 0 (active_rows ct sid))"
      "head_of ct (er_session b) = Some rv"
    and j: "jn_row j = b" "find_revision ct (er_session b) rv = Some (jn_rev j)"
  proof -
    obtain b rv k where v: "(b, rv, k) \<in> set (event_view ct)" and m: "j \<in> set (if head_of ct (er_session b) = Some rv then
        (case find_revision ct (er_session b) rv of None \<Rightarrow> [] | Some r \<Rightarrow> [\<lparr>jn_row = b, jn_ordinal = k, jn_rev = r\<rparr>]) else [])"
      using assms(2) unfolding joined_rows_def in_concat_map by (elim bexE) (simp only: split_paired_all prod.case)
    obtain r where "head_of ct (er_session b) = Some rv" "find_revision ct (er_session b) rv = Some r"
        "j = \<lparr>jn_row = b, jn_ordinal = k, jn_rev = r\<rparr>"
      using m by (cases "head_of ct (er_session b) = Some rv"; cases "find_revision ct (er_session b) rv") auto
    with event_view_mem [OF v] that show thesis by auto
  qed
  note row = j(1)
  have rev: "rr_revision (jn_rev j) = rv" using find_Some_set [OF j(2) [unfolded find_revision_def]] by simp
  have act: "er_id b \<in> set (active_rows ct sid)" using view(2) by (metis enumerate_eq_zip set_zip_rightD)
  obtain x where "x \<in> set (ct_evidence ct)" "er_id x = er_id b" "er_session x = sid"
    using catalog_active_rows [OF assms(1) act] by blast
  moreover have "evidence_inv H D (ct_evidence ct)" using assms(1) by (simp add: catalog_inv_def)
  ultimately have "er_session b = sid" using er_id_unique view(1) by blast
  moreover have "active_rows ct sid = (case head_row ct sid of None \<Rightarrow> [] | Some r \<Rightarrow> rr_map r)"
    using assms(1) by (simp add: catalog_inv_def)
  ultimately show "jn_row j \<in> set (ct_evidence ct)" "head_of ct (er_session (jn_row j)) = Some (rr_revision (jn_rev j))"
    "find_revision ct (er_session (jn_row j)) (rr_revision (jn_rev j)) = Some (jn_rev j)"
    "er_id (jn_row j) \<in> set (rr_map (jn_rev j))"
    using view act j(2) by (simp_all add: row rev head_row_def)
qed

lemma matching_row:
  "(r, j) \<in> set (matching_rows ip env ct q) \<Longrightarrow> j \<in> set (joined_rows ct) \<and> in_scope ct q j \<and> match_rank ip env ct q j = Some r"
  unfolding matching_rows_def in_concat_map by (auto split: option.split_asm)

lemma hit_cites:
  assumes "hit_matches ip env ct q h"
  obtains j where "j \<in> set (joined_rows ct)" "in_scope ct q j"
    "sh_cite h = \<lparr>cite_session = er_session (jn_row j), cite_revision = rr_revision (jn_rev j),
       cite_event = ev_id (er_event (jn_row j)), cite_offset = match_offset ip (ev_text (er_event (jn_row j))) (q_text q)\<rparr>"
    "sh_role h = ev_role (er_event (jn_row j))" "sh_time h = ev_time (er_event (jn_row j))"
    "sh_excerpt h = excerpt ip (ev_text (er_event (jn_row j))) (q_text q) 800"
proof -
  obtain r j where rj: "(r, j) \<in> set (matching_rows ip env ct q)"
    and h: "h = hit_of ip env q (r, j) \<or> same_hit (hit_of ip env q (r, j)) h"
    using assms unfolding hit_matches_def by blast
  have "sh_cite h = sh_cite (hit_of ip env q (r, j)) \<and> sh_role h = sh_role (hit_of ip env q (r, j))
      \<and> sh_time h = sh_time (hit_of ip env q (r, j)) \<and> sh_excerpt h = sh_excerpt (hit_of ip env q (r, j))"
    using h
  proof
    assume "same_hit (hit_of ip env q (r, j)) h"
    then show ?thesis unfolding same_hit_def by (metis search_hit.select_convs(1,2,3,5) search_hit.surjective
        search_hit.update_convs(8,9))
  qed simp
  then show thesis using that [of j] matching_row [OF rj] by (simp add: hit_of_def Let_def)
qed


section \<open>Citations resolve\<close>

lemma find_index_Some:
  assumes "x \<in> set xs" "P x"
  obtains p where "find_index P xs = Some p" "p < length xs" "P (xs ! p)"
proof -
  let ?n = "length (takeWhile (\<lambda>x. \<not> P x) xs)"
  have "?n < length xs"
  proof (rule ccontr)
    assume "\<not> ?n < length xs"
    then have "takeWhile (\<lambda>x. \<not> P x) xs = xs" using length_takeWhile_le [of "\<lambda>x. \<not> P x" xs]
      by (metis nat_less_le takeWhile_eq_take take_all)
    then have "\<forall>x \<in> set xs. \<not> P x" by (metis takeWhile_eq_all_conv)
    with assms show False by blast
  qed
  moreover from this have "P (xs ! ?n)" using nth_length_takeWhile by blast
  ultimately show thesis by (intro that [of ?n]) (simp_all add: find_index_def Let_def)
qed

lemma context_of_resolves:
  assumes ev: "evidence_inv H D (ct_evidence ct)" and rv: "find_revision ct (ses_id s) rv = Some r"
    and rows: "rows_for (ct_evidence ct) (ses_id s) (rr_map r) (ses_events s)" "distinct (rr_map r)"
    and ids: "distinct (map ev_id (ses_events s))" and e: "e \<in> set (ses_events s)"
    and c: "c = \<lparr>cite_session = ses_id s, cite_revision = rv, cite_event = ev_id e, cite_offset = k\<rparr>" "k \<le> length (ev_text e)"
  shows "\<exists>evs. context_of ct n c = Inr (CtxEvents c evs) \<and> (\<exists>e' o'. (e', o') \<in> set evs \<and> cited_event c e = Inr (e', o'))"
proof -
  define cands where "cands = map er_id (filter (\<lambda>b. er_session b = ses_id s \<and> ev_id (er_event b) = ev_id e) (ct_evidence ct))"
  have len: "length (rr_map r) = length (ses_events s)" using rows(1) by (simp add: rows_for_def list_all2_lengthD)
  obtain i x where i: "i \<in> set (rr_map r)" "x \<in> set (ct_evidence ct)" "er_id x = i" "er_session x = ses_id s" "er_event x = e"
    using rows_for_event [OF rows(1) e] by blast
  then have "i \<in> set cands" by (auto simp: cands_def)
  with i(1) obtain p where p: "find_index (\<lambda>i. i \<in> set cands) (rr_map r) = Some p" "p < length (rr_map r)" "rr_map r ! p \<in> set cands"
    by (rule find_index_Some)
  obtain y where y: "y \<in> set (ct_evidence ct)" "er_id y = rr_map r ! p" "ev_id (er_event y) = ev_id e"
    using p(3) by (auto simp: cands_def)
  obtain z where z: "z \<in> set (ct_evidence ct)" "er_id z = rr_map r ! p" "er_event z = ses_events s ! p"
    using rows(1) p(2) unfolding rows_for_def list_all2_conv_all_nth by blast
  have "y = z" using er_id_unique [OF ev y(1) z(1)] y(2) z(2) by simp
  then have "ev_id (ses_events s ! p) = ev_id e" using y z by simp
  then have at: "ses_events s ! p = e"
    using ids e p(2) len by (metis eq_key_imp_eq_value distinct_map inj_onD nth_mem)
  let ?slice = "\<lambda>xs. take (p + n + 1 - (p - n)) (drop (p - n) xs)"
  have "read_events ct (?slice (rr_map r)) = Inr (?slice (ses_events s))"
    by (rule read_events_rows [OF ev, of "ses_id s"]) (use rows in \<open>simp_all add: rows_for_def list_all2_takeI list_all2_dropI\<close>)
  moreover have cited: "\<exists>y. cited_event c x = Inr y" if "x \<in> set (ses_events s)" for x
  proof (cases "ev_id x = ev_id e")
    case True
    then have "x = e" using ids e that by (metis distinct_map inj_onD)
    then show ?thesis using c by (simp add: cited_event_def Let_def)
  qed (simp add: c cited_event_def)
  moreover have sub: "set (?slice (ses_events s)) \<subseteq> set (ses_events s)" by (meson set_drop_subset set_take_subset subset_trans)
  ultimately have ok: "context_of ct n c = Inr (CtxEvents c (map (\<lambda>x. projr (cited_event c x)) (?slice (ses_events s))))"
  proof -
    have "mapR (cited_event c) (?slice (ses_events s)) = Inr (map (\<lambda>x. projr (cited_event c x)) (?slice (ses_events s)))"
      by (rule mapR_all_Inr) (use cited sub in fastforce)
    then show ?thesis
      using p(1) rv \<open>read_events ct _ = _\<close>
      by (simp add: context_of_def revision_event_ids_def c(1) cands_def [symmetric] Let_def)
  qed
  have "?slice (ses_events s) ! (p - (p - n)) = ses_events s ! p" "p - (p - n) < length (?slice (ses_events s))"
    using p(2) len by (simp_all, arith)
  then have "e \<in> set (?slice (ses_events s))" using at by (metis nth_mem)
  moreover obtain e' o' where "cited_event c e = Inr (e', o')" using cited [OF e] by auto
  ultimately show ?thesis using ok by (intro exI conjI) (auto simp: image_iff intro!: bexI [of _ e])
qed

lemma history_row:
  assumes "ingest_history H qs (empty_catalog ident) = (results, ct)" "inj_on H D" "catalog_inv H D ct"
    "\<forall>q \<in> set qs. session_doc (rq_session q) \<in> D" "find_revision ct sid rv = Some r"
  obtains q where "q \<in> set qs" "sid = ses_id (rq_session q)" "rv = session_revision H (rq_session q)"
    "revision_of H D (ct_evidence ct) (rq_session q) r"
proof -
  have mem: "r \<in> set (ct_revisions ct)" "rr_session r = sid" "rr_revision r = rv"
    using find_Some_set [OF assms(5) [unfolded find_revision_def]] by simp_all
  obtain q where q: "q \<in> set qs" "sid = ses_id (rq_session q)" "rv = session_revision H (rq_session q)"
    using ingest_history_rows [OF assms(1) mem(1)] mem by (auto simp: empty_catalog_def)
  moreover have "revision_of H D (ct_evidence ct) (rq_session q) r"
    using revision_of_find(1) [OF assms(3,2), of "rq_session q" sid] assms(4,5) q by simp
  ultimately show thesis using that by blast
qed

text \<open>
  C30: Citations are durable. A citation that a search returned resolves at every later time, whatever
  is ingested in between: its context has the cited event itself, cut to the part around the offset when it is
  long, and never the offset error.
\<close>

theorem citations_stay_resolvable:
  assumes "ingest_history H qs (empty_catalog ident) = (results, ct)" "ingest_history H later ct = (results', ct')"
    and "inj_on H (history_docs (qs @ later))" "\<forall>q \<in> set (qs @ later). valid_session utc (rq_session q)"
    and "ranks_positive (se_floats env) (max (nat (q_limit q)) 50)" "h \<in> set (sp_results (search ip env ct q raw))"
    and "0 \<le> n" "n \<le> 10"
  shows "\<exists>evs e. context_items ct' [Inl (sh_cite h)] n = Inr [CtxEvents (sh_cite h) evs]
    \<and> ev_id e = cite_event (sh_cite h) \<and> ev_role e = sh_role h \<and> cite_offset (sh_cite h) \<le> length (ev_text e)
    \<and> projr (cited_event (sh_cite h) e) \<in> set evs"
proof -
  let ?D = "history_docs (qs @ later)"
  have both: "ingest_history H (qs @ later) (empty_catalog ident) = (results @ results', ct')"
    using assms(1,2) by (simp add: ingest_history_append)
  have fits: "history_fits ?D (qs @ later)" by (rule valid_history_fits [OF assms(4)])
  have inv: "catalog_inv H ?D ct"
    using ingest_history_inv [OF assms(1,3)] fits by (simp add: history_fits_def)
  have inv': "catalog_inv H ?D ct'" using ingest_history_inv [OF both assms(3) fits] by simp
  have docs: "\<forall>q \<in> set (qs @ later). session_doc (rq_session q) \<in> ?D" by (auto simp: history_docs_def session_docs_def)
  obtain j where j: "j \<in> set (joined_rows ct)"
    and h: "sh_cite h = \<lparr>cite_session = er_session (jn_row j), cite_revision = rr_revision (jn_rev j),
       cite_event = ev_id (er_event (jn_row j)), cite_offset = match_offset ip (ev_text (er_event (jn_row j))) (q_text q)\<rparr>"
      "sh_role h = ev_role (er_event (jn_row j))"
    by (rule hit_cites [OF search_hits [OF assms(5,6)]])
  note facts = joined_row_facts [OF inv j]
  obtain q0 where q0: "q0 \<in> set (qs @ later)" "er_session (jn_row j) = ses_id (rq_session q0)"
      "rr_revision (jn_rev j) = session_revision H (rq_session q0)" "revision_of H ?D (ct_evidence ct) (rq_session q0) (jn_rev j)"
    using history_row [OF assms(1,3) inv _ facts(3)] docs by auto
  let ?s = "rq_session q0"
  have rows: "rows_for (ct_evidence ct) (ses_id ?s) (rr_map (jn_rev j)) (ses_events ?s)" "distinct (rr_map (jn_rev j))"
    using q0(4) by (simp_all add: revision_of_def)
  obtain e x where x: "e \<in> set (ses_events ?s)" "x \<in> set (ct_evidence ct)" "er_id x = er_id (jn_row j)" "er_event x = e"
    using rows_for_id [OF rows(1) facts(4)] by blast
  have "x = jn_row j" using er_id_unique x(2,3) facts(1) inv by (metis catalog_inv_def)
  then have e: "er_event (jn_row j) = e" using x(4) by simp
  have grows: "catalog_grows ct ct'" by (rule ingest_history_grows [OF assms(2)])
  have "revision_of H ?D (ct_evidence ct') ?s (jn_rev j)" by (rule grows_revision_of [OF grows q0(4)])
  then have rows': "rows_for (ct_evidence ct') (ses_id ?s) (rr_map (jn_rev j)) (ses_events ?s)" by (simp add: revision_of_def)
  have ids: "distinct (map ev_id (ses_events ?s))" using assms(4) q0(1) by (simp add: valid_session_def)
  have "evidence_inv H ?D (ct_evidence ct')" using inv' by (simp add: catalog_inv_def)
  from context_of_resolves [OF this grows_find_revision [OF grows facts(3), unfolded q0(2)] rows' rows(2) ids x(1),
      of "sh_cite h" "match_offset ip (ev_text e) (q_text q)" "nat n"]
  obtain evs e' o' where ctx: "context_of ct' (nat n) (sh_cite h) = Inr (CtxEvents (sh_cite h) evs)"
      "(e', o') \<in> set evs" "cited_event (sh_cite h) e = Inr (e', o')"
    using h(1) e q0(2) match_offset_bound by auto
  then have "context_items ct' [Inl (sh_cite h)] n = Inr [CtxEvents (sh_cite h) evs]"
    using assms(7,8) by (simp add: context_items_def)
  moreover have "cite_offset (sh_cite h) \<le> length (ev_text e)" using h(1) e match_offset_bound by simp
  ultimately show ?thesis using ctx h e by (intro exI [of _ evs] exI [of _ e]) simp
qed

section \<open>A small catalog\<close>

definition exact_floats :: "rat floats" where
  "exact_floats = \<lparr>fl_nat = of_nat, fl_tenth = 1 / 10, fl_fifth = 1 / 5, fl_two_fifths = 2 / 5, fl_three_quarters = 3 / 4,
     fl_mul = (*), fl_add = (+), fl_div = (/), fl_neg = uminus\<rparr>"

definition sample_env :: "rat search_env" where
  "sample_env = \<lparr>se_match = (\<lambda>_ _ _. Some 0), se_literal = (\<lambda>_ _. True), se_ready = True, se_floats = exact_floats\<rparr>"

definition sample_query :: query where
  "sample_query = \<lparr>q_text = lit ''a'', q_literal = True, q_role = Some (lit ''user''), q_after = None, q_before = None,
     q_project = None, q_session = None, q_producer = None, q_exclude = [lit ''x''], q_subagents = False, q_limit = 10,
     q_sources = None, q_all_sources = False\<rparr>"

lemma sample_ranks: "ranks_positive exact_floats n"
  by (simp add: ranks_positive_def exact_floats_def list_all_iff del: upt_Suc)

lemma sample_catalog:
  "\<exists>results ct h. ingest_history id [sample_request [lit ''a''] ''1''] (empty_catalog []) = (results, ct)
     \<and> h \<in> set (sp_results (search plain_interp sample_env ct sample_query False))"
proof -
  obtain results ct where run: "ingest_history id [sample_request [lit ''a''] ''1''] (empty_catalog []) = (results, ct)"
    by (cases "ingest_history id [sample_request [lit ''a''] ''1''] (empty_catalog [])")
  let ?e = "\<lparr>ev_id = lit ''a'', ev_role = lit ''user'', ev_text = lit ''a'', ev_time = [], ev_origin = lit ''user'',
    ev_kind = lit ''message''\<rparr>"
  have "ct_evidence ct = [\<lparr>er_id = 1, er_session = lit ''s'', er_hash = event_hash id (lit ''s'') ?e, er_event = ?e\<rparr>]
      \<and> ct_active ct = [(lit ''s'', [1])] \<and> ct_heads ct = [(lit ''s'', session_revision id (sample_session [lit ''a'']))]
      \<and> ct_revisions ct = [revision_row_of (session_revision id (sample_session [lit ''a''])) (sample_session [lit ''a'']) [1]]
      \<and> ct_defaults ct = [] \<and> ct_aliases ct = []"
    using run
    by (auto simp: sample_request_def ingest_one_def ingest_def check_raw_def empty_catalog_def find_revision_def ingest_new_def
        head_row_def head_of_def active_rows_def sample_session_def insert_fts_def Let_def insert_evidence_def next_id_def
        row_of_hash_def append_active_def record_receipt_def needs_alias_def split: prod.splits)
  note tables = this
  define j where "j = \<lparr>jn_row = \<lparr>er_id = 1, er_session = lit ''s'', er_hash = event_hash id (lit ''s'') ?e, er_event = ?e\<rparr>,
    jn_ordinal = 0, jn_rev = revision_row_of (session_revision id (sample_session [lit ''a''])) (sample_session [lit ''a'']) [1]\<rparr>"
  have rows: "joined_rows ct = [j]"
    using tables by (simp add: joined_rows_def event_view_def active_rows_def head_of_def find_revision_def j_def
        revision_row_of_def sample_session_def)
  have "in_scope ct sample_query j"
    using tables
    by (simp add: in_scope_def sample_query_def j_def in_sources_def excluded_sources_def source_defaults_def expand_sources_def
        when_given_def revision_row_of_def sample_session_def excluded_def children_def head_row_def head_of_def
        find_revision_def Let_def lit_def)
  moreover have "match_rank plain_interp sample_env ct sample_query j = Some 0"
    by (simp add: match_rank_def sample_query_def sample_env_def j_def exact_floats_def instr_lower_def contains_def lit_def
        break_at.simps starts_with_def Let_def)
  ultimately have "matching_rows plain_interp sample_env ct sample_query = [(0, j)]" by (simp add: matching_rows_def rows)
  then have "hit_of plain_interp sample_env sample_query (0, j) \<in> set (sp_results (search plain_interp sample_env ct sample_query False))"
    by (simp add: search_def sample_query_def order_rows_def Let_def)
  with run show ?thesis by blast
qed

lemma sample_catalog_inv:
  "ingest_history id [sample_request [lit ''a''] ''1''] (empty_catalog []) = (results, ct) \<Longrightarrow> catalog_inv id UNIV ct"
  using ingest_history_inv [of id "[sample_request [lit ''a''] ''1'']" "empty_catalog []" results ct UNIV]
  by (simp add: history_fits_def session_fits_def sample_request_def sample_session_def)


lemma citations_stay_resolvable_witness:
  "\<exists>results ct results' ct' h evs. ingest_history id [sample_request [lit ''a''] ''1''] (empty_catalog []) = (results, ct)
     \<and> ingest_history id [sample_request [lit ''a'', lit ''b''] ''2''] ct = (results', ct')
     \<and> h \<in> set (sp_results (search plain_interp sample_env ct sample_query False))
     \<and> context_items ct' [Inl (sh_cite h)] 2 = Inr [CtxEvents (sh_cite h) evs]"
proof -
  let ?qs = "[sample_request [lit ''a''] ''1'']" and ?later = "[sample_request [lit ''a'', lit ''b''] ''2'']"
  obtain results ct h where run: "ingest_history id ?qs (empty_catalog []) = (results, ct)"
    and h: "h \<in> set (sp_results (search plain_interp sample_env ct sample_query False))"
    using sample_catalog by blast
  obtain results' ct' where later: "ingest_history id ?later ct = (results', ct')" by (cases "ingest_history id ?later ct")
  have valid: "\<forall>q \<in> set (?qs @ ?later). valid_session no_time (rq_session q)"
    by (simp add: sample_request_def sample_session_valid)
  have ranks: "ranks_positive (se_floats sample_env) (max (nat (q_limit sample_query)) 50)"
    using sample_ranks by (simp add: sample_env_def)
  from citations_stay_resolvable [OF run later inj_on_id valid ranks h, of 2] run later h show ?thesis by auto
qed

lemma literal_search_exact_witness:
  "trigram_finds (se_literal sample_env)
    \<and> length (sp_results (search plain_interp sample_env (empty_catalog []) sample_query False)) = 0"
proof -
  have "trigram_finds (se_literal sample_env)" by (simp add: trigram_finds_def sample_env_def)
  from literal_search_exact [OF this, of sample_query plain_interp "empty_catalog []" False] this show ?thesis
    by (simp add: sample_query_def joined_rows_def event_view_def empty_catalog_def order_rows_def)
qed

definition sample_hit :: "string \<Rightarrow> rat search_hit" where
  "sample_hit s = \<lparr>sh_cite = \<lparr>cite_session = lit s, cite_revision = lit ''r'', cite_event = lit ''e'', cite_offset = 0\<rparr>,
     sh_role = lit ''user'', sh_time = [], sh_origin = [], sh_excerpt = [], sh_project = [], sh_title = [], sh_score = 0,
     sh_weight = Some 1\<rparr>"

lemma rank_results_permutes_witness:
  "set (map hit_key (rank_results exact_floats sample_query [sample_hit ''a''] [sample_hit ''b'', sample_hit ''a'']))
    = {(lit ''a'', lit ''r'', lit ''e''), (lit ''b'', lit ''r'', lit ''e'')}
   \<and> distinct (map hit_key (rank_results exact_floats sample_query [sample_hit ''a''] [sample_hit ''b'', sample_hit ''a'']))"
  using rank_results_permutes [OF sample_ranks, of sample_query "[sample_hit ''a'']" "[sample_hit ''b'', sample_hit ''a'']"]
  by (simp add: hit_key_def sample_hit_def insert_commute)

end
