(* ===== verification/Pi.thy ===== *)
theory Pi
  imports Codex
begin

text \<open>
  The Pi sessions of \<open>capture/parsers/pi.py\<close>: a file holds a header and entries that form a tree by
  their parent links; a session is the branch that ends in the last entry. The main result is
  that the events of a session come from exactly one path of the tree, in its order.
\<close>

section \<open>Text of a content\<close>

text \<open>The text blocks of a content, joined by line feeds.\<close>

definition text_blocks :: "json list \<Rightarrow> pystr list" where
  "text_blocks bs = concat (map (\<lambda>b. case b of
       JObj kvs \<Rightarrow> if get kvs ''type'' = JStr (lit ''text'') then (case get kvs ''text'' of JStr s \<Rightarrow> [s] | _ \<Rightarrow> []) else []
     | _ \<Rightarrow> []) bs)"

definition content_text :: "json \<Rightarrow> pystr" where
  "content_text v = (case v of JStr s \<Rightarrow> s | JList bs \<Rightarrow> join [10] (text_blocks bs) | _ \<Rightarrow> [])"

text \<open>\<open>json.dumps(v, ensure_ascii=False)\<close>, with the default separators.\<close>

fun json_dumps :: "json \<Rightarrow> pystr" where
  "json_dumps JNull = lit ''null''"
| "json_dumps (JBool b) = lit (if b then ''true'' else ''false'')"
| "json_dumps (JInt i) = show_int i"
| "json_dumps (JStr s) = json_string s"
| "json_dumps (JList vs) = 91 # join (lit '', '') (map json_dumps vs) @ [93]"
| "json_dumps (JObj kvs) = 123 # join (lit '', '') (map (\<lambda>(k, v). json_string k @ lit '': '' @ json_dumps v) kvs) @ [125]"

section \<open>Entries\<close>

type_synonym entry = "(pystr \<times> json) list"

text \<open>The header, if one has been read, and the entries under their identities in file order.\<close>

type_synonym pi_file = "entry option \<times> (pystr \<times> entry) list"

definition add_record :: "entry \<Rightarrow> pi_file \<Rightarrow> pi_file result" where
  "add_record rec f = (case f of (header, entries) \<Rightarrow>
     if get rec ''type'' = JStr (lit ''session'')
     then if header \<noteq> None \<or> get rec ''version'' \<noteq> JInt 3 \<or> \<not> truthy (get rec ''id'')
       then Inl (ValueError ''unsupported Pi session header'') else Inr (Some rec, entries)
     else (case get rec ''id'' of
         JStr key \<Rightarrow> if key = [] \<or> key \<in> fst ` set entries then Inl (ValueError ''invalid Pi entry identity'')
           else Inr (header, entries @ [(key, rec)])
       | _ \<Rightarrow> Inl (ValueError ''invalid Pi entry identity'')))"

definition read_line :: "interp \<Rightarrow> bytes \<Rightarrow> pi_file \<Rightarrow> pi_file result" where
  "read_line ip line f = (case utf8_strict line of None \<Rightarrow> Inl UnicodeDecodeError
     | Some s \<Rightarrow> (case py_loads ip s of Some (JObj rec) \<Rightarrow> add_record rec f | _ \<Rightarrow> Inl (ValueError ''invalid Pi record'')))"

fun read_lines :: "interp \<Rightarrow> bytes list \<Rightarrow> pi_file \<Rightarrow> pi_file result" where
  "read_lines ip [] f = Inr f"
| "read_lines ip (l # ls) f = bindR (read_line ip l f) (read_lines ip ls)"

section \<open>The branch\<close>

text \<open>
  From the last entry up to an entry without parent. \<open>seen\<close> holds the identities passed, the
  newest last; an identity that is no string cannot name an entry, and one that cannot be
  hashed raises.
\<close>

definition parent_key :: "json \<Rightarrow> pystr option result" where
  "parent_key v = (if unhashable v then Inl (TypeError ''unhashable type'') else (case v of
     JNull \<Rightarrow> Inr None | JStr s \<Rightarrow> Inr (Some s) | _ \<Rightarrow> Inl (ValueError ''invalid Pi branch ancestry'')))"

function climb :: "(pystr \<times> entry) list \<Rightarrow> pystr list \<Rightarrow> pystr option \<Rightarrow> pystr list result" where
  "climb entries seen None = Inr seen"
| "climb entries seen (Some key) =
     (if key \<in> set seen then Inl (ValueError ''invalid Pi branch ancestry'')
      else (case map_of entries key of
          None \<Rightarrow> Inl (ValueError ''invalid Pi branch ancestry'')
        | Some e \<Rightarrow> (case parent_key (get e ''parentId'') of Inl x \<Rightarrow> Inl x | Inr k \<Rightarrow> climb entries (key # seen) k)))"
  by pat_completeness auto
termination
proof (relation "measure (\<lambda>(entries, seen, _). card (fst ` set entries - set seen))")
  fix entries :: "(pystr \<times> entry) list" and seen key e k
  assume "key \<notin> set seen" "map_of entries key = Some e"
  then have "key \<in> fst ` set entries - set seen" by (force dest: map_of_SomeD)
  moreover have "fst ` set entries - set (key # seen) = (fst ` set entries - set seen) - {key}" by auto
  ultimately have "card (fst ` set entries - set (key # seen)) < card (fst ` set entries - set seen)"
    by (simp only: card_Diff1_less finite_Diff finite_imageI List.finite_set)
  then show "((entries, key # seen, k), entries, seen, Some key) \<in> measure (\<lambda>(entries, seen, _). card (fst ` set entries - set seen))"
    by simp
qed simp

definition last_key :: "(pystr \<times> entry) list \<Rightarrow> pystr option" where
  "last_key entries = (if entries = [] then None else Some (fst (last entries)))"

text \<open>
  The edits of a branch: the replacement for a target. A target that is no string is in the
  dictionary too but never looked up.
\<close>

fun branch_edits :: "entry list \<Rightarrow> (pystr \<times> json) list \<Rightarrow> (pystr \<times> json) list result" where
  "branch_edits [] d = Inr d"
| "branch_edits (e # es) d =
     (if get e ''type'' \<noteq> JStr (lit ''context_edit'') then branch_edits es d
      else (case get e ''targetId'' of
          JStr t \<Rightarrow> branch_edits es (AList.update t (get e ''replacement'') d)
        | v \<Rightarrow> if unhashable v then Inl (TypeError ''unhashable type'') else branch_edits es d))"

section \<open>Events\<close>

definition entry_id :: "entry \<Rightarrow> pystr" where
  "entry_id e = str_of (get e ''id'')"

definition emit :: "interp \<Rightarrow> (pystr \<Rightarrow> pystr result) \<Rightarrow> entry \<Rightarrow> pystr \<Rightarrow> string \<Rightarrow> json \<Rightarrow> string \<Rightarrow> event list result" where
  "emit ip utc e suffix role v kind =
     (let t = redact_sensitive_text ip v in
      if strip t = [] then Inr []
      else bindR (make_event utc (JStr (entry_id e @ lit '':'' @ suffix)) (JStr (lit role))
          (JStr (if role = ''tool'' then take 12000 t else t)) (get_or e ''timestamp'' (JStr [])) (JStr (lit role)) (JStr (lit kind)))
        (\<lambda>ev. Inr [ev]))"

definition message_roles :: "(json \<times> string) list" where
  "message_roles = [(JStr (lit ''user''), ''user''), (JStr (lit ''assistant''), ''assistant''),
     (JStr (lit ''toolResult''), ''tool''), (JStr (lit ''system''), ''context'')]"

definition tool_event :: "interp \<Rightarrow> (pystr \<Rightarrow> pystr result) \<Rightarrow> entry \<Rightarrow> nat \<times> json \<Rightarrow> event list result" where
  "tool_event ip utc e ib = (case ib of (i, b) \<Rightarrow> (case b of
       JObj kvs \<Rightarrow> if get kvs ''type'' \<noteq> JStr (lit ''toolCall'') then Inr []
         else emit ip utc e (lit ''tool:'' @ show_nat i) ''tool''
           (JStr (py_str ip (get_or kvs ''name'' (JStr (lit ''tool''))) @ [32]
             @ json_dumps (get_or kvs ''arguments'' (get_or kvs ''input'' (JObj []))))) ''tool_use''
     | _ \<Rightarrow> Inr []))"

definition content_events :: "interp \<Rightarrow> (pystr \<Rightarrow> pystr result) \<Rightarrow> entry \<Rightarrow> json \<Rightarrow> json \<Rightarrow> event list result" where
  "content_events ip utc e native content =
     (if unhashable native then Inl (TypeError ''unhashable type'')
      else (case map_of message_roles native of
          None \<Rightarrow> Inr []
        | Some role \<Rightarrow>
            bindR (emit ip utc e (lit ''text'') role (JStr (content_text content))
              (if role = ''tool'' then ''tool_result'' else ''message'')) (\<lambda>evs.
            case content of
              JList bs \<Rightarrow> if native = JStr (lit ''assistant'')
                then bindR (mapR (tool_event ip utc e) (enumerate 0 bs)) (\<lambda>ts. Inr (evs @ concat ts)) else Inr evs
            | _ \<Rightarrow> Inr evs)))"

definition entry_events :: "interp \<Rightarrow> (pystr \<Rightarrow> pystr result) \<Rightarrow> (pystr \<times> json) list \<Rightarrow> entry \<Rightarrow> event list result" where
  "entry_events ip utc edits e =
     (let kind = get e ''type'' in
      if unhashable kind then Inl (TypeError ''unhashable type'')
      else if kind = JStr (lit ''compaction'') \<or> kind = JStr (lit ''branch_summary'')
        then emit ip utc e (lit ''summary'') ''context'' (get_or e ''summary'' (JStr [])) ''summary''
      else if kind \<noteq> JStr (lit ''message'') then Inr []
      else (case get e ''message'' of
          JObj message \<Rightarrow> (case map_of edits (entry_id e) of
              None \<Rightarrow> content_events ip utc e (get message ''role'') (get message ''content'')
            | Some JNull \<Rightarrow> Inr []
            | Some (JObj kvs) \<Rightarrow> (case jget kvs ''content'' of
                  None \<Rightarrow> Inl (ValueError ''invalid Pi context edit'')
                | Some content \<Rightarrow> content_events ip utc e (get message ''role'') content)
            | Some _ \<Rightarrow> Inl (ValueError ''invalid Pi context edit''))
        | _ \<Rightarrow> Inl (ValueError ''invalid Pi message'')))"

definition parse_pi :: "interp \<Rightarrow> (pystr \<Rightarrow> pystr result) \<Rightarrow> bytes \<Rightarrow> session result" where
  "parse_pi ip utc content =
     bindR (read_lines ip (text_lines [] content) (None, [])) (\<lambda>(header, entries).
     case header of None \<Rightarrow> Inl (ValueError ''missing Pi session header'')
     | Some h \<Rightarrow>
       bindR (climb entries [] (last_key entries)) (\<lambda>keys.
       let branch = map (\<lambda>k. the (map_of entries k)) keys in
       bindR (branch_edits branch []) (\<lambda>edits.
       bindR (mapR (entry_events ip utc edits) branch) (\<lambda>es.
       make_session (JStr (lit ''pi:'' @ py_str ip (get h ''id''))) (concat es) (JStr (lit ''pi''))
         (JStr (redact_sensitive_text ip (JStr (py_str ip (get_or h ''cwd'' (JStr [])))))) (JStr []) JNull (JBool False)
         (JStr (lit ''pi-v3-1''))))))"

section \<open>One branch\<close>

text \<open>The reference: a path of parent links, from a leaf up to an entry without parent.\<close>

fun path_up :: "(pystr \<times> entry) list \<Rightarrow> pystr option \<Rightarrow> pystr list \<Rightarrow> bool" where
  "path_up entries k [] = (k = None)"
| "path_up entries k (x # up) = (k = Some x \<and> (case map_of entries x of None \<Rightarrow> False
     | Some e \<Rightarrow> (case parent_key (get e ''parentId'') of Inl _ \<Rightarrow> False | Inr p \<Rightarrow> path_up entries p up)))"

lemma climb_path:
  "climb entries seen k = Inr keys \<Longrightarrow> distinct seen \<Longrightarrow>
   \<exists>ids. keys = ids @ seen \<and> distinct keys \<and> path_up entries k (rev ids)"
proof (induction entries seen k rule: climb.induct)
  case (2 entries seen key)
  from "2.prems"(1) obtain e p where e: "key \<notin> set seen" "map_of entries key = Some e"
    "parent_key (get e ''parentId'') = Inr p" "climb entries (key # seen) p = Inr keys"
    by (auto split: if_split_asm option.split_asm sum.split_asm)
  have "distinct (key # seen)" using e(1) "2.prems"(2) by simp
  from "2.IH" [OF e(1,2,3,4) this] obtain ids where
    "keys = ids @ key # seen" "distinct keys" "path_up entries p (rev ids)" by blast
  then show ?case using e by (intro exI [of _ "ids @ [key]"]) simp
qed (intro exI [of _ "[]"], simp)

definition keyed :: "(pystr \<times> entry) list \<Rightarrow> bool" where
  "keyed entries \<longleftrightarrow> (\<forall>(k, e) \<in> set entries. entry_id e = k)"

lemma add_record_keyed: "add_record rec (h, es) = Inr (h', es') \<Longrightarrow> keyed es \<Longrightarrow> keyed es'"
  by (auto simp: add_record_def keyed_def entry_id_def split: if_split_asm json.split_asm)

lemma read_lines_keyed: "read_lines ip ls f = Inr (h, es) \<Longrightarrow> keyed (snd f) \<Longrightarrow> keyed es"
proof (induction ls arbitrary: f)
  case (Cons l ls)
  then obtain f1 where f1: "read_line ip l f = Inr f1" "read_lines ip ls f1 = Inr (h, es)" by (auto simp: bindR_Inr_iff)
  have "keyed (snd f1)"
    using f1(1) Cons.prems(2) add_record_keyed [of _ "fst f" "snd f" "fst f1" "snd f1"]
    by (auto simp: read_line_def split: option.split_asm json.split_asm)
  from Cons.IH [OF f1(2) this] show ?case .
qed simp

text \<open>The events of an entry carry its identity, and a tool's text is bounded.\<close>

definition events_of :: "pystr \<Rightarrow> event list \<Rightarrow> bool" where
  "events_of k es \<longleftrightarrow> list_all (\<lambda>e. (\<exists>suffix. ev_id e = k @ lit '':'' @ suffix)
     \<and> (ev_role e = lit ''tool'' \<longrightarrow> length (ev_text e) \<le> 12000)) es"

lemma make_event_fields:
  "make_event utc (JStr i) (JStr r) (JStr t) ts origin kind = Inr e \<Longrightarrow> ev_id e = i \<and> ev_role e = r \<and> ev_text e = t"
  by (auto simp: make_event_def bindR_Inr_iff unhashable_def split: if_split_asm)

lemma emit_events:
  assumes "emit ip utc e suffix role v kind = Inr es"
  shows "events_of (entry_id e) es"
proof -
  let ?t = "redact_sensitive_text ip v"
  let ?s = "if role = ''tool'' then take 12000 ?t else ?t"
  have "es = [] \<or> (\<exists>ev. es = [ev] \<and> ev_id ev = entry_id e @ lit '':'' @ suffix \<and> ev_role ev = lit role \<and> ev_text ev = ?s)"
    using assms by (auto simp: emit_def Let_def bindR_Inr_iff dest!: make_event_fields split: if_split_asm)
  moreover have "lit role = lit ''tool'' \<Longrightarrow> length ?s \<le> 12000" by simp
  ultimately show ?thesis unfolding events_of_def list_all_iff by force
qed

lemma events_of_append [simp]: "events_of k (a @ b) \<longleftrightarrow> events_of k a \<and> events_of k b"
  by (simp add: events_of_def)

lemma events_of_Nil [simp]: "events_of k []"
  by (simp add: events_of_def)

lemma tool_events:
  "mapR (tool_event ip utc e) ibs = Inr ess \<Longrightarrow> events_of (entry_id e) (concat ess)"
proof (induction ibs arbitrary: ess)
  case (Cons ib ibs)
  then obtain es rest where es: "tool_event ip utc e ib = Inr es" "mapR (tool_event ip utc e) ibs = Inr rest" "ess = es # rest"
    by (auto simp: bindR_Inr_iff)
  have "events_of (entry_id e) es"
    using es(1) by (auto simp: tool_event_def emit_events split: prod.split_asm json.split_asm if_split_asm)
  with Cons.IH [OF es(2)] es(3) show ?case by simp
qed simp

lemma content_events_of: "content_events ip utc e native content = Inr es \<Longrightarrow> events_of (entry_id e) es"
  by (cases content)
    (auto simp: content_events_def bindR_Inr_iff dest!: emit_events tool_events split: if_split_asm option.split_asm)

lemma entry_events_of: "entry_events ip utc edits e = Inr es \<Longrightarrow> events_of (entry_id e) es"
  by (simp only: entry_events_def Let_def split: if_split_asm)
    (auto dest: emit_events content_events_of split: option.split_asm json.split_asm)

lemma path_up_known: "path_up entries k ids \<Longrightarrow> x \<in> set ids \<Longrightarrow> \<exists>e. map_of entries x = Some e"
  by (induction ids arbitrary: k) (auto split: option.split_asm sum.split_asm)

text \<open>
  C39: A Pi session is one branch. When a file parses, its events come from exactly the entries on the
  path from the last entry up to a root, in the order from the root, each once: siblings of
  the path contribute nothing, and every event names its entry. Tool texts are at most 12000 characters.
\<close>

theorem pi_session_is_one_branch:
  assumes "parse_pi ip utc content = Inr s"
  shows "\<exists>header entries ids ess. read_lines ip (text_lines [] content) (None, []) = Inr (Some header, entries)
    \<and> path_up entries (last_key entries) (rev ids) \<and> distinct ids
    \<and> ses_events s = concat ess \<and> list_all2 events_of ids ess"
proof -
  obtain header entries where read: "read_lines ip (text_lines [] content) (None, []) = Inr (Some header, entries)"
    using assms by (auto simp: parse_pi_def bindR_Inr_iff split: option.split_asm)
  obtain ids edits es where ids: "climb entries [] (last_key entries) = Inr ids"
    and es: "mapR (entry_events ip utc edits) (map (\<lambda>k. the (map_of entries k)) ids) = Inr es"
    and s: "make_session (JStr (lit ''pi:'' @ py_str ip (get header ''id''))) (concat es) (JStr (lit ''pi''))
         (JStr (redact_sensitive_text ip (JStr (py_str ip (get_or header ''cwd'' (JStr [])))))) (JStr []) JNull (JBool False)
         (JStr (lit ''pi-v3-1'')) = Inr s"
    using assms read by (auto simp: parse_pi_def bindR_Inr_iff Let_def)
  from climb_path [OF ids] have path: "distinct ids" "path_up entries (last_key entries) (rev ids)" by auto
  have "keyed entries" using read_lines_keyed [OF read] by (simp add: keyed_def)
  then have name: "entry_id (the (map_of entries k)) = k" if "k \<in> set ids" for k
    using path_up_known [OF path(2), of k] that by (force simp: keyed_def dest: map_of_SomeD)
  have "list_all2 (\<lambda>k es. entry_events ip utc edits (the (map_of entries k)) = Inr es) ids es"
    using es by (simp add: mapR_Inr_iff list_all2_map1)
  then have "list_all2 events_of ids es"
    by (rule list.rel_mono_strong) (use name entry_events_of in metis)
  moreover have "ses_events s = concat es"
    using s by (auto simp: make_session_def split: if_split_asm json.split_asm)
  ultimately show ?thesis using read path by blast
qed

text \<open>A file with a header and two messages, the second an answer to the first.\<close>

definition pi_members :: "string \<Rightarrow> json \<Rightarrow> string \<Rightarrow> entry" where
  "pi_members k parent role = [(lit ''type'', JStr (lit ''message'')), (lit ''id'', JStr (lit k)), (lit ''parentId'', parent),
     (lit ''message'', JObj [(lit ''role'', JStr (lit role)), (lit ''content'', JStr (lit ''x''))])]"

definition pi_header :: entry where
  "pi_header = [(lit ''type'', JStr (lit ''session'')), (lit ''version'', JInt 3), (lit ''id'', JStr (lit ''h''))]"

definition pi_interp :: interp where
  "pi_interp = \<lparr>py_loads = (\<lambda>s. Some (JObj (if s = [117, 10] then pi_header
       else if s = [118, 10] then pi_members ''a'' JNull ''user'' else pi_members ''b'' (JStr (lit ''a'')) ''assistant''))),
     py_repr = (\<lambda>v. []), py_cases = (\<lambda>c. []), py_alnum = (\<lambda>c. 97 \<le> c \<and> c \<le> 122), py_digit = (\<lambda>c. False),
     py_casefold = (\<lambda>s. s), py_unescape = (\<lambda>s. s), py_uuid = (\<lambda>s. None), py_number = (\<lambda>s. JNull)\<rparr>"

definition pi_content :: bytes where "pi_content = [117, 10, 118, 10, 119, 10]"

lemma sample_read: "read_lines pi_interp (text_lines [] pi_content) (None, [])
  = Inr (Some pi_header, [(lit ''a'', pi_members ''a'' JNull ''user''), (lit ''b'', pi_members ''b'' (JStr (lit ''a'')) ''assistant'')])"
proof -
  have "utf8_strict [c, 10] = Some [c, 10]" if "c < 128" for c
    using utf8_decode_utf8 [of "[c, 10]"] that by (simp add: str_ok_def utf8_cp_def max_cp_def utf8_strict_def)
  then show ?thesis
    by (simp add: pi_content_def read_line_def pi_interp_def add_record_def pi_header_def pi_members_def get_or_def jget_def
        truthy.simps)
qed

lemma sample_pi: "\<exists>s. parse_pi pi_interp Inr pi_content = Inr s \<and> length (ses_events s) = 2"
proof -
  let ?a = "pi_members ''a'' JNull ''user''" and ?b = "pi_members ''b'' (JStr (lit ''a'')) ''assistant''"
  have climb: "climb [(lit ''a'', ?a), (lit ''b'', ?b)] [] (Some (lit ''b'')) = Inr [lit ''a'', lit ''b'']"
    by (simp add: parent_key_def pi_members_def get_or_def jget_def unhashable_def)
  have edits: "branch_edits [?a, ?b] [] = Inr []" by (simp add: pi_members_def get_or_def jget_def)
  have events: "entry_events pi_interp Inr [] (pi_members k p r) = Inr [\<lparr>ev_id = lit k @ lit '':'' @ lit ''text'', ev_role = lit r,
      ev_text = lit ''x'', ev_time = [], ev_origin = lit r, ev_kind = lit ''message''\<rparr>]" if "r = ''user'' \<or> r = ''assistant''" for k p r
  proof -
    let ?m = "JObj [(lit ''role'', JStr (lit r)), (lit ''content'', JStr (lit ''x''))]"
    have get: "get (pi_members k p r) ''type'' = JStr (lit ''message'')" "get (pi_members k p r) ''message'' = ?m"
      "get_or (pi_members k p r) ''timestamp'' d = d" "entry_id (pi_members k p r) = lit k" for d
      by (simp_all add: pi_members_def get_or_def jget_def entry_id_def)
    have member: "get [(lit ''role'', JStr (lit r)), (lit ''content'', JStr (lit ''x''))] ''role'' = JStr (lit r)"
      "get [(lit ''role'', JStr (lit r)), (lit ''content'', JStr (lit ''x''))] ''content'' = JStr (lit ''x'')"
      by (simp_all add: get_or_def jget_def)
    have role: "map_of message_roles (JStr (lit r)) = Some r" "lit r \<in> event_roles" "r \<noteq> ''tool''"
      using that by (auto simp: message_roles_def event_roles_def)
    have redacted: "redact_sensitive_text pi_interp (JStr (lit ''x'')) = lit ''x''"
      by (simp add: redact_sensitive_text_def text_of_def py_str_def redact_short)
    have "strip (lit ''x'') \<noteq> []" by (simp add: strip_def py_space_def lit_def)
    then have "emit pi_interp Inr (pi_members k p r) (lit ''text'') r (JStr (lit ''x'')) ''message'' =
        Inr [\<lparr>ev_id = lit k @ lit '':'' @ lit ''text'', ev_role = lit r, ev_text = lit ''x'', ev_time = [], ev_origin = lit r,
          ev_kind = lit ''message''\<rparr>]"
      using role by (simp add: emit_def redacted get make_event_def normalize_time_def unhashable_def Let_def)
    then show ?thesis
      using role by (simp add: entry_events_def get member unhashable_def content_events_def content_text_def)
  qed
  show ?thesis
    by (simp add: parse_pi_def sample_read last_key_def climb edits events Let_def del: climb.simps branch_edits.simps)
      (simp add: pi_header_def get_or_def jget_def py_str_def make_session_def redact_sensitive_text_def text_of_def redact_short)
qed

lemma pi_session_is_one_branch_witness:
  "\<exists>s ids ess. parse_pi pi_interp Inr pi_content = Inr s \<and> length (ses_events s) = 2
     \<and> distinct ids \<and> ses_events s = concat ess \<and> list_all2 events_of ids ess"
proof -
  obtain s where s: "parse_pi pi_interp Inr pi_content = Inr s" "length (ses_events s) = 2" using sample_pi by blast
  from pi_session_is_one_branch [OF s(1)] s show ?thesis by blast
qed

end
