(* ===== verification/Capture.thy ===== *)
theory Capture
  imports Incremental Pi Queue
begin

text \<open>
  Capturing the session files of a home directory (\<open>capture/local.py\<close>, \<open>core/providers.py\<close>): the
  complete-record prefix of a file is staged, parsed, archived and handed to a catalog or an upload
  queue, unless the file is unchanged, too large for the budget, or changes meanwhile. What the
  file system shows at each look is an observation, given as an argument.
\<close>

section \<open>Complete records\<close>

definition rfind_byte :: "nat \<Rightarrow> bytes \<Rightarrow> nat option" where
  "rfind_byte c b = (let n = length (takeWhile (\<lambda>x. x \<noteq> c) (rev b)) in if n < length b then Some (length b - n - 1) else None)"

function complete_end :: "bytes \<Rightarrow> nat \<Rightarrow> nat" where
  "complete_end content e = (if e = 0 then 0 else
     (let start = e - READ_SIZE in
      case rfind_byte 10 (take (e - start) (drop start content)) of
        Some i \<Rightarrow> start + i + 1
      | None \<Rightarrow> complete_end content start))"
  by pat_completeness auto
termination by (relation "measure snd") (auto simp: READ_SIZE_def)

declare complete_end.simps [simp del]

text \<open>The blocks that are copied; a file that has become shorter ends the copy with an error.\<close>

function copy_prefix :: "bytes \<Rightarrow> nat \<Rightarrow> bytes result" where
  "copy_prefix content remaining = (if remaining = 0 then Inr [] else
     (let block = take (min READ_SIZE remaining) content in
      if block = [] then Inl (ValueError ''source truncated while staging complete records'')
      else bindR (copy_prefix (drop (length block) content) (remaining - length block)) (\<lambda>rest. Inr (block @ rest))))"
  by pat_completeness auto
termination by (relation "measure snd") (auto simp: READ_SIZE_def)

declare copy_prefix.simps [simp del]

text \<open>The size that was staged, whether a partial record was left out, and the staged bytes.\<close>

definition copy_complete_records :: "bytes \<Rightarrow> bytes \<Rightarrow> (nat \<times> bool \<times> bytes) result" where
  "copy_complete_records scanned copied =
     (let complete = complete_end scanned (length scanned) in
      bindR (copy_prefix copied complete) (\<lambda>b. Inr (complete, complete < length scanned, b)))"

section \<open>One file\<close>

text \<open>Where sessions go: a catalog beside its data root, or the upload queue of a device.\<close>

record 'w sink =
  sk_fingerprint :: "'w \<Rightarrow> pystr \<Rightarrow> pystr option"
  sk_has_raw :: "'w \<Rightarrow> pystr \<Rightarrow> pystr \<Rightarrow> bool"
  sk_root :: "'w \<Rightarrow> data_root"
  sk_set_root :: "data_root \<Rightarrow> 'w \<Rightarrow> 'w"
  sk_ingest :: "session \<Rightarrow> pystr \<Rightarrow> pystr \<Rightarrow> (pystr \<times> pystr) option \<Rightarrow> raw_ref option \<Rightarrow> ('w, ingest_result) op"

definition catalog_fingerprint :: "catalog \<Rightarrow> pystr \<Rightarrow> pystr option" where
  "catalog_fingerprint ct p = map_option fst (map_of (ct_checkpoints ct) p)"

definition catalog_has_raw :: "catalog \<Rightarrow> pystr \<Rightarrow> pystr \<Rightarrow> bool" where
  "catalog_has_raw ct p f \<longleftrightarrow> list_ex (\<lambda>w. rw_path w = p \<and> rw_fingerprint w = f) (ct_raw ct)"

definition catalog_sink :: "(bytes \<Rightarrow> pystr) \<Rightarrow> (data_root \<times> catalog) sink" where
  "catalog_sink H = \<lparr>sk_fingerprint = (\<lambda>(r, ct). catalog_fingerprint ct), sk_has_raw = (\<lambda>(r, ct). catalog_has_raw ct),
     sk_root = fst, sk_set_root = (\<lambda>r (_, ct). (r, ct)),
     sk_ingest = (\<lambda>s producer request checkpoint raw (r, ct).
       let (res, ct') = ingest H r s producer request checkpoint raw ct in (res, (r, ct')))\<rparr>"

definition queue_sink :: "(bytes \<Rightarrow> pystr) \<Rightarrow> 'w device sink" where
  "queue_sink H = \<lparr>sk_fingerprint = (\<lambda>d. queue_fingerprint (dv_queue d)), sk_has_raw = (\<lambda>d. queue_has_raw (dv_queue d)),
     sk_root = dv_root, sk_set_root = (\<lambda>r d. d\<lparr>dv_root := r\<rparr>),
     sk_ingest = (\<lambda>s producer request checkpoint raw d.
       let (res, q) = queue_ingest H s request checkpoint raw (dv_queue d) in (res, d\<lparr>dv_queue := q\<rparr>))\<rparr>"

record capture_opts =
  co_raw :: bool
  co_force :: bool
  co_chunk :: bool
  co_incremental :: bool
  co_reserve :: int
  co_max :: "int option"
  co_source :: pystr

text \<open>
  The looks at a file during its capture: its names; fingerprint and size before; the bytes scanned for
  the last record and the bytes then copied; the fingerprint after that; what archiving reads,
  with the size it sees and whether its own check finds the file the same; the fingerprint at the
  end; the free space; the staging directory; the cached parser checkpoint, and whether the
  cache takes the next one.
\<close>

record source_obs =
  so_path :: pystr
  so_name :: pystr
  so_parent :: pystr
  so_before :: pystr
  so_size :: nat
  so_scanned :: bytes
  so_copied :: bytes
  so_after :: pystr
  so_raw :: bytes
  so_raw_size :: nat
  so_raw_same :: bool
  so_final :: pystr
  so_free :: nat
  so_staging :: pystr
  so_cached :: "checkpoint option"
  so_saved :: bool

datatype capture_result =
    Unchanged
  | Deferred string
  | ChangedDuringRead
  | Captured ingest_result nat bool nat bool nat bool nat

text \<open>
  \<open>Captured\<close> has the receipt, the number of events, whether the parse was incremental, the
  events it reused, whether the next checkpoint was saved, the size staged, whether a partial
  record was left out, and the size of the file.
\<close>

definition check_options :: "capture_opts \<Rightarrow> unit result" where
  "check_options opts =
     (if co_chunk opts \<and> \<not> co_raw opts then Inl (ValueError ''chunked raw capture requires archive_raw'')
      else if co_reserve opts < 0 then Inl (ValueError ''capture reserve must be a nonnegative byte count'')
      else if (case co_max opts of None \<Rightarrow> False | Some n \<Rightarrow> n < 0)
        then Inl (ValueError ''capture byte budget must be nonnegative'')
      else Inr ())"

definition parse_source :: "interp \<Rightarrow> (bytes \<Rightarrow> pystr) \<Rightarrow> (pystr \<Rightarrow> pystr result) \<Rightarrow> capture_opts \<Rightarrow> source_obs \<Rightarrow> bytes
    \<Rightarrow> (session \<times> bool \<times> nat \<times> bool) result" where
  "parse_source ip H utc opts ob content =
     (let p = \<lparr>path_name = so_name ob, path_dir = so_staging ob\<rparr> in
      if co_source opts = lit ''pi'' then bindR (parse_pi ip utc content) (\<lambda>s. Inr (s, False, 0, False))
      else if co_source opts \<noteq> lit ''codex'' then Inl (ValueError ''unsupported capture source'')
      else if co_incremental opts
        then bindR (parse_incremental ip H utc p content (if co_force opts then None else so_cached ob) (Some (so_parent ob)) False)
          (\<lambda>(s, next, work). Inr (s, wk_incremental work, wk_reused work, next \<noteq> None \<and> so_saved ob))
      else bindR (parse_file ip True [] p content) (\<lambda>out.
        let ps = po_session out;
            ps = (if ps_project ps = JStr (so_staging ob) then ps\<lparr>ps_project := JStr (so_parent ob)\<rparr> else ps) in
        bindR (normalize_session ip utc ps) (\<lambda>s. Inr (s, False, 0, False))))"

definition request_key :: "(bytes \<Rightarrow> pystr) \<Rightarrow> pystr \<Rightarrow> source_obs \<Rightarrow> bool \<Rightarrow> pystr" where
  "request_key H producer ob raw = H (utf8 (producer @ lit '':'' @ so_path ob @ lit '':'' @ so_before ob
     @ lit '':raw='' @ lit (if raw then ''True'' else ''False'')))"

text \<open>Archiving the file: \<open>None\<close> when it was found changed.\<close>

definition archive_source :: "(bytes \<Rightarrow> pystr) \<Rightarrow> (data_root \<Rightarrow> nat) \<Rightarrow> bool \<Rightarrow> source_obs \<Rightarrow> (data_root, raw_ref option) op" where
  "archive_source H free chunked ob r =
     (case object_put H free Raw chunked (so_raw_size ob) (so_raw_same ob) (so_raw ob) r of
        (Inl e, r) \<Rightarrow> (if e = SourceChangedError then Inr None else Inl e, r)
      | (Inr (dg, n), r) \<Rightarrow> (Inr (if so_final ob \<noteq> so_before ob then None
          else Some \<lparr>raw_digest = dg, raw_size = n, raw_path = so_path ob, raw_fingerprint = so_before ob\<rparr>), r))"

definition hand_over :: "(bytes \<Rightarrow> pystr) \<Rightarrow> 'w sink \<Rightarrow> pystr \<Rightarrow> capture_opts \<Rightarrow> source_obs \<Rightarrow> nat \<times> bool
    \<Rightarrow> session \<times> bool \<times> nat \<times> bool \<Rightarrow> raw_ref option \<Rightarrow> ('w, capture_result) op" where
  "hand_over H sk producer opts ob staged parsed raw w = (case parsed of (s, incr, reused, saved) \<Rightarrow>
     case sk_ingest sk s producer (request_key H producer ob (co_raw opts)) (Some (so_path ob, so_before ob)) raw w of
       (Inl e, w) \<Rightarrow> (Inl e, w)
     | (Inr receipt, w) \<Rightarrow> (Inr (Captured receipt (length (ses_events s)) incr reused saved (fst staged) (snd staged) (so_size ob)), w))"

definition capture_file :: "interp \<Rightarrow> (bytes \<Rightarrow> pystr) \<Rightarrow> (pystr \<Rightarrow> pystr result) \<Rightarrow> (data_root \<Rightarrow> nat) \<Rightarrow> 'w sink \<Rightarrow> pystr
    \<Rightarrow> capture_opts \<Rightarrow> source_obs \<Rightarrow> ('w, capture_result) op" where
  "capture_file ip H utc free sk producer opts ob w =
     (case check_options opts of Inl e \<Rightarrow> (Inl e, w) | Inr _ \<Rightarrow>
      if \<not> co_force opts \<and> sk_fingerprint sk w (so_path ob) = Some (so_before ob)
         \<and> (\<not> co_raw opts \<or> sk_has_raw sk w (so_path ob) (so_before ob))
        then (Inr Unchanged, w)
      else if (case co_max opts of None \<Rightarrow> False | Some n \<Rightarrow> n < int (so_size ob)) then (Inr (Deferred ''capture_byte_budget''), w)
      else if int (so_free ob) < int (so_size ob) * (if co_raw opts then 2 else 1) + co_reserve opts
        then (Inr (Deferred ''insufficient_staging_space''), w)
      else (case copy_complete_records (so_scanned ob) (so_copied ob) of Inl e \<Rightarrow> (Inl e, w) | Inr (complete, tail, content) \<Rightarrow>
        if so_after ob \<noteq> so_before ob then (Inr ChangedDuringRead, w)
        else (case parse_source ip H utc opts ob content of Inl e \<Rightarrow> (Inl e, w) | Inr parsed \<Rightarrow>
          if \<not> co_raw opts then hand_over H sk producer opts ob (complete, tail) parsed None w
          else (case archive_source H free (co_chunk opts) ob (sk_root sk w) of
              (Inl e, r) \<Rightarrow> (Inl e, sk_set_root sk r w)
            | (Inr None, r) \<Rightarrow> (Inr ChangedDuringRead, sk_set_root sk r w)
            | (Inr (Some raw), r) \<Rightarrow> hand_over H sk producer opts ob (complete, tail) parsed (Some raw) (sk_set_root sk r w)))))"

section \<open>A home directory\<close>

text \<open>
  The files of a home: of the roots that exist, in order, the files found in each; a later
  file of the same session replaces an earlier one. A file has its name and its whole path.
\<close>

type_synonym found = "pystr \<times> pystr"

definition file_key :: "pystr \<Rightarrow> found \<Rightarrow> pystr" where
  "file_key source f = (if source = lit ''pi'' then snd f else session_id_from_path \<lparr>path_name = fst f, path_dir = []\<rparr>)"

definition home_files :: "pystr \<Rightarrow> found list list \<Rightarrow> pystr list" where
  "home_files source roots = sort_key (split_on 47)
     (map snd (foldl (\<lambda>d f. AList.update (file_key source f) (snd f) d) [] (concat roots)))"

record home_acc =
  ha_counts :: "(string \<times> nat) list"
  ha_admitted :: nat
  ha_full :: nat
  ha_incremental :: nat
  ha_reused :: nat
  ha_saved :: nat
  ha_errors :: "(pystr \<times> exn) list"

definition empty_acc :: home_acc where
  "empty_acc = \<lparr>ha_counts = [], ha_admitted = 0, ha_full = 0, ha_incremental = 0, ha_reused = 0, ha_saved = 0, ha_errors = []\<rparr>"

definition result_label :: "capture_result \<Rightarrow> string" where
  "result_label c = (case c of Unchanged \<Rightarrow> ''unchanged'' | Deferred _ \<Rightarrow> ''deferred''
     | ChangedDuringRead \<Rightarrow> ''changed_during_read'' | Captured _ _ _ _ _ _ _ _ \<Rightarrow> ''captured'')"

definition count_of :: "(string \<times> nat) list \<Rightarrow> string \<Rightarrow> nat" where
  "count_of counts k = (case map_of counts k of None \<Rightarrow> 0 | Some n \<Rightarrow> n)"

definition add_result :: "nat \<Rightarrow> capture_result \<Rightarrow> home_acc \<Rightarrow> home_acc" where
  "add_result attempt c a =
     (let a = a\<lparr>ha_counts := AList.update (result_label c) (count_of (ha_counts a) (result_label c) + 1) (ha_counts a)\<rparr> in
      case c of
        Captured _ _ incr reused saved _ _ n \<Rightarrow> a\<lparr>ha_admitted := ha_admitted a + n,
          ha_full := ha_full a + of_bool (\<not> incr), ha_incremental := ha_incremental a + of_bool incr,
          ha_reused := ha_reused a + reused, ha_saved := ha_saved a + of_bool saved\<rparr>
      | ChangedDuringRead \<Rightarrow> a\<lparr>ha_admitted := ha_admitted a + attempt\<rparr>
      | _ \<Rightarrow> a)"

text \<open>\<open>except (OSError, ValueError)\<close>.\<close>

definition is_isolated :: "exn \<Rightarrow> bool" where
  "is_isolated e \<longleftrightarrow> is_os_error e \<or> is_value_error e"

definition remaining_budget :: "capture_opts \<Rightarrow> home_acc \<Rightarrow> capture_opts" where
  "remaining_budget opts a = opts\<lparr>co_max := map_option (\<lambda>n. max 0 (n - int (ha_admitted a))) (co_max opts)\<rparr>"

text \<open>
  What a look at a file gives: the observation, or the exception it raises, with the size that was
  seen before that.
\<close>

type_synonym look = "pystr \<Rightarrow> exn \<times> nat + source_obs"

definition seen_size :: "look \<Rightarrow> pystr \<Rightarrow> nat" where
  "seen_size obs p = (case obs p of Inl (_, n) \<Rightarrow> n | Inr ob \<Rightarrow> so_size ob)"

definition capture_path :: "interp \<Rightarrow> (bytes \<Rightarrow> pystr) \<Rightarrow> (pystr \<Rightarrow> pystr result) \<Rightarrow> (data_root \<Rightarrow> nat) \<Rightarrow> 'w sink \<Rightarrow> pystr
    \<Rightarrow> capture_opts \<Rightarrow> look \<Rightarrow> pystr \<Rightarrow> ('w, capture_result) op" where
  "capture_path ip H utc free sk producer opts obs p w = (case obs p of Inl (e, _) \<Rightarrow> (Inl e, w)
     | Inr ob \<Rightarrow> capture_file ip H utc free sk producer opts ob w)"

fun capture_paths :: "interp \<Rightarrow> (bytes \<Rightarrow> pystr) \<Rightarrow> (pystr \<Rightarrow> pystr result) \<Rightarrow> (data_root \<Rightarrow> nat) \<Rightarrow> 'w sink \<Rightarrow> pystr
    \<Rightarrow> capture_opts \<Rightarrow> look \<Rightarrow> pystr list \<Rightarrow> home_acc \<Rightarrow> ('w, home_acc) op" where
  "capture_paths ip H utc free sk producer opts obs [] a w = (Inr a, w)"
| "capture_paths ip H utc free sk producer opts obs (p # ps) a w =
     (case capture_path ip H utc free sk producer (remaining_budget opts a) obs p w of
        (Inl e, w) \<Rightarrow> if is_isolated e
          then capture_paths ip H utc free sk producer opts obs ps
            (a\<lparr>ha_admitted := ha_admitted a + seen_size obs p,
               ha_errors := ha_errors a @ [(H (utf8 p), e)]\<rparr>) w
          else (Inl e, w)
      | (Inr c, w) \<Rightarrow> capture_paths ip H utc free sk producer opts obs ps
          (add_result (seen_size obs p) c a) w)"

record home_result =
  hr_state :: string
  hr_acc :: home_acc
  hr_discovered :: nat

definition home_state :: "nat \<Rightarrow> nat \<Rightarrow> home_acc \<Rightarrow> string" where
  "home_state roots discovered a =
     (if ha_errors a \<noteq> [] \<or> 0 < count_of (ha_counts a) ''deferred'' \<or> 0 < count_of (ha_counts a) ''changed_during_read''
      then ''partial''
      else if 0 < discovered then ''complete'' else if 0 < roots then ''empty'' else ''unavailable'')"

definition capture_home :: "interp \<Rightarrow> (bytes \<Rightarrow> pystr) \<Rightarrow> (pystr \<Rightarrow> pystr result) \<Rightarrow> (data_root \<Rightarrow> nat) \<Rightarrow> 'w sink \<Rightarrow> pystr
    \<Rightarrow> capture_opts \<Rightarrow> found list list \<Rightarrow> look \<Rightarrow> ('w, home_result) op" where
  "capture_home ip H utc free sk producer opts roots obs w =
     (case check_options opts of Inl e \<Rightarrow> (Inl e, w) | Inr _ \<Rightarrow>
      let paths = home_files (co_source opts) roots in
      case capture_paths ip H utc free sk producer opts obs paths empty_acc w of
        (Inl e, w) \<Rightarrow> (Inl e, w)
      | (Inr a, w) \<Rightarrow> (Inr \<lparr>hr_state = home_state (length roots) (length paths) a, hr_acc = a, hr_discovered = length paths\<rparr>, w))"

section \<open>Providers\<close>

text \<open>\<open>load_providers\<close> of the decoded configuration, if one is given.\<close>

type_synonym provider_settings = "(pystr \<times> (pystr \<times> json) list) list"

definition check_provider :: "pystr \<times> json \<Rightarrow> (pystr \<times> (pystr \<times> json) list) result" where
  "check_provider nv = (case nv of (name, v) \<Rightarrow> (case v of
       JObj settings \<Rightarrow>
         if name \<notin> {lit ''codex'', lit ''pi'', lit ''pi-legacy''} then Inl (ValueError ''unsupported capture provider'')
         else if \<not> fst ` set settings \<subseteq> {lit ''capture_enabled'', lit ''search_by_default''}
           then Inl (ValueError ''unknown provider setting'')
         else if \<exists>(_, x) \<in> set settings. (case x of JBool _ \<Rightarrow> False | _ \<Rightarrow> True)
           then Inl (ValueError ''provider settings must be booleans'')
         else if name = lit ''pi-legacy'' \<and> truthy (get_or settings ''capture_enabled'' (JBool False))
           then Inl (ValueError ''pi-legacy is imported history; capture cannot be enabled'')
         else Inr (name, settings)
     | _ \<Rightarrow> Inl (ValueError ''unsupported capture provider'')))"

definition load_providers :: "json option \<Rightarrow> provider_settings result" where
  "load_providers config = (case config of
       None \<Rightarrow> Inr [(lit ''codex'', [(lit ''capture_enabled'', JBool True)]), (lit ''pi'', [(lit ''capture_enabled'', JBool False)])]
     | Some (JObj tbl) \<Rightarrow> (case jget tbl ''providers'' of
           Some (JObj ps) \<Rightarrow> if set (map fst tbl) = {lit ''providers''} then mapR check_provider ps
             else Inl (ValueError ''provider config requires a providers table'')
         | _ \<Rightarrow> Inl (ValueError ''provider config requires a providers table''))
     | Some _ \<Rightarrow> Inl (ValueError ''provider config requires a providers table''))"

definition is_enabled :: "provider_settings \<Rightarrow> string \<Rightarrow> bool" where
  "is_enabled settings name = truthy (get_or (case map_of settings (lit name) of None \<Rightarrow> [] | Some s \<Rightarrow> s) ''capture_enabled'' (JBool False))"

text \<open>
  The homes of the providers in order: the files found in each, and the looks at them. A
  disabled provider has no result; the budget that is left passes to the next.
\<close>

type_synonym homes = "(string \<times> found list list \<times> look) list"

fun capture_enabled :: "interp \<Rightarrow> (bytes \<Rightarrow> pystr) \<Rightarrow> (pystr \<Rightarrow> pystr result) \<Rightarrow> (data_root \<Rightarrow> nat) \<Rightarrow> 'w sink \<Rightarrow> pystr
    \<Rightarrow> capture_opts \<Rightarrow> provider_settings \<Rightarrow> homes \<Rightarrow> ('w, (string \<times> home_result option) list) op" where
  "capture_enabled ip H utc free sk producer opts settings [] w = (Inr [], w)"
| "capture_enabled ip H utc free sk producer opts settings ((name, roots, obs) # hs) w =
     (if \<not> is_enabled settings name
      then (case capture_enabled ip H utc free sk producer opts settings hs w of
          (Inl e, w) \<Rightarrow> (Inl e, w) | (Inr rs, w) \<Rightarrow> (Inr ((name, None) # rs), w))
      else (case capture_home ip H utc free sk producer (opts\<lparr>co_source := lit name\<rparr>) roots obs w of
          (Inl e, w) \<Rightarrow> (Inl e, w)
        | (Inr r, w) \<Rightarrow> (case capture_enabled ip H utc free sk producer
              (opts\<lparr>co_max := map_option (\<lambda>n. max 0 (n - int (ha_admitted (hr_acc r)))) (co_max opts)\<rparr>) settings hs w of
            (Inl e, w) \<Rightarrow> (Inl e, w) | (Inr rs, w) \<Rightarrow> (Inr ((name, Some r) # rs), w))))"

definition providers_partial :: "(string \<times> home_result option) list \<Rightarrow> bool" where
  "providers_partial rs \<longleftrightarrow> (\<exists>(_, x) \<in> set rs. case x of None \<Rightarrow> False | Some r \<Rightarrow> hr_state r = ''partial'' \<or> hr_state r = ''unavailable'')"

definition providers_admitted :: "(string \<times> home_result option) list \<Rightarrow> nat" where
  "providers_admitted rs = sum_list (map (\<lambda>(_, x). case x of None \<Rightarrow> 0 | Some r \<Rightarrow> ha_admitted (hr_acc r)) rs)"

text \<open>Without a configuration only the Codex home is captured, with its own result.\<close>

definition capture_providers :: "interp \<Rightarrow> (bytes \<Rightarrow> pystr) \<Rightarrow> (pystr \<Rightarrow> pystr result) \<Rightarrow> (data_root \<Rightarrow> nat) \<Rightarrow> 'w sink
    \<Rightarrow> pystr \<Rightarrow> capture_opts \<Rightarrow> json option \<Rightarrow> found list list \<times> look \<Rightarrow> found list list \<times> look
    \<Rightarrow> ('w, (string \<times> home_result option) list) op" where
  "capture_providers ip H utc free sk producer opts config codex pi w =
     (case load_providers config of Inl e \<Rightarrow> (Inl e, w) | Inr settings \<Rightarrow>
      if config = None then (case capture_home ip H utc free sk producer (opts\<lparr>co_source := lit ''codex''\<rparr>) (fst codex) (snd codex) w of
          (Inl e, w) \<Rightarrow> (Inl e, w) | (Inr r, w) \<Rightarrow> (Inr [(''codex'', Some r)], w))
      else capture_enabled ip H utc free sk producer opts settings [(''codex'', codex), (''pi'', pi)] w)"

end
