(* ===== verification/Capture_Facts.thy ===== *)
theory Capture_Facts
  imports Capture Devices
begin

text \<open>
  Facts of capturing: exactly the complete records are staged, a completed run has
  recorded every file so that the next run finds it unchanged, the byte budget holds over
  providers, and a run on a device is a history of its queue.
\<close>

section \<open>The staged prefix\<close>

lemma length_takeWhile_less_iff: "length (takeWhile P xs) < length xs \<longleftrightarrow> (\<exists>x \<in> set xs. \<not> P x)"
proof -
  have "length xs = length (takeWhile P xs) + length (dropWhile P xs)"
    by (metis length_append takeWhile_dropWhile_id)
  then have "length (takeWhile P xs) < length xs \<longleftrightarrow> dropWhile P xs \<noteq> []" by (cases "dropWhile P xs") simp_all
  then show ?thesis by (simp add: dropWhile_eq_Nil_conv)
qed

lemma rfind_byte_None: "rfind_byte c b = None \<longleftrightarrow> c \<notin> set b"
  using length_takeWhile_less_iff [of "\<lambda>x. x \<noteq> c" "rev b"] by (auto simp: rfind_byte_def Let_def)

lemma rfind_byte_Some:
  assumes "rfind_byte c b = Some i"
  shows "i < length b \<and> b ! i = c \<and> c \<notin> set (drop (Suc i) b)"
proof -
  let ?n = "length (takeWhile (\<lambda>x. x \<noteq> c) (rev b))"
  have n: "?n < length b" "i = length b - ?n - 1" using assms by (auto simp: rfind_byte_def Let_def split: if_splits)
  have "rev b ! ?n = c" using nth_length_takeWhile [of "\<lambda>x. x \<noteq> c" "rev b"] n by simp
  then have "b ! i = c" using n by (simp add: rev_nth)
  moreover have "drop (Suc i) b = rev (takeWhile (\<lambda>x. x \<noteq> c) (rev b))"
  proof -
    have "takeWhile (\<lambda>x. x \<noteq> c) (rev b) = take ?n (rev b)" by (rule takeWhile_eq_take)
    also have "take ?n (rev b) = rev (drop (length b - ?n) b)" by (rule take_rev)
    also have "length b - ?n = Suc i" using n by arith
    finally show ?thesis by (metis rev_rev_ident)
  qed
  moreover have "c \<notin> set (takeWhile (\<lambda>x. x \<noteq> c) (rev b))" by (auto dest: set_takeWhileD)
  ultimately show ?thesis using n by simp
qed

text \<open>The reference: the length of the longest prefix that is empty or ends with a line feed.\<close>

definition is_complete_end :: "bytes \<Rightarrow> nat \<Rightarrow> bool" where
  "is_complete_end content n \<longleftrightarrow> n \<le> length content \<and> (n \<noteq> 0 \<longrightarrow> content ! (n - 1) = 10) \<and> 10 \<notin> set (drop n content)"

lemma complete_end_correct:
  "e \<le> length content \<Longrightarrow> 10 \<notin> set (drop e content) \<Longrightarrow> is_complete_end content (complete_end content e)"
proof (induction content e rule: complete_end.induct)
  case (1 content e)
  show ?case
  proof (cases "e = 0")
    case True
    then show ?thesis using "1.prems" by (simp add: complete_end.simps is_complete_end_def)
  next
    case False
    let ?s = "e - READ_SIZE"
    define b where "b = take (e - ?s) (drop ?s content)"
    have split: "drop ?s content = b @ drop e content"
    proof -
      have "drop ?s content = b @ drop (e - ?s) (drop ?s content)" unfolding b_def by (rule append_take_drop_id [symmetric])
      then show ?thesis by simp
    qed
    note IH = "1.IH" [OF False refl, folded b_def]
    have unfold: "complete_end content e = (case rfind_byte 10 b of Some i \<Rightarrow> ?s + i + 1 | None \<Rightarrow> complete_end content ?s)"
      using False by (subst complete_end.simps) (simp add: Let_def b_def)
    have len_b: "length b = e - ?s" using "1.prems"(1) by (simp add: b_def)
    show ?thesis
    proof (cases "rfind_byte 10 b")
      case None
      then have "10 \<notin> set (drop ?s content)" unfolding split using "1.prems"(2) by (auto simp: rfind_byte_None)
      with IH [OF None] "1.prems"(1) show ?thesis by (simp add: unfold None)
    next
      case (Some i)
      note i = rfind_byte_Some [OF Some]
      have len: "?s + i < e" using i len_b by arith
      have "content ! (?s + i) = drop ?s content ! i" using len "1.prems"(1) by simp
      also have "\<dots> = b ! i" unfolding split using i by (simp add: nth_append)
      finally have at: "content ! (?s + i) = 10" using i by simp
      have "drop (?s + i + 1) content = drop (Suc i) (drop ?s content)" by (simp add: add.commute)
      also have "\<dots> = drop (Suc i) b @ drop e content" unfolding split using i by simp
      finally have "10 \<notin> set (drop (?s + i + 1) content)" using i "1.prems"(2) by simp
      then show ?thesis unfolding is_complete_end_def unfold Some using at len "1.prems"(1) by simp
    qed
  qed
qed

lemma copy_prefix_take: "n \<le> length content \<Longrightarrow> copy_prefix content n = Inr (take n content)"
proof (induction content n rule: copy_prefix.induct)
  case (1 content remaining)
  show ?case
  proof (cases "remaining = 0")
    case False
    let ?b = "take (min READ_SIZE remaining) content"
    have b: "?b \<noteq> []" "length ?b = min READ_SIZE remaining" using False "1.prems" by (auto simp: READ_SIZE_def)
    have "copy_prefix (drop (length ?b) content) (remaining - length ?b) = Inr (take (remaining - length ?b) (drop (length ?b) content))"
      using "1.IH" [OF False refl b(1)] "1.prems" b(2) by simp
    then have "copy_prefix content remaining = Inr (?b @ take (remaining - length ?b) (drop (length ?b) content))"
      using False b(1) by (subst copy_prefix.simps) (simp add: Let_def)
    also have "?b @ take (remaining - length ?b) (drop (length ?b) content) = take remaining content"
      using b(2) take_add [of "length ?b" "remaining - length ?b" content] by simp
    finally show ?thesis .
  qed (simp add: copy_prefix.simps)
qed

text \<open>
  Staging copies exactly the complete records. Of a file that does not change meanwhile the longest prefix that is empty or ends with a
  line feed is copied, however the search from the end is split into blocks, and a partial
  record is reported exactly when bytes are left out.
\<close>

theorem staged_prefix_is_complete_records:
  "\<exists>n. copy_complete_records content content = Inr (n, n < length content, take n content)
     \<and> n \<le> length content \<and> (n = 0 \<or> content ! (n - 1) = 10) \<and> 10 \<notin> set (drop n content)"
proof -
  have "is_complete_end content (complete_end content (length content))" by (rule complete_end_correct) simp_all
  then show ?thesis unfolding is_complete_end_def
    by (intro exI [of _ "complete_end content (length content)"]) (auto simp: copy_complete_records_def copy_prefix_take Let_def)
qed

section \<open>The outcomes of a capture\<close>

definition fits_budget :: "capture_opts \<Rightarrow> source_obs \<Rightarrow> bool" where
  "fits_budget opts ob \<longleftrightarrow> (case co_max opts of None \<Rightarrow> True | Some n \<Rightarrow> int (so_size ob) \<le> n)"

lemma archive_reference:
  "archive_source H free chunked ob r = (Inr (Some a), r') \<Longrightarrow> raw_path a = so_path ob \<and> raw_fingerprint a = so_before ob"
  by (auto simp: archive_source_def split: prod.split_asm sum.split_asm if_split_asm)

lemma capture_file_outcomes:
  assumes "capture_file ip H utc free sk producer opts ob w = (res, w')"
  obtains (unchanged) "res = Inr Unchanged" "w' = w" "sk_fingerprint sk w (so_path ob) = Some (so_before ob)"
      "co_raw opts \<longrightarrow> sk_has_raw sk w (so_path ob) (so_before ob)"
  | (deferred) why where "res = Inr (Deferred why)" "w' = w"
  | (refused) e where "res = Inl e" "w' = w" "check_options opts = Inl e"
  | (given_up) r where "w' = w \<or> w' = sk_set_root sk r w" "res = Inr ChangedDuringRead \<or> (\<exists>e. res = Inl e)" "fits_budget opts ob"
  | (handed) staged parsed raw r v where "hand_over H sk producer opts ob staged parsed raw v = (res, w')"
      "v = w \<or> v = sk_set_root sk r w" "fits_budget opts ob"
      "case raw of None \<Rightarrow> \<not> co_raw opts | Some a \<Rightarrow> raw_path a = so_path ob \<and> raw_fingerprint a = so_before ob"
proof (cases "check_options opts")
  case (Inl e)
  then have "res = Inl e" "w' = w" using assms by (simp_all add: capture_file_def)
  then show thesis using refused Inl by blast
next
  case options: (Inr u)
  show thesis
  proof (cases "\<not> co_force opts \<and> sk_fingerprint sk w (so_path ob) = Some (so_before ob)
      \<and> (\<not> co_raw opts \<or> sk_has_raw sk w (so_path ob) (so_before ob))")
    case True
    then show thesis using assms unchanged options by (auto simp: capture_file_def)
  next
    case changed: False
    note run = assms [unfolded capture_file_def options sum.case if_not_P [OF changed]]
    show thesis
    proof (cases "(case co_max opts of None \<Rightarrow> False | Some n \<Rightarrow> n < int (so_size ob))")
      case True
      then have "res = Inr (Deferred ''capture_byte_budget'')" "w' = w" using run by simp_all
      then show thesis using deferred by blast
    next
      case small: False
      then have fits: "fits_budget opts ob" by (simp add: fits_budget_def split: option.split_asm)
      show thesis
      proof (cases "int (so_free ob) < int (so_size ob) * (if co_raw opts then 2 else 1) + co_reserve opts")
        case True
        then have "res = Inr (Deferred ''insufficient_staging_space'')" "w' = w"
          using run [unfolded if_not_P [OF small]] by simp_all
        then show thesis using deferred by blast
      next
        case room: False
        note run = run [unfolded if_not_P [OF small] if_not_P [OF room]]
        obtain cp where cp: "copy_complete_records (so_scanned ob) (so_copied ob) = Inr cp \<or> (w' = w \<and> (\<exists>e. res = Inl e))"
          using run by (cases "copy_complete_records (so_scanned ob) (so_copied ob)") auto
        show thesis
        proof (cases "w' = w \<and> (res = Inr ChangedDuringRead \<or> (\<exists>e. res = Inl e))")
          case True
          then show thesis using given_up fits by blast
        next
          case False
          with cp obtain complete tail content where copied: "copy_complete_records (so_scanned ob) (so_copied ob) = Inr (complete, tail, content)"
            by (cases cp) auto
          note run = run [unfolded copied sum.case prod.case]
          have same: "so_after ob = so_before ob" using run False by (auto split: if_split_asm)
          obtain parsed where parsed: "parse_source ip H utc opts ob content = Inr parsed"
            using run same False by (cases "parse_source ip H utc opts ob content") auto
          show thesis
          proof (cases "co_raw opts")
            case False
            then have "hand_over H sk producer opts ob (complete, tail) parsed None w = (res, w')"
              using run same parsed by simp
            then show thesis using handed fits False by fastforce
          next
            case True
            obtain a r where arch: "archive_source H free (co_chunk opts) ob (sk_root sk w) = (a, r)"
              by (cases "archive_source H free (co_chunk opts) ob (sk_root sk w)")
            note run = run [unfolded arch]
            show thesis
            proof (cases "\<exists>raw. a = Inr (Some raw)")
              case True
              then obtain raw where raw: "a = Inr (Some raw)" ..
              then have "hand_over H sk producer opts ob (complete, tail) parsed (Some raw) (sk_set_root sk r w) = (res, w')"
                using run same parsed \<open>co_raw opts\<close> by simp
              then show thesis using handed fits archive_reference [OF arch [unfolded raw]] by fastforce
            next
              case False
              then have "w' = sk_set_root sk r w \<and> (res = Inr ChangedDuringRead \<or> (\<exists>e. res = Inl e))"
                using run same parsed \<open>co_raw opts\<close> by (auto split: sum.split_asm option.split_asm)
              then show thesis using given_up fits by blast
            qed
          qed
        qed
      qed
    qed
  qed
qed

lemma hand_over_result:
  "hand_over H sk producer opts ob staged parsed raw w = (res, w') \<Longrightarrow>
     (\<exists>e. res = Inl e) \<or> (\<exists>receipt n incr reused saved. res = Inr (Captured receipt n incr reused saved (fst staged) (snd staged) (so_size ob)))"
  by (auto simp: hand_over_def split: prod.split_asm sum.split_asm)

section \<open>Sinks\<close>

locale sink =
  fixes sk :: "'w sink"
  assumes root_fingerprint: "sk_fingerprint sk (sk_set_root sk r w) = sk_fingerprint sk w"
    and ingest_other: "sk_ingest sk s producer key (Some (p, f)) raw w = (Inr x, w') \<Longrightarrow> q \<noteq> p \<Longrightarrow> sk_fingerprint sk w' q = sk_fingerprint sk w q"
    and ingest_fails: "sk_ingest sk s producer key c raw w = (Inl e, w') \<Longrightarrow> w' = w"
begin

lemma hand_over_other:
  "hand_over H sk producer opts ob staged parsed raw w = (res, w') \<Longrightarrow> q \<noteq> so_path ob \<Longrightarrow> sk_fingerprint sk w' q = sk_fingerprint sk w q"
  by (auto simp: hand_over_def dest: ingest_other ingest_fails split: prod.split_asm sum.split_asm)

lemma capture_file_other:
  assumes "capture_file ip H utc free sk producer opts ob w = (res, w')" "q \<noteq> so_path ob"
  shows "sk_fingerprint sk w' q = sk_fingerprint sk w q"
  using assms(1)
proof (cases rule: capture_file_outcomes)
  case (handed staged parsed raw r v)
  then show ?thesis using hand_over_other [OF handed(1) assms(2)] by (auto simp: root_fingerprint)
qed (auto simp: root_fingerprint)

end

locale recording_sink = sink +
  assumes ingest_records: "sk_ingest sk s producer key (Some (p, f)) raw w = (Inr x, w') \<Longrightarrow> sk_fingerprint sk w' p = Some f"
    and ingest_raw: "sk_ingest sk s producer key c (Some a) w = (Inr x, w') \<Longrightarrow> sk_has_raw sk w' (raw_path a) (raw_fingerprint a)"
begin

lemma hand_over_records:
  assumes "hand_over H sk producer opts ob staged parsed raw w = (Inr c, w')"
    and "case raw of None \<Rightarrow> \<not> co_raw opts | Some a \<Rightarrow> raw_path a = so_path ob \<and> raw_fingerprint a = so_before ob"
  shows "sk_fingerprint sk w' (so_path ob) = Some (so_before ob) \<and> (co_raw opts \<longrightarrow> sk_has_raw sk w' (so_path ob) (so_before ob))"
  using assms
  by (auto simp: hand_over_def dest: ingest_records ingest_raw split: prod.split_asm sum.split_asm option.split_asm)

lemma capture_file_records:
  assumes "capture_file ip H utc free sk producer opts ob w = (Inr c, w')" "\<forall>r. c \<noteq> Deferred r" "c \<noteq> ChangedDuringRead"
  shows "sk_fingerprint sk w' (so_path ob) = Some (so_before ob) \<and> (co_raw opts \<longrightarrow> sk_has_raw sk w' (so_path ob) (so_before ob))"
  using assms(1)
proof (cases rule: capture_file_outcomes)
  case (handed staged parsed raw r v)
  then show ?thesis using hand_over_records by blast
qed (use assms in auto)

text \<open>A file that has been captured is found unchanged the next time.\<close>

lemma captured_then_unchanged:
  assumes "capture_file ip H utc free sk producer opts ob w = (Inr c, w')" "\<forall>r. c \<noteq> Deferred r" "c \<noteq> ChangedDuringRead"
    and "\<not> co_force opts'" "co_raw opts' \<longrightarrow> co_raw opts" "check_options opts' = Inr ()"
    and "so_path ob' = so_path ob" "so_before ob' = so_before ob"
  shows "capture_file ip H utc free sk producer opts' ob' w' = (Inr Unchanged, w')"
  using capture_file_records [OF assms(1-3)] assms(4-8) by (simp add: capture_file_def)

end

section \<open>Runs\<close>

text \<open>How often a run had to leave a file for later.\<close>

definition trouble :: "home_acc \<Rightarrow> nat" where
  "trouble a = length (ha_errors a) + count_of (ha_counts a) ''deferred'' + count_of (ha_counts a) ''changed_during_read''"

lemma count_update: "count_of (AList.update k n d) l = (if l = k then n else count_of d l)"
  by (simp add: count_of_def update_conv')

lemma trouble_result:
  "trouble (add_result n c a) = trouble a + (case c of Deferred _ \<Rightarrow> 1 | ChangedDuringRead \<Rightarrow> 1 | _ \<Rightarrow> 0)"
  by (cases c) (simp_all add: trouble_def add_result_def result_label_def count_update Let_def)

lemma trouble_error: "trouble (a\<lparr>ha_admitted := n, ha_errors := ha_errors a @ [x]\<rparr>) = trouble a + 1"
  by (simp add: trouble_def)

lemma capture_paths_trouble:
  "capture_paths ip H utc free sk producer opts obs ps a w = (Inr a', w') \<Longrightarrow> trouble a \<le> trouble a'"
proof (induction ps arbitrary: a w)
  case (Cons p ps)
  obtain res w1 where step: "capture_path ip H utc free sk producer (remaining_budget opts a) obs p w = (res, w1)"
    by (cases "capture_path ip H utc free sk producer (remaining_budget opts a) obs p w")
  show ?case
  proof (cases res)
    case (Inl e)
    with Cons.prems step have "capture_paths ip H utc free sk producer opts obs ps
        (a\<lparr>ha_admitted := ha_admitted a + seen_size obs p, ha_errors := ha_errors a @ [(H (utf8 p), e)]\<rparr>) w1 = (Inr a', w')"
      by (simp split: if_split_asm)
    from Cons.IH [OF this] show ?thesis by (simp add: trouble_error)
  next
    case (Inr c)
    with Cons.prems step have "capture_paths ip H utc free sk producer opts obs ps (add_result (seen_size obs p) c a) w1 = (Inr a', w')"
      by simp
    from Cons.IH [OF this] show ?thesis by (simp add: trouble_result)
  qed
qed simp

definition looks_named :: "look \<Rightarrow> pystr list \<Rightarrow> bool" where
  "looks_named obs ps \<longleftrightarrow> list_all (\<lambda>p. case obs p of Inl _ \<Rightarrow> True | Inr ob \<Rightarrow> so_path ob = p) ps"

context sink
begin

lemma capture_path_other:
  assumes "capture_path ip H utc free sk producer opts obs p w = (res, w')" "q \<noteq> p" "looks_named obs [p]"
  shows "sk_fingerprint sk w' q = sk_fingerprint sk w q"
  using assms capture_file_other by (auto simp: capture_path_def looks_named_def split: sum.split_asm)

lemma capture_paths_other:
  "capture_paths ip H utc free sk producer opts obs ps a w = (res, w') \<Longrightarrow> q \<notin> set ps \<Longrightarrow> looks_named obs ps \<Longrightarrow>
     sk_fingerprint sk w' q = sk_fingerprint sk w q"
proof (induction ps arbitrary: a w)
  case (Cons p ps)
  obtain r w1 where step: "capture_path ip H utc free sk producer (remaining_budget opts a) obs p w = (r, w1)"
    by (cases "capture_path ip H utc free sk producer (remaining_budget opts a) obs p w")
  have "sk_fingerprint sk w1 q = sk_fingerprint sk w q"
    using capture_path_other [OF step] Cons.prems(2,3) by (simp add: looks_named_def)
  moreover have "sk_fingerprint sk w' q = sk_fingerprint sk w1 q"
    using Cons.prems Cons.IH step by (auto simp: looks_named_def split: sum.split_asm if_split_asm)
  ultimately show ?case by simp
qed simp

end

context recording_sink
begin

lemma capture_paths_record:
  "capture_paths ip H utc free sk producer opts obs ps a w = (Inr a', w') \<Longrightarrow> trouble a' = trouble a \<Longrightarrow> looks_named obs ps \<Longrightarrow>
     p \<in> set ps \<Longrightarrow> \<exists>ob. obs p = Inr ob \<and> sk_fingerprint sk w' p = Some (so_before ob)"
proof (induction ps arbitrary: a w)
  case (Cons x ps)
  obtain r w1 where step: "capture_path ip H utc free sk producer (remaining_budget opts a) obs x w = (r, w1)"
    by (cases "capture_path ip H utc free sk producer (remaining_budget opts a) obs x w")
  have "\<exists>c. r = Inr c \<and> capture_paths ip H utc free sk producer opts obs ps (add_result (seen_size obs x) c a) w1 = (Inr a', w')"
  proof (cases r)
    case (Inl e)
    with Cons.prems(1) step have "capture_paths ip H utc free sk producer opts obs ps
        (a\<lparr>ha_admitted := ha_admitted a + seen_size obs x, ha_errors := ha_errors a @ [(H (utf8 x), e)]\<rparr>) w1 = (Inr a', w')"
      by (simp split: if_split_asm)
    from capture_paths_trouble [OF this] Cons.prems(2) show ?thesis by (simp add: trouble_error)
  qed (use Cons.prems step in simp)
  then obtain c where c: "r = Inr c" "capture_paths ip H utc free sk producer opts obs ps (add_result (seen_size obs x) c a) w1 = (Inr a', w')"
    by blast
  have same: "trouble (add_result (seen_size obs x) c a) = trouble a" "trouble a' = trouble (add_result (seen_size obs x) c a)"
    using capture_paths_trouble [OF c(2)] Cons.prems(2) by (simp_all add: trouble_result)
  obtain ob where ob: "obs x = Inr ob" "capture_file ip H utc free sk producer (remaining_budget opts a) ob w = (Inr c, w1)" "so_path ob = x"
    using step c(1) Cons.prems(3) by (auto simp: capture_path_def looks_named_def split: sum.split_asm)
  have "sk_fingerprint sk w1 x = Some (so_before ob)"
    using capture_file_records [OF ob(2)] ob(3) same(1) by (auto simp: trouble_result split: capture_result.split_asm)
  moreover have "looks_named obs ps" using Cons.prems(3) by (simp add: looks_named_def)
  ultimately show ?case
    using Cons.IH [OF c(2) same(2)] Cons.prems(4) ob(1) capture_paths_other [OF c(2)] by (cases "p \<in> set ps") auto
qed simp

lemma capture_home_records:
  assumes "capture_home ip H utc free sk producer opts roots obs w = (Inr r, w')" "hr_state r = ''complete''"
    and "looks_named obs (home_files (co_source opts) roots)" "p \<in> set (home_files (co_source opts) roots)"
  shows "\<exists>ob. obs p = Inr ob \<and> sk_fingerprint sk w' p = Some (so_before ob)"
proof -
  obtain a where run: "capture_paths ip H utc free sk producer opts obs (home_files (co_source opts) roots) empty_acc w = (Inr a, w')"
    and r: "r = \<lparr>hr_state = home_state (length roots) (length (home_files (co_source opts) roots)) a, hr_acc = a,
      hr_discovered = length (home_files (co_source opts) roots)\<rparr>"
    using assms(1) by (auto simp: capture_home_def Let_def split: sum.split_asm prod.split_asm)
  have "trouble a = trouble empty_acc"
    using assms(2) by (auto simp: r home_state_def trouble_def empty_acc_def count_of_def split: if_split_asm)
  from capture_paths_record [OF run this assms(3,4)] show ?thesis .
qed

end

interpretation catalog: sink "catalog_sink H" for H
proof
  fix s producer key and p f :: pystr and raw and w w' :: "data_root \<times> catalog" and x q
  assume "sk_ingest (catalog_sink H) s producer key (Some (p, f)) raw w = (Inr x, w')" "q \<noteq> p"
  moreover obtain r ct where w: "w = (r, ct)" by (cases w)
  ultimately obtain ct' where run: "ingest H r s producer key (Some (p, f)) raw ct = (Inr x, ct')" "w' = (r, ct')"
    by (auto simp: catalog_sink_def Let_def split: prod.split_asm)
  from run(1) have "catalog_fingerprint ct' q = catalog_fingerprint ct q"
  proof (cases rule: ingest_outcomes)
    case (stored ct1)
    with ingest_new_tables [OF stored(3)] \<open>q \<noteq> p\<close> show ?thesis
      by (simp add: catalog_fingerprint_def record_receipt_def update_conv')
  qed (use \<open>q \<noteq> p\<close> in \<open>simp_all add: catalog_fingerprint_def record_receipt_def update_conv'\<close>)
  then show "sk_fingerprint (catalog_sink H) w' q = sk_fingerprint (catalog_sink H) w q"
    by (simp add: catalog_sink_def w run)
next
  fix s producer key c raw and w w' :: "data_root \<times> catalog" and e
  assume "sk_ingest (catalog_sink H) s producer key c raw w = (Inl e, w')"
  moreover obtain r ct where w: "w = (r, ct)" by (cases w)
  ultimately obtain ct' where run: "ingest H r s producer key c raw ct = (Inl e, ct')" "w' = (r, ct')"
    by (auto simp: catalog_sink_def Let_def split: prod.split_asm)
  from run(1) have "ct' = ct" by (cases rule: ingest_outcomes) simp_all
  then show "w' = w" by (simp add: w run)
qed (auto simp: catalog_sink_def)

interpretation queue: recording_sink "queue_sink H" for H
  by unfold_locales
    (auto simp: queue_sink_def Let_def queue_ingest_def note_capture_def queue_fingerprint_def queue_has_raw_def update_conv'
      split: prod.split_asm if_split_asm option.split_asm option.splits)

text \<open>
  C38: A complete run of a device has recorded everything. When capturing a home reports
  \<open>complete\<close>, every file found is in the queue's records under the fingerprint that was seen,
  so that nothing was left out by an error, the budget or a change during reading.
\<close>

theorem complete_run_records_every_file:
  assumes "capture_home ip H utc free (queue_sink H) producer opts roots obs d = (Inr r, d')" "hr_state r = ''complete''"
    and "looks_named obs (home_files (co_source opts) roots)" "p \<in> set (home_files (co_source opts) roots)"
  shows "\<exists>ob. obs p = Inr ob \<and> queue_fingerprint (dv_queue d') p = Some (so_before ob)"
  using queue.capture_home_records [OF assms] by (simp add: queue_sink_def)

section \<open>The byte budget\<close>

text \<open>A look that fails shows no size: no file vanishes between the first two looks.\<close>

definition failing_looks_empty :: "look \<Rightarrow> bool" where
  "failing_looks_empty obs \<longleftrightarrow> (\<forall>p. case obs p of Inl (_, n) \<Rightarrow> n = 0 | Inr _ \<Rightarrow> True)"

lemma check_remaining: "check_options opts = Inr () \<Longrightarrow> check_options (remaining_budget opts a) = Inr ()"
  by (auto simp: check_options_def remaining_budget_def split: if_split_asm option.split_asm option.splits)

lemma capture_path_budget:
  assumes "capture_path ip H utc free sk producer (remaining_budget opts a) obs p w = (res, w')"
    and "check_options opts = Inr ()" "co_max opts = Some m" "failing_looks_empty obs" "int (ha_admitted a) \<le> m"
  shows "(case res of Inl _ \<Rightarrow> int (ha_admitted a + seen_size obs p) \<le> m
    | Inr c \<Rightarrow> int (ha_admitted (add_result (seen_size obs p) c a)) \<le> m)"
proof (cases "obs p")
  case (Inl en)
  obtain e n where en: "en = (e, n)" by (cases en)
  have "case obs p of Inl (_, n) \<Rightarrow> n = 0 | Inr _ \<Rightarrow> True" using assms(4) unfolding failing_looks_empty_def by (rule spec)
  then have "seen_size obs p = 0" by (simp add: seen_size_def Inl en)
  then show ?thesis using assms(1,5) Inl by (auto simp: capture_path_def split: prod.split_asm)
next
  case (Inr ob)
  have fits: "int (ha_admitted a + so_size ob) \<le> m" if "fits_budget (remaining_budget opts a) ob"
    using that assms(3,5) by (simp add: fits_budget_def remaining_budget_def)
  have size: "seen_size obs p = so_size ob" using Inr by (simp add: seen_size_def)
  have "capture_file ip H utc free sk producer (remaining_budget opts a) ob w = (res, w')" using assms(1) Inr by (simp add: capture_path_def)
  then show ?thesis
  proof (cases rule: capture_file_outcomes)
    case (handed staged parsed raw r v)
    then show ?thesis using fits hand_over_result [OF handed(1)] by (auto simp: size add_result_def Let_def)
  next
    case (refused e)
    then show ?thesis using check_remaining [OF assms(2)] by simp
  qed (use fits assms(5) in \<open>auto simp: size add_result_def Let_def\<close>)
qed

lemma capture_paths_budget:
  "capture_paths ip H utc free sk producer opts obs ps a w = (Inr a', w') \<Longrightarrow> check_options opts = Inr () \<Longrightarrow>
   co_max opts = Some m \<Longrightarrow> failing_looks_empty obs \<Longrightarrow> int (ha_admitted a) \<le> m \<Longrightarrow> int (ha_admitted a') \<le> m"
proof (induction ps arbitrary: a w)
  case (Cons p ps)
  obtain res w1 where step: "capture_path ip H utc free sk producer (remaining_budget opts a) obs p w = (res, w1)"
    by (cases "capture_path ip H utc free sk producer (remaining_budget opts a) obs p w")
  note bound = capture_path_budget [OF step Cons.prems(2-5)]
  show ?case
  proof (cases res)
    case (Inl e)
    with Cons.prems(1) step have "capture_paths ip H utc free sk producer opts obs ps
        (a\<lparr>ha_admitted := ha_admitted a + seen_size obs p, ha_errors := ha_errors a @ [(H (utf8 p), e)]\<rparr>) w1 = (Inr a', w')"
      by (simp split: if_split_asm)
    from Cons.IH [OF this Cons.prems(2-4)] bound Inl show ?thesis by simp
  next
    case (Inr c)
    with Cons.prems(1) step have "capture_paths ip H utc free sk producer opts obs ps (add_result (seen_size obs p) c a) w1 = (Inr a', w')"
      by simp
    from Cons.IH [OF this Cons.prems(2-4)] bound Inr show ?thesis by simp
  qed
qed simp

lemma capture_home_budget:
  assumes "capture_home ip H utc free sk producer opts roots obs w = (Inr r, w')" "co_max opts = Some m" "failing_looks_empty obs"
  shows "int (ha_admitted (hr_acc r)) \<le> m \<and> 0 \<le> m"
proof -
  have check: "check_options opts = Inr ()" using assms(1) by (auto simp: capture_home_def split: sum.split_asm)
  then have m: "0 \<le> m" using assms(2) by (auto simp: check_options_def split: if_split_asm)
  obtain a where run: "capture_paths ip H utc free sk producer opts obs (home_files (co_source opts) roots) empty_acc w = (Inr a, w')"
    and r: "hr_acc r = a"
    using assms(1) check by (auto simp: capture_home_def Let_def split: sum.split_asm prod.split_asm)
  have "int (ha_admitted empty_acc) \<le> m" using m by (simp add: empty_acc_def)
  from capture_paths_budget [OF run check assms(2,3) this] m r show ?thesis by simp
qed

lemma capture_enabled_budget:
  "capture_enabled ip H utc free sk producer opts settings hs w = (Inr rs, w') \<Longrightarrow> co_max opts = Some m \<Longrightarrow> 0 \<le> m \<Longrightarrow>
   list_all (\<lambda>(_, _, obs). failing_looks_empty obs) hs \<Longrightarrow> int (providers_admitted rs) \<le> m"
proof (induction hs arbitrary: opts w rs m)
  case (Cons h hs)
  obtain name roots obs where h: "h = (name, roots, obs)" by (cases h)
  show ?case
  proof (cases "is_enabled settings name")
    case False
    then obtain rs1 where "capture_enabled ip H utc free sk producer opts settings hs w = (Inr rs1, w')" "rs = (name, None) # rs1"
      using Cons.prems(1) h by (auto split: sum.split_asm prod.split_asm)
    with Cons.IH [of opts w rs1 m] Cons.prems(2-4) show ?thesis by (simp add: providers_admitted_def)
  next
    case True
    let ?opts = "opts\<lparr>co_source := lit name\<rparr>"
    obtain r w1 rs1 where home: "capture_home ip H utc free sk producer ?opts roots obs w = (Inr r, w1)"
      and rest: "capture_enabled ip H utc free sk producer (opts\<lparr>co_max := map_option (\<lambda>n. max 0 (n - int (ha_admitted (hr_acc r)))) (co_max opts)\<rparr>)
        settings hs w1 = (Inr rs1, w')" and rs: "rs = (name, Some r) # rs1"
      using Cons.prems(1) h True by (auto split: sum.split_asm prod.split_asm)
    have "int (ha_admitted (hr_acc r)) \<le> m" using capture_home_budget [OF home, of m] Cons.prems h by simp
    moreover have "int (providers_admitted rs1) \<le> m - int (ha_admitted (hr_acc r))"
      using Cons.IH [OF rest, of "m - int (ha_admitted (hr_acc r))"] calculation Cons.prems h by simp
    ultimately show ?thesis by (simp add: rs providers_admitted_def)
  qed
qed (simp add: providers_admitted_def)

text \<open>
  The byte budget of a run holds over all providers together: the bytes read for files that were
  captured, changed or failed never exceed it.
\<close>

theorem providers_stay_within_budget:
  assumes "capture_providers ip H utc free sk producer opts config codex pi w = (Inr rs, w')" "co_max opts = Some m" "0 \<le> m"
    and "failing_looks_empty (snd codex)" "failing_looks_empty (snd pi)"
  shows "int (providers_admitted rs) \<le> m"
proof (cases "config = None")
  case True
  then obtain r where home: "capture_home ip H utc free sk producer (opts\<lparr>co_source := lit ''codex''\<rparr>) (fst codex) (snd codex) w = (Inr r, w')"
    and rs: "rs = [(''codex'', Some r)]"
    using assms(1) by (auto simp: capture_providers_def split: sum.split_asm prod.split_asm)
  show ?thesis using capture_home_budget [OF home, of m] assms by (simp add: rs providers_admitted_def)
next
  case False
  then obtain settings where "capture_enabled ip H utc free sk producer opts settings [(''codex'', codex), (''pi'', pi)] w = (Inr rs, w')"
    using assms(1) by (auto simp: capture_providers_def split: sum.split_asm)
  from capture_enabled_budget [OF this assms(2,3)] assms(4,5) show ?thesis by (simp add: split_beta)
qed

section \<open>Captures as a history of the device\<close>

definition is_capture :: "device_event \<Rightarrow> bool" where
  "is_capture e = (case e of Capture _ _ _ _ \<Rightarrow> True | Staged _ \<Rightarrow> True | _ \<Rightarrow> False)"

definition captures :: "(bytes \<Rightarrow> pystr) \<Rightarrow> primary \<Rightarrow> pystr \<Rightarrow> network device \<Rightarrow> network device \<Rightarrow> bool" where
  "captures H prim producer d d' \<longleftrightarrow> (\<exists>es. list_all is_capture es \<and> d' = run_device H prim producer es d)"

lemma captures_refl [simp]: "captures H prim producer d d"
  by (auto simp: captures_def run_device_def intro!: exI [of _ "[]"])

lemma captures_trans: "captures H prim producer a b \<Longrightarrow> captures H prim producer b c \<Longrightarrow> captures H prim producer a c"
proof -
  assume "captures H prim producer a b" "captures H prim producer b c"
  then obtain es fs where "list_all is_capture (es @ fs)" "c = run_device H prim producer (es @ fs) a"
    by (auto simp: captures_def run_device_def)
  then show ?thesis unfolding captures_def by blast
qed

lemma captures_step: "is_capture e \<Longrightarrow> captures H prim producer d (device_step H prim producer e d)"
  by (auto simp: captures_def run_device_def intro!: exI [of _ "[e]"])

lemma captures_root: "captures H prim producer d (sk_set_root (queue_sink H) r d)"
  using captures_step [of "Staged r" H prim producer d] by (simp add: is_capture_def queue_sink_def)

lemma captures_hand_over:
  assumes "hand_over H (queue_sink H) producer opts ob staged parsed raw d = (res, d')"
  shows "captures H prim producer d d'"
proof -
  obtain s incr reused saved where parsed: "parsed = (s, incr, reused, saved)" by (cases parsed)
  let ?e = "Capture s (request_key H producer ob (co_raw opts)) (Some (so_path ob, so_before ob)) raw"
  have "d' = device_step H prim producer ?e d"
    using assms by (auto simp: hand_over_def parsed queue_sink_def Let_def split: prod.split_asm sum.split_asm)
  moreover have "is_capture ?e" by (simp add: is_capture_def)
  ultimately show ?thesis by (metis captures_step)
qed

lemma captures_file:
  assumes "capture_file ip H utc free (queue_sink H) producer opts ob d = (res, d')"
  shows "captures H prim producer d d'"
  using assms
proof (cases rule: capture_file_outcomes)
  case (handed staged parsed raw r v)
  have "captures H prim producer d v" using handed(2) captures_root [of H prim producer d r] by auto
  with captures_hand_over [OF handed(1)] show ?thesis using captures_trans by blast
qed (auto intro: captures_root)

lemma captures_paths:
  "capture_paths ip H utc free (queue_sink H) producer opts obs ps a d = (res, d') \<Longrightarrow> captures H prim producer d d'"
proof (induction ps arbitrary: a d)
  case (Cons p ps)
  obtain r d1 where step: "capture_path ip H utc free (queue_sink H) producer (remaining_budget opts a) obs p d = (r, d1)"
    by (cases "capture_path ip H utc free (queue_sink H) producer (remaining_budget opts a) obs p d")
  have "captures H prim producer d d1" using step captures_file by (auto simp: capture_path_def split: sum.split_asm)
  moreover have "captures H prim producer d1 d'"
    using Cons.prems Cons.IH step by (auto split: sum.split_asm if_split_asm)
  ultimately show ?case by (rule captures_trans)
qed simp


section \<open>A small home\<close>

definition sample_obs :: source_obs where
  "sample_obs = \<lparr>so_path = lit ''/h/a'', so_name = lit ''a'', so_parent = lit ''/h'', so_before = lit ''f'', so_size = 6,
     so_scanned = pi_content, so_copied = pi_content, so_after = lit ''f'', so_raw = [], so_raw_size = 0, so_raw_same = True,
     so_final = lit ''f'', so_free = 100, so_staging = lit ''/t'', so_cached = None, so_saved = False\<rparr>"

definition sample_opts :: capture_opts where
  "sample_opts = \<lparr>co_raw = False, co_force = False, co_chunk = False, co_incremental = False, co_reserve = 10, co_max = Some 50,
     co_source = lit ''pi''\<rparr>"

definition sample_roots :: "found list list" where
  "sample_roots = [[(lit ''a'', lit ''/h/a'')]]"

definition sample_look :: look where
  "sample_look = (\<lambda>_. Inr sample_obs)"

definition fresh_device :: "unit device" where
  "fresh_device = \<lparr>dv_queue = empty_queue, dv_root = empty_root, dv_net = ()\<rparr>"

lemma sample_staged: "copy_complete_records pi_content pi_content = Inr (6, False, pi_content)"
proof -
  have "is_complete_end pi_content (complete_end pi_content (length pi_content))" by (rule complete_end_correct) simp_all
  moreover have "pi_content ! 5 = 10" "length pi_content = 6" by (simp_all add: pi_content_def)
  moreover have "n = 6" if n: "is_complete_end pi_content n" for n
  proof (rule ccontr)
    assume "n \<noteq> 6"
    then have "n \<le> 5" using n by (simp add: is_complete_end_def pi_content_def)
    then have "10 \<in> set (drop n pi_content)"
      using nth_mem [of "5 - n" "drop n pi_content"] by (simp add: pi_content_def numeral_nat)
    then show False using n by (simp add: is_complete_end_def)
  qed
  ultimately have "complete_end pi_content (length pi_content) = 6" by blast
  then show ?thesis by (simp add: copy_complete_records_def copy_prefix_take pi_content_def Let_def)
qed

lemma sample_capture:
  "\<exists>r d'. capture_home pi_interp (\<lambda>b. b) Inr (\<lambda>_. 0) (queue_sink (\<lambda>b. b)) (lit ''p'') sample_opts sample_roots sample_look fresh_device
     = (Inr r, d') \<and> hr_state r = ''complete'' \<and> ha_admitted (hr_acc r) = 6"
proof -
  obtain s where s: "parse_pi pi_interp Inr pi_content = Inr s" using sample_pi by blast
  have files: "home_files (co_source sample_opts) sample_roots = [lit ''/h/a'']"
    by (simp add: home_files_def sample_roots_def file_key_def sample_opts_def)
  have check: "check_options sample_opts = Inr ()" by (simp add: check_options_def sample_opts_def)
  have opts: "remaining_budget sample_opts empty_acc = sample_opts" by (simp add: remaining_budget_def sample_opts_def empty_acc_def)
  have ob: "so_path sample_obs = lit ''/h/a''" "so_before sample_obs = lit ''f''" "so_after sample_obs = lit ''f''" "so_size sample_obs = 6"
    "so_scanned sample_obs = pi_content" "so_copied sample_obs = pi_content" "so_free sample_obs = 100"
    by (simp_all add: sample_obs_def)
  have op: "co_raw sample_opts = False" "co_max sample_opts = Some 50" "co_reserve sample_opts = 10" "co_source sample_opts = lit ''pi''"
    by (simp_all add: sample_opts_def)
  obtain x q where ingest: "queue_ingest (\<lambda>b. b) s (request_key (\<lambda>b. b) (lit ''p'') sample_obs False) (Some (lit ''/h/a'', lit ''f'')) None
      empty_queue = (Inr x, q)"
    by (simp add: queue_ingest_def empty_queue_def Let_def)
  have parse: "parse_source pi_interp (\<lambda>b. b) Inr sample_opts sample_obs pi_content = Inr (s, False, 0, False)"
    by (simp add: parse_source_def op s)
  have fresh: "sk_fingerprint (queue_sink (\<lambda>b. b)) fresh_device (lit ''/h/a'') = None"
    "sk_ingest (queue_sink (\<lambda>b. b)) s (lit ''p'') (request_key (\<lambda>b. b) (lit ''p'') sample_obs False) (Some (lit ''/h/a'', lit ''f'')) None
      fresh_device = (Inr x, fresh_device\<lparr>dv_queue := q\<rparr>)"
    by (simp_all add: queue_sink_def fresh_device_def queue_fingerprint_def empty_queue_def [THEN arg_cong, of uq_captured] ingest)
  have "\<exists>x n d'. capture_file pi_interp (\<lambda>b. b) Inr (\<lambda>_. 0) (queue_sink (\<lambda>b. b)) (lit ''p'') sample_opts sample_obs fresh_device
      = (Inr (Captured x n False 0 False 6 False 6), d')"
    by (simp add: capture_file_def check ob op sample_staged parse hand_over_def fresh)
  then obtain x n d' where "capture_file pi_interp (\<lambda>b. b) Inr (\<lambda>_. 0) (queue_sink (\<lambda>b. b)) (lit ''p'') sample_opts sample_obs fresh_device
      = (Inr (Captured x n False 0 False 6 False 6), d')" by blast
  then show ?thesis
    by (simp add: capture_home_def check files capture_path_def sample_look_def opts Let_def)
      (simp add: add_result_def result_label_def home_state_def empty_acc_def count_of_def)
qed

lemma complete_run_records_every_file_witness:
  "\<exists>r d'. capture_home pi_interp (\<lambda>b. b) Inr (\<lambda>_. 0) (queue_sink (\<lambda>b. b)) (lit ''p'') sample_opts sample_roots sample_look fresh_device
     = (Inr r, d') \<and> queue_fingerprint (dv_queue d') (lit ''/h/a'') = Some (lit ''f'')"
proof -
  obtain r d' where run: "capture_home pi_interp (\<lambda>b. b) Inr (\<lambda>_. 0) (queue_sink (\<lambda>b. b)) (lit ''p'') sample_opts sample_roots
      sample_look fresh_device = (Inr r, d')" and state: "hr_state r = ''complete''" using sample_capture by blast
  have files: "home_files (co_source sample_opts) sample_roots = [lit ''/h/a'']"
    by (simp add: home_files_def sample_roots_def file_key_def sample_opts_def)
  have "looks_named sample_look (home_files (co_source sample_opts) sample_roots)"
    by (simp add: looks_named_def files sample_look_def sample_obs_def)
  from complete_run_records_every_file [OF run state this, of "lit ''/h/a''"] run show ?thesis
    by (simp add: files sample_look_def) (simp add: sample_obs_def)
qed

definition sample_config :: json where
  "sample_config = JObj [(lit ''providers'', JObj [(lit ''pi'', JObj [(lit ''capture_enabled'', JBool True)])])]"

lemma providers_stay_within_budget_witness:
  "\<exists>rs d'. capture_providers pi_interp (\<lambda>b. b) Inr (\<lambda>_. 0) (queue_sink (\<lambda>b. b)) (lit ''p'') sample_opts (Some sample_config)
      ([], sample_look) (sample_roots, sample_look) fresh_device = (Inr rs, d')
    \<and> providers_admitted rs = 6 \<and> int (providers_admitted rs) \<le> 50"
proof -
  obtain r d' where run: "capture_home pi_interp (\<lambda>b. b) Inr (\<lambda>_. 0) (queue_sink (\<lambda>b. b)) (lit ''p'') sample_opts sample_roots
      sample_look fresh_device = (Inr r, d')" and six: "ha_admitted (hr_acc r) = 6" using sample_capture by blast
  have settings: "load_providers (Some sample_config) = Inr [(lit ''pi'', [(lit ''capture_enabled'', JBool True)])]"
    by (simp add: load_providers_def sample_config_def jget_def check_provider_def)
  have enabled: "\<not> is_enabled [(lit ''pi'', [(lit ''capture_enabled'', JBool True)])] ''codex''"
    "is_enabled [(lit ''pi'', [(lit ''capture_enabled'', JBool True)])] ''pi''"
    by (simp_all add: is_enabled_def get_or_def jget_def)
  have source: "sample_opts\<lparr>co_source := lit ''pi''\<rparr> = sample_opts" by (simp add: sample_opts_def)
  have providers: "capture_providers pi_interp (\<lambda>b. b) Inr (\<lambda>_. 0) (queue_sink (\<lambda>b. b)) (lit ''p'') sample_opts (Some sample_config)
      ([], sample_look) (sample_roots, sample_look) fresh_device = (Inr [(''codex'', None), (''pi'', Some r)], d')"
    by (simp add: capture_providers_def settings enabled source run)
  have "failing_looks_empty sample_look" by (simp add: failing_looks_empty_def sample_look_def)
  moreover have "co_max sample_opts = Some 50" by (simp add: sample_opts_def)
  ultimately have "int (providers_admitted [(''codex'', None), (''pi'', Some r)]) \<le> 50"
    using providers_stay_within_budget [OF providers, of 50] by simp
  moreover have "providers_admitted [(''codex'', None), (''pi'', Some r)] = 6" using six by (simp add: providers_admitted_def)
  ultimately show ?thesis using providers by blast
qed

end
