(* ===== verification/Snapshots.thy ===== *)
theory Snapshots
  imports Search Credentials
begin

text \<open>
  Self-contained snapshots of a primary (\<open>storage/snapshots.py\<close>) and the replacement primary that is
  prepared from one (\<open>storage/recovery.py\<close>). A snapshot is a directory with a database file, a
  manifest and the raw objects the database refers to. The file format of SQLite is an argument:
  \<open>sq_dump\<close> is the file that its backup API writes for a database and \<open>sq_open\<close> what
  opening a file for reading gives.
\<close>

section \<open>Databases and directories\<close>

text \<open>
  The tables of an open database, and whether it has the table \<open>publication_state\<close>, which older
  versions of the program did not create.
\<close>

record database =
  db_catalog :: catalog
  db_state :: bool

record sqlite =
  sq_dump :: "database \<Rightarrow> bytes"
  sq_open :: "bytes \<Rightarrow> database result"
  sq_integrity :: "bytes \<Rightarrow> bool"

text \<open>The documented behaviour of the backup API: the file it writes for a database opens as this database.\<close>

definition sqlite_ok :: "sqlite \<Rightarrow> database \<Rightarrow> bool" where
  "sqlite_ok sq d \<longleftrightarrow> sq_open sq (sq_dump sq d) = Inr (d\<lparr>db_catalog := (db_catalog d)\<lparr>ct_readonly := True\<rparr>\<rparr>)
     \<and> sq_integrity sq (sq_dump sq d)"

text \<open>
  A snapshot directory: whether \<open>manifest.json\<close> or \<open>catalog.sqlite3\<close> is a symbolic link, the bytes
  of the two files if they exist, and the object directories.
\<close>

record snapshot =
  sn_linked :: bool
  sn_manifest :: "bytes option"
  sn_file :: "bytes option"
  sn_root :: data_root

text \<open>Reading a JSON file, and \<open>value.get\<close>, which only a dictionary has.\<close>

definition read_json :: "bytes option \<Rightarrow> json result" where
  "read_json f = (case f of None \<Rightarrow> Inl (FileNotFoundError ''No such file or directory'')
     | Some b \<Rightarrow> (case json_loads b of None \<Rightarrow> Inl (ValueError ''invalid JSON'') | Some v \<Rightarrow> Inr v))"

definition as_dict :: "json \<Rightarrow> document result" where
  "as_dict v = (case v of JObj d \<Rightarrow> Inr d | _ \<Rightarrow> Inl (AttributeError ''get''))"

definition item :: "document \<Rightarrow> string \<Rightarrow> json result" where
  "item d k = (case jget d k of None \<Rightarrow> Inl (KeyError k) | Some v \<Rightarrow> Inr v)"

text \<open>Equality of Python values: a boolean equals the integer it stands for.\<close>

fun numbers :: "json \<Rightarrow> json" where
  "numbers JNull = JNull"
| "numbers (JBool b) = JInt (of_bool b)"
| "numbers (JInt i) = JInt i"
| "numbers (JStr s) = JStr s"
| "numbers (JList xs) = JList (map numbers xs)"
| "numbers (JObj kvs) = JObj (map (\<lambda>(k, v). (k, numbers v)) kvs)"

definition py_eq :: "json \<Rightarrow> json \<Rightarrow> bool" where
  "py_eq v w \<longleftrightarrow> same_json (numbers v) (numbers w)"

text \<open>\<open>value in {...}\<close> for a set of constants: a list or a dictionary is not hashable.\<close>

definition in_set :: "json \<Rightarrow> json list \<Rightarrow> bool result" where
  "in_set v xs = (if unhashable v then Inl (TypeError ''unhashable type'') else Inr (\<exists>x \<in> set xs. py_eq v x))"

section \<open>Verifying a snapshot\<close>

text \<open>The foreign keys that the schema declares.\<close>

definition foreign_keys_ok :: "catalog \<Rightarrow> bool" where
  "foreign_keys_ok ct \<longleftrightarrow>
     (\<forall>(sid, rv) \<in> set (ct_heads ct). find_revision ct sid rv \<noteq> None) \<and>
     (\<forall>(sid, ids) \<in> set (ct_active ct). \<forall>i \<in> set ids. evidence_by_id ct i \<noteq> None) \<and>
     (\<forall>(sid, rv, p) \<in> set (ct_producers ct). find_revision ct sid rv \<noteq> None) \<and>
     (\<forall>w \<in> set (ct_raw ct). find_revision ct (rw_session w) (rw_revision w) \<noteq> None) \<and>
     (\<forall>l \<in> set (ct_legacy ct). find_revision ct (lg_session l) (lg_revision l) \<noteq> None) \<and>
     (\<forall>a \<in> set (ct_aliases ct). find_revision ct (al_session a) (al_legacy a) \<noteq> None
        \<and> find_revision ct (al_session a) (al_native a) \<noteq> None)"

text \<open>An alias whose provenance the query of \<open>verify_snapshot\<close> selects as wrong.\<close>

definition alias_mismatch :: "catalog \<Rightarrow> alias_row \<Rightarrow> bool" where
  "alias_mismatch ct a = (case (find_revision ct (al_session a) (al_legacy a), find_revision ct (al_session a) (al_native a)) of
       (Some l, Some n) \<Rightarrow> rr_source l \<noteq> lit ''codex'' \<or> rr_source n \<noteq> lit ''codex''
         \<or> rr_parser l \<noteq> legacy_parser \<or> rr_parser n = legacy_parser
         \<or> al_alias a = [] \<or> al_project a = [] \<or> al_alias a \<noteq> rr_project l \<or> al_project a \<noteq> rr_project n
     | _ \<Rightarrow> False)"

text \<open>Every stored revision, exported and rebuilt, has the digest it is stored under.\<close>

fun check_revisions :: "(pystr \<Rightarrow> pystr result) \<Rightarrow> (bytes \<Rightarrow> pystr) \<Rightarrow> catalog \<Rightarrow> revision_row list \<Rightarrow> unit result" where
  "check_revisions utc H ct [] = Inr ()"
| "check_revisions utc H ct (r # rs) =
     bindR (export_revision ct (rr_session r) (rr_revision r)) (\<lambda>v. bindR (session_of_json utc v) (\<lambda>s.
       if session_revision H s \<noteq> rr_revision r then Inl (ValueError ''snapshot canonical revision digest mismatch'')
       else check_revisions utc H ct rs))"

text \<open>\<open>SELECT DISTINCT digest,size FROM raw_sources ORDER BY digest\<close>, and its rows in a manifest.\<close>

definition raw_objects :: "catalog \<Rightarrow> (pystr \<times> nat) list" where
  "raw_objects ct = sort_key fst (dedup_from [] (map (\<lambda>w. (rw_digest w, rw_size w)) (ct_raw ct)))"

definition objects_json :: "(pystr \<times> nat) list \<Rightarrow> json" where
  "objects_json xs = JList (map (\<lambda>(k, n). JObj [(lit ''digest'', JStr k), (lit ''size'', JInt (int n))]) xs)"

fun check_objects :: "(bytes \<Rightarrow> pystr) \<Rightarrow> bool \<Rightarrow> data_root \<Rightarrow> (pystr \<times> nat) list \<Rightarrow> unit result" where
  "check_objects H files r [] = Inr ()"
| "check_objects H files r ((k, n) # xs) =
     bindR (if files then bindR (object_layout Raw r k) (\<lambda>l. Inr (l \<noteq> PlainFile)) else Inr False) (\<lambda>chunked.
     if chunked then Inl (ValueError ''chunked raw evidence requires snapshot version 2'') else
     bindR (object_verify H Raw r k) (\<lambda>ok.
     if \<not> ok then Inl (ValueError ''snapshot raw evidence is missing or corrupt'') else
     bindR (object_size Raw r k) (\<lambda>m.
     if m \<noteq> n then Inl (ValueError ''snapshot raw evidence is missing or corrupt'')
     else check_objects H files r xs)))"

definition db_publication :: "database \<Rightarrow> json" where
  "db_publication d = (if db_state d then JStr (publication (db_catalog d)) else JNull)"

record verified =
  vf_coverage :: status
  vf_purpose :: json
  vf_publication :: json
  vf_snapshot :: pystr
  vf_created :: json

text \<open>The members of the manifest: format, raw storage and purpose; and then the database.\<close>

definition check_manifest :: "document \<Rightarrow> json result" where
  "check_manifest m =
     bindR (in_set (member m ''version'') [JInt 1, JInt 2]) (\<lambda>known.
     if \<not> known then Inl (ValueError ''unsupported snapshot version'')
     else if py_eq (member m ''version'') (JInt 2) \<and> member m ''raw_storage'' \<noteq> JStr (lit ''files-and-chunks-v1'')
     then Inl (ValueError ''unsupported snapshot raw storage'')
     else let purpose = field_or m ''purpose'' (JStr (lit ''recovery'')) in
     bindR (in_set purpose [JStr (lit ''recovery''), JStr (lit ''search-replica'')]) (\<lambda>known.
     if \<not> known then Inl (ValueError ''unsupported snapshot purpose'')
     else if purpose = JStr (lit ''search-replica'') then bindR (item m ''raw_objects'') (\<lambda>objs.
       if truthy objs then Inl (ValueError ''search replica must not claim raw recovery coverage'') else Inr purpose)
     else Inr purpose))"

definition check_database :: "(pystr \<Rightarrow> pystr result) \<Rightarrow> (bytes \<Rightarrow> pystr) \<Rightarrow> sqlite \<Rightarrow> bytes \<Rightarrow> document \<Rightarrow> data_root
    \<Rightarrow> database result" where
  "check_database utc H sq file m r =
     bindR (sq_open sq file) (\<lambda>d. let ct = db_catalog d in
     if \<not> sq_integrity sq file then Inl (ValueError ''snapshot database integrity check failed'')
     else if \<not> foreign_keys_ok ct then Inl (ValueError ''snapshot database reference check failed'')
     else if \<exists>a \<in> set (ct_aliases ct). alias_mismatch ct a
     then Inl (ValueError ''snapshot project alias provenance mismatch'')
     else bindR (check_revisions utc H ct (ct_revisions ct)) (\<lambda>_.
     bindR (item m ''raw_objects'') (\<lambda>objs.
     if \<not> py_eq (objects_json (raw_objects ct)) objs then Inl (ValueError ''snapshot object manifest is incomplete'')
     else bindR (check_objects H (py_eq (member m ''version'') (JInt 1)) r (raw_objects ct)) (\<lambda>_.
     bindR (item m ''created_at'') (\<lambda>_.
     if \<not> py_eq (member m ''publication'') (db_publication d)
     then Inl (ValueError ''snapshot publication does not match its catalog'') else Inr d)))))"

text \<open>
  \<open>created_at\<close> is read first by \<open>Catalog.status\<close>, before the publication is compared. The
  coverage in the result is that of the catalog.
\<close>

definition verify_snapshot :: "(pystr \<Rightarrow> pystr result) \<Rightarrow> (bytes \<Rightarrow> pystr) \<Rightarrow> sqlite \<Rightarrow> snapshot \<Rightarrow> verified result" where
  "verify_snapshot utc H sq sn =
     (if sn_linked sn then Inl (ValueError ''snapshot files must not be symlinks'') else
     bindR (read_json (sn_manifest sn)) (\<lambda>v. bindR (as_dict v) (\<lambda>m.
     bindR (check_manifest m) (\<lambda>purpose.
     case sn_file sn of
       None \<Rightarrow> Inl (FileNotFoundError ''No such file or directory'')
     | Some file \<Rightarrow>
         bindR (item m ''catalog_sha256'') (\<lambda>checksum.
         if checksum \<noteq> JStr (H file) then Inl (ValueError ''snapshot catalog checksum mismatch'') else
         bindR (check_database utc H sq file m (sn_root sn)) (\<lambda>d.
         Inr \<lparr>vf_coverage = catalog_status (db_catalog d), vf_purpose = purpose,
           vf_publication = member m ''publication'', vf_snapshot = json_digest H v,
           vf_created = member m ''created_at''\<rparr>))))))"

section \<open>Creating a snapshot\<close>

text \<open>The raw objects are copied one by one; \<open>True\<close> tells that one of them is stored in chunks.\<close>

fun copy_objects :: "(bytes \<Rightarrow> pystr) \<Rightarrow> data_root \<Rightarrow> (pystr \<times> nat) list \<Rightarrow> bool \<Rightarrow> data_root \<Rightarrow> (bool \<times> data_root) result" where
  "copy_objects H src [] chunked t = Inr (chunked, t)"
| "copy_objects H src ((k, n) # xs) chunked t =
     bindR (if chunked then Inr True else bindR (object_layout Raw src k) (\<lambda>l. Inr (l = ChunkedV1))) (\<lambda>chunked.
     case object_copy_to H Raw src Raw k t of
       (Inl e, _) \<Rightarrow> Inl e
     | (Inr _, t) \<Rightarrow> bindR (object_size Raw t k) (\<lambda>m.
         if m \<noteq> n then Inl (ValueError ''raw object size mismatch'') else copy_objects H src xs chunked t))"

definition purpose_text :: "bool \<Rightarrow> json" where
  "purpose_text search_only = JStr (if search_only then lit ''search-replica'' else lit ''recovery'')"

definition manifest_of :: "bool \<Rightarrow> pystr \<Rightarrow> bool \<Rightarrow> json \<Rightarrow> pystr \<Rightarrow> (pystr \<times> nat) list \<Rightarrow> document" where
  "manifest_of chunked now search_only pub checksum objs =
     [(lit ''version'', JInt (if chunked then 2 else 1)), (lit ''created_at'', JStr now),
      (lit ''purpose'', purpose_text search_only), (lit ''publication'', pub),
      (lit ''catalog_sha256'', JStr checksum), (lit ''raw_objects'', objects_json objs)]
     @ (if chunked then [(lit ''raw_storage'', JStr (lit ''files-and-chunks-v1''))] else [])"

definition target_database :: "bool \<Rightarrow> database \<Rightarrow> database" where
  "target_database search_only d = (if search_only then d\<lparr>db_catalog := (db_catalog d)\<lparr>ct_raw := []\<rparr>\<rparr> else d)"

text \<open>
  What the backup saw of the source is the argument \<open>d\<close>, the objects are those of the source root.
  The stage is published by a rename, or removed.
\<close>

definition staged_snapshot :: "(bytes \<Rightarrow> pystr) \<Rightarrow> sqlite \<Rightarrow> pystr \<Rightarrow> bool \<Rightarrow> database \<Rightarrow> data_root \<Rightarrow> snapshot result" where
  "staged_snapshot H sq now search_only d src =
     (let t = target_database search_only d; objs = raw_objects (db_catalog t); file = sq_dump sq t in
      bindR (copy_objects H src objs False empty_root) (\<lambda>(chunked, root).
        Inr \<lparr>sn_linked = False,
          sn_manifest = Some (encode_json (JObj (manifest_of chunked now search_only (db_publication t) (H file) objs))),
          sn_file = Some file, sn_root = root\<lparr>has_manifest := True\<rparr>\<rparr>))"

record created =
  cs_snapshot :: pystr
  cs_objects :: nat
  cs_purpose :: json

definition create_snapshot :: "(pystr \<Rightarrow> pystr result) \<Rightarrow> (bytes \<Rightarrow> pystr) \<Rightarrow> sqlite \<Rightarrow> pystr \<Rightarrow> bool \<Rightarrow> database \<Rightarrow> data_root
    \<Rightarrow> (snapshot option, created) op" where
  "create_snapshot utc H sq now search_only d src dest =
     (if dest \<noteq> None then (Inl (FileExistsError ''snapshot destination already exists''), dest) else
      case staged_snapshot H sq now search_only d src of
        Inl e \<Rightarrow> (Inl e, dest)
      | Inr sn \<Rightarrow> (case verify_snapshot utc H sq sn of
          Inl e \<Rightarrow> (Inl e, dest)
        | Inr v \<Rightarrow> (Inr \<lparr>cs_snapshot = H (the (sn_manifest sn)),
            cs_objects = length (raw_objects (db_catalog (target_database search_only d))),
            cs_purpose = purpose_text search_only\<rparr>, Some sn)))"

section \<open>Preparing a replacement primary\<close>

text \<open>
  A primary: its catalog, its objects, the manifest it was prepared from and the receipt. The
  snapshot is looked at twice, when it is verified and when it is copied; the second look is an
  argument of its own.
\<close>

record primary =
  pr_catalog :: catalog
  pr_root :: data_root
  pr_source :: bytes
  pr_receipt :: document

definition recovery_receipt :: "pystr \<Rightarrow> json \<Rightarrow> pystr \<Rightarrow> pystr \<Rightarrow> document" where
  "recovery_receipt expected source_pub pub now = [(lit ''version'', JInt 1), (lit ''status'', JStr (lit ''prepared'')),
     (lit ''snapshot'', JStr expected), (lit ''source_publication'', source_pub), (lit ''publication'', JStr pub),
     (lit ''old_primary_isolated'', JBool True), (lit ''prepared_at'', JStr now)]"

text \<open>The manifest's object list as the copying loop reads it.\<close>

definition listed_objects :: "document \<Rightarrow> pystr list result" where
  "listed_objects m = bindR (item m ''raw_objects'') (\<lambda>v. case v of
       JList xs \<Rightarrow> mapR (\<lambda>x. case x of
           JObj o' \<Rightarrow> bindR (item o' ''digest'') (\<lambda>k. case k of JStr s \<Rightarrow> Inr s | _ \<Rightarrow> Inl (TypeError ''digest''))
         | _ \<Rightarrow> Inl (TypeError ''string indices'')) xs
     | _ \<Rightarrow> Inl (TypeError ''not iterable''))"

fun copy_keys :: "(bytes \<Rightarrow> pystr) \<Rightarrow> data_root \<Rightarrow> pystr list \<Rightarrow> data_root \<Rightarrow> data_root result" where
  "copy_keys H src [] t = Inr t"
| "copy_keys H src (k # ks) t = (case object_copy_to H Raw src Raw k t of
       (Inl e, _) \<Rightarrow> Inl e | (Inr _, t) \<Rightarrow> copy_keys H src ks t)"

definition copied_snapshot :: "(bytes \<Rightarrow> pystr) \<Rightarrow> snapshot \<Rightarrow> snapshot result" where
  "copied_snapshot H sn =
     bindR (read_json (sn_manifest sn)) (\<lambda>v. bindR (as_dict v) (\<lambda>m.
     case sn_file sn of
       None \<Rightarrow> Inl (FileNotFoundError ''No such file or directory'')
     | Some file \<Rightarrow> bindR (listed_objects m) (\<lambda>ks. bindR (copy_keys H (sn_root sn) ks empty_root) (\<lambda>root.
         Inr \<lparr>sn_linked = False, sn_manifest = sn_manifest sn, sn_file = Some file, sn_root = root\<rparr>))))"

text \<open>
  Opening the copied database for writing creates the tables it lacks; the new publication state
  has a fresh random identity and epoch 0.
\<close>

definition restarted :: "pystr \<Rightarrow> catalog \<Rightarrow> catalog" where
  "restarted fresh ct = ct\<lparr>ct_readonly := False, ct_identity := fresh, ct_epoch := 0\<rparr>"

definition new_primary :: "pystr \<Rightarrow> pystr \<Rightarrow> pystr \<Rightarrow> json \<Rightarrow> database \<Rightarrow> snapshot \<Rightarrow> primary" where
  "new_primary now fresh expected source_pub d sn =
     (let ct = restarted fresh (db_catalog d) in
      \<lparr>pr_catalog = ct, pr_root = sn_root sn, pr_source = the (sn_manifest sn),
       pr_receipt = recovery_receipt expected source_pub (publication ct) now\<rparr>)"

definition prepare_primary :: "(pystr \<Rightarrow> pystr result) \<Rightarrow> (bytes \<Rightarrow> pystr) \<Rightarrow> sqlite \<Rightarrow> pystr \<Rightarrow> pystr \<Rightarrow> pystr \<Rightarrow> bool
    \<Rightarrow> bool \<Rightarrow> bool \<Rightarrow> snapshot \<Rightarrow> snapshot \<Rightarrow> (primary option, document) op" where
  "prepare_primary utc H sq now fresh expected isolated linked inside sn copied dest =
     (if \<not> isolated then (Inl (ValueError ''isolate the old primary before preparing a replacement''), dest)
      else if linked then (Inl (FileExistsError ''replacement primary destination must not be a symlink''), dest)
      else if inside then (Inl (ValueError ''replacement primary must be outside the recovery snapshot''), dest)
      else case verify_snapshot utc H sq sn of
        Inl e \<Rightarrow> (Inl e, dest)
      | Inr v \<Rightarrow>
          if vf_purpose v \<noteq> JStr (lit ''recovery'') \<or> vf_snapshot v \<noteq> expected
          then (Inl (ValueError ''an exact verified recovery snapshot is required''), dest)
          else if dest \<noteq> None then (Inl (FileExistsError ''replacement primary destination already exists''), dest)
          else (case bindR (copied_snapshot H copied) (\<lambda>c. bindR (verify_snapshot utc H sq c) (\<lambda>w.
              if vf_snapshot w \<noteq> expected then Inl (ValueError ''recovery snapshot changed while preparing primary'')
              else bindR (sq_open sq (the (sn_file c))) (\<lambda>d.
                Inr (new_primary now fresh expected (vf_publication v) d c)))) of
            Inl e \<Rightarrow> (Inl e, dest)
          | Inr p \<Rightarrow> (Inr (pr_receipt p), Some p)))"

end
