(* ===== verification/Recovery.thy ===== *)
theory Recovery
  imports Snapshots Transfers
begin

text \<open>
  Facts of snapshots and recovery: a snapshot of a consistent catalog is always made and verifies, a
  verified snapshot has everything its catalog refers to, and the primary that is
  prepared from it has every session and raw object of the old one under a new identity.
\<close>

section \<open>Copying from a source directory\<close>

text \<open>The copy of an object: it is stored in the same layout with the same content.\<close>

definition holds :: "(bytes \<Rightarrow> pystr) \<Rightarrow> data_root \<Rightarrow> data_root \<Rightarrow> pystr \<Rightarrow> bool" where
  "holds H t src k \<longleftrightarrow> dir_get (raw_files t) k = dir_get (raw_files src) k
     \<and> object_get H Raw t k = object_get H Raw src k"

lemma member_dir_Raw [simp]: "member_dir ObjectMember Raw r = raw_files r" "member_dir ChunkMember Raw r = chunk_files r"
  "member_dir RecipeMember Raw r = recipe_files r"
  by (simp_all add: member_dir_def)

lemma objects_le_member: "objects_le r s \<Longrightarrow> dir_le (member_dir m Raw r) (member_dir m Raw s)"
  by (cases m) (simp_all add: objects_le_def)

lemma set_member_dir_below:
  assumes "objects_le t src" "dir_le d (member_dir m Raw src)"
  shows "objects_le (set_member_dir m Raw d t) src"
  using assms by (cases m) (simp_all add: objects_le_def set_member_dir_def set_object_dir_def)

lemma member_dir_set: "member_dir m Raw (set_member_dir m Raw d t) = d"
  by (cases m) (simp_all add: set_member_dir_def set_object_dir_def)

lemma copy_member_below:
  assumes "dir_le d d'" "dir_get d' k = Some (File b)"
  obtains d1 where "copy_member H (dir_get d' k) k d = (Inr (), d1)" "dir_le d d1" "dir_le d1 d'" "dir_get d1 k = Some (File b)"
proof (cases "dir_get d k")
  case None
  with assms that [of "dir_put k (File b) d"] show thesis
    by (auto simp: copy_member_def dir_le_def)
next
  case (Some x)
  with assms have "x = File b" by (auto dest: dir_leD)
  with Some assms that [of d] show thesis by (simp add: copy_member_def)
qed

lemma copy_members_below:
  assumes "objects_le t src" "\<forall>(m, k) \<in> set ms. \<exists>b. dir_get (member_dir m Raw src) k = Some (File b)"
  shows "\<exists>t'. copy_members H Raw src Raw ms t = (Inr (), t') \<and> objects_le t' src
    \<and> (\<forall>(m, k) \<in> set ms. dir_get (member_dir m Raw t') k = dir_get (member_dir m Raw src) k)"
  using assms
proof (induction ms arbitrary: t)
  case (Cons mk ms)
  obtain m k where mk: "mk = (m, k)" by (cases mk)
  from Cons.prems(2) mk obtain b where b: "dir_get (member_dir m Raw src) k = Some (File b)" by auto
  obtain d where d: "copy_member H (dir_get (member_dir m Raw src) k) k (member_dir m Raw t) = (Inr (), d)"
    "dir_le (member_dir m Raw t) d" "dir_le d (member_dir m Raw src)" "dir_get d k = Some (File b)"
    by (rule copy_member_below [OF objects_le_member [OF Cons.prems(1)] b])
  let ?t = "set_member_dir m Raw d t"
  have "objects_le ?t src" by (rule set_member_dir_below [OF Cons.prems(1) d(3)])
  with Cons.IH [of ?t] Cons.prems(2) obtain t' where t': "copy_members H Raw src Raw ms ?t = (Inr (), t')" "objects_le t' src"
    "\<forall>(m, k) \<in> set ms. dir_get (member_dir m Raw t') k = dir_get (member_dir m Raw src) k" by auto
  have "dir_get (member_dir m Raw t') k = Some (File b)"
    using objects_le_member [OF copy_members_le [OF t'(1)], of m] d(4) by (simp add: member_dir_set dir_leD)
  with t' d(1) b mk show ?case by auto
qed simp

lemma mapR_same: "(\<And>x. x \<in> set xs \<Longrightarrow> f x = g x) \<Longrightarrow> mapR f xs = mapR g xs"
  by (induction xs) simp_all

lemma mapR_elem: "mapR f xs = Inr ys \<Longrightarrow> x \<in> set xs \<Longrightarrow> \<exists>y. f x = Inr y"
  by (induction xs arbitrary: ys) (auto simp: bindR_Inr_iff)

text \<open>The members of an object that can be read are regular files.\<close>

lemma object_members_files:
  assumes "object_get H Raw src k = Inr b" "objects_le t src"
  shows "\<exists>ms. object_members Raw src t k = Inr ms \<and> (\<forall>(m, k) \<in> set ms. \<exists>b. dir_get (member_dir m Raw src) k = Some (File b))
    \<and> (dir_get (raw_files src) k \<noteq> None \<longrightarrow> ms = [(ObjectMember, k)])
    \<and> (dir_get (raw_files src) k = None \<longrightarrow> (RecipeMember, k) \<in> set ms
        \<and> (\<forall>sz cs. chunk_recipe src k = Inr (sz, cs) \<longrightarrow> (\<forall>c \<in> set cs. (ChunkMember, fst c) \<in> set ms)))"
proof (cases "dir_get (raw_files src) k")
  case (Some x)
  with assms(1) have "is_hex 64 k" "x = File b" by (auto simp: object_get_cases)
  with Some show ?thesis by (simp add: object_members_def object_layout_def object_key_def)
next
  case None
  with assms(1) have c: "is_hex 64 k" "chunk_get H src k = Inr b" by (auto simp: object_get_cases)
  from c(2) obtain sz cs contents where r: "chunk_recipe src k = Inr (sz, cs)" "mapR (read_chunk H src) cs = Inr contents"
    by (auto simp: chunk_get_def chunk_iter_def bindR_Inr_iff)
  from chunk_recipe_file [OF r(1)] obtain rb where rf: "dir_get (recipe_files src) k = Some (File rb)" by blast
  have chunk: "is_hex 64 (fst c) \<and> (\<exists>b. dir_get (chunk_files src) (fst c) = Some (File b))" if "c \<in> set cs" for c
  proof -
    from mapR_elem [OF r(2) that] obtain x where "read_chunk H src c = Inr x" ..
    then show ?thesis
      by (auto simp: read_chunk_def member_path_def bindR_Inr_iff split: option.splits node.splits if_splits)
  qed
  have le: "dir_le (chunk_files t) (chunk_files src)" "dir_le (recipe_files t) (recipe_files src)"
    using assms(2) by (simp_all add: objects_le_def)
  have path: "member_path (fst c) (chunk_files src) = Inr () \<and> member_path (fst c) (chunk_files t) = Inr ()" if "c \<in> set cs" for c
    using chunk [OF that] dir_leD [OF le(1), of "fst c" Link] by (auto simp: member_path_def)
  have "dir_get (recipe_files t) k \<noteq> Some Link" using dir_leD [OF le(2), of k Link] rf by auto
  moreover have "mapR (\<lambda>k. bindR (member_path k (chunk_files src)) (\<lambda>_. member_path k (chunk_files t))) (dedup_from [] (map fst cs))
      = Inr (map (\<lambda>_. ()) (dedup_from [] (map fst cs)))"
    using path by (intro mapR_all_Inr) (auto simp: set_dedup_from)
  ultimately have "member_paths src t (dedup_from [] (map fst cs)) k = Inr ()"
    using c(1) rf by (simp add: member_paths_def member_path_def)
  then have "object_members Raw src t k = Inr (map (Pair ChunkMember) (dedup_from [] (map fst cs)) @ [(RecipeMember, k)])"
    using None c(1) rf r(1) by (simp add: object_members_def object_layout_def object_key_def member_path_def)
  then show ?thesis using None rf chunk r(1) by (auto simp: set_dedup_from)
qed

lemma object_copy_below:
  assumes get: "object_get H Raw src k = Inr b" and le: "objects_le t src"
  obtains t' where "object_copy_to H Raw src Raw k t = (Inr (), t')" "objects_le t' src" "objects_le t t'" "holds H t' src k"
proof -
  from object_members_files [OF get le] obtain ms where "object_members Raw src t k = Inr ms \<and>
      (\<forall>(m, k) \<in> set ms. \<exists>b. dir_get (member_dir m Raw src) k = Some (File b)) \<and>
      (dir_get (raw_files src) k \<noteq> None \<longrightarrow> ms = [(ObjectMember, k)]) \<and>
      (dir_get (raw_files src) k = None \<longrightarrow> (RecipeMember, k) \<in> set ms
        \<and> (\<forall>sz cs. chunk_recipe src k = Inr (sz, cs) \<longrightarrow> (\<forall>c \<in> set cs. (ChunkMember, fst c) \<in> set ms)))" ..
  note ms = this [THEN conjunct1] and files = this [THEN conjunct2, THEN conjunct1]
    and plain = this [THEN conjunct2, THEN conjunct2, THEN conjunct1]
    and chunked = this [THEN conjunct2, THEN conjunct2, THEN conjunct2]
  from copy_members_below [OF le files, of H] obtain t' where "copy_members H Raw src Raw ms t = (Inr (), t') \<and> objects_le t' src
      \<and> (\<forall>(m, k) \<in> set ms. dir_get (member_dir m Raw t') k = dir_get (member_dir m Raw src) k)" ..
  note t' = this [THEN conjunct1] this [THEN conjunct2, THEN conjunct1] and eq = this [THEN conjunct2, THEN conjunct2]
  have "holds H t' src k"
  proof (cases "dir_get (raw_files src) k")
    case (Some x)
    with plain eq have "dir_get (raw_files t') k = Some x" by simp
    moreover from this Some get have "object_get H Raw t' k = Inr b" by (simp add: object_get_cases)
    ultimately show ?thesis using Some get by (simp add: holds_def)
  next
    case None
    have none: "dir_get (raw_files t') k = None"
      using t'(2) None by (cases "dir_get (raw_files t') k") (auto simp: objects_le_def dest: dir_leD)
    from get None have c: "is_hex 64 k" "chunk_get H src k = Inr b" by (auto simp: object_get_cases)
    from c(2) obtain sz cs contents where r: "chunk_recipe src k = Inr (sz, cs)" "mapR (read_chunk H src) cs = Inr contents"
      "H (concat contents) = k" "b = concat contents"
      by (auto simp: chunk_get_def chunk_iter_def bindR_Inr_iff split: if_splits)
    have mem: "(RecipeMember, k) \<in> set ms" "\<forall>c \<in> set cs. (ChunkMember, fst c) \<in> set ms"
      using chunked None r(1) by blast+
    have "dir_get (recipe_files t') k = dir_get (recipe_files src) k"
      "\<forall>c \<in> set cs. dir_get (chunk_files t') (fst c) = dir_get (chunk_files src) (fst c)"
      using eq mem by fastforce+
    then have "chunk_recipe t' k = chunk_recipe src k" "\<forall>c \<in> set cs. read_chunk H t' c = read_chunk H src c"
      by (simp_all add: chunk_recipe_def read_chunk_def member_path_def)
    moreover from this(2) have "mapR (read_chunk H t') cs = mapR (read_chunk H src) cs"
      by (intro mapR_same) blast
    ultimately have "chunk_get H t' k = Inr b"
      using r by (simp add: chunk_get_def chunk_iter_def)
    with none c(1) have "object_get H Raw t' k = Inr b" by (simp add: object_get_cases)
    with none None get show ?thesis by (simp add: holds_def)
  qed
  moreover from this get have "object_verify H Raw t' k = Inr True"
    unfolding object_verify_get by (auto simp: holds_def)
  ultimately show thesis
    using that [of t'] ms t' copy_members_le [OF t'(1)] by (simp add: object_copy_to_def bindS_def)
qed

text \<open>What was copied stays as it is while the copy grows towards its source.\<close>

lemma holds_between:
  assumes "holds H t src k" "objects_le t t'" "objects_le t' src" "object_get H Raw src k = Inr b"
  shows "holds H t' src k"
proof -
  have "dir_get (raw_files t') k = dir_get (raw_files src) k"
  proof (cases "dir_get (raw_files src) k")
    case None
    then show ?thesis
      using assms(3) by (cases "dir_get (raw_files t') k") (auto simp: objects_le_def dest: dir_leD)
  next
    case (Some x)
    then show ?thesis using assms(1,2) by (auto simp: holds_def objects_le_def dest: dir_leD)
  qed
  moreover have "object_get H Raw t' k = Inr b"
    using assms calculation by (auto simp: holds_def object_get_cases dest: chunk_get_le)
  ultimately show ?thesis using assms(4) by (simp add: holds_def)
qed

lemma holds_read:
  assumes "holds H t src k" "object_get H Raw src k = Inr b"
  shows "object_verify H Raw t k = Inr True" "object_size Raw t k = Inr (length b)"
    "object_layout Raw t k = object_layout Raw src k"
proof -
  have get: "object_get H Raw t k = Inr b" "dir_get (raw_files t) k = dir_get (raw_files src) k"
    using assms by (simp_all add: holds_def)
  show "object_verify H Raw t k = Inr True" using get(1) by (auto simp: object_verify_get)
  show "object_size Raw t k = Inr (length b)" by (rule object_size_get [OF get(1)])
  show "object_layout Raw t k = object_layout Raw src k"
  proof (cases "dir_get (raw_files src) k")
    case (Some x)
    with get(2) show ?thesis by (simp add: object_layout_def)
  next
    case None
    with assms(2) get have c: "chunk_get H src k = Inr b" "chunk_get H t k = Inr b" by (auto simp: object_get_cases)
    from chunk_get_file [OF c(1)] chunk_get_file [OF c(2)] None get(2) show ?thesis
      by (auto simp: object_layout_def)
  qed
qed

definition is_chunked :: "data_root \<Rightarrow> pystr \<times> nat \<Rightarrow> bool" where
  "is_chunked r x \<longleftrightarrow> object_layout Raw r (fst x) = Inr ChunkedV1"

definition available :: "(bytes \<Rightarrow> pystr) \<Rightarrow> data_root \<Rightarrow> (pystr \<times> nat) set \<Rightarrow> bool" where
  "available H r X \<longleftrightarrow> (\<forall>(k, n) \<in> X. \<exists>b. object_get H Raw r k = Inr b \<and> length b = n)"

lemma object_get_layout: "object_get H ns r k = Inr b \<Longrightarrow> \<exists>l. object_layout ns r k = Inr l"
  by (auto simp: object_get_def object_iter_def bindR_Inr_iff)

lemma copy_objects_below:
  assumes "objects_le t src" "available H src (set xs)"
  shows "\<exists>t'. copy_objects H src xs chunked t = Inr (chunked \<or> (\<exists>x \<in> set xs. is_chunked src x), t') \<and> objects_le t t'
    \<and> objects_le t' src \<and> (\<forall>x \<in> set xs. holds H t' src (fst x))"
  using assms
proof (induction xs arbitrary: chunked t)
  case (Cons x xs)
  obtain k n where x: "x = (k, n)" by (cases x)
  from Cons.prems(2) obtain b where b: "object_get H Raw src k = Inr b" "length b = n" by (auto simp: available_def x)
  obtain t1 where t1: "object_copy_to H Raw src Raw k t = (Inr (), t1)" "objects_le t1 src" "objects_le t t1" "holds H t1 src k"
    by (rule object_copy_below [OF b(1) Cons.prems(1)])
  let ?c = "chunked \<or> is_chunked src x"
  have "available H src (set xs)" using Cons.prems(2) by (simp add: available_def)
  with Cons.IH [OF t1(2), of ?c] obtain t' where t': "copy_objects H src xs ?c t1 = Inr (?c \<or> (\<exists>x \<in> set xs. is_chunked src x), t')"
    "objects_le t1 t'" "objects_le t' src" "\<forall>x \<in> set xs. holds H t' src (fst x)" by metis
  obtain l where l: "object_layout Raw src k = Inr l" using object_get_layout [OF b(1)] ..
  have "copy_objects H src (x # xs) chunked t = copy_objects H src xs ?c t1"
    using t1(1) holds_read(2) [OF t1(4) b(1)] b(2) l by (cases chunked) (simp_all add: x is_chunked_def)
  moreover have "holds H t' src k" by (rule holds_between [OF t1(4) t'(2,3) b(1)])
  moreover have "objects_le t t'" by (rule objects_le_trans [OF t1(3) t'(2)])
  ultimately show ?case using t'(1,3,4) x by (intro exI [of _ t']) (simp add: disj_assoc)
qed simp

section \<open>Reading a manifest back\<close>

lemma sort_key_idem: "sort_key f (sort_key f xs) = sort_key f xs"
  by (simp add: sort_key_id_if_sorted)

lemma normal_json_idem: "normal_json (normal_json v) = normal_json v"
proof (induction v rule: normal_json.induct)
  case (6 kvs)
  let ?g = "\<lambda>kv. (fst kv, normal_json (snd kv))"
  have eq: "map ?g (map ?g kvs) = map ?g kvs" using 6 by fastforce
  have "sort_key fst (map ?g (sort_key fst (map ?g kvs))) = sort_key fst (map ?g (map ?g kvs))"
    using sort_key_map_snd [of normal_json "sort_key fst (map ?g kvs)"]
      sort_key_map_snd [of normal_json "map ?g kvs"] by (simp add: sort_key_idem)
  then show ?case unfolding eq by (simp add: case_prod_unfold)
qed simp_all

lemma encode_json_normal: "encode_json (normal_json v) = encode_json v"
  by (simp add: encode_json_def canonical_json_emit normal_json_idem)

lemma read_json_encode: "json_ok v \<Longrightarrow> read_json (Some (encode_json v)) = Inr (normal_json v)"
  by (simp add: read_json_def json_loads_encode)

lemma normal_objects_json: "normal_json (objects_json xs) = objects_json xs"
  by (auto simp: objects_json_def lit_def)

definition manifest_members :: "bool \<Rightarrow> pystr \<Rightarrow> bool \<Rightarrow> json \<Rightarrow> pystr \<Rightarrow> (pystr \<times> nat) list \<Rightarrow> document" where
  "manifest_members chunked now search_only pub checksum objs =
     [(lit ''catalog_sha256'', JStr checksum), (lit ''created_at'', JStr now), (lit ''publication'', pub),
      (lit ''purpose'', purpose_text search_only), (lit ''raw_objects'', objects_json objs)]
     @ (if chunked then [(lit ''raw_storage'', JStr (lit ''files-and-chunks-v1''))] else [])
     @ [(lit ''version'', JInt (if chunked then 2 else 1))]"

lemma normal_manifest:
  assumes "normal_json pub = pub"
  shows "normal_json (JObj (manifest_of chunked now search_only pub checksum objs))
    = JObj (manifest_members chunked now search_only pub checksum objs)"
  using assms
  by (simp add: manifest_of_def manifest_members_def purpose_text_def normal_objects_json lit_def del: normal_json.simps(5))

lemma json_ok_manifest:
  assumes "json_ok pub" "str_ok now" "str_ok checksum" "\<forall>x \<in> set objs. str_ok (fst x)"
  shows "json_ok (JObj (manifest_of chunked now search_only pub checksum objs))"
  using assms by (auto simp: manifest_of_def purpose_text_def objects_json_def split: prod.splits)

lemma manifest_fields:
  "member (manifest_members c now so pub cs objs) ''version'' = JInt (if c then 2 else 1)"
  "member (manifest_members c now so pub cs objs) ''raw_storage'' = (if c then JStr (lit ''files-and-chunks-v1'') else JNull)"
  "field_or (manifest_members c now so pub cs objs) ''purpose'' x = purpose_text so"
  "item (manifest_members c now so pub cs objs) ''raw_objects'' = Inr (objects_json objs)"
  "item (manifest_members c now so pub cs objs) ''catalog_sha256'' = Inr (JStr cs)"
  "item (manifest_members c now so pub cs objs) ''created_at'' = Inr (JStr now)"
  "member (manifest_members c now so pub cs objs) ''created_at'' = JStr now"
  "member (manifest_members c now so pub cs objs) ''publication'' = pub"
  by (simp_all add: member_def field_or_def item_def jget_def manifest_members_def lit_def)

lemma py_eq_refl [simp]: "py_eq v v"
  by (simp add: py_eq_def same_json_def)

lemma check_manifest_made:
  assumes "so \<longrightarrow> objs = []"
  shows "check_manifest (manifest_members c now so pub cs objs) = Inr (purpose_text so)"
  using assms by (simp add: check_manifest_def manifest_fields in_set_def unhashable_def purpose_text_def
      py_eq_def same_json_def objects_json_def lit_def)

section \<open>What verification checks\<close>

lemma check_revisions_iff: "check_revisions utc H ct rs = Inr () \<longleftrightarrow> (\<forall>r \<in> set rs. \<exists>v s.
    export_revision ct (rr_session r) (rr_revision r) = Inr v \<and> session_of_json utc v = Inr s \<and> session_revision H s = rr_revision r)"
  by (induction rs) (auto simp: bindR_Inr_iff)

lemma check_objects_iff: "check_objects H files r xs = Inr () \<longleftrightarrow> (\<forall>(k, n) \<in> set xs.
    (files \<longrightarrow> object_layout Raw r k = Inr PlainFile) \<and> object_verify H Raw r k = Inr True \<and> object_size Raw r k = Inr n)"
  by (induction xs) (auto simp: bindR_Inr_iff split: if_splits)

lemma check_objects_available: "check_objects H files r xs = Inr () \<Longrightarrow> available H r (set xs)"
  unfolding check_objects_iff available_def object_verify_get by (fastforce dest: object_size_get)

text \<open>A catalog that can be rebuilt from its exports.\<close>

definition archivable :: "(pystr \<Rightarrow> pystr result) \<Rightarrow> (bytes \<Rightarrow> pystr) \<Rightarrow> catalog \<Rightarrow> bool" where
  "archivable utc H ct \<longleftrightarrow> foreign_keys_ok ct \<and> (\<forall>a \<in> set (ct_aliases ct). \<not> alias_mismatch ct a)
     \<and> check_revisions utc H ct (ct_revisions ct) = Inr ()"

text \<open>The parts of a catalog that the checks look at.\<close>

definition same_evidence :: "catalog \<Rightarrow> catalog \<Rightarrow> bool" where
  "same_evidence ct ct' \<longleftrightarrow> ct_revisions ct' = ct_revisions ct \<and> ct_heads ct' = ct_heads ct \<and> ct_evidence ct' = ct_evidence ct
     \<and> ct_active ct' = ct_active ct \<and> ct_producers ct' = ct_producers ct \<and> ct_legacy ct' = ct_legacy ct
     \<and> ct_aliases ct' = ct_aliases ct \<and> ct_fts ct' = ct_fts ct"

lemma same_evidence_find: "same_evidence ct ct' \<Longrightarrow> find_revision ct' = find_revision ct"
  unfolding same_evidence_def by (rule same_tables) simp_all

lemma same_evidence_export: "same_evidence ct ct' \<Longrightarrow> export_revision ct' = export_revision ct"
  unfolding same_evidence_def by (rule same_tables) simp_all

lemma same_evidence_check:
  "same_evidence ct ct' \<Longrightarrow> check_revisions utc H ct' rs = Inr () \<longleftrightarrow> check_revisions utc H ct rs = Inr ()"
  unfolding check_revisions_iff by (simp add: same_evidence_export)

lemma archivable_same:
  assumes "same_evidence ct ct'" "set (ct_raw ct') \<subseteq> set (ct_raw ct)" "archivable utc H ct"
  shows "archivable utc H ct'"
proof -
  have "evidence_by_id ct' = evidence_by_id ct" "alias_mismatch ct' = alias_mismatch ct"
    using assms(1) by (simp_all add: evidence_by_id_def fun_eq_iff same_evidence_def alias_mismatch_def same_evidence_find [OF assms(1)])
  then show ?thesis
    using assms by (auto simp: archivable_def foreign_keys_ok_def same_evidence_find [OF assms(1)]
        same_evidence_check [OF assms(1)] same_evidence_def simp del: not_None_eq)
qed

text \<open>What a verified snapshot is.\<close>

lemma check_database_Inr:
  assumes "check_database utc H sq content m r = Inr d"
  shows "sq_open sq content = Inr d \<and> archivable utc H (db_catalog d) \<and> available H r (set (raw_objects (db_catalog d)))
    \<and> py_eq (member m ''publication'') (db_publication d)"
  using assms
  by (auto simp: check_database_def Let_def bindR_Inr_iff archivable_def dest: check_objects_available split: if_splits)

lemma verify_snapshot_Inr:
  assumes "verify_snapshot utc H sq sn = Inr v"
  obtains m content d where "read_json (sn_manifest sn) = Inr (JObj m)" "sn_file sn = Some content"
    "item m ''catalog_sha256'' = Inr (JStr (H content))" "sq_open sq content = Inr d" "archivable utc H (db_catalog d)"
    "available H (sn_root sn) (set (raw_objects (db_catalog d)))" "vf_snapshot v = json_digest H (JObj m)"
    "vf_publication v = member m ''publication''" "py_eq (member m ''publication'') (db_publication d)"
    "check_manifest m = Inr (vf_purpose v)"
proof -
  from assms obtain u m purpose where m: "\<not> sn_linked sn" "read_json (sn_manifest sn) = Inr u" "as_dict u = Inr m"
      "check_manifest m = Inr purpose"
    by (auto simp: verify_snapshot_def bindR_Inr_iff split: if_splits)
  from m(3) have u: "u = JObj m" by (simp add: as_dict_def split: json.splits)
  note run = assms [unfolded verify_snapshot_def]
  from assms m u obtain content where c: "sn_file sn = Some content"
    by (auto simp: verify_snapshot_def as_dict_def split: option.splits)
  from assms m u c obtain d where d: "item m ''catalog_sha256'' = Inr (JStr (H content))"
      "check_database utc H sq content m (sn_root sn) = Inr d"
      "v = \<lparr>vf_coverage = catalog_status (db_catalog d), vf_purpose = purpose,
           vf_publication = member m ''publication'', vf_snapshot = json_digest H u,
           vf_created = member m ''created_at''\<rparr>"
    by (auto simp: verify_snapshot_def as_dict_def bindR_Inr_iff split: if_splits)
  with that m(2,4) c u check_database_Inr [OF d(2)] show thesis by simp
qed

section \<open>A snapshot of a consistent catalog verifies\<close>

lemma hex_str_ok: "is_hex n s \<Longrightarrow> str_ok s"
  by (auto simp: is_hex_def str_ok_def hex_digit_def max_cp_def list_all_iff)

lemma str_ok_publication: "str_ok (ct_identity ct) \<Longrightarrow> str_ok (publication ct)"
  using str_ok_show_nat [of "ct_epoch ct"] by (auto simp: publication_def show_int_def str_ok_def list_all_iff lit_def max_cp_def)

lemma raw_objects_readonly: "raw_objects (ct\<lparr>ct_readonly := b\<rparr>) = raw_objects ct"
  by (simp add: raw_objects_def)

lemma set_raw_objects: "set (raw_objects ct) = (\<lambda>w. (rw_digest w, rw_size w)) ` set (ct_raw ct)"
  by (simp add: raw_objects_def set_dedup_from)

lemma available_key: "available H src X \<Longrightarrow> (k, n) \<in> X \<Longrightarrow> is_hex 64 k"
  by (auto simp: available_def object_get_cases)

lemma same_evidence_readonly: "same_evidence ct (ct\<lparr>ct_readonly := b\<rparr>)"
  by (simp add: same_evidence_def)

lemma target_database_facts:
  "ct_raw (db_catalog (target_database so d)) = (if so then [] else ct_raw (db_catalog d))"
  "same_evidence (db_catalog d) (db_catalog (target_database so d))"
  "db_publication (target_database so d) = db_publication d"
  by (simp_all add: target_database_def same_evidence_def db_publication_def publication_def)

lemma check_database_staged:
  assumes sq: "sqlite_ok sq t" and arch: "archivable utc H (db_catalog t)"
    and objs: "objs = raw_objects (db_catalog t)" "available H src (set objs)"
    and copied: "c \<longleftrightarrow> (\<exists>x \<in> set objs. is_chunked src x)" "\<forall>x \<in> set objs. holds H r src (fst x)" "same_objects r s"
    and m: "m = manifest_members c now so (db_publication t) cs objs"
  shows "check_database utc H sq (sq_dump sq t) m s = Inr (t\<lparr>db_catalog := (db_catalog t)\<lparr>ct_readonly := True\<rparr>\<rparr>)"
proof -
  let ?ct = "(db_catalog t)\<lparr>ct_readonly := True\<rparr>"
  have arch': "archivable utc H ?ct"
    using archivable_same [OF same_evidence_readonly _ arch] by simp
  have "check_objects H (\<not> c) s objs = Inr ()"
    unfolding check_objects_iff
  proof clarify
    fix k n assume x: "(k, n) \<in> set objs"
    with objs(2) obtain b where b: "object_get H Raw src k = Inr b" "length b = n" by (auto simp: available_def)
    have h: "holds H r src k" using copied(2) x by fastforce
    note eq = same_objects_read [OF copied(3)]
    obtain l where l: "object_layout Raw src k = Inr l" using object_get_layout [OF b(1)] ..
    have "\<not> c \<longrightarrow> \<not> is_chunked src (k, n)" using copied(1) x by blast
    then have "\<not> c \<longrightarrow> object_layout Raw s k = Inr PlainFile"
      using l holds_read(3) [OF h b(1)] by (cases l) (auto simp: eq is_chunked_def)
    then show "(\<not> c \<longrightarrow> object_layout Raw s k = Inr PlainFile) \<and> object_verify H Raw s k = Inr True \<and> object_size Raw s k = Inr n"
      using holds_read [OF h b(1)] b(2) by (simp add: eq)
  qed
  moreover have "py_eq (member m ''version'') (JInt 1) \<longleftrightarrow> \<not> c"
    by (simp add: m manifest_fields py_eq_def same_json_def)
  moreover have "db_publication (t\<lparr>db_catalog := ?ct\<rparr>) = db_publication t"
    by (simp add: db_publication_def publication_def)
  ultimately show ?thesis
    using sq arch' by (auto simp: check_database_def sqlite_ok_def archivable_def m manifest_fields raw_objects_readonly objs(1))
qed

lemma staged_verifies:
  assumes sq: "sqlite_ok sq (target_database so d)" and H: "hash_ok H" and arch: "archivable utc H (db_catalog d)"
    and raw: "available H src (set (raw_objects (db_catalog d)))"
    and text_ok: "str_ok now" "str_ok (ct_identity (db_catalog d))"
  obtains sn v c objs where "staged_snapshot H sq now so d src = Inr sn" "verify_snapshot utc H sq sn = Inr v"
    "vf_purpose v = purpose_text so" "vf_snapshot v = H (the (sn_manifest sn))" "vf_publication v = db_publication d"
    "sn_file sn = Some (sq_dump sq (target_database so d))" "objs = raw_objects (db_catalog (target_database so d))"
    "read_json (sn_manifest sn) = Inr (JObj (manifest_members c now so (db_publication (target_database so d))
       (H (sq_dump sq (target_database so d))) objs))"
    "c \<longleftrightarrow> (\<exists>x \<in> set objs. is_chunked src x)" "\<forall>x \<in> set objs. holds H (sn_root sn) src (fst x)"
proof -
  let ?t = "target_database so d"
  define objs where "objs = raw_objects (db_catalog ?t)"
  have raw_t: "set (ct_raw (db_catalog ?t)) \<subseteq> set (ct_raw (db_catalog d))" by (simp add: target_database_facts)
  have arch_t: "archivable utc H (db_catalog ?t)"
    by (rule archivable_same [OF target_database_facts(2) raw_t arch])
  have avail: "available H src (set objs)"
    using raw raw_t unfolding objs_def set_raw_objects available_def by (simp add: subset_iff)
  have none: "so \<longrightarrow> objs = []" by (simp add: objs_def raw_objects_def target_database_facts)
  have "objects_le empty_root src" by (simp add: objects_le_def dir_le_def empty_root_def)
  from copy_objects_below [OF this avail, of False] obtain r c where
    "copy_objects H src objs False empty_root = Inr (c, r) \<and> (c \<longleftrightarrow> (\<exists>x \<in> set objs. is_chunked src x))
      \<and> (\<forall>x \<in> set objs. holds H r src (fst x))" by auto
  note copy = this [THEN conjunct1] and copied = this [THEN conjunct2, THEN conjunct1] this [THEN conjunct2, THEN conjunct2]
  define pub where "pub = db_publication ?t"
  define cs where "cs = H (sq_dump sq ?t)"
  let ?m = "manifest_of c now so pub cs objs" and ?n = "manifest_members c now so pub cs objs"
  have norm: "normal_json (JObj ?m) = JObj ?n" by (rule normal_manifest) (simp add: pub_def db_publication_def)
  have "json_ok pub" using str_ok_publication [OF text_ok(2)]
    unfolding pub_def target_database_facts(3) by (simp add: db_publication_def)
  moreover have "\<forall>x \<in> set objs. str_ok (fst x)" using available_key [OF avail] hex_str_ok by fastforce
  ultimately have "json_ok (JObj ?m)"
    using H text_ok(1) by (intro json_ok_manifest) (simp_all add: cs_def hash_ok_def hex_str_ok [of 64])
  then have read: "read_json (Some (encode_json (JObj ?m))) = Inr (JObj ?n)" using read_json_encode norm by metis
  define sn where "sn = \<lparr>sn_linked = False, sn_manifest = Some (encode_json (JObj ?m)),
      sn_file = Some (sq_dump sq ?t), sn_root = r\<lparr>has_manifest := True\<rparr>\<rparr>"
  have "staged_snapshot H sq now so d src = Inr sn"
    by (simp only: staged_snapshot_def Let_def objs_def [symmetric] copy bindR_simps prod.case sn_def pub_def cs_def)
  moreover have db: "check_database utc H sq (sq_dump sq ?t) ?n (r\<lparr>has_manifest := True\<rparr>)
      = Inr (?t\<lparr>db_catalog := (db_catalog ?t)\<lparr>ct_readonly := True\<rparr>\<rparr>)"
    by (rule check_database_staged [OF sq arch_t objs_def avail copied _ ])
      (simp_all add: same_objects_def pub_def)
  have "\<exists>v. verify_snapshot utc H sq sn = Inr v \<and> vf_purpose v = purpose_text so
      \<and> vf_snapshot v = json_digest H (JObj ?n) \<and> vf_publication v = pub"
    by (simp add: verify_snapshot_def sn_def read as_dict_def check_manifest_made [OF none] manifest_fields db cs_def [symmetric])
  moreover have "json_digest H (JObj ?n) = H (the (sn_manifest sn))"
    using encode_json_normal [of "JObj ?m"] by (simp only: norm sn_def json_digest_def snapshot.simps option.sel)
  moreover have "pub = db_publication d" by (simp add: pub_def target_database_facts)
  moreover have "\<forall>x \<in> set objs. holds H (sn_root sn) src (fst x)"
  proof -
    have "same_objects r (sn_root sn)" by (simp add: sn_def same_objects_def)
    from same_objects_read(4) [OF this] copied(2) show ?thesis by (simp add: holds_def sn_def)
  qed
  moreover have "read_json (sn_manifest sn) = Inr (JObj (manifest_members c now so (db_publication ?t) (H (sq_dump sq ?t)) objs))"
    using read by (simp add: sn_def pub_def cs_def)
  moreover have "sn_file sn = Some (sq_dump sq ?t)" by (simp add: sn_def)
  ultimately show thesis using that [of sn] copied(1) objs_def by auto
qed

section \<open>Histories lead to archivable catalogs\<close>

text \<open>Facts about the tables that no other invariant states.\<close>

definition tables_inv :: "pystr \<Rightarrow> catalog \<Rightarrow> bool" where
  "tables_inv ident ct \<longleftrightarrow> ct_identity ct = ident \<and> distinct (map fst (ct_heads ct)) \<and> distinct (map fst (ct_active ct)) \<and> ct_legacy ct = []
     \<and> (\<forall>a \<in> set (ct_aliases ct). \<not> alias_mismatch ct a)"

lemma ingest_events_keys:
  assumes "ingest_events H sid previous es ct = Inr (ids, ct')" "distinct (map fst (ct_active ct))"
  shows "distinct (map fst (ct_active ct')) \<and> ct_legacy ct' = ct_legacy ct \<and> ct_identity ct' = ct_identity ct"
  using assms
proof (induction es arbitrary: ct ids)
  case (Cons e es)
  let ?rows = "insert_evidence H sid e (ct_evidence ct)"
  let ?i = "row_of_hash (event_hash H sid e) ?rows"
  let ?ct = "ct\<lparr>ct_evidence := ?rows\<rparr>"
  from Cons.prems(1) obtain ct1 rest where 1: "(if ?i \<in> previous then Inr ?ct else insert_fts ?i (ev_text e) ?ct) = Inr ct1"
    "ingest_events H sid previous es (append_active sid ?i ct1) = Inr (rest, ct')"
    by (auto simp: Let_def bindR_Inr_iff)
  have "ct_active ct1 = ct_active ct \<and> ct_legacy ct1 = ct_legacy ct \<and> ct_identity ct1 = ct_identity ct"
    using 1(1) by (auto simp: insert_fts_def split: if_splits)
  moreover have "distinct (map fst (ct_active (append_active sid ?i ct1)))"
    using Cons.prems(2) calculation by (simp add: append_active_def distinct_update)
  ultimately show ?case using Cons.IH [OF 1(2)] by (simp add: append_active_def)
qed simp

lemma ingest_new_keys:
  assumes "ingest_new H s ct = Inr ct'" "distinct (map fst (ct_heads ct))" "distinct (map fst (ct_active ct))"
  shows "distinct (map fst (ct_heads ct'))" "distinct (map fst (ct_active ct'))" "ct_legacy ct' = ct_legacy ct"
    "ct_identity ct' = ct_identity ct"
proof -
  obtain ids ct1 where run: "ingest_events H (ses_id s) (set (active_rows ct (ses_id s))) (ses_events s)
      (ct\<lparr>ct_active := AList.delete (ses_id s) (ct_active ct)\<rparr>) = Inr (ids, ct1)"
    using assms(1) by (auto simp: ingest_new_def Let_def bindR_Inr_iff)
  have k: "distinct (map fst (ct_active ct1))" "ct_legacy ct1 = ct_legacy ct" "ct_identity ct1 = ct_identity ct"
    using ingest_events_keys [OF run] assms(3) by (simp_all add: distinct_delete)
  have "ct_active ct' = ct_active ct1 \<and> ct_legacy ct' = ct_legacy ct1 \<and> ct_identity ct' = ct_identity ct1"
    using assms(1) by (auto simp: ingest_new_def run Let_def split: if_splits)
  then show "distinct (map fst (ct_active ct'))" "ct_legacy ct' = ct_legacy ct" "ct_identity ct' = ct_identity ct" using k by simp_all
  show "distinct (map fst (ct_heads ct'))"
    using ingest_new_tables [OF assms(1)] assms(2) by (simp add: distinct_update)
qed

lemma ingest_new_alias_row:
  assumes "ingest_new H s ct = Inr ct'" "al \<in> set (ct_aliases ct')"
  shows "al \<in> set (ct_aliases ct) \<or> (\<exists>h. head_row ct (ses_id s) = Some h \<and> needs_alias (Some h) s
    \<and> al = \<lparr>al_session = ses_id s, al_project = ses_project s, al_alias = rr_project h, al_legacy = rr_revision h,
        al_native = session_revision H s\<rparr>)"
proof -
  obtain ids ct1 where run: "ingest_events H (ses_id s) (set (active_rows ct (ses_id s))) (ses_events s)
      (ct\<lparr>ct_active := AList.delete (ses_id s) (ct_active ct)\<rparr>) = Inr (ids, ct1)"
    using assms(1) by (auto simp: ingest_new_def Let_def bindR_Inr_iff)
  obtain A where A: "A = ct_active ct1" by blast
  note eff = ingest_events_effect [OF run, THEN conjunct2, THEN conjunct1, folded A]
  have "ct_aliases ct1 = ct_aliases ct" by (subst eff) simp
  moreover have "needs_alias prev s \<Longrightarrow> \<exists>h. prev = Some h" for prev by (cases prev) (simp_all add: needs_alias_def)
  ultimately show ?thesis
    using assms by (auto simp: ingest_new_def run Let_def insert_alias_def split: if_splits)
qed

lemma ingest_tables:
  assumes "ingest H r s p q c w ct = (res, ct')" "tables_inv ident ct" "references_inv ct"
  shows "tables_inv ident ct'"
  using assms(1)
proof (cases rule: ingest_outcomes)
  case known
  have "find_revision ct' = find_revision ct" by (rule same_tables) (simp_all add: known)
  then have "alias_mismatch ct' = alias_mismatch ct" by (simp add: fun_eq_iff alias_mismatch_def)
  moreover have "ct_legacy ct' = ct_legacy ct" "ct_aliases ct' = ct_aliases ct" "ct_identity ct' = ct_identity ct" by (simp_all add: known record_receipt_def)
  ultimately show ?thesis using assms(2) by (simp add: tables_inv_def known)
next
  case (stored ct1)
  have keys: "distinct (map fst (ct_heads ct1))" "distinct (map fst (ct_active ct1))" "ct_legacy ct1 = ct_legacy ct"
      "ct_identity ct1 = ct_identity ct"
    using ingest_new_keys [OF stored(3)] assms(2) by (simp_all add: tables_inv_def)
  have "find_revision ct' = find_revision ct1" by (rule same_tables) (simp_all add: stored)
  then have mism: "alias_mismatch ct' = alias_mismatch ct1" by (simp add: fun_eq_iff alias_mismatch_def)
  from ingest_new_tables [OF stored(3)] obtain ids where
    rows: "ct_revisions ct1 = ct_revisions ct @ [revision_row_of (session_revision H s) s ids]" by blast
  have old: "find_revision ct1 a b = Some x" if "find_revision ct a b = Some x" for a b x
    using that rows by (simp add: find_revision_append)
  have new: "find_revision ct1 (ses_id s) (session_revision H s) = Some (revision_row_of (session_revision H s) s ids)"
    using stored(2) rows by (simp add: find_revision_append)
  have "\<not> alias_mismatch ct1 al" if al: "al \<in> set (ct_aliases ct1)" for al
    using ingest_new_alias_row [OF stored(3) al]
  proof (elim disjE exE conjE)
    assume al: "al \<in> set (ct_aliases ct)"
    then obtain l n where "find_revision ct (al_session al) (al_legacy al) = Some l"
      "find_revision ct (al_session al) (al_native al) = Some n"
      using assms(3) unfolding references_inv_def by blast
    moreover have "\<not> alias_mismatch ct al" using assms(2) al by (simp add: tables_inv_def)
    ultimately show ?thesis using old by (auto simp: alias_mismatch_def)
  next
    fix h assume h: "head_row ct (ses_id s) = Some h" "needs_alias (Some h) s"
      "al = \<lparr>al_session = ses_id s, al_project = ses_project s, al_alias = rr_project h, al_legacy = rr_revision h,
        al_native = session_revision H s\<rparr>"
    from h(1) obtain rv where rv: "find_revision ct (ses_id s) rv = Some h" by (auto simp: head_row_def bind_eq_Some_conv)
    from find_Some_set [OF this [unfolded find_revision_def]] have "rr_revision h = rv" by simp
    with rv old have "find_revision ct1 (ses_id s) (rr_revision h) = Some h" by simp
    with h(2,3) new show ?thesis by (simp add: alias_mismatch_def needs_alias_def revision_row_of_def)
  qed
  then have al: "\<forall>a \<in> set (ct_aliases ct'). \<not> alias_mismatch ct' a"
    unfolding mism by (simp add: stored(5) record_receipt_def)
  have "ct_legacy ct' = []" "ct_identity ct' = ident" using keys(3,4) assms(2) by (simp_all add: stored record_receipt_def tables_inv_def)
  with keys al show ?thesis by (simp add: tables_inv_def stored)
qed (use assms(2) in simp_all)

lemma ingest_history_tables:
  assumes "ingest_history H qs ct = (results, ct')" "tables_inv ident ct" "references_inv ct"
  shows "tables_inv ident ct'"
  using assms
proof (induction qs arbitrary: ct results)
  case (Cons q qs)
  obtain res ct1 where one: "ingest_one H q ct = (res, ct1)" by (cases "ingest_one H q ct")
  with Cons.prems(1) obtain rest where rest: "ingest_history H qs ct1 = (rest, ct')" by (auto split: prod.splits)
  note ing = one [unfolded ingest_one_def]
  show ?case by (rule Cons.IH [OF rest ingest_tables [OF ing Cons.prems(2,3)] ingest_references [OF ing Cons.prems(3)]])
qed simp

lemma active_in_evidence:
  assumes "catalog_inv H D ct" "i \<in> set (active_rows ct sid)"
  shows "evidence_by_id ct i \<noteq> None"
proof -
  from assms obtain r where r: "head_row ct sid = Some r" "i \<in> set (rr_map r)"
    by (cases "head_row ct sid") (auto simp: catalog_inv_def)
  from r(1) have "r \<in> set (ct_revisions ct)"
    by (auto simp: head_row_def bind_eq_Some_conv find_revision_def dest: find_Some_set)
  with assms(1) obtain s where "revision_of H D (ct_evidence ct) s r" by (auto simp: catalog_inv_def)
  then have "rows_for (ct_evidence ct) (ses_id s) (rr_map r) (ses_events s)" by (simp add: revision_of_def)
  from rows_for_mem [OF this r(2)] show ?thesis by (auto simp: evidence_by_id_def find_None_iff)
qed

lemma foreign_keys_inv:
  assumes "catalog_inv H D ct" "references_inv ct" "tables_inv ident ct"
  shows "foreign_keys_ok ct"
proof -
  have "find_revision ct sid rv \<noteq> None" if "(sid, rv) \<in> set (ct_heads ct)" for sid rv
    using assms(1,3) that by (auto simp: catalog_inv_def tables_inv_def head_of_def)
  moreover have "evidence_by_id ct i \<noteq> None" if "(sid, ids) \<in> set (ct_active ct)" "i \<in> set ids" for sid ids i
  proof -
    have "active_rows ct sid = ids" using assms(3) that(1) by (simp add: tables_inv_def active_rows_def)
    with active_in_evidence [OF assms(1), of i sid] that(2) show ?thesis by simp
  qed
  moreover have "ct_legacy ct = []" using assms(3) by (simp add: tables_inv_def)
  ultimately show ?thesis
    using assms(2) unfolding foreign_keys_ok_def references_inv_def by fastforce
qed

lemma history_archivable:
  assumes "ingest_history H qs (empty_catalog ident) = (results, ct)" "inj_on H (history_docs qs)"
    "\<forall>q \<in> set qs. valid_session utc (rq_session q) \<and> session_text_ok (rq_session q)"
  shows "archivable utc H ct" "ct_identity ct = ident"
proof -
  have inv: "catalog_inv H (history_docs qs) ct" "references_inv ct"
    using ingest_history_inv [OF assms(1,2) valid_history_fits] assms(3) by auto
  have tab: "tables_inv ident ct"
    by (rule ingest_history_tables [OF assms(1)]) (simp_all add: tables_inv_def empty_catalog_def references_inv_def)
  then show "ct_identity ct = ident" by (simp add: tables_inv_def)
  have "\<exists>v s. export_revision ct (rr_session r) (rr_revision r) = Inr v \<and> session_of_json utc v = Inr s
      \<and> session_revision H s = rr_revision r" if r: "r \<in> set (ct_revisions ct)" for r
  proof -
    from ingest_history_rows [OF assms(1) r] obtain q where q: "q \<in> set qs"
      "rr_revision r = session_revision H (rq_session q)" by (auto simp: empty_catalog_def)
    obtain x where x: "find_revision ct (rr_session r) (rr_revision r) = Some x"
      using r by (cases "find_revision ct (rr_session r) (rr_revision r)") (auto simp: find_revision_None)
    have "session_doc (rq_session q) \<in> history_docs qs" using q(1) by (auto simp: history_docs_def session_docs_def)
    from revision_of_find(1) [OF inv(1) assms(2) this] x q(2)
    have "revision_of H (history_docs qs) (ct_evidence ct) (rq_session q) x" by simp
    from export_stored [OF inv(1) x this] assms(3) q
    have "export_revision ct (rr_session r) (rr_revision r) = Inr (normal_json (JObj (session_dict (rq_session q))))" by simp
    with session_of_json_normal [of utc "rq_session q"] assms(3) q show ?thesis by auto
  qed
  then show "archivable utc H ct"
    using foreign_keys_inv [OF inv tab] tab unfolding archivable_def check_revisions_iff tables_inv_def by blast
qed

lemma copy_members_markers:
  "copy_members H ns src nt ms t = (res, t') \<Longrightarrow> is_fenced t' = is_fenced t \<and> has_current t' = has_current t \<and> has_manifest t' = has_manifest t"
proof (induction ms arbitrary: t)
  case (Cons mk ms)
  obtain m k where mk: "mk = (m, k)" by (cases mk)
  obtain x d where step: "copy_member H (dir_get (member_dir m ns src) k) k (member_dir m nt t) = (x, d)"
    by (cases "copy_member H (dir_get (member_dir m ns src) k) k (member_dir m nt t)")
  have "is_fenced (set_member_dir m nt d t) = is_fenced t \<and> has_current (set_member_dir m nt d t) = has_current t
      \<and> has_manifest (set_member_dir m nt d t) = has_manifest t"
    by (cases m) (simp_all add: set_member_dir_def)
  with Cons.IH Cons.prems mk step show ?case by (cases x) auto
qed simp

lemma object_copy_markers:
  assumes "object_copy_to H ns src nt k t = (res, t')"
  shows "is_fenced t' = is_fenced t \<and> has_current t' = has_current t \<and> has_manifest t' = has_manifest t"
proof (cases "object_members ns src t k")
  case (Inr ms)
  obtain x t1 where step: "copy_members H ns src nt ms t = (x, t1)" by (cases "copy_members H ns src nt ms t")
  with assms Inr have "t' = t1" by (auto simp: object_copy_to_def bindS_def split: sum.splits if_splits)
  with copy_members_markers [OF step] show ?thesis by simp
qed (use assms in \<open>simp add: object_copy_to_def\<close>)

section \<open>Preparing a primary from a snapshot\<close>

lemma holds_trans: "holds H a b k \<Longrightarrow> holds H b c k \<Longrightarrow> holds H a c k"
  by (simp add: holds_def)

lemma copy_keys_below:
  assumes "objects_le t src" "\<forall>k \<in> set ks. \<exists>b. object_get H Raw src k = Inr b"
  shows "\<exists>t'. copy_keys H src ks t = Inr t' \<and> objects_le t t' \<and> objects_le t' src \<and> (\<forall>k \<in> set ks. holds H t' src k)
    \<and> (is_fenced t' = is_fenced t \<and> has_current t' = has_current t \<and> has_manifest t' = has_manifest t)"
  using assms
proof (induction ks arbitrary: t)
  case (Cons k ks)
  from Cons.prems(2) obtain b where b: "object_get H Raw src k = Inr b" by auto
  obtain t1 where t1: "object_copy_to H Raw src Raw k t = (Inr (), t1)" "objects_le t1 src" "objects_le t t1" "holds H t1 src k"
    by (rule object_copy_below [OF b Cons.prems(1)])
  from Cons.IH [OF t1(2)] Cons.prems(2) obtain t' where t': "copy_keys H src ks t1 = Inr t'" "objects_le t1 t'"
    "objects_le t' src" "\<forall>k \<in> set ks. holds H t' src k" "is_fenced t' = is_fenced t1" "has_current t' = has_current t1"
    "has_manifest t' = has_manifest t1" by auto
  have "holds H t' src k" by (rule holds_between [OF t1(4) t'(2,3) b])
  moreover have "objects_le t t'" by (rule objects_le_trans [OF t1(3) t'(2)])
  moreover have "is_fenced t1 = is_fenced t \<and> has_current t1 = has_current t \<and> has_manifest t1 = has_manifest t"
    using object_copy_markers [OF t1(1)] .
  ultimately show ?case using t' t1(1) by (intro exI [of _ t']) simp
qed simp

lemma listed_objects_made: "listed_objects (manifest_members c now so pub cs objs) = Inr (map fst objs)"
proof -
  have "item [(lit ''digest'', JStr k), (lit ''size'', v)] ''digest'' = Inr (JStr k)" for k v
    by (simp add: item_def jget_def)
  then show ?thesis
    by (simp add: listed_objects_def manifest_fields objects_json_def mapR_Inr_iff list_all2_map1 list_all2_map2
        case_prod_unfold list.rel_refl)
qed

lemma available_holds:
  assumes "available H src X" "\<forall>x \<in> X. holds H r src (fst x)"
  shows "available H r X"
  unfolding available_def
proof clarify
  fix k n assume x: "(k, n) \<in> X"
  with assms(2) have "object_get H Raw r k = object_get H Raw src k" by (fastforce simp: holds_def)
  with assms(1) x show "\<exists>b. object_get H Raw r k = Inr b \<and> length b = n" by (auto simp: available_def)
qed

text \<open>The copy of a snapshot that was just made verifies as the same snapshot.\<close>

lemma copied_verifies:
  assumes sq: "sqlite_ok sq t" and arch: "archivable utc H (db_catalog t)"
    and objs: "objs = raw_objects (db_catalog t)" "available H src (set objs)" "so \<longrightarrow> objs = []"
    and db_file: "sn_file sn = Some (sq_dump sq t)"
    and read: "read_json (sn_manifest sn) = Inr (JObj (manifest_members c now so (db_publication t) (H (sq_dump sq t)) objs))"
    and copied: "c \<longleftrightarrow> (\<exists>x \<in> set objs. is_chunked src x)" "\<forall>x \<in> set objs. holds H (sn_root sn) src (fst x)"
  obtains cp v where "copied_snapshot H sn = Inr cp" "verify_snapshot utc H sq cp = Inr v" "sn_file cp = sn_file sn"
    "sn_manifest cp = sn_manifest sn"
    "vf_snapshot v = json_digest H (JObj (manifest_members c now so (db_publication t) (H (sq_dump sq t)) objs))"
    "available H (sn_root cp) (set objs)" "acquire_writer (sn_root cp) = Inr ()"
proof -
  let ?m = "manifest_members c now so (db_publication t) (H (sq_dump sq t)) objs"
  have get: "\<exists>b. object_get H Raw (sn_root sn) k = Inr b" if "k \<in> set (map fst objs)" for k
    using that available_holds [OF objs(2) copied(2)] by (auto simp: available_def)
  have "objects_le empty_root (sn_root sn)" by (simp add: objects_le_def dir_le_def empty_root_def)
  from copy_keys_below [OF this, of "map fst objs" H] get obtain r where
    "copy_keys H (sn_root sn) (map fst objs) empty_root = Inr r \<and> objects_le empty_root r \<and> objects_le r (sn_root sn)
      \<and> (\<forall>k \<in> set (map fst objs). holds H r (sn_root sn) k)
      \<and> (is_fenced r = is_fenced empty_root \<and> has_current r = has_current empty_root \<and> has_manifest r = has_manifest empty_root)"
    by blast
  then have r: "copy_keys H (sn_root sn) (map fst objs) empty_root = Inr r" "\<forall>k \<in> set (map fst objs). holds H r (sn_root sn) k"
    "\<not> is_fenced r \<and> \<not> has_current r \<and> \<not> has_manifest r" by (simp_all add: empty_root_def)
  have held: "\<forall>x \<in> set objs. holds H r src (fst x)" using r(2) copied(2) by (auto intro: holds_trans)
  define cp where "cp = \<lparr>sn_linked = False, sn_manifest = sn_manifest sn, sn_file = Some (sq_dump sq t), sn_root = r\<rparr>"
  have cp: "copied_snapshot H sn = Inr cp"
    by (simp add: copied_snapshot_def read as_dict_def db_file listed_objects_made r(1) cp_def)
  have db: "check_database utc H sq (sq_dump sq t) ?m r = Inr (t\<lparr>db_catalog := (db_catalog t)\<lparr>ct_readonly := True\<rparr>\<rparr>)"
    by (rule check_database_staged [OF sq arch objs(1,2) copied(1) held]) (simp_all add: same_objects_def)
  obtain v where v: "verify_snapshot utc H sq cp = Inr v" "vf_snapshot v = json_digest H (JObj ?m)"
    by (simp add: verify_snapshot_def cp_def read as_dict_def check_manifest_made [OF objs(3)] manifest_fields db)
  have "available H r (set objs)" by (rule available_holds [OF objs(2) held])
  with cp v r(3) that show thesis by (simp add: cp_def db_file acquire_writer_def)
qed

lemma prepare_primary_Inr:
  assumes "prepare_primary utc H sq now fresh expected isolated linked inside sn copied dest = (Inr receipt, dest')"
  obtains v cp w d where "isolated" "dest = None" "verify_snapshot utc H sq sn = Inr v" "vf_purpose v = JStr (lit ''recovery'')"
    "vf_snapshot v = expected" "copied_snapshot H copied = Inr cp" "verify_snapshot utc H sq cp = Inr w"
    "vf_snapshot w = expected" "sq_open sq (the (sn_file cp)) = Inr d"
    "dest' = Some (new_primary now fresh expected (vf_publication v) d cp)"
    "receipt = pr_receipt (new_primary now fresh expected (vf_publication v) d cp)"
  using assms that
  by (auto simp: prepare_primary_def bindR_Inr_iff split: if_splits sum.splits)

lemma prepare_primary_fails_clean:
  "prepare_primary utc H sq now fresh expected isolated linked inside sn copied dest = (Inl e, dest') \<Longrightarrow> dest' = dest"
  by (auto simp: prepare_primary_def split: if_splits sum.splits)

section \<open>Recovery\<close>

lemma raw_objects_target: "raw_objects (db_catalog (target_database False d)) = raw_objects (db_catalog d)"
  by (simp add: target_database_def)

lemma snapshot_then_primary:
  assumes "sqlite_ok sq \<lparr>db_catalog = ct, db_state = st\<rparr>" "hash_ok H" "archivable utc H ct" "available H src (set (raw_objects ct))"
    "str_ok now" "str_ok (ct_identity ct)"
  obtains c sn receipt p where
    "create_snapshot utc H sq now False \<lparr>db_catalog = ct, db_state = st\<rparr> src None = (Inr c, Some sn)"
    "prepare_primary utc H sq now2 fresh (cs_snapshot c) True False False sn sn None = (Inr receipt, Some p)"
    "pr_catalog p = restarted fresh ct" "available H (pr_root p) (set (raw_objects ct))" "acquire_writer (pr_root p) = Inr ()"
    "sn_file sn = Some (sq_dump sq \<lparr>db_catalog = ct, db_state = st\<rparr>)"
proof -
  let ?d = "\<lparr>db_catalog = ct, db_state = st\<rparr>"
  have t: "target_database False ?d = ?d" by (simp add: target_database_def)
  have d: "archivable utc H (db_catalog ?d)" "available H src (set (raw_objects (db_catalog ?d)))" "str_ok (ct_identity (db_catalog ?d))"
    using assms(3,4,6) by simp_all
  obtain sn v c objs where sn: "staged_snapshot H sq now False ?d src = Inr sn" "verify_snapshot utc H sq sn = Inr v"
    "vf_purpose v = purpose_text False" "vf_snapshot v = H (the (sn_manifest sn))"
    "vf_publication v = db_publication ?d" "sn_file sn = Some (sq_dump sq ?d)" "objs = raw_objects (db_catalog ?d)"
    "read_json (sn_manifest sn) = Inr (JObj (manifest_members c now False (db_publication ?d) (H (sq_dump sq ?d)) objs))"
    "c \<longleftrightarrow> (\<exists>x \<in> set objs. is_chunked src x)" "\<forall>x \<in> set objs. holds H (sn_root sn) src (fst x)"
    by (rule staged_verifies [of sq False ?d, unfolded t, OF assms(1,2) d(1,2) assms(5) d(3)])
  have digest: "vf_snapshot v = json_digest H (JObj (manifest_members c now False (db_publication ?d) (H (sq_dump sq ?d)) objs))"
    by (rule verify_snapshot_Inr [OF sn(2)]) (use sn(8) in simp)
  obtain cp w where cp: "copied_snapshot H sn = Inr cp" "verify_snapshot utc H sq cp = Inr w" "sn_file cp = sn_file sn"
    "vf_snapshot w = vf_snapshot v" "available H (sn_root cp) (set objs)" "acquire_writer (sn_root cp) = Inr ()"
    by (rule copied_verifies [OF assms(1) d(1) sn(7) _ _ sn(6) sn(8-10)]) (use d(2) sn(7) digest in simp_all)
  let ?p = "new_primary now2 fresh (H (the (sn_manifest sn))) (vf_publication v) (?d\<lparr>db_catalog := ct\<lparr>ct_readonly := True\<rparr>\<rparr>) cp"
  have opened: "sq_open sq (the (sn_file cp)) = Inr (?d\<lparr>db_catalog := ct\<lparr>ct_readonly := True\<rparr>\<rparr>)"
    using assms(1) cp(3) sn(6) by (simp add: sqlite_ok_def)
  have make: "create_snapshot utc H sq now False ?d src None =
      (Inr \<lparr>cs_snapshot = H (the (sn_manifest sn)), cs_objects = length (raw_objects ct), cs_purpose = purpose_text False\<rparr>, Some sn)"
    by (simp add: create_snapshot_def sn(1,2) t)
  have prep: "prepare_primary utc H sq now2 fresh (H (the (sn_manifest sn))) True False False sn sn None = (Inr (pr_receipt ?p), Some ?p)"
    using sn(3,4) cp(4) by (simp add: prepare_primary_def sn(2) cp(1,2) opened purpose_text_def)
  have "pr_catalog ?p = restarted fresh ct" by (simp add: new_primary_def restarted_def Let_def)
  moreover have "pr_root ?p = sn_root cp" by (simp add: new_primary_def Let_def)
  ultimately show thesis using that [OF make _ ] prep cp(5,6) sn(6,7) by simp
qed

text \<open>
  C14: Nothing is lost by a recovery. Take a catalog that any history of uploads leads to, whose raw
  objects are intact. A recovery snapshot of it is created without an error, and preparing a
  replacement primary from this snapshot succeeds: every session that was ever accepted exports from the
  new primary exactly as it was sent, every raw object can be read there with its digest and
  size, the new primary accepts writes and has the fresh identity with epoch 0.
\<close>

theorem recovered_primary_has_everything:
  assumes "ingest_history H qs (empty_catalog ident) = (results, ct)" "inj_on H (history_docs qs)"
    "\<forall>q \<in> set qs. valid_session utc (rq_session q) \<and> session_text_ok (rq_session q)"
    "available H src (set (raw_objects ct))"
    "sqlite_ok sq \<lparr>db_catalog = ct, db_state = st\<rparr>" "hash_ok H" "str_ok now" "str_ok ident"
  shows "\<exists>c sn receipt p.
    create_snapshot utc H sq now False \<lparr>db_catalog = ct, db_state = st\<rparr> src None = (Inr c, Some sn) \<and>
    prepare_primary utc H sq now2 fresh (cs_snapshot c) True False False sn sn None = (Inr receipt, Some p) \<and>
    (\<forall>q a. (q, Inr a) \<in> set (zip qs results) \<longrightarrow> (\<exists>v. export_revision (pr_catalog p) (ir_session a) (ir_revision a) = Inr v
       \<and> session_of_json utc v = Inr (rq_session q))) \<and>
    (\<forall>(k, n) \<in> set (raw_objects ct). \<exists>b. object_get H Raw (pr_root p) k = Inr b \<and> H b = k \<and> length b = n) \<and>
    publication (pr_catalog p) = fresh @ lit '':0'' \<and> \<not> ct_readonly (pr_catalog p) \<and> acquire_writer (pr_root p) = Inr ()"
proof -
  note arch = history_archivable [OF assms(1-3)]
  have ident: "str_ok (ct_identity ct)" using arch(2) assms(8) by simp
  obtain c sn receipt p where p: "create_snapshot utc H sq now False \<lparr>db_catalog = ct, db_state = st\<rparr> src None = (Inr c, Some sn)"
    "prepare_primary utc H sq now2 fresh (cs_snapshot c) True False False sn sn None = (Inr receipt, Some p)"
    "pr_catalog p = restarted fresh ct" "available H (pr_root p) (set (raw_objects ct))" "acquire_writer (pr_root p) = Inr ()"
    by (rule snapshot_then_primary [OF assms(5,6) arch(1) assms(4,7) ident])
  have export: "export_revision (restarted fresh ct) = export_revision ct"
    by (rule same_evidence_export) (simp add: same_evidence_def restarted_def)
  have "\<exists>v. export_revision (pr_catalog p) (ir_session a) (ir_revision a) = Inr v \<and> session_of_json utc v = Inr (rq_session q)"
    if "(q, Inr a) \<in> set (zip qs results)" for q a
    using history_export [OF assms(1-3) that] session_of_json_normal [of utc "rq_session q"] assms(3) that
    by (auto simp: p(3) export dest: set_zip_leftD)
  moreover have "\<forall>(k, n) \<in> set (raw_objects ct). \<exists>b. object_get H Raw (pr_root p) k = Inr b \<and> H b = k \<and> length b = n"
    using p(4) object_get_hash by (fastforce simp: available_def)
  moreover have "publication (restarted fresh ct) = fresh @ lit '':0''"
    by (simp add: publication_def restarted_def show_int_def lit_def show_nat.simps [of 0])
  ultimately show ?thesis using p by (auto simp: restarted_def)
qed

text \<open>A raw object, a hash that tells the documents of one session apart, and a database format.\<close>

definition recovery_hash :: "bytes \<Rightarrow> pystr" where
  "recovery_hash b = replicate 63 48 @ [48 + (if b = [] then 3 else if b = session_doc (sample_session [lit ''a'']) then 1
     else if b \<in> session_docs (sample_session [lit ''a'']) then 2 else 0)]"

definition recovery_root :: data_root where
  "recovery_root = empty_root\<lparr>raw_files := [(recovery_hash [9], File [9])]\<rparr>"

definition recovery_request :: ingest_request where
  "recovery_request = (sample_request [lit ''a''] ''1'')\<lparr>rq_root := recovery_root,
     rq_raw := Some \<lparr>raw_digest = recovery_hash [9], raw_size = 1, raw_path = lit ''/p'', raw_fingerprint = lit ''f''\<rparr>\<rparr>"

definition recovery_catalog :: catalog where
  "recovery_catalog = snd (ingest_history recovery_hash [recovery_request] (empty_catalog (lit ''old'')))"

definition recovery_sqlite :: "catalog \<Rightarrow> sqlite" where
  "recovery_sqlite ct = \<lparr>sq_dump = \<lambda>_. [], sq_open = \<lambda>_. Inr \<lparr>db_catalog = ct\<lparr>ct_readonly := True\<rparr>, db_state = True\<rparr>,
     sq_integrity = \<lambda>_. True\<rparr>"

lemma hash_ok_recovery: "hash_ok recovery_hash"
  by (simp add: hash_ok_def recovery_hash_def is_hex_def hex_digit_def list_all_iff)

lemma session_docs_sample: "session_docs (sample_session [x]) = {session_doc (sample_session [x]),
    event_doc (ses_id (sample_session [x])) (hd (ses_events (sample_session [x])))}"
  by (simp add: session_docs_def sample_session_def)

lemma inj_recovery: "inj_on recovery_hash (history_docs [recovery_request])"
  by (auto simp: inj_on_def history_docs_def recovery_request_def sample_request_def session_docs_sample recovery_hash_def
      split: if_splits)

lemma recovery_raws: "available recovery_hash recovery_root (set (raw_objects recovery_catalog))"
proof -
  obtain res ct where one: "ingest_one recovery_hash recovery_request (empty_catalog (lit ''old'')) = (res, ct)"
    by (cases "ingest_one recovery_hash recovery_request (empty_catalog (lit ''old''))")
  then have ct: "recovery_catalog = ct" by (simp add: recovery_catalog_def)
  from one [unfolded ingest_one_def] have "\<forall>w \<in> set (ct_raw ct). rw_digest w = recovery_hash [9] \<and> rw_size w = 1"
  proof (cases rule: ingest_outcomes)
    case (stored ct1)
    have "ct_raw ct1 = []" using ingest_new_tables [OF stored(3)] by (simp add: empty_catalog_def)
    then show ?thesis by (simp add: stored(5) record_receipt_def recovery_request_def insert_raw_def)
  qed (simp_all add: empty_catalog_def find_revision_def)
  moreover have "object_get recovery_hash Raw recovery_root (recovery_hash [9]) = Inr [9]"
    using hash_ok_recovery by (simp add: object_get_cases recovery_root_def dir_get_def hash_ok_def)
  ultimately show ?thesis by (auto simp: available_def set_raw_objects ct)
qed

lemma recovered_primary_has_everything_witness:
  "\<exists>c sn receipt p.
    create_snapshot no_time recovery_hash (recovery_sqlite recovery_catalog) [] False
      \<lparr>db_catalog = recovery_catalog, db_state = True\<rparr> recovery_root None = (Inr c, Some sn) \<and>
    prepare_primary no_time recovery_hash (recovery_sqlite recovery_catalog) [] (lit ''new'') (cs_snapshot c) True False False sn sn None
      = (Inr receipt, Some p) \<and> publication (pr_catalog p) = lit ''new:0''"
proof -
  obtain results ct where run: "ingest_history recovery_hash [recovery_request] (empty_catalog (lit ''old'')) = (results, ct)"
    by (cases "ingest_history recovery_hash [recovery_request] (empty_catalog (lit ''old''))")
  then have ct: "ct = recovery_catalog" by (simp add: recovery_catalog_def)
  have ok: "\<forall>q \<in> set [recovery_request]. valid_session no_time (rq_session q) \<and> session_text_ok (rq_session q)"
    by (simp add: recovery_request_def sample_request_def sample_session_valid sample_session_text)
  have "sqlite_ok (recovery_sqlite recovery_catalog) \<lparr>db_catalog = recovery_catalog, db_state = True\<rparr>"
    by (simp add: sqlite_ok_def recovery_sqlite_def)
  from recovered_primary_has_everything [OF run inj_recovery ok recovery_raws [folded ct] this [folded ct] hash_ok_recovery,
      of "[]" "[]" "lit ''new''"]
  obtain c sn receipt p where
    "create_snapshot no_time recovery_hash (recovery_sqlite recovery_catalog) [] False
      \<lparr>db_catalog = recovery_catalog, db_state = True\<rparr> recovery_root None = (Inr c, Some sn)"
    "prepare_primary no_time recovery_hash (recovery_sqlite recovery_catalog) [] (lit ''new'') (cs_snapshot c) True False False sn sn None
      = (Inr receipt, Some p)" "publication (pr_catalog p) = lit ''new'' @ lit '':0''"
    by (auto simp: ct)
  then show ?thesis by (simp add: lit_def)
qed

section \<open>A snapshot that changes while it is copied\<close>

lemma distinct_dict_of: "distinct (map fst (dict_of kvs))"
proof -
  have "distinct (map fst d) \<Longrightarrow> distinct (map fst (foldl (\<lambda>d kv. AList.update (fst kv) (snd kv) d) d kvs))" for d
    by (induction kvs arbitrary: d) (simp_all add: distinct_update)
  then show ?thesis by (simp add: dict_of_def)
qed

lemma parse_value_distinct: "parse_value n s = Some (JObj m, r) \<Longrightarrow> distinct (map fst m)"
  by (cases n; cases s) (simp_all add: distinct_dict_of parse_number_def split: if_split_asm option.split_asm prod.split_asm, auto simp: distinct_dict_of)

lemma read_json_distinct: "read_json f = Inr (JObj m) \<Longrightarrow> distinct (map fst m)"
  by (auto simp: read_json_def json_loads_def simp del: parse_value.simps split: option.splits prod.splits if_splits
      dest: parse_value_distinct)

lemma copied_snapshot_files: "copied_snapshot H sn = Inr c \<Longrightarrow> sn_manifest c = sn_manifest sn \<and> sn_file c = sn_file sn"
  by (auto simp: copied_snapshot_def bindR_Inr_iff split: option.splits)

lemma item_normal:
  assumes "normal_json (JObj m) = normal_json (JObj n)" "distinct (map fst m)" "distinct (map fst n)" "item m k = Inr (JStr s)"
  shows "item n k = Inr (JStr s)"
proof -
  from assms(4) have "map_of m (lit k) = Some (JStr s)" by (simp add: item_def jget_def split: option.splits)
  then have "map_option normal_json (map_of n (lit k)) = Some (JStr s)"
    using normal_json_obj_lookup [OF assms(1-3), of "lit k"] by simp
  then obtain x where "map_of n (lit k) = Some x" "normal_json x = JStr s" by auto
  then show ?thesis by (simp add: item_def jget_def)
qed

text \<open>The bytes whose digests identify a snapshot: its database file and its manifest.\<close>

definition snapshot_bytes :: "snapshot \<Rightarrow> bytes set" where
  "snapshot_bytes sn = set_option (sn_file sn) \<union> (case read_json (sn_manifest sn) of Inr v \<Rightarrow> {encode_json v} | Inl _ \<Rightarrow> {})"

text \<open>Two snapshots that verify under one identity hold the same database.\<close>

lemma same_identity_same_database:
  assumes "verify_snapshot utc H sq a = Inr v" "verify_snapshot utc H sq b = Inr w" "vf_snapshot v = vf_snapshot w"
    "inj_on H (snapshot_bytes a \<union> snapshot_bytes b)"
  obtains m n where "read_json (sn_manifest a) = Inr (JObj m)" "read_json (sn_manifest b) = Inr (JObj n)"
    "normal_json (JObj m) = normal_json (JObj n)" "distinct (map fst m)" "distinct (map fst n)" "sn_file a = sn_file b"
proof -
  obtain m c where m: "read_json (sn_manifest a) = Inr (JObj m)" "sn_file a = Some c"
    "item m ''catalog_sha256'' = Inr (JStr (H c))" "vf_snapshot v = json_digest H (JObj m)"
    by (rule verify_snapshot_Inr [OF assms(1)])
  obtain n d where n: "read_json (sn_manifest b) = Inr (JObj n)" "sn_file b = Some d"
    "item n ''catalog_sha256'' = Inr (JStr (H d))" "vf_snapshot w = json_digest H (JObj n)"
    by (rule verify_snapshot_Inr [OF assms(2)])
  have "H (encode_json (JObj m)) = H (encode_json (JObj n))" using m(4) n(4) assms(3) by (simp add: json_digest_def)
  then have "encode_json (JObj m) = encode_json (JObj n)"
    using assms(4) by (simp add: inj_on_eq_iff snapshot_bytes_def m(1) n(1))
  then have eq: "normal_json (JObj m) = normal_json (JObj n)" by (rule encode_json_inject)
  note dist = read_json_distinct [OF m(1)] read_json_distinct [OF n(1)]
  from item_normal [OF eq dist m(3)] n(3) have "H c = H d" by simp
  then have "sn_file a = sn_file b" using assms(4) m(2) n(2) by (simp add: inj_on_eq_iff snapshot_bytes_def)
  with that [OF m(1) n(1) eq dist] show thesis .
qed

text \<open>
  C11: What becomes a primary is exactly the snapshot that was asked for. Whatever the
  snapshot directory looks like when it is copied, a preparation that returns has isolated the old
  primary, found the destination free, and verified a recovery snapshot of the expected identity;
  the new primary has the catalog of that snapshot's database file under the fresh identity, and all raw
  objects that it refers to can be read. A preparation that raises leaves the destination as it
  was. The hash must not collide on the files and manifests of the two directories.
\<close>

theorem prepared_primary_is_the_snapshot:
  assumes "prepare_primary utc H sq now fresh expected isolated linked inside sn copied dest = (res, dest')"
    "inj_on H (snapshot_bytes sn \<union> snapshot_bytes copied)"
  shows "case res of Inl e \<Rightarrow> dest' = dest
    | Inr receipt \<Rightarrow> isolated \<and> dest = None \<and> (\<exists>v d p. verify_snapshot utc H sq sn = Inr v \<and> vf_snapshot v = expected
        \<and> vf_purpose v = JStr (lit ''recovery'') \<and> sq_open sq (the (sn_file sn)) = Inr d \<and> dest' = Some p
        \<and> pr_catalog p = restarted fresh (db_catalog d)
        \<and> (\<forall>(k, n) \<in> set (raw_objects (db_catalog d)). \<exists>b. object_get H Raw (pr_root p) k = Inr b \<and> length b = n))"
proof (cases res)
  case (Inl e)
  with assms(1) prepare_primary_fails_clean show ?thesis by auto
next
  case (Inr receipt)
  obtain v cp w d where p: "isolated" "dest = None" "verify_snapshot utc H sq sn = Inr v" "vf_purpose v = JStr (lit ''recovery'')"
    "vf_snapshot v = expected" "copied_snapshot H copied = Inr cp" "verify_snapshot utc H sq cp = Inr w"
    "vf_snapshot w = expected" "sq_open sq (the (sn_file cp)) = Inr d"
    "dest' = Some (new_primary now fresh expected (vf_publication v) d cp)"
    by (rule prepare_primary_Inr [OF assms(1) [unfolded Inr]])
  have "snapshot_bytes cp = snapshot_bytes copied"
    using copied_snapshot_files [OF p(6)] by (simp add: snapshot_bytes_def)
  with assms(2) have inj: "inj_on H (snapshot_bytes sn \<union> snapshot_bytes cp)" by simp
  have "vf_snapshot v = vf_snapshot w" using p(5,8) by simp
  then have "sn_file sn = sn_file cp" by (rule same_identity_same_database [OF p(3,7) _ inj])
  moreover obtain m c d2 where "sn_file cp = Some c" "sq_open sq c = Inr d2"
      "available H (sn_root cp) (set (raw_objects (db_catalog d2)))"
    by (rule verify_snapshot_Inr [OF p(7)])
  ultimately show ?thesis
    using p Inr by (auto simp: new_primary_def available_def Let_def)
qed

lemma encode_json_nonempty: "encode_json v \<noteq> []"
proof
  assume "encode_json v = []"
  then have "utf8 (emit (normal_json v)) = utf8 []" by (simp add: encode_json_def canonical_json_emit)
  then have "emit (normal_json v) = []" by (rule utf8_inject)
  then show False using emit_start by blast
qed

lemma recovery_facts:
  "sqlite_ok (recovery_sqlite recovery_catalog) \<lparr>db_catalog = recovery_catalog, db_state = True\<rparr>"
  "archivable no_time recovery_hash recovery_catalog" "str_ok (ct_identity recovery_catalog)"
proof -
  obtain results ct where run: "ingest_history recovery_hash [recovery_request] (empty_catalog (lit ''old'')) = (results, ct)"
    by (cases "ingest_history recovery_hash [recovery_request] (empty_catalog (lit ''old''))")
  then have ct: "ct = recovery_catalog" by (simp add: recovery_catalog_def)
  have "\<forall>q \<in> set [recovery_request]. valid_session no_time (rq_session q) \<and> session_text_ok (rq_session q)"
    by (simp add: recovery_request_def sample_request_def sample_session_valid sample_session_text)
  note arch = history_archivable [OF run inj_recovery this, unfolded ct]
  show "archivable no_time recovery_hash recovery_catalog" "str_ok (ct_identity recovery_catalog)" by (simp_all add: arch)
  show "sqlite_ok (recovery_sqlite recovery_catalog) \<lparr>db_catalog = recovery_catalog, db_state = True\<rparr>"
    by (simp add: sqlite_ok_def recovery_sqlite_def)
qed

lemma prepared_primary_is_the_snapshot_witness: "\<exists>sn receipt p.
    prepare_primary no_time recovery_hash (recovery_sqlite recovery_catalog) [] (lit ''new'') (recovery_hash (the (sn_manifest sn)))
      True False False sn sn None = (Inr receipt, Some p) \<and> pr_catalog p = restarted (lit ''new'') (recovery_catalog\<lparr>ct_readonly := True\<rparr>)"
proof -
  let ?d = "\<lparr>db_catalog = recovery_catalog, db_state = True\<rparr>"
  obtain c sn receipt p where
    p: "create_snapshot no_time recovery_hash (recovery_sqlite recovery_catalog) [] False ?d recovery_root None = (Inr c, Some sn)"
    "prepare_primary no_time recovery_hash (recovery_sqlite recovery_catalog) [] (lit ''new'') (cs_snapshot c) True False False sn sn None
      = (Inr receipt, Some p)" "sn_file sn = Some (sq_dump (recovery_sqlite recovery_catalog) ?d)"
    by (rule snapshot_then_primary [OF recovery_facts(1) hash_ok_recovery recovery_facts(2) recovery_raws _ recovery_facts(3)]) auto
  have dump: "sn_file sn = Some []" using p(3) by (simp add: recovery_sqlite_def)
  have inj: "inj_on recovery_hash (snapshot_bytes sn \<union> snapshot_bytes sn)"
    by (auto simp: inj_on_def snapshot_bytes_def dump recovery_hash_def encode_json_nonempty split: sum.splits if_splits)
  have cs: "cs_snapshot c = recovery_hash (the (sn_manifest sn))"
    using p(1) by (auto simp: create_snapshot_def split: sum.splits)
  from prepared_primary_is_the_snapshot [OF p(2) inj] have "pr_catalog p = restarted (lit ''new'') (recovery_catalog\<lparr>ct_readonly := True\<rparr>)"
    by (auto simp: recovery_sqlite_def)
  with p(2) cs show ?thesis by auto
qed

end
