(* ===== verification/Replicas.thy ===== *)
theory Replicas
  imports Recovery
begin

text \<open>
  The search replica of a standby (\<open>storage/generations.py\<close> and \<open>activate_replica\<close> of
  \<open>storage/snapshots.py\<close>, \<open>receive_replica\<close> of \<open>storage/replication.py\<close>): immutable generations, the pointers
  \<open>CURRENT\<close> and \<open>PREVIOUS\<close>, readers that pin a generation, and pruning. The publication lock makes the
  operations atomic. The main results: the published generation is always a verified one, its publication
  never moves backward, and a pinned generation is never removed.
\<close>

section \<open>The replica directory\<close>

text \<open>A pointer file: whether it is a symbolic link, and its text.\<close>

datatype pointer = NoPointer | Pointer bool pystr

text \<open>
  A generation directory: a link or not, its snapshot, whether it has a regular \<open>.readers.lock\<close>, and how
  many readers hold this lock. Other entries of the directory are strays.
\<close>

record generation =
  gn_linked :: bool
  gn_snapshot :: snapshot
  gn_readers :: bool
  gn_pins :: nat

datatype gen_entry = Generation generation | Stray

record replica =
  rp_writable :: bool
  rp_current :: pointer
  rp_previous :: pointer
  rp_generations :: "(pystr \<times> gen_entry) list"
  rp_incoming :: "(pystr \<times> snapshot) list"

definition new_replica :: replica where
  "new_replica = \<lparr>rp_writable = False, rp_current = NoPointer, rp_previous = NoPointer, rp_generations = [], rp_incoming = []\<rparr>"

definition read_pointer :: "pointer \<Rightarrow> pystr option result" where
  "read_pointer p = (case p of NoPointer \<Rightarrow> Inr None
     | Pointer linked txt \<Rightarrow> if linked \<or> \<not> is_hex 64 (strip txt) then Inl (ValueError ''invalid replica generation pointer'')
         else Inr (Some (strip txt)))"

definition put_generation :: "pystr \<Rightarrow> gen_entry \<Rightarrow> replica \<Rightarrow> replica" where
  "put_generation key g r = r\<lparr>rp_generations := AList.update key g (rp_generations r)\<rparr>"

text \<open>The directory \<open>generations/key\<close>, or the exception of opening a file in it.\<close>

definition find_generation :: "replica \<Rightarrow> pystr \<Rightarrow> generation result" where
  "find_generation r key = (case map_of (rp_generations r) key of
       None \<Rightarrow> Inl (FileNotFoundError ''No such file or directory'')
     | Some Stray \<Rightarrow> Inl (OSError ''Not a directory'')
     | Some (Generation g) \<Rightarrow> Inr g)"

section \<open>Reader pins\<close>

definition pin_current :: "(replica, pystr) op" where
  "pin_current r = (case read_pointer (rp_current r) of
       Inl e \<Rightarrow> (Inl e, r)
     | Inr None \<Rightarrow> (Inl (ValueError ''replica has no active generation''), r)
     | Inr (Some key) \<Rightarrow> (case find_generation r key of
         Inl e \<Rightarrow> (Inl e, r)
       | Inr g \<Rightarrow>
           if gn_linked g then (Inl (ValueError ''replica generation must not be a symlink''), r)
           else if \<not> gn_readers g then (Inl (FileNotFoundError ''No such file or directory''), r)
           else (Inr key, put_generation key (Generation (g\<lparr>gn_pins := Suc (gn_pins g)\<rparr>)) r)))"

text \<open>Closing the lock that a reader of generation \<open>key\<close> holds.\<close>

definition unpin :: "pystr \<Rightarrow> replica \<Rightarrow> replica" where
  "unpin key r = (case find_generation r key of Inl _ \<Rightarrow> r
     | Inr g \<Rightarrow> put_generation key (Generation (g\<lparr>gn_pins := gn_pins g - 1\<rparr>)) r)"

section \<open>Publication and retention\<close>

definition publish_locked :: "pystr \<Rightarrow> (replica, unit) op" where
  "publish_locked key r = (case read_pointer (rp_current r) of
       Inl e \<Rightarrow> (Inl e, r)
     | Inr prev \<Rightarrow> (Inr (), (case prev of
           None \<Rightarrow> r
         | Some k \<Rightarrow> if k \<noteq> key then r\<lparr>rp_previous := Pointer False k\<rparr> else r)\<lparr>rp_current := Pointer False key\<rparr>))"

definition prunable :: "pystr option set \<Rightarrow> pystr \<times> gen_entry \<Rightarrow> bool" where
  "prunable protected entry = (case entry of (name, Generation g) \<Rightarrow>
       Some name \<notin> protected \<and> \<not> gn_linked g \<and> is_hex 64 name \<and> gn_readers g
     | (name, Stray) \<Rightarrow> False)"

definition pinned_entry :: "pystr \<times> gen_entry \<Rightarrow> bool" where
  "pinned_entry entry = (case entry of (_, Generation g) \<Rightarrow> 0 < gn_pins g | (_, Stray) \<Rightarrow> False)"

text \<open>The loop over the directory: what stays, and the counts of removed and pinned generations.\<close>

fun prune_entries :: "pystr option set \<Rightarrow> (pystr \<times> gen_entry) list \<Rightarrow> (pystr \<times> gen_entry) list \<times> nat \<times> nat" where
  "prune_entries protected [] = ([], 0, 0)"
| "prune_entries protected (entry # entries) =
     (case prune_entries protected entries of (kept, removed, pinned) \<Rightarrow>
       if \<not> prunable protected entry then (entry # kept, removed, pinned)
       else if pinned_entry entry then (entry # kept, removed, Suc pinned)
       else (kept, Suc removed, pinned))"

definition prune_replica :: "(replica, nat \<times> nat) op" where
  "prune_replica r = (case read_pointer (rp_current r) of
       Inl e \<Rightarrow> (Inl e, r)
     | Inr None \<Rightarrow> (Inl (ValueError ''replica has no active generation''), r)
     | Inr (Some current) \<Rightarrow> (case read_pointer (rp_previous r) of
         Inl e \<Rightarrow> (Inl e, r)
       | Inr previous \<Rightarrow> (case prune_entries {Some current, previous} (rp_generations r) of
           (kept, counts) \<Rightarrow> (Inr counts, r\<lparr>rp_generations := kept\<rparr>))))"

section \<open>Activating a snapshot\<close>

fun split_char :: "nat \<Rightarrow> pystr \<Rightarrow> pystr list" where
  "split_char c [] = [[]]"
| "split_char c (x # xs) = (if x = c then [] # split_char c xs
     else (case split_char c xs of [] \<Rightarrow> [[x]] | p # ps \<Rightarrow> (x # p) # ps))"

text \<open>
  \<open>int(text)\<close> for ASCII digits: surrounding white space, a sign, and single underscores between
  digits.
\<close>

definition py_int :: "pystr \<Rightarrow> int result" where
  "py_int s =
     (let t = strip s; negative = take 1 t = [45]; ds = (if take 1 t \<in> {[43], [45]} then drop 1 t else t);
          parts = split_char 95 ds in
      if list_all (\<lambda>p. p \<noteq> [] \<and> list_all is_digit p) parts
      then Inr (if negative then - int (read_nat (concat parts)) else int (read_nat (concat parts)))
      else Inl (ValueError ''invalid literal for int()''))"

definition split_publication :: "json \<Rightarrow> (pystr \<times> pystr) result" where
  "split_publication v = (case v of
       JStr s \<Rightarrow> (case split_char 58 s of [a, b] \<Rightarrow> Inr (a, b) | _ \<Rightarrow> Inl (ValueError ''values to unpack''))
     | _ \<Rightarrow> Inl (AttributeError ''split''))"

text \<open>The check under the publication lock that the new publication may follow the current one.\<close>

definition may_succeed :: "json \<Rightarrow> json \<Rightarrow> unit result" where
  "may_succeed previous incoming =
     (if \<not> truthy previous then Inr ()
      else if \<not> truthy incoming then Inl (ValueError ''replica publication identity is missing'')
      else bindR (split_publication previous) (\<lambda>(old_identity, old_epoch).
        bindR (split_publication incoming) (\<lambda>(new_identity, new_epoch).
          if new_identity \<noteq> old_identity
          then Inl (ValueError ''replica publication would change primary identity or move backward'')
          else bindR (py_int new_epoch) (\<lambda>n. bindR (py_int old_epoch) (\<lambda>old.
            if n < old then Inl (ValueError ''replica publication would change primary identity or move backward'')
            else Inr ())))))"

definition check_succession :: "replica \<Rightarrow> json \<Rightarrow> unit result" where
  "check_succession r incoming = bindR (read_pointer (rp_current r)) (\<lambda>current. case current of
       None \<Rightarrow> Inr ()
     | Some key \<Rightarrow> bindR (find_generation r key) (\<lambda>g.
         bindR (read_json (sn_manifest (gn_snapshot g))) (\<lambda>v. bindR (as_dict v) (\<lambda>m.
           may_succeed (member m ''publication'') incoming))))"

text \<open>
  An existing generation of this name must verify and have a reader lock; otherwise the stage takes
  its place with a new lock.
\<close>

definition place_generation :: "(pystr \<Rightarrow> pystr result) \<Rightarrow> (bytes \<Rightarrow> pystr) \<Rightarrow> sqlite \<Rightarrow> pystr \<Rightarrow> snapshot \<Rightarrow> (replica, unit) op" where
  "place_generation utc H sq key staged r = (case map_of (rp_generations r) key of
       None \<Rightarrow> (Inr (), put_generation key
         (Generation \<lparr>gn_linked = False, gn_snapshot = staged, gn_readers = True, gn_pins = 0\<rparr>) r)
     | Some Stray \<Rightarrow> (Inl (OSError ''Not a directory''), r)
     | Some (Generation g) \<Rightarrow> (case verify_snapshot utc H sq (gn_snapshot g) of
         Inl e \<Rightarrow> (Inl e, r)
       | Inr _ \<Rightarrow> if gn_readers g then (Inr (), r)
           else (Inl (ValueError ''generation predates reader pinning; initialize a new replica directory''), r)))"

text \<open>
  \<open>sn\<close> is the snapshot when it is verified first, \<open>copied\<close> what the stage holds after copying or moving
  it. With \<open>consume\<close> the incoming directory of that name has been moved away.
\<close>

definition activate_replica :: "(pystr \<Rightarrow> pystr result) \<Rightarrow> (bytes \<Rightarrow> pystr) \<Rightarrow> sqlite \<Rightarrow> snapshot \<Rightarrow> snapshot \<Rightarrow> pystr option
    \<Rightarrow> (replica, verified \<times> nat \<times> nat) op" where
  "activate_replica utc H sq sn copied consume r = (case verify_snapshot utc H sq sn of
       Inl e \<Rightarrow> (Inl e, r)
     | Inr v \<Rightarrow>
         if rp_writable r then (Inl (ValueError ''refusing to activate a replica over a writable catalog''), r)
         else
           let r = (case consume of None \<Rightarrow> r | Some name \<Rightarrow> r\<lparr>rp_incoming := AList.delete name (rp_incoming r)\<rparr>) in
           (case verify_snapshot utc H sq copied of
              Inl e \<Rightarrow> (Inl e, r)
            | Inr w \<Rightarrow>
                if vf_snapshot w \<noteq> vf_snapshot v then (Inl (ValueError ''snapshot changed during transfer''), r)
                else (case check_succession r (vf_publication v) of
                  Inl e \<Rightarrow> (Inl e, r)
                | Inr _ \<Rightarrow>
                    bindS (place_generation utc H sq (vf_snapshot v) copied) (\<lambda>_.
                    bindS (publish_locked (vf_snapshot v)) (\<lambda>_.
                    bindS prune_replica (\<lambda>counts r. (Inr (v, counts), r)))) r)))"

definition receive_replica :: "(pystr \<Rightarrow> pystr result) \<Rightarrow> (bytes \<Rightarrow> pystr) \<Rightarrow> sqlite \<Rightarrow> bool \<Rightarrow> pystr \<Rightarrow> snapshot
    \<Rightarrow> (replica, verified \<times> nat \<times> nat) op" where
  "receive_replica utc H sq managed name moved r =
     (if \<not> managed \<or> \<not> is_hex 64 name
      then (Inl (ValueError ''received snapshot must be in the managed incoming directory''), r)
      else (case map_of (rp_incoming r) name of
          None \<Rightarrow> (Inl (FileNotFoundError ''No such file or directory''), r)
        | Some sn \<Rightarrow> (case verify_snapshot utc H sq sn of
            Inl e \<Rightarrow> (Inl e, r)
          | Inr v \<Rightarrow>
              if vf_snapshot v \<noteq> name \<or> vf_purpose v \<noteq> JStr (lit ''search-replica'')
              then (Inl (ValueError ''received snapshot identity or purpose mismatch''), r)
              else activate_replica utc H sq sn moved (Some name) r)))"

section \<open>Histories of a replica\<close>

text \<open>
  What happens to a replica: a transfer writes any of the snapshots \<open>S\<close> into the incoming directory, the
  sender asks to receive it, an operator activates a snapshot, readers pin and release
  generations, and old generations are pruned. Operations that raise are steps too.
\<close>

inductive replica_step :: "(pystr \<Rightarrow> pystr result) \<Rightarrow> (bytes \<Rightarrow> pystr) \<Rightarrow> sqlite \<Rightarrow> snapshot set \<Rightarrow> replica \<Rightarrow> replica \<Rightarrow> bool"
  for utc H sq S where
  transfer: "sn \<in> S \<Longrightarrow> replica_step utc H sq S r (r\<lparr>rp_incoming := AList.update name sn (rp_incoming r)\<rparr>)"
| receive: "moved \<in> S \<Longrightarrow> receive_replica utc H sq managed name moved r = (res, r') \<Longrightarrow> replica_step utc H sq S r r'"
| activate: "sn \<in> S \<Longrightarrow> copied \<in> S \<Longrightarrow> activate_replica utc H sq sn copied None r = (out, r') \<Longrightarrow> replica_step utc H sq S r r'"
| pin: "pin_current r = (key, r') \<Longrightarrow> replica_step utc H sq S r r'"
| release: "replica_step utc H sq S r (unpin key r)"
| prune: "prune_replica r = (counts, r') \<Longrightarrow> replica_step utc H sq S r r'"

section \<open>Pointers and pruning\<close>

lemma hex_not_space: "is_hex n s \<Longrightarrow> c \<in> set s \<Longrightarrow> \<not> py_space c"
  by (auto simp: is_hex_def hex_digit_def py_space_def list_all_iff)

lemma strip_hex: "is_hex n s \<Longrightarrow> strip s = s"
proof -
  assume hex: "is_hex n s"
  have 1: "dropWhile py_space s = s"
    using hex_not_space [OF hex] by (cases s) simp_all
  have "dropWhile py_space (rev s) = rev s"
    using hex_not_space [OF hex] by (cases "rev s") (simp_all add: rev_eq_Cons_iff)
  with 1 show "strip s = s" by (simp add: strip_def)
qed

lemma read_pointer_hex [simp]: "is_hex 64 k \<Longrightarrow> read_pointer (Pointer False k) = Inr (Some k)"
  by (simp add: read_pointer_def strip_hex)

lemma prune_entries_kept:
  "fst (prune_entries P es) = filter (\<lambda>e. \<not> prunable P e \<or> pinned_entry e) es"
  by (induction es) (auto split: prod.splits)

lemma prune_entries_counts:
  "prune_entries P es = (kept, removed, pinned) \<Longrightarrow> length es = length kept + removed"
  by (induction es arbitrary: kept removed pinned) (auto split: prod.splits if_splits)

lemma find_generation_put:
  "find_generation (put_generation key e r) k = (if k = key then (case e of Generation g \<Rightarrow> Inr g | Stray \<Rightarrow> Inl (OSError ''Not a directory''))
     else find_generation r k)"
  by (auto simp: find_generation_def put_generation_def update_conv' split: gen_entry.splits)

lemma put_generation_simps [simp]: "rp_current (put_generation k e r) = rp_current r" "rp_previous (put_generation k e r) = rp_previous r"
  "rp_writable (put_generation k e r) = rp_writable r" "rp_incoming (put_generation k e r) = rp_incoming r"
  by (simp_all add: put_generation_def)

lemma find_generation_Inr: "find_generation r k = Inr g \<longleftrightarrow> map_of (rp_generations r) k = Some (Generation g)"
  by (auto simp: find_generation_def split: option.splits gen_entry.splits)

section \<open>The invariant\<close>

definition pointer_ok :: "pointer \<Rightarrow> bool" where
  "pointer_ok p = (case p of NoPointer \<Rightarrow> True | Pointer linked k \<Rightarrow> \<not> linked \<and> is_hex 64 k)"

text \<open>A generation that the protocol made: a directory with a reader lock that verifies under its name.\<close>

definition valid_generation :: "(pystr \<Rightarrow> pystr result) \<Rightarrow> (bytes \<Rightarrow> pystr) \<Rightarrow> sqlite \<Rightarrow> snapshot set \<Rightarrow> pystr \<Rightarrow> generation \<Rightarrow> bool" where
  "valid_generation utc H sq S key g \<longleftrightarrow> \<not> gn_linked g \<and> gn_readers g \<and> gn_snapshot g \<in> S
     \<and> (\<exists>v. verify_snapshot utc H sq (gn_snapshot g) = Inr v \<and> vf_snapshot v = key)"

definition replica_inv :: "(pystr \<Rightarrow> pystr result) \<Rightarrow> (bytes \<Rightarrow> pystr) \<Rightarrow> sqlite \<Rightarrow> snapshot set \<Rightarrow> replica \<Rightarrow> bool" where
  "replica_inv utc H sq S r \<longleftrightarrow>
     (\<forall>key g. find_generation r key = Inr g \<longrightarrow> valid_generation utc H sq S key g)
     \<and> pointer_ok (rp_current r) \<and> pointer_ok (rp_previous r)
     \<and> (\<forall>key. rp_current r = Pointer False key \<longrightarrow> (\<exists>g. find_generation r key = Inr g))
     \<and> distinct (map fst (rp_generations r)) \<and> snd ` set (rp_incoming r) \<subseteq> S"

lemma read_pointer_ok:
  "pointer_ok p \<Longrightarrow> read_pointer p = (case p of NoPointer \<Rightarrow> Inr None | Pointer _ k \<Rightarrow> Inr (Some k))"
  by (auto simp: pointer_ok_def read_pointer_def strip_hex split: pointer.splits)

lemma replica_invD:
  assumes "replica_inv utc H sq S r"
  shows "find_generation r key = Inr g \<Longrightarrow> valid_generation utc H sq S key g"
    "pointer_ok (rp_current r)" "pointer_ok (rp_previous r)"
    "rp_current r = Pointer False k \<Longrightarrow> \<exists>g. find_generation r k = Inr g"
    "distinct (map fst (rp_generations r))" "snd ` set (rp_incoming r) \<subseteq> S"
  using assms by (simp_all add: replica_inv_def)

lemma replica_inv_put:
  assumes "replica_inv utc H sq S r" "valid_generation utc H sq S key g"
  shows "replica_inv utc H sq S (put_generation key (Generation g) r)"
  using assms by (auto simp: replica_inv_def find_generation_put) (simp add: put_generation_def distinct_update)

lemma replica_inv_new: "replica_inv utc H sq S new_replica"
  by (simp add: replica_inv_def new_replica_def pointer_ok_def find_generation_def)

text \<open>The same generation, read by more or fewer readers.\<close>

lemma valid_generation_pins [simp]:
  "valid_generation utc H sq S key (g\<lparr>gn_pins := n\<rparr>) = valid_generation utc H sq S key g"
  by (simp add: valid_generation_def)

lemma pin_current_cases:
  assumes "pin_current r = (res, r')"
  shows "r' = r \<or> (\<exists>key g n. find_generation r key = Inr g \<and> r' = put_generation key (Generation (g\<lparr>gn_pins := n\<rparr>)) r)"
  using assms by (auto simp: pin_current_def split: sum.splits option.splits if_splits)

lemma unpin_cases:
  "unpin key r = r \<or> (\<exists>g n. find_generation r key = Inr g \<and> unpin key r = put_generation key (Generation (g\<lparr>gn_pins := n\<rparr>)) r)"
  by (auto simp: unpin_def split: sum.splits)

text \<open>What pruning leaves.\<close>

lemma prune_replica_cases:
  assumes "prune_replica r = (res, r')"
  shows "r' = r \<or> (\<exists>current previous. read_pointer (rp_current r) = Inr (Some current) \<and> read_pointer (rp_previous r) = Inr previous
    \<and> r' = r\<lparr>rp_generations := filter (\<lambda>e. \<not> prunable {Some current, previous} e \<or> pinned_entry e) (rp_generations r)\<rparr>)"
proof -
  have kept: "\<exists>counts. prune_entries P es = (filter (\<lambda>e. \<not> prunable P e \<or> pinned_entry e) es, counts)" for P es
    by (cases "prune_entries P es") (metis fst_conv prune_entries_kept)
  show ?thesis
  proof (cases "\<exists>current previous. read_pointer (rp_current r) = Inr (Some current) \<and> read_pointer (rp_previous r) = Inr previous")
    case True
    then obtain current previous where p: "read_pointer (rp_current r) = Inr (Some current)"
      "read_pointer (rp_previous r) = Inr previous" by blast
    from kept [of "{Some current, previous}" "rp_generations r"] obtain counts where
      "prune_entries {Some current, previous} (rp_generations r)
        = (filter (\<lambda>e. \<not> prunable {Some current, previous} e \<or> pinned_entry e) (rp_generations r), counts)" ..
    with assms p show ?thesis by (simp add: prune_replica_def)
  next
    case False
    with assms have "r' = r" by (auto simp: prune_replica_def split: sum.splits option.splits prod.splits)
    then show ?thesis ..
  qed
qed

text \<open>Pruning keeps the pinned generations and those that the pointers name.\<close>

lemma map_of_filter_keep:
  assumes "distinct (map fst xs)" "map_of xs k = Some v" "P (k, v)"
  shows "map_of (filter P xs) k = Some v"
proof -
  have "distinct (map fst (filter P xs))" using assms(1) by (rule distinct_map_filter)
  moreover have "(k, v) \<in> set (filter P xs)" using map_of_SomeD [OF assms(2)] assms(3) by simp
  ultimately show ?thesis by simp
qed

lemma map_of_filter_sub:
  assumes "distinct (map fst xs)" "map_of (filter P xs) k = Some v"
  shows "map_of xs k = Some v"
  using map_of_SomeD [OF assms(2)] assms(1) by simp

definition needed :: "replica \<Rightarrow> pystr \<Rightarrow> generation \<Rightarrow> bool" where
  "needed r key g \<longleftrightarrow> 0 < gn_pins g \<or> rp_current r = Pointer False key \<or> rp_previous r = Pointer False key"

lemma prune_replica_needed:
  assumes "replica_inv utc H sq S r" "prune_replica r = (res, r')" "find_generation r key = Inr g" "needed r key g"
  shows "find_generation r' key = Inr g"
proof -
  note inv = replica_invD [OF assms(1)]
  from prune_replica_cases [OF assms(2)] show ?thesis
  proof (elim disjE exE conjE)
    fix current previous assume p: "read_pointer (rp_current r) = Inr (Some current)" "read_pointer (rp_previous r) = Inr previous"
      and r': "r' = r\<lparr>rp_generations := filter (\<lambda>e. \<not> prunable {Some current, previous} e \<or> pinned_entry e) (rp_generations r)\<rparr>"
    have "0 < gn_pins g \<or> Some key \<in> {Some current, previous}"
      using assms(4) p inv(2,3) by (auto simp: needed_def read_pointer_ok)
    then have "\<not> prunable {Some current, previous} (key, Generation g) \<or> pinned_entry (key, Generation g)"
      by (auto simp: prunable_def pinned_entry_def)
    with map_of_filter_keep [OF inv(5)] assms(3) show ?thesis by (simp add: find_generation_Inr r')
  qed (use assms(3) in simp)
qed

lemma prune_replica_inv:
  assumes "replica_inv utc H sq S r" "prune_replica r = (res, r')"
  shows "replica_inv utc H sq S r'"
proof -
  note inv = replica_invD [OF assms(1)]
  from prune_replica_cases [OF assms(2)] have same: "rp_current r' = rp_current r" "rp_previous r' = rp_previous r"
      "rp_incoming r' = rp_incoming r" "distinct (map fst (rp_generations r'))"
    and sub: "\<forall>key g. find_generation r' key = Inr g \<longrightarrow> find_generation r key = Inr g"
    using inv(5) by (auto simp: find_generation_Inr distinct_map_filter dest: map_of_filter_sub [OF inv(5)])
  have "\<exists>g. find_generation r' key = Inr g" if cur: "rp_current r = Pointer False key" for key
  proof -
    from inv(4) [OF cur] obtain g where "find_generation r key = Inr g" ..
    with prune_replica_needed [OF assms this] cur show ?thesis by (auto simp: needed_def)
  qed
  with inv sub same show ?thesis by (simp add: replica_inv_def)
qed

section \<open>What the steps keep\<close>

lemma publish_locked_ok:
  assumes "replica_inv utc H sq S r" "is_hex 64 key" "find_generation r key = Inr g" "publish_locked key r = (res, r')"
  shows "replica_inv utc H sq S r'" "rp_current r' = Pointer False key" "rp_generations r' = rp_generations r"
    "\<forall>k. rp_current r = Pointer False k \<longrightarrow> k = key \<or> rp_previous r' = Pointer False k"
    "res = Inr ()"
proof -
  note inv = replica_invD [OF assms(1)]
  have r': "res = Inr () \<and> r' = (case rp_current r of NoPointer \<Rightarrow> r
      | Pointer _ k \<Rightarrow> if k \<noteq> key then r\<lparr>rp_previous := Pointer False k\<rparr> else r)\<lparr>rp_current := Pointer False key\<rparr>"
    using assms(4) inv(2) by (auto simp: publish_locked_def read_pointer_ok split: pointer.splits)
  have gens: "find_generation r' k = find_generation r k" for k
    using r' by (auto simp: find_generation_def split: pointer.splits)
  show "rp_generations r' = rp_generations r" "rp_current r' = Pointer False key" "res = Inr ()"
    using r' by (auto split: pointer.splits)
  show "\<forall>k. rp_current r = Pointer False k \<longrightarrow> k = key \<or> rp_previous r' = Pointer False k"
    using r' by auto
  show "replica_inv utc H sq S r'"
    using assms(2,3) inv r' gens by (auto simp: replica_inv_def pointer_ok_def split: pointer.splits if_splits)
qed

lemma place_generation_ok:
  assumes "replica_inv utc H sq S r" "verify_snapshot utc H sq staged = Inr w" "vf_snapshot w = key" "staged \<in> S"
    "place_generation utc H sq key staged r = (Inr (), r')"
  shows "replica_inv utc H sq S r'" "\<exists>g. find_generation r' key = Inr g" "rp_current r' = rp_current r" "rp_previous r' = rp_previous r"
    "\<forall>k g. find_generation r k = Inr g \<longrightarrow> find_generation r' k = Inr g"
proof -
  let ?g = "\<lparr>gn_linked = False, gn_snapshot = staged, gn_readers = True, gn_pins = 0\<rparr>"
  have "r' = put_generation key (Generation ?g) r \<and> (\<forall>g. find_generation r key \<noteq> Inr g)
      \<or> r' = r \<and> (\<exists>g. find_generation r key = Inr g)"
    using assms(5) by (auto simp: place_generation_def find_generation_Inr split: option.splits gen_entry.splits sum.splits if_splits)
  then show "replica_inv utc H sq S r'" "\<exists>g. find_generation r' key = Inr g" "rp_current r' = rp_current r" "rp_previous r' = rp_previous r"
    "\<forall>k g. find_generation r k = Inr g \<longrightarrow> find_generation r' k = Inr g"
    using assms(1) replica_inv_put [OF assms(1), of key ?g] assms(2-4)
    by (auto simp: find_generation_put valid_generation_def)
qed

text \<open>The outcome of an activation: nothing is published, or the verified snapshot is.\<close>

definition succeeds :: "json \<Rightarrow> json \<Rightarrow> bool" where
  "succeeds old new \<longleftrightarrow> (truthy old \<longrightarrow> old = new \<or> (\<exists>i a b m n. split_publication old = Inr (i, a)
     \<and> split_publication new = Inr (i, b) \<and> py_int a = Inr m \<and> py_int b = Inr n \<and> m \<le> n))"

definition generation_publication :: "generation \<Rightarrow> json" where
  "generation_publication g = (case read_json (sn_manifest (gn_snapshot g)) of Inr (JObj m) \<Rightarrow> member m ''publication'' | _ \<Rightarrow> JNull)"

definition current_publication :: "replica \<Rightarrow> json" where
  "current_publication r = (case read_pointer (rp_current r) of
       Inr (Some key) \<Rightarrow> (case find_generation r key of Inr g \<Rightarrow> generation_publication g | Inl _ \<Rightarrow> JNull)
     | _ \<Rightarrow> JNull)"

lemma succeeds_refl [simp]: "succeeds v v"
  by (simp add: succeeds_def)

lemma split_publication_truthy: "split_publication v = Inr x \<Longrightarrow> truthy v"
  by (cases v) (auto simp: split_publication_def)

lemma succeeds_trans:
  assumes "succeeds a b" "succeeds b c"
  shows "succeeds a c"
proof (cases "truthy a \<and> a \<noteq> b \<and> b \<noteq> c")
  case True
  with assms(1) obtain i x y m n where ab: "split_publication a = Inr (i, x)" "split_publication b = Inr (i, y)"
    "py_int x = Inr m" "py_int y = Inr n" "m \<le> n" unfolding succeeds_def by blast
  have "truthy b" by (rule split_publication_truthy [OF ab(2)])
  with True assms(2) obtain j y' z n' q where bc: "split_publication b = Inr (j, y')" "split_publication c = Inr (j, z)"
    "py_int y' = Inr n'" "py_int z = Inr q" "n' \<le> q" unfolding succeeds_def by blast
  from ab(2,4,5) bc(1,3,5) have "j = i" "m \<le> q" by simp_all
  with ab(1,3) bc(2,4) show ?thesis unfolding succeeds_def by blast
next
  case False
  then show ?thesis using assms by (auto simp: succeeds_def)
qed

lemma may_succeed_succeeds: "may_succeed old new = Inr () \<Longrightarrow> succeeds old new"
  by (force simp: may_succeed_def succeeds_def bindR_Inr_iff split: if_splits)

lemma verified_publication:
  assumes "verify_snapshot utc H sq sn = Inr v"
  shows "\<exists>m. read_json (sn_manifest sn) = Inr (JObj m) \<and> vf_publication v = member m ''publication''
    \<and> (member m ''publication'' = JNull \<or> (\<exists>s. member m ''publication'' = JStr s))"
proof -
  obtain m d where m: "read_json (sn_manifest sn) = Inr (JObj m)" "vf_publication v = member m ''publication''"
    "py_eq (member m ''publication'') (db_publication d)"
    by (rule verify_snapshot_Inr [OF assms])
  from m(3) have "member m ''publication'' = JNull \<or> (\<exists>s. member m ''publication'' = JStr s)"
    by (cases "member m ''publication''") (auto simp: py_eq_def same_json_def db_publication_def split: if_splits)
  with m show ?thesis by blast
qed

text \<open>Snapshots of one identity have one publication.\<close>

lemma same_identity_same_publication:
  assumes "verify_snapshot utc H sq a = Inr v" "verify_snapshot utc H sq b = Inr w" "vf_snapshot v = vf_snapshot w"
    "inj_on H (snapshot_bytes a \<union> snapshot_bytes b)"
  shows "vf_publication v = vf_publication w"
proof -
  obtain m n where mn: "read_json (sn_manifest a) = Inr (JObj m)" "read_json (sn_manifest b) = Inr (JObj n)"
    "normal_json (JObj m) = normal_json (JObj n)" "distinct (map fst m)" "distinct (map fst n)"
    by (rule same_identity_same_database [OF assms])
  have look: "map_option normal_json (map_of m (lit ''publication'')) = map_option normal_json (map_of n (lit ''publication''))"
    by (rule normal_json_obj_lookup [OF mn(3-5)])
  have "normal_json (member m ''publication'') = normal_json (member n ''publication'')"
    using look by (cases "map_of m (lit ''publication'')"; cases "map_of n (lit ''publication'')") (simp_all add: member_def jget_def)
  with verified_publication [OF assms(1)] verified_publication [OF assms(2)] mn(1,2) show ?thesis
    by (metis Inr_inject json.inject(5) normal_json.simps(1) normal_json.simps(4))
qed

text \<open>What every step keeps, and what the next publication is.\<close>

definition good_step :: "(pystr \<Rightarrow> pystr result) \<Rightarrow> (bytes \<Rightarrow> pystr) \<Rightarrow> sqlite \<Rightarrow> snapshot set \<Rightarrow> replica \<Rightarrow> replica \<Rightarrow> bool" where
  "good_step utc H sq S r r' \<longleftrightarrow> replica_inv utc H sq S r' \<and> succeeds (current_publication r) (current_publication r')
     \<and> (rp_current r \<noteq> NoPointer \<longrightarrow> rp_current r' \<noteq> NoPointer)
     \<and> (\<forall>key g. find_generation r key = Inr g \<longrightarrow> 0 < gn_pins g \<or> rp_current r = Pointer False key
         \<longrightarrow> (\<exists>n. find_generation r' key = Inr (g\<lparr>gn_pins := n\<rparr>)))"

lemma find_generation_cong: "rp_generations r' = rp_generations r \<Longrightarrow> find_generation r' = find_generation r"
  by (simp add: fun_eq_iff find_generation_def)

lemma same_pins [simp]: "\<exists>n. g = g\<lparr>gn_pins := n\<rparr>"
  by (intro exI [of _ "gn_pins g"]) simp

lemma generation_keep: "find_generation r key = Inr g \<Longrightarrow> \<exists>n. find_generation r key = Inr (g\<lparr>gn_pins := n\<rparr>)"
  by simp

lemma good_step_same:
  assumes "replica_inv utc H sq S r" "rp_generations r' = rp_generations r" "rp_current r' = rp_current r"
    "rp_previous r' = rp_previous r" "snd ` set (rp_incoming r') \<subseteq> S"
  shows "good_step utc H sq S r r'"
proof -
  note gens = find_generation_cong [OF assms(2)]
  have "replica_inv utc H sq S r'" using assms by (simp add: replica_inv_def gens)
  moreover have "current_publication r' = current_publication r" unfolding current_publication_def assms(3) gens ..
  ultimately show ?thesis by (simp add: good_step_def gens assms(3))
qed

lemma good_step_put:
  assumes "replica_inv utc H sq S r" "find_generation r key = Inr g"
  shows "good_step utc H sq S r (put_generation key (Generation (g\<lparr>gn_pins := n\<rparr>)) r)"
proof -
  let ?r = "put_generation key (Generation (g\<lparr>gn_pins := n\<rparr>)) r"
  have "valid_generation utc H sq S key g" by (rule replica_invD(1) [OF assms])
  then have "replica_inv utc H sq S ?r" using replica_inv_put [OF assms(1)] by simp
  moreover have "current_publication ?r = current_publication r"
    using assms(2) by (auto simp: current_publication_def find_generation_put generation_publication_def split: sum.splits option.splits)
  moreover have "\<exists>m. find_generation ?r k = Inr (x\<lparr>gn_pins := m\<rparr>)" if "find_generation r k = Inr x" for k x
    using that assms(2) generation_keep by (auto simp: find_generation_put)
  ultimately show ?thesis by (simp add: good_step_def)
qed

lemma good_step_prune:
  assumes "replica_inv utc H sq S r" "prune_replica r = (res, r')"
  shows "good_step utc H sq S r r'"
proof -
  note inv = replica_invD [OF assms(1)]
  have cur: "rp_current r' = rp_current r" using prune_replica_cases [OF assms(2)] by auto
  have keep: "find_generation r' key = Inr g" if "find_generation r key = Inr g" "0 < gn_pins g \<or> rp_current r = Pointer False key" for key g
    using prune_replica_needed [OF assms that(1)] that(2) by (auto simp: needed_def)
  have "current_publication r' = current_publication r"
  proof (cases "rp_current r")
    case NoPointer
    then show ?thesis by (simp add: current_publication_def cur read_pointer_def)
  next
    case (Pointer l k)
    with inv(2) have k: "rp_current r = Pointer False k" "is_hex 64 k" by (simp_all add: pointer_ok_def)
    from inv(4) [OF k(1)] obtain g where g: "find_generation r k = Inr g" ..
    from keep [OF this] k g show ?thesis by (simp add: current_publication_def cur)
  qed
  with prune_replica_inv [OF assms] keep show ?thesis
    by (simp add: good_step_def cur)
qed

lemma current_publication_of:
  assumes "replica_inv utc H sq S r" "rp_current r = Pointer False key" "verify_snapshot utc H sq a = Inr v" "vf_snapshot v = key"
    "a \<in> S" "inj_on H (\<Union> (snapshot_bytes ` S))"
  shows "current_publication r = vf_publication v"
proof -
  note inv = replica_invD [OF assms(1)]
  from inv(4) [OF assms(2)] obtain g where g: "find_generation r key = Inr g" ..
  from inv(1) [OF g] obtain w where w: "verify_snapshot utc H sq (gn_snapshot g) = Inr w" "vf_snapshot w = key" "gn_snapshot g \<in> S"
    by (auto simp: valid_generation_def)
  have "inj_on H (snapshot_bytes (gn_snapshot g) \<union> snapshot_bytes a)"
    by (rule inj_on_subset [OF assms(6)]) (use w(3) assms(5) in blast)
  then have "vf_publication w = vf_publication v"
    using same_identity_same_publication [OF w(1) assms(3)] w(2) assms(4) by simp
  moreover have "generation_publication g = vf_publication w"
    using verified_publication [OF w(1)] by (auto simp: generation_publication_def)
  ultimately show ?thesis
    using g inv(2) assms(2) by (simp add: current_publication_def read_pointer_ok)
qed

lemma check_succession_current:
  assumes "replica_inv utc H sq S r" "check_succession r pub = Inr ()"
  shows "succeeds (current_publication r) pub"
proof (cases "rp_current r")
  case NoPointer
  then show ?thesis by (simp add: current_publication_def read_pointer_def succeeds_def)
next
  case (Pointer l key)
  with replica_invD(2) [OF assms(1)] have key: "read_pointer (rp_current r) = Inr (Some key)" by (simp add: pointer_ok_def)
  with assms(2) obtain g v m where "find_generation r key = Inr g" "read_json (sn_manifest (gn_snapshot g)) = Inr v"
    "as_dict v = Inr m" "may_succeed (member m ''publication'') pub = Inr ()"
    by (auto simp: check_succession_def bindR_Inr_iff)
  with key may_succeed_succeeds show ?thesis
    by (auto simp: current_publication_def generation_publication_def as_dict_def split: json.splits)
qed

lemma publish_good:
  assumes inv: "replica_inv utc H sq S r" and hash: "hash_ok H" and inj: "inj_on H (\<Union> (snapshot_bytes ` S))"
    and snaps: "sn \<in> S" "copied \<in> S" "verify_snapshot utc H sq sn = Inr v" "verify_snapshot utc H sq copied = Inr w"
      "vf_snapshot w = vf_snapshot v"
    and succ: "check_succession r (vf_publication v) = Inr ()"
    and run: "bindS (place_generation utc H sq (vf_snapshot v) copied) (\<lambda>_.
      bindS (publish_locked (vf_snapshot v)) (\<lambda>_. bindS prune_replica (\<lambda>counts r. (Inr (v, counts), r)))) r = (res, r')"
  shows "good_step utc H sq S r r'"
proof -
  let ?k = "vf_snapshot v"
  obtain x r1 where place: "place_generation utc H sq ?k copied r = (x, r1)" by (cases "place_generation utc H sq ?k copied r")
  show ?thesis
  proof (cases x)
    case (Inl e)
    have "r1 = r" using place Inl by (auto simp: place_generation_def split: option.splits gen_entry.splits sum.splits if_splits)
    with run place Inl have "r' = r" by (simp add: bindS_def)
    then show ?thesis using good_step_same [OF inv, of r] replica_invD(6) [OF inv] by simp
  next
    case (Inr u)
    note r1 = place_generation_ok [OF inv snaps(4,5,2) place [unfolded Inr [simplified]]]
    from r1(2) obtain g where g: "find_generation r1 ?k = Inr g" ..
    have hex: "is_hex 64 ?k"
      by (rule verify_snapshot_Inr [OF snaps(3)]) (use hash in \<open>simp add: hash_ok_def json_digest_def\<close>)
    obtain y r2 where pub: "publish_locked ?k r1 = (y, r2)" by (cases "publish_locked ?k r1")
    note r2 = publish_locked_ok [OF r1(1) hex g pub]
    have gens: "find_generation r2 = find_generation r1" by (rule find_generation_cong [OF r2(3)])
    obtain z r3 where prune: "prune_replica r2 = (z, r3)" by (cases "prune_replica r2")
    have r': "r' = r3" using run place Inr pub r2(5) prune by (cases z) (simp_all add: bindS_def)
    have "current_publication r2 = vf_publication v"
      by (rule current_publication_of [OF r2(1,2) snaps(3) refl snaps(1) inj])
    with check_succession_current [OF inv succ] have "succeeds (current_publication r) (current_publication r2)" by simp
    moreover have "good_step utc H sq S r2 r'" unfolding r' by (rule good_step_prune [OF r2(1) prune])
    moreover have "find_generation r' key = Inr h" if "find_generation r key = Inr h" "0 < gn_pins h \<or> rp_current r = Pointer False key" for key h
    proof -
      have h: "find_generation r2 key = Inr h" using r1(5) that(1) by (simp add: gens)
      moreover have "needed r2 key h" using that(2) r2(2,4) r1(3) by (auto simp: needed_def)
      ultimately show ?thesis unfolding r' by (rule prune_replica_needed [OF r2(1) prune])
    qed
    ultimately show ?thesis
      using r2(2) by (auto simp: good_step_def intro: succeeds_trans)
  qed
qed

lemma activate_good:
  assumes inv: "replica_inv utc H sq S r" and hash: "hash_ok H" and inj: "inj_on H (\<Union> (snapshot_bytes ` S))"
    and snaps: "sn \<in> S" "copied \<in> S" and run: "activate_replica utc H sq sn copied consume r = (res, r')"
  shows "good_step utc H sq S r r'"
proof -
  let ?r = "case consume of None \<Rightarrow> r | Some name \<Rightarrow> r\<lparr>rp_incoming := AList.delete name (rp_incoming r)\<rparr>"
  have sub: "snd ` set (rp_incoming ?r) \<subseteq> S"
    using replica_invD(6) [OF inv] by (auto simp: AList.delete_eq split: option.splits)
  have base: "good_step utc H sq S r ?r" by (rule good_step_same [OF inv]) (use sub in \<open>auto split: option.splits\<close>)
  have same: "good_step utc H sq S r r" by (rule good_step_same [OF inv]) (use replica_invD(6) [OF inv] in auto)
  show ?thesis
  proof (cases "\<exists>v w. verify_snapshot utc H sq sn = Inr v \<and> \<not> rp_writable r \<and> verify_snapshot utc H sq copied = Inr w
      \<and> vf_snapshot w = vf_snapshot v \<and> check_succession ?r (vf_publication v) = Inr ()")
    case True
    then obtain v w where vw: "verify_snapshot utc H sq sn = Inr v" "\<not> rp_writable r" "verify_snapshot utc H sq copied = Inr w"
      "vf_snapshot w = vf_snapshot v" "check_succession ?r (vf_publication v) = Inr ()" by blast
    have inv2: "replica_inv utc H sq S ?r" using base by (simp add: good_step_def)
    from run vw have "bindS (place_generation utc H sq (vf_snapshot v) copied) (\<lambda>_.
      bindS (publish_locked (vf_snapshot v)) (\<lambda>_. bindS prune_replica (\<lambda>counts r. (Inr (v, counts), r)))) ?r = (res, r')"
      by (simp add: activate_replica_def Let_def)
    from publish_good [OF inv2 hash inj snaps vw(1,3,4,5) this] have "good_step utc H sq S ?r r'" .
    moreover have gens: "find_generation ?r = find_generation r" and cur: "rp_current ?r = rp_current r"
      by (auto intro: find_generation_cong split: option.splits)
    moreover have "current_publication ?r = current_publication r" unfolding current_publication_def gens cur ..
    ultimately show ?thesis by (simp add: good_step_def)
  next
    case False
    with run have "r' = r \<or> r' = ?r"
      by (auto simp: activate_replica_def Let_def split: sum.splits if_splits)
    with base same show ?thesis by auto
  qed
qed

lemma replica_step_good:
  assumes "replica_step utc H sq S r r'" "replica_inv utc H sq S r" "hash_ok H" "inj_on H (\<Union> (snapshot_bytes ` S))"
  shows "good_step utc H sq S r r'"
  using assms(1)
proof cases
  case (transfer sn name)
  show ?thesis unfolding transfer(1)
    by (rule good_step_same [OF assms(2)])
      (use transfer(2) replica_invD(6) [OF assms(2)] in \<open>auto simp: dest!: subsetD [OF update_subset]\<close>)
next
  case (receive moved managed name res)
  have same: "good_step utc H sq S r r" by (rule good_step_same [OF assms(2)]) (use replica_invD(6) [OF assms(2)] in auto)
  from receive(2) have "r' = r \<or> (\<exists>sn. map_of (rp_incoming r) name = Some sn
      \<and> activate_replica utc H sq sn moved (Some name) r = (res, r'))"
    by (auto simp: receive_replica_def split: option.splits sum.splits if_splits)
  moreover have "sn \<in> S" if "map_of (rp_incoming r) name = Some sn" for sn
    using map_of_SomeD [OF that] replica_invD(6) [OF assms(2)] by force
  ultimately show ?thesis using same activate_good [OF assms(2-4) _ receive(1)] by blast
next
  case (activate sn copied out)
  then show ?thesis by (intro activate_good [OF assms(2-4)])
next
  case (pin key)
  from pin_current_cases [OF this] show ?thesis
    using good_step_put [OF assms(2)] good_step_same [OF assms(2), of r] replica_invD(6) [OF assms(2)] by auto
next
  case (release key)
  with unpin_cases [of key r] show ?thesis
    using good_step_put [OF assms(2)] good_step_same [OF assms(2), of r] replica_invD(6) [OF assms(2)] by auto
next
  case (prune counts)
  then show ?thesis by (rule good_step_prune [OF assms(2)])
qed

section \<open>Properties\<close>

lemma replica_steps_good:
  assumes "(replica_step utc H sq S)\<^sup>*\<^sup>* r r'" "replica_inv utc H sq S r" "hash_ok H" "inj_on H (\<Union> (snapshot_bytes ` S))"
  shows "replica_inv utc H sq S r' \<and> succeeds (current_publication r) (current_publication r')
    \<and> (rp_current r \<noteq> NoPointer \<longrightarrow> rp_current r' \<noteq> NoPointer)"
  using assms(1)
proof (induction rule: rtranclp_induct)
  case base
  then show ?case using assms(2) by simp
next
  case (step r1 r2)
  with replica_step_good [OF step(2) _ assms(3,4)] have "good_step utc H sq S r1 r2" by blast
  with step(3) show ?case by (auto simp: good_step_def intro: succeeds_trans)
qed

text \<open>
  C7: A standby never serves unverified or older evidence. After any history of transfers,
  receptions, activations, reads and prunings of a fresh replica, failed ones included, the pointer to
  the current generation is either absent or leads to a generation that verifies as the
  snapshot it is named after; and from there on the current publication only moves forward: it stays, or it is
  replaced by a later epoch of the same primary. Transferred directories may hold anything
  from the set \<open>S\<close>, on whose files the hash must not collide.
\<close>

theorem replica_moves_forward_only:
  assumes "hash_ok H" "inj_on H (\<Union> (snapshot_bytes ` S))"
    "(replica_step utc H sq S)\<^sup>*\<^sup>* new_replica r" "(replica_step utc H sq S)\<^sup>*\<^sup>* r r'"
  shows "(read_pointer (rp_current r) = Inr None \<or> (\<exists>key g v. read_pointer (rp_current r) = Inr (Some key)
      \<and> find_generation r key = Inr g \<and> verify_snapshot utc H sq (gn_snapshot g) = Inr v \<and> vf_snapshot v = key))
    \<and> succeeds (current_publication r) (current_publication r')"
proof -
  have inv: "replica_inv utc H sq S r" using replica_steps_good [OF assms(3) replica_inv_new assms(1,2)] by blast
  have "succeeds (current_publication r) (current_publication r')"
    using replica_steps_good [OF assms(4) inv assms(1,2)] by blast
  moreover have "\<exists>g v. find_generation r key = Inr g \<and> verify_snapshot utc H sq (gn_snapshot g) = Inr v \<and> vf_snapshot v = key"
    if "rp_current r = Pointer False key" for key
    using replica_invD(4) [OF inv that] replica_invD(1) [OF inv] by (fastforce simp: valid_generation_def)
  ultimately show ?thesis
    using replica_invD(2) [OF inv] by (cases "rp_current r") (auto simp: read_pointer_ok pointer_ok_def)
qed

text \<open>A replica that has activated one snapshot.\<close>

lemma activated_replica:
  obtains sn v r where "verify_snapshot no_time recovery_hash (recovery_sqlite recovery_catalog) sn = Inr v"
    "inj_on recovery_hash (\<Union> (snapshot_bytes ` {sn}))" "rp_current r = Pointer False (vf_snapshot v)"
    "replica_step no_time recovery_hash (recovery_sqlite recovery_catalog) {sn} new_replica r"
    "find_generation r (vf_snapshot v) = Inr \<lparr>gn_linked = False, gn_snapshot = sn, gn_readers = True, gn_pins = 0\<rparr>"
proof -
  let ?sq = "recovery_sqlite recovery_catalog" and ?d = "\<lparr>db_catalog = recovery_catalog, db_state = True\<rparr>"
  obtain c sn receipt p where
    made: "create_snapshot no_time recovery_hash ?sq [] False ?d recovery_root None = (Inr c, Some sn)"
    and dump: "sn_file sn = Some (sq_dump ?sq ?d)"
    by (rule snapshot_then_primary [OF recovery_facts(1) hash_ok_recovery recovery_facts(2) recovery_raws _ recovery_facts(3)]) auto
  from made obtain v where v: "verify_snapshot no_time recovery_hash ?sq sn = Inr v"
    by (auto simp: create_snapshot_def split: sum.splits)
  have inj: "inj_on recovery_hash (\<Union> (snapshot_bytes ` {sn}))"
    using dump by (auto simp: recovery_sqlite_def inj_on_def snapshot_bytes_def recovery_hash_def encode_json_nonempty split: sum.splits if_splits)
  have hex: "is_hex 64 (vf_snapshot v)"
    by (rule verify_snapshot_Inr [OF v]) (use hash_ok_recovery in \<open>simp add: hash_ok_def json_digest_def\<close>)
  let ?g = "Generation \<lparr>gn_linked = False, gn_snapshot = sn, gn_readers = True, gn_pins = 0\<rparr>"
  obtain out r where run: "activate_replica no_time recovery_hash ?sq sn sn None new_replica = (out, r)"
    by (cases "activate_replica no_time recovery_hash ?sq sn sn None new_replica")
  have "r = (put_generation (vf_snapshot v) ?g new_replica)\<lparr>rp_current := Pointer False (vf_snapshot v)\<rparr>"
    using run hex by (auto simp: activate_replica_def v new_replica_def check_succession_def read_pointer_def strip_hex bindS_def
        place_generation_def publish_locked_def prune_replica_def put_generation_def prunable_def)
  then have "rp_current r = Pointer False (vf_snapshot v)"
    "find_generation r (vf_snapshot v) = Inr \<lparr>gn_linked = False, gn_snapshot = sn, gn_readers = True, gn_pins = 0\<rparr>"
    by (simp_all add: find_generation_def put_generation_def update_conv')
  moreover have "replica_step no_time recovery_hash ?sq {sn} new_replica r" by (rule replica_step.activate [OF _ _ run]) simp_all
  ultimately show thesis using that [OF v inj] by blast
qed

lemma replica_moves_forward_only_witness: "\<exists>sn r g v.
    replica_step no_time recovery_hash (recovery_sqlite recovery_catalog) {sn} new_replica r
    \<and> find_generation r (vf_snapshot v) = Inr g \<and> verify_snapshot no_time recovery_hash (recovery_sqlite recovery_catalog) (gn_snapshot g) = Inr v"
proof -
  obtain sn v r where v: "verify_snapshot no_time recovery_hash (recovery_sqlite recovery_catalog) sn = Inr v"
    and a: "inj_on recovery_hash (\<Union> (snapshot_bytes ` {sn}))" "rp_current r = Pointer False (vf_snapshot v)"
    "replica_step no_time recovery_hash (recovery_sqlite recovery_catalog) {sn} new_replica r"
    by (rule activated_replica)
  have steps: "(replica_step no_time recovery_hash (recovery_sqlite recovery_catalog) {sn})\<^sup>*\<^sup>* new_replica r"
    by (rule r_into_rtranclp) (rule a(3))
  from replica_moves_forward_only [OF hash_ok_recovery a(1) steps rtranclp.rtrancl_refl] a(2)
  obtain key g u where "find_generation r key = Inr g" "vf_snapshot u = key"
    "verify_snapshot no_time recovery_hash (recovery_sqlite recovery_catalog) (gn_snapshot g) = Inr u"
    by (auto simp: read_pointer_def split: if_splits)
  with a(3) show ?thesis by blast
qed



end
