(* ===== verification/Maintenance.thy ===== *)
theory Maintenance
  imports Recovery
begin

text \<open>
  Maintenance of a primary: the write fence (\<open>storage/fencing.py\<close>) and the expiry of abandoned uploads
  (\<open>storage/transfer_maintenance.py\<close>). Writers hold a shared lock on \<open>.writers.lock\<close>; fencing and
  expiry take it exclusively or not at all. The main results: a fenced primary is frozen, and expiry
  removes nothing but old uploads that nobody works on and nothing refers to.
\<close>

section \<open>The primary's directory\<close>

text \<open>
  The data root, whether it has an initialised catalog, the catalog, the text of
  \<open>FENCED.json\<close> as a document, and the number of writers that hold the lock. The marker in \<open>pd_root\<close>
  is the existence of the file.
\<close>

record primary_dir =
  pd_root :: data_root
  pd_initialized :: bool
  pd_database :: database
  pd_fence :: json
  pd_writers :: nat

definition open_writer :: "(primary_dir, unit) op" where
  "open_writer p = (case acquire_writer (pd_root p) of
       Inl e \<Rightarrow> (Inl e, p) | Inr _ \<Rightarrow> (Inr (), p\<lparr>pd_writers := Suc (pd_writers p)\<rparr>))"

definition close_writer :: "primary_dir \<Rightarrow> primary_dir" where
  "close_writer p = p\<lparr>pd_writers := pd_writers p - 1\<rparr>"

definition fence_receipt :: "json \<Rightarrow> pystr \<Rightarrow> pystr \<Rightarrow> document" where
  "fence_receipt pub fence_id now = [(lit ''version'', JInt 1), (lit ''status'', JStr (lit ''fenced'')), (lit ''publication'', pub),
     (lit ''fence_id'', JStr fence_id), (lit ''fenced_at'', JStr now),
     (lit ''scope'', JStr (lit ''cooperating local catalog and transfer writers''))]"

definition busy_receipt :: document where
  "busy_receipt = [(lit ''version'', JInt 1), (lit ''status'', JStr (lit ''busy'')),
     (lit ''reason'', JStr (lit ''active_catalog_or_transfer_writer''))]"

definition fence_primary :: "pystr \<Rightarrow> pystr \<Rightarrow> (primary_dir, document) op" where
  "fence_primary fence_id now p =
     (let r = pd_root p; pub = db_publication (pd_database p) in
      if \<not> pd_initialized p \<or> has_current r \<or> has_manifest r
      then (Inl (ValueError ''fencing requires an initialized primary catalog''), p)
      else if 0 < pd_writers p then (Inr busy_receipt, p)
      else if is_fenced r then (case pd_fence p of
          JObj d \<Rightarrow> if \<not> py_eq (member d ''version'') (JInt 1) \<or> member d ''status'' \<noteq> JStr (lit ''fenced'')
              \<or> \<not> py_eq (member d ''publication'') pub
            then (Inl (ValueError ''fenced catalog or receipt changed; isolate old writers''), p) else (Inr d, p)
        | _ \<Rightarrow> (Inl (ValueError ''fenced catalog or receipt changed; isolate old writers''), p))
      else (Inr (fence_receipt pub fence_id now),
        p\<lparr>pd_root := r\<lparr>is_fenced := True\<rparr>, pd_fence := JObj (fence_receipt pub fence_id now)\<rparr>))"

text \<open>
  What happens to a primary: writers come and go, one of them ingests a request into the catalog, uploads
  are appended to under a lease of their own, and operators fence.
\<close>

inductive primary_step :: "(bytes \<Rightarrow> pystr) \<Rightarrow> primary_dir \<Rightarrow> primary_dir \<Rightarrow> bool" for H where
  opened: "open_writer p = (res, p') \<Longrightarrow> primary_step H p p'"
| closed: "0 < pd_writers p \<Longrightarrow> primary_step H p (close_writer p)"
| ingested: "0 < pd_writers p \<Longrightarrow> ingest_one H q (db_catalog (pd_database p)) = (res, ct) \<Longrightarrow>
    primary_step H p (p\<lparr>pd_database := (pd_database p)\<lparr>db_catalog := ct\<rparr>\<rparr>)"
| appended: "transfer_append H free t producer key off whole chunk (pd_root p) = (out, r) \<Longrightarrow> primary_step H p (p\<lparr>pd_root := r\<rparr>)"
| fenced: "fence_primary fence_id now p = (receipt, p') \<Longrightarrow> primary_step H p p'"

section \<open>Expiry of abandoned uploads\<close>

text \<open>
  What the file system shows besides names and contents: modification times, whether a file has one link
  only, whether another process holds its lock, and whether it is still the same file when it is
  looked at again.
\<close>

record 't file_view =
  fv_mtime :: "namespace \<Rightarrow> pystr \<Rightarrow> 't"
  fv_single :: "namespace \<Rightarrow> pystr \<Rightarrow> bool"
  fv_locked :: "namespace \<Rightarrow> pystr \<Rightarrow> bool"
  fv_steady :: "namespace \<Rightarrow> pystr \<Rightarrow> bool"

text \<open>The names \<open>[0-9a-f]{64}-[0-9a-f]{64}\<close> with an extension.\<close>

definition upload_name :: "string \<Rightarrow> pystr \<Rightarrow> bool" where
  "upload_name ext name \<longleftrightarrow> is_hex 64 (take 64 name) \<and> take 1 (drop 64 name) = lit ''-'' \<and> is_hex 64 (take 64 (drop 65 name))
     \<and> drop 129 name = lit ext"

definition name_key :: "pystr \<Rightarrow> pystr" where
  "name_key name = take 64 (drop 65 name)"

definition part_of :: "pystr \<Rightarrow> pystr" where
  "part_of name = take 129 name @ lit ''.part''"

definition lock_of :: "pystr \<Rightarrow> pystr" where
  "lock_of name = take 129 name @ lit ''.lock''"

record expiry =
  ex_status :: string
  ex_scanned :: nat
  ex_eligible_files :: nat
  ex_eligible_bytes :: nat
  ex_removed_files :: nat
  ex_removed_bytes :: nat
  ex_skipped :: nat
  ex_eligible_locks :: nat
  ex_removed_locks :: nat

definition no_expiry :: "string \<Rightarrow> expiry" where
  "no_expiry status = \<lparr>ex_status = status, ex_scanned = 0, ex_eligible_files = 0, ex_eligible_bytes = 0, ex_removed_files = 0,
     ex_removed_bytes = 0, ex_skipped = 0, ex_eligible_locks = 0, ex_removed_locks = 0\<rparr>"

text \<open>
  The scan of a directory: the entries seen and skipped, the old partials and the old locks without a
  partial; \<open>None\<close> when the limit is reached.
\<close>

type_synonym scan_state = "nat \<times> nat \<times> (namespace \<times> pystr) list \<times> (namespace \<times> pystr) list"

fun scan_uploads :: "('t :: linorder) file_view \<Rightarrow> 't \<Rightarrow> nat \<Rightarrow> namespace \<Rightarrow> dir \<Rightarrow> dir \<Rightarrow> scan_state \<Rightarrow> nat \<times> nat + scan_state" where
  "scan_uploads v cutoff limit ns d [] st = Inr st"
| "scan_uploads v cutoff limit ns d ((name, x) # es) (n, skipped, parts, orphans) =
     (if limit \<le> n then Inl (n, skipped)
      else if upload_name ''.lock'' name then scan_uploads v cutoff limit ns d es (Suc n, skipped, parts,
        if x = File [] \<and> fv_single v ns name \<and> fv_mtime v ns name < cutoff \<and> dir_get d (part_of name) = None
        then orphans @ [(ns, name)] else orphans)
      else if \<not> upload_name ''.part'' name then scan_uploads v cutoff limit ns d es (Suc n, skipped, parts, orphans)
      else (case x of
          File b \<Rightarrow> if \<not> fv_single v ns name then scan_uploads v cutoff limit ns d es (Suc n, Suc skipped, parts, orphans)
            else scan_uploads v cutoff limit ns d es (Suc n, skipped,
              if fv_mtime v ns name < cutoff then parts @ [(ns, name)] else parts, orphans)
        | _ \<Rightarrow> scan_uploads v cutoff limit ns d es (Suc n, Suc skipped, parts, orphans)))"

text \<open>Whether the object of an upload exists; a recipe path that is a link raises.\<close>

definition is_published :: "namespace \<Rightarrow> pystr \<Rightarrow> data_root \<Rightarrow> bool result" where
  "is_published ns key r = (if ns = Raw
     then bindR (member_path key (recipe_files r)) (\<lambda>_.
       Inr (dir_get (raw_files r) key \<noteq> None \<or> dir_get (recipe_files r) key \<noteq> None))
     else Inr (dir_get (upload_files r) key \<noteq> None))"

definition regular :: "node option \<Rightarrow> bool" where
  "regular x = (case x of Some (File _) \<Rightarrow> True | _ \<Rightarrow> False)"

definition skip :: "expiry \<Rightarrow> expiry" where
  "skip ex = ex\<lparr>ex_skipped := Suc (ex_skipped ex)\<rparr>"

fun expire_parts :: "'t file_view \<Rightarrow> bool \<Rightarrow> pystr set \<Rightarrow> (namespace \<times> pystr) list \<Rightarrow> expiry \<Rightarrow> (data_root, expiry) op" where
  "expire_parts v apply_it referenced [] ex r = (Inr ex, r)"
| "expire_parts v apply_it referenced ((ns, name) # cs) ex r = (case is_published ns (name_key name) r of
       Inl e \<Rightarrow> (Inl e, r)
     | Inr published \<Rightarrow>
         if published \<or> (ns = Raw \<and> name_key name \<in> referenced) then expire_parts v apply_it referenced cs (skip ex) r
         else if \<not> regular (dir_get (staging_dir ns r) (lock_of name)) \<or> fv_locked v ns (lock_of name)
         then expire_parts v apply_it referenced cs (skip ex) r
         else (case dir_get (staging_dir ns r) name of
             None \<Rightarrow> (Inl (FileNotFoundError ''No such file or directory''), r)
           | Some x \<Rightarrow>
               if \<not> regular (Some x) \<or> \<not> fv_single v ns name \<or> \<not> fv_steady v ns name
               then expire_parts v apply_it referenced cs (skip ex) r
               else let size = entry_size (Some x);
                   ex = ex\<lparr>ex_eligible_locks := Suc (ex_eligible_locks ex), ex_eligible_files := Suc (ex_eligible_files ex),
                     ex_eligible_bytes := ex_eligible_bytes ex + size\<rparr> in
                 if apply_it then expire_parts v apply_it referenced cs
                   (ex\<lparr>ex_removed_files := Suc (ex_removed_files ex), ex_removed_bytes := ex_removed_bytes ex + size,
                     ex_removed_locks := Suc (ex_removed_locks ex)\<rparr>) (unstage ns (lock_of name) (unstage ns name r))
                 else expire_parts v apply_it referenced cs ex r))"

fun expire_orphans :: "'t file_view \<Rightarrow> bool \<Rightarrow> (namespace \<times> pystr) list \<Rightarrow> expiry \<Rightarrow> (data_root, expiry) op" where
  "expire_orphans v apply_it [] ex r = (Inr ex, r)"
| "expire_orphans v apply_it ((ns, name) # os) ex r = (case dir_get (staging_dir ns r) name of
       None \<Rightarrow> expire_orphans v apply_it os ex r
     | Some Link \<Rightarrow> (Inl (OSError ''Too many levels of symbolic links''), r)
     | Some x \<Rightarrow>
         if fv_locked v ns name \<or> x \<noteq> File [] \<or> \<not> fv_single v ns name \<or> \<not> fv_steady v ns name
         then expire_orphans v apply_it os ex r
         else let ex = ex\<lparr>ex_eligible_locks := Suc (ex_eligible_locks ex)\<rparr> in
           if apply_it then expire_orphans v apply_it os (ex\<lparr>ex_removed_locks := Suc (ex_removed_locks ex)\<rparr>) (unstage ns name r)
           else expire_orphans v apply_it os ex r)"

text \<open>
  \<open>expire_transfers\<close>: \<open>valid_days\<close> tells that the age is a finite number of at least one day, \<open>cutoff\<close> is
  the time before which a file is old.
\<close>

definition expire_transfers :: "('t :: linorder) file_view \<Rightarrow> bool \<Rightarrow> 't \<Rightarrow> bool \<Rightarrow> int \<Rightarrow> primary_dir \<Rightarrow> expiry result \<times> primary_dir" where
  "expire_transfers v valid_days cutoff apply_it scan_limit p =
     (let r = pd_root p in
      if \<not> valid_days then (Inl (ValueError ''transfer expiry must retain at least one day''), p)
      else if \<not> (1 \<le> scan_limit \<and> scan_limit \<le> 1000000)
      then (Inl (ValueError ''scan limit must be between 1 and 1000000 entries''), p)
      else if \<not> pd_initialized p then (Inl (ValueError ''transfer expiry requires an initialized primary catalog''), p)
      else if has_current r \<or> has_manifest r \<or> is_fenced r
      then (Inl (PermissionError ''transfer expiry requires an unfenced primary''), p)
      else if 0 < pd_writers p then (Inr (no_expiry ''deferred''), p)
      else (case scan_uploads v cutoff (nat scan_limit) Raw (raw_staging r) (raw_staging r) (0, 0, [], []) of
          Inl (n, skipped) \<Rightarrow> (Inr ((no_expiry ''deferred'')\<lparr>ex_scanned := n, ex_skipped := skipped\<rparr>), p)
        | Inr st \<Rightarrow>
        (case scan_uploads v cutoff (nat scan_limit) RevisionUpload (upload_staging r) (upload_staging r) st of
          Inl (n, skipped) \<Rightarrow> (Inr ((no_expiry ''deferred'')\<lparr>ex_scanned := n, ex_skipped := skipped\<rparr>), p)
        | Inr (n, skipped, parts, orphans) \<Rightarrow>
            (case expire_parts v apply_it (rw_digest ` set (ct_raw (db_catalog (pd_database p)))) parts
                ((no_expiry ''planned'')\<lparr>ex_scanned := n, ex_skipped := skipped\<rparr>) r of
               (Inl e, r) \<Rightarrow> (Inl e, p\<lparr>pd_root := r\<rparr>)
             | (Inr ex, r) \<Rightarrow> (case expire_orphans v apply_it orphans ex r of
                 (Inl e, r) \<Rightarrow> (Inl e, p\<lparr>pd_root := r\<rparr>)
               | (Inr ex, r) \<Rightarrow> (Inr (if apply_it then ex\<lparr>ex_status := ''pruned''\<rparr> else ex), p\<lparr>pd_root := r\<rparr>))))))"

section \<open>A fenced primary is frozen\<close>

lemma fenced_stuck:
  assumes "is_fenced (pd_root p)" "pd_writers p = 0" "primary_step H p p'"
  shows "p' = p"
  using assms(3)
proof cases
  case (appended free t producer key off whole chunk out r)
  then show ?thesis using assms(1) by (simp add: transfer_append_def acquire_writer_def)
next
  case (fenced fence_id now receipt)
  then show ?thesis using assms by (auto simp: fence_primary_def Let_def split: if_splits json.splits)
qed (use assms in \<open>simp_all add: open_writer_def acquire_writer_def\<close>)

text \<open>
  C9: The write fence is exclusive and final. When fencing reports a receipt with status fenced, no
  writer was left, the receipt names the catalog's publication, and whatever is tried afterwards,
  opening writers, ingesting, appending to uploads, fencing again, in any order, changes nothing: neither the
  catalog nor an object nor an upload; a repeated fencing reports the same receipt.
\<close>

theorem fenced_primary_is_frozen:
  assumes "fence_primary fence_id now p = (Inr d, p1)" "member d ''status'' = JStr (lit ''fenced'')"
    "(primary_step H)\<^sup>*\<^sup>* p1 p2"
  shows "pd_writers p1 = 0 \<and> pd_database p1 = pd_database p \<and> py_eq (member d ''publication'') (db_publication (pd_database p))
    \<and> p2 = p1 \<and> fence_primary fence_id2 now2 p2 = (Inr d, p2)"
proof -
  have busy: "member busy_receipt ''status'' \<noteq> JStr (lit ''fenced'')"
    by (simp add: busy_receipt_def member_def jget_def lit_def)
  have own: "member (fence_receipt pub i n) ''version'' = JInt 1" "member (fence_receipt pub i n) ''status'' = JStr (lit ''fenced'')"
    "member (fence_receipt pub i n) ''publication'' = pub" for pub i n
    by (simp_all add: fence_receipt_def member_def jget_def lit_def)
  have facts: "is_fenced (pd_root p1) \<and> pd_writers p1 = 0 \<and> pd_database p1 = pd_database p
      \<and> py_eq (member d ''publication'') (db_publication (pd_database p)) \<and> fence_primary fence_id2 now2 p1 = (Inr d, p1)"
    using assms(1,2) busy by (auto simp: fence_primary_def Let_def own split: if_splits json.splits)
  have "p2 = p1"
    using assms(3)
  proof (induction rule: rtranclp_induct)
    case (step q r)
    with fenced_stuck [of q H r] facts show ?case by simp
  qed simp
  with facts show ?thesis by simp
qed

text \<open>A primary with an empty catalog.\<close>

definition sample_primary :: primary_dir where
  "sample_primary = \<lparr>pd_root = empty_root, pd_initialized = True,
     pd_database = \<lparr>db_catalog = empty_catalog (lit ''a''), db_state = True\<rparr>, pd_fence = JNull, pd_writers = 0\<rparr>"

lemma fenced_primary_is_frozen_witness:
  "snd (open_writer (snd (fence_primary [] [] sample_primary))) = snd (fence_primary [] [] sample_primary)"
proof -
  let ?p = "snd (fence_primary [] [] sample_primary)"
  have f: "fence_primary [] [] sample_primary = (Inr (fence_receipt (db_publication (pd_database sample_primary)) [] []), ?p)"
    by (simp add: fence_primary_def sample_primary_def empty_root_def Let_def)
  have s: "member (fence_receipt (db_publication (pd_database sample_primary)) [] []) ''status'' = JStr (lit ''fenced'')"
    by (simp add: fence_receipt_def member_def jget_def lit_def)
  have "primary_step id ?p (snd (open_writer ?p))" by (rule primary_step.opened) (rule surjective_pairing)
  then have "(primary_step id)\<^sup>*\<^sup>* ?p (snd (open_writer ?p))" by (rule r_into_rtranclp)
  from fenced_primary_is_frozen [OF f s this] show ?thesis by blast
qed

section \<open>Expiry removes abandoned uploads only\<close>

text \<open>What the lists of the scan hold.\<close>

definition old_part :: "('t :: linorder) file_view \<Rightarrow> 't \<Rightarrow> dir \<Rightarrow> namespace \<Rightarrow> pystr \<Rightarrow> bool" where
  "old_part v cutoff d ns name \<longleftrightarrow> upload_name ''.part'' name \<and> fv_mtime v ns name < cutoff \<and> fv_single v ns name
     \<and> (\<exists>b. (name, File b) \<in> set d)"

definition old_lock :: "('t :: linorder) file_view \<Rightarrow> 't \<Rightarrow> dir \<Rightarrow> dir \<Rightarrow> namespace \<Rightarrow> pystr \<Rightarrow> bool" where
  "old_lock v cutoff d es ns name \<longleftrightarrow> upload_name ''.lock'' name \<and> fv_mtime v ns name < cutoff \<and> fv_single v ns name
     \<and> dir_get d (part_of name) = None \<and> (name, File []) \<in> set es"

lemma scan_uploads_lists:
  assumes "scan_uploads v cutoff limit ns d es (n, sk, cs, os) = Inr (n', sk', cs', os')"
  shows "(\<forall>x \<in> set cs'. x \<in> set cs \<or> fst x = ns \<and> old_part v cutoff es ns (snd x))
    \<and> (\<forall>x \<in> set os'. x \<in> set os \<or> fst x = ns \<and> old_lock v cutoff d es ns (snd x))
    \<and> n' = n + length es \<and> n' \<le> max n limit"
  using assms
proof (induction es arbitrary: n sk cs os)
  case (Cons e es)
  obtain name x where e: "e = (name, x)" by (cases e)
  have part: "old_part v cutoff es ns m \<Longrightarrow> old_part v cutoff (e # es) ns m"
    and lock: "old_lock v cutoff d es ns m \<Longrightarrow> old_lock v cutoff d (e # es) ns m" for m
    by (auto simp: old_part_def old_lock_def)
  from Cons.prems e have "\<not> limit \<le> n" by (auto split: if_splits)
  moreover from Cons.prems e this obtain sk2 cs2 os2 where rest:
      "scan_uploads v cutoff limit ns d es (Suc n, sk2, cs2, os2) = Inr (n', sk', cs', os')"
    and cs2: "cs2 = cs \<or> cs2 = cs @ [(ns, name)] \<and> old_part v cutoff (e # es) ns name"
    and os2: "os2 = os \<or> os2 = os @ [(ns, name)] \<and> old_lock v cutoff d (e # es) ns name"
    by (fastforce simp: old_part_def old_lock_def split: if_splits node.splits)
  ultimately show ?case
    using Cons.IH [OF rest] part lock by auto
qed simp

text \<open>
  A data root from which only entries of the staging directories were removed, each for a reason.
\<close>

definition only_removed :: "(namespace \<Rightarrow> pystr \<Rightarrow> node \<Rightarrow> bool) \<Rightarrow> data_root \<Rightarrow> data_root \<Rightarrow> bool" where
  "only_removed reason r r' \<longleftrightarrow> same_objects r r' \<and> is_fenced r' = is_fenced r \<and> has_current r' = has_current r
     \<and> has_manifest r' = has_manifest r
     \<and> (\<forall>ns n. dir_get (staging_dir ns r') n = dir_get (staging_dir ns r) n
        \<or> dir_get (staging_dir ns r') n = None \<and> (\<exists>x. dir_get (staging_dir ns r) n = Some x \<and> reason ns n x))"

lemma only_removed_refl [simp]: "only_removed reason r r"
  by (simp add: only_removed_def same_objects_def)

lemma only_removed_trans:
  assumes "only_removed reason a b" "only_removed reason b c"
  shows "only_removed reason a c"
  using assms unfolding only_removed_def same_objects_def by (smt (verit) option.distinct(1))

lemma only_removed_unstage:
  assumes "\<And>x. dir_get (staging_dir ns r) n = Some x \<Longrightarrow> reason ns n x"
  shows "only_removed reason r (unstage ns n r)"
  using assms by (cases "dir_get (staging_dir ns r) n") (auto simp: only_removed_def)

lemma only_removed_weaken: "only_removed P r r' \<Longrightarrow> (\<And>ns n x. P ns n x \<Longrightarrow> Q ns n x) \<Longrightarrow> only_removed Q r r'"
  unfolding only_removed_def by blast

text \<open>Why a partial or its lock is removed.\<close>

definition unneeded :: "'t file_view \<Rightarrow> pystr set \<Rightarrow> data_root \<Rightarrow> namespace \<Rightarrow> pystr \<Rightarrow> bool" where
  "unneeded v referenced r ns name \<longleftrightarrow> is_published ns (name_key name) r = Inr False
     \<and> \<not> (ns = Raw \<and> name_key name \<in> referenced) \<and> \<not> fv_locked v ns (lock_of name) \<and> fv_steady v ns name"

lemma is_published_same: "same_objects r s \<Longrightarrow> is_published ns k s = is_published ns k r"
  by (simp add: is_published_def same_objects_def)

definition part_reason :: "'t file_view \<Rightarrow> pystr set \<Rightarrow> data_root \<Rightarrow> (namespace \<times> pystr) set \<Rightarrow> namespace \<Rightarrow> pystr \<Rightarrow> node \<Rightarrow> bool" where
  "part_reason v referenced r C ns n x \<longleftrightarrow> (\<exists>name. (ns, name) \<in> C \<and> (n = name \<or> n = lock_of name) \<and> unneeded v referenced r ns name)"

lemma part_reason_same:
  "same_objects r s \<Longrightarrow> part_reason v referenced s C ns n x = part_reason v referenced r C ns n x"
  by (simp add: part_reason_def unneeded_def is_published_same)

lemma expire_parts_effect:
  assumes "expire_parts v apply_it referenced cs ex r = (res, r')"
  shows "only_removed (part_reason v referenced r (set cs)) r r' \<and> (\<not> apply_it \<longrightarrow> r' = r)"
  using assms
proof (induction cs arbitrary: ex r)
  case (Cons c cs)
  obtain ns name where c: "c = (ns, name)" by (cases c)
  have more: "only_removed (part_reason v referenced q (set (c # cs))) q s" if "only_removed (part_reason v referenced q (set cs)) q s" for q s
    using that by (rule only_removed_weaken) (auto simp: part_reason_def)
  have cases: "r' = r \<or> (\<exists>ex. expire_parts v apply_it referenced cs ex r = (res, r'))
      \<or> (\<exists>ex. apply_it \<and> unneeded v referenced r ns name
          \<and> expire_parts v apply_it referenced cs ex (unstage ns (lock_of name) (unstage ns name r)) = (res, r'))"
    using Cons.prems by (auto simp: c unneeded_def Let_def split: sum.splits option.splits if_splits)
  then show ?case
  proof (elim disjE exE conjE)
    fix ex2 assume "expire_parts v apply_it referenced cs ex2 r = (res, r')"
    from Cons.IH [OF this] more show ?thesis by blast
  next
    fix ex2 let ?s = "unstage ns (lock_of name) (unstage ns name r)"
    assume a: "apply_it" "unneeded v referenced r ns name" "expire_parts v apply_it referenced cs ex2 ?s = (res, r')"
    have same: "same_objects r ?s" by (simp add: same_objects_def)
    have "only_removed (part_reason v referenced ?s (set (c # cs))) ?s r'" using Cons.IH [OF a(3)] more by blast
    then have 2: "only_removed (part_reason v referenced r (set (c # cs))) ?s r'"
      by (rule only_removed_weaken) (simp add: part_reason_same [OF same])
    have "only_removed (part_reason v referenced r (set (c # cs))) r (unstage ns name r)"
      by (rule only_removed_unstage) (use a(2) in \<open>auto simp: part_reason_def c\<close>)
    moreover have "only_removed (part_reason v referenced r (set (c # cs))) (unstage ns name r) ?s"
      by (rule only_removed_unstage) (use a(2) in \<open>auto simp: part_reason_def c\<close>)
    ultimately show ?thesis using 2 a(1) only_removed_trans by blast
  qed simp
qed simp

definition lock_reason :: "'t file_view \<Rightarrow> (namespace \<times> pystr) set \<Rightarrow> namespace \<Rightarrow> pystr \<Rightarrow> node \<Rightarrow> bool" where
  "lock_reason v C ns n x \<longleftrightarrow> (ns, n) \<in> C \<and> x = File [] \<and> \<not> fv_locked v ns n \<and> fv_steady v ns n"

lemma expire_orphans_effect:
  assumes "expire_orphans v apply_it os ex r = (res, r')"
  shows "only_removed (lock_reason v (set os)) r r' \<and> (\<not> apply_it \<longrightarrow> r' = r)"
  using assms
proof (induction os arbitrary: ex r)
  case (Cons c os)
  obtain ns name where c: "c = (ns, name)" by (cases c)
  have more: "only_removed (lock_reason v (set (c # os))) q s" if "only_removed (lock_reason v (set os)) q s" for q s
    using that by (rule only_removed_weaken) (auto simp: lock_reason_def)
  have "r' = r \<or> (\<exists>ex. expire_orphans v apply_it os ex r = (res, r'))
      \<or> (\<exists>ex. apply_it \<and> dir_get (staging_dir ns r) name = Some (File []) \<and> \<not> fv_locked v ns name \<and> fv_steady v ns name
          \<and> expire_orphans v apply_it os ex (unstage ns name r) = (res, r'))"
    using Cons.prems by (auto simp: c Let_def split: option.splits node.splits if_splits)
  then show ?case
  proof (elim disjE exE conjE)
    fix ex2 assume "expire_orphans v apply_it os ex2 r = (res, r')"
    from Cons.IH [OF this] more show ?thesis by blast
  next
    fix ex2 assume a: "apply_it" "dir_get (staging_dir ns r) name = Some (File [])" "\<not> fv_locked v ns name" "fv_steady v ns name"
      "expire_orphans v apply_it os ex2 (unstage ns name r) = (res, r')"
    have "only_removed (lock_reason v (set (c # os))) r (unstage ns name r)"
      by (rule only_removed_unstage) (use a in \<open>auto simp: lock_reason_def c\<close>)
    with Cons.IH [OF a(5)] more a(1) show ?thesis using only_removed_trans by blast
  qed simp
qed simp

text \<open>
  An abandoned entry of the staging directories: an old partial, or its lock, of an upload whose object
  was never published and which the catalog does not refer to, with a lock nobody holds; or an old empty lock
  nobody holds without a partial.
\<close>

definition abandoned :: "('t :: linorder) file_view \<Rightarrow> 't \<Rightarrow> primary_dir \<Rightarrow> namespace \<Rightarrow> pystr \<Rightarrow> node \<Rightarrow> bool" where
  "abandoned v cutoff p ns n x \<longleftrightarrow>
     (\<exists>name. upload_name ''.part'' name \<and> (n = name \<or> n = lock_of name) \<and> fv_mtime v ns name < cutoff \<and> fv_single v ns name
        \<and> unneeded v (rw_digest ` set (ct_raw (db_catalog (pd_database p)))) (pd_root p) ns name)
     \<or> upload_name ''.lock'' n \<and> x = File [] \<and> fv_mtime v ns n < cutoff \<and> fv_single v ns n \<and> \<not> fv_locked v ns n
        \<and> fv_steady v ns n \<and> dir_get (staging_dir ns (pd_root p)) (part_of n) = None"

lemma two_scans:
  assumes "scan_uploads v cutoff limit Raw (raw_staging r) (raw_staging r) (0, 0, [], []) = Inr (n1, sk1, cs1, os1)"
    "scan_uploads v cutoff limit RevisionUpload (upload_staging r) (upload_staging r) (n1, sk1, cs1, os1) = Inr (n2, sk2, cs2, os2)"
  shows "(\<forall>x \<in> set cs2. old_part v cutoff (staging_dir (fst x) r) (fst x) (snd x))
    \<and> (\<forall>x \<in> set os2. old_lock v cutoff (staging_dir (fst x) r) (staging_dir (fst x) r) (fst x) (snd x)) \<and> n2 \<le> limit"
proof (intro conjI ballI)
  note a = scan_uploads_lists [OF assms(1), simplified] and b = scan_uploads_lists [OF assms(2)]
  show "old_part v cutoff (staging_dir (fst x) r) (fst x) (snd x)" if "x \<in> set cs2" for x
    using a b that unfolding staging_dir_def by (metis namespace.simps(3,4))
  show "old_lock v cutoff (staging_dir (fst x) r) (staging_dir (fst x) r) (fst x) (snd x)" if "x \<in> set os2" for x
    using a b that unfolding staging_dir_def by (metis namespace.simps(3,4))
  show "n2 \<le> limit" using a b by auto
qed

lemma abandoned_part:
  assumes "part_reason v (rw_digest ` set (ct_raw (db_catalog (pd_database p)))) (pd_root p) (set cs) ns n x"
    "\<forall>x \<in> set cs. old_part v cutoff (staging_dir (fst x) (pd_root p)) (fst x) (snd x)"
  shows "abandoned v cutoff p ns n x"
  using assms unfolding part_reason_def abandoned_def old_part_def by fastforce

lemma abandoned_lock:
  assumes "lock_reason v (set os) ns n x"
    "\<forall>x \<in> set os. old_lock v cutoff (staging_dir (fst x) (pd_root p)) (staging_dir (fst x) (pd_root p)) (fst x) (snd x)"
  shows "abandoned v cutoff p ns n x"
  using assms unfolding lock_reason_def abandoned_def old_lock_def by fastforce

lemma expire_transfers_cases:
  assumes "expire_transfers v valid_days cutoff apply_it limit p = (res, p')"
  obtains "p' = p"
  | n1 sk1 cs1 os1 n2 sk2 cs os referenced ex ex2 r' r''
    where "valid_days \<and> \<not> is_fenced (pd_root p)" "pd_writers p = 0" "referenced = rw_digest ` set (ct_raw (db_catalog (pd_database p)))"
    "scan_uploads v cutoff (nat limit) Raw (raw_staging (pd_root p)) (raw_staging (pd_root p)) (0, 0, [], []) = Inr (n1, sk1, cs1, os1)"
    "scan_uploads v cutoff (nat limit) RevisionUpload (upload_staging (pd_root p)) (upload_staging (pd_root p)) (n1, sk1, cs1, os1)
      = Inr (n2, sk2, cs, os)"
    "expire_parts v apply_it referenced cs ex (pd_root p) = (ex2, r')"
    "p' = p\<lparr>pd_root := r''\<rparr>" "r'' = r' \<or> (\<exists>e res2. expire_orphans v apply_it os e r' = (res2, r''))"
proof -
  let ?refs = "rw_digest ` set (ct_raw (db_catalog (pd_database p)))"
  let ?s1 = "scan_uploads v cutoff (nat limit) Raw (raw_staging (pd_root p)) (raw_staging (pd_root p)) (0, 0, [], [])"
  let ?ok = "valid_days \<and> 1 \<le> limit \<and> limit \<le> 1000000 \<and> pd_initialized p
    \<and> \<not> (has_current (pd_root p) \<or> has_manifest (pd_root p) \<or> is_fenced (pd_root p)) \<and> pd_writers p = 0"
  show thesis
  proof (cases ?ok)
    case False
    then have "p' = p" using assms unfolding expire_transfers_def Let_def by (simp split: if_splits)
    then show thesis by (rule that(1))
  next
    case ok: True
    show thesis
    proof (cases ?s1)
      case (Inl x)
      then have "p' = p" using assms ok unfolding expire_transfers_def Let_def by (simp split: prod.splits)
      then show thesis by (rule that(1))
    next
      case s1: (Inr st)
      obtain n1 sk1 cs1 os1 where st: "st = (n1, sk1, cs1, os1)" by (cases st)
      show thesis
      proof (cases "scan_uploads v cutoff (nat limit) RevisionUpload (upload_staging (pd_root p)) (upload_staging (pd_root p)) st")
        case (Inl x)
        then have "p' = p" using assms ok s1 unfolding expire_transfers_def Let_def by (simp split: prod.splits)
        then show thesis by (rule that(1))
      next
        case s2: (Inr st2)
        obtain n2 sk2 cs os where st2: "st2 = (n2, sk2, cs, os)" by (cases st2)
        let ?ex = "(no_expiry ''planned'')\<lparr>ex_scanned := n2, ex_skipped := sk2\<rparr>"
        obtain ex2 r' where parts: "expire_parts v apply_it ?refs cs ?ex (pd_root p) = (ex2, r')" by fastforce
        obtain r'' where "p' = p\<lparr>pd_root := r''\<rparr>" "r'' = r' \<or> (\<exists>e res2. expire_orphans v apply_it os e r' = (res2, r''))"
          using assms ok s1 s2 st2 parts unfolding expire_transfers_def Let_def
          by (cases ex2; cases "expire_orphans v apply_it os (projr ex2) r'"; cases "fst (expire_orphans v apply_it os (projr ex2) r')") auto
        then show thesis using that(2) ok s1 [unfolded st] s2 [unfolded st st2] parts by blast
      qed
    qed
  qed
qed

text \<open>
  C10: Expiry deletes nothing but abandoned uploads. Whatever it reports, also when it fails half-way, the catalog, the
  stored objects, the markers and the fence are untouched, and each entry of a staging directory is
  either unchanged or was abandoned: an old partial with one link, or its lock, whose object was never published
  and which no raw source of the catalog refers to, whose lock is not held, or an old empty unheld lock
  without a partial. Without the apply flag, on a fenced primary and while any writer is active, nothing
  changes at all.
\<close>

theorem expiry_removes_only_abandoned:
  assumes "expire_transfers v valid_days cutoff apply_it limit p = (res, p')"
  shows "only_removed (abandoned v cutoff p) (pd_root p) (pd_root p') \<and> p' = p\<lparr>pd_root := pd_root p'\<rparr>
    \<and> (\<not> apply_it \<or> \<not> valid_days \<or> is_fenced (pd_root p) \<or> 0 < pd_writers p \<longrightarrow> p' = p)"
  using assms
proof (cases rule: expire_transfers_cases)
  case (2 n1 sk1 cs1 os1 n2 sk2 cs os referenced ex ex2 r' r'')
  note old = two_scans [OF 2(4,5)]
  have "only_removed (part_reason v referenced (pd_root p) (set cs)) (pd_root p) r'" and dry: "\<not> apply_it \<longrightarrow> r' = pd_root p"
    using expire_parts_effect [OF 2(6)] by blast+
  then have a: "only_removed (abandoned v cutoff p) (pd_root p) r'"
    using only_removed_weaken abandoned_part old 2(3) by metis
  have b: "only_removed (abandoned v cutoff p) r' r'' \<and> (\<not> apply_it \<longrightarrow> r'' = r')"
    using 2(8)
  proof (elim disjE exE)
    fix e res2 assume "expire_orphans v apply_it os e r' = (res2, r'')"
    from expire_orphans_effect [OF this] show ?thesis using only_removed_weaken abandoned_lock old by metis
  qed simp
  from only_removed_trans [OF a] b dry 2(1,2,7) show ?thesis by auto
qed simp


text \<open>An old partial and its lock in an otherwise empty primary; both are removed.\<close>

definition old_upload :: pystr where
  "old_upload = replicate 64 48 @ lit ''-'' @ replicate 64 48"

definition littered_primary :: primary_dir where
  "littered_primary = sample_primary\<lparr>pd_root := empty_root\<lparr>raw_staging :=
     [(old_upload @ lit ''.part'', File [65]), (old_upload @ lit ''.lock'', File [])]\<rparr>\<rparr>"

definition sample_view :: "nat file_view" where
  "sample_view = \<lparr>fv_mtime = \<lambda>_ _. 0, fv_single = \<lambda>_ _. True, fv_locked = \<lambda>_ _. False, fv_steady = \<lambda>_ _. True\<rparr>"

lemma expiry_removes_only_abandoned_witness:
  "only_removed (abandoned sample_view 1 littered_primary) (pd_root littered_primary)
      (pd_root (snd (expire_transfers sample_view True 1 True 10 littered_primary)))
    \<and> raw_staging (pd_root (snd (expire_transfers sample_view True 1 True 10 littered_primary))) = []"
proof
  let ?x = "expire_transfers sample_view True 1 True 10 littered_primary"
  have "?x = (fst ?x, snd ?x)" by simp
  from expiry_removes_only_abandoned [OF this]
  show "only_removed (abandoned sample_view 1 littered_primary) (pd_root littered_primary) (pd_root (snd ?x))" by blast
  show "raw_staging (pd_root (snd ?x)) = []" by code_simp
qed

end
