(* ===== verification/Backups.thy ===== *)
theory Backups
  imports Replicas Delivery
begin

text \<open>
  Backups of recovery snapshots (\<open>storage/backups.py\<close>) and the cycle that retries one snapshot until
  every configured repository has it (\<open>storage/backup_cycle.py\<close>). The backup program is foreign code: its
  commands are the fields of \<open>archives\<close>, operations on a world of repositories. A backup counts only
  after a full restore that verifies. The main results: a cycle that reports \<open>restore_verified\<close>
  is right about every repository, also where it relies on receipts of earlier cycles, and a failing
  repository neither hides another's success nor loses the pending snapshot.
\<close>

section \<open>Repositories\<close>

record repository =
  re_name :: pystr
  re_url :: pystr
  re_password :: pystr
  re_scratch :: "pystr option"

text \<open>
  The interpreter's parameters and the commands: \<open>cat config\<close>, \<open>backup\<close> of a directory at a path with a
  tag, \<open>restore\<close> of a backup, of which the directory at the given path is looked at, and \<open>stats\<close>; their
  outputs are decoded JSON. \<open>ar_free\<close> is the free space of the file system for restores.
\<close>

record 'w archives =
  ar_utc :: "pystr \<Rightarrow> pystr result"
  ar_hash :: "bytes \<Rightarrow> pystr"
  ar_sqlite :: sqlite
  ar_config :: "repository \<Rightarrow> ('w, json) op"
  ar_backup :: "repository \<Rightarrow> snapshot \<Rightarrow> pystr \<Rightarrow> pystr \<Rightarrow> ('w, json list) op"
  ar_restore :: "repository \<Rightarrow> pystr \<Rightarrow> pystr \<Rightarrow> ('w, snapshot) op"
  ar_stats :: "repository \<Rightarrow> pystr \<Rightarrow> ('w, json) op"
  ar_free :: "repository \<Rightarrow> 'w \<Rightarrow> int"

definition ar_verify :: "('w, 'm) archives_scheme \<Rightarrow> snapshot \<Rightarrow> verified result" where
  "ar_verify ar sn = verify_snapshot (ar_utc ar) (ar_hash ar) (ar_sqlite ar) sn"

text \<open>\<open>value[key]\<close> of a decoded value, and an operation that only computes.\<close>

definition subscript :: "json \<Rightarrow> string \<Rightarrow> json result" where
  "subscript v k = (case v of JObj d \<Rightarrow> item d k | _ \<Rightarrow> Inl (TypeError ''not subscriptable''))"

definition pure :: "'a result \<Rightarrow> ('s, 'a) op" where
  "pure x s = (x, s)"

text \<open>The configured names are unique; decoding the configuration file is the argument.\<close>

definition load_repositories :: "repository list result \<Rightarrow> repository list result" where
  "load_repositories rows = bindR rows (\<lambda>repos. if distinct (map re_name repos) then Inr repos
     else Inl (ValueError ''backup repository names must be unique''))"

section \<open>One backup\<close>

text \<open>The last message of type \<open>summary\<close>, looked for from the end.\<close>

fun last_summary :: "json list \<Rightarrow> json result" where
  "last_summary [] = Inr JNull"
| "last_summary (row # rows) = bindR (as_dict row) (\<lambda>d.
     if member d ''message_type'' = JStr (lit ''summary'') then Inr (member d ''snapshot_id'') else last_summary rows)"

definition verify_restore :: "('w, 'm) archives_scheme \<Rightarrow> repository \<Rightarrow> pystr \<Rightarrow> pystr \<Rightarrow> pystr \<Rightarrow> ('w, verified) op" where
  "verify_restore ar repo backup_id path expected =
     bindS (ar_restore ar repo backup_id path) (\<lambda>restored. pure (bindR (ar_verify ar restored) (\<lambda>v.
       if vf_purpose v \<noteq> JStr (lit ''recovery'') then Inl (ValueError ''restored snapshot is not a recovery backup'')
       else if vf_snapshot v \<noteq> expected then Inl (ValueError ''restored snapshot differs from the required revision set'')
       else Inr v)))"

definition backup_receipt :: "repository \<Rightarrow> json \<Rightarrow> pystr \<Rightarrow> pystr \<Rightarrow> pystr \<Rightarrow> document" where
  "backup_receipt repo repo_id backup_id snapshot path = [(lit ''version'', JInt 1), (lit ''repository'', JStr (re_name repo)),
     (lit ''repository_id'', repo_id), (lit ''backup_id'', JStr backup_id), (lit ''snapshot'', JStr snapshot),
     (lit ''source_path'', JStr path), (lit ''status'', JStr (lit ''restore_verified''))]"

definition backup_and_verify :: "('w, 'm) archives_scheme \<Rightarrow> repository \<Rightarrow> pystr \<Rightarrow> snapshot \<Rightarrow> ('w, document) op" where
  "backup_and_verify ar repo path sn =
     bindS (pure (ar_verify ar sn)) (\<lambda>expected.
     if vf_purpose expected \<noteq> JStr (lit ''recovery'')
     then pure (Inl (ValueError ''search-only replicas are not recovery backup inputs'')) else
     bindS (ar_backup ar repo sn path (vf_snapshot expected)) (\<lambda>messages.
     bindS (pure (last_summary (rev messages))) (\<lambda>backup_id.
     if \<not> truthy backup_id then pure (Inl (RuntimeError ''backup did not return a completed snapshot'')) else
     (case backup_id of
        JStr key \<Rightarrow>
          bindS (verify_restore ar repo key path (vf_snapshot expected)) (\<lambda>_.
          bindS (ar_config ar repo) (\<lambda>config. pure (bindR (subscript config ''id'') (\<lambda>repo_id.
            Inr (backup_receipt repo repo_id key (vf_snapshot expected) path)))))
      | _ \<Rightarrow> pure (Inl (TypeError ''expected str, bytes or os.PathLike object''))))))"

section \<open>Restoring a backup\<close>

text \<open>The components of a path; empty ones and dots are dropped. Two leading slashes are a root of their own.\<close>

definition is_absolute :: "pystr \<Rightarrow> bool" where
  "is_absolute p \<longleftrightarrow> take 1 p = [47]"

definition path_parts :: "pystr \<Rightarrow> pystr list" where
  "path_parts p = filter (\<lambda>c. c \<noteq> [] \<and> c \<noteq> [46]) (split_char 47 p)"

definition is_root :: "pystr \<Rightarrow> bool" where
  "is_root p \<longleftrightarrow> is_absolute p \<and> path_parts p = [] \<and> (take 2 p = [47, 47] \<longrightarrow> take 3 p = [47, 47, 47])"

definition receipt_path :: "document \<Rightarrow> pystr result" where
  "receipt_path d = (case field_or d ''source_path'' (JStr []) of
       JStr p \<Rightarrow> if \<not> is_absolute p \<or> [46, 46] \<in> set (path_parts p) \<or> is_root p
         then Inl (ValueError ''invalid backup source path'') else Inr p
     | _ \<Rightarrow> Inl (TypeError ''expected str, bytes or os.PathLike object''))"

definition is_hex_str :: "json \<Rightarrow> bool" where
  "is_hex_str v = (case v of JStr s \<Rightarrow> is_hex 64 s | _ \<Rightarrow> False)"

definition receipt_ids_ok :: "document \<Rightarrow> bool" where
  "receipt_ids_ok d \<longleftrightarrow> is_hex_str (member d ''repository_id'') \<and> is_hex_str (member d ''backup_id'') \<and> is_hex_str (member d ''snapshot'')"

definition says_verified :: "document \<Rightarrow> bool" where
  "says_verified d \<longleftrightarrow> py_eq (member d ''version'') (JInt 1) \<and> member d ''status'' = JStr (lit ''restore_verified'')"

text \<open>The destination is published by a rename; the state is the world and the destination.\<close>

definition restore_backup :: "('w, 'm) archives_scheme \<Rightarrow> repository \<Rightarrow> document \<Rightarrow> ('w \<times> snapshot option, verified) op" where
  "restore_backup ar repo receipt st = (case st of (w, dest) \<Rightarrow>
     if \<not> says_verified receipt then (Inl (ValueError ''a verified version 1 backup receipt is required''), st)
     else if member receipt ''repository'' \<noteq> JStr (re_name repo) then (Inl (ValueError ''receipt belongs to another repository''), st)
     else if \<not> receipt_ids_ok receipt then (Inl (ValueError ''invalid backup receipt identity''), st)
     else (case receipt_path receipt of
       Inl e \<Rightarrow> (Inl e, st)
     | Inr path \<Rightarrow>
         if dest \<noteq> None then (Inl (FileExistsError ''restore destination already exists''), st)
         else (case ar_config ar repo w of
           (Inl e, w) \<Rightarrow> (Inl e, w, dest)
         | (Inr config, w) \<Rightarrow> (case as_dict config of
             Inl e \<Rightarrow> (Inl e, w, dest)
           | Inr c \<Rightarrow>
               if member c ''id'' \<noteq> member receipt ''repository_id''
               then (Inl (ValueError ''backup repository identity changed''), w, dest)
               else (case ar_restore ar repo (str_of (member receipt ''backup_id'')) path w of
                 (Inl e, w) \<Rightarrow> (Inl e, w, dest)
               | (Inr restored, w) \<Rightarrow> (case ar_verify ar restored of
                   Inl e \<Rightarrow> (Inl e, w, dest)
                 | Inr v \<Rightarrow>
                     if vf_purpose v \<noteq> JStr (lit ''recovery'') \<or> JStr (vf_snapshot v) \<noteq> member receipt ''snapshot''
                     then (Inl (ValueError ''restored snapshot differs from the required recovery evidence''), w, dest)
                     else (Inr v, w, Some restored)))))))"

section \<open>Backups without a cycle\<close>

fun mapS :: "('a \<Rightarrow> ('s, 'b) op) \<Rightarrow> 'a list \<Rightarrow> ('s, 'b list) op" where
  "mapS f [] = pure (Inr [])"
| "mapS f (x # xs) = bindS (f x) (\<lambda>y. bindS (mapS f xs) (\<lambda>ys. pure (Inr (y # ys))))"

text \<open>The elements of a set of decoded values are hashable; \<open>len({...}) == len(xs)\<close>.\<close>

definition all_distinct :: "json list \<Rightarrow> bool result" where
  "all_distinct xs = (if \<exists>x \<in> set xs. unhashable x then Inl (TypeError ''unhashable type'')
     else Inr (distinct (map numbers xs)))"

definition completed :: "document list \<Rightarrow> document" where
  "completed receipts = [(lit ''version'', JInt 1), (lit ''status'', JStr (lit ''restore_verified'')),
     (lit ''receipts'', JList (map JObj receipts))]"

definition backup_all :: "('w, 'm) archives_scheme \<Rightarrow> pystr \<Rightarrow> snapshot \<Rightarrow> repository list \<Rightarrow> ('w \<times> document option, document) op" where
  "backup_all ar path sn repos st = (case st of (w, receipt_file) \<Rightarrow>
     if length repos < 2 then (Inl (ValueError ''this durability policy requires two backup repositories''), st)
     else (case mapS (\<lambda>r. backup_and_verify ar r path sn) repos w of
         (Inl e, w) \<Rightarrow> (Inl e, w, receipt_file)
       | (Inr receipts, w) \<Rightarrow> (case all_distinct (map (\<lambda>d. member d ''repository_id'') receipts) of
             Inl e \<Rightarrow> (Inl e, w, receipt_file)
           | Inr ok \<Rightarrow>
               if \<not> ok then (Inl (ValueError ''backup destinations must be distinct repositories''), w, receipt_file)
               else if receipt_file \<noteq> None then (Inl (FileExistsError ''File exists''), w, receipt_file)
               else (Inr (completed receipts), w, Some (completed receipts)))))"

section \<open>The outbox of a backup cycle\<close>

text \<open>
  The directory of a cycle: \<open>state.json\<close>, the pending snapshot, a retired one that is being deleted
  (\<open>Some True\<close> for a link), unpublished staging, the completed receipts by snapshot, \<open>latest.json\<close> and
  \<open>status.json\<close>, other entries; and the summary that is written beside the catalog.
\<close>

record backup_box =
  ob_linked :: bool
  ob_state :: "json option"
  ob_state_linked :: bool
  ob_pending :: "snapshot option"
  ob_pending_linked :: bool
  ob_retired :: "bool option"
  ob_staging :: bool
  ob_receipts :: "(pystr \<times> json) list"
  ob_latest :: "json option"
  ob_status :: "json option"
  ob_strays :: bool
  ob_summary :: "json option"

definition new_outbox :: backup_box where
  "new_outbox = \<lparr>ob_linked = False, ob_state = None, ob_state_linked = False, ob_pending = None, ob_pending_linked = False,
     ob_retired = None, ob_staging = False, ob_receipts = [], ob_latest = None, ob_status = None, ob_strays = False,
     ob_summary = None\<rparr>"

definition outbox_empty :: "backup_box \<Rightarrow> bool" where
  "outbox_empty ob \<longleftrightarrow> ob_pending ob = None \<and> \<not> ob_pending_linked ob \<and> ob_retired ob = None \<and> \<not> ob_staging ob \<and> ob_receipts ob = []
     \<and> ob_latest ob = None \<and> ob_status ob = None \<and> \<not> ob_strays ob"

definition put_member :: "string \<Rightarrow> json \<Rightarrow> document \<Rightarrow> document" where
  "put_member k v d = AList.update (lit k) v d"

definition binding_of :: "(bytes \<Rightarrow> pystr) \<Rightarrow> pystr \<Rightarrow> repository list \<Rightarrow> pystr" where
  "binding_of H source repos = json_digest H (JObj [(lit ''source'', JStr source), (lit ''repositories'', JList (map (\<lambda>r.
     JList [JStr (re_name r), JStr (re_url r), JStr (re_password r),
       JStr (case re_scratch r of None \<Rightarrow> lit ''None'' | Some p \<Rightarrow> p)]) repos))])"

definition load_state :: "pystr \<Rightarrow> (backup_box, document) op" where
  "load_state binding ob =
     (if ob_state_linked ob then (Inl (ValueError ''invalid backup state''), ob) else
      case ob_state ob of
        Some v \<Rightarrow> (case as_dict v of
            Inl e \<Rightarrow> (Inl e, ob)
          | Inr d \<Rightarrow> if \<not> py_eq (member d ''version'') (JInt 1) \<or> member d ''binding'' \<noteq> JStr binding
              then (Inl (ValueError ''backup outbox belongs to another configuration''), ob) else (Inr d, ob))
      | None \<Rightarrow>
          if \<not> outbox_empty ob then (Inl (ValueError ''new backup outbox must be empty''), ob)
          else let d = [(lit ''version'', JInt 1), (lit ''binding'', JStr binding), (lit ''receipts'', JObj [])] in
            (Inr d, ob\<lparr>ob_state := Some (JObj d)\<rparr>))"

text \<open>The member \<open>receipts\<close> of the state, its entry for a repository, and the entries of all repositories.\<close>

definition state_receipts :: "document \<Rightarrow> document result" where
  "state_receipts d = bindR (item d ''receipts'') as_dict"

definition cached_receipt :: "document \<Rightarrow> pystr \<Rightarrow> json result" where
  "cached_receipt d name = bindR (state_receipts d) (\<lambda>rs. Inr (case map_of rs name of None \<Rightarrow> JNull | Some v \<Rightarrow> v))"

definition all_receipts :: "repository list \<Rightarrow> document \<Rightarrow> json list result" where
  "all_receipts repos d = mapR (\<lambda>r. bindR (state_receipts d) (\<lambda>rs.
     case map_of rs (re_name r) of None \<Rightarrow> Inl (KeyError ''receipt'') | Some v \<Rightarrow> Inr v)) repos"

definition completed_json :: "json list \<Rightarrow> document" where
  "completed_json receipts = [(lit ''version'', JInt 1), (lit ''status'', JStr (lit ''restore_verified'')),
     (lit ''receipts'', JList receipts)]"

text \<open>A retired snapshot that a crash left half deleted is removed on the authority of its completed receipt.\<close>

definition clear_retired :: "repository list \<Rightarrow> document \<Rightarrow> (backup_box, unit) op" where
  "clear_retired repos d ob = (case ob_retired ob of
       None \<Rightarrow> (Inr (), ob)
     | Some is_link \<Rightarrow>
         if \<not> is_hex_str (member d ''snapshot'') then (Inl (ValueError ''invalid retired snapshot identity''), ob)
         else (case all_receipts repos d of
           Inl e \<Rightarrow> (Inl e, ob)
         | Inr receipts \<Rightarrow>
             if is_link then (Inl (ValueError ''retired snapshot lacks a matching completed receipt''), ob)
             else (case map_of (ob_receipts ob) (str_of (member d ''snapshot'')) of
               None \<Rightarrow> (Inl (FileNotFoundError ''No such file or directory''), ob)
             | Some v \<Rightarrow> if \<not> py_eq v (JObj (completed_json receipts))
                 then (Inl (ValueError ''retired snapshot lacks a matching completed receipt''), ob)
                 else (Inr (), ob\<lparr>ob_retired := None\<rparr>))))"

section \<open>Results\<close>

definition deferred_doc :: document where
  "deferred_doc = [(lit ''version'', JInt 1), (lit ''status'', JStr (lit ''deferred'')),
     (lit ''reason'', JStr (lit ''interrupted_snapshot_staging''))]"

text \<open>\<open>capacity\<close> of \<open>replication.py\<close>, given the free space.\<close>

definition has_capacity :: "int \<Rightarrow> int \<Rightarrow> int \<Rightarrow> bool" where
  "has_capacity free incoming reserve \<longleftrightarrow> incoming + reserve \<le> free"

definition capacity_doc :: "int \<Rightarrow> int \<Rightarrow> int \<Rightarrow> document" where
  "capacity_doc free incoming reserve = [(lit ''version'', JInt 1),
     (lit ''status'', JStr (if has_capacity free incoming reserve then lit ''ready'' else lit ''deferred'')),
     (lit ''reason'', JStr (lit ''capacity'')), (lit ''free_bytes'', JInt free), (lit ''incoming_bytes'', JInt incoming),
     (lit ''reserve_bytes'', JInt reserve)]"

definition destinations :: "document \<Rightarrow> nat" where
  "destinations d = (case field_or d ''receipts'' (field_or d ''verified_destinations'' (JList [])) of
     JList xs \<Rightarrow> length xs | _ \<Rightarrow> 0)"

definition result_snapshot :: "document \<Rightarrow> document result" where
  "result_snapshot d = (if truthy (member d ''snapshot'') then Inr [(lit ''snapshot'', member d ''snapshot'')]
     else if truthy (member d ''receipts'') then
       (case member d ''receipts'' of
          JList (x # _) \<Rightarrow> bindR (subscript x ''snapshot'') (\<lambda>s. Inr [(lit ''snapshot'', s)])
        | _ \<Rightarrow> Inl (TypeError ''not subscriptable''))
     else Inr [])"

definition record_result :: "pystr \<Rightarrow> nat \<Rightarrow> json \<Rightarrow> document \<Rightarrow> (backup_box, document) op" where
  "record_result now required pub d ob = (case result_snapshot d of
       Inl e \<Rightarrow> (Inl e, ob)
     | Inr sn \<Rightarrow> (Inr d, ob\<lparr>ob_status := Some (JObj (put_member ''completed_at'' (JStr now) d)),
         ob_summary := Some (JObj ([(lit ''version'', JInt 1), (lit ''status'', member d ''status''), (lit ''completed_at'', JStr now),
           (lit ''required_destinations'', JInt (int required)), (lit ''verified_destinations'', JInt (int (destinations d)))]
           @ (if truthy pub then [(lit ''publication'', pub)] else []) @ sn))\<rparr>))"

section \<open>The repositories of a cycle\<close>

record 'w cycle =
  cy_world :: 'w
  cy_box :: backup_box
  cy_state :: document
  cy_known :: "json list"
  cy_confirmed :: "pystr list"
  cy_failures :: "(pystr \<times> string) list"

definition on_world :: "('w, 'a) op \<Rightarrow> ('w cycle, 'a) op" where
  "on_world f s = (case f (cy_world s) of (res, w) \<Rightarrow> (res, s\<lparr>cy_world := w\<rparr>))"

definition looking :: "('w cycle \<Rightarrow> 'a result) \<Rightarrow> ('w cycle, 'a) op" where
  "looking f s = (f s, s)"

definition updating :: "('w cycle \<Rightarrow> 'w cycle) \<Rightarrow> ('w cycle, unit) op" where
  "updating f s = (Inr (), f s)"

definition confirm :: "pystr \<Rightarrow> 'w cycle \<Rightarrow> 'w cycle" where
  "confirm name s = s\<lparr>cy_confirmed := cy_confirmed s @ [name]\<rparr>"

definition fail_with :: "pystr \<Rightarrow> string \<Rightarrow> 'w cycle \<Rightarrow> 'w cycle" where
  "fail_with name reason s = s\<lparr>cy_failures := cy_failures s @ [(name, reason)]\<rparr>"

text \<open>The receipt is put into the state, and the state is saved.\<close>

definition store_receipt :: "pystr \<Rightarrow> document \<Rightarrow> ('w cycle, unit) op" where
  "store_receipt name receipt s = (case state_receipts (cy_state s) of
       Inl e \<Rightarrow> (Inl e, s)
     | Inr rs \<Rightarrow> let d = put_member ''receipts'' (JObj (AList.update name (JObj receipt) rs)) (cy_state s) in
         (Inr (), s\<lparr>cy_state := d, cy_box := (cy_box s)\<lparr>ob_state := Some (JObj d)\<rparr>\<rparr>))"

definition check_cached :: "json \<Rightarrow> json \<Rightarrow> pystr \<Rightarrow> repository \<Rightarrow> pystr \<Rightarrow> unit result" where
  "check_cached receipt repo_id snapshot repo path =
     bindR (subscript receipt ''repository_id'') (\<lambda>i.
     if \<not> py_eq i repo_id then Inl (ValueError ''backup repository identity changed'') else
     bindR (as_dict receipt) (\<lambda>d.
     if member d ''snapshot'' \<noteq> JStr snapshot \<or> member d ''status'' \<noteq> JStr (lit ''restore_verified'')
       \<or> member d ''repository'' \<noteq> JStr (re_name repo) \<or> member d ''source_path'' \<noteq> JStr path
     then Inl (ValueError ''cached backup receipt does not match pending work'') else Inr ()))"

definition fresh_backup :: "('w, 'm) archives_scheme \<Rightarrow> pystr \<Rightarrow> snapshot \<Rightarrow> pystr \<Rightarrow> json \<Rightarrow> repository \<Rightarrow> ('w cycle, unit) op" where
  "fresh_backup ar path sn snapshot repo_id repo =
     bindS (on_world (backup_and_verify ar repo path sn)) (\<lambda>d.
     if member d ''snapshot'' \<noteq> JStr snapshot \<or> \<not> py_eq (member d ''repository_id'') repo_id
       \<or> member d ''status'' \<noteq> JStr (lit ''restore_verified'')
     then pure (Inl (ValueError ''backup acknowledgement changed identity''))
     else bindS (store_receipt (re_name repo) d) (\<lambda>_. updating (confirm (re_name repo))))"

definition try_repository :: "('w, 'm) archives_scheme \<Rightarrow> pystr \<Rightarrow> snapshot \<Rightarrow> pystr \<Rightarrow> int \<Rightarrow> int \<Rightarrow> repository \<Rightarrow> ('w cycle, unit) op" where
  "try_repository ar path sn snapshot required reserve repo =
     bindS (on_world (ar_config ar repo)) (\<lambda>config.
     bindS (pure (subscript config ''id'')) (\<lambda>repo_id.
     bindS (looking (\<lambda>s. in_set repo_id (cy_known s))) (\<lambda>known.
     if known then pure (Inl (ValueError ''backup repositories are not independent'')) else
     bindS (updating (\<lambda>s. s\<lparr>cy_known := cy_known s @ [repo_id]\<rparr>)) (\<lambda>_.
     bindS (looking (\<lambda>s. cached_receipt (cy_state s) (re_name repo))) (\<lambda>receipt.
     if truthy receipt
     then bindS (pure (check_cached receipt repo_id snapshot repo path)) (\<lambda>_. updating (confirm (re_name repo)))
     else bindS (looking (\<lambda>s. Inr (has_capacity (ar_free ar repo (cy_world s)) required reserve))) (\<lambda>room.
       if \<not> room then updating (fail_with (re_name repo) ''restore_capacity'')
       else fresh_backup ar path sn snapshot repo_id repo))))))"

text \<open>The exceptions that are reported instead of raised; of the others \<open>TypeError\<close> can occur.\<close>

definition is_reported :: "exn \<Rightarrow> bool" where
  "is_reported e \<longleftrightarrow> is_value_error e \<or> is_os_error e \<or> (case e of RuntimeError _ \<Rightarrow> True | KeyError _ \<Rightarrow> True | _ \<Rightarrow> False)"

definition exn_name :: "exn \<Rightarrow> string" where
  "exn_name e = (case e of ValueError _ \<Rightarrow> ''ValueError'' | PermissionError _ \<Rightarrow> ''PermissionError'' | KeyError _ \<Rightarrow> ''KeyError''
     | TypeError _ \<Rightarrow> ''TypeError'' | OSError _ \<Rightarrow> ''OSError'' | FileExistsError _ \<Rightarrow> ''FileExistsError''
     | FileNotFoundError _ \<Rightarrow> ''FileNotFoundError'' | RuntimeError _ \<Rightarrow> ''RuntimeError'' | WriteFenced _ \<Rightarrow> ''WriteFenced''
     | DatabaseError _ \<Rightarrow> ''DatabaseError'' | AttributeError _ \<Rightarrow> ''AttributeError'' | UnicodeDecodeError \<Rightarrow> ''UnicodeDecodeError''
     | HTTPException _ _ \<Rightarrow> ''HTTPException'' | RemoteError _ \<Rightarrow> ''RemoteError'' | OffsetConflict \<Rightarrow> ''OffsetConflict''
     | SourceChangedError \<Rightarrow> ''SourceChangedError'')"

fun try_repositories :: "('w, 'm) archives_scheme \<Rightarrow> pystr \<Rightarrow> snapshot \<Rightarrow> pystr \<Rightarrow> int \<Rightarrow> int \<Rightarrow> repository list \<Rightarrow> ('w cycle, unit) op" where
  "try_repositories ar path sn snapshot required reserve [] s = (Inr (), s)"
| "try_repositories ar path sn snapshot required reserve (repo # repos) s =
     (case try_repository ar path sn snapshot required reserve repo s of
        (Inr _, s) \<Rightarrow> try_repositories ar path sn snapshot required reserve repos s
      | (Inl e, s) \<Rightarrow> if is_reported e
          then try_repositories ar path sn snapshot required reserve repos (fail_with (re_name repo) (exn_name e) s)
          else (Inl e, s))"

section \<open>A cycle\<close>

text \<open>The bytes that a restore of the snapshot needs, from the manifest.\<close>

definition manifest_bytes :: "snapshot \<Rightarrow> int result" where
  "manifest_bytes sn = bindR (read_json (sn_manifest sn)) (\<lambda>v. bindR (subscript v ''raw_objects'') (\<lambda>objs. case objs of
       JList xs \<Rightarrow> bindR (mapR (\<lambda>x. bindR (subscript x ''size'') (\<lambda>n. case int_of n of
           None \<Rightarrow> Inl (TypeError ''unsupported operand'') | Some i \<Rightarrow> Inr i)) xs) (\<lambda>ns.
         Inr (int (length (the (sn_file sn))) + sum_list ns))
     | _ \<Rightarrow> Inl (TypeError ''not iterable'')))"

text \<open>
  A new pending snapshot is made from the catalog when there is none and the outbox has room for it;
  \<open>Inl\<close> carries the result that ends the cycle.
\<close>

record source =
  so_path :: pystr
  so_database :: database
  so_root :: data_root
  so_bytes :: int

definition raw_bytes :: "catalog \<Rightarrow> int" where
  "raw_bytes ct = int (sum_list (map snd (raw_objects ct)))"

definition make_pending :: "('w, 'm) archives_scheme \<Rightarrow> pystr \<Rightarrow> int \<Rightarrow> int \<Rightarrow> source \<Rightarrow> document \<Rightarrow> (backup_box, document + document) op" where
  "make_pending ar now free reserve so d ob =
     (if ob_pending ob \<noteq> None then (Inr (Inr d), ob)
      else let required = 2 * (raw_bytes (db_catalog (so_database so)) + so_bytes so) in
        if \<not> has_capacity free required reserve
        then (Inr (Inl (capacity_doc free required reserve @ [(lit ''stage'', JStr (lit ''recovery_snapshot''))])), ob)
        else (case create_snapshot (ar_utc ar) (ar_hash ar) (ar_sqlite ar) now False (so_database so) (so_root so) None of
          (Inl e, sn) \<Rightarrow> (Inl e, ob\<lparr>ob_pending := sn\<rparr>)
        | (Inr _, sn) \<Rightarrow> (Inr (Inr (put_member ''receipts'' (JObj []) d)), ob\<lparr>ob_pending := sn\<rparr>)))"

definition failure_doc :: "pystr \<times> string \<Rightarrow> json" where
  "failure_doc f = JObj [(lit ''repository'', JStr (fst f)), (lit ''reason'', JStr (lit (snd f)))]"

definition partial_doc :: "pystr \<Rightarrow> pystr list \<Rightarrow> (pystr \<times> string) list \<Rightarrow> document" where
  "partial_doc snapshot confirmed failures = [(lit ''version'', JInt 1), (lit ''status'', JStr (lit ''partial'')),
     (lit ''snapshot'', JStr snapshot), (lit ''verified_destinations'', JList (map JStr (sort confirmed))),
     (lit ''failures'', JList (map failure_doc failures))]"

text \<open>The end of a cycle: a partial result, or the completed receipt; the snapshot is then retired and removed.\<close>

definition finish_cycle :: "pystr \<Rightarrow> verified \<Rightarrow> repository list \<Rightarrow> 'w cycle \<Rightarrow> document result \<times> backup_box" where
  "finish_cycle receipt_name v repos s =
     (let ob = cy_box s in
      if cy_failures s \<noteq> [] then (Inr (partial_doc (vf_snapshot v) (cy_confirmed s) (cy_failures s)), ob)
      else (case all_receipts repos (cy_state s) of
        Inl e \<Rightarrow> (Inl e, ob)
      | Inr receipts \<Rightarrow> (let d = completed_json receipts in
          case (case map_of (ob_receipts ob) (vf_snapshot v) of
              Some x \<Rightarrow> if \<not> py_eq x (JObj d) then Inl (ValueError ''completed backup receipt differs'') else Inr ob
            | None \<Rightarrow> Inr (ob\<lparr>ob_receipts := AList.update (vf_snapshot v) (JObj d) (ob_receipts ob)\<rparr>)) of
            Inl e \<Rightarrow> (Inl e, ob)
          | Inr ob \<Rightarrow> (Inr (put_member ''receipt'' (JStr receipt_name) d),
              ob\<lparr>ob_latest := Some (JObj d), ob_pending := None\<rparr>))))"

text \<open>A cycle with a pending snapshot: verification, all repositories, the result.\<close>

definition run_pending :: "('w, 'm) archives_scheme \<Rightarrow> pystr \<Rightarrow> pystr \<Rightarrow> pystr \<Rightarrow> int \<Rightarrow> repository list \<Rightarrow> document \<Rightarrow> snapshot
    \<Rightarrow> ('w \<times> backup_box, document) op" where
  "run_pending ar now path receipt_name reserve repos d sn st = (case st of (w, ob) \<Rightarrow>
     (case ar_verify ar sn of
        Inl e \<Rightarrow> (Inl e, st)
      | Inr v \<Rightarrow>
          if vf_purpose v \<noteq> JStr (lit ''recovery'') then (Inl (ValueError ''backup cycle requires a recovery snapshot''), st)
          else let d = (if member d ''snapshot'' \<noteq> JStr (vf_snapshot v)
              then put_member ''receipts'' (JObj []) (put_member ''snapshot'' (JStr (vf_snapshot v)) d) else d);
              ob = ob\<lparr>ob_state := Some (JObj d)\<rparr> in
            (case manifest_bytes sn of
               Inl e \<Rightarrow> (Inl e, w, ob)
             | Inr required \<Rightarrow> (case try_repositories ar path sn (vf_snapshot v) required reserve repos
                   \<lparr>cy_world = w, cy_box = ob, cy_state = d, cy_known = [], cy_confirmed = [], cy_failures = []\<rparr> of
                 (Inl e, s) \<Rightarrow> (Inl e, cy_world s, cy_box s)
               | (Inr _, s) \<Rightarrow> (case finish_cycle receipt_name v repos s of
                   (Inl e, ob) \<Rightarrow> (Inl e, cy_world s, ob)
                 | (Inr res, ob) \<Rightarrow> (case record_result now (length repos) (vf_publication v) res ob of
                     (res, ob) \<Rightarrow> (res, cy_world s, ob)))))))"

definition backup_cycle :: "('w, 'm) archives_scheme \<Rightarrow> pystr \<Rightarrow> pystr \<Rightarrow> pystr \<Rightarrow> bool \<Rightarrow> bool \<Rightarrow> int \<Rightarrow> int \<Rightarrow> source \<Rightarrow> repository list
    \<Rightarrow> ('w \<times> backup_box, document) op" where
  "backup_cycle ar now path receipt_name separate busy free reserve so repos st = (case st of (w, ob) \<Rightarrow>
     if length repos < 2 \<or> \<not> distinct (map re_name repos)
     then (Inl (ValueError ''two distinct named backup destinations are required''), st)
     else if reserve < 0 then (Inl (ValueError ''backup reserve must be nonnegative''), st)
     else if has_current (so_root so) \<or> has_manifest (so_root so)
     then (Inl (ValueError ''backup cycles require the authoritative catalog, not a snapshot or replica''), st)
     else if ob_linked ob then (Inl (ValueError ''backup outbox must not be a symlink''), st)
     else if \<not> separate then (Inl (ValueError ''backup outbox must be separate from source''), st)
     else if busy then (Inr [(lit ''version'', JInt 1), (lit ''status'', JStr (lit ''coalesced''))], st)
     else (case bindS (load_state (binding_of (ar_hash ar) (so_path so) repos)) (\<lambda>d.
           bindS (clear_retired repos d) (\<lambda>_. pure (Inr d))) ob of
         (Inl e, ob) \<Rightarrow> (Inl e, w, ob)
       | (Inr d, ob) \<Rightarrow>
           if ob_pending_linked ob then (Inl (ValueError ''invalid pending snapshot''), w, ob)
           else if ob_staging ob then (case record_result now (length repos) JNull deferred_doc ob of (res, ob) \<Rightarrow> (res, w, ob))
           else (case make_pending ar now free reserve so d ob of
               (Inl e, ob) \<Rightarrow> (Inl e, w, ob)
             | (Inr (Inl res), ob) \<Rightarrow> (case record_result now (length repos) JNull res ob of (res, ob) \<Rightarrow> (res, w, ob))
             | (Inr (Inr d), ob) \<Rightarrow> (case ob_pending ob of
                 None \<Rightarrow> (Inl (FileNotFoundError ''No such file or directory''), w, ob)
               | Some sn \<Rightarrow> run_pending ar now path receipt_name reserve repos d sn (w, ob)))))"

end
