(* ===== verification/Backup_Facts.thy ===== *)
theory Backup_Facts
  imports Backups
begin

text \<open>
  Facts of backups: what the state of a cycle records is true of the repositories, through any
  history of cycles, and the result of a cycle says exactly what was found.
\<close>

section \<open>What a repository holds\<close>

text \<open>
  A backup is restorable when restoring it gives a recovery snapshot of the given identity that
  verifies. The documented behaviour of the backup program is \<open>archives_ok\<close>: backups are immutable, and none of the
  commands used here removes one, so what a restore once gave it gives again.
\<close>

type_synonym backup_ref = "repository \<times> pystr \<times> pystr \<times> pystr"

definition restorable :: "('w, 'm) archives_scheme \<Rightarrow> 'w \<Rightarrow> backup_ref \<Rightarrow> bool" where
  "restorable ar w x = (case x of (repo, key, path, snapshot) \<Rightarrow>
     (case fst (ar_restore ar repo key path w) of
        Inl _ \<Rightarrow> False
      | Inr sn \<Rightarrow> (case ar_verify ar sn of
          Inl _ \<Rightarrow> False | Inr v \<Rightarrow> vf_purpose v = JStr (lit ''recovery'') \<and> vf_snapshot v = snapshot)))"

definition restores :: "('w, 'm) archives_scheme \<Rightarrow> 'w \<Rightarrow> repository \<times> pystr \<times> pystr \<times> snapshot \<Rightarrow> bool" where
  "restores ar w x = (case x of (repo, key, path, sn) \<Rightarrow> fst (ar_restore ar repo key path w) = Inr sn)"

definition archives_ok :: "('w, 'm) archives_scheme \<Rightarrow> bool" where
  "archives_ok ar \<longleftrightarrow> (\<forall>repo. keeps (restores ar) (ar_config ar repo))
     \<and> (\<forall>repo sn path tag. keeps (restores ar) (ar_backup ar repo sn path tag))
     \<and> (\<forall>repo key path. keeps (restores ar) (ar_restore ar repo key path))
     \<and> (\<forall>repo key. keeps (restores ar) (ar_stats ar repo key))"

lemma restorable_iff: "restorable ar w (repo, key, path, snapshot) \<longleftrightarrow> (\<exists>sn v. restores ar w (repo, key, path, sn)
    \<and> ar_verify ar sn = Inr v \<and> vf_purpose v = JStr (lit ''recovery'') \<and> vf_snapshot v = snapshot)"
  by (auto simp: restorable_def restores_def split: sum.splits)

lemma keeps_restorable:
  assumes "keeps (restores ar) f"
  shows "keeps (restorable ar) f"
  unfolding keeps_def
proof (intro allI impI)
  fix w x assume "restorable ar w x"
  moreover obtain repo key path snapshot where x: "x = (repo, key, path, snapshot)" by (cases x)
  ultimately obtain sn v where "restores ar w (repo, key, path, sn)" "ar_verify ar sn = Inr v"
    "vf_purpose v = JStr (lit ''recovery'')" "vf_snapshot v = snapshot" by (auto simp: restorable_iff)
  moreover from this(1) have "restores ar (snd (f w)) (repo, key, path, sn)" using assms unfolding keeps_def by blast
  ultimately show "restorable ar (snd (f w)) x" unfolding x restorable_iff by blast
qed

lemma archives_ok_restores:
  assumes "archives_ok ar"
  shows "keeps (restores ar) (ar_config ar repo)" "keeps (restores ar) (ar_backup ar repo sn path tag)"
    "keeps (restores ar) (ar_restore ar repo key path)" "keeps (restores ar) (ar_stats ar repo key)"
  using assms unfolding archives_ok_def by blast+

lemma archives_okD:
  assumes "archives_ok ar"
  shows "keeps (restorable ar) (ar_config ar repo)" "keeps (restorable ar) (ar_backup ar repo sn path tag)"
    "keeps (restorable ar) (ar_restore ar repo key path)" "keeps (restorable ar) (ar_stats ar repo key)"
  by (intro keeps_restorable archives_ok_restores assms)+

lemma keeps_pure [simp]: "keeps P (pure x)"
  by (simp add: keeps_def pure_def)

lemma pure_eq: "pure x s = (y, t) \<longleftrightarrow> x = y \<and> t = s"
  by (auto simp: pure_def)

lemma keeps_cases:
  "keeps P f \<Longrightarrow> keeps P g \<Longrightarrow> keeps P (if b then f else g)"
  "(\<And>s. keeps P (h s)) \<Longrightarrow> keeps P g \<Longrightarrow> keeps P (case v of JStr s \<Rightarrow> h s | _ \<Rightarrow> g)"
  by (simp_all split: json.split)

text \<open>A verified snapshot of any repository gives back every raw object its catalog refers to.\<close>

lemma restorable_available:
  assumes "restorable ar w (repo, key, path, snapshot)"
  obtains sn v d content where "fst (ar_restore ar repo key path w) = Inr sn" "ar_verify ar sn = Inr v" "vf_snapshot v = snapshot"
    "sn_file sn = Some content" "sq_open (ar_sqlite ar) content = Inr d"
    "available (ar_hash ar) (sn_root sn) (set (raw_objects (db_catalog d)))" "archivable (ar_utc ar) (ar_hash ar) (db_catalog d)"
proof -
  from assms obtain sn v where a: "fst (ar_restore ar repo key path w) = Inr sn" "ar_verify ar sn = Inr v" "vf_snapshot v = snapshot"
    by (auto simp: restorable_def split: sum.splits)
  from a(2) [unfolded ar_verify_def] show thesis
    by (rule verify_snapshot_Inr) (use that a in blast)
qed

section \<open>One repository\<close>

lemma verify_restore_true:
  assumes "verify_restore ar repo key path snapshot w = (Inr v, w')"
  shows "restorable ar w (repo, key, path, snapshot) \<and> w' = snd (ar_restore ar repo key path w)"
  using assms by (auto simp: verify_restore_def bindS_cases pure_eq bindR_Inr_iff restorable_def split: if_splits prod.splits)

lemma verify_restore_keeps: "archives_ok ar \<Longrightarrow> keeps (restorable ar) (verify_restore ar repo key path snapshot)"
  unfolding verify_restore_def by (intro keeps_bindS) (simp_all add: archives_okD)

lemma backup_and_verify_keeps: "archives_ok ar \<Longrightarrow> keeps (restorable ar) (backup_and_verify ar repo path sn)"
  unfolding backup_and_verify_def
  by (intro keeps_bindS keeps_pure keeps_cases archives_okD verify_restore_keeps)

lemma backup_and_verify_true:
  assumes "archives_ok ar" "backup_and_verify ar repo path sn w = (Inr d, w')"
  obtains v repo_id key where "ar_verify ar sn = Inr v" "d = backup_receipt repo repo_id key (vf_snapshot v) path"
    "restorable ar w' (repo, key, path, vf_snapshot v)"
proof -
  from assms(2) obtain v repo_id key w1 u w2 config where a: "ar_verify ar sn = Inr v"
      "d = backup_receipt repo repo_id key (vf_snapshot v) path"
      "verify_restore ar repo key path (vf_snapshot v) w1 = (Inr u, w2)" "ar_config ar repo w2 = (Inr config, w')"
    by (auto simp: backup_and_verify_def bindS_cases pure_eq bindR_Inr_iff split: if_splits json.splits)
  have "restorable ar w1 (repo, key, path, vf_snapshot v)" using verify_restore_true [OF a(3)] by blast
  then have "restorable ar w2 (repo, key, path, vf_snapshot v)" by (rule keepsD [OF verify_restore_keeps [OF assms(1)] a(3)])
  then have "restorable ar w' (repo, key, path, vf_snapshot v)" by (rule keepsD [OF archives_okD(1) [OF assms(1)] a(4)])
  with that a show thesis by blast
qed

lemma backup_receipt_members [simp]:
  "member (backup_receipt repo i key snapshot path) ''repository'' = JStr (re_name repo)"
  "member (backup_receipt repo i key snapshot path) ''repository_id'' = i"
  "member (backup_receipt repo i key snapshot path) ''backup_id'' = JStr key"
  "member (backup_receipt repo i key snapshot path) ''snapshot'' = JStr snapshot"
  "member (backup_receipt repo i key snapshot path) ''source_path'' = JStr path"
  "member (backup_receipt repo i key snapshot path) ''status'' = JStr (lit ''restore_verified'')"
  by (simp_all add: member_def jget_def backup_receipt_def lit_def)

section \<open>The state of a cycle\<close>

text \<open>A receipt that says of a repository what is true of it, and a state with such receipts only.\<close>

definition honest :: "('w, 'm) archives_scheme \<Rightarrow> 'w \<Rightarrow> pystr \<Rightarrow> repository \<Rightarrow> json \<Rightarrow> bool" where
  "honest ar w path repo v \<longleftrightarrow> (\<exists>i key snapshot. v = JObj (backup_receipt repo i key snapshot path) \<and> restorable ar w (repo, key, path, snapshot))"

definition state_honest :: "('w, 'm) archives_scheme \<Rightarrow> pystr \<Rightarrow> repository list \<Rightarrow> 'w \<Rightarrow> document \<Rightarrow> bool" where
  "state_honest ar path repos w d \<longleftrightarrow> (\<forall>rs. state_receipts d = Inr rs \<longrightarrow>
     (\<forall>repo \<in> set repos. \<forall>v. map_of rs (re_name repo) = Some v \<longrightarrow> honest ar w path repo v))"

abbreviation grows :: "('w, 'm) archives_scheme \<Rightarrow> 'w \<Rightarrow> 'w \<Rightarrow> bool" where
  "grows ar w w' \<equiv> \<forall>x. restorable ar w x \<longrightarrow> restorable ar w' x"

lemma state_honest_grows: "state_honest ar path repos w d \<Longrightarrow> grows ar w w' \<Longrightarrow> state_honest ar path repos w' d"
  unfolding state_honest_def honest_def by blast

lemma put_member_simps [simp]:
  "member (put_member k v d) l = (if l = k then v else member d l)" "item (put_member k v d) l = (if l = k then Inr v else item d l)"
  by (auto simp: member_def item_def jget_def put_member_def update_conv')

lemma state_receipts_put [simp]:
  "state_receipts (put_member ''receipts'' (JObj rs) d) = Inr rs"
  "k \<noteq> ''receipts'' \<Longrightarrow> state_receipts (put_member k v d) = state_receipts d"
  by (simp_all add: state_receipts_def as_dict_def)

lemma state_honest_empty [simp]: "state_honest ar path repos w (put_member ''receipts'' (JObj []) d)"
  by (simp add: state_honest_def)

text \<open>The receipt of a repository that a cycle relies on: true, and of the pending snapshot.\<close>

definition secured :: "('w, 'm) archives_scheme \<Rightarrow> pystr \<Rightarrow> pystr \<Rightarrow> 'w \<Rightarrow> document \<Rightarrow> repository \<Rightarrow> json \<Rightarrow> bool" where
  "secured ar path snapshot w d repo i \<longleftrightarrow> (\<exists>rs key. state_receipts d = Inr rs
     \<and> map_of rs (re_name repo) = Some (JObj (backup_receipt repo i key snapshot path)) \<and> restorable ar w (repo, key, path, snapshot))"

lemma secured_grows: "secured ar path snapshot w d repo i \<Longrightarrow> grows ar w w' \<Longrightarrow> secured ar path snapshot w' d repo i"
  unfolding secured_def by blast

section \<open>What a try of a repository does\<close>

text \<open>Nothing but the world and the known identities changes.\<close>

definition same_progress :: "'w cycle \<Rightarrow> 'w cycle \<Rightarrow> bool" where
  "same_progress s t \<longleftrightarrow> cy_state t = cy_state s \<and> cy_box t = cy_box s \<and> cy_confirmed t = cy_confirmed s
     \<and> set (cy_known s) \<subseteq> set (cy_known t)"

text \<open>The repository was confirmed under an identity that no earlier one had.\<close>

definition confirms :: "repository \<Rightarrow> json \<Rightarrow> 'w cycle \<Rightarrow> 'w cycle \<Rightarrow> bool" where
  "confirms repo i s t \<longleftrightarrow> (\<forall>x \<in> set (cy_known s). \<not> py_eq i x) \<and> cy_known t = cy_known s @ [i]
     \<and> cy_confirmed t = cy_confirmed s @ [re_name repo] \<and> cy_failures t = cy_failures s"

definition by_receipt :: "pystr \<Rightarrow> pystr \<Rightarrow> repository \<Rightarrow> json \<Rightarrow> 'w cycle \<Rightarrow> 'w cycle \<Rightarrow> bool" where
  "by_receipt path snapshot repo i s t \<longleftrightarrow> cy_state t = cy_state s \<and> cy_box t = cy_box s
     \<and> (\<exists>r. cached_receipt (cy_state s) (re_name repo) = Inr r \<and> truthy r \<and> check_cached r i snapshot repo path = Inr ())"

definition by_backup :: "('w, 'm) archives_scheme \<Rightarrow> pystr \<Rightarrow> pystr \<Rightarrow> repository \<Rightarrow> json \<Rightarrow> 'w cycle \<Rightarrow> 'w cycle \<Rightarrow> bool" where
  "by_backup ar path snapshot repo i s t \<longleftrightarrow> (\<exists>rs j key. state_receipts (cy_state s) = Inr rs \<and> py_eq j i
     \<and> restorable ar (cy_world t) (repo, key, path, snapshot)
     \<and> cy_state t = put_member ''receipts'' (JObj (AList.update (re_name repo) (JObj (backup_receipt repo j key snapshot path)) rs)) (cy_state s)
     \<and> cy_box t = (cy_box s)\<lparr>ob_state := Some (JObj (cy_state t))\<rparr>)"

lemma on_world_grows:
  assumes "keeps (restorable ar) f" "on_world f s = (res, t)"
  shows "grows ar (cy_world s) (cy_world t) \<and> t = s\<lparr>cy_world := cy_world t\<rparr> \<and> f (cy_world s) = (res, cy_world t)"
  using assms(2) keepsD [OF assms(1)] by (auto simp: on_world_def split: prod.splits)

lemma fresh_backup_cases:
  assumes "archives_ok ar" "fresh_backup ar path sn snapshot i repo s = (res, t)" "ar_verify ar sn = Inr v" "vf_snapshot v = snapshot"
  shows "grows ar (cy_world s) (cy_world t) \<and> cy_known t = cy_known s \<and> cy_failures t = cy_failures s
    \<and> ((\<exists>e. res = Inl e) \<and> same_progress s t
      \<or> res = Inr () \<and> cy_confirmed t = cy_confirmed s @ [re_name repo] \<and> by_backup ar path snapshot repo i s t)"
proof -
  obtain x s1 where one: "on_world (backup_and_verify ar repo path sn) s = (x, s1)" by (cases "on_world (backup_and_verify ar repo path sn) s")
  note w = on_world_grows [OF backup_and_verify_keeps [OF assms(1)] one]
  then have s1: "s1 = s\<lparr>cy_world := cy_world s1\<rparr>" by blast
  have fields: "cy_state s1 = cy_state s" "cy_box s1 = cy_box s" "cy_confirmed s1 = cy_confirmed s" "cy_known s1 = cy_known s"
    "cy_failures s1 = cy_failures s" by (subst s1, simp)+
  show ?thesis
  proof (cases x)
    case (Inl e)
    with assms(2) one have "res = Inl e" "t = s1" by (simp_all add: fresh_backup_def bindS_def)
    with w fields show ?thesis by (simp add: same_progress_def)
  next
    case (Inr d)
    obtain v2 j key where d: "ar_verify ar sn = Inr v2" "d = backup_receipt repo j key (vf_snapshot v2) path"
      "restorable ar (cy_world s1) (repo, key, path, vf_snapshot v2)"
      using w Inr by (metis backup_and_verify_true [OF assms(1)])
    with assms(3,4) have v2: "vf_snapshot v2 = snapshot" by simp
    show ?thesis
    proof (cases "py_eq j i")
      case False
      then have "res = Inl (ValueError ''backup acknowledgement changed identity'')" "t = s1"
        using assms(2) one Inr by (simp_all add: fresh_backup_def bindS_def d v2 pure_def)
      with w fields show ?thesis by (simp add: same_progress_def)
    next
      case True
      have step: "(res, t) = bindS (store_receipt (re_name repo) d) (\<lambda>_. updating (confirm (re_name repo))) s1"
        using assms(2) one Inr True by (simp add: fresh_backup_def bindS_def d v2)
      show ?thesis
      proof (cases "state_receipts (cy_state s)")
        case (Inl e)
        with step fields w show ?thesis by (simp add: bindS_def store_receipt_def same_progress_def)
      next
        case rs: (Inr rs)
        with step fields have "res = Inr ()" "t = confirm (re_name repo) (s1\<lparr>cy_state := put_member ''receipts'' (JObj (AList.update (re_name repo) (JObj d) rs)) (cy_state s),
            cy_box := (cy_box s)\<lparr>ob_state := Some (JObj (put_member ''receipts'' (JObj (AList.update (re_name repo) (JObj d) rs)) (cy_state s)))\<rparr>\<rparr>)"
          by (simp_all add: bindS_def store_receipt_def Let_def updating_def)
        with w fields rs d True show ?thesis by (auto simp: confirm_def by_backup_def v2)
      qed
    qed
  qed
qed

lemma try_repository_cases:
  assumes "archives_ok ar" "try_repository ar path sn snapshot required reserve repo s = (res, t)" "ar_verify ar sn = Inr v"
    "vf_snapshot v = snapshot"
  shows "grows ar (cy_world s) (cy_world t)
    \<and> ((\<exists>e. res = Inl e) \<and> same_progress s t \<and> cy_failures t = cy_failures s
      \<or> res = Inr () \<and> same_progress s t \<and> cy_failures t = cy_failures s @ [(re_name repo, ''restore_capacity'')]
      \<or> res = Inr () \<and> (\<exists>i. confirms repo i s t \<and> (by_receipt path snapshot repo i s t \<or> by_backup ar path snapshot repo i s t)))"
proof -
  obtain x s1 where one: "on_world (ar_config ar repo) s = (x, s1)" by (cases "on_world (ar_config ar repo) s")
  note w = on_world_grows [OF archives_okD(1) [OF assms(1)] one]
  then have s1: "s1 = s\<lparr>cy_world := cy_world s1\<rparr>" by blast
  have fields: "cy_state s1 = cy_state s" "cy_box s1 = cy_box s" "cy_confirmed s1 = cy_confirmed s" "cy_known s1 = cy_known s"
    "cy_failures s1 = cy_failures s" by (subst s1, simp)+
  note run = assms(2) [unfolded try_repository_def bindS_def [of "on_world (ar_config ar repo)"] one]
  have stay: ?thesis if "Inl e = res \<and> s1 = t" for e
    using that [THEN conjunct1, symmetric] that [THEN conjunct2, symmetric] w fields by (auto simp: same_progress_def)
  show ?thesis
  proof (cases x)
    case (Inl e)
    with run show ?thesis by (intro stay [of e]) simp
  next
    case (Inr config)
    show ?thesis
    proof (cases "subscript config ''id''")
      case (Inl e)
      with run Inr show ?thesis by (intro stay [of e]) (simp add: bindS_def pure_def)
    next
      case i: (Inr i)
      show ?thesis
      proof (cases "in_set i (cy_known s)")
        case (Inl e)
        with run Inr i fields show ?thesis by (intro stay [of e]) (simp add: bindS_def pure_def looking_def)
      next
        case seen: (Inr seen)
        show ?thesis
        proof (cases seen)
          case True
          with run Inr i seen fields show ?thesis
            by (intro stay [of "ValueError ''backup repositories are not independent''"]) (simp add: bindS_def pure_def looking_def)
        next
          case False
          with seen have new: "\<forall>x \<in> set (cy_known s). \<not> py_eq i x" by (auto simp: in_set_def split: if_splits)
          let ?s2 = "s1\<lparr>cy_known := cy_known s1 @ [i]\<rparr>"
          have s2: "cy_world ?s2 = cy_world s1" "cy_state ?s2 = cy_state s" "cy_box ?s2 = cy_box s" "cy_confirmed ?s2 = cy_confirmed s"
            "cy_known ?s2 = cy_known s @ [i]" "cy_failures ?s2 = cy_failures s" by (simp_all add: fields)
          have g: "grows ar (cy_world s) (cy_world s1)" using w by blast
          show ?thesis
          proof (cases "cached_receipt (cy_state s) (re_name repo)")
            case (Inl e)
            with run Inr i seen False fields have "res = Inl e" "t = ?s2" by (simp_all add: bindS_def pure_def looking_def updating_def)
            with g s2 show ?thesis by (simp add: same_progress_def subset_insertI)
          next
            case receipt: (Inr r)
            show ?thesis
            proof (cases "truthy r")
              case True
              show ?thesis
              proof (cases "check_cached r i snapshot repo path")
                case (Inl e)
                with run Inr i seen False fields receipt True have "res = Inl e" "t = ?s2"
                  by (simp_all add: bindS_def pure_def looking_def updating_def)
                with g s2 show ?thesis by (simp add: same_progress_def subset_insertI)
              next
                case ok: (Inr u)
                with run Inr i seen False fields receipt True have "res = Inr ()" "t = confirm (re_name repo) ?s2"
                  by (simp_all add: bindS_def pure_def looking_def updating_def)
                moreover from this receipt ok True s2 new have "confirms repo i s t" "by_receipt path snapshot repo i s t"
                  by (simp_all add: confirm_def confirms_def by_receipt_def)
                ultimately show ?thesis using g s2(1) by (auto simp: confirm_def)
              qed
            next
              case no: False
              show ?thesis
              proof (cases "has_capacity (ar_free ar repo (cy_world s1)) required reserve")
                case no_room: False
                with run Inr i seen False fields receipt no have "res = Inr ()" "t = fail_with (re_name repo) ''restore_capacity'' ?s2"
                  by (simp_all add: bindS_def pure_def looking_def updating_def)
                with g s2 show ?thesis by (simp add: fail_with_def same_progress_def subset_insertI)
              next
                case room: True
                with run Inr i seen False fields receipt no have "fresh_backup ar path sn snapshot i repo ?s2 = (res, t)"
                  by (simp add: bindS_def pure_def looking_def updating_def)
                note f = fresh_backup_cases [OF assms(1) this assms(3,4), unfolded s2]
                have grow: "grows ar (cy_world s) (cy_world t)" using f [THEN conjunct1] g by blast
                show ?thesis
                proof (cases res)
                  case (Inl e)
                  with f s2 have "same_progress ?s2 t" "cy_failures t = cy_failures s" by simp_all
                  with grow Inl s2 show ?thesis by (simp add: same_progress_def subset_insertI)
                next
                  case (Inr u)
                  with f s2 have "cy_known t = cy_known s @ [i]" "cy_failures t = cy_failures s"
                    "cy_confirmed t = cy_confirmed s @ [re_name repo]" "by_backup ar path snapshot repo i ?s2 t" by simp_all
                  with s2 new have "confirms repo i s t" "by_backup ar path snapshot repo i s t"
                    by (simp_all add: confirms_def by_backup_def)
                  moreover have "res = Inr ()" using Inr by simp
                  ultimately show ?thesis using grow by blast
                qed
              qed
            qed
          qed
        qed
      qed
    qed
  qed
qed

section \<open>All repositories\<close>

lemma py_eq_sym: "py_eq v w \<Longrightarrow> py_eq w v" and py_eq_trans: "py_eq u v \<Longrightarrow> py_eq v w \<Longrightarrow> py_eq u w"
  by (simp_all add: py_eq_def same_json_def)

lemma secured_unique: "secured ar path snapshot w d repo i \<Longrightarrow> secured ar path snapshot w d repo j \<Longrightarrow> i = j"
  by (auto simp: secured_def) (metis backup_receipt_members(2))

text \<open>
  What holds after the repositories \<open>rs\<close>: the state is honest and saved; each of them was confirmed or
  failed; the confirmed ones have receipts of the pending snapshot with distinct identities.
\<close>

definition confirmed_of :: "repository list \<Rightarrow> 'w cycle \<Rightarrow> repository set" where
  "confirmed_of repos s = {r \<in> set repos. re_name r \<in> set (cy_confirmed s)}"

definition split_ok :: "repository list \<Rightarrow> 'w cycle \<Rightarrow> bool" where
  "split_ok rs s \<longleftrightarrow> set (cy_confirmed s) \<union> fst ` set (cy_failures s) = re_name ` set rs
     \<and> set (cy_confirmed s) \<inter> fst ` set (cy_failures s) = {}"

definition secured_ok :: "('w, 'm) archives_scheme \<Rightarrow> pystr \<Rightarrow> pystr \<Rightarrow> repository list \<Rightarrow> 'w cycle \<Rightarrow> bool" where
  "secured_ok ar path snapshot repos s \<longleftrightarrow> (\<forall>r \<in> confirmed_of repos s.
     \<exists>i. secured ar path snapshot (cy_world s) (cy_state s) r i \<and> (\<exists>x \<in> set (cy_known s). py_eq i x))"

definition distinct_ok :: "('w, 'm) archives_scheme \<Rightarrow> pystr \<Rightarrow> pystr \<Rightarrow> repository list \<Rightarrow> 'w cycle \<Rightarrow> bool" where
  "distinct_ok ar path snapshot repos s \<longleftrightarrow> (\<forall>a \<in> confirmed_of repos s. \<forall>b \<in> confirmed_of repos s. \<forall>i j. a \<noteq> b \<longrightarrow>
     secured ar path snapshot (cy_world s) (cy_state s) a i \<longrightarrow> secured ar path snapshot (cy_world s) (cy_state s) b j \<longrightarrow> \<not> py_eq i j)"

definition saved_ok :: "('w, 'm) archives_scheme \<Rightarrow> pystr \<Rightarrow> repository list \<Rightarrow> 'w cycle \<Rightarrow> bool" where
  "saved_ok ar path repos s \<longleftrightarrow> state_honest ar path repos (cy_world s) (cy_state s)
     \<and> ob_state (cy_box s) = Some (JObj (cy_state s))"

definition progress_ok :: "('w, 'm) archives_scheme \<Rightarrow> pystr \<Rightarrow> pystr \<Rightarrow> repository list \<Rightarrow> repository list \<Rightarrow> 'w cycle \<Rightarrow> bool" where
  "progress_ok ar path snapshot repos rs s \<longleftrightarrow> saved_ok ar path repos s \<and> split_ok rs s
     \<and> secured_ok ar path snapshot repos s \<and> distinct_ok ar path snapshot repos s"

lemma secured_same_state:
  assumes "secured ar path snapshot w d repo i" "grows ar w w'" "secured ar path snapshot w' d repo j"
  shows "i = j"
  using secured_unique [OF secured_grows [OF assms(1,2)] assms(3)] .

text \<open>Distinctness needs to be checked for one receipt of each repository only.\<close>

lemma distinct_okI:
  assumes "\<And>a b. a \<in> confirmed_of repos s \<Longrightarrow> b \<in> confirmed_of repos s \<Longrightarrow> a \<noteq> b \<Longrightarrow>
    \<exists>i j. secured ar path snapshot (cy_world s) (cy_state s) a i \<and> secured ar path snapshot (cy_world s) (cy_state s) b j \<and> \<not> py_eq i j"
  shows "distinct_ok ar path snapshot repos s"
  unfolding distinct_ok_def using assms secured_unique by metis

lemma distinct_okD:
  assumes "distinct_ok ar path snapshot repos s" "secured_ok ar path snapshot repos s" "a \<in> confirmed_of repos s"
    "b \<in> confirmed_of repos s" "a \<noteq> b"
  obtains i j where "secured ar path snapshot (cy_world s) (cy_state s) a i" "secured ar path snapshot (cy_world s) (cy_state s) b j"
    "\<not> py_eq i j"
  using assms unfolding distinct_ok_def secured_ok_def by metis

text \<open>A failed repository changes nothing of the others.\<close>

lemma progress_failed:
  assumes p: "progress_ok ar path snapshot repos rs s" and same: "same_progress s t" and grow: "grows ar (cy_world s) (cy_world t)"
    and fail: "cy_failures t = cy_failures s @ [(re_name repo, reason)]" and new: "re_name repo \<notin> re_name ` set rs"
  shows "progress_ok ar path snapshot repos (rs @ [repo]) t"
proof -
  have eq: "cy_state t = cy_state s" "cy_box t = cy_box s" "cy_confirmed t = cy_confirmed s" "set (cy_known s) \<subseteq> set (cy_known t)"
    using same by (simp_all add: same_progress_def)
  have conf: "confirmed_of repos t = confirmed_of repos s" by (simp add: confirmed_of_def eq)
  have parts: "saved_ok ar path repos s" "split_ok rs s" "secured_ok ar path snapshot repos s" "distinct_ok ar path snapshot repos s"
    using p by (simp_all add: progress_ok_def)
  have "saved_ok ar path repos t"
    using parts(1) state_honest_grows [OF _ grow] by (simp add: saved_ok_def eq)
  moreover have "split_ok (rs @ [repo]) t"
    using parts(2) new unfolding split_ok_def fail eq by auto
  moreover have "secured_ok ar path snapshot repos t"
    using parts(3) secured_grows [OF _ grow] eq(4) unfolding secured_ok_def conf eq(1) by blast
  moreover have "distinct_ok ar path snapshot repos t"
  proof (rule distinct_okI)
    fix a b assume "a \<in> confirmed_of repos t" "b \<in> confirmed_of repos t" "a \<noteq> b"
    with conf obtain i j where "secured ar path snapshot (cy_world s) (cy_state s) a i"
      "secured ar path snapshot (cy_world s) (cy_state s) b j" "\<not> py_eq i j"
      using distinct_okD [OF parts(4,3)] by metis
    then show "\<exists>i j. secured ar path snapshot (cy_world t) (cy_state t) a i \<and> secured ar path snapshot (cy_world t) (cy_state t) b j
      \<and> \<not> py_eq i j" using secured_grows [OF _ grow] eq(1) by metis
  qed
  ultimately show ?thesis by (simp add: progress_ok_def)
qed

text \<open>A confirmed repository has a true receipt of the pending snapshot, whether it is old or new.\<close>

lemma receipt_secures:
  assumes "saved_ok ar path repos s" "repo \<in> set repos" "by_receipt path snapshot repo i s t" "grows ar (cy_world s) (cy_world t)"
  shows "\<exists>j. secured ar path snapshot (cy_world t) (cy_state t) repo j \<and> py_eq j i"
proof -
  from assms(3) obtain r where r: "cy_state t = cy_state s" "cached_receipt (cy_state s) (re_name repo) = Inr r" "truthy r"
    "check_cached r i snapshot repo path = Inr ()" by (auto simp: by_receipt_def)
  from r(2,3) obtain rs where rs: "state_receipts (cy_state s) = Inr rs" "map_of rs (re_name repo) = Some r"
    by (auto simp: cached_receipt_def bindR_Inr_iff split: option.splits)
  with assms(1,2) have "honest ar (cy_world s) path repo r" unfolding saved_ok_def state_honest_def by blast
  then obtain j key sid where j: "r = JObj (backup_receipt repo j key sid path)" "restorable ar (cy_world s) (repo, key, path, sid)"
    unfolding honest_def by blast
  have "item (backup_receipt repo j key sid path) ''repository_id'' = Inr j"
    by (simp add: item_def jget_def backup_receipt_def lit_def)
  with r(4) j(1) have "py_eq j i" "sid = snapshot"
    by (simp_all add: check_cached_def subscript_def as_dict_def split: if_splits)
  with j rs r(1) assms(4) have "secured ar path snapshot (cy_world t) (cy_state t) repo j" by (auto simp: secured_def)
  with \<open>py_eq j i\<close> show ?thesis by blast
qed

lemma backup_secures: "by_backup ar path snapshot repo i s t \<Longrightarrow> \<exists>j. secured ar path snapshot (cy_world t) (cy_state t) repo j \<and> py_eq j i"
proof -
  assume "by_backup ar path snapshot repo i s t"
  then obtain rs j key where b: "state_receipts (cy_state s) = Inr rs" "py_eq j i" "restorable ar (cy_world t) (repo, key, path, snapshot)"
    "cy_state t = put_member ''receipts'' (JObj (AList.update (re_name repo) (JObj (backup_receipt repo j key snapshot path)) rs)) (cy_state s)"
    by (auto simp: by_backup_def)
  then have "secured ar path snapshot (cy_world t) (cy_state t) repo j" by (auto simp: secured_def update_conv')
  with b(2) show ?thesis by blast
qed

text \<open>The receipts of other repositories stay.\<close>

lemma secured_other:
  assumes "secured ar path snapshot (cy_world s) (cy_state s) r j" "re_name r \<noteq> re_name repo" "grows ar (cy_world s) (cy_world t)"
    "by_receipt path snapshot repo i s t \<or> by_backup ar path snapshot repo i s t"
  shows "secured ar path snapshot (cy_world t) (cy_state t) r j"
  using assms(4)
proof
  assume "by_receipt path snapshot repo i s t"
  then have "cy_state t = cy_state s" by (simp add: by_receipt_def)
  with secured_grows [OF assms(1,3)] show ?thesis by simp
next
  assume b: "by_backup ar path snapshot repo i s t"
  from secured_grows [OF assms(1,3)] obtain rs key where rs: "state_receipts (cy_state s) = Inr rs"
    "map_of rs (re_name r) = Some (JObj (backup_receipt r j key snapshot path))" "restorable ar (cy_world t) (r, key, path, snapshot)"
    unfolding secured_def by blast
  with b assms(2) show ?thesis by (auto simp: by_backup_def secured_def update_conv')
qed

lemma honest_other:
  assumes "saved_ok ar path repos s" "distinct (map re_name repos)" "repo \<in> set repos" "grows ar (cy_world s) (cy_world t)"
    "by_receipt path snapshot repo i s t \<or> by_backup ar path snapshot repo i s t"
  shows "saved_ok ar path repos t"
  using assms(5)
proof
  assume "by_receipt path snapshot repo i s t"
  with assms(1,4) state_honest_grows show ?thesis by (auto simp: by_receipt_def saved_ok_def)
next
  assume "by_backup ar path snapshot repo i s t"
  then obtain rs j key where b: "state_receipts (cy_state s) = Inr rs" "restorable ar (cy_world t) (repo, key, path, snapshot)"
    "cy_state t = put_member ''receipts'' (JObj (AList.update (re_name repo) (JObj (backup_receipt repo j key snapshot path)) rs)) (cy_state s)"
    "ob_state (cy_box t) = Some (JObj (cy_state t))" by (auto simp: by_backup_def)
  have old: "honest ar (cy_world t) path r v" if "r \<in> set repos" "map_of rs (re_name r) = Some v" for r v
    using assms(1,4) b(1) that unfolding saved_ok_def state_honest_def honest_def by blast
  have "r = repo" if "r \<in> set repos" "re_name r = re_name repo" for r
    using assms(2,3) that by (auto simp: distinct_map inj_on_def)
  then have "honest ar (cy_world t) path r v"
    if "r \<in> set repos" "map_of (AList.update (re_name repo) (JObj (backup_receipt repo j key snapshot path)) rs) (re_name r) = Some v" for r v
    using that old b(2) by (cases "re_name r = re_name repo") (fastforce simp: update_conv' honest_def)+
  then show ?thesis using b(3,4) by (simp add: saved_ok_def state_honest_def)
qed

lemma progress_confirmed:
  assumes p: "progress_ok ar path snapshot repos rs s" and c: "confirms repo i s t"
    and way: "by_receipt path snapshot repo i s t \<or> by_backup ar path snapshot repo i s t"
    and grow: "grows ar (cy_world s) (cy_world t)" and repo: "repo \<in> set repos" and dist: "distinct (map re_name repos)"
    and new: "re_name repo \<notin> re_name ` set rs"
  shows "progress_ok ar path snapshot repos (rs @ [repo]) t"
proof -
  have parts: "saved_ok ar path repos s" "split_ok rs s" "secured_ok ar path snapshot repos s" "distinct_ok ar path snapshot repos s"
    using p by (simp_all add: progress_ok_def)
  have eq: "\<forall>x \<in> set (cy_known s). \<not> py_eq i x" "cy_known t = cy_known s @ [i]" "cy_failures t = cy_failures s"
     "cy_confirmed t = cy_confirmed s @ [re_name repo]" using c by (simp_all add: confirms_def)
  have name: "r = repo" if "r \<in> set repos" "re_name r = re_name repo" for r
    using dist repo that by (auto simp: distinct_map inj_on_def)
  have conf: "confirmed_of repos t = insert repo (confirmed_of repos s)"
    using repo name by (auto simp: confirmed_of_def eq)
  have fresh: "re_name r \<noteq> re_name repo" if "r \<in> confirmed_of repos s" for r
    using parts(2) new that unfolding split_ok_def confirmed_of_def by auto
  obtain j where j: "secured ar path snapshot (cy_world t) (cy_state t) repo j" "py_eq j i"
    using way receipt_secures [OF parts(1) repo _ grow] backup_secures by blast
  have old: "\<exists>k. secured ar path snapshot (cy_world t) (cy_state t) r k \<and> (\<exists>x \<in> set (cy_known s). py_eq k x)"
    if "r \<in> confirmed_of repos s" for r
    using parts(3) that secured_other [OF _ fresh [OF that] grow way] unfolding secured_ok_def by blast
  have "secured_ok ar path snapshot repos t"
    using j old unfolding secured_ok_def conf eq by auto
  moreover have "saved_ok ar path repos t" by (rule honest_other [OF parts(1) dist repo grow way])
  moreover have "split_ok (rs @ [repo]) t"
    using parts(2) new unfolding split_ok_def eq by auto
  moreover have "distinct_ok ar path snapshot repos t"
  proof (rule distinct_okI)
    fix a b assume ab: "a \<in> confirmed_of repos t" "b \<in> confirmed_of repos t" "a \<noteq> b"
    have cross: "\<exists>k. secured ar path snapshot (cy_world t) (cy_state t) r k \<and> \<not> py_eq k j" if "r \<in> confirmed_of repos s" for r
      using old [OF that] eq(1) j(2) py_eq_sym py_eq_trans by metis
    show "\<exists>i j. secured ar path snapshot (cy_world t) (cy_state t) a i \<and> secured ar path snapshot (cy_world t) (cy_state t) b j
      \<and> \<not> py_eq i j"
    proof (cases "a = repo \<or> b = repo")
      case True
      with ab conf cross j(1) py_eq_sym show ?thesis by (metis insertE)
    next
      case False
      with ab conf have "a \<in> confirmed_of repos s" "b \<in> confirmed_of repos s" by auto
      with ab(3) show ?thesis
        using distinct_okD [OF parts(4,3)] secured_other [OF _ fresh grow way] by metis
    qed
  qed
  ultimately show ?thesis by (simp add: progress_ok_def)
qed

text \<open>All repositories, one after the other.\<close>

lemma try_repositories_progress:
  assumes "try_repositories ar path sn snapshot required reserve todo s = (res, t)" "progress_ok ar path snapshot repos rs s"
    "rs @ todo = repos" "distinct (map re_name repos)" "archives_ok ar" "ar_verify ar sn = Inr v" "vf_snapshot v = snapshot"
  shows "grows ar (cy_world s) (cy_world t) \<and> saved_ok ar path repos t \<and> cy_box t = (cy_box s)\<lparr>ob_state := ob_state (cy_box t)\<rparr>
    \<and> (res = Inr () \<longrightarrow> progress_ok ar path snapshot repos repos t)"
  using assms(1-3)
proof (induction todo arbitrary: s rs)
  case Nil
  then show ?case by (simp add: progress_ok_def)
next
  case (Cons repo todo)
  obtain out s1 where one: "try_repository ar path sn snapshot required reserve repo s = (out, s1)"
    by (cases "try_repository ar path sn snapshot required reserve repo s")
  have repo: "repo \<in> set repos" "re_name repo \<notin> re_name ` set rs" "(rs @ [repo]) @ todo = repos"
    using Cons.prems(3) assms(4) by auto
  note step = try_repository_cases [OF assms(5) one assms(6,7)]
  then have grow: "grows ar (cy_world s) (cy_world s1)" by blast
  have go: ?case if "try_repositories ar path sn snapshot required reserve todo s2 = (res, t)"
      "progress_ok ar path snapshot repos (rs @ [repo]) s2" "cy_world s2 = cy_world s1" "cy_box s2 = (cy_box s)\<lparr>ob_state := x\<rparr>" for s2 x
    using Cons.IH [OF that(1,2) repo(3)] grow that(3,4) by simp
  show ?case
  proof (cases out)
    case (Inl e)
    with step have same: "same_progress s s1" "cy_failures s1 = cy_failures s" by simp_all
    let ?s2 = "fail_with (re_name repo) (exn_name e) s1"
    have 2: "same_progress s ?s2" "cy_world ?s2 = cy_world s1" "cy_box ?s2 = (cy_box s)\<lparr>ob_state := ob_state (cy_box s)\<rparr>"
      "cy_failures ?s2 = cy_failures s @ [(re_name repo, exn_name e)]"
      using same by (simp_all add: fail_with_def same_progress_def)
    show ?thesis
    proof (cases "is_reported e")
      case True
      with Cons.prems(1) one Inl have "try_repositories ar path sn snapshot required reserve todo ?s2 = (res, t)" by simp
      then show ?thesis
        by (rule go [OF _ progress_failed [OF Cons.prems(2) 2(1) _ 2(4) repo(2)] 2(2,3)]) (use grow 2(2) in simp)
    next
      case False
      with Cons.prems(1) one Inl have "res = Inl e" "t = s1" by simp_all
      with same grow Cons.prems(2) state_honest_grows show ?thesis
        by (auto simp: same_progress_def progress_ok_def saved_ok_def)
    qed
  next
    case (Inr u)
    with Cons.prems(1) one have rest: "try_repositories ar path sn snapshot required reserve todo s1 = (res, t)" by simp
    from step Inr consider
        "same_progress s s1" "cy_failures s1 = cy_failures s @ [(re_name repo, ''restore_capacity'')]"
      | i where "confirms repo i s s1" "by_receipt path snapshot repo i s s1 \<or> by_backup ar path snapshot repo i s s1" by blast
    then show ?thesis
    proof cases
      case 1
      show ?thesis
        by (rule go [OF rest progress_failed [OF Cons.prems(2) 1(1) grow 1(2) repo(2)] refl, of "ob_state (cy_box s)"])
          (use 1 in \<open>simp add: same_progress_def\<close>)
    next
      case 2
      then have "\<exists>x. cy_box s1 = (cy_box s)\<lparr>ob_state := x\<rparr>"
        by (auto simp: by_receipt_def by_backup_def intro: exI [of _ "ob_state (cy_box s)"])
      then obtain x where "cy_box s1 = (cy_box s)\<lparr>ob_state := x\<rparr>" ..
      with go [OF rest progress_confirmed [OF Cons.prems(2) 2(1,2) grow repo(1) assms(4) repo(2)] refl] show ?thesis by blast
    qed
  qed
qed

section \<open>The outbox through a cycle\<close>

definition box_honest :: "('w, 'm) archives_scheme \<Rightarrow> pystr \<Rightarrow> repository list \<Rightarrow> 'w \<Rightarrow> backup_box \<Rightarrow> bool" where
  "box_honest ar path repos w ob \<longleftrightarrow> (\<forall>d. ob_state ob = Some (JObj d) \<longrightarrow> state_honest ar path repos w d)"

lemma box_honest_grows:
  assumes "box_honest ar path repos w ob" "grows ar w w'"
  shows "box_honest ar path repos w' ob"
  unfolding box_honest_def
proof (intro allI impI)
  fix d assume "ob_state ob = Some (JObj d)"
  with assms(1) have "state_honest ar path repos w d" by (simp add: box_honest_def)
  then show "state_honest ar path repos w' d" using assms(2) by (rule state_honest_grows)
qed

lemma box_honest_same: "box_honest ar path repos w ob \<Longrightarrow> ob_state ob' = ob_state ob \<Longrightarrow> box_honest ar path repos w ob'"
  by (simp add: box_honest_def)

lemma load_state_facts:
  assumes "load_state binding ob = (res, ob')" "box_honest ar path repos w ob"
  shows "box_honest ar path repos w ob' \<and> (\<forall>d. res = Inr d \<longrightarrow> state_honest ar path repos w d) \<and> ob_pending ob' = ob_pending ob"
proof -
  have fresh: "state_honest ar path repos w [(lit ''version'', JInt 1), (lit ''binding'', JStr binding), (lit ''receipts'', JObj [])]"
    by (simp add: state_honest_def state_receipts_def item_def jget_def as_dict_def lit_def)
  show ?thesis
    using assms fresh by (auto simp: load_state_def Let_def box_honest_def as_dict_def split: if_splits option.splits json.splits)
qed

lemma clear_retired_facts: "clear_retired repos d ob = (res, ob') \<Longrightarrow> ob_state ob' = ob_state ob \<and> ob_pending ob' = ob_pending ob"
  by (auto simp: clear_retired_def Let_def split: option.splits if_splits sum.splits)

lemma record_result_facts: "record_result now n pub d ob = (res, ob') \<Longrightarrow>
    ob_state ob' = ob_state ob \<and> ob_pending ob' = ob_pending ob \<and> (\<forall>x. res = Inr x \<longrightarrow> x = d)"
  by (auto simp: record_result_def split: sum.splits)

text \<open>The snapshot a cycle works on: the pending one, or one made from the catalog.\<close>

definition works_on :: "('w, 'm) archives_scheme \<Rightarrow> pystr \<Rightarrow> source \<Rightarrow> backup_box \<Rightarrow> snapshot \<Rightarrow> bool" where
  "works_on ar now so ob sn \<longleftrightarrow> (case ob_pending ob of Some x \<Rightarrow> sn = x | None \<Rightarrow> (\<exists>c.
     create_snapshot (ar_utc ar) (ar_hash ar) (ar_sqlite ar) now False (so_database so) (so_root so) None = (Inr c, Some sn)))"

lemma create_snapshot_Inr: "create_snapshot utc H sq now only d src None = (Inr c, sn) \<Longrightarrow> \<exists>x. sn = Some x"
  by (auto simp: create_snapshot_def split: sum.splits)

lemma make_pending_facts:
  assumes "make_pending ar now free reserve so d ob = (res, ob')" "state_honest ar path repos w d"
  shows "ob_state ob' = ob_state ob \<and> (\<forall>x. res = Inr (Inl x) \<longrightarrow> ob_pending ob' = ob_pending ob \<and> member x ''status'' = JStr (lit ''deferred''))
    \<and> (\<forall>e. res = Inr (Inr e) \<longrightarrow> state_honest ar path repos w e \<and> (\<exists>sn. ob_pending ob' = Some sn \<and> works_on ar now so ob sn))"
proof -
  have deferred: "member (capacity_doc a b c @ x) ''status'' = JStr (lit ''deferred'')" if "\<not> has_capacity a b c" for a b c x
    using that by (simp add: member_def jget_def capacity_doc_def lit_def)
  show ?thesis
    using assms create_snapshot_Inr
    by (auto simp: make_pending_def Let_def works_on_def deferred split: if_splits prod.splits sum.splits)
qed

lemma finish_cycle_facts:
  assumes "finish_cycle rn v repos s = (res, ob)"
  shows "ob_state ob = ob_state (cy_box s) \<and> (cy_failures s \<noteq> [] \<longrightarrow> res = Inr (partial_doc (vf_snapshot v) (cy_confirmed s) (cy_failures s)) \<and> ob = cy_box s)
    \<and> (\<forall>d. cy_failures s = [] \<and> res = Inr d \<longrightarrow> ob_pending ob = None \<and> (\<exists>receipts. all_receipts repos (cy_state s) = Inr receipts
          \<and> d = put_member ''receipt'' (JStr rn) (completed_json receipts)))"
  using assms by (auto simp: finish_cycle_def Let_def split: if_splits sum.splits option.splits)

text \<open>What a cycle found out: the outcome of its work on a snapshot of identity \<open>snapshot\<close>.\<close>

definition outcome :: "('w, 'm) archives_scheme \<Rightarrow> pystr \<Rightarrow> pystr \<Rightarrow> repository list \<Rightarrow> verified \<Rightarrow> 'w cycle \<Rightarrow> document \<Rightarrow> backup_box \<Rightarrow> bool" where
  "outcome ar path rn repos v s d ob \<longleftrightarrow> progress_ok ar path (vf_snapshot v) repos repos s \<and> ob_state ob = ob_state (cy_box s)
     \<and> (if cy_failures s = [] then ob_pending ob = None \<and> (\<exists>receipts. all_receipts repos (cy_state s) = Inr receipts
            \<and> d = put_member ''receipt'' (JStr rn) (completed_json receipts))
        else ob_pending ob = ob_pending (cy_box s) \<and> d = partial_doc (vf_snapshot v) (cy_confirmed s) (cy_failures s))"

lemma run_pending_facts:
  assumes "run_pending ar now path rn reserve repos d sn (w, ob) = (res, w', ob')" "archives_ok ar" "distinct (map re_name repos)"
    "state_honest ar path repos w d" "box_honest ar path repos w ob"
  shows "grows ar w w' \<and> box_honest ar path repos w' ob' \<and> (\<forall>x. res = Inr x \<longrightarrow> (\<exists>v s. ar_verify ar sn = Inr v
      \<and> vf_purpose v = JStr (lit ''recovery'') \<and> outcome ar path rn repos v s x ob' \<and> cy_world s = w' \<and> ob_pending (cy_box s) = ob_pending ob))"
proof (cases "ar_verify ar sn")
  case (Inl e)
  with assms show ?thesis by (auto simp: run_pending_def)
next
  case v: (Inr v)
  let ?d = "if member d ''snapshot'' \<noteq> JStr (vf_snapshot v)
      then put_member ''receipts'' (JObj []) (put_member ''snapshot'' (JStr (vf_snapshot v)) d) else d"
  let ?ob = "ob\<lparr>ob_state := Some (JObj ?d)\<rparr>"
  let ?s = "\<lparr>cy_world = w, cy_box = ?ob, cy_state = ?d, cy_known = [], cy_confirmed = [], cy_failures = []\<rparr>"
  have good: "state_honest ar path repos w ?d" using assms(4) by simp
  show ?thesis
  proof (cases "vf_purpose v \<noteq> JStr (lit ''recovery'')")
    case True
    with assms v show ?thesis by (auto simp: run_pending_def)
  next
    case purpose: False
    note run = assms(1) [unfolded run_pending_def v Let_def]
    show ?thesis
    proof (cases "manifest_bytes sn")
      case (Inl e)
      with run purpose good show ?thesis by (auto simp: box_honest_def)
    next
      case required: (Inr required)
      obtain out s where loop: "try_repositories ar path sn (vf_snapshot v) required reserve repos ?s = (out, s)"
        by (cases "try_repositories ar path sn (vf_snapshot v) required reserve repos ?s")
      have "progress_ok ar path (vf_snapshot v) repos [] ?s"
        using good by (simp add: progress_ok_def saved_ok_def split_ok_def secured_ok_def distinct_ok_def confirmed_of_def)
      note p = try_repositories_progress [OF loop this _ assms(3,2) v refl, simplified]
      have honest: "box_honest ar path repos (cy_world s) x" if "ob_state x = ob_state (cy_box s)" for x
        using p that by (simp add: box_honest_def saved_ok_def)
      have pending: "ob_pending (cy_box s) = ob_pending ob"
      proof -
        have "cy_box s = (?ob)\<lparr>ob_state := ob_state (cy_box s)\<rparr>" using p by simp
        then have "ob_pending (cy_box s) = ob_pending ((?ob)\<lparr>ob_state := ob_state (cy_box s)\<rparr>)" by (rule arg_cong)
        then show ?thesis by simp
      qed
      show ?thesis
      proof (cases out)
        case (Inl e)
        with run purpose required loop p honest [of "cy_box s"] show ?thesis by auto
      next
        case (Inr u)
        obtain fin ob1 where fin: "finish_cycle rn v repos s = (fin, ob1)" by (cases "finish_cycle rn v repos s")
        note f = finish_cycle_facts [OF fin]
        show ?thesis
        proof (cases fin)
          case (Inl e)
          with run purpose required loop \<open>out = Inr u\<close> fin f honest [of ob1] p show ?thesis by auto
        next
          case doc: (Inr doc)
          obtain res2 ob2 where rec: "record_result now (length repos) (vf_publication v) doc ob1 = (res2, ob2)"
            by (cases "record_result now (length repos) (vf_publication v) doc ob1")
          note r = record_result_facts [OF rec]
          have out: "res = res2" "w' = cy_world s" "ob' = ob2"
            using run purpose required loop Inr fin doc rec by simp_all
          have "outcome ar path rn repos v s doc ob2"
            using f r p Inr doc unfolding outcome_def by auto
          with out r f p honest [of ob2] v purpose pending show ?thesis by auto
        qed
      qed
    qed
  qed
qed

section \<open>Histories of cycles\<close>

text \<open>
  What happens to an outbox and the world: cycles for the same repositories and path, with any catalog
  and any other circumstances, and what others do with the repositories short of removing backups.
\<close>

inductive cycle_step :: "('w, 'm) archives_scheme \<Rightarrow> pystr \<Rightarrow> repository list \<Rightarrow> 'w \<times> backup_box \<Rightarrow> 'w \<times> backup_box \<Rightarrow> bool"
  for ar path repos where
  cycle: "backup_cycle ar now path rn separate busy free reserve so repos st = (res, st') \<Longrightarrow> cycle_step ar path repos st st'"
| outside: "grows ar w w' \<Longrightarrow> cycle_step ar path repos (w, ob) (w', ob)"

lemma backup_cycle_facts:
  assumes "backup_cycle ar now path rn separate busy free reserve so repos (w, ob) = (res, w', ob')" "archives_ok ar"
    "box_honest ar path repos w ob"
  shows "box_honest ar path repos w' ob' \<and> (\<forall>x. res = Inr x \<longrightarrow>
      member x ''status'' \<in> JStr ` lit ` {''coalesced'', ''deferred''}
      \<or> 2 \<le> length repos \<and> distinct (map re_name repos) \<and> (\<exists>sn v s. works_on ar now so ob sn \<and> ar_verify ar sn = Inr v
          \<and> vf_purpose v = JStr (lit ''recovery'') \<and> outcome ar path rn repos v s x ob' \<and> cy_world s = w' \<and> ob_pending (cy_box s) = Some sn))"
proof -
  let ?early = "length repos < 2 \<or> \<not> distinct (map re_name repos) \<or> reserve < 0 \<or> has_current (so_root so) \<or> has_manifest (so_root so)
    \<or> ob_linked ob \<or> \<not> separate \<or> busy"
  let ?pre = "bindS (load_state (binding_of (ar_hash ar) (so_path so) repos)) (\<lambda>d. bindS (clear_retired repos d) (\<lambda>_. pure (Inr d))) ob"
  have words: "member [(lit ''version'', JInt 1), (lit ''status'', JStr (lit ''coalesced''))] ''status'' = JStr (lit ''coalesced'')"
    "member deferred_doc ''status'' = JStr (lit ''deferred'')" by (simp_all add: member_def jget_def deferred_doc_def lit_def)
  show ?thesis
  proof (cases ?early)
    case True
    with assms words show ?thesis by (auto simp: backup_cycle_def split: if_splits)
  next
    case late: False
    obtain pre ob1 where pre: "?pre = (pre, ob1)" by (cases ?pre)
    then have load: "box_honest ar path repos w ob1 \<and> ob_pending ob1 = ob_pending ob \<and> (\<forall>d. pre = Inr d \<longrightarrow> state_honest ar path repos w d)"
      by (auto simp: bindS_cases pure_eq dest!: load_state_facts [OF _ assms(3)] clear_retired_facts intro: box_honest_same)
    note run = assms(1) [unfolded backup_cycle_def]
    show ?thesis
    proof (cases pre)
      case (Inl e)
      with run late pre load show ?thesis by auto
    next
      case d: (Inr d)
      show ?thesis
      proof (cases "ob_pending_linked ob1 \<or> ob_staging ob1")
        case True
        with run late pre d load words show ?thesis
          by (auto split: if_splits prod.splits dest!: record_result_facts intro: box_honest_same)
      next
        case go: False
        obtain mk ob2 where mk: "make_pending ar now free reserve so d ob1 = (mk, ob2)" by (cases "make_pending ar now free reserve so d ob1")
        have "state_honest ar path repos w d" using load d by simp
        note m = make_pending_facts [OF mk this]
        have box: "box_honest ar path repos w ob2" using load m by (auto intro: box_honest_same)
        have "works_on ar now so ob1 = works_on ar now so ob" using load by (simp add: works_on_def fun_eq_iff)
        note m = m [unfolded this]
        show ?thesis
        proof (cases "\<exists>e. mk = Inr (Inr e)")
          case False
          with run late pre d go mk m box words show ?thesis
            by (cases mk) (auto split: prod.splits sum.splits dest!: record_result_facts intro: box_honest_same)
        next
          case True
          then obtain e sn where e: "mk = Inr (Inr e)" "ob_pending ob2 = Some sn" "works_on ar now so ob sn" "state_honest ar path repos w e"
            using m by blast
          with run late pre d go mk have last: "run_pending ar now path rn reserve repos e sn (w, ob2) = (res, w', ob')" by simp
          have "distinct (map re_name repos)" "2 \<le> length repos" using late by simp_all
          with run_pending_facts [OF last assms(2) _ e(4) box] e(2,3) show ?thesis by auto
        qed
      qed
    qed
  qed
qed

lemma history_honest:
  assumes "(cycle_step ar path repos)\<^sup>*\<^sup>* (w0, new_outbox) (w, ob)" "archives_ok ar"
  shows "box_honest ar path repos w ob"
proof -
  have "box_honest ar path repos (fst st) (snd st)" if "(cycle_step ar path repos)\<^sup>*\<^sup>* (w0, new_outbox) st" for st
    using that
  proof (induction rule: rtranclp_induct)
    case base
    show ?case by (simp add: box_honest_def new_outbox_def)
  next
    case (step st st')
    from step(2,3) show ?case
    proof cases
      case (cycle now rn separate busy free reserve so res)
      have "backup_cycle ar now path rn separate busy free reserve so repos (fst st, snd st) = (res, fst st', snd st')" using cycle by simp
      from backup_cycle_facts [OF this assms(2) step(3)] show ?thesis by blast
    next
      case (outside w w' ob)
      with step(3) box_honest_grows show ?thesis by fastforce
    qed
  qed
  from this [OF assms(1)] show ?thesis by simp
qed

section \<open>What a cycle reports\<close>

definition receipt_id :: "json \<Rightarrow> json" where
  "receipt_id r = (case r of JObj d \<Rightarrow> member d ''repository_id'' | _ \<Rightarrow> JNull)"

text \<open>One receipt for each repository, each true, with pairwise different repository identities.\<close>

definition receipts_true :: "('w, 'm) archives_scheme \<Rightarrow> pystr \<Rightarrow> pystr \<Rightarrow> 'w \<Rightarrow> repository list \<Rightarrow> json list \<Rightarrow> bool" where
  "receipts_true ar path snapshot w repos receipts \<longleftrightarrow>
     list_all2 (\<lambda>repo r. \<exists>i key. r = JObj (backup_receipt repo i key snapshot path) \<and> restorable ar w (repo, key, path, snapshot)) repos receipts
     \<and> sorted_wrt (\<lambda>a b. \<not> py_eq (receipt_id a) (receipt_id b)) receipts"

lemma progress_receipts:
  assumes "progress_ok ar path snapshot repos repos s" "cy_failures s = []" "all_receipts repos (cy_state s) = Inr receipts"
    "distinct (map re_name repos)"
  shows "receipts_true ar path snapshot (cy_world s) repos receipts"
proof -
  have all: "confirmed_of repos s = set repos"
    using assms(1,2) by (auto simp: progress_ok_def split_ok_def confirmed_of_def)
  have sec: "\<exists>i. secured ar path snapshot (cy_world s) (cy_state s) r i" if "r \<in> set repos" for r
    using assms(1) all that by (auto simp: progress_ok_def secured_ok_def)
  have entry: "secured ar path snapshot (cy_world s) (cy_state s) (repos ! n) (receipt_id (receipts ! n))
      \<and> (\<exists>i key. receipts ! n = JObj (backup_receipt (repos ! n) i key snapshot path)
          \<and> restorable ar (cy_world s) (repos ! n, key, path, snapshot))" if n: "n < length repos" for n
  proof -
    from sec n obtain i where i: "secured ar path snapshot (cy_world s) (cy_state s) (repos ! n) i" by (meson nth_mem)
    then obtain rs key where rs: "state_receipts (cy_state s) = Inr rs"
      "map_of rs (re_name (repos ! n)) = Some (JObj (backup_receipt (repos ! n) i key snapshot path))"
      "restorable ar (cy_world s) (repos ! n, key, path, snapshot)" unfolding secured_def by blast
    have "list_all2 (\<lambda>r y. bindR (state_receipts (cy_state s)) (\<lambda>rs. case map_of rs (re_name r) of
        None \<Rightarrow> Inl (KeyError ''receipt'') | Some v \<Rightarrow> Inr v) = Inr y) repos receipts"
      using assms(3) by (simp add: all_receipts_def mapR_Inr_iff)
    from list_all2_nthD [OF this n] rs have "receipts ! n = JObj (backup_receipt (repos ! n) i key snapshot path)" by simp
    with i rs show ?thesis by (auto simp: receipt_id_def)
  qed
  have len: "length receipts = length repos"
    using assms(3) by (simp add: all_receipts_def mapR_Inr_iff list_all2_lengthD)
  have "\<not> py_eq (receipt_id (receipts ! m)) (receipt_id (receipts ! n))" if "m < n" "n < length repos" for m n
  proof -
    have "repos ! m \<noteq> repos ! n" using that assms(4) by (metis distinct_map nth_eq_iff_index_eq order.strict_trans less_irrefl)
    moreover have "repos ! m \<in> confirmed_of repos s" "repos ! n \<in> confirmed_of repos s" using all that by auto
    ultimately show ?thesis
      using assms(1) entry [of m] entry [of n] that unfolding progress_ok_def distinct_ok_def by auto
  qed
  with entry len show ?thesis
    by (auto simp: receipts_true_def list_all2_conv_all_nth sorted_wrt_iff_nth_less)
qed

lemma outcome_words:
  "member (partial_doc a b c) ''status'' = JStr (lit ''partial'')"
  "member (completed_json rs) ''status'' = JStr (lit ''restore_verified'')"
  "member (completed_json rs) ''receipts'' = JList rs"
  by (simp_all add: member_def jget_def partial_doc_def completed_json_def lit_def)

text \<open>
  C15: A reported backup is a backup. After any history of cycles for some repositories, a cycle that
  reports \<open>restore_verified\<close> was given at least two, and its result holds one receipt for each
  of them, with pairwise different repository identities, such that restoring the named backup at
  that time gives a recovery snapshot that verifies under the identity of the snapshot the cycle worked on:
  the pending one, or one just made from the catalog. This includes the receipts kept from
  earlier cycles. The pending snapshot is removed only then. The assumption on the backup program is that
  its commands never remove a backup.
\<close>

theorem backup_status_is_true:
  assumes "(cycle_step ar path repos)\<^sup>*\<^sup>* (w0, new_outbox) (w, ob)" "archives_ok ar"
    "backup_cycle ar now path rn separate busy free reserve so repos (w, ob) = (Inr d, w', ob')"
    "member d ''status'' = JStr (lit ''restore_verified'')"
  shows "2 \<le> length repos \<and> (\<exists>sn v receipts. works_on ar now so ob sn \<and> ar_verify ar sn = Inr v
    \<and> member d ''receipts'' = JList receipts \<and> receipts_true ar path (vf_snapshot v) w' repos receipts) \<and> ob_pending ob' = None"
proof -
  note f = backup_cycle_facts [OF assms(3,2) history_honest [OF assms(1,2)]]
  with assms(4) obtain sn v s where s: "2 \<le> length repos" "distinct (map re_name repos)" "works_on ar now so ob sn" "ar_verify ar sn = Inr v"
    "outcome ar path rn repos v s d ob'" "cy_world s = w'" by auto
  have none: "cy_failures s = []"
    using s(5) assms(4) by (auto simp: outcome_def outcome_words split: if_splits)
  with s(5) obtain receipts where r: "all_receipts repos (cy_state s) = Inr receipts" "ob_pending ob' = None"
    "d = put_member ''receipt'' (JStr rn) (completed_json receipts)" by (auto simp: outcome_def)
  have "receipts_true ar path (vf_snapshot v) (cy_world s) repos receipts"
    by (rule progress_receipts [OF _ none r(1) s(2)]) (use s(5) in \<open>simp add: outcome_def\<close>)
  with s r show ?thesis by (auto simp: outcome_words)
qed

text \<open>
  C18: A failing repository is reported and costs nothing. A cycle that reports \<open>partial\<close> names every
  repository exactly once, as verified or with the name of the exception it failed with; at least one failed.
  The snapshot stays pending, and the receipt of every verified repository is saved for the next cycle:
  it names a backup that restores to exactly this snapshot.
\<close>

theorem partial_cycle_keeps_work:
  assumes "(cycle_step ar path repos)\<^sup>*\<^sup>* (w0, new_outbox) (w, ob)" "archives_ok ar"
    "backup_cycle ar now path rn separate busy free reserve so repos (w, ob) = (Inr d, w', ob')"
    "member d ''status'' = JStr (lit ''partial'')"
  shows "\<exists>sn v ok failed e. works_on ar now so ob sn \<and> ar_verify ar sn = Inr v \<and> ob_pending ob' = Some sn
    \<and> d = partial_doc (vf_snapshot v) ok failed \<and> failed \<noteq> []
    \<and> set ok \<union> fst ` set failed = re_name ` set repos \<and> set ok \<inter> fst ` set failed = {}
    \<and> ob_state ob' = Some (JObj e) \<and> (\<forall>r \<in> set repos. re_name r \<in> set ok \<longrightarrow> (\<exists>i. secured ar path (vf_snapshot v) w' e r i))"
proof -
  note f = backup_cycle_facts [OF assms(3,2) history_honest [OF assms(1,2)]]
  with assms(4) obtain sn v s where s: "works_on ar now so ob sn" "ar_verify ar sn = Inr v"
    "outcome ar path rn repos v s d ob'" "cy_world s = w'" "ob_pending (cy_box s) = Some sn" by auto
  have some: "cy_failures s \<noteq> []"
    using s(3) assms(4) by (auto simp: outcome_def outcome_words split: if_splits)
  with s(3) have o: "progress_ok ar path (vf_snapshot v) repos repos s" "ob_pending ob' = ob_pending (cy_box s)"
    "d = partial_doc (vf_snapshot v) (cy_confirmed s) (cy_failures s)" "ob_state ob' = Some (JObj (cy_state s))"
    by (auto simp: outcome_def progress_ok_def saved_ok_def)
  then have "\<forall>r \<in> set repos. re_name r \<in> set (cy_confirmed s) \<longrightarrow> (\<exists>i. secured ar path (vf_snapshot v) w' (cy_state s) r i)"
    using s(4) by (auto simp: progress_ok_def secured_ok_def confirmed_of_def)
  moreover have "set (cy_confirmed s) \<union> fst ` set (cy_failures s) = re_name ` set repos"
    "set (cy_confirmed s) \<inter> fst ` set (cy_failures s) = {}"
    using o(1) by (simp_all add: progress_ok_def split_ok_def)
  ultimately show ?thesis using s o some by metis
qed

text \<open>An empty catalog, and repositories that give its snapshot back; some do not answer.\<close>

definition sample_repos :: "repository list" where
  "sample_repos = map (\<lambda>n. \<lparr>re_name = lit n, re_url = lit n, re_password = [], re_scratch = None\<rparr>) [''x'', ''y'']"

definition sample_database :: database where
  "sample_database = \<lparr>db_catalog = empty_catalog (lit ''a''), db_state = True\<rparr>"

definition sample_sqlite :: sqlite where
  "sample_sqlite = \<lparr>sq_dump = \<lambda>_. [], sq_open = \<lambda>_. Inr (sample_database\<lparr>db_catalog := (db_catalog sample_database)\<lparr>ct_readonly := True\<rparr>\<rparr>),
     sq_integrity = \<lambda>_. True\<rparr>"

definition sample_snapshot :: snapshot where
  "sample_snapshot = projr (staged_snapshot sample_hash sample_sqlite (lit ''t'') False sample_database empty_root)"

definition sample_archives :: "pystr set \<Rightarrow> unit archives" where
  "sample_archives working = \<lparr>ar_utc = Inr, ar_hash = sample_hash, ar_sqlite = sample_sqlite,
     ar_config = (\<lambda>r w. (if re_name r \<in> working then Inr (JObj [(lit ''id'', JStr (re_name r))]) else Inl (RuntimeError ''exit 1''), w)),
     ar_backup = (\<lambda>r sn path tag w. (Inr [JObj [(lit ''message_type'', JStr (lit ''summary'')), (lit ''snapshot_id'', JStr (lit ''b''))]], w)),
     ar_restore = (\<lambda>r key path w. (Inr sample_snapshot, w)), ar_stats = (\<lambda>r key w. (Inr JNull, w)), ar_free = (\<lambda>_ _. 0)\<rparr>"

definition sample_source :: source where
  "sample_source = \<lparr>so_path = lit ''/s'', so_database = sample_database, so_root = empty_root, so_bytes = 0\<rparr>"

lemma sample_archives_ok: "archives_ok (sample_archives working)"
  by (simp add: archives_ok_def sample_archives_def)

lemma sample_snapshot_facts:
  obtains v where "staged_snapshot sample_hash sample_sqlite (lit ''t'') False sample_database empty_root = Inr sample_snapshot"
    "verify_snapshot Inr sample_hash sample_sqlite sample_snapshot = Inr v" "vf_purpose v = JStr (lit ''recovery'')"
    "manifest_bytes sample_snapshot = Inr 0"
proof -
  have sq: "sqlite_ok sample_sqlite (target_database False sample_database)"
    by (simp add: sqlite_ok_def sample_sqlite_def target_database_def)
  have arch: "archivable Inr sample_hash (db_catalog sample_database)"
    by (simp add: archivable_def sample_database_def empty_catalog_def foreign_keys_ok_def)
  have raws: "raw_objects (db_catalog sample_database) = []" by (simp add: raw_objects_def sample_database_def empty_catalog_def)
  have avail: "available sample_hash empty_root (set (raw_objects (db_catalog sample_database)))" by (simp add: raws available_def)
  have texts: "str_ok (lit ''t'')" "str_ok (ct_identity (db_catalog sample_database))" by (simp_all add: sample_database_def empty_catalog_def)
  obtain sn v c objs where s: "staged_snapshot sample_hash sample_sqlite (lit ''t'') False sample_database empty_root = Inr sn"
    "verify_snapshot Inr sample_hash sample_sqlite sn = Inr v" "vf_purpose v = purpose_text False"
    "sn_file sn = Some (sq_dump sample_sqlite (target_database False sample_database))"
    "objs = raw_objects (db_catalog (target_database False sample_database))"
    "read_json (sn_manifest sn) = Inr (JObj (manifest_members c (lit ''t'') False (db_publication (target_database False sample_database))
       (sample_hash (sq_dump sample_sqlite (target_database False sample_database))) objs))"
    by (rule staged_verifies [OF sq hash_ok_sample arch avail texts]) (rule that)
  have sn: "sample_snapshot = sn" by (simp add: sample_snapshot_def s(1))
  have "manifest_bytes sn = Inr 0"
    using s(4) raws by (simp add: manifest_bytes_def s(5,6) subscript_def manifest_fields objects_json_def target_database_def sample_sqlite_def)
  with s show thesis by (intro that [of v]) (simp_all add: sn purpose_text_def)
qed

text \<open>A repository that works is confirmed with a new receipt; one that does not is reported.\<close>

lemma sample_works:
  assumes "verify_snapshot Inr sample_hash sample_sqlite sample_snapshot = Inr v" "vf_purpose v = JStr (lit ''recovery'')"
    "re_name r \<in> working" "state_receipts (cy_state s) = Inr rs" "map_of rs (re_name r) = None"
    "\<forall>x \<in> set (cy_known s). \<not> py_eq (JStr (re_name r)) x"
  shows "\<exists>t. try_repository (sample_archives working) path sample_snapshot (vf_snapshot v) 0 0 r s = (Inr (), t)
    \<and> cy_known t = cy_known s @ [JStr (re_name r)] \<and> cy_failures t = cy_failures s \<and> cy_confirmed t = cy_confirmed s @ [re_name r]
    \<and> state_receipts (cy_state t) = Inr (AList.update (re_name r) (JObj (backup_receipt r (JStr (re_name r)) (lit ''b'') (vf_snapshot v) path)) rs)
    \<and> ob_receipts (cy_box t) = ob_receipts (cy_box s)"
proof -
  have id: "subscript (JObj [(lit ''id'', JStr (re_name r))]) ''id'' = Inr (JStr (re_name r))" by (simp add: subscript_def item_def jget_def)
  have summary: "last_summary [JObj [(lit ''message_type'', JStr (lit ''summary'')), (lit ''snapshot_id'', JStr (lit ''b''))]] = Inr (JStr (lit ''b''))"
    by (simp add: as_dict_def member_def jget_def lit_def)
  have backup: "backup_and_verify (sample_archives working) r path sample_snapshot w
      = (Inr (backup_receipt r (JStr (re_name r)) (lit ''b'') (vf_snapshot v) path), w)" for w
    using assms(1-3) id summary
    by (simp add: backup_and_verify_def bindS_def pure_def ar_verify_def sample_archives_def verify_restore_def)
  have cached: "cached_receipt (cy_state s) (re_name r) = Inr JNull" using assms(4,5) by (simp add: cached_receipt_def)
  have config: "ar_config (sample_archives working) r w = (Inr (JObj [(lit ''id'', JStr (re_name r))]), w)"
    "ar_free (sample_archives working) r w = 0" for w using assms(3) by (simp_all add: sample_archives_def)
  have new: "in_set (JStr (re_name r)) (cy_known s) = Inr False" using assms(6) by (auto simp: in_set_def unhashable_def)
  show ?thesis
    using assms(4) by (simp add: try_repository_def fresh_backup_def bindS_def pure_def on_world_def looking_def updating_def
        has_capacity_def store_receipt_def confirm_def Let_def id backup cached config new)
qed

lemma sample_fails:
  "re_name r \<notin> working \<Longrightarrow> try_repository (sample_archives working) path sample_snapshot i 0 0 r s = (Inl (RuntimeError ''exit 1''), s)"
  by (simp add: try_repository_def bindS_def on_world_def sample_archives_def)

definition sample_cycle :: "pystr set \<Rightarrow> document result \<times> unit \<times> backup_box" where
  "sample_cycle working = backup_cycle (sample_archives working) (lit ''t'') (lit ''/o'') (lit ''r'') True False 0 0 sample_source sample_repos
     ((), new_outbox)"

lemma sample_cycle_pending:
  obtains d ob where "sample_cycle working = run_pending (sample_archives working) (lit ''t'') (lit ''/o'') (lit ''r'') 0 sample_repos d sample_snapshot ((), ob)"
    "state_receipts d = Inr []" "ob_receipts ob = []"
proof -
  obtain v where v: "staged_snapshot sample_hash sample_sqlite (lit ''t'') False sample_database empty_root = Inr sample_snapshot"
    "verify_snapshot Inr sample_hash sample_sqlite sample_snapshot = Inr v" by (rule sample_snapshot_facts)
  then obtain c where "create_snapshot Inr sample_hash sample_sqlite (lit ''t'') False sample_database empty_root None = (Inr c, Some sample_snapshot)"
    by (simp add: create_snapshot_def)
  moreover have "ar_utc (sample_archives working) = Inr" "ar_hash (sample_archives working) = sample_hash"
    "ar_sqlite (sample_archives working) = sample_sqlite" by (simp_all add: sample_archives_def)
  moreover have "raw_bytes (db_catalog sample_database) = 0"
    by (simp add: raw_bytes_def raw_objects_def sample_database_def empty_catalog_def)
  moreover have "\<not> has_current empty_root" "\<not> has_manifest empty_root" by (simp_all add: empty_root_def)
  ultimately have "\<exists>d ob. sample_cycle working = run_pending (sample_archives working) (lit ''t'') (lit ''/o'') (lit ''r'') 0 sample_repos
      (put_member ''receipts'' (JObj []) d) sample_snapshot ((), ob) \<and> ob_receipts ob = []"
    by (simp add: sample_cycle_def backup_cycle_def sample_source_def new_outbox_def load_state_def bindS_def
        clear_retired_def pure_def outbox_empty_def make_pending_def has_capacity_def sample_repos_def Let_def)
      (intro exI conjI, rule refl, simp)
  then obtain d ob where "sample_cycle working = run_pending (sample_archives working) (lit ''t'') (lit ''/o'') (lit ''r'') 0 sample_repos
      (put_member ''receipts'' (JObj []) d) sample_snapshot ((), ob) \<and> ob_receipts ob = []" by (elim exE)
  then show thesis by (intro that [of "put_member ''receipts'' (JObj []) d" ob]) simp_all
qed

lemma sample_cycle_status:
  assumes "lit ''x'' \<in> working"
  shows "\<exists>d st. sample_cycle working = (Inr d, st)
    \<and> member d ''status'' = JStr (lit (if lit ''y'' \<in> working then ''restore_verified'' else ''partial''))"
proof -
  obtain v where v: "verify_snapshot Inr sample_hash sample_sqlite sample_snapshot = Inr v" "vf_purpose v = JStr (lit ''recovery'')"
    "manifest_bytes sample_snapshot = Inr 0" by (rule sample_snapshot_facts)
  obtain d ob where run: "sample_cycle working = run_pending (sample_archives working) (lit ''t'') (lit ''/o'') (lit ''r'') 0 sample_repos d
      sample_snapshot ((), ob)" "state_receipts d = Inr []" "ob_receipts ob = []" by (rule sample_cycle_pending)
  let ?x = "\<lparr>re_name = lit ''x'', re_url = lit ''x'', re_password = [], re_scratch = None\<rparr>"
  let ?y = "\<lparr>re_name = lit ''y'', re_url = lit ''y'', re_password = [], re_scratch = None\<rparr>"
  define e where "e = (if member d ''snapshot'' \<noteq> JStr (vf_snapshot v)
      then put_member ''receipts'' (JObj []) (put_member ''snapshot'' (JStr (vf_snapshot v)) d) else d)"
  define s where "s = \<lparr>cy_world = (), cy_box = ob\<lparr>ob_state := Some (JObj e)\<rparr>, cy_state = e, cy_known = [], cy_confirmed = [], cy_failures = []\<rparr>"
  have e: "state_receipts (cy_state s) = Inr []" using run(2) by (simp add: s_def e_def)
  obtain t where t: "try_repository (sample_archives working) (lit ''/o'') sample_snapshot (vf_snapshot v) 0 0 ?x s = (Inr (), t)"
    "cy_known t = [JStr (lit ''x'')]" "cy_failures t = []" "cy_confirmed t = [lit ''x'']" "ob_receipts (cy_box t) = []"
    "state_receipts (cy_state t) = Inr [(lit ''x'', JObj (backup_receipt ?x (JStr (lit ''x'')) (lit ''b'') (vf_snapshot v) (lit ''/o'')))]"
    using sample_works [OF v(1,2) _ e, of ?x working "lit ''/o''"] assms run(3) by (auto simp: s_def)
  have result: "\<exists>st. sample_cycle working = (Inr doc, st)"
    if "try_repositories (sample_archives working) (lit ''/o'') sample_snapshot (vf_snapshot v) 0 0 [?x, ?y] s = (Inr (), u)"
      "finish_cycle (lit ''r'') v sample_repos u = (Inr doc, ob2)" "\<exists>x. result_snapshot doc = Inr x" for u doc ob2
    using that v by (auto simp: run(1) run_pending_def sample_repos_def ar_verify_def sample_archives_def record_result_def e_def [symmetric] s_def [symmetric] Let_def)
  show ?thesis
  proof (cases "lit ''y'' \<in> working")
    case False
    let ?u = "fail_with (lit ''y'') ''RuntimeError'' t"
    have a: "try_repositories (sample_archives working) (lit ''/o'') sample_snapshot (vf_snapshot v) 0 0 [?x, ?y] s = (Inr (), ?u)"
      using t(1) sample_fails [of ?y working] False by (simp add: is_reported_def exn_name_def)
    have b: "finish_cycle (lit ''r'') v sample_repos ?u
        = (Inr (partial_doc (vf_snapshot v) (cy_confirmed ?u) (cy_failures ?u)), cy_box ?u)"
      by (simp add: finish_cycle_def fail_with_def)
    have c: "\<exists>x. result_snapshot (partial_doc (vf_snapshot v) (cy_confirmed ?u) (cy_failures ?u)) = Inr x"
      by (simp add: result_snapshot_def partial_doc_def member_def jget_def lit_def)
    from result [OF a b c] obtain st where "sample_cycle working
        = (Inr (partial_doc (vf_snapshot v) (cy_confirmed ?u) (cy_failures ?u)), st)" ..
    with False show ?thesis by (cases st) (simp add: outcome_words)
  next
    case True
    obtain u where u: "try_repository (sample_archives working) (lit ''/o'') sample_snapshot (vf_snapshot v) 0 0 ?y t = (Inr (), u)"
      "cy_failures u = []" "ob_receipts (cy_box u) = []"
      "state_receipts (cy_state u) = Inr (AList.update (lit ''y'') (JObj (backup_receipt ?y (JStr (lit ''y'')) (lit ''b'') (vf_snapshot v) (lit ''/o'')))
         [(lit ''x'', JObj (backup_receipt ?x (JStr (lit ''x'')) (lit ''b'') (vf_snapshot v) (lit ''/o'')))])"
      using sample_works [OF v(1,2) _ t(6), of ?y working "lit ''/o''"] True t by (auto simp: py_eq_def same_json_def)
    then have "all_receipts sample_repos (cy_state u) = Inr [JObj (backup_receipt ?x (JStr (lit ''x'')) (lit ''b'') (vf_snapshot v) (lit ''/o'')),
        JObj (backup_receipt ?y (JStr (lit ''y'')) (lit ''b'') (vf_snapshot v) (lit ''/o''))]"
      by (simp add: all_receipts_def sample_repos_def)
    then obtain r where r: "all_receipts sample_repos (cy_state u) = Inr (JObj (backup_receipt ?x (JStr (lit ''x'')) (lit ''b'') (vf_snapshot v) (lit ''/o'')) # r)" by blast
    define doc where "doc = put_member ''receipt'' (JStr (lit ''r'')) (completed_json (JObj (backup_receipt ?x (JStr (lit ''x'')) (lit ''b'') (vf_snapshot v) (lit ''/o'')) # r))"
    have a: "try_repositories (sample_archives working) (lit ''/o'') sample_snapshot (vf_snapshot v) 0 0 [?x, ?y] s = (Inr (), u)"
      using t(1) u(1) by simp
    obtain ob2 where b: "finish_cycle (lit ''r'') v sample_repos u = (Inr doc, ob2)"
      using u(2,3) r by (simp add: finish_cycle_def doc_def Let_def)
    have word: "member doc ''status'' = JStr (lit ''restore_verified'')" by (simp add: doc_def outcome_words)
    have c: "\<exists>x. result_snapshot doc = Inr x"
      by (simp add: result_snapshot_def doc_def completed_json_def member_def jget_def lit_def put_member_def subscript_def item_def backup_receipt_def)
    from result [OF a b c] obtain st where "sample_cycle working = (Inr doc, st)" ..
    with True word show ?thesis by (cases st) simp
  qed
qed

lemma backup_status_is_true_witness:
  "\<exists>d ob (v :: verified) receipts. sample_cycle {lit ''x'', lit ''y''} = (Inr d, (), ob) \<and> member d ''receipts'' = JList receipts
    \<and> receipts_true (sample_archives {lit ''x'', lit ''y''}) (lit ''/o'') (vf_snapshot v) () sample_repos receipts"
proof -
  let ?w = "{lit ''x'', lit ''y''}"
  obtain d ob where d: "sample_cycle ?w = (Inr d, (), ob)" "member d ''status'' = JStr (lit ''restore_verified'')"
    using sample_cycle_status [of ?w] by auto
  have start: "(cycle_step (sample_archives ?w) (lit ''/o'') sample_repos)\<^sup>*\<^sup>* ((), new_outbox) ((), new_outbox)" ..
  from backup_status_is_true [OF start sample_archives_ok d(1) [unfolded sample_cycle_def] d(2)] d(1) show ?thesis by blast
qed

lemma partial_cycle_keeps_work_witness:
  "\<exists>d ob sn failed. sample_cycle {lit ''x''} = (Inr d, (), ob) \<and> ob_pending ob = Some sn \<and> failed \<noteq> []
    \<and> (\<exists>(v :: verified) ok. d = partial_doc (vf_snapshot v) ok failed)"
proof -
  let ?w = "{lit ''x''}"
  obtain d ob where d: "sample_cycle ?w = (Inr d, (), ob)" "member d ''status'' = JStr (lit ''partial'')"
    using sample_cycle_status [of ?w] by auto
  have start: "(cycle_step (sample_archives ?w) (lit ''/o'') sample_repos)\<^sup>*\<^sup>* ((), new_outbox) ((), new_outbox)" ..
  from partial_cycle_keeps_work [OF start sample_archives_ok d(1) [unfolded sample_cycle_def] d(2)] d(1) show ?thesis
    by (elim exE conjE) (intro exI conjI)
qed

end
