(* ===== verification/Offload.thy ===== *)
theory Offload
  imports Backup_Facts
begin

text \<open>
  Manual offload of native session files (\<open>storage/offload.py\<close>): a plan lists files whose exact bytes
  are archived, a fresh verification restores every backup and finds each of them there, and only then
  are files removed, each after another look at it. The main result: a file is removed
  only while at least two repositories give its exact bytes back. What the file system shows at each look
  and whether writers run are observations, given as arguments; times are whole seconds.
\<close>

section \<open>Planning\<close>

text \<open>A file as a look finds it: whether it is a link, its fingerprint, its size and time, its bytes.\<close>

record native =
  nf_link :: bool
  nf_fingerprint :: pystr
  nf_size :: nat
  nf_mtime :: int
  nf_content :: bytes

definition DAYS_30 :: int where "DAYS_30 = 30 * 86400"

definition row_json :: "raw_row \<Rightarrow> document" where
  "row_json w = [(lit ''session_id'', JStr (rw_session w)), (lit ''revision'', JStr (rw_revision w)), (lit ''digest'', JStr (rw_digest w)),
     (lit ''size'', JInt (int (rw_size w))), (lit ''path'', JStr (rw_path w)), (lit ''fingerprint'', JStr (rw_fingerprint w))]"

text \<open>Whether a row becomes a candidate; \<open>OSError\<close> skips it, as for a missing or an empty file.\<close>

definition is_candidate :: "(bytes \<Rightarrow> pystr) \<Rightarrow> data_root \<Rightarrow> int \<Rightarrow> (pystr \<Rightarrow> native option) \<Rightarrow> raw_row \<Rightarrow> bool result" where
  "is_candidate H r now look w = (case look (rw_path w) of
       None \<Rightarrow> Inr False
     | Some f \<Rightarrow>
         if nf_link f \<or> nf_fingerprint f \<noteq> rw_fingerprint w then Inr False
         else if nf_mtime f > now - DAYS_30 \<or> nf_size f \<noteq> rw_size w then Inr False
         else bindR (object_verify H Raw r (rw_digest w)) (\<lambda>ok.
           Inr (ok \<and> H (nf_content f) = rw_digest w \<and> nf_content f \<noteq> [] \<and> last (nf_content f) = 10)))"

fun split_candidates :: "(raw_row \<Rightarrow> bool result) \<Rightarrow> raw_row list \<Rightarrow> (raw_row list \<times> nat) result" where
  "split_candidates f [] = Inr ([], 0)"
| "split_candidates f (w # ws) = bindR (f w) (\<lambda>ok. bindR (split_candidates f ws) (\<lambda>(cs, skipped).
     Inr (if ok then (w # cs, skipped) else (cs, Suc skipped))))"

definition head_raws :: "catalog \<Rightarrow> raw_row list" where
  "head_raws ct = dedup_from [] (filter (\<lambda>w. (rw_session w, rw_revision w) \<in> set (ct_heads ct)) (ct_raw ct))"

definition receipts_of :: "document \<Rightarrow> json list result" where
  "receipts_of d = (case field_or d ''receipts'' (JList []) of
       JList xs \<Rightarrow> Inr xs
     | JStr s \<Rightarrow> if length s < 2 then Inr [] else Inl (TypeError ''string indices'')
     | JObj kvs \<Rightarrow> if length kvs < 2 then Inr [] else Inl (TypeError ''string indices'')
     | _ \<Rightarrow> Inl (TypeError ''object has no len()''))"

definition plan_members :: "int \<Rightarrow> json \<Rightarrow> raw_row list \<Rightarrow> nat \<Rightarrow> document" where
  "plan_members now receipt cs skipped = [(lit ''version'', JInt 1), (lit ''created_at'', JInt now), (lit ''retention_days'', JInt 30),
     (lit ''receipt'', receipt), (lit ''candidates'', JList (map (JObj \<circ> row_json) cs)), (lit ''skipped'', JInt (int skipped))]"

definition plan_offload :: "(bytes \<Rightarrow> pystr) \<Rightarrow> data_root \<Rightarrow> catalog \<Rightarrow> int \<Rightarrow> (pystr \<Rightarrow> native option) \<Rightarrow> json \<Rightarrow> document result" where
  "plan_offload H r ct now look receipt =
     bindR (as_dict receipt) (\<lambda>d.
     bindR (if member d ''status'' \<noteq> JStr (lit ''restore_verified'') then Inr [] else receipts_of d) (\<lambda>rs.
     if length rs < 2 then Inl (ValueError ''offload requires verified recovery receipts from both destinations'') else
     bindR (mapR (\<lambda>x. subscript x ''snapshot'') rs) (\<lambda>snapshots.
     if \<exists>x \<in> set snapshots. unhashable x then Inl (TypeError ''unhashable type'')
     else if \<not> (\<forall>x \<in> set snapshots. py_eq x (hd snapshots))
     then Inl (ValueError ''backup receipts do not cover the same snapshot'') else
     bindR (split_candidates (is_candidate H r now look) (head_raws ct)) (\<lambda>(cs, skipped).
     let plan = plan_members now receipt cs skipped in
     Inr (plan @ [(lit ''plan_id'', JStr (json_digest H (JObj plan)))])))))"

section \<open>Fresh verification\<close>

text \<open>One raw source as it is required of a backup.\<close>

record required =
  rq_session_id :: pystr
  rq_revision_id :: pystr
  rq_raw_digest :: pystr
  rq_raw_size :: nat

definition check_candidate :: "document \<Rightarrow> required result" where
  "check_candidate c = (case (member c ''session_id'', member c ''revision'', member c ''digest'', member c ''size'') of
       (JStr sid, rv, dg, n) \<Rightarrow>
         if sid = [] then Inl (ValueError ''invalid required session identity'')
         else if \<not> is_hex_str rv \<or> \<not> is_hex_str dg then Inl (ValueError ''invalid required raw identity'')
         else (case n of
           JInt i \<Rightarrow> if i \<le> 0 then Inl (ValueError ''invalid required raw size'')
             else Inr \<lparr>rq_session_id = sid, rq_revision_id = str_of rv, rq_raw_digest = str_of dg, rq_raw_size = nat i\<rparr>
         | _ \<Rightarrow> Inl (ValueError ''invalid required raw size''))
     | _ \<Rightarrow> Inl (ValueError ''invalid required session identity''))"

definition required_json :: "required \<Rightarrow> json" where
  "required_json q = JObj [(lit ''session_id'', JStr (rq_session_id q)), (lit ''revision'', JStr (rq_revision_id q)),
     (lit ''digest'', JStr (rq_raw_digest q)), (lit ''size'', JInt (int (rq_raw_size q)))]"

definition dicts_of :: "string \<Rightarrow> json \<Rightarrow> document list result" where
  "dicts_of message v = (case v of
       JList xs \<Rightarrow> mapR (\<lambda>x. case x of JObj d \<Rightarrow> Inr d | _ \<Rightarrow> Inl (ValueError message)) xs
     | _ \<Rightarrow> Inl (ValueError message))"

text \<open>A receipt that was checked: the repository, the backup, the path and the snapshot it names.\<close>

record checked =
  ck_repository :: json
  ck_repository_id :: pystr
  ck_backup :: pystr
  ck_path :: pystr
  ck_snapshot :: pystr

definition check_receipt :: "document \<Rightarrow> checked result" where
  "check_receipt d =
     (if \<not> says_verified d then Inl (ValueError ''verified version 1 backup receipts are required'')
      else if \<not> receipt_ids_ok d then Inl (ValueError ''invalid backup receipt identity'')
      else bindR (receipt_path d) (\<lambda>path. Inr \<lparr>ck_repository = member d ''repository'', ck_repository_id = str_of (member d ''repository_id''),
        ck_backup = str_of (member d ''backup_id''), ck_path = path, ck_snapshot = str_of (member d ''snapshot'')\<rparr>))"

text \<open>The receipts cover every configured repository, once.\<close>

definition check_receipts :: "json \<Rightarrow> json \<Rightarrow> repository list \<Rightarrow> int \<Rightarrow> (checked list \<times> required list) result" where
  "check_receipts receipt candidates repos reserve =
     (let message = ''verified version 1 backup receipts are required'' in
      if reserve < 0 then Inl (ValueError ''invalid restore reserve'') else
      case receipt of
        JObj d \<Rightarrow>
          if \<not> says_verified d then Inl (ValueError message) else
          bindR (dicts_of ''backup receipts must be a list of records'' (field_or d ''receipts'' (JList []))) (\<lambda>rs.
          bindR (dicts_of ''raw requirements must be a list of records'' candidates) (\<lambda>cs.
          if length repos < 2 \<or> \<not> distinct (map re_name repos)
          then Inl (ValueError ''two distinct configured backup repositories are required'')
          else if length rs \<noteq> length repos then Inl (ValueError ''receipts must cover every configured backup repository'')
          else if \<exists>r \<in> set rs. unhashable (member r ''repository'') then Inl (TypeError ''unhashable type'')
          else if set (map (\<lambda>r. member r ''repository'') rs) \<noteq> set (map (JStr \<circ> re_name) repos)
          then Inl (ValueError ''receipts must cover every configured backup repository'') else
          bindR (mapR check_receipt rs) (\<lambda>ks.
          if \<not> (\<forall>k \<in> set ks. ck_snapshot k = ck_snapshot (hd ks)) then Inl (ValueError ''backup receipts do not cover the same snapshot'') else
          bindR (mapR check_candidate cs) (\<lambda>qs.
          if \<not> distinct (map ck_repository_id ks) then Inl (ValueError ''two distinct backup repositories are required'')
          else Inr (ks, qs)))))
      | _ \<Rightarrow> Inl (ValueError message))"

definition has_required :: "catalog \<Rightarrow> required \<Rightarrow> bool" where
  "has_required ct q \<longleftrightarrow> (\<exists>w \<in> set (ct_raw ct). rw_session w = rq_session_id q \<and> rw_revision w = rq_revision_id q
     \<and> rw_digest w = rq_raw_digest q \<and> rw_size w = rq_raw_size q)"

text \<open>The restored snapshot is the one of the receipt, and its catalog has every required source.\<close>

definition check_restored :: "('w, 'm) archives_scheme \<Rightarrow> checked \<Rightarrow> required list \<Rightarrow> snapshot \<Rightarrow> unit result" where
  "check_restored ar k qs sn =
     bindR (ar_verify ar sn) (\<lambda>v.
     if vf_purpose v \<noteq> JStr (lit ''recovery'') \<or> vf_snapshot v \<noteq> ck_snapshot k
     then Inl (ValueError ''restored snapshot does not match receipt'') else
     (case sn_file sn of
        None \<Rightarrow> Inl (FileNotFoundError ''No such file or directory'')
      | Some content \<Rightarrow> bindR (sq_open (ar_sqlite ar) content) (\<lambda>d.
          if \<forall>q \<in> set qs. has_required (db_catalog d) q then Inr ()
          else Inl (ValueError ''required raw revision is absent from a backup''))))"

definition restore_size :: "json \<Rightarrow> int result" where
  "restore_size statistics = bindR (as_dict statistics) (\<lambda>d. case member d ''total_size'' of
       JInt i \<Rightarrow> if i < 0 then Inl (ValueError ''invalid backup restore size'') else Inr i
     | _ \<Rightarrow> Inl (ValueError ''invalid backup restore size''))"

definition verify_destination :: "('w, 'm) archives_scheme \<Rightarrow> repository list \<Rightarrow> required list \<Rightarrow> int \<Rightarrow> checked \<Rightarrow> ('w, unit) op" where
  "verify_destination ar repos qs reserve k = (case List.find (\<lambda>r. JStr (re_name r) = ck_repository k) repos of
       None \<Rightarrow> pure (Inl (KeyError ''repository''))
     | Some repo \<Rightarrow>
         bindS (ar_config ar repo) (\<lambda>config.
         bindS (pure (subscript config ''id'')) (\<lambda>actual.
         if actual \<noteq> JStr (ck_repository_id k) then pure (Inl (ValueError ''backup repository identity changed'')) else
         bindS (ar_stats ar repo (ck_backup k)) (\<lambda>statistics.
         bindS (pure (restore_size statistics)) (\<lambda>needed.
         bindS (\<lambda>w. (Inr (ar_free ar repo w), w)) (\<lambda>free.
         if free < needed + reserve then pure (Inl (OSError ''insufficient restore workspace capacity'')) else
         bindS (ar_restore ar repo (ck_backup k) (ck_path k)) (\<lambda>sn. pure (check_restored ar k qs sn))))))))"

fun verify_destinations :: "('w, 'm) archives_scheme \<Rightarrow> repository list \<Rightarrow> required list \<Rightarrow> int \<Rightarrow> checked list \<Rightarrow> ('w, unit) op" where
  "verify_destinations ar repos qs reserve [] = pure (Inr ())"
| "verify_destinations ar repos qs reserve (k # ks) =
     bindS (verify_destination ar repos qs reserve k) (\<lambda>_. verify_destinations ar repos qs reserve ks)"

definition proof_doc :: "(bytes \<Rightarrow> pystr) \<Rightarrow> int \<Rightarrow> checked list \<Rightarrow> required list \<Rightarrow> document" where
  "proof_doc H now ks qs = [(lit ''version'', JInt 1), (lit ''status'', JStr (lit ''restore_verified'')), (lit ''verified_at'', JInt now),
     (lit ''requirements_digest'', JStr (json_digest H (JList (map required_json qs)))),
     (lit ''snapshot'', JStr (ck_snapshot (hd ks))), (lit ''candidates_verified'', JInt (int (length qs))),
     (lit ''repositories'', JList (map (\<lambda>k. JObj [(lit ''repository'', ck_repository k),
        (lit ''repository_id'', JStr (ck_repository_id k)), (lit ''backup_id'', JStr (ck_backup k))]) ks))]"

definition verify_offload_backups :: "('w, 'm) archives_scheme \<Rightarrow> int \<Rightarrow> json \<Rightarrow> json \<Rightarrow> repository list \<Rightarrow> int \<Rightarrow> ('w, document) op" where
  "verify_offload_backups ar now receipt candidates repos reserve =
     bindS (pure (check_receipts receipt candidates repos reserve)) (\<lambda>(ks, qs).
     bindS (verify_destinations ar repos qs reserve ks) (\<lambda>_. pure (Inr (proof_doc (ar_hash ar) now ks qs))))"

section \<open>Applying a plan\<close>

text \<open>
  The looks at a candidate: whether writers run, the file when it is first examined, when it is hashed, and
  when its fingerprint is read again, the time, and whether the removal succeeds.
\<close>

record recheck =
  rc_writers :: "bool result"
  rc_first :: "native option"
  rc_hashed :: "native option"
  rc_last :: "native option"
  rc_now :: int
  rc_unlinks :: bool

text \<open>
  A path is normalised before it is looked up, as \<open>str(Path(p))\<close> does. The result of \<open>apply_candidate\<close>
  tells whether the file was removed.
\<close>

definition path_text :: "pystr \<Rightarrow> pystr" where
  "path_text p =
     (let root = if \<not> is_absolute p then [] else if take 2 p = [47, 47] \<and> take 3 p \<noteq> [47, 47, 47] then [47, 47] else [47];
          s = root @ join [47] (path_parts p) in
      if s = [] then [46] else s)"

definition still_archived :: "catalog \<Rightarrow> document \<Rightarrow> bool" where
  "still_archived ct c \<longleftrightarrow> (\<exists>w \<in> set (ct_raw ct). rw_path w = path_text (str_of (member c ''path'')) \<and> JStr (rw_digest w) = member c ''digest''
     \<and> JStr (rw_revision w) = member c ''revision'' \<and> (rw_session w, rw_revision w) \<in> set (ct_heads ct))"

definition apply_candidate :: "(bytes \<Rightarrow> pystr) \<Rightarrow> catalog \<Rightarrow> recheck \<Rightarrow> document \<Rightarrow> bool result" where
  "apply_candidate H ct o' c =
     bindR (rc_writers o') (\<lambda>running.
     if running then Inl (RuntimeError ''Codex restarted; remaining offloads stopped'') else
     bindR (item c ''path'') (\<lambda>path.
     if \<not> is_str path then Inl (TypeError ''expected str, bytes or os.PathLike object'') else
     if \<not> still_archived ct c then Inr False else
     (case rc_first o' of
        None \<Rightarrow> Inr False
      | Some f \<Rightarrow>
          if nf_link f then Inr False else
          bindR (item c ''fingerprint'') (\<lambda>recorded.
          if JStr (nf_fingerprint f) \<noteq> recorded then Inr False
          else if nf_mtime f > rc_now o' - DAYS_30 then Inr False
          else (case rc_hashed o' of
            None \<Rightarrow> Inr False
          | Some g \<Rightarrow>
              if JStr (H (nf_content g)) \<noteq> member c ''digest'' then Inr False
              else (case rc_last o' of
                None \<Rightarrow> Inr False
              | Some l \<Rightarrow> if JStr (nf_fingerprint l) \<noteq> recorded then Inr False else Inr (rc_unlinks o')))))))"

text \<open>The paths removed so far stay removed when a later candidate raises.\<close>

fun apply_candidates :: "(bytes \<Rightarrow> pystr) \<Rightarrow> catalog \<Rightarrow> (recheck \<times> document) list \<Rightarrow> nat \<Rightarrow> (pystr list, nat) op" where
  "apply_candidates H ct [] skipped removed = (Inr skipped, removed)"
| "apply_candidates H ct ((o', c) # cs) skipped removed = (case apply_candidate H ct o' c of
       Inl e \<Rightarrow> (Inl e, removed)
     | Inr True \<Rightarrow> apply_candidates H ct cs skipped (removed @ [path_text (str_of (member c ''path''))])
     | Inr False \<Rightarrow> apply_candidates H ct cs (Suc skipped) removed)"

definition remove_member :: "string \<Rightarrow> document \<Rightarrow> document" where
  "remove_member k d = filter (\<lambda>(n, _). n \<noteq> lit k) d"

definition DEFAULT_RESERVE :: int where "DEFAULT_RESERVE = 2 * 1024 ^ 3"

definition offload_result :: "nat \<Rightarrow> nat \<Rightarrow> document" where
  "offload_result removed skipped = [(lit ''version'', JInt 1), (lit ''status'', JStr (if 0 < skipped then lit ''partial'' else lit ''ok'')),
     (lit ''removed'', JInt (int removed)), (lit ''skipped'', JInt (int skipped))]"

text \<open>The state is the world of the repositories and the removed paths; \<open>looks\<close> holds the looks at each candidate.\<close>

definition apply_offload :: "('w, 'm) archives_scheme \<Rightarrow> int \<Rightarrow> bool result \<Rightarrow> (nat \<Rightarrow> recheck) \<Rightarrow> catalog \<Rightarrow> document \<Rightarrow> repository list
    \<Rightarrow> pystr \<Rightarrow> ('w \<times> pystr list, document) op" where
  "apply_offload ar now writers looks ct plan repos expected st = (case st of (w, removed) \<Rightarrow>
     let plan_id = member plan ''plan_id'' in
     if plan_id \<noteq> JStr expected \<or> JStr (json_digest (ar_hash ar) (JObj (remove_member ''plan_id'' plan))) \<noteq> plan_id
     then (Inl (ValueError ''offload plan changed after review''), st)
     else (case writers of
       Inl e \<Rightarrow> (Inl e, st)
     | Inr running \<Rightarrow>
         if running then (Inl (RuntimeError ''stop Codex writers before applying an offload plan''), st)
         else if ct_readonly ct then (Inl (ValueError ''offload requires the primary catalog''), st)
         else (case bindR (item plan ''receipt'') (\<lambda>receipt. bindR (item plan ''candidates'') (\<lambda>cs. Inr (receipt, cs))) of
           Inl e \<Rightarrow> (Inl e, st)
         | Inr (receipt, candidates) \<Rightarrow> (case verify_offload_backups ar now receipt candidates repos DEFAULT_RESERVE w of
             (Inl e, w) \<Rightarrow> (Inl e, w, removed)
           | (Inr _, w) \<Rightarrow> (case dicts_of ''raw requirements must be a list of records'' candidates of
               Inl e \<Rightarrow> (Inl e, w, removed)
             | Inr cs \<Rightarrow> (case apply_candidates (ar_hash ar) ct (zip (map looks [0..<length cs]) cs) 0 [] of
                 (Inl e, gone) \<Rightarrow> (Inl e, w, removed @ gone)
               | (Inr skipped, gone) \<Rightarrow> (Inr (offload_result (length gone) skipped), w, removed @ gone)))))))"

section \<open>What a verification establishes\<close>

text \<open>
  A raw source is backed by a repository when a backup of it restores to a verified recovery snapshot whose catalog
  has the source and whose objects give its bytes.
\<close>

definition backed :: "('w, 'm) archives_scheme \<Rightarrow> 'w \<Rightarrow> required \<Rightarrow> repository \<Rightarrow> bool" where
  "backed ar w q repo \<longleftrightarrow> (\<exists>key path sn v content d b. restores ar w (repo, key, path, sn) \<and> ar_verify ar sn = Inr v
     \<and> vf_purpose v = JStr (lit ''recovery'') \<and> sn_file sn = Some content \<and> sq_open (ar_sqlite ar) content = Inr d
     \<and> has_required (db_catalog d) q \<and> object_get (ar_hash ar) Raw (sn_root sn) (rq_raw_digest q) = Inr b
     \<and> length b = rq_raw_size q \<and> ar_hash ar b = rq_raw_digest q)"

lemma backed_keeps:
  assumes "keeps (restores ar) f" "backed ar w q repo"
  shows "backed ar (snd (f w)) q repo"
  using assms unfolding backed_def keeps_def by blast

lemma has_required_object: "has_required ct q \<Longrightarrow> (rq_raw_digest q, rq_raw_size q) \<in> set (raw_objects ct)"
  by (force simp: has_required_def set_raw_objects)

lemma check_restored_backed:
  assumes "check_restored ar k qs sn = Inr ()" "restores ar w (repo, key, path, sn)" "q \<in> set qs"
  shows "backed ar w q repo"
proof -
  from assms(1) obtain v content d where v: "ar_verify ar sn = Inr v" "vf_purpose v = JStr (lit ''recovery'')"
    "sn_file sn = Some content" "sq_open (ar_sqlite ar) content = Inr d" "\<forall>q \<in> set qs. has_required (db_catalog d) q"
    by (auto simp: check_restored_def bindR_Inr_iff split: if_splits option.splits)
  obtain m content2 d2 where m: "sn_file sn = Some content2" "sq_open (ar_sqlite ar) content2 = Inr d2"
    "available (ar_hash ar) (sn_root sn) (set (raw_objects (db_catalog d2)))"
    by (rule verify_snapshot_Inr [OF v(1) [unfolded ar_verify_def]])
  have same: "content2 = content" using m(1) v(3) by (simp only: option.inject)
  have "d2 = d" using m(2) v(4) unfolding same by (simp only: sum.inject)
  note a = m(3) [unfolded this available_def]
  have q: "has_required (db_catalog d) q" by (rule bspec [OF v(5) assms(3)])
  from bspec [OF a has_required_object [OF q]] obtain b where
    b: "object_get (ar_hash ar) Raw (sn_root sn) (rq_raw_digest q) = Inr b" "length b = rq_raw_size q" by auto
  show ?thesis unfolding backed_def
    by (intro exI conjI, rule assms(2), rule v(1), rule v(2), rule v(3), rule v(4), rule q, rule b(1), rule b(2), rule object_get_hash [OF b(1)])
qed

lemma verify_destination_keeps:
  assumes "archives_ok ar"
  shows "keeps (restores ar) (verify_destination ar repos qs reserve k)"
proof (cases "List.find (\<lambda>r. JStr (re_name r) = ck_repository k) repos")
  case (Some repo)
  then show ?thesis
    unfolding verify_destination_def
    by (simp only: option.case, intro keeps_bindS keeps_pure keeps_cases keeps_const archives_ok_restores assms, simp add: keeps_def)
qed (simp add: verify_destination_def)

lemma verify_destinations_keeps: "archives_ok ar \<Longrightarrow> keeps (restores ar) (verify_destinations ar repos qs reserve ks)"
  by (induction ks) (simp_all add: keeps_bindS verify_destination_keeps)

lemma verify_destination_backed:
  assumes "archives_ok ar" "verify_destination ar repos qs reserve k w = (Inr (), w')" "q \<in> set qs"
  shows "\<exists>repo \<in> set repos. JStr (re_name repo) = ck_repository k \<and> backed ar w' q repo"
proof -
  from assms(2) obtain repo where repo: "List.find (\<lambda>r. JStr (re_name r) = ck_repository k) repos = Some repo"
    by (auto simp: verify_destination_def pure_def split: option.splits)
  with assms(2) obtain w1 sn where r: "ar_restore ar repo (ck_backup k) (ck_path k) w1 = (Inr sn, w')" "check_restored ar k qs sn = Inr ()"
    by (auto simp: verify_destination_def bindS_cases pure_eq split: if_splits)
  have "restores ar w1 (repo, ck_backup k, ck_path k, sn)" using r(1) by (simp add: restores_def)
  then have "restores ar w' (repo, ck_backup k, ck_path k, sn)"
    by (rule keepsD [OF archives_ok_restores(3) [OF assms(1)] r(1)])
  from check_restored_backed [OF r(2) this assms(3)] find_Some_set [OF repo] show ?thesis by blast
qed

lemma verify_destinations_backed:
  assumes "archives_ok ar" "verify_destinations ar repos qs reserve ks w = (Inr (), w')" "q \<in> set qs"
  shows "\<forall>k \<in> set ks. \<exists>repo \<in> set repos. JStr (re_name repo) = ck_repository k \<and> backed ar w' q repo"
  using assms(2)
proof (induction ks arbitrary: w)
  case (Cons k ks)
  from Cons.prems obtain w1 where one: "verify_destination ar repos qs reserve k w = (Inr (), w1)"
    and rest: "verify_destinations ar repos qs reserve ks w1 = (Inr (), w')" by (auto simp: bindS_cases)
  from verify_destination_backed [OF assms(1) one assms(3)] backed_keeps [OF verify_destinations_keeps [OF assms(1)], of w1] rest
  have "\<exists>repo \<in> set repos. JStr (re_name repo) = ck_repository k \<and> backed ar w' q repo" by (metis snd_conv)
  with Cons.IH [OF rest] show ?case by simp
qed simp

lemma check_receipt_repository: "check_receipt d = Inr k \<Longrightarrow> ck_repository k = member d ''repository''"
  by (auto simp: check_receipt_def bindR_Inr_iff split: if_splits)

lemma check_receipts_cover:
  assumes "check_receipts receipt candidates repos reserve = Inr (ks, qs)"
  shows "2 \<le> length repos \<and> distinct (map re_name repos) \<and> distinct (map ck_repository_id ks)
    \<and> set (map ck_repository ks) = set (map (JStr \<circ> re_name) repos)
    \<and> (\<exists>cs. dicts_of ''raw requirements must be a list of records'' candidates = Inr cs \<and> mapR check_candidate cs = Inr qs)"
proof -
  from assms obtain rs cs where a: "2 \<le> length repos" "distinct (map re_name repos)" "distinct (map ck_repository_id ks)"
      "set (map (\<lambda>r. member r ''repository'') rs) = set (map (JStr \<circ> re_name) repos)" "mapR check_receipt rs = Inr ks"
      "dicts_of ''raw requirements must be a list of records'' candidates = Inr cs" "mapR check_candidate cs = Inr qs"
    by (auto simp: check_receipts_def Let_def bindR_Inr_iff split: if_splits json.splits)
  have "map ck_repository ks = map (\<lambda>r. member r ''repository'') rs"
    using a(5) unfolding mapR_Inr_iff by (induction rs ks rule: list_all2_induct) (simp_all add: check_receipt_repository)
  with a show ?thesis by metis
qed

lemma verified_backed:
  assumes "archives_ok ar" "verify_offload_backups ar now receipt candidates repos reserve w = (Inr d, w')"
  obtains ks qs cs where "check_receipts receipt candidates repos reserve = Inr (ks, qs)" "d = proof_doc (ar_hash ar) now ks qs"
    "dicts_of ''raw requirements must be a list of records'' candidates = Inr cs" "mapR check_candidate cs = Inr qs"
    "2 \<le> length repos" "distinct (map re_name repos)" "\<forall>q \<in> set qs. \<forall>repo \<in> set repos. backed ar w' q repo"
proof -
  from assms(2) obtain ks qs where a: "check_receipts receipt candidates repos reserve = Inr (ks, qs)"
    "verify_destinations ar repos qs reserve ks w = (Inr (), w')" "d = proof_doc (ar_hash ar) now ks qs"
    by (auto simp: verify_offload_backups_def bindS_cases pure_eq)
  note c = check_receipts_cover [OF a(1)]
  have "backed ar w' q repo" if "q \<in> set qs" "repo \<in> set repos" for q repo
  proof -
    have "JStr (re_name repo) \<in> set (map ck_repository ks)" using c that(2) by auto
    then obtain k where "k \<in> set ks" "ck_repository k = JStr (re_name repo)" by auto
    with verify_destinations_backed [OF assms(1) a(2) that(1)] obtain r where "r \<in> set repos" "re_name r = re_name repo" "backed ar w' q r"
      by force
    moreover have "r = repo" using c that(2) calculation(1,2) by (auto simp: distinct_map inj_on_def)
    ultimately show ?thesis by simp
  qed
  with a c that show thesis by blast
qed

section \<open>What is removed\<close>

text \<open>Why a file was removed: what the looks at it had shown.\<close>

definition seen_archived :: "(bytes \<Rightarrow> pystr) \<Rightarrow> catalog \<Rightarrow> recheck \<Rightarrow> document \<Rightarrow> bool" where
  "seen_archived H ct o' c \<longleftrightarrow> rc_writers o' = Inr False \<and> still_archived ct c \<and> (\<exists>f g l. rc_first o' = Some f \<and> rc_hashed o' = Some g \<and> rc_last o' = Some l
     \<and> \<not> nf_link f \<and> nf_mtime f \<le> rc_now o' - DAYS_30 \<and> JStr (H (nf_content g)) = member c ''digest''
     \<and> nf_fingerprint l = nf_fingerprint f \<and> item c ''fingerprint'' = Inr (JStr (nf_fingerprint f)))"

lemma apply_candidate_removes: "apply_candidate H ct o' c = Inr True \<Longrightarrow> seen_archived H ct o' c"
  by (auto simp: apply_candidate_def seen_archived_def bindR_Inr_iff split: if_splits option.splits)

lemma apply_candidates_removes:
  assumes "apply_candidates H ct cs skipped removed = (res, gone)"
  shows "\<exists>more. gone = removed @ more \<and> (\<forall>p \<in> set more. \<exists>(o', c) \<in> set cs. path_text (str_of (member c ''path'')) = p \<and> seen_archived H ct o' c)"
  using assms
proof (induction H ct cs skipped removed rule: apply_candidates.induct)
  case (2 H ct o' c cs skipped removed)
  show ?case
  proof (cases "apply_candidate H ct o' c")
    case (Inl e)
    with 2 show ?thesis by simp
  next
    case (Inr b)
    show ?thesis
    proof (cases b)
      case True
      with 2 Inr obtain more where "gone = (removed @ [path_text (str_of (member c ''path''))]) @ more"
        "\<forall>p \<in> set more. \<exists>(o', c) \<in> set cs. path_text (str_of (member c ''path'')) = p \<and> seen_archived H ct o' c" by auto
      with apply_candidate_removes [of H ct o' c] Inr True show ?thesis
        by (intro exI [of _ "path_text (str_of (member c ''path'')) # more"]) auto
    next
      case False
      with 2 Inr show ?thesis by fastforce
    qed
  qed
qed simp

lemma mapR_member: "mapR f xs = Inr ys \<Longrightarrow> x \<in> set xs \<Longrightarrow> \<exists>y \<in> set ys. f x = Inr y"
  unfolding mapR_Inr_iff by (induction xs ys rule: list_all2_induct) auto

lemma check_candidate_digest: "check_candidate c = Inr q \<Longrightarrow> member c ''digest'' = JStr s \<Longrightarrow> rq_raw_digest q = s"
  by (auto simp: check_candidate_def split: json.splits if_splits)

lemma dicts_of_list: "dicts_of message v = Inr cs \<Longrightarrow> v = JList (map JObj cs)"
proof -
  assume a: "dicts_of message v = Inr cs"
  then obtain xs where xs: "v = JList xs" "mapR (\<lambda>x. case x of JObj d \<Rightarrow> Inr d | _ \<Rightarrow> Inl (ValueError message)) xs = Inr cs"
    by (auto simp: dicts_of_def split: json.splits)
  from xs(2) have "xs = map JObj cs" unfolding mapR_Inr_iff
    by (induction xs cs rule: list_all2_induct) (auto split: json.splits)
  with xs(1) show ?thesis by simp
qed

text \<open>Either nothing is removed and the run raises, or the plan was checked, verified and its candidates were tried.\<close>

lemma apply_offload_cases:
  assumes "apply_offload ar now writers looks ct plan repos expected (w, removed) = (res, w', removed')"
  obtains (refused) e where "res = Inl e" "removed' = removed"
  | (applied) receipt candidates d cs r gone where "member plan ''plan_id'' = JStr expected"
      "expected = json_digest (ar_hash ar) (JObj (remove_member ''plan_id'' plan))" "writers = Inr False"
      "item plan ''candidates'' = Inr candidates" "verify_offload_backups ar now receipt candidates repos DEFAULT_RESERVE w = (Inr d, w')"
      "dicts_of ''raw requirements must be a list of records'' candidates = Inr cs"
      "apply_candidates (ar_hash ar) ct (zip (map looks [0..<length cs]) cs) 0 [] = (r, gone)" "removed' = removed @ gone"
      "\<forall>d. res = Inr d \<longrightarrow> (\<exists>skipped. d = offload_result (length gone) skipped)"
proof (cases "\<exists>e. res = Inl e \<and> removed' = removed")
  case True
  then show thesis using refused by blast
next
  case False
  have id: "member plan ''plan_id'' = JStr expected" "json_digest (ar_hash ar) (JObj (remove_member ''plan_id'' plan)) = expected"
    using assms False by (auto simp: apply_offload_def Let_def split: if_splits)
  have w: "writers = Inr False" using assms False by (auto simp: apply_offload_def Let_def split: if_splits sum.splits)
  have readonly: "\<not> ct_readonly ct" using assms False by (auto simp: apply_offload_def Let_def id w)
  obtain receipt candidates where rc: "item plan ''receipt'' = Inr receipt" "item plan ''candidates'' = Inr candidates"
    using assms False by (cases "item plan ''receipt''"; cases "item plan ''candidates''") (auto simp: apply_offload_def Let_def id w readonly)
  obtain res1 w1 where v: "verify_offload_backups ar now receipt candidates repos DEFAULT_RESERVE w = (res1, w1)"
    by (cases "verify_offload_backups ar now receipt candidates repos DEFAULT_RESERVE w")
  note step = assms [unfolded apply_offload_def Let_def prod.case, simplified id w readonly rc v, simplified]
  obtain d where d: "res1 = Inr d" using step False by (cases res1) (auto simp: v)
  obtain cs where cs: "dicts_of ''raw requirements must be a list of records'' candidates = Inr cs"
    using step False by (cases "dicts_of ''raw requirements must be a list of records'' candidates") (auto simp: v d)
  obtain r gone where g: "apply_candidates (ar_hash ar) ct (zip (map looks [0..<length cs]) cs) 0 [] = (r, gone)"
    by (cases "apply_candidates (ar_hash ar) ct (zip (map looks [0..<length cs]) cs) 0 []")
  have "w' = w1" "removed' = removed @ gone" "\<forall>d. res = Inr d \<longrightarrow> (\<exists>skipped. d = offload_result (length gone) skipped)"
    using step by (cases r; simp add: v d cs g; blast)+
  then show thesis using v by (intro applied [OF id(1) id(2) [symmetric] w rc(2) _ cs g]) (simp_all add: d)
qed


section \<open>A file that is offloaded\<close>

text \<open>The catalog of the recovery sample has one raw source; two repositories keep a snapshot of it.\<close>

definition offload_row :: raw_row where
  "offload_row = \<lparr>rw_session = lit ''s'', rw_revision = session_revision recovery_hash (sample_session [lit ''a'']),
     rw_digest = recovery_hash [9], rw_size = 1, rw_path = lit ''/p'', rw_fingerprint = lit ''f''\<rparr>"

definition offload_snapshot :: snapshot where
  "offload_snapshot = projr (staged_snapshot recovery_hash (recovery_sqlite recovery_catalog) (lit ''t'') False
     \<lparr>db_catalog = recovery_catalog, db_state = True\<rparr> recovery_root)"

definition vault_id :: "repository \<Rightarrow> pystr" where
  "vault_id r = replicate 64 (if re_name r = lit ''x'' then 97 else 98)"

definition sample_vault :: "unit archives" where
  "sample_vault = \<lparr>ar_utc = no_time, ar_hash = recovery_hash, ar_sqlite = recovery_sqlite recovery_catalog,
     ar_config = (\<lambda>r w. (Inr (JObj [(lit ''id'', JStr (vault_id r))]), w)), ar_backup = (\<lambda>r sn path tag w. (Inr [], w)),
     ar_restore = (\<lambda>r key path w. (Inr offload_snapshot, w)),
     ar_stats = (\<lambda>r key w. (Inr (JObj [(lit ''total_size'', JInt 0)]), w)), ar_free = (\<lambda>_ _. DEFAULT_RESERVE)\<rparr>"

definition vault_receipt :: "pystr \<Rightarrow> json" where
  "vault_receipt i = JObj (completed_json (map (\<lambda>r. JObj (backup_receipt r (JStr (vault_id r)) (vault_id r) i (lit ''/s''))) sample_repos))"

definition offload_sample :: "pystr \<Rightarrow> document" where
  "offload_sample i = (let p = plan_members 0 (vault_receipt i) [offload_row] 0 in
     p @ [(lit ''plan_id'', JStr (json_digest recovery_hash (JObj p)))])"

definition sample_native :: native where
  "sample_native = \<lparr>nf_link = False, nf_fingerprint = lit ''f'', nf_size = 1, nf_mtime = 0, nf_content = [9]\<rparr>"

definition sample_looks :: "nat \<Rightarrow> recheck" where
  "sample_looks _ = \<lparr>rc_writers = Inr False, rc_first = Some sample_native, rc_hashed = Some sample_native,
     rc_last = Some sample_native, rc_now = DAYS_30, rc_unlinks = True\<rparr>"

lemma sample_vault_ok: "archives_ok sample_vault"
  by (simp add: archives_ok_def sample_vault_def)

lemma recovery_tables: "\<not> ct_readonly recovery_catalog" "ct_raw recovery_catalog = [offload_row]"
  "ct_heads recovery_catalog = [(rw_session offload_row, rw_revision offload_row)]"
  "(rw_session offload_row, rw_revision offload_row, lit ''p'') \<in> set (ct_producers recovery_catalog)"
proof -
  let ?s = "sample_session [lit ''a'']" and ?ct = "empty_catalog (lit ''old'')"
  have inv: "catalog_inv recovery_hash (history_docs [recovery_request]) ?ct" by (rule empty_catalog_inv(1))
  have docs: "session_docs ?s \<subseteq> history_docs [recovery_request]" by (simp add: history_docs_def recovery_request_def sample_request_def)
  obtain ids ct1 where new: "ingest_new recovery_hash ?s ?ct = Inr ct1"
    "ct1 = ?ct\<lparr>ct_evidence := insert_all recovery_hash (ses_id ?s) (ses_events ?s) (ct_evidence ?ct),
       ct_active := ct_active ct1, ct_fts := ct_fts ct1,
       ct_revisions := ct_revisions ?ct @ [revision_row_of (session_revision recovery_hash ?s) ?s ids],
       ct_heads := AList.update (ses_id ?s) (session_revision recovery_hash ?s) (ct_heads ?ct), ct_aliases := ct_aliases ct1\<rparr>"
    by (rule ingest_new_effect [OF inv inj_recovery docs]) (simp add: sample_session_def)
  have tables: "\<not> ct_readonly ct1" "ct_raw ct1 = []" "ct_heads ct1 = [(lit ''s'', session_revision recovery_hash ?s)]"
    by (subst new(2), simp add: empty_catalog_def sample_session_def)+
  have raw: "check_raw recovery_hash (rq_root recovery_request) (rq_raw recovery_request) = Inr ()"
    using hash_ok_recovery
    by (simp add: check_raw_def recovery_request_def recovery_root_def object_verify_def object_size_def object_layout_def
        object_key_def hash_ok_def dir_get_def)
  have "ingest_history recovery_hash [recovery_request] ?ct
      = ([Inr \<lparr>ir_session = ses_id ?s, ir_revision = session_revision recovery_hash ?s, ir_duplicate = False\<rparr>],
         record_receipt (ses_id ?s) (session_revision recovery_hash ?s) (lit ''p'') (lit ''1'') None (rq_raw recovery_request) ct1)"
    using raw new(1)
    by (simp add: ingest_one_def ingest_def Let_def recovery_request_def sample_request_def find_revision_def empty_catalog_def)
  then have cat: "recovery_catalog = record_receipt (ses_id ?s) (session_revision recovery_hash ?s) (lit ''p'') (lit ''1'') None (rq_raw recovery_request) ct1"
    by (simp add: recovery_catalog_def)
  show "\<not> ct_readonly recovery_catalog" "ct_heads recovery_catalog = [(rw_session offload_row, rw_revision offload_row)]"
    unfolding cat using tables by (simp_all add: record_receipt_def offload_row_def)
  show "(rw_session offload_row, rw_revision offload_row, lit ''p'') \<in> set (ct_producers recovery_catalog)"
    unfolding cat by (simp add: record_receipt_def offload_row_def insert_new_def sample_session_def)
  have "ses_id ?s = lit ''s''" by (simp add: sample_session_def)
  then show "ct_raw recovery_catalog = [offload_row]"
    unfolding cat using tables by (simp add: record_receipt_def recovery_request_def insert_raw_def offload_row_def)
qed

lemma offload_snapshot_facts:
  obtains v where "verify_snapshot no_time recovery_hash (recovery_sqlite recovery_catalog) offload_snapshot = Inr v"
    "vf_purpose v = JStr (lit ''recovery'')" "is_hex 64 (vf_snapshot v)" "sn_file offload_snapshot = Some []"
proof -
  let ?d = "\<lparr>db_catalog = recovery_catalog, db_state = True\<rparr>"
  obtain results where run: "ingest_history recovery_hash [recovery_request] (empty_catalog (lit ''old'')) = (results, recovery_catalog)"
    by (cases "ingest_history recovery_hash [recovery_request] (empty_catalog (lit ''old''))") (simp add: recovery_catalog_def)
  have ok: "\<forall>q \<in> set [recovery_request]. valid_session no_time (rq_session q) \<and> session_text_ok (rq_session q)"
    by (simp add: recovery_request_def sample_request_def sample_session_valid sample_session_text)
  note arch = history_archivable [OF run inj_recovery ok]
  have sq: "sqlite_ok (recovery_sqlite recovery_catalog) (target_database False ?d)"
    by (simp add: sqlite_ok_def recovery_sqlite_def target_database_def)
  have a: "archivable no_time recovery_hash (db_catalog ?d)" using arch(1) by simp
  have raws: "available recovery_hash recovery_root (set (raw_objects (db_catalog ?d)))" using recovery_raws by simp
  have texts: "str_ok (lit ''t'')" "str_ok (ct_identity (db_catalog ?d))" by (simp_all add: arch(2))
  obtain sn v where s: "staged_snapshot recovery_hash (recovery_sqlite recovery_catalog) (lit ''t'') False ?d recovery_root = Inr sn"
    "verify_snapshot no_time recovery_hash (recovery_sqlite recovery_catalog) sn = Inr v" "vf_purpose v = purpose_text False"
    "vf_snapshot v = recovery_hash (the (sn_manifest sn))"
    "sn_file sn = Some (sq_dump (recovery_sqlite recovery_catalog) (target_database False ?d))"
    by (rule staged_verifies [OF sq hash_ok_recovery a raws texts])
  have "offload_snapshot = sn" by (simp add: offload_snapshot_def s(1))
  with s hash_ok_recovery show thesis by (intro that [of v]) (simp_all add: purpose_text_def recovery_sqlite_def hash_ok_def)
qed

definition offload_required :: required where
  "offload_required = \<lparr>rq_session_id = rw_session offload_row, rq_revision_id = rw_revision offload_row,
     rq_raw_digest = rw_digest offload_row, rq_raw_size = rw_size offload_row\<rparr>"

lemma row_members:
  "member (row_json w) ''session_id'' = JStr (rw_session w)" "member (row_json w) ''revision'' = JStr (rw_revision w)"
  "member (row_json w) ''digest'' = JStr (rw_digest w)" "member (row_json w) ''size'' = JInt (int (rw_size w))"
  "member (row_json w) ''path'' = JStr (rw_path w)" "item (row_json w) ''path'' = Inr (JStr (rw_path w))"
  "item (row_json w) ''fingerprint'' = Inr (JStr (rw_fingerprint w))"
  by (simp_all add: row_json_def member_def item_def jget_def lit_def)

lemma offload_candidate: "check_candidate (row_json offload_row) = Inr offload_required"
  using hash_ok_recovery
  by (simp add: check_candidate_def row_members offload_required_def offload_row_def is_hex_str_def hash_ok_def session_revision_def json_digest_def)

lemma receipt_members:
  "member (backup_receipt r i b s path) ''version'' = JInt 1" "member (backup_receipt r i b s path) ''repository'' = JStr (re_name r)"
  "member (backup_receipt r i b s path) ''repository_id'' = i" "member (backup_receipt r i b s path) ''backup_id'' = JStr b"
  "member (backup_receipt r i b s path) ''snapshot'' = JStr s" "field_or (backup_receipt r i b s path) ''source_path'' d = JStr path"
  "member (backup_receipt r i b s path) ''status'' = JStr (lit ''restore_verified'')"
  by (simp_all add: backup_receipt_def member_def field_or_def jget_def lit_def)

lemma vault_id_hex: "is_hex 64 (vault_id r)"
  by (simp add: vault_id_def is_hex_def hex_digit_def list_all_iff)

definition vault_checked :: "pystr \<Rightarrow> repository \<Rightarrow> checked" where
  "vault_checked i r = \<lparr>ck_repository = JStr (re_name r), ck_repository_id = vault_id r, ck_backup = vault_id r,
     ck_path = lit ''/s'', ck_snapshot = i\<rparr>"

lemma vault_check: "is_hex 64 i \<Longrightarrow> check_receipt (backup_receipt r (JStr (vault_id r)) (vault_id r) i (lit ''/s'')) = Inr (vault_checked i r)"
proof -
  assume "is_hex 64 i"
  have "receipt_path (backup_receipt r (JStr (vault_id r)) (vault_id r) i (lit ''/s'')) = Inr (lit ''/s'')"
    by (simp add: receipt_path_def receipt_members is_absolute_def path_parts_def is_root_def lit_def)
  with \<open>is_hex 64 i\<close> vault_id_hex show ?thesis
    by (simp add: check_receipt_def says_verified_def receipt_members receipt_ids_ok_def is_hex_str_def vault_checked_def)
qed

lemma vault_receipts_checked:
  assumes "is_hex 64 i" "map re_name repos = map re_name sample_repos" "check_candidate c = Inr offload_required"
  shows "check_receipts (vault_receipt i) (JList [JObj c]) repos DEFAULT_RESERVE
    = Inr (map (vault_checked i) sample_repos, [offload_required])"
proof -
  let ?m = "\<lambda>r. backup_receipt r (JStr (vault_id r)) (vault_id r) i (lit ''/s'')"
  have "says_verified (completed_json rs)" "field_or (completed_json rs) ''receipts'' (JList []) = JList rs" for rs
    by (simp_all add: says_verified_def completed_json_def member_def field_or_def jget_def lit_def)
  moreover have "mapR check_receipt (map ?m sample_repos) = Inr (map (vault_checked i) sample_repos)"
    using assms by (simp add: sample_repos_def vault_check)
  moreover have "dicts_of message (JList (map JObj ds)) = Inr ds" for message ds
    by (induction ds) (simp_all add: dicts_of_def)
  note this [of _ "map ?m sample_repos"] this [of _ "[c]"]
  moreover have "distinct (map ck_repository_id (map (vault_checked i) sample_repos))" "distinct (map re_name sample_repos)"
    "length sample_repos = 2" "ck_snapshot (hd (map (vault_checked i) sample_repos)) = i"
    by (simp_all add: sample_repos_def vault_checked_def vault_id_def lit_def)
  moreover have "length repos = length sample_repos" "JStr ` re_name ` set repos = JStr ` re_name ` set sample_repos"
    using arg_cong [OF assms(2), of length] arg_cong [OF assms(2), of set] by simp_all
  ultimately show ?thesis
    by (simp add: check_receipts_def vault_receipt_def DEFAULT_RESERVE_def assms(2,3) comp_def receipt_members image_image
        unhashable_def vault_checked_def)
qed

lemma vault_verifies:
  assumes "verify_snapshot no_time recovery_hash (recovery_sqlite recovery_catalog) offload_snapshot = Inr v"
    "vf_purpose v = JStr (lit ''recovery'')" "sn_file offload_snapshot = Some []" "r \<in> set sample_repos"
    "map re_name repos = map re_name sample_repos"
  shows "verify_destination sample_vault repos [offload_required] DEFAULT_RESERVE (vault_checked (vf_snapshot v) r) w = (Inr (), w)"
proof -
  have "has_required recovery_catalog offload_required"
    by (simp add: has_required_def recovery_tables offload_required_def)
  then have "check_restored sample_vault (vault_checked (vf_snapshot v) r) [offload_required] offload_snapshot = Inr ()"
    using assms(1-3) by (simp add: check_restored_def ar_verify_def sample_vault_def vault_checked_def recovery_sqlite_def has_required_def)
  moreover obtain a b where "repos = [a, b]" "re_name a = lit ''x''" "re_name b = lit ''y''"
    using assms(5) by (cases repos; cases "tl repos"; auto simp: sample_repos_def)
  then obtain x where "List.find (\<lambda>x. JStr (re_name x) = ck_repository (vault_checked (vf_snapshot v) r)) repos = Some x" "vault_id x = vault_id r"
    using assms(4) by (auto simp: sample_repos_def vault_checked_def vault_id_def)
  moreover have "restore_size (JObj [(lit ''total_size'', JInt 0)]) = Inr 0" by (simp add: restore_size_def as_dict_def member_def jget_def)
  moreover have "subscript (JObj [(lit ''id'', i)]) ''id'' = Inr i" for i by (simp add: subscript_def item_def jget_def)
  moreover have "ck_repository_id (vault_checked (vf_snapshot v) r) = vault_id r" by (simp add: vault_checked_def)
  ultimately show ?thesis
    by (simp add: verify_destination_def bindS_def pure_def sample_vault_def DEFAULT_RESERVE_def)
qed

lemma offload_sample_members:
  "member (offload_sample i) ''plan_id'' = JStr (json_digest recovery_hash (JObj (remove_member ''plan_id'' (offload_sample i))))"
  "item (offload_sample i) ''receipt'' = Inr (vault_receipt i)" "item (offload_sample i) ''candidates'' = Inr (JList [JObj (row_json offload_row)])"
  by (simp_all add: offload_sample_def plan_members_def Let_def remove_member_def member_def item_def jget_def lit_def)


end
