(* ===== verification/Jobs.thy ===== *)
theory Jobs
  imports Offload
begin

text \<open>
  Verification jobs of the primary (\<open>storage/verification_jobs.py\<close>) and the routes that submit and
  poll them (\<open>interfaces/server.py\<close>). A job runs in a process of its own that holds the lock of
  the job directory; its record is replaced atomically, so a crash leaves a record that says queued
  or running and a lock that is free. Times are whole seconds.
\<close>

section \<open>State\<close>

text \<open>
  A scratch directory: whether it is a link, what its ownership marker holds, and its other members.
\<close>

datatype entry_kind = PlainEntry | LinkEntry | DirEntry

record scratch =
  sd_linked :: bool
  sd_owner :: "json option"
  sd_members :: "(pystr \<times> entry_kind) list"

text \<open>
  A worker process: its job, the record it keeps in memory once it has read it, and the repositories
  for which it has made scratch directories.
\<close>

record worker =
  wk_job :: pystr
  wk_record :: "document option"
  wk_ready :: "repository list"

text \<open>
  The job directory: the records by job, the names of staged files, whether the directory is a link; the
  worker that holds the lock, and the scratch directories by path. A record is kept as the document its file
  encodes. The paths of the repositories' configuration and of the receipt are constants of the server.
\<close>

record job_config =
  jc_repositories :: pystr
  jc_receipt :: pystr

record 'w job_box =
  jx_world :: 'w
  jx_records :: "(pystr \<times> document) list"
  jx_staged :: "pystr list"
  jx_linked :: bool
  jx_worker :: "worker option"
  jx_scratch :: "(pystr \<times> scratch) list"

definition jx_locked :: "('w, 'm) job_box_scheme \<Rightarrow> bool" where
  "jx_locked st \<longleftrightarrow> jx_worker st \<noteq> None"

definition TTL :: int where "TTL = 900"

definition MAX_JOBS :: nat where "MAX_JOBS = 32"

definition RECORD_MAX :: nat where "RECORD_MAX = 65536"

definition write_record :: "pystr \<Rightarrow> document \<Rightarrow> ('w, 'm) job_box_scheme \<Rightarrow> ('w, 'm) job_box_scheme" where
  "write_record job d st = st\<lparr>jx_records := AList.update job d (jx_records st)\<rparr>"

definition read_record :: "pystr \<Rightarrow> ('w, 'm) job_box_scheme \<Rightarrow> document result" where
  "read_record job st = (case map_of (jx_records st) job of
       None \<Rightarrow> Inl (FileNotFoundError ''No such file or directory'')
     | Some d \<Rightarrow> if RECORD_MAX < length (encode_json (JObj d)) then Inl (ValueError ''invalid verification record'') else Inr d)"

definition put_scratch :: "pystr \<Rightarrow> scratch option \<Rightarrow> ('w, 'm) job_box_scheme \<Rightarrow> ('w, 'm) job_box_scheme" where
  "put_scratch path x st = st\<lparr>jx_scratch := (case x of
       None \<Rightarrow> AList.delete path (jx_scratch st) | Some y \<Rightarrow> AList.update path y (jx_scratch st))\<rparr>"

section \<open>Scratch directories\<close>

definition scratch_name :: "pystr \<Rightarrow> nat \<Rightarrow> pystr" where
  "scratch_name job i = lit ''.offload-'' @ job @ [45] @ show_nat i"

definition path_name :: "pystr \<Rightarrow> pystr" where
  "path_name p = (case rev (path_parts p) of [] \<Rightarrow> [] | s # _ \<Rightarrow> s)"

definition owner_json :: "pystr \<Rightarrow> json" where
  "owner_json job = JObj [(lit ''version'', JInt 1), (lit ''job_id'', JStr job)]"

text \<open>Before the marker is published only its staging can exist; those files are removed one after another.\<close>

fun drop_staging :: "(pystr \<times> entry_kind) list \<Rightarrow> (pystr \<times> entry_kind) list \<times> bool" where
  "drop_staging [] = ([], True)"
| "drop_staging ((name, k) # xs) =
     (if take 14 name \<noteq> lit ''.verification-'' \<or> k \<noteq> PlainEntry then ((name, k) # xs, False) else drop_staging xs)"

definition cleanup_one :: "pystr \<Rightarrow> nat \<Rightarrow> pystr \<Rightarrow> (('w, 'm) job_box_scheme, unit) op" where
  "cleanup_one job i path st =
     (let known = map_of (jx_scratch st) path in
      if \<not> is_absolute path \<or> path_name path \<noteq> scratch_name job i \<or> (case known of Some x \<Rightarrow> sd_linked x | None \<Rightarrow> False)
      then (Inl (ValueError ''invalid verification scratch identity''), st)
      else (case known of
        None \<Rightarrow> (Inr (), st)
      | Some x \<Rightarrow> (case sd_owner x of
          None \<Rightarrow> (case drop_staging (sd_members x) of
              (rest, True) \<Rightarrow> (Inr (), put_scratch path None st)
            | (rest, False) \<Rightarrow> (Inl (ValueError ''unowned verification scratch is not empty''),
                put_scratch path (Some (x\<lparr>sd_members := rest\<rparr>)) st))
        | Some v \<Rightarrow> if \<not> py_eq v (owner_json job) then (Inl (ValueError ''verification scratch ownership changed''), st)
            else (Inr (), put_scratch path None st))))"

fun cleanup_from :: "pystr \<Rightarrow> nat \<Rightarrow> json list \<Rightarrow> (('w, 'm) job_box_scheme, unit) op" where
  "cleanup_from job i [] st = (Inr (), st)"
| "cleanup_from job i (v # vs) st = (case v of
       JStr path \<Rightarrow> bindS (cleanup_one job i path) (\<lambda>_. cleanup_from job (Suc i) vs) st
     | _ \<Rightarrow> (Inl (TypeError ''expected str, bytes or os.PathLike object''), st))"

text \<open>The scratch directories that a record lists are removed; the answer is the record without the list.\<close>

definition cleanup_scratch :: "pystr \<Rightarrow> document \<Rightarrow> (('w, 'm) job_box_scheme, document) op" where
  "cleanup_scratch job d st = (case field_or d ''scratch'' (JList []) of
       JList vs \<Rightarrow> (case cleanup_from job 0 vs st of
           (Inl e, st) \<Rightarrow> (Inl e, st) | (Inr _, st) \<Rightarrow> (Inr (remove_member ''scratch'' d), st))
     | _ \<Rightarrow> (Inl (TypeError ''not iterable''), st))"

section \<open>Submitting and polling\<close>

definition check_requirement :: "json \<Rightarrow> unit result" where
  "check_requirement v = (case v of
       JObj row \<Rightarrow>
         if \<not> keys_exactly row [''session_id'', ''revision'', ''digest'', ''size''] then Inl (ValueError ''invalid raw requirement fields'')
         else (case member row ''session_id'' of
           JStr sid \<Rightarrow>
             if \<not> (0 < length sid \<and> length sid \<le> 512) then Inl (ValueError ''invalid session identity'')
             else if \<not> is_hex_str (member row ''revision'') \<or> \<not> is_hex_str (member row ''digest'') then Inl (ValueError ''invalid raw identity'')
             else (case member row ''size'' of
               JInt n \<Rightarrow> if 0 < n \<and> n \<le> RAW_MAX then Inr () else Inl (ValueError ''invalid raw size'')
             | _ \<Rightarrow> Inl (ValueError ''invalid raw size''))
         | _ \<Rightarrow> Inl (ValueError ''invalid session identity''))
     | _ \<Rightarrow> Inl (ValueError ''invalid raw requirement fields''))"

definition check_submission :: "json \<Rightarrow> json \<Rightarrow> (pystr \<times> json list) result" where
  "check_submission nonce requirements = (case (nonce, requirements) of
       (JStr n, JList rows) \<Rightarrow>
         if \<not> is_hex 64 n then Inl (ValueError ''a fresh 256-bit request nonce is required'')
         else if \<not> (1 \<le> length rows \<and> length rows \<le> 100) then Inl (ValueError ''verification accepts 1-100 raw requirements'')
         else bindR (mapR check_requirement rows) (\<lambda>_.
           if 49152 < length (encode_json (JList rows)) then Inl (ValueError ''raw requirements exceed request budget'') else Inr (n, rows))
     | (JStr n, _) \<Rightarrow> Inl (ValueError (if is_hex 64 n then ''verification accepts 1-100 raw requirements''
           else ''a fresh 256-bit request nonce is required''))
     | _ \<Rightarrow> Inl (ValueError ''a fresh 256-bit request nonce is required''))"

definition owner_of :: "(bytes \<Rightarrow> pystr) \<Rightarrow> pystr \<Rightarrow> pystr" where
  "owner_of H producer = H (utf8 producer)"

definition job_id :: "(bytes \<Rightarrow> pystr) \<Rightarrow> pystr \<Rightarrow> pystr \<Rightarrow> json list \<Rightarrow> pystr" where
  "job_id H owner nonce rows = json_digest H (JList [JStr owner, JStr nonce, JList rows])"

definition job_status :: "string \<Rightarrow> document" where
  "job_status s = [(lit ''version'', JInt 1), (lit ''status'', JStr (lit s))]"

text \<open>A job whose worker is gone is reported as interrupted: its lock can be taken.\<close>

definition is_active :: "json \<Rightarrow> bool" where
  "is_active v \<longleftrightarrow> v = JStr (lit ''queued'') \<or> v = JStr (lit ''running'')"

definition later :: "int \<Rightarrow> json \<Rightarrow> bool result" where
  "later now v = (case int_of v of None \<Rightarrow> Inl (TypeError ''not supported between instances'') | Some t \<Rightarrow> Inr (now > t))"

definition poll :: "(bytes \<Rightarrow> pystr) \<Rightarrow> int \<Rightarrow> pystr \<Rightarrow> pystr \<Rightarrow> (('w, 'm) job_box_scheme, document) op" where
  "poll H now producer job st = (if \<not> is_hex 64 job then Inl (ValueError ''invalid verification job identity'') else
     (case read_record job st of
        Inl (FileNotFoundError _) \<Rightarrow> Inr (job_status ''unavailable'')
      | Inl e \<Rightarrow> Inl e
      | Inr d \<Rightarrow> bindR (item d ''owner'') (\<lambda>owner.
          if owner \<noteq> JStr (owner_of H producer) then Inr (job_status ''unavailable'') else
          bindR (item d ''status'') (\<lambda>status.
          bindR (if is_active status then Inr (if jx_locked st then status else JStr (lit ''interrupted''))
                 else bindR (item d ''expires_at'') (\<lambda>t. bindR (later now t) (\<lambda>over. Inr (if over then JStr (lit ''expired'') else status)))) (\<lambda>status.
          bindR (item d ''nonce'') (\<lambda>nonce.
          let answer = [(lit ''version'', JInt 1), (lit ''status'', status), (lit ''job_id'', JStr job), (lit ''nonce'', nonce)] in
          if status = JStr (lit ''restore_verified'')
          then bindR (item d ''proof'') (\<lambda>p. bindR (item d ''expires_at'') (\<lambda>t.
            Inr (answer @ [(lit ''proof'', p), (lit ''expires_at'', t)])))
          else Inr answer))))), st)"

definition ended :: "int \<Rightarrow> string \<Rightarrow> document \<Rightarrow> document" where
  "ended now s d = put_member ''expires_at'' (JInt (now + TTL)) (put_member ''completed_at'' (JInt now) (put_member ''status'' (JStr (lit s)) d))"

text \<open>
  The records of earlier jobs: an abandoned one is marked interrupted, an expired one is removed. \<open>False\<close> tells
  that scratch space could not be reclaimed.
\<close>

fun sweep :: "int \<Rightarrow> pystr list \<Rightarrow> (('w, 'm) job_box_scheme, bool) op" where
  "sweep now [] st = (Inr True, st)"
| "sweep now (job # jobs) st = (case read_record job st of
       Inl e \<Rightarrow> (Inl e, st)
     | Inr d \<Rightarrow> (case cleanup_scratch (str_of (member d ''job_id'')) d st of
         (Inl e, st) \<Rightarrow> if is_value_error e \<or> is_os_error e then (Inr False, st) else (Inl e, st)
       | (Inr d, st) \<Rightarrow> (case item d ''status'' of
           Inl e \<Rightarrow> (Inl e, st)
         | Inr status \<Rightarrow>
             if is_active status then sweep now jobs (write_record job (ended now ''interrupted'' d) st)
             else (case bindR (item d ''expires_at'') (\<lambda>t. case int_of t of
                 None \<Rightarrow> Inl (TypeError ''not supported between instances'') | Some i \<Rightarrow> Inr (i < now)) of
               Inl e \<Rightarrow> (Inl e, st)
             | Inr True \<Rightarrow> sweep now jobs (st\<lparr>jx_records := AList.delete job (jx_records st)\<rparr>)
             | Inr False \<Rightarrow> sweep now jobs st))))"

definition new_record :: "job_config \<Rightarrow> int \<Rightarrow> pystr \<Rightarrow> pystr \<Rightarrow> pystr \<Rightarrow> json list \<Rightarrow> document" where
  "new_record cfg now job owner nonce rows = [(lit ''version'', JInt 1), (lit ''job_id'', JStr job), (lit ''owner'', JStr owner),
     (lit ''nonce'', JStr nonce), (lit ''requirements'', JList rows), (lit ''status'', JStr (lit ''queued'')), (lit ''created_at'', JInt now),
     (lit ''repositories_path'', JStr (jc_repositories cfg)), (lit ''receipt_path'', JStr (jc_receipt cfg))]"

text \<open>The worker inherits the lock; \<open>spawns\<close> tells whether its process could be started.\<close>

definition start_worker :: "job_config \<Rightarrow> int \<Rightarrow> bool \<Rightarrow> pystr \<Rightarrow> pystr \<Rightarrow> pystr \<Rightarrow> json list \<Rightarrow> (('w, 'm) job_box_scheme, document) op" where
  "start_worker cfg now spawns job owner nonce rows st =
     (let d = new_record cfg now job owner nonce rows in
      if spawns then (Inr (job_status ''queued'' @ [(lit ''job_id'', JStr job), (lit ''nonce'', JStr nonce)]), 
        (write_record job d st)\<lparr>jx_worker := Some \<lparr>wk_job = job, wk_record = None, wk_ready = []\<rparr>\<rparr>)
      else (Inl (OSError ''cannot start process''), write_record job (ended now ''failed'' d) st))"

definition submit :: "(bytes \<Rightarrow> pystr) \<Rightarrow> job_config \<Rightarrow> int \<Rightarrow> bool \<Rightarrow> pystr \<Rightarrow> json \<Rightarrow> json \<Rightarrow> (('w, 'm) job_box_scheme, document) op" where
  "submit H cfg now spawns producer nonce requirements st = (case check_submission nonce requirements of
       Inl e \<Rightarrow> (Inl e, st)
     | Inr (n, rows) \<Rightarrow> (let owner = owner_of H producer; job = job_id H owner n rows in
         if jx_linked st then (Inl (ValueError ''verification directory must not be a symlink''), st)
         else if map_of (jx_records st) job \<noteq> None then poll H now producer job st
         else if jx_locked st then (Inr (job_status ''busy''), st)
         else (let st = st\<lparr>jx_staged := []\<rparr> in
           if MAX_JOBS < length (jx_records st) then (Inr (job_status ''unavailable''), st)
           else (case sweep now (map fst (jx_records st)) st of
             (Inl e, st) \<Rightarrow> (Inl e, st)
           | (Inr False, st) \<Rightarrow> (Inr (job_status ''unavailable''), st)
           | (Inr True, st) \<Rightarrow> if MAX_JOBS \<le> length (jx_records st) then (Inr (job_status ''busy''), st)
               else start_worker cfg now spawns job owner n rows st))))"

section \<open>The worker\<close>

text \<open>
  A worker refuses to run without the lock it should have inherited. It publishes each scratch directory in its record
  before it makes it, and the marker of ownership in it.
\<close>

definition begin_job :: "bool \<Rightarrow> pystr \<Rightarrow> (('w, 'm) job_box_scheme, document) op" where
  "begin_job inherited job st =
     (if \<not> inherited then (Inl (ValueError ''incorrect verification lock''), st)
      else (case read_record job st of
        Inl e \<Rightarrow> (Inl e, st)
      | Inr d \<Rightarrow> (let d = put_member ''status'' (JStr (lit ''running'')) d in (Inr d, write_record job d st))))"

definition prepare_one :: "(repository \<Rightarrow> pystr) \<Rightarrow> pystr \<Rightarrow> nat \<Rightarrow> repository \<Rightarrow> document
    \<Rightarrow> (('w, 'm) job_box_scheme, repository \<times> document) op" where
  "prepare_one parent job i repo d st =
     (let path = parent repo @ [47] @ scratch_name job i in
      if map_of (jx_scratch st) path \<noteq> None then (Inl (FileExistsError ''verification scratch already exists''), st)
      else (case field_or d ''scratch'' (JList []) of
        JList vs \<Rightarrow> (let d = put_member ''scratch'' (JList (vs @ [JStr path])) d in
          (Inr (repo\<lparr>re_scratch := Some path\<rparr>, d),
            put_scratch path (Some \<lparr>sd_linked = False, sd_owner = Some (owner_json job), sd_members = []\<rparr>) (write_record job d st)))
      | _ \<Rightarrow> (Inl (AttributeError ''append''), st)))"

text \<open>The record so far is kept when a later repository fails: its list of directories is needed for the cleanup.\<close>

fun prepare_all :: "(repository \<Rightarrow> pystr) \<Rightarrow> pystr \<Rightarrow> nat \<Rightarrow> repository list \<Rightarrow> repository list \<Rightarrow> document
    \<Rightarrow> ('w, 'm) job_box_scheme \<Rightarrow> repository list result \<times> document \<times> ('w, 'm) job_box_scheme" where
  "prepare_all parent job i ready [] d st = (Inr ready, d, st)"
| "prepare_all parent job i ready (repo # repos) d st = (case prepare_one parent job i repo d st of
       (Inl e, st) \<Rightarrow> (Inl e, d, st)
     | (Inr (r, d), st) \<Rightarrow> prepare_all parent job (Suc i) (ready @ [r]) repos d st)"

definition verify_job :: "('w, 'm) archives_scheme \<Rightarrow> int \<Rightarrow> json result \<Rightarrow> repository list \<Rightarrow> document \<Rightarrow> (('w, 'n) job_box_scheme, document) op" where
  "verify_job ar now receipt repos d st = (case bindR receipt (\<lambda>r. bindR (item d ''requirements'') (\<lambda>q. Inr (r, q))) of
       Inl e \<Rightarrow> (Inl e, st)
     | Inr (r, q) \<Rightarrow> (case verify_offload_backups ar now r q repos DEFAULT_RESERVE (jx_world st) of
         (res, w) \<Rightarrow> (res, st\<lparr>jx_world := w\<rparr>)))"

text \<open>Whatever the attempt raised, the result says only that the job failed; so it does when scratch space cannot be reclaimed.\<close>

definition finish_job :: "int \<Rightarrow> pystr \<Rightarrow> document result \<Rightarrow> document \<Rightarrow> ('w, 'm) job_box_scheme \<Rightarrow> ('w, 'm) job_box_scheme" where
  "finish_job now job attempt d st =
     (let (s, d) = (case attempt of Inr p \<Rightarrow> (''restore_verified'', put_member ''proof'' (JObj p) d) | Inl _ \<Rightarrow> (''failed'', d)) in
      case cleanup_scratch job d st of
        (Inl e, st) \<Rightarrow> write_record job (ended now ''failed'' d) st
      | (Inr d, st) \<Rightarrow> write_record job (ended now s d) st)"

definition run_job :: "('w, 'm) archives_scheme \<Rightarrow> int \<Rightarrow> bool \<Rightarrow> pystr \<Rightarrow> repository list result \<Rightarrow> json result
    \<Rightarrow> (repository \<Rightarrow> pystr) \<Rightarrow> (('w, 'n) job_box_scheme, unit) op" where
  "run_job ar now inherited job rows receipt parent st = (case begin_job inherited job st of
       (Inl e, st) \<Rightarrow> (Inl e, st\<lparr>jx_worker := None\<rparr>)
     | (Inr d, st) \<Rightarrow> (case load_repositories rows of
         Inl e \<Rightarrow> (Inr (), (finish_job now job (Inl e) d st)\<lparr>jx_worker := None\<rparr>)
       | Inr repos \<Rightarrow> (case prepare_all parent job 0 [] repos d st of
           (Inl e, d, st) \<Rightarrow> (Inr (), (finish_job now job (Inl e) d st)\<lparr>jx_worker := None\<rparr>)
         | (Inr ready, d, st) \<Rightarrow> (case verify_job ar now receipt ready d st of
             (attempt, st) \<Rightarrow> (Inr (), (finish_job now job attempt d st)\<lparr>jx_worker := None\<rparr>)))))"

section \<open>The routes\<close>

text \<open>
  A value compared with an integer column: a text that is a number would be converted; the model takes sizes
  as clients send them, as integers.
\<close>

definition owned_by :: "catalog \<Rightarrow> pystr \<Rightarrow> document \<Rightarrow> bool result" where
  "owned_by ct producer row =
     bindR (item row ''session_id'') (\<lambda>s. bindR (item row ''revision'') (\<lambda>r. bindR (item row ''digest'') (\<lambda>g. bindR (item row ''size'') (\<lambda>n.
     bindR (sql_text s) (\<lambda>sid. bindR (sql_text r) (\<lambda>rv. bindR (sql_text g) (\<lambda>dg. bindR (sql_text n) (\<lambda>_.
     Inr (\<exists>w \<in> set (ct_raw ct). Some (rw_session w) = sid \<and> Some (rw_revision w) = rv \<and> Some (rw_digest w) = dg
       \<and> int_of n = Some (int (rw_size w)) \<and> (rw_session w, rw_revision w, producer) \<in> set (ct_producers ct))))))))))"

fun check_owned :: "catalog \<Rightarrow> pystr \<Rightarrow> json list \<Rightarrow> unit result" where
  "check_owned ct producer [] = Inr ()"
| "check_owned ct producer (v # vs) = (case v of
       JObj row \<Rightarrow> bindR (owned_by ct producer row) (\<lambda>ok. if ok then check_owned ct producer vs
         else Inl (HTTPException 403 ''raw requirement is not acknowledged for this device''))
     | _ \<Rightarrow> Inl (ValueError ''invalid raw requirement''))"

definition check_configured :: "server_config \<Rightarrow> bool \<Rightarrow> unit result" where
  "check_configured cfg configured =
     (if sc_readonly cfg then Inl (HTTPException 409 ''standby cannot verify offload'')
      else if \<not> configured then Inl (HTTPException 503 ''offload verification is not configured'') else Inr ())"

definition submit_verification :: "(bytes \<Rightarrow> pystr) \<Rightarrow> server_config \<Rightarrow> job_config option \<Rightarrow> int \<Rightarrow> bool \<Rightarrow> catalog \<Rightarrow> pystr \<Rightarrow> document
    \<Rightarrow> (('w, 'm) job_box_scheme, document) op" where
  "submit_verification H cfg jobs now spawns ct producer data st =
     (case bindR (check_configured cfg (jobs \<noteq> None)) (\<lambda>_.
        if \<not> keys_exactly data [''nonce'', ''requirements''] then Inl (ValueError ''invalid verification request fields'')
        else (case field data ''requirements'' of
          JList rows \<Rightarrow> if \<not> (1 \<le> length rows \<and> length rows \<le> 100) then Inl (ValueError ''verification accepts 1-100 raw requirements'')
            else check_owned ct producer rows
        | _ \<Rightarrow> Inl (ValueError ''verification accepts 1-100 raw requirements''))) of
       Inl e \<Rightarrow> (Inl e, st)
     | Inr _ \<Rightarrow> submit H (the jobs) now spawns producer (field data ''nonce'') (field data ''requirements'') st)"

definition poll_verification :: "(bytes \<Rightarrow> pystr) \<Rightarrow> server_config \<Rightarrow> job_config option \<Rightarrow> int \<Rightarrow> pystr \<Rightarrow> pystr
    \<Rightarrow> (('w, 'm) job_box_scheme, document) op" where
  "poll_verification H cfg jobs now producer job st = (case check_configured cfg (jobs \<noteq> None) of
       Inl e \<Rightarrow> (Inl e, st) | Inr _ \<Rightarrow> poll H now producer job st)"

end
