(* ===== verification/Job_Facts.thy ===== *)
theory Job_Facts
  imports Jobs
begin

text \<open>
  What the histories of a job directory keep: every record is well typed and bound to its owner, its
  nonce and its requirements, a verified one carries a proof that a verification made, and the
  directory stays bounded. A worker can crash between any two of its steps.
\<close>

section \<open>Steps\<close>

text \<open>
  Besides requests and the steps of the worker, the repositories change (backups in them stay as they are), and a crash
  of the worker frees the lock and leaves the scratch directories in any state.
\<close>

inductive job_step :: "('w, 'm) archives_scheme \<Rightarrow> job_config \<Rightarrow> (repository \<Rightarrow> pystr) \<Rightarrow> 'w job_box \<Rightarrow> 'w job_box \<Rightarrow> bool"
  for ar cfg parent where
  submitted: "submit (ar_hash ar) cfg now spawns producer nonce rows st = (res, st') \<Longrightarrow> job_step ar cfg parent st st'"
| changed: "(\<And>x. restores ar (jx_world st) x \<Longrightarrow> restores ar w x) \<Longrightarrow> job_step ar cfg parent st (st\<lparr>jx_world := w\<rparr>)"
| began: "jx_worker st = Some wk \<Longrightarrow> wk_record wk = None \<Longrightarrow> begin_job True (wk_job wk) st = (Inr d, st')
    \<Longrightarrow> job_step ar cfg parent st (st'\<lparr>jx_worker := Some (wk\<lparr>wk_record := Some d\<rparr>)\<rparr>)"
| prepared: "jx_worker st = Some wk \<Longrightarrow> wk_record wk = Some d
    \<Longrightarrow> prepare_one parent (wk_job wk) (length (wk_ready wk)) repo d st = (Inr (r, e), st')
    \<Longrightarrow> job_step ar cfg parent st (st'\<lparr>jx_worker := Some (wk\<lparr>wk_record := Some e, wk_ready := wk_ready wk @ [r]\<rparr>)\<rparr>)"
| failed: "jx_worker st = Some wk \<Longrightarrow> wk_record wk = Some d
    \<Longrightarrow> job_step ar cfg parent st ((finish_job now (wk_job wk) (Inl e) d st)\<lparr>jx_worker := None\<rparr>)"
| finished: "jx_worker st = Some wk \<Longrightarrow> wk_record wk = Some d \<Longrightarrow> verify_job ar t receipt (wk_ready wk) d st = (attempt, st')
    \<Longrightarrow> job_step ar cfg parent st ((finish_job now (wk_job wk) attempt d st')\<lparr>jx_worker := None\<rparr>)"
| crashed: "jx_worker st = Some wk \<Longrightarrow> job_step ar cfg parent st (st\<lparr>jx_worker := None, jx_scratch := anything\<rparr>)"

definition new_jobs :: "'w \<Rightarrow> 'w job_box" where
  "new_jobs w = \<lparr>jx_world = w, jx_records = [], jx_staged = [], jx_linked = False, jx_worker = None, jx_scratch = []\<rparr>"

section \<open>Records\<close>

text \<open>What a proof is worth: every repository gives back every required source, as the proof's digest names them.\<close>

definition proved :: "('w, 'm) archives_scheme \<Rightarrow> 'w \<Rightarrow> json list \<Rightarrow> json \<Rightarrow> bool" where
  "proved ar w rows p \<longleftrightarrow> (\<exists>t ks qs cs repos. rows = map JObj cs \<and> mapR check_candidate cs = Inr qs
     \<and> p = JObj (proof_doc (ar_hash ar) t ks qs) \<and> 2 \<le> length repos \<and> distinct (map re_name repos)
     \<and> (\<forall>q \<in> set qs. \<forall>repo \<in> set repos. backed ar w q repo))"

definition end_states :: "pystr set" where
  "end_states = {lit ''interrupted'', lit ''failed'', lit ''restore_verified''}"

text \<open>The members of a record and their types, apart from its state and what a state requires.\<close>

definition fields_ok :: "(bytes \<Rightarrow> pystr) \<Rightarrow> pystr \<Rightarrow> document \<Rightarrow> json list \<Rightarrow> bool" where
  "fields_ok H job d rows \<longleftrightarrow> (\<exists>owner nonce. item d ''owner'' = Inr (JStr owner) \<and> item d ''nonce'' = Inr (JStr nonce)
     \<and> job = job_id H owner nonce rows) \<and> item d ''requirements'' = Inr (JList rows) \<and> item d ''job_id'' = Inr (JStr job)
     \<and> (\<exists>paths. field_or d ''scratch'' (JList []) = JList (map JStr paths))"

definition state_ok :: "('w, 'm) archives_scheme \<Rightarrow> 'w \<Rightarrow> json list \<Rightarrow> document \<Rightarrow> bool" where
  "state_ok ar w rows d \<longleftrightarrow> (\<exists>s. item d ''status'' = Inr (JStr s) \<and> (is_active (JStr s) \<or> s \<in> end_states \<and> (\<exists>t. item d ''expires_at'' = Inr (JInt t)))
     \<and> (s = lit ''restore_verified'' \<longrightarrow> (\<exists>p. item d ''proof'' = Inr p \<and> proved ar w rows p)))"

definition record_ok :: "('w, 'm) archives_scheme \<Rightarrow> 'w \<Rightarrow> pystr \<Rightarrow> document \<Rightarrow> bool" where
  "record_ok ar w job d \<longleftrightarrow> (\<exists>rows. fields_ok (ar_hash ar) job d rows \<and> state_ok ar w rows d)"

lemma field_or_put: "field_or (put_member k v d) k' x = (if lit k = lit k' then v else field_or d k' x)"
  by (simp add: field_or_def jget_def put_member_def update_conv')

lemma map_of_remove: "map_of (remove_member k d) x = (if x = lit k then None else map_of d x)"
  by (induction d) (auto simp: remove_member_def)

lemma item_remove: "lit k \<noteq> lit k' \<Longrightarrow> item (remove_member k d) k' = item d k'"
  by (simp add: item_def jget_def map_of_remove)

lemma field_or_remove: "field_or (remove_member k d) k x = x"
  by (simp add: field_or_def jget_def map_of_remove)

lemma fields_put: "k \<notin> {''owner'', ''nonce'', ''requirements'', ''job_id'', ''scratch''} \<Longrightarrow> fields_ok H job (put_member k v d) rows = fields_ok H job d rows"
  by (auto simp: fields_ok_def field_or_put)

lemma fields_remove: "fields_ok H job d rows \<Longrightarrow> fields_ok H job (remove_member ''scratch'' d) rows"
  by (auto simp: fields_ok_def item_remove field_or_remove intro: exI [of _ "[]"])

lemma fields_scratch: "fields_ok H job d rows \<Longrightarrow> fields_ok H job (put_member ''scratch'' (JList (map JStr ps)) d) rows"
  by (auto simp: fields_ok_def field_or_put)

lemma fields_ended: "fields_ok H job (ended now s d) rows = fields_ok H job d rows"
  by (simp add: ended_def fields_put)

lemma state_ended:
  assumes "lit s \<in> end_states" "s = ''restore_verified'' \<longrightarrow> (\<exists>p. item d ''proof'' = Inr p \<and> proved ar w rows p)"
  shows "state_ok ar w rows (ended now s d)"
  using assms by (simp add: state_ok_def ended_def)

lemma backed_mono: "\<forall>x. restores ar w x \<longrightarrow> restores ar w' x \<Longrightarrow> backed ar w q repo \<Longrightarrow> backed ar w' q repo"
  unfolding backed_def by blast

lemma proved_mono: "\<forall>x. restores ar w x \<longrightarrow> restores ar w' x \<Longrightarrow> proved ar w rows p \<Longrightarrow> proved ar w' rows p"
  unfolding proved_def by (elim exE conjE) (intro exI conjI ballI, assumption+, rule backed_mono, assumption, blast)

lemma record_mono: "\<forall>x. restores ar w x \<longrightarrow> restores ar w' x \<Longrightarrow> record_ok ar w job d \<Longrightarrow> record_ok ar w' job d"
  unfolding record_ok_def state_ok_def using proved_mono [of ar w w'] by meson

section \<open>Histories\<close>

text \<open>
  The directory: distinct jobs with their records, never more than the limit; a worker's job has a record, and
  what the worker holds in memory is a record of the job that does not claim to be verified.
\<close>

definition worker_ok :: "('w, 'm) archives_scheme \<Rightarrow> 'w job_box \<Rightarrow> worker \<Rightarrow> bool" where
  "worker_ok ar st wk \<longleftrightarrow> map_of (jx_records st) (wk_job wk) \<noteq> None
     \<and> (\<forall>d. wk_record wk = Some d \<longrightarrow> (\<exists>rows. fields_ok (ar_hash ar) (wk_job wk) d rows) \<and> item d ''status'' = Inr (JStr (lit ''running'')))"

definition jobs_ok :: "('w, 'm) archives_scheme \<Rightarrow> 'w job_box \<Rightarrow> bool" where
  "jobs_ok ar st \<longleftrightarrow> distinct (map fst (jx_records st)) \<and> length (jx_records st) \<le> MAX_JOBS
     \<and> (\<forall>(job, d) \<in> set (jx_records st). record_ok ar (jx_world st) job d)
     \<and> (\<forall>wk. jx_worker st = Some wk \<longrightarrow> worker_ok ar st wk)"

lemma cleanup_one_keeps: "cleanup_one job i path st = (res, st') \<Longrightarrow> jx_records st' = jx_records st \<and> jx_world st' = jx_world st \<and> jx_worker st' = jx_worker st"
  by (auto simp: cleanup_one_def Let_def put_scratch_def split: if_splits option.splits prod.splits bool.splits)

lemma cleanup_from_keeps: "cleanup_from job i vs st = (res, st') \<Longrightarrow> jx_records st' = jx_records st \<and> jx_world st' = jx_world st \<and> jx_worker st' = jx_worker st"
proof (induction job i vs st rule: cleanup_from.induct)
  case (2 job i v vs st)
  then show ?case by (auto simp: bindS_cases dest: cleanup_one_keeps split: json.splits)
qed simp

lemma cleanup_scratch_keeps:
  assumes "cleanup_scratch job d st = (res, st')"
  shows "jx_records st' = jx_records st" "jx_world st' = jx_world st" "jx_worker st' = jx_worker st"
    "\<And>e. res = Inr e \<Longrightarrow> e = remove_member ''scratch'' d"
  using assms by (auto simp: cleanup_scratch_def dest: cleanup_from_keeps split: json.splits sum.splits prod.splits)

text \<open>Writing a record of a job keeps the directory, also when the limit is not yet reached.\<close>

lemma jobs_ok_write:
  assumes "jobs_ok ar st" "record_ok ar (jx_world st) job d" "map_of (jx_records st) job \<noteq> None \<or> length (jx_records st) < MAX_JOBS"
  shows "jobs_ok ar (write_record job d st)"
proof -
  have "length (AList.update job d xs) \<le> length xs + (if map_of xs job = None then 1 else 0)" for xs :: "(pystr \<times> document) list"
    by (induction xs) auto
  from this [of "jx_records st"] have "length (AList.update job d (jx_records st)) \<le> MAX_JOBS"
    using assms(1,3) by (auto simp: jobs_ok_def split: if_splits)
  moreover have "\<forall>(k, e) \<in> set (AList.update job d xs). (k, e) = (job, d) \<or> (k, e) \<in> set xs" for xs :: "(pystr \<times> document) list"
    by (induction xs) auto
  from this [of "jx_records st"] have "\<forall>(k, e) \<in> set (AList.update job d (jx_records st)). record_ok ar (jx_world st) k e"
    using assms(1,2) by (auto simp: jobs_ok_def)
  ultimately show ?thesis
    using assms(1) by (auto simp: jobs_ok_def write_record_def distinct_update worker_ok_def update_conv')
qed

lemma jobs_ok_delete: "jobs_ok ar st \<Longrightarrow> jx_worker st = None \<Longrightarrow> jobs_ok ar (st\<lparr>jx_records := AList.delete job (jx_records st)\<rparr>)"
  unfolding jobs_ok_def
  by (auto simp: AList.delete_eq distinct_map_filter intro: order_trans [OF length_filter_le])

lemma jobs_ok_same:
  assumes "jobs_ok ar st" "jx_records st' = jx_records st" "jx_world st' = jx_world st" "jx_worker st' = jx_worker st \<or> jx_worker st' = None"
  shows "jobs_ok ar st'"
  using assms unfolding jobs_ok_def worker_ok_def by auto

lemma read_record_ok: "jobs_ok ar st \<Longrightarrow> read_record job st = Inr d \<Longrightarrow> record_ok ar (jx_world st) job d \<and> map_of (jx_records st) job = Some d"
  by (auto simp: read_record_def jobs_ok_def dest!: map_of_SomeD split: option.splits if_splits)

lemma record_ended:
  assumes "fields_ok (ar_hash ar) job d rows" "lit s \<in> end_states"
    "s = ''restore_verified'' \<longrightarrow> (\<exists>p. item d ''proof'' = Inr p \<and> proved ar w rows p)"
  shows "record_ok ar w job (ended now s d)"
  using assms state_ended [OF assms(2,3)] by (auto simp: record_ok_def fields_ended)

definition swept :: "('w, 'm) archives_scheme \<Rightarrow> 'w job_box \<Rightarrow> 'w job_box \<Rightarrow> bool" where
  "swept ar st st' \<longleftrightarrow> jobs_ok ar st' \<and> jx_worker st' = None \<and> jx_world st' = jx_world st \<and> dom (map_of (jx_records st')) \<subseteq> dom (map_of (jx_records st))"

lemma swept_trans: "swept ar s t \<Longrightarrow> swept ar t u \<Longrightarrow> swept ar s u"
  unfolding swept_def by (elim conjE) (intro conjI, assumption, assumption, simp, erule subset_trans)

text \<open>One record that is swept.\<close>

definition sweep_one :: "int \<Rightarrow> pystr \<Rightarrow> document \<Rightarrow> pystr \<Rightarrow> 'w job_box \<Rightarrow> 'w job_box result" where
  "sweep_one now job e s st = (if is_active (JStr s) then Inr (write_record job (ended now ''interrupted'' e) st)
     else bindR (item e ''expires_at'') (\<lambda>t. case int_of t of None \<Rightarrow> Inl (TypeError ''not supported between instances'')
       | Some i \<Rightarrow> Inr (if i < now then st\<lparr>jx_records := AList.delete job (jx_records st)\<rparr> else st)))"

lemma sweep_Cons:
  assumes "read_record job st = Inr d" "item d ''status'' = Inr (JStr s)"
    "cleanup_scratch (str_of (member d ''job_id'')) d st = (r, st1)"
  shows "sweep now (job # jobs) st = (case r of
      Inl e \<Rightarrow> if is_value_error e \<or> is_os_error e then (Inr False, st1) else (Inl e, st1)
    | Inr e \<Rightarrow> (case sweep_one now job e s st1 of Inl x \<Rightarrow> (Inl x, st1) | Inr t \<Rightarrow> sweep now jobs t))"
proof (cases r)
  case (Inr e)
  with cleanup_scratch_keeps(4) [OF assms(3)] have "item e ''status'' = Inr (JStr s)" using assms(2) by (simp add: item_remove)
  with assms Inr show ?thesis
    by (simp add: sweep_one_def bindR_def split: sum.split option.split)
qed (use assms in simp)

lemma sweep_one_keeps:
  assumes "sweep_one now job (remove_member ''scratch'' d) s st = Inr t" "jobs_ok ar st" "jx_worker st = None"
    "record_ok ar (jx_world st) job d" "map_of (jx_records st) job = Some d"
  shows "swept ar st t"
proof -
  obtain rows where f: "fields_ok (ar_hash ar) job d rows" using assms(4) by (auto simp: record_ok_def)
  have "record_ok ar (jx_world st) job (ended now ''interrupted'' (remove_member ''scratch'' d))"
    by (rule record_ended [OF fields_remove [OF f]]) (simp_all add: end_states_def)
  then have "jobs_ok ar (write_record job (ended now ''interrupted'' (remove_member ''scratch'' d)) st)"
    by (rule jobs_ok_write [OF assms(2)]) (simp add: assms(5))
  moreover have "dom (map_of (AList.update job e (jx_records st))) \<subseteq> dom (map_of (jx_records st))" for e
    using assms(5) by (auto simp: update_conv' split: if_splits)
  moreover have "dom (map_of (AList.delete job (jx_records st))) \<subseteq> dom (map_of (jx_records st))"
    by (auto simp: delete_conv' split: if_splits)
  moreover have "t = write_record job (ended now ''interrupted'' (remove_member ''scratch'' d)) st
      \<or> t = st\<lparr>jx_records := AList.delete job (jx_records st)\<rparr> \<or> t = st"
    using assms(1) by (auto simp: sweep_one_def bindR_Inr_iff split: if_splits option.splits)
  ultimately show ?thesis
    using assms(2,3) jobs_ok_delete [OF assms(2,3), of job] by (elim disjE) (simp_all add: swept_def write_record_def)
qed

lemma sweep_keeps:
  assumes "sweep now jobs st = (res, st')" "jobs_ok ar st" "jx_worker st = None"
  shows "swept ar st st'"
  using assms
proof (induction jobs arbitrary: st)
  case Nil
  then show ?case by (simp add: swept_def)
next
  case (Cons job jobs)
  show ?case
  proof (cases "read_record job st")
    case (Inl e)
    with Cons.prems show ?thesis by (simp add: swept_def)
  next
    case (Inr d)
    note d = read_record_ok [OF Cons.prems(2) Inr]
    then obtain s where s: "item d ''status'' = Inr (JStr s)" by (auto simp: record_ok_def state_ok_def)
    obtain r st1 where c: "cleanup_scratch (str_of (member d ''job_id'')) d st = (r, st1)"
      by (cases "cleanup_scratch (str_of (member d ''job_id'')) d st")
    note k = cleanup_scratch_keeps [OF c]
    have ok: "jobs_ok ar st1" by (rule jobs_ok_same [OF Cons.prems(2) k(1,2)]) (simp add: k(3))
    have idle: "jx_worker st1 = None" using k(3) Cons.prems(3) by simp
    have same: "swept ar st st1" using ok idle k by (simp add: swept_def)
    note step = Cons.prems(1) [unfolded sweep_Cons [OF Inr s c]]
    have "swept ar st1 st'"
    proof (cases r)
      case (Inl e)
      with step ok idle show ?thesis by (auto simp: swept_def split: if_splits)
    next
      case (Inr e)
      then have e: "e = remove_member ''scratch'' d" by (rule k(4))
      show ?thesis
      proof (cases "sweep_one now job e s st1")
        case (Inl x)
        with step Inr ok idle show ?thesis by (simp add: swept_def)
      next
        case one: (Inr t)
        have "swept ar st1 t"
          by (rule sweep_one_keeps [OF one [unfolded e] ok idle]) (use d k in simp_all)
        moreover from this have "swept ar t st'" using step Inr one Cons.IH [of t] by (simp add: swept_def)
        ultimately show ?thesis by (rule swept_trans)
      qed
    qed
    with same show ?thesis by (rule swept_trans)
  qed
qed

lemma poll_same: "poll H now producer job st = (res, st') \<Longrightarrow> st' = st"
  by (simp add: poll_def split: if_splits)

lemma new_record_ok: "record_ok ar w (job_id (ar_hash ar) owner nonce rows) (new_record cfg now (job_id (ar_hash ar) owner nonce rows) owner nonce rows)"
  by (simp add: record_ok_def fields_ok_def state_ok_def new_record_def item_def jget_def field_or_def is_active_def)

lemma new_record_failed_ok:
  "record_ok ar w (job_id (ar_hash ar) owner nonce rows)
    (ended t ''failed'' (new_record cfg now (job_id (ar_hash ar) owner nonce rows) owner nonce rows))"
proof -
  have "fields_ok (ar_hash ar) (job_id (ar_hash ar) owner nonce rows)
      (new_record cfg now (job_id (ar_hash ar) owner nonce rows) owner nonce rows) rows"
    by (simp add: fields_ok_def new_record_def item_def jget_def field_or_def)
  then show ?thesis by (rule record_ended) (simp_all add: end_states_def)
qed

lemma submit_keeps:
  assumes "submit (ar_hash ar) cfg now spawns producer nonce rows st = (res, st')" "jobs_ok ar st"
  shows "jobs_ok ar st' \<and> jx_world st' = jx_world st"
proof (cases "check_submission nonce rows")
  case (Inl e)
  with assms show ?thesis by (simp add: submit_def)
next
  case (Inr nr)
  obtain n xs where nr: "nr = (n, xs)" by (cases nr)
  let ?o = "owner_of (ar_hash ar) producer" let ?j = "job_id (ar_hash ar) ?o n xs" and ?s = "st\<lparr>jx_staged := []\<rparr>"
  note run = assms(1) [unfolded submit_def Inr nr Let_def sum.case prod.case]
  show ?thesis
  proof (cases "jx_linked st \<or> map_of (jx_records st) ?j \<noteq> None \<or> jx_locked st \<or> MAX_JOBS < length (jx_records ?s)")
    case True
    have ok: "jobs_ok ar ?s" by (rule jobs_ok_same [OF assms(2)]) simp_all
    from True run have "st' = st \<or> st' = ?s" by (auto dest: poll_same split: if_splits)
    with ok assms(2) show ?thesis by auto
  next
    case False
    have ok: "jobs_ok ar ?s" by (rule jobs_ok_same [OF assms(2)]) simp_all
    have idle: "jx_worker ?s = None" using False by (simp add: jx_locked_def)
    obtain r t where sweep: "sweep now (map fst (jx_records st)) ?s = (r, t)" by (cases "sweep now (map fst (jx_records st)) ?s")
    have kept: "swept ar ?s t" by (rule sweep_keeps [OF sweep ok idle])
    then have t: "jobs_ok ar t" "jx_worker t = None" "jx_world t = jx_world st" "map_of (jx_records t) ?j = None"
      using False by (auto simp: swept_def)
    have written: "jobs_ok ar (write_record ?j d t)" if "record_ok ar (jx_world t) ?j d" "\<not> MAX_JOBS \<le> length (jx_records t)" for d
      by (rule jobs_ok_write [OF t(1) that(1)]) (use that(2) in simp)
    have started: "jobs_ok ar ((write_record ?j d t)\<lparr>jx_worker := Some \<lparr>wk_job = ?j, wk_record = None, wk_ready = []\<rparr>\<rparr>)"
      if "jobs_ok ar (write_record ?j d t)" for d
      using that by (simp add: jobs_ok_def worker_ok_def write_record_def update_conv')
    from run False sweep have "st' = t \<or> (res, st') = start_worker cfg now spawns ?j ?o n xs t \<and> \<not> MAX_JOBS \<le> length (jx_records t)"
      by (auto simp: jx_locked_def split: sum.splits bool.splits if_splits)
    then show ?thesis
    proof
      assume "st' = t"
      with t show ?thesis by simp
    next
      assume a: "(res, st') = start_worker cfg now spawns ?j ?o n xs t \<and> \<not> MAX_JOBS \<le> length (jx_records t)"
      then show ?thesis
        using written [OF new_record_ok] written [OF new_record_failed_ok] started [OF written [OF new_record_ok]] t(3)
        by (auto simp: start_worker_def Let_def write_record_def split: if_splits)
    qed
  qed
qed

lemma write_record_simps [simp]:
  "jx_world (write_record job d st) = jx_world st" "jx_worker (write_record job d st) = jx_worker st"
  "map_of (jx_records (write_record job d st)) = (map_of (jx_records st))(job \<mapsto> d)"
  by (auto simp: write_record_def update_conv')

lemma running_record_ok:
  assumes "fields_ok (ar_hash ar) job d rows" "item d ''status'' = Inr (JStr (lit ''running''))"
  shows "record_ok ar w job d"
  using assms by (auto simp: record_ok_def state_ok_def is_active_def)

lemma begin_keeps:
  assumes "begin_job True (wk_job wk) st = (Inr d, st')" "jobs_ok ar st" "jx_worker st = Some wk"
  shows "jobs_ok ar (st'\<lparr>jx_worker := Some (wk\<lparr>wk_record := Some d\<rparr>)\<rparr>)" "jx_world st' = jx_world st"
proof -
  obtain e where e: "read_record (wk_job wk) st = Inr e" "d = put_member ''status'' (JStr (lit ''running'')) e"
    "st' = write_record (wk_job wk) d st"
    using assms(1) by (auto simp: begin_job_def Let_def split: sum.splits)
  note r = read_record_ok [OF assms(2) e(1)]
  then obtain rows where "fields_ok (ar_hash ar) (wk_job wk) e rows" by (auto simp: record_ok_def)
  then have f: "fields_ok (ar_hash ar) (wk_job wk) d rows" "item d ''status'' = Inr (JStr (lit ''running''))" by (simp_all add: e(2) fields_put)
  have "jobs_ok ar st'"
    unfolding e(3) by (rule jobs_ok_write [OF assms(2) running_record_ok [OF f]]) (use r in simp)
  with f show "jobs_ok ar (st'\<lparr>jx_worker := Some (wk\<lparr>wk_record := Some d\<rparr>)\<rparr>)"
    by (auto simp: jobs_ok_def worker_ok_def e(3))
  show "jx_world st' = jx_world st" by (simp add: e(3))
qed

lemma put_scratch_simps [simp]:
  "jx_world (put_scratch path x st) = jx_world st" "jx_worker (put_scratch path x st) = jx_worker st"
  "jx_records (put_scratch path x st) = jx_records st"
  by (simp_all add: put_scratch_def)

lemma prepare_keeps:
  assumes "prepare_one parent (wk_job wk) i repo d st = (Inr (r, e), st')" "jobs_ok ar st" "jx_worker st = Some wk" "wk_record wk = Some d"
  shows "jobs_ok ar (st'\<lparr>jx_worker := Some (wk\<lparr>wk_record := Some e, wk_ready := wk_ready wk @ [r]\<rparr>)\<rparr>)" "jx_world st' = jx_world st"
proof -
  have wk: "worker_ok ar st wk" using assms(2,3) by (simp add: jobs_ok_def)
  then obtain rows where d: "fields_ok (ar_hash ar) (wk_job wk) d rows" "item d ''status'' = Inr (JStr (lit ''running''))"
    "map_of (jx_records st) (wk_job wk) \<noteq> None" using assms(4) by (auto simp: worker_ok_def)
  then obtain ps where ps: "field_or d ''scratch'' (JList []) = JList (map JStr ps)" by (auto simp: fields_ok_def)
  define path where "path = parent repo @ [47] @ scratch_name (wk_job wk) i"
  have e: "e = put_member ''scratch'' (JList (map JStr (ps @ [path]))) d"
    and st': "\<exists>x. st' = put_scratch path x (write_record (wk_job wk) e st)"
    using assms(1) ps by (auto simp: prepare_one_def Let_def path_def split: if_splits)
  have f: "fields_ok (ar_hash ar) (wk_job wk) e rows" "item e ''status'' = Inr (JStr (lit ''running''))"
    using fields_scratch [OF d(1), of "ps @ [path]"] d(2) by (simp_all add: e)
  have "jobs_ok ar (write_record (wk_job wk) e st)"
    by (rule jobs_ok_write [OF assms(2) running_record_ok [OF f]]) (use d(3) in simp)
  with f st' show "jobs_ok ar (st'\<lparr>jx_worker := Some (wk\<lparr>wk_record := Some e, wk_ready := wk_ready wk @ [r]\<rparr>)\<rparr>)"
    by (auto simp: jobs_ok_def worker_ok_def)
  show "jx_world st' = jx_world st" using st' by auto
qed

text \<open>The end of a job: its record says verified only with the proof of the attempt.\<close>

lemma finish_keeps:
  assumes "jobs_ok ar st" "jx_worker st = Some wk" "wk_record wk = Some d"
    "\<And>p rows. attempt = Inr p \<Longrightarrow> item d ''requirements'' = Inr (JList rows) \<Longrightarrow> proved ar (jx_world st) rows (JObj p)"
  shows "jobs_ok ar ((finish_job now (wk_job wk) attempt d st)\<lparr>jx_worker := None\<rparr>)"
    "jx_world (finish_job now (wk_job wk) attempt d st) = jx_world st"
proof -
  have wk: "worker_ok ar st wk" using assms(1,2) by (simp add: jobs_ok_def)
  then obtain rows where f: "fields_ok (ar_hash ar) (wk_job wk) d rows" "map_of (jx_records st) (wk_job wk) \<noteq> None"
    using assms(3) by (auto simp: worker_ok_def)
  define s where "s = (case attempt of Inr _ \<Rightarrow> ''restore_verified'' | Inl _ \<Rightarrow> ''failed'')"
  define e where "e = (case attempt of Inr p \<Rightarrow> put_member ''proof'' (JObj p) d | Inl _ \<Rightarrow> d)"
  have se: "(case attempt of Inr p \<Rightarrow> (''restore_verified'', put_member ''proof'' (JObj p) d) | Inl _ \<Rightarrow> (''failed'', d)) = (s, e)"
    by (simp add: s_def e_def split: sum.split)
  have e: "fields_ok (ar_hash ar) (wk_job wk) e rows" using f(1) by (simp add: e_def fields_put split: sum.split)
  have s: "lit s \<in> end_states" by (simp add: s_def end_states_def split: sum.split)
  have proof_ok: "s = ''restore_verified'' \<longrightarrow> (\<exists>p. item e ''proof'' = Inr p \<and> proved ar (jx_world st) rows p)"
    using assms(4) f(1) by (auto simp: s_def e_def fields_ok_def split: sum.splits)
  obtain r t where c: "cleanup_scratch (wk_job wk) e st = (r, t)" by (cases "cleanup_scratch (wk_job wk) e st")
  note k = cleanup_scratch_keeps [OF c]
  have t: "jobs_ok ar t" by (rule jobs_ok_same [OF assms(1) k(1,2)]) (simp add: k(3))
  have "finish_job now (wk_job wk) attempt d st = (case cleanup_scratch (wk_job wk) e st of
        (Inl x, u) \<Rightarrow> write_record (wk_job wk) (ended now ''failed'' e) u | (Inr y, u) \<Rightarrow> write_record (wk_job wk) (ended now s y) u)"
    by (simp add: finish_job_def se)
  then obtain g where g: "finish_job now (wk_job wk) attempt d st = write_record (wk_job wk) g t" "record_ok ar (jx_world t) (wk_job wk) g"
  proof (cases r)
    case (Inl x)
    then show ?thesis
      using that [of "ended now ''failed'' e"] record_ended [OF e, of "''failed''"] c
      by (simp add: \<open>finish_job now (wk_job wk) attempt d st = _\<close> end_states_def)
  next
    case (Inr y)
    with k(4) have y: "y = remove_member ''scratch'' e" by simp
    have "record_ok ar (jx_world t) (wk_job wk) (ended now s y)"
      using proof_ok by (intro record_ended [OF fields_remove [OF e, folded y] s]) (simp add: y item_remove k(2))
    with Inr c show ?thesis using that [of "ended now s y"] by (simp add: \<open>finish_job now (wk_job wk) attempt d st = _\<close>)
  qed
  have "jobs_ok ar (write_record (wk_job wk) g t)"
    by (rule jobs_ok_write [OF t g(2)]) (use f(2) k(1) in simp)
  then show "jobs_ok ar ((finish_job now (wk_job wk) attempt d st)\<lparr>jx_worker := None\<rparr>)"
    unfolding g(1) by (rule jobs_ok_same) simp_all
  show "jx_world (finish_job now (wk_job wk) attempt d st) = jx_world st" by (simp add: g(1) k(2))
qed

lemma verify_job_proved:
  assumes "verify_job ar now receipt repos d st = (attempt, st')" "archives_ok ar"
  shows "st' = st\<lparr>jx_world := jx_world st'\<rparr>" "\<forall>x. restores ar (jx_world st) x \<longrightarrow> restores ar (jx_world st') x"
    "attempt = Inr p \<Longrightarrow> item d ''requirements'' = Inr (JList rows) \<Longrightarrow> proved ar (jx_world st') rows (JObj p)"
proof -
  have "(\<exists>e. attempt = Inl e) \<and> st' = st
      \<or> (\<exists>r q w. item d ''requirements'' = Inr q \<and> verify_offload_backups ar now r q repos DEFAULT_RESERVE (jx_world st) = (attempt, w) \<and> st' = st\<lparr>jx_world := w\<rparr>)"
    using assms(1) by (auto simp: verify_job_def bindR_Inr_iff split: sum.splits prod.splits)
  then show "st' = st\<lparr>jx_world := jx_world st'\<rparr>" by auto
  have keeps: "keeps (restores ar) (verify_offload_backups ar now r q repos DEFAULT_RESERVE)" for r q
    unfolding verify_offload_backups_def
  proof (rule keeps_bindS)
    show "keeps (restores ar) (pure (check_receipts r q repos DEFAULT_RESERVE))" by (rule keeps_pure)
    fix x :: "checked list \<times> required list"
    show "keeps (restores ar) (case x of (ks, qs) \<Rightarrow> bindS (verify_destinations ar repos qs DEFAULT_RESERVE ks)
        (\<lambda>_. pure (Inr (proof_doc (ar_hash ar) now ks qs))))"
      by (cases x) (simp, intro keeps_bindS verify_destinations_keeps keeps_pure assms(2))
  qed
  show "\<forall>x. restores ar (jx_world st) x \<longrightarrow> restores ar (jx_world st') x"
    using \<open>_ \<or> _\<close> keepsD [OF keeps] by auto
  assume a: "attempt = Inr p" "item d ''requirements'' = Inr (JList rows)"
  with \<open>_ \<or> _\<close> obtain r where v: "verify_offload_backups ar now r (JList rows) repos DEFAULT_RESERVE (jx_world st) = (Inr p, jx_world st')"
    by auto
  obtain ks qs cs where "p = proof_doc (ar_hash ar) now ks qs" "dicts_of ''raw requirements must be a list of records'' (JList rows) = Inr cs"
    "mapR check_candidate cs = Inr qs" "2 \<le> length repos" "distinct (map re_name repos)"
    "\<forall>q \<in> set qs. \<forall>repo \<in> set repos. backed ar (jx_world st') q repo"
    by (rule verified_backed [OF assms(2) v]) simp
  with dicts_of_list [of _ "JList rows"] show "proved ar (jx_world st') rows (JObj p)"
    unfolding proved_def by (intro exI conjI) (auto)
qed

section \<open>The worker's run as steps\<close>

text \<open>No operation of the worker looks at the worker itself, which the history keeps in the state.\<close>

definition unaware :: "('w job_box \<Rightarrow> 'a \<times> 'w job_box) \<Rightarrow> bool" where
  "unaware f \<longleftrightarrow> (\<forall>st x. f (st\<lparr>jx_worker := x\<rparr>) = (fst (f st), (snd (f st))\<lparr>jx_worker := x\<rparr>))"

lemma unawareD: "unaware f \<Longrightarrow> f st = (a, st') \<Longrightarrow> f (st\<lparr>jx_worker := x\<rparr>) = (a, st'\<lparr>jx_worker := x\<rparr>)"
  by (simp add: unaware_def)

lemma unaware_writes [simp]:
  "write_record job d (st\<lparr>jx_worker := x\<rparr>) = (write_record job d st)\<lparr>jx_worker := x\<rparr>"
  "put_scratch path y (st\<lparr>jx_worker := x\<rparr>) = (put_scratch path y st)\<lparr>jx_worker := x\<rparr>"
  "read_record job (st\<lparr>jx_worker := x\<rparr>) = read_record job st"
  by (simp_all add: write_record_def put_scratch_def read_record_def split: option.split)

lemma unaware_cleanup_one: "unaware (cleanup_one job i path)"
  by (simp add: unaware_def cleanup_one_def Let_def split: option.split prod.split bool.split)

lemma unaware_bindS:
  assumes "unaware f" "\<And>a. unaware (g a)"
  shows "unaware (bindS f g)"
  unfolding unaware_def
proof (intro allI)
  fix st :: "'a job_box" and x
  obtain r t where f: "f st = (r, t)" by (cases "f st")
  show "bindS f g (st\<lparr>jx_worker := x\<rparr>) = (fst (bindS f g st), (snd (bindS f g st))\<lparr>jx_worker := x\<rparr>)"
    using f unawareD [OF assms(1) f, of x] assms(2) by (cases r) (simp_all add: bindS_def unaware_def)
qed

lemma unaware_cleanup_from: "unaware (cleanup_from job i vs)"
proof (induction vs arbitrary: i)
  case (Cons v vs)
  show ?case
  proof (cases v)
    case (JStr path)
    have step: "cleanup_from job i (v # vs) = bindS (cleanup_one job i path) (\<lambda>_. cleanup_from job (Suc i) vs)" using JStr by (intro ext) simp
    show ?thesis unfolding step by (rule unaware_bindS [OF unaware_cleanup_one Cons.IH])
  qed (simp_all add: unaware_def)
qed (simp add: unaware_def)

lemma unaware_cleanup: "unaware (cleanup_scratch job d)"
  unfolding unaware_def
proof (intro allI)
  fix st :: "'a job_box" and x
  show "cleanup_scratch job d (st\<lparr>jx_worker := x\<rparr>) = (fst (cleanup_scratch job d st), (snd (cleanup_scratch job d st))\<lparr>jx_worker := x\<rparr>)"
  proof (cases "field_or d ''scratch'' (JList [])")
    case (JList vs)
    obtain r t where c: "cleanup_from job 0 vs st = (r, t)" by (cases "cleanup_from job 0 vs st")
    from c unawareD [OF unaware_cleanup_from c, of x] JList show ?thesis by (cases r) (simp_all add: cleanup_scratch_def)
  qed (simp_all add: cleanup_scratch_def)
qed

lemma unaware_prepare: "unaware (prepare_one parent job i repo d)"
  by (simp add: unaware_def prepare_one_def Let_def split: json.split)

lemma unaware_verify: "unaware (verify_job ar now receipt repos d)"
  by (simp add: unaware_def verify_job_def split: sum.split prod.split)

lemma finish_unaware:
  fixes st :: "'w job_box"
  shows "finish_job now job attempt d (st\<lparr>jx_worker := x\<rparr>) = (finish_job now job attempt d st)\<lparr>jx_worker := x\<rparr>"
proof -
  define e where "e = (case attempt of Inr p \<Rightarrow> put_member ''proof'' (JObj p) d | Inl _ \<Rightarrow> d)"
  obtain r t where c: "cleanup_scratch job e st = (r, t)" by (cases "cleanup_scratch job e st")
  note c' = unawareD [OF unaware_cleanup c, of x]
  show ?thesis using c c' by (cases attempt; cases r) (simp_all add: finish_job_def e_def)
qed

lemma prepare_all_steps:
  assumes "prepare_all parent job (length ready) ready repos d st = (res, e, st')"
  shows "\<exists>made. (job_step ar cfg parent)\<^sup>*\<^sup>* (st\<lparr>jx_worker := Some \<lparr>wk_job = job, wk_record = Some d, wk_ready = ready\<rparr>\<rparr>)
      (st'\<lparr>jx_worker := Some \<lparr>wk_job = job, wk_record = Some e, wk_ready = made\<rparr>\<rparr>) \<and> (\<forall>rs. res = Inr rs \<longrightarrow> rs = made)"
  using assms
proof (induction repos arbitrary: ready d st)
  case (Cons repo repos)
  obtain r t where one: "prepare_one parent job (length ready) repo d st = (r, t)" by (cases "prepare_one parent job (length ready) repo d st")
  show ?case
  proof (cases r)
    case (Inl x)
    then have "t = st" using one by (auto simp: prepare_one_def Let_def split: if_splits json.splits)
    with Cons.prems one Inl show ?thesis by auto
  next
    case (Inr a)
    obtain r1 d1 where a: "a = (r1, d1)" by (cases a)
    from Cons.prems one Inr a have rest: "prepare_all parent job (length (ready @ [r1])) (ready @ [r1]) repos d1 t = (res, e, st')" by simp
    have "job_step ar cfg parent (st\<lparr>jx_worker := Some \<lparr>wk_job = job, wk_record = Some d, wk_ready = ready\<rparr>\<rparr>)
        (t\<lparr>jx_worker := Some \<lparr>wk_job = job, wk_record = Some d1, wk_ready = ready @ [r1]\<rparr>\<rparr>)"
      using job_step.prepared [where st = "st\<lparr>jx_worker := Some \<lparr>wk_job = job, wk_record = Some d, wk_ready = ready\<rparr>\<rparr>"
        and wk = "\<lparr>wk_job = job, wk_record = Some d, wk_ready = ready\<rparr>" and d = d and repo = repo and r = r1 and e = d1]
        unawareD [OF unaware_prepare one] Inr a by fastforce
    then show ?thesis using Cons.IH [OF rest] by (metis converse_rtranclp_into_rtranclp)
  qed
qed auto

text \<open>A worker that inherited the lock and read its record makes only steps of the history.\<close>

lemma run_job_steps:
  assumes "run_job ar now True job rows receipt parent st = (Inr u, st')" "jx_worker st = Some \<lparr>wk_job = job, wk_record = None, wk_ready = []\<rparr>"
  shows "(job_step ar cfg parent)\<^sup>*\<^sup>* st st'"
proof -
  obtain d t where b: "begin_job True job st = (Inr d, t)"
    using assms(1) by (auto simp: run_job_def split: prod.splits sum.splits)
  let ?w = "\<lambda>d rs. Some \<lparr>wk_job = job, wk_record = Some d, wk_ready = rs\<rparr>"
  have first: "job_step ar cfg parent st (t\<lparr>jx_worker := ?w d []\<rparr>)"
    using job_step.began [where wk = "\<lparr>wk_job = job, wk_record = None, wk_ready = []\<rparr>" and d = d and st' = t, OF assms(2)] b by simp
  have fail: "job_step ar cfg parent (s\<lparr>jx_worker := ?w e rs\<rparr>) ((finish_job now job (Inl x) e s)\<lparr>jx_worker := None\<rparr>)" for s e rs x
    using job_step.failed [where st = "s\<lparr>jx_worker := ?w e rs\<rparr>" and wk = "the (?w e rs)" and d = e and now = now and e = x]
    by (simp add: finish_unaware)
  show ?thesis
  proof (cases "load_repositories rows")
    case (Inl x)
    with assms(1) b fail [where s = t and e = d and rs = "[]" and x = x] first show ?thesis by (simp add: run_job_def)
  next
    case (Inr repos)
    obtain res e s where p: "prepare_all parent job 0 [] repos d t = (res, e, s)" by (cases "prepare_all parent job 0 [] repos d t") auto
    then obtain made where made: "(job_step ar cfg parent)\<^sup>*\<^sup>* (t\<lparr>jx_worker := ?w d []\<rparr>) (s\<lparr>jx_worker := ?w e made\<rparr>)"
      "\<forall>rs. res = Inr rs \<longrightarrow> rs = made" using prepare_all_steps [where ready = "[]", simplified list.size, OF p] by blast
    have "job_step ar cfg parent (s\<lparr>jx_worker := ?w e made\<rparr>) st'"
    proof (cases res)
      case (Inl x)
      with assms(1) b Inr p fail [where s = s and e = e and rs = made and x = x] show ?thesis by (simp add: run_job_def)
    next
      case ready: (Inr rs)
      obtain attempt v where v: "verify_job ar now receipt made e s = (attempt, v)" by (cases "verify_job ar now receipt made e s")
      then have "st' = (finish_job now job attempt e v)\<lparr>jx_worker := None\<rparr>"
        using assms(1) b Inr p ready made(2) by (simp add: run_job_def)
      moreover have "job_step ar cfg parent (s\<lparr>jx_worker := ?w e made\<rparr>)
          ((finish_job now job attempt e (v\<lparr>jx_worker := ?w e made\<rparr>))\<lparr>jx_worker := None\<rparr>)"
        using job_step.finished [where st = "s\<lparr>jx_worker := ?w e made\<rparr>" and wk = "the (?w e made)" and d = e and t = now and now = now]
          unawareD [OF unaware_verify v, of "?w e made"] by simp
      ultimately show ?thesis by (simp add: finish_unaware)
    qed
    with first made(1) show ?thesis by (meson converse_rtranclp_into_rtranclp rtranclp.rtrancl_into_rtrancl)
  qed
qed

text \<open>Every step keeps the directory.\<close>

lemma new_jobs_ok: "jobs_ok ar (new_jobs w)"
  by (simp add: jobs_ok_def new_jobs_def)

lemma jobs_ok_world:
  assumes "jobs_ok ar st" "\<forall>x. restores ar (jx_world st) x \<longrightarrow> restores ar w x"
  shows "jobs_ok ar (st\<lparr>jx_world := w\<rparr>)"
  using assms record_mono [OF assms(2)] by (fastforce simp: jobs_ok_def worker_ok_def)

lemma job_step_keeps:
  assumes "job_step ar cfg parent st st'" "archives_ok ar" "jobs_ok ar st"
  shows "jobs_ok ar st'"
  using assms
proof (induction rule: job_step.induct)
  case (submitted now spawns producer nonce rows st res st')
  then show ?case using submit_keeps by blast
next
  case (changed st w)
  then show ?case by (intro jobs_ok_world) auto
next
  case (began st wk d st')
  then show ?case by (intro begin_keeps(1))
next
  case (prepared st wk d repo r e st')
  then show ?case by (intro prepare_keeps(1))
next
  case (failed st wk d now e)
  then show ?case by (intro finish_keeps(1)) simp_all
next
  case (finished st wk d t receipt attempt st' now)
  note v = verify_job_proved [OF finished(3,4)]
  have st': "jobs_ok ar st'" using jobs_ok_world [OF finished(5) v(2)] v(1) by metis
  have "jx_worker st' = Some wk" by (subst v(1)) (simp add: finished(1))
  with st' finished(2) v(3) show ?case by (intro finish_keeps(1))
next
  case (crashed st wk anything)
  show ?case by (rule jobs_ok_same [OF crashed(3)]) simp_all
qed

lemma job_history_ok:
  assumes "(job_step ar cfg parent)\<^sup>*\<^sup>* (new_jobs w) st" "archives_ok ar"
  shows "jobs_ok ar st"
  using assms(1) by induction (simp_all add: new_jobs_ok job_step_keeps [OF _ assms(2)])

end
