(* ===== verification/Job_Answers.thy ===== *)
theory Job_Answers
  imports Job_Facts
begin

text \<open>
  What the answers of a job directory are worth: a verified answer belongs to the device and the
  requirements of the job and rests on a proof, and polling never goes wrong.
\<close>

section \<open>Answers\<close>

text \<open>What a poll answers, by the record that it finds.\<close>

definition seen_status :: "bool \<Rightarrow> int \<Rightarrow> int \<Rightarrow> pystr \<Rightarrow> pystr" where
  "seen_status locked now t s = (if is_active (JStr s) then if locked then s else lit ''interrupted''
     else if t < now then lit ''expired'' else s)"

lemma seen_verified: "seen_status locked now t s = lit ''restore_verified'' \<Longrightarrow> s = lit ''restore_verified'' \<and> \<not> is_active (JStr s) \<and> \<not> t < now"
  by (auto simp: seen_status_def is_active_def split: if_splits)

definition poll_answer :: "pystr \<Rightarrow> json \<Rightarrow> pystr \<Rightarrow> document" where
  "poll_answer job nonce r = [(lit ''version'', JInt 1), (lit ''status'', JStr r), (lit ''job_id'', JStr job), (lit ''nonce'', nonce)]"

lemma poll_answer_members:
  "member (poll_answer job n r @ xs) ''version'' = JInt 1" "member (poll_answer job n r @ xs) ''status'' = JStr r"
  "member (poll_answer job n r @ xs) ''job_id'' = JStr job" "member (poll_answer job n r @ xs) ''nonce'' = n"
  "member (poll_answer job n r @ [(lit ''proof'', p), (lit ''expires_at'', t)]) ''proof'' = p"
  "member (poll_answer job n r @ [(lit ''proof'', p), (lit ''expires_at'', t)]) ''expires_at'' = t"
  by (simp_all add: poll_answer_def member_def jget_def)

lemma poll_found:
  assumes "is_hex 64 job" "read_record job st = Inr d" "item d ''owner'' = Inr (JStr (owner_of H producer))" "item d ''nonce'' = Inr n"
    "item d ''status'' = Inr (JStr s)" "is_active (JStr s) \<or> item d ''expires_at'' = Inr (JInt t)"
    "s = lit ''restore_verified'' \<longrightarrow> item d ''proof'' = Inr p"
  shows "poll H now producer job st = (Inr (poll_answer job n (seen_status (jx_locked st) now t s)
    @ (if seen_status (jx_locked st) now t s = lit ''restore_verified'' then [(lit ''proof'', p), (lit ''expires_at'', JInt t)] else [])), st)"
proof -
  let ?r = "seen_status (jx_locked st) now t s"
  have shown: "bindR (if is_active (JStr s) then Inr (if jx_locked st then JStr s else JStr (lit ''interrupted''))
      else bindR (item d ''expires_at'') (\<lambda>t. bindR (later now t) (\<lambda>over. Inr (if over then JStr (lit ''expired'') else JStr s)))) f = f (JStr ?r)"
    for f :: "json \<Rightarrow> document result" using assms(6) by (auto simp: seen_status_def later_def int_of_def)
  have real: "item d ''expires_at'' = Inr (JInt t) \<and> item d ''proof'' = Inr p" if "?r = lit ''restore_verified''"
    using assms(6,7) seen_verified [OF that] by blast
  show ?thesis
  proof (cases "?r = lit ''restore_verified''")
    case True
    then show ?thesis using real [OF True] by (simp add: poll_def assms(1-5) shown Let_def poll_answer_def)
  next
    case False
    then show ?thesis by (simp add: poll_def assms(1-5) shown Let_def poll_answer_def)
  qed
qed

lemma poll_verified:
  assumes "poll H now producer job st = (Inr d, st')" "member d ''status'' = JStr (lit ''restore_verified'')"
  obtains e where "read_record job st = Inr e" "item e ''owner'' = Inr (JStr (owner_of H producer))"
proof -
  have no: "d \<noteq> job_status ''unavailable''" using assms(2) by (auto simp: job_status_def member_def jget_def)
  have hex: "is_hex 64 job" using assms(1) by (simp add: poll_def split: if_splits)
  note run = assms(1) [unfolded poll_def, simplified hex, simplified]
  show thesis
  proof (cases "read_record job st")
    case (Inl x)
    with run no show thesis by (cases x) simp_all
  next
    case (Inr e)
    with run obtain w where w: "item e ''owner'' = Inr w" by (cases "item e ''owner''") simp_all
    have "w = JStr (owner_of H producer)"
    proof (rule ccontr)
      assume "w \<noteq> JStr (owner_of H producer)"
      with run Inr w no show False by simp
    qed
    with that Inr w show thesis by simp
  qed
qed

lemma poll_proved:
  assumes "jobs_ok ar st" "poll (ar_hash ar) now producer job st = (Inr d, st')" "member d ''status'' = JStr (lit ''restore_verified'')"
  shows "\<exists>nonce rows. member d ''nonce'' = JStr nonce \<and> job = job_id (ar_hash ar) (owner_of (ar_hash ar) producer) nonce rows
    \<and> member d ''job_id'' = JStr job \<and> proved ar (jx_world st) rows (member d ''proof'')
    \<and> (\<exists>t. member d ''expires_at'' = JInt t \<and> now \<le> t)"
proof -
  have hex: "is_hex 64 job" using assms(2) by (auto simp: poll_def split: if_splits)
  obtain e where e: "read_record job st = Inr e" "item e ''owner'' = Inr (JStr (owner_of (ar_hash ar) producer))"
    by (rule poll_verified [OF assms(2,3)])
  from read_record_ok [OF assms(1) e(1)] obtain rows s where f: "fields_ok (ar_hash ar) job e rows" "item e ''status'' = Inr (JStr s)"
    "is_active (JStr s) \<or> s \<in> end_states \<and> (\<exists>t. item e ''expires_at'' = Inr (JInt t))"
    "s = lit ''restore_verified'' \<longrightarrow> (\<exists>p. item e ''proof'' = Inr p \<and> proved ar (jx_world st) rows p)"
    by (auto simp: record_ok_def state_ok_def)
  obtain nonce where n: "item e ''nonce'' = Inr (JStr nonce)" "job = job_id (ar_hash ar) (owner_of (ar_hash ar) producer) nonce rows"
    using f(1) e(2) by (auto simp: fields_ok_def)
  obtain t where t: "is_active (JStr s) \<or> item e ''expires_at'' = Inr (JInt t)" using f(3) by blast
  obtain p where p: "s = lit ''restore_verified'' \<longrightarrow> item e ''proof'' = Inr p \<and> proved ar (jx_world st) rows p" using f(4) by blast
  from p have "s = lit ''restore_verified'' \<longrightarrow> item e ''proof'' = Inr p" by simp
  from poll_found [OF hex e n(1) f(2) t this, of now] assms(2)
  have d: "d = poll_answer job (JStr nonce) (seen_status (jx_locked st) now t s)
      @ (if seen_status (jx_locked st) now t s = lit ''restore_verified'' then [(lit ''proof'', p), (lit ''expires_at'', JInt t)] else [])" by simp
  with assms(3) have seen: "seen_status (jx_locked st) now t s = lit ''restore_verified''" by (simp add: poll_answer_members)
  note v = seen_verified [OF seen]
  from p v have "proved ar (jx_world st) rows p" by simp
  moreover have "now \<le> t" using v by simp
  ultimately show ?thesis using n(2) unfolding d seen by (auto simp: poll_answer_members)
qed


text \<open>An answer: one of the documented statuses, and a pending one only while a worker runs.\<close>

definition answer_ok :: "'w job_box \<Rightarrow> document \<Rightarrow> bool" where
  "answer_ok st d \<longleftrightarrow> member d ''version'' = JInt 1 \<and> (\<exists>s. member d ''status'' = JStr (lit s)
     \<and> s \<in> {''unavailable'', ''queued'', ''running'', ''interrupted'', ''failed'', ''expired'', ''restore_verified''}
     \<and> (s \<in> {''queued'', ''running''} \<longrightarrow> jx_worker st \<noteq> None))"

lemma unavailable_ok: "answer_ok st (job_status ''unavailable'')"
  by (simp add: answer_ok_def job_status_def member_def jget_def)

lemma seen_ok:
  assumes "is_active (JStr s) \<or> s \<in> end_states"
  shows "answer_ok st (poll_answer job n (seen_status (jx_locked st) now t s) @ xs)"
proof -
  have k: "answer_ok st (poll_answer job n (lit k) @ xs)"
    if "k \<in> {''unavailable'', ''queued'', ''running'', ''interrupted'', ''failed'', ''expired'', ''restore_verified''}"
      "k \<in> {''queued'', ''running''} \<longrightarrow> jx_worker st \<noteq> None" for k
    unfolding answer_ok_def poll_answer_members by (intro conjI exI [of _ k]) (rule refl, rule refl, rule that(1), rule that(2))
  let ?r = "seen_status (jx_locked st) now t s"
  have over: "answer_ok st (poll_answer job n (lit ''interrupted'') @ xs)" "answer_ok st (poll_answer job n (lit ''expired'') @ xs)"
    "answer_ok st (poll_answer job n (lit ''failed'') @ xs)" "answer_ok st (poll_answer job n (lit ''restore_verified'') @ xs)"
    by (rule k; simp)+
  have pending: "answer_ok st (poll_answer job n (lit ''queued'') @ xs)" "answer_ok st (poll_answer job n (lit ''running'') @ xs)" if "jx_locked st"
    using that by (auto simp: jx_locked_def intro: k)
  show ?thesis
  proof (cases "is_active (JStr s)")
    case True
    then have "?r = (if jx_locked st then s else lit ''interrupted'')" "s = lit ''queued'' \<or> s = lit ''running''"
      by (simp_all add: seen_status_def is_active_def)
    with over(1) pending show ?thesis by (elim disjE) simp_all
  next
    case False
    then have "?r = (if t < now then lit ''expired'' else s)" by (simp add: seen_status_def)
    moreover have "s = lit ''interrupted'' \<or> s = lit ''failed'' \<or> s = lit ''restore_verified''"
      using False assms by (simp add: end_states_def)
    ultimately show ?thesis using over by (elim disjE) simp_all
  qed
qed

lemma read_record_Inl:
  assumes "read_record job st = Inl x"
  obtains m where "x = FileNotFoundError m"
  | d where "x = ValueError ''invalid verification record''" "map_of (jx_records st) job = Some d" "RECORD_MAX < length (encode_json (JObj d))"
  using assms by (auto simp: read_record_def split: option.splits if_splits)


section \<open>A job that is verified\<close>

text \<open>A bound on the length of an encoded document that only looks at the sizes of its texts.\<close>

fun weight :: "json \<Rightarrow> nat" where
  "weight JNull = 4"
| "weight (JBool b) = 5"
| "weight (JInt i) = 4 * length (show_int i)"
| "weight (JStr s) = 6 * length s + 2"
| "weight (JList xs) = 2 + sum_list (map (\<lambda>x. weight x + 1) xs)"
| "weight (JObj kvs) = 2 + sum_list (map (\<lambda>(k, v). 6 * length k + weight v + 4) kvs)"

lemma utf8_at_most: "length (utf8 s) \<le> 4 * length s"
  by (induction s) (auto simp: utf8_cp_def)

lemma escaped_at_most: "length (utf8 (concat (map esc_char s))) \<le> 6 * length s"
proof (induction s)
  case (Cons c s)
  have "length (utf8_cp (hex_char n)) = 1" if "n < 16" for n using that by (simp add: hex_char_def utf8_cp_def)
  then have "c < 32 \<Longrightarrow> length (utf8_cp (hex_char (c div 16))) = 1 \<and> length (utf8_cp (hex_char (c mod 16))) = 1" by simp
  then have "length (utf8 (esc_char c)) \<le> 6" by (simp add: esc_char_def utf8_cp_def [of 92] utf8_cp_def [of 117] utf8_cp_def [of 48]) (simp add: utf8_cp_def)
  with Cons show ?case by simp
qed simp

lemma string_at_most: "length (utf8 (json_string s)) \<le> 6 * length s + 2"
  using escaped_at_most [of s] by (simp add: json_string_def utf8_cp_def)

lemma commas_at_most: "length (utf8 (commas xs)) \<le> sum_list (map (\<lambda>x. length (utf8 x) + 1) xs)"
  by (induction xs rule: commas.induct) (simp_all add: utf8_cp_def)

lemma sum_sort: "sum_list (map f (sort_key k xs)) = sum_list (map (f :: 'a \<Rightarrow> nat) xs)"
  by (metis mset_map mset_sort sum_mset_sum_list)

lemma encode_at_most: "length (encode_json v) \<le> weight v"
proof -
  have "length (utf8 (canonical_json v)) \<le> weight v"
  proof (induction v)
    case (JInt i)
    then show ?case by (simp add: utf8_at_most)
  next
    case (JStr s)
    show ?case using string_at_most [of s] by simp
  next
    case (JList xs)
    have "length (utf8 (commas (map canonical_json xs))) \<le> sum_list (map (\<lambda>x. length (utf8 (canonical_json x)) + 1) xs)"
      using commas_at_most [of "map canonical_json xs"] by (simp add: comp_def)
    also have "\<dots> \<le> sum_list (map (\<lambda>x. weight x + 1) xs)" by (rule sum_list_mono) (use JList in simp)
    finally show ?case by (simp add: utf8_cp_def)
  next
    case (JObj kvs)
    let ?es = "map (\<lambda>(k, v). (k, canonical_json v)) kvs"
    have "length (utf8 (commas (map json_member (sort_key fst ?es)))) \<le> sum_list (map (\<lambda>x. length (utf8 (json_member x)) + 1) (sort_key fst ?es))"
      using commas_at_most [of "map json_member (sort_key fst ?es)"] by (simp add: comp_def)
    also have "\<dots> = sum_list (map (\<lambda>x. length (utf8 (json_member x)) + 1) ?es)" by (rule sum_sort)
    also have "\<dots> = sum_list (map (\<lambda>(k, v). length (utf8 (json_member (k, canonical_json v))) + 1) kvs)"
      by (simp add: comp_def case_prod_unfold)
    also have "\<dots> \<le> sum_list (map (\<lambda>(k, v). 6 * length k + weight v + 4) kvs)"
    proof (rule sum_list_mono)
      fix x assume "x \<in> set kvs"
      obtain k v where x: "x = (k, v)" by (cases x)
      then have "length (utf8 (canonical_json v)) \<le> weight v" using JObj \<open>x \<in> set kvs\<close> by auto
      with string_at_most [of k] show "(case x of (k, v) \<Rightarrow> length (utf8 (json_member (k, canonical_json v))) + 1) \<le> (case x of (k, v) \<Rightarrow> 6 * length k + weight v + 4)"
        by (simp add: x json_member_def utf8_cp_def)
    qed
    finally show ?case by (simp add: utf8_cp_def)
  qed (simp_all add: lit_def utf8_cp_def)
  then show ?thesis by (simp add: encode_json_def)
qed

text \<open>The only job of the sample: one device asks for the raw source of the offload sample.\<close>

definition job_row :: document where
  "job_row = [(lit ''session_id'', JStr (rw_session offload_row)), (lit ''revision'', JStr (rw_revision offload_row)),
     (lit ''digest'', JStr (rw_digest offload_row)), (lit ''size'', JInt (int (rw_size offload_row)))]"

definition job_nonce :: pystr where "job_nonce = replicate 64 97"

definition job_owner :: pystr where "job_owner = owner_of recovery_hash (lit ''p'')"

definition sample_job :: pystr where "sample_job = job_id recovery_hash job_owner job_nonce [JObj job_row]"

definition sample_config :: job_config where
  "sample_config = \<lparr>jc_repositories = lit ''/r'', jc_receipt = lit ''/c''\<rparr>"

abbreviation sample_parent :: "repository \<Rightarrow> pystr" where "sample_parent \<equiv> \<lambda>_. lit ''/t''"

definition job_path :: "nat \<Rightarrow> pystr" where
  "job_path i = lit ''/t'' @ [47] @ scratch_name sample_job i"

lemma sample_hex [simp]: "is_hex 64 (recovery_hash b)"
  using hash_ok_recovery by (simp add: hash_ok_def)

lemma sample_job_hex: "is_hex 64 sample_job"
  by (simp add: sample_job_def job_id_def json_digest_def)

lemma job_row_members:
  "member job_row ''session_id'' = JStr (lit ''s'')" "member job_row ''revision'' = JStr (rw_revision offload_row)"
  "member job_row ''digest'' = JStr (rw_digest offload_row)" "member job_row ''size'' = JInt 1"
  by (simp_all add: job_row_def member_def jget_def offload_row_def)

lemma offload_row_hex: "is_hex 64 (rw_revision offload_row)" "is_hex 64 (rw_digest offload_row)"
  by (simp_all add: offload_row_def session_revision_def json_digest_def)

lemma job_row_candidate: "check_candidate job_row = Inr offload_required"
  using offload_row_hex by (simp add: check_candidate_def job_row_members is_hex_str_def offload_required_def) (simp add: offload_row_def)

lemma job_row_weight: "weight (JObj job_row) \<le> 1300"
  using offload_row_hex
  by (simp add: job_row_def is_hex_def) (simp add: offload_row_def show_int_def show_nat.simps lit_def)

lemma job_submission: "check_submission (JStr job_nonce) (JList [JObj job_row]) = Inr (job_nonce, [JObj job_row])"
proof -
  have "check_requirement (JObj job_row) = Inr ()"
    using offload_row_hex by (simp add: check_requirement_def job_row_members is_hex_str_def keys_exactly_def RAW_MAX_def)
      (auto simp: job_row_def)
  moreover have "is_hex 64 job_nonce" by (simp add: job_nonce_def is_hex_def hex_digit_def list_all_iff)
  moreover have "length (encode_json (JList [JObj job_row])) \<le> weight (JList [JObj job_row])" by (rule encode_at_most)
  then have "\<not> 49152 < length (encode_json (JList [JObj job_row]))" using job_row_weight by simp
  ultimately show ?thesis by (simp add: check_submission_def)
qed

lemma split_char_none: "c \<notin> set s \<Longrightarrow> split_char c s = [s]"
  by (induction s) auto

lemma split_char_nonempty: "split_char c s \<noteq> []"
  by (induction s) (auto split: list.split)

lemma split_char_append: "split_char c (s @ c # t) = split_char c s @ split_char c t"
  by (induction s) (auto simp: split_char_nonempty split: list.split)

lemma show_small: "n < 10 \<Longrightarrow> show_nat n = [48 + n]"
  by (subst show_nat.simps) simp

lemma job_paths:
  assumes "i < 10"
  shows "is_absolute (job_path i)" "path_name (job_path i) = scratch_name sample_job i"
proof -
  have "47 \<notin> set sample_job" using sample_job_hex by (auto simp: is_hex_def list_all_iff hex_digit_def)
  then have "47 \<notin> set (scratch_name sample_job i)" using assms by (auto simp: scratch_name_def lit_def show_small)
  then have "split_char 47 (job_path i) = [[], lit ''t'', scratch_name sample_job i]"
    using split_char_append [of 47 "lit ''/t''" "scratch_name sample_job i"]
    by (simp add: job_path_def split_char_none) (simp add: lit_def)
  then show "path_name (job_path i) = scratch_name sample_job i"
    by (simp add: path_name_def path_parts_def) (simp add: scratch_name_def lit_def)
  show "is_absolute (job_path i)" by (simp add: job_path_def is_absolute_def lit_def)
qed

lemma job_path_inject: "i < 10 \<Longrightarrow> j < 10 \<Longrightarrow> job_path i = job_path j \<longleftrightarrow> i = j"
  by (simp add: job_path_def scratch_name_def show_small)

definition job_state :: "document \<Rightarrow> worker option \<Rightarrow> (pystr \<times> scratch) list \<Rightarrow> unit job_box" where
  "job_state d wk sc = \<lparr>jx_world = (), jx_records = [(sample_job, d)], jx_staged = [], jx_linked = False, jx_worker = wk, jx_scratch = sc\<rparr>"

definition job_record :: document where
  "job_record = new_record sample_config 0 sample_job job_owner job_nonce [JObj job_row]"

definition job_scratch :: scratch where
  "job_scratch = \<lparr>sd_linked = False, sd_owner = Some (owner_json sample_job), sd_members = []\<rparr>"

lemma read_job_state: "weight (JObj d) \<le> RECORD_MAX \<Longrightarrow> read_record sample_job (job_state d wk sc) = Inr d"
  using encode_at_most [of "JObj d"] by (simp add: read_record_def job_state_def)

lemma sample_lengths: "length sample_job = 64" "length job_owner = 64" "length job_nonce = 64"
  using sample_job_hex by (auto simp: job_owner_def owner_of_def job_nonce_def is_hex_def recovery_hash_def)

lemma submitted_sample:
  "submit recovery_hash sample_config 0 True (lit ''p'') (JStr job_nonce) (JList [JObj job_row]) (new_jobs ())
    = (Inr (job_status ''queued'' @ [(lit ''job_id'', JStr sample_job), (lit ''nonce'', JStr job_nonce)]),
       job_state job_record (Some \<lparr>wk_job = sample_job, wk_record = None, wk_ready = []\<rparr>) [])"
  by (simp add: submit_def job_submission Let_def new_jobs_def jx_locked_def MAX_JOBS_def start_worker_def write_record_def job_state_def
      job_record_def sample_job_def [symmetric] job_owner_def [symmetric])

text \<open>The record while the worker prepares the scratch directories.\<close>

definition running_record :: "nat \<Rightarrow> document" where
  "running_record n = (let d = put_member ''status'' (JStr (lit ''running'')) job_record in
     if n = 0 then d else put_member ''scratch'' (JList (map (JStr \<circ> job_path) [0..<n])) d)"

definition ready_repos :: "nat \<Rightarrow> repository list" where
  "ready_repos n = map (\<lambda>i. (sample_repos ! i)\<lparr>re_scratch := Some (job_path i)\<rparr>) [0..<n]"

lemma begun_sample: "begin_job True sample_job (job_state job_record wk sc) = (Inr (running_record 0), job_state (running_record 0) wk sc)"
proof -
  have "weight (JObj job_record) \<le> RECORD_MAX" using job_row_weight
    by (simp add: job_record_def new_record_def sample_config_def sample_lengths RECORD_MAX_def show_int_def show_small)
  then show ?thesis by (simp add: begin_job_def read_job_state Let_def running_record_def) (simp add: job_state_def write_record_def)
qed

lemma prepared_sample:
  assumes "n < 2" "\<forall>i \<in> {n..<2}. map_of sc (job_path i) = None"
  shows "prepare_one sample_parent sample_job n (sample_repos ! n) (running_record n) (job_state d wk sc)
    = (Inr ((sample_repos ! n)\<lparr>re_scratch := Some (job_path n)\<rparr>, running_record (Suc n)),
       job_state (running_record (Suc n)) wk (AList.update (job_path n) job_scratch sc))"
proof -
  have "field_or (running_record n) ''scratch'' (JList []) = JList (map (JStr \<circ> job_path) [0..<n])"
    by (cases n) (simp_all add: running_record_def Let_def field_or_put, simp add: job_record_def new_record_def field_or_def jget_def)
  moreover have "put_member ''scratch'' (JList (map (JStr \<circ> job_path) [0..<n] @ [JStr (job_path n)])) (running_record n) = running_record (Suc n)"
    by (simp add: running_record_def Let_def put_member_def)
  moreover have "map_of sc (job_path n) = None" using assms by simp
  moreover have "lit ''/t'' @ [47] @ scratch_name sample_job n = job_path n" by (simp add: job_path_def)
  ultimately show ?thesis
    by (simp add: prepare_one_def Let_def job_state_def put_scratch_def write_record_def job_scratch_def)
qed

definition sample_scratch :: "(pystr \<times> scratch) list" where
  "sample_scratch = AList.update (job_path 1) job_scratch (AList.update (job_path 0) job_scratch [])"

lemma cleaned_sample:
  assumes "field_or d ''scratch'' (JList []) = JList (map (JStr \<circ> job_path) [0..<2])"
  shows "\<exists>sc'. cleanup_scratch sample_job d (job_state e wk sample_scratch) = (Inr (remove_member ''scratch'' d), job_state e wk sc')"
proof -
  have dist: "job_path 0 \<noteq> job_path 1" by (simp add: job_path_inject)
  have "py_eq v v" for v by (simp add: py_eq_def same_json_def)
  note one = this [of "owner_json sample_job"]
  have zero: "cleanup_one sample_job 0 (job_path 0) (job_state e wk sample_scratch) = (Inr (), job_state e wk (AList.delete (job_path 0) sample_scratch))"
    using dist by (simp add: cleanup_one_def Let_def job_state_def sample_scratch_def job_paths put_scratch_def job_scratch_def one update_conv')
  have "map_of (AList.delete (job_path 0) sample_scratch) (job_path 1) = Some job_scratch"
    using dist by (simp add: sample_scratch_def delete_conv' update_conv')
  then have "cleanup_one sample_job 1 (job_path 1) (job_state e wk (AList.delete (job_path 0) sample_scratch))
      = (Inr (), job_state e wk (AList.delete (job_path 1) (AList.delete (job_path 0) sample_scratch)))"
    by (simp add: cleanup_one_def Let_def job_state_def job_paths put_scratch_def job_scratch_def one)
  with zero have "cleanup_from sample_job 0 [JStr (job_path 0), JStr (job_path 1)] (job_state e wk sample_scratch)
      = (Inr (), job_state e wk (AList.delete (job_path 1) (AList.delete (job_path 0) sample_scratch)))"
    by (simp add: bindS_def)
  moreover have "map (JStr \<circ> job_path) [0..<2] = [JStr (job_path 0), JStr (job_path 1)]" by (simp add: upt_rec)
  ultimately show ?thesis
    by (intro exI [of _ "AList.delete (job_path 1) (AList.delete (job_path 0) sample_scratch)"]) (simp add: cleanup_scratch_def assms)
qed

text \<open>The worker of the sample verifies its requirement against both repositories.\<close>

lemma verified_sample:
  obtains v :: verified where "is_hex 64 (vf_snapshot v)"
    "verify_job sample_vault 0 (Inr (vault_receipt (vf_snapshot v))) (ready_repos 2) (running_record 2) (job_state e wk sc)
      = (Inr (proof_doc recovery_hash 0 (map (vault_checked (vf_snapshot v)) sample_repos) [offload_required]), job_state e wk sc)"
proof -
  obtain v where v: "verify_snapshot no_time recovery_hash (recovery_sqlite recovery_catalog) offload_snapshot = Inr v"
    "vf_purpose v = JStr (lit ''recovery'')" "is_hex 64 (vf_snapshot v)" "sn_file offload_snapshot = Some []"
    by (rule offload_snapshot_facts)
  have names: "map re_name (ready_repos 2) = map re_name sample_repos" by (simp add: ready_repos_def sample_repos_def upt_rec)
  have "verify_destinations sample_vault (ready_repos 2) [offload_required] DEFAULT_RESERVE (map (vault_checked (vf_snapshot v)) rs) () = (Inr (), ())"
    if "set rs \<subseteq> set sample_repos" for rs
    using that by (induction rs) (simp_all add: bindS_def pure_def vault_verifies [OF v(1,2,4) _ names])
  then have "verify_offload_backups sample_vault 0 (vault_receipt (vf_snapshot v)) (JList [JObj job_row]) (ready_repos 2) DEFAULT_RESERVE ()
      = (Inr (proof_doc recovery_hash 0 (map (vault_checked (vf_snapshot v)) sample_repos) [offload_required]), ())"
    by (simp add: verify_offload_backups_def bindS_def pure_def vault_receipts_checked [OF v(3) names job_row_candidate] sample_vault_def)
  moreover have "item (running_record 2) ''requirements'' = Inr (JList [JObj job_row])"
    by (simp add: running_record_def Let_def) (simp add: job_record_def new_record_def item_def jget_def)
  ultimately show thesis using that [OF v(3)] by (simp add: verify_job_def job_state_def)
qed

lemma job_history_sample:
  obtains v :: verified and st where "(job_step sample_vault sample_config sample_parent)\<^sup>*\<^sup>* (new_jobs ()) st"
    "st = job_state (ended 0 ''restore_verified'' (remove_member ''scratch'' (put_member ''proof''
        (JObj (proof_doc recovery_hash 0 (map (vault_checked (vf_snapshot v)) sample_repos) [offload_required])) (running_record 2)))) None (jx_scratch st)"
    "is_hex 64 (vf_snapshot v)"
proof -
  let ?step = "job_step sample_vault sample_config sample_parent"
  let ?w = "\<lambda>d n. Some \<lparr>wk_job = sample_job, wk_record = d, wk_ready = ready_repos n\<rparr>"
  have state: "(job_state d wk sc)\<lparr>jx_worker := wk'\<rparr> = job_state d wk' sc" for d wk wk' sc by (simp add: job_state_def)
  have hash: "ar_hash sample_vault = recovery_hash" by (simp add: sample_vault_def)
  have none: "ready_repos 0 = []" and more: "ready_repos (Suc n) = ready_repos n @ [(sample_repos ! n)\<lparr>re_scratch := Some (job_path n)\<rparr>]"
    and len: "length (ready_repos n) = n" for n by (simp_all add: ready_repos_def)
  have worker: "jx_worker (job_state d wk sc) = wk" for d wk sc by (simp add: job_state_def)
  have 1: "?step (new_jobs ()) (job_state job_record (?w None 0) [])"
    by (rule job_step.submitted [where now = 0 and spawns = True and producer = "lit ''p''" and nonce = "JStr job_nonce" and rows = "JList [JObj job_row]"])
      (simp add: hash submitted_sample none)
  have 2: "?step (job_state job_record (?w None 0) []) (job_state (running_record 0) (?w (Some (running_record 0)) 0) [])"
    using job_step.began [where st = "job_state job_record (?w None 0) []" and wk = "the (?w None 0)" and d = "running_record 0"
        and ar = sample_vault and cfg = sample_config and parent = sample_parent]
      begun_sample by (simp add: worker state)
  have prep: "?step (job_state (running_record n) (?w (Some (running_record n)) n) sc)
      (job_state (running_record (Suc n)) (?w (Some (running_record (Suc n))) (Suc n)) (AList.update (job_path n) job_scratch sc))"
    if "n < 2" "\<forall>i \<in> {n..<2}. map_of sc (job_path i) = None" for n sc
    using job_step.prepared [where st = "job_state (running_record n) (?w (Some (running_record n)) n) sc" and wk = "the (?w (Some (running_record n)) n)"
        and d = "running_record n" and e = "running_record (Suc n)" and repo = "sample_repos ! n" and ar = sample_vault
        and cfg = sample_config and parent = sample_parent] prepared_sample [OF that]
    by (simp add: worker state len more)
  have 3: "?step (job_state (running_record 0) (?w (Some (running_record 0)) 0) [])
      (job_state (running_record 1) (?w (Some (running_record 1)) 1) (AList.update (job_path 0) job_scratch []))" using prep [of 0 "[]"] by simp
  have "\<forall>i \<in> {1..<2}. map_of (AList.update (job_path 0) job_scratch []) (job_path i) = None" by (auto simp: job_path_inject)
  from prep [OF _ this] have 4: "?step (job_state (running_record 1) (?w (Some (running_record 1)) 1) (AList.update (job_path 0) job_scratch []))
      (job_state (running_record 2) (?w (Some (running_record 2)) 2) sample_scratch)" by (simp add: sample_scratch_def numeral_2_eq_2)
  let ?s = "job_state (running_record 2) (?w (Some (running_record 2)) 2) sample_scratch"
  obtain v :: verified where v: "is_hex 64 (vf_snapshot v)" "verify_job sample_vault 0 (Inr (vault_receipt (vf_snapshot v))) (ready_repos 2) (running_record 2) ?s
      = (Inr (proof_doc recovery_hash 0 (map (vault_checked (vf_snapshot v)) sample_repos) [offload_required]), ?s)" by (rule verified_sample)
  let ?p = "proof_doc recovery_hash 0 (map (vault_checked (vf_snapshot v)) sample_repos) [offload_required]"
  let ?d = "put_member ''proof'' (JObj ?p) (running_record 2)"
  have "field_or ?d ''scratch'' (JList []) = JList (map (JStr \<circ> job_path) [0..<2])"
    by (simp add: field_or_put running_record_def Let_def)
  from cleaned_sample [OF this] obtain sc where sc: "cleanup_scratch sample_job ?d ?s
      = (Inr (remove_member ''scratch'' ?d), job_state (running_record 2) (?w (Some (running_record 2)) 2) sc)" by blast
  have end_state: "finish_job 0 sample_job (Inr ?p) (running_record 2) ?s
      = job_state (ended 0 ''restore_verified'' (remove_member ''scratch'' ?d)) (?w (Some (running_record 2)) 2) sc"
    by (simp add: finish_job_def sc) (simp add: write_record_def job_state_def)
  have "?step ?s (job_state (ended 0 ''restore_verified'' (remove_member ''scratch'' ?d)) None sc)"
    using job_step.finished [where st = ?s and wk = "the (?w (Some (running_record 2)) 2)" and d = "running_record 2" and ar = sample_vault
        and cfg = sample_config and parent = sample_parent and t = 0 and now = 0 and attempt = "Inr ?p" and st' = ?s] v(2) end_state
    by (simp add: worker state)
  with 1 2 3 4 have "?step\<^sup>*\<^sup>* (new_jobs ()) (job_state (ended 0 ''restore_verified'' (remove_member ''scratch'' ?d)) None sc)"
    by (meson converse_rtranclp_into_rtranclp rtranclp.rtrancl_refl)
  then show thesis by (rule that [OF _ _ v(1)]) (simp add: job_state_def)
qed

text \<open>The answer that the history ends with.\<close>

definition sample_proof :: "verified \<Rightarrow> document" where
  "sample_proof v = proof_doc recovery_hash 0 (map (vault_checked (vf_snapshot v)) sample_repos) [offload_required]"

lemma sample_answer:
  obtains v :: verified and st where "(job_step sample_vault sample_config sample_parent)\<^sup>*\<^sup>* (new_jobs ()) st"
    "is_hex 64 (vf_snapshot v)" "map_of (jx_records st) sample_job \<noteq> None" "jx_linked st = False"
    "poll recovery_hash 0 (lit ''p'') sample_job st = (Inr (poll_answer sample_job (JStr job_nonce) (lit ''restore_verified'')
       @ [(lit ''proof'', JObj (sample_proof v)), (lit ''expires_at'', JInt 900)]), st)"
proof -
  obtain v :: verified and st where h: "(job_step sample_vault sample_config sample_parent)\<^sup>*\<^sup>* (new_jobs ()) st"
    "st = job_state (ended 0 ''restore_verified'' (remove_member ''scratch'' (put_member ''proof''
        (JObj (proof_doc recovery_hash 0 (map (vault_checked (vf_snapshot v)) sample_repos) [offload_required])) (running_record 2)))) None (jx_scratch st)"
    "is_hex 64 (vf_snapshot v)" by (rule job_history_sample)
  define d where "d = ended 0 ''restore_verified'' (remove_member ''scratch'' (put_member ''proof''
        (JObj (proof_doc recovery_hash 0 (map (vault_checked (vf_snapshot v)) sample_repos) [offload_required])) (running_record 2)))"
  have d: "d = [(lit ''version'', JInt 1), (lit ''job_id'', JStr sample_job), (lit ''owner'', JStr job_owner),
     (lit ''nonce'', JStr job_nonce), (lit ''requirements'', JList [JObj job_row]), (lit ''status'', JStr (lit ''restore_verified'')), (lit ''created_at'', JInt 0),
     (lit ''repositories_path'', JStr (lit ''/r'')), (lit ''receipt_path'', JStr (lit ''/c'')),
     (lit ''proof'', JObj (proof_doc recovery_hash 0 (map (vault_checked (vf_snapshot v)) sample_repos) [offload_required])),
     (lit ''completed_at'', JInt 0), (lit ''expires_at'', JInt 900)]"
    by (simp add: d_def running_record_def Let_def job_record_def new_record_def sample_config_def put_member_def remove_member_def ended_def TTL_def)
  have "weight (JObj (proof_doc recovery_hash 0 (map (vault_checked (vf_snapshot v)) sample_repos) [offload_required])) \<le> 5000"
    using is_hex_length [OF h(3)] is_hex_length [OF vault_id_hex]
    by (simp add: proof_doc_def json_digest_def is_hex_length [OF sample_hex] sample_repos_def vault_checked_def show_int_def show_small)
  then have "weight (JObj d) \<le> RECORD_MAX" using job_row_weight
    by (simp add: d sample_lengths RECORD_MAX_def show_int_def show_small show_nat.simps)
  then have read: "read_record sample_job st = Inr d" by (subst h(2)) (simp add: d_def [symmetric] read_job_state)
  have items: "item d ''owner'' = Inr (JStr (owner_of recovery_hash (lit ''p'')))" "item d ''nonce'' = Inr (JStr job_nonce)"
    "item d ''status'' = Inr (JStr (lit ''restore_verified''))" "item d ''expires_at'' = Inr (JInt 900)"
    by (simp_all add: d item_def jget_def job_owner_def)
  have p: "lit ''restore_verified'' = lit ''restore_verified'' \<longrightarrow> item d ''proof'' = Inr (JObj (sample_proof v))"
    by (simp add: d item_def jget_def sample_proof_def)
  have seen: "seen_status (jx_locked st) 0 900 (lit ''restore_verified'') = lit ''restore_verified''" by (simp add: seen_status_def is_active_def)
  from poll_found [OF sample_job_hex read items(1-3) disjI2 [OF items(4)] p, of 0]
  have answer: "poll recovery_hash 0 (lit ''p'') sample_job st = (Inr (poll_answer sample_job (JStr job_nonce) (lit ''restore_verified'')
       @ [(lit ''proof'', JObj (sample_proof v)), (lit ''expires_at'', JInt 900)]), st)" by (simp add: seen)
  have "map_of (jx_records st) sample_job \<noteq> None" "jx_linked st = False" by (subst h(2), simp add: job_state_def)+
  from that [OF h(1,3) this answer] show thesis .
qed



end
