(* ===== verification/Client_Offload.thy ===== *)
theory Client_Offload
  imports Job_Answers Queue
begin

text \<open>
  Offload on a capture device (\<open>capture/offload.py\<close>): a plan lists acknowledged files, the primary is
  asked for a fresh verification, and each file is looked at again before it is removed. The verification service is
  an interface: two operations and what its answers vouch for. What the file system, the clocks and the process table
  show are arguments; times are whole seconds.
\<close>

section \<open>Acknowledged files\<close>

definition ack_json :: "pystr \<Rightarrow> raw_ack \<Rightarrow> document" where
  "ack_json path a = [(lit ''path'', JStr path), (lit ''fingerprint'', JStr (ra_fingerprint a)), (lit ''digest'', JStr (ra_digest a)),
     (lit ''size'', JInt (int (ra_size a))), (lit ''session_id'', JStr (ra_session a)), (lit ''revision'', JStr (ra_revision a))]"

text \<open>The acknowledgement of a path that still stands: capture, raw capture and head agree and nothing is pending.\<close>

definition standing_ack :: "upload_queue \<Rightarrow> pystr \<Rightarrow> raw_ack option" where
  "standing_ack q path = (case map_of (uq_raw_acks q) path of
       None \<Rightarrow> None
     | Some a \<Rightarrow> if map_of (uq_captured q) path = Some (ra_fingerprint a)
           \<and> map_of (uq_raw_captures q) path = Some (ra_fingerprint a, ra_digest a)
           \<and> map_of (uq_acknowledged q) (ra_session a) = Some (ra_revision a)
           \<and> (\<forall>p \<in> set (uq_pending q). pd_session p \<noteq> ra_session a)
         then Some a else None)"

definition acknowledged :: "upload_queue \<Rightarrow> json \<Rightarrow> bool result" where
  "acknowledged q c = bindR (subscript c ''path'') (\<lambda>v. bindR (sql_text v) (\<lambda>key. Inr (case key of
       None \<Rightarrow> False
     | Some path \<Rightarrow> (case standing_ack q path of None \<Rightarrow> False | Some a \<Rightarrow> py_eq (JObj (ack_json path a)) c))))"

section \<open>Looking at a file\<close>

text \<open>
  The looks at a file: the path that its links lead to, whether it is a regular file, its fingerprint, its size and time, its bytes, and its
  fingerprint after they were read. \<open>None\<close> is a failing look.
\<close>

record native_look =
  nl_resolved :: pystr
  nl_regular :: "bool option"
  nl_first :: "pystr option"
  nl_stat :: "(nat \<times> int) option"
  nl_content :: "bytes option"
  nl_last :: "pystr option"

definition is_relative_to :: "pystr \<Rightarrow> pystr \<Rightarrow> bool" where
  "is_relative_to path root \<longleftrightarrow> (is_absolute path \<longleftrightarrow> is_absolute root) \<and> take (length (path_parts root)) (path_parts path) = path_parts root"

definition is_jsonl :: "pystr \<Rightarrow> bool" where
  "is_jsonl path = (let name = path_name path in 6 < length name \<and> drop (length name - 6) name = lit ''.jsonl'')"

definition native_matches :: "(bytes \<Rightarrow> pystr) \<Rightarrow> document \<Rightarrow> pystr \<Rightarrow> int \<Rightarrow> native_look \<Rightarrow> bool" where
  "native_matches H c root now k =
     (let path = path_text (str_of (member c ''path'')) in
      is_absolute path \<and> nl_resolved k = path \<and> is_relative_to path root \<and> is_jsonl path \<and> nl_regular k = Some True
      \<and> map_option JStr (nl_first k) = Some (member c ''fingerprint'')
      \<and> (case nl_stat k of None \<Rightarrow> False | Some (n, t) \<Rightarrow> py_eq (JInt (int n)) (member c ''size'') \<and> t \<le> now - DAYS_30
          \<and> (case nl_content k of None \<Rightarrow> False
             | Some b \<Rightarrow> JStr (H b) = member c ''digest'' \<and> n \<noteq> 0 \<and> b \<noteq> [] \<and> last b = 10))
      \<and> map_option JStr (nl_last k) = Some (member c ''fingerprint''))"

section \<open>Planning\<close>

fun client_candidates :: "(bytes \<Rightarrow> pystr) \<Rightarrow> upload_queue \<Rightarrow> pystr \<Rightarrow> int \<Rightarrow> (pystr \<Rightarrow> native_look) \<Rightarrow> nat \<Rightarrow> (pystr \<times> raw_ack) list \<Rightarrow> document list \<times> nat" where
  "client_candidates H q root now look limit [] = ([], 0)"
| "client_candidates H q root now look limit ((path, a) # rows) = (let c = ack_json path a in
     if standing_ack q path = None \<or> \<not> native_matches H c root now (look path)
     then (case client_candidates H q root now look limit rows of (cs, n) \<Rightarrow> (cs, Suc n))
     else if limit = 1 then ([c], 0)
     else (case client_candidates H q root now look (limit - 1) rows of (cs, n) \<Rightarrow> (c # cs, n)))"

text \<open>The queue is idle when both of its locks can be taken.\<close>

definition queue_busy :: exn where "queue_busy = OSError ''Resource temporarily unavailable''"

definition missing_acks :: "upload_queue \<Rightarrow> nat" where
  "missing_acks q = length (filter (\<lambda>(path, _). map_of (uq_raw_acks q) path = None) (uq_raw_captures q))"

definition plan_client_offload :: "(bytes \<Rightarrow> pystr) \<Rightarrow> bool \<Rightarrow> upload_queue \<Rightarrow> pystr \<Rightarrow> pystr \<Rightarrow> pystr \<Rightarrow> int \<Rightarrow> (pystr \<Rightarrow> native_look) \<Rightarrow> int \<Rightarrow> document result" where
  "plan_client_offload H busy q primary queue_root root now look limit =
     (if \<not> (1 \<le> limit \<and> limit \<le> 100) then Inl (ValueError ''offload plans accept 1-100 files'')
      else if busy then Inl queue_busy
      else (case client_candidates H q root now look (nat limit) (sort_key fst (uq_raw_acks q)) of (cs, skipped) \<Rightarrow>
        let result = [(lit ''version'', JInt 1), (lit ''kind'', JStr (lit ''client-offload'')), (lit ''created_at'', JInt now),
            (lit ''retention_days'', JInt 30), (lit ''primary'', JStr primary), (lit ''queue_root'', JStr queue_root),
            (lit ''codex_home'', JStr root), (lit ''candidates'', JList (map JObj cs)), (lit ''skipped'', JInt (int skipped)),
            (lit ''missing_acknowledgements'', JInt (int (missing_acks q))), (lit ''limit_reached'', JBool (int (length cs) = limit))] in
        Inr (result @ [(lit ''plan_id'', JStr (json_digest H (JObj result)))])))"

section \<open>A fresh proof\<close>

text \<open>
  One pass of the polling loop that the clock still allows: whether writers run, whether the answer comes too late, and the
  time when a proof is checked. When the list ends the clock has passed the deadline.
\<close>

record tick =
  tk_writers :: "bool result"
  tk_late :: bool
  tk_now :: int

definition incomplete :: exn where "incomplete = ValueError ''verification proof is incomplete or expired''"

definition time_out :: exn where "time_out = OSError ''backup verification did not finish within the requested time''"

definition check_verified_repo :: "json \<Rightarrow> (json \<times> json) result" where
  "check_verified_repo v = (case v of
       JObj d \<Rightarrow> if \<not> is_str (member d ''repository'') then Inl (ValueError ''invalid verified repository'')
         else if \<not> is_hex_str (member d ''repository_id'') \<or> \<not> is_hex_str (member d ''backup_id'')
         then Inl (ValueError ''invalid verified repository identity'')
         else Inr (member d ''repository_id'', member d ''repository'')
     | _ \<Rightarrow> Inl (ValueError ''invalid verified repository''))"

definition within :: "int \<Rightarrow> int \<Rightarrow> json \<Rightarrow> bool" where
  "within lo hi v = (case v of JInt t \<Rightarrow> lo \<le> t \<and> t \<le> hi | _ \<Rightarrow> False)"

definition check_proof :: "(bytes \<Rightarrow> pystr) \<Rightarrow> json list \<Rightarrow> int \<Rightarrow> document \<Rightarrow> unit result" where
  "check_proof H rows now answer = (case field_or answer ''proof'' (JObj []) of
       JObj p \<Rightarrow>
         if \<not> py_eq (member p ''version'') (JInt 1) \<or> member p ''status'' \<noteq> JStr (lit ''restore_verified'')
           \<or> member p ''requirements_digest'' \<noteq> JStr (json_digest H (JList rows))
           \<or> member p ''candidates_verified'' \<noteq> JInt (int (length rows))
           \<or> \<not> within (now + 1) (now + 930) (member answer ''expires_at'')
           \<or> \<not> within (now - 900) (now + 30) (member p ''verified_at'')
           \<or> \<not> is_hex_str (member p ''snapshot'')
         then Inl incomplete
         else (case field_or p ''repositories'' (JList []) of
           JList repos \<Rightarrow> if length repos < 2 then Inl incomplete
             else bindR (mapR check_verified_repo repos) (\<lambda>rs.
               if \<not> distinct (map fst rs) \<or> \<not> distinct (map snd rs) then Inl (ValueError ''verified repositories are not distinct'') else Inr ())
         | _ \<Rightarrow> Inl incomplete)
     | _ \<Rightarrow> Inl (ValueError ''invalid verification proof''))"

definition is_transient :: "nat option \<Rightarrow> bool" where
  "is_transient s \<longleftrightarrow> s \<in> {None, Some 429, Some 500, Some 502, Some 503, Some 504}"

text \<open>The job that an answer starts, or the one that was asked for.\<close>

definition started_job :: "pystr option \<Rightarrow> document \<Rightarrow> pystr result" where
  "started_job job d = (case job of Some j \<Rightarrow> Inr j
     | None \<Rightarrow> if is_hex_str (member d ''job_id'') then Inr (str_of (member d ''job_id'')) else Inl (RuntimeError ''fresh verification could not be started''))"

fun fresh_loop :: "(bytes \<Rightarrow> pystr) \<Rightarrow> (pystr \<Rightarrow> json list \<Rightarrow> ('w, document) op) \<Rightarrow> (pystr \<Rightarrow> ('w, document) op) \<Rightarrow> pystr \<Rightarrow> json list
    \<Rightarrow> pystr option \<Rightarrow> nat \<Rightarrow> tick list \<Rightarrow> ('w, document) op" where
  "fresh_loop H ask look nonce rows job failures [] w = (Inl time_out, w)"
| "fresh_loop H ask look nonce rows job failures (t # ts) w =
     (case tk_writers t of
        Inl e \<Rightarrow> (Inl e, w)
      | Inr True \<Rightarrow> (Inl (RuntimeError ''Codex restarted; offload stopped''), w)
      | Inr False \<Rightarrow> (case (case job of None \<Rightarrow> ask nonce rows w | Some j \<Rightarrow> look j w) of
          (Inl (RemoteError s), w) \<Rightarrow> if \<not> is_transient s \<or> 3 \<le> Suc failures then (Inl (RemoteError s), w)
            else fresh_loop H ask look nonce rows job (Suc failures) ts w
        | (Inl e, w) \<Rightarrow> (Inl e, w)
        | (Inr d, w) \<Rightarrow>
            if tk_late t then (Inl time_out, w)
            else if job = None \<and> member d ''status'' = JStr (lit ''busy'') then fresh_loop H ask look nonce rows None 0 ts w
            else (case started_job job d of
              Inl e \<Rightarrow> (Inl e, w)
            | Inr j \<Rightarrow>
                if member d ''job_id'' \<noteq> JStr j \<or> member d ''nonce'' \<noteq> JStr nonce
                then (Inl (ValueError ''verification response does not match this request''), w)
                else if member d ''status'' = JStr (lit ''restore_verified'')
                then (bindR (check_proof H rows (tk_now t) d) (\<lambda>_. case member d ''expires_at'' of
                    JInt e \<Rightarrow> Inr (put_member ''expires_at'' (JInt (min e (tk_now t + 900))) d) | _ \<Rightarrow> Inl incomplete), w)
                else if unhashable (member d ''status'') then (Inl (TypeError ''unhashable type''), w)
                else if \<not> is_active (member d ''status'') then (Inl (RuntimeError ''fresh backup verification did not succeed''), w)
                else fresh_loop H ask look nonce rows (Some j) 0 ts w)))"

text \<open>The nonce is drawn at random; the timeout is checked first.\<close>

definition fresh_proof :: "(bytes \<Rightarrow> pystr) \<Rightarrow> (pystr \<Rightarrow> json list \<Rightarrow> ('w, document) op) \<Rightarrow> (pystr \<Rightarrow> ('w, document) op) \<Rightarrow> int \<Rightarrow> pystr
    \<Rightarrow> tick list \<Rightarrow> json list \<Rightarrow> ('w, document) op" where
  "fresh_proof H ask look timeout nonce ticks rows w =
     (if \<not> (0 < timeout \<and> timeout \<le> 7200) then (Inl (ValueError ''verification timeout must be within two hours''), w)
      else fresh_loop H ask look nonce rows None 0 ticks w)"

section \<open>Applying a plan\<close>

text \<open>
  What is seen when a candidate is examined (a look and its time), and before it is removed: the writers and the clocks before and
  after the look, its fingerprint at last, and whether the removal succeeds. \<open>mono\<close> tells that the monotonic
  deadline has passed.
\<close>

record exam =
  xm_now :: int
  xm_look :: native_look

record gate =
  gt_writers :: "bool result"
  gt_now :: int
  gt_mono :: bool

record removal =
  rm_before :: gate
  rm_exam :: exam
  rm_after :: gate
  rm_print :: "pystr result"
  rm_unlink :: "unit result"

definition stopped :: exn where "stopped = RuntimeError ''writers restarted or verification expired; remaining offloads stopped''"

definition gate_open :: "int \<Rightarrow> gate \<Rightarrow> unit result" where
  "gate_open expires g = bindR (gt_writers g) (\<lambda>running. if running \<or> expires \<le> gt_now g \<or> gt_mono g then Inl stopped else Inr ())"

definition still_matches :: "(bytes \<Rightarrow> pystr) \<Rightarrow> upload_queue \<Rightarrow> pystr \<Rightarrow> exam \<Rightarrow> json \<Rightarrow> bool result" where
  "still_matches H q root x c = bindR (acknowledged q c) (\<lambda>ok. Inr (ok \<and> (case c of JObj d \<Rightarrow> native_matches H d root (xm_now x) (xm_look x) | _ \<Rightarrow> False)))"

fun eligible :: "(bytes \<Rightarrow> pystr) \<Rightarrow> upload_queue \<Rightarrow> pystr \<Rightarrow> (exam \<times> json) list \<Rightarrow> document list result" where
  "eligible H q root [] = Inr []"
| "eligible H q root ((x, c) # cs) = bindR (still_matches H q root x c) (\<lambda>ok. bindR (eligible H q root cs) (\<lambda>ds.
     Inr (case c of JObj d \<Rightarrow> if ok then d # ds else ds | _ \<Rightarrow> ds)))"

text \<open>\<open>True\<close> tells that the file was removed.\<close>

definition remove_one :: "(bytes \<Rightarrow> pystr) \<Rightarrow> upload_queue \<Rightarrow> pystr \<Rightarrow> int \<Rightarrow> removal \<Rightarrow> document \<Rightarrow> bool result" where
  "remove_one H q root expires m c =
     bindR (gate_open expires (rm_before m)) (\<lambda>_.
     bindR (still_matches H q root (rm_exam m) (JObj c)) (\<lambda>ok. if \<not> ok then Inr False else
     bindR (gate_open expires (rm_after m)) (\<lambda>_.
     bindR (rm_print m) (\<lambda>f. if JStr f \<noteq> member c ''fingerprint'' then Inr False else
     bindR (rm_unlink m) (\<lambda>_. Inr True)))))"

fun remove_all :: "(bytes \<Rightarrow> pystr) \<Rightarrow> upload_queue \<Rightarrow> pystr \<Rightarrow> int \<Rightarrow> (removal \<times> document) list \<Rightarrow> nat \<Rightarrow> (pystr list, nat) op" where
  "remove_all H q root expires [] skipped gone = (Inr skipped, gone)"
| "remove_all H q root expires ((m, c) # cs) skipped gone = (case remove_one H q root expires m c of
       Inl e \<Rightarrow> (Inl e, gone)
     | Inr ok \<Rightarrow> remove_all H q root expires cs (if ok then skipped else Suc skipped)
         (if ok then gone @ [path_text (str_of (member c ''path''))] else gone))"

definition requirement_row :: "document \<Rightarrow> json" where
  "requirement_row c = JObj (map (\<lambda>k. (lit k, member c k)) [''session_id'', ''revision'', ''digest'', ''size''])"

definition check_client_plan :: "(bytes \<Rightarrow> pystr) \<Rightarrow> pystr \<Rightarrow> pystr \<Rightarrow> (pystr \<Rightarrow> pystr) \<Rightarrow> document \<Rightarrow> pystr \<Rightarrow> (json list \<times> pystr) result" where
  "check_client_plan H primary queue_root real plan expected =
     (let plan_id = member plan ''plan_id'' in
      if plan_id \<noteq> JStr expected \<or> JStr (json_digest H (JObj (remove_member ''plan_id'' plan))) \<noteq> plan_id
      then Inl (ValueError ''offload plan changed after review'')
      else if \<not> py_eq (member plan ''version'') (JInt 1) \<or> member plan ''kind'' \<noteq> JStr (lit ''client-offload'')
        \<or> \<not> py_eq (member plan ''retention_days'') (JInt 30) \<or> member plan ''primary'' \<noteq> JStr primary
        \<or> member plan ''queue_root'' \<noteq> JStr queue_root
      then Inl (ValueError ''offload plan belongs to another client or policy'')
      else (case member plan ''candidates'' of
        JList cs \<Rightarrow> if 100 < length cs then Inl (ValueError ''invalid offload candidate list'')
          else bindR (item plan ''codex_home'') (\<lambda>home. case home of
            JStr h \<Rightarrow> (let root = path_text h in
              if \<not> is_absolute root \<or> real root \<noteq> root then Inl (ValueError ''offload source root changed'') else Inr (cs, root))
          | _ \<Rightarrow> Inl (TypeError ''expected str, bytes or os.PathLike object''))
      | _ \<Rightarrow> Inl (ValueError ''invalid offload candidate list'')))"

text \<open>
  The state is the world of the service and the removed paths. \<open>writers\<close> tells whether writers run at the start,
  \<open>busy\<close> whether the queue is in use, \<open>exams\<close> and \<open>removals\<close> what is seen of the
  candidates. The monotonic deadline is at most the proof's expiry.
\<close>

definition apply_client_offload :: "(bytes \<Rightarrow> pystr) \<Rightarrow> (pystr \<Rightarrow> json list \<Rightarrow> ('w, document) op) \<Rightarrow> (pystr \<Rightarrow> ('w, document) op)
    \<Rightarrow> pystr \<Rightarrow> pystr \<Rightarrow> (pystr \<Rightarrow> pystr) \<Rightarrow> upload_queue \<Rightarrow> bool result \<Rightarrow> bool \<Rightarrow> (nat \<Rightarrow> exam) \<Rightarrow> (nat \<Rightarrow> removal)
    \<Rightarrow> int \<Rightarrow> pystr \<Rightarrow> tick list \<Rightarrow> document \<Rightarrow> pystr \<Rightarrow> ('w \<times> pystr list, document) op" where
  "apply_client_offload H ask look primary queue_root real q writers busy exams removals timeout nonce ticks plan expected st =
     (case st of (w, gone) \<Rightarrow>
      (case bindR (check_client_plan H primary queue_root real plan expected) (\<lambda>(cs, root). bindR writers (\<lambda>running.
          if running then Inl (RuntimeError ''stop Codex writers before applying an offload plan'')
          else if busy then Inl queue_busy
          else bindR (eligible H q root (zip (map exams [0..<length cs]) cs)) (\<lambda>ds. Inr (root, ds, length cs - length ds)))) of
        Inl e \<Rightarrow> (Inl e, st)
      | Inr (root, ds, skipped) \<Rightarrow>
          if ds = [] then (Inr (offload_result 0 skipped), st)
          else (case fresh_proof H ask look timeout nonce ticks (map requirement_row ds) w of
            (Inl e, w) \<Rightarrow> (Inl e, w, gone)
          | (Inr answer, w) \<Rightarrow> (case int_of (member answer ''expires_at'') of
              None \<Rightarrow> (Inl (TypeError ''unsupported operand''), w, gone)
            | Some expires \<Rightarrow> (case remove_all H q root expires (zip (map removals [0..<length ds]) ds) skipped gone of
                (Inl e, gone') \<Rightarrow> (Inl e, w, gone')
              | (Inr skipped, gone') \<Rightarrow> (Inr (offload_result (length gone' - length gone) skipped), w, gone'))))))"

section \<open>What the client relies on\<close>

text \<open>
  The contract of the verification service: its operations keep an invariant of the world, what a proof vouches for stays
  true, and a verified answer carries a proof that is vouched for.
\<close>

locale verification_service =
  fixes ask :: "pystr \<Rightarrow> json list \<Rightarrow> ('w, document) op"
    and look :: "pystr \<Rightarrow> ('w, document) op"
    and kept :: "'w \<Rightarrow> bool"
    and vouched :: "'w \<Rightarrow> json \<Rightarrow> bool"
  assumes ask_keeps: "kept w \<Longrightarrow> ask n rows w = (res, w') \<Longrightarrow> kept w' \<and> (\<forall>p. vouched w p \<longrightarrow> vouched w' p)"
    and look_keeps: "kept w \<Longrightarrow> look j w = (res, w') \<Longrightarrow> kept w' \<and> (\<forall>p. vouched w p \<longrightarrow> vouched w' p)"
    and ask_verified: "kept w \<Longrightarrow> ask n rows w = (Inr d, w') \<Longrightarrow> member d ''status'' = JStr (lit ''restore_verified'') \<Longrightarrow> vouched w' (member d ''proof'')"
    and look_verified: "kept w \<Longrightarrow> look j w = (Inr d, w') \<Longrightarrow> member d ''status'' = JStr (lit ''restore_verified'') \<Longrightarrow> vouched w' (member d ''proof'')"

text \<open>A proof that the client has checked: it is vouched for and names the digest of the requirements and the time.\<close>

definition checked_proof :: "(bytes \<Rightarrow> pystr) \<Rightarrow> json list \<Rightarrow> json \<Rightarrow> bool" where
  "checked_proof H rows p \<longleftrightarrow> (\<exists>d. p = JObj d \<and> member d ''requirements_digest'' = JStr (json_digest H (JList rows)))"

lemma check_proof_Inr:
  assumes "check_proof H rows now d = Inr ()"
  shows "checked_proof H rows (member d ''proof'')" "\<exists>e. member d ''expires_at'' = JInt e \<and> now < e \<and> e \<le> now + 930"
proof -
  obtain p where p: "field_or d ''proof'' (JObj []) = JObj p" "member p ''requirements_digest'' = JStr (json_digest H (JList rows))"
    "within (now + 1) (now + 930) (member d ''expires_at'')"
    using assms by (auto simp: check_proof_def split: json.splits if_splits)
  from p(1,2) have "jget d ''proof'' = Some (JObj p)" by (auto simp: field_or_def member_def jget_def split: option.splits)
  then have "member d ''proof'' = JObj p" by (simp add: member_def)
  with p(2) show "checked_proof H rows (member d ''proof'')" by (simp add: checked_proof_def)
  show "\<exists>e. member d ''expires_at'' = JInt e \<and> now < e \<and> e \<le> now + 930"
    using p(3) by (auto simp: within_def split: json.splits)
qed

text \<open>Why a file was removed: the gates were open before and after a look that found it acknowledged and unchanged.\<close>

definition seen_removable :: "(bytes \<Rightarrow> pystr) \<Rightarrow> upload_queue \<Rightarrow> pystr \<Rightarrow> int \<Rightarrow> removal \<Rightarrow> document \<Rightarrow> bool" where
  "seen_removable H q root expires m c \<longleftrightarrow> gate_open expires (rm_before m) = Inr () \<and> gate_open expires (rm_after m) = Inr ()
     \<and> acknowledged q (JObj c) = Inr True \<and> native_matches H c root (xm_now (rm_exam m)) (xm_look (rm_exam m))
     \<and> map_option JStr (case rm_print m of Inl _ \<Rightarrow> None | Inr f \<Rightarrow> Some f) = Some (member c ''fingerprint'')"

lemma remove_one_removes: "remove_one H q root expires m c = Inr True \<Longrightarrow> seen_removable H q root expires m c"
  by (auto simp: remove_one_def still_matches_def seen_removable_def bindR_Inr_iff split: if_splits)

lemma remove_all_removes:
  assumes "remove_all H q root expires cs skipped gone = (res, gone')"
  shows "\<exists>more. gone' = gone @ more \<and> (\<forall>p \<in> set more. \<exists>(m, c) \<in> set cs. path_text (str_of (member c ''path'')) = p \<and> seen_removable H q root expires m c)"
  using assms
proof (induction H q root expires cs skipped gone rule: remove_all.induct)
  case (2 H q root expires m c cs skipped gone)
  show ?case
  proof (cases "remove_one H q root expires m c")
    case (Inl e)
    with 2 show ?thesis by simp
  next
    case (Inr ok)
    let ?gone = "if ok then gone @ [path_text (str_of (member c ''path''))] else gone"
    from 2 Inr obtain more where more: "gone' = ?gone @ more"
      "\<forall>p \<in> set more. \<exists>(m, c) \<in> set cs. path_text (str_of (member c ''path'')) = p \<and> seen_removable H q root expires m c" by auto
    show ?thesis
    proof (cases ok)
      case True
      with Inr have "seen_removable H q root expires m c" by (simp add: remove_one_removes)
      with more True show ?thesis by (intro exI [of _ "path_text (str_of (member c ''path'')) # more"]) auto
    next
      case False
      with more show ?thesis by fastforce
    qed
  qed
qed simp

lemma eligible_member: "eligible H q root xs = Inr ds \<Longrightarrow> d \<in> set ds \<Longrightarrow> JObj d \<in> set (map snd xs)"
proof (induction H q root xs arbitrary: ds rule: eligible.induct)
  case (2 H q root x c cs)
  then show ?case by (cases c) (auto simp: bindR_Inr_iff split: if_splits)
qed simp

text \<open>Either nothing is removed, or the plan was checked and a fresh proof was obtained for its eligible candidates.\<close>

lemma apply_client_cases:
  assumes "apply_client_offload H ask look primary queue_root real q writers busy exams removals timeout nonce ticks plan expected (w, gone) = (res, w', gone')"
  obtains (unchanged) "gone' = gone" "w' = w" "\<forall>d. res = Inr d \<longrightarrow> (\<exists>n. d = offload_result 0 n)"
  | (unproved) ds x where "gone' = gone" "res = Inl x" "fresh_proof H ask look timeout nonce ticks (map requirement_row ds) w = (Inl x, w')"
  | (proved) cs root ds answer expires n r where "member plan ''plan_id'' = JStr expected" "check_client_plan H primary queue_root real plan expected = Inr (cs, root)"
      "\<forall>d \<in> set ds. JObj d \<in> set cs" "fresh_proof H ask look timeout nonce ticks (map requirement_row ds) w = (Inr answer, w')"
      "int_of (member answer ''expires_at'') = Some expires" "remove_all H q root expires (zip (map removals [0..<length ds]) ds) n gone = (r, gone')"
      "\<forall>d. res = Inr d \<longrightarrow> (\<exists>n. d = offload_result (length gone' - length gone) n)"
  | (untyped) ds answer x where "gone' = gone" "res = Inl x" "fresh_proof H ask look timeout nonce ticks (map requirement_row ds) w = (Inr answer, w')"
proof -
  let ?checks = "bindR (check_client_plan H primary queue_root real plan expected) (\<lambda>(cs, root). bindR writers (\<lambda>running.
          if running then Inl (RuntimeError ''stop Codex writers before applying an offload plan'')
          else if busy then Inl queue_busy
          else bindR (eligible H q root (zip (map exams [0..<length cs]) cs)) (\<lambda>ds. Inr (root, ds, length cs - length ds))))"
  note run = assms [unfolded apply_client_offload_def prod.case]
  show thesis
  proof (cases ?checks)
    case (Inl e)
    with run have a: "gone' = gone" "w' = w" "res = Inl e" by simp_all
    show thesis by (rule unchanged [OF a(1,2)]) (simp add: a(3))
  next
    case (Inr x)
    obtain root ds n where x: "x = (root, ds, n)" by (cases x)
    from Inr obtain cs where cs: "check_client_plan H primary queue_root real plan expected = Inr (cs, root)"
      "eligible H q root (zip (map exams [0..<length cs]) cs) = Inr ds"
      by (auto simp: x bindR_Inr_iff split: if_splits)
    have mem: "\<forall>d \<in> set ds. JObj d \<in> set cs" using eligible_member [OF cs(2)] by simp
    have id: "member plan ''plan_id'' = JStr expected" using cs(1) by (auto simp: check_client_plan_def Let_def split: if_splits)
    note run = run [unfolded Inr x sum.case prod.case]
    show thesis
    proof (cases "ds = []")
      case True
      with run have a: "gone' = gone" "w' = w" "res = Inr (offload_result 0 n)" by simp_all
      show thesis by (rule unchanged [OF a(1,2)]) (use a(3) in auto)
    next
      case False
      obtain r1 w1 where f: "fresh_proof H ask look timeout nonce ticks (map requirement_row ds) w = (r1, w1)"
        by (cases "fresh_proof H ask look timeout nonce ticks (map requirement_row ds) w")
      show thesis
      proof (cases r1)
        case (Inl e)
        with run False f have a: "gone' = gone" "res = Inl e" "w1 = w'" by simp_all
        show thesis by (rule unproved [OF a(1,2)]) (use f Inl a(3) in simp)
      next
        case ans: (Inr answer)
        show thesis
        proof (cases "int_of (member answer ''expires_at'')")
          case None
          with run False f ans have a: "gone' = gone" "res = Inl (TypeError ''unsupported operand'')" "w1 = w'" by simp_all
          show thesis by (rule untyped [OF a(1,2)]) (use f ans a(3) in simp)
        next
          case (Some expires)
          obtain r g where rm: "remove_all H q root expires (zip (map removals [0..<length ds]) ds) n gone = (r, g)"
            by (cases "remove_all H q root expires (zip (map removals [0..<length ds]) ds) n gone")
          with run False f ans Some have "w' = w1" "gone' = g" "\<forall>d. res = Inr d \<longrightarrow> (\<exists>n. d = offload_result (length gone' - length gone) n)"
            by (cases r; auto)+
          with f ans rm show thesis by (intro proved [OF id cs(1) mem _ Some, where n = n and r = r]) simp_all
        qed
      qed
    qed
  qed
qed

context verification_service
begin

lemma step_keeps: "kept w \<Longrightarrow> (case job of None \<Rightarrow> ask n rows w | Some j \<Rightarrow> look j w) = (res, w')
    \<Longrightarrow> kept w' \<and> (\<forall>p. vouched w p \<longrightarrow> vouched w' p)"
  by (cases job) (auto dest: ask_keeps look_keeps)

lemma step_verified: "kept w \<Longrightarrow> (case job of None \<Rightarrow> ask n rows w | Some j \<Rightarrow> look j w) = (Inr d, w')
    \<Longrightarrow> member d ''status'' = JStr (lit ''restore_verified'') \<Longrightarrow> vouched w' (member d ''proof'')"
  by (cases job) (auto dest: ask_verified look_verified)

text \<open>A fresh proof is vouched for, and it is one for the requirements that were sent.\<close>

lemma fresh_loop_vouched:
  assumes "fresh_loop H ask look nonce rows job failures ticks w = (res, w')" "kept w"
  shows "kept w' \<and> (\<forall>p. vouched w p \<longrightarrow> vouched w' p)
    \<and> (\<forall>d. res = Inr d \<longrightarrow> vouched w' (member d ''proof'') \<and> checked_proof H rows (member d ''proof'') \<and> (\<exists>e. member d ''expires_at'' = JInt e))"
  using assms
proof (induction ticks arbitrary: job failures w)
  case (Cons t ts)
  obtain r w1 where step: "(case job of None \<Rightarrow> ask nonce rows w | Some j \<Rightarrow> look j w) = (r, w1)"
    by (cases "case job of None \<Rightarrow> ask nonce rows w | Some j \<Rightarrow> look j w")
  note k = step_keeps [OF Cons.prems(2) step]
  have more: ?case if "fresh_loop H ask look nonce rows j f ts w1 = (res, w')" for j f
    using Cons.IH [OF that] k by blast
  show ?case
  proof (cases "tk_writers t = Inr False")
    case False
    with Cons.prems show ?thesis by (auto split: sum.splits bool.splits)
  next
    case idle: True
    show ?thesis
    proof (cases r)
      case (Inl e)
      with Cons.prems(1) step idle have "(\<exists>j f. fresh_loop H ask look nonce rows j f ts w1 = (res, w')) \<or> (\<exists>x. res = Inl x) \<and> w' = w1"
        by (cases e) (auto split: if_splits)
      with more k show ?thesis by blast
    next
      case (Inr d)
      with Cons.prems(1) step idle have "(\<exists>j f. fresh_loop H ask look nonce rows j f ts w1 = (res, w')) \<or> (\<exists>x. res = Inl x) \<and> w' = w1
          \<or> (w' = w1 \<and> member d ''status'' = JStr (lit ''restore_verified'')
            \<and> res = bindR (check_proof H rows (tk_now t) d) (\<lambda>_. case member d ''expires_at'' of
                    JInt e \<Rightarrow> Inr (put_member ''expires_at'' (JInt (min e (tk_now t + 900))) d) | _ \<Rightarrow> Inl incomplete))"
        by (auto split: if_splits sum.splits)
      then consider (loop) j f where "fresh_loop H ask look nonce rows j f ts w1 = (res, w')" | (raised) x where "res = Inl x" "w' = w1"
        | (verified) "w' = w1" "member d ''status'' = JStr (lit ''restore_verified'')"
            "res = bindR (check_proof H rows (tk_now t) d) (\<lambda>_. case member d ''expires_at'' of
                    JInt e \<Rightarrow> Inr (put_member ''expires_at'' (JInt (min e (tk_now t + 900))) d) | _ \<Rightarrow> Inl incomplete)"
        by blast
      then show ?thesis
      proof cases
        case verified
        have "vouched w1 (member d ''proof'')" using step_verified [OF Cons.prems(2) step [unfolded Inr] verified(2)] .
        with verified(1,3) k show ?thesis
          by (auto simp: bindR_Inr_iff dest: check_proof_Inr(1) split: json.splits)
      qed (use more k in blast)+
    qed
  qed
qed auto

lemma fresh_proof_vouched:
  assumes "fresh_proof H ask look timeout nonce ticks rows w = (res, w')" "kept w"
  shows "kept w' \<and> (\<forall>p. vouched w p \<longrightarrow> vouched w' p)
    \<and> (\<forall>d. res = Inr d \<longrightarrow> vouched w' (member d ''proof'') \<and> checked_proof H rows (member d ''proof'') \<and> (\<exists>e. member d ''expires_at'' = JInt e))"
  using assms fresh_loop_vouched [of H nonce rows None 0 ticks w res w'] by (auto simp: fresh_proof_def split: if_splits)

text \<open>The client's guarantee, over any service that keeps the contract.\<close>

lemma client_offload_vouched:
  assumes "apply_client_offload H ask look primary queue_root real q writers busy exams removals timeout nonce ticks plan expected (w, gone) = (res, w', gone')"
    "kept w"
  shows "\<exists>more. gone' = gone @ more \<and> (\<forall>d. res = Inr d \<longrightarrow> (\<exists>n. d = offload_result (length more) n))
    \<and> (more \<noteq> [] \<longrightarrow> (\<exists>cs root ds p expires. member plan ''plan_id'' = JStr expected
        \<and> check_client_plan H primary queue_root real plan expected = Inr (cs, root) \<and> (\<forall>d \<in> set ds. JObj d \<in> set cs)
        \<and> vouched w' p \<and> checked_proof H (map requirement_row ds) p
        \<and> (\<forall>path \<in> set more. \<exists>m c. c \<in> set ds \<and> path_text (str_of (member c ''path'')) = path \<and> seen_removable H q root expires m c)))"
  using assms(1)
proof (cases rule: apply_client_cases)
  case (proved cs root ds answer expires n r)
  from remove_all_removes [OF proved(6)] obtain more where more: "gone' = gone @ more"
    "\<forall>p \<in> set more. \<exists>(m, c) \<in> set (zip (map removals [0..<length ds]) ds). path_text (str_of (member c ''path'')) = p \<and> seen_removable H q root expires m c"
    by blast
  have "\<forall>path \<in> set more. \<exists>m c. c \<in> set ds \<and> path_text (str_of (member c ''path'')) = path \<and> seen_removable H q root expires m c"
    using more(2) by (fastforce dest: set_zip_rightD)
  moreover have "vouched w' (member answer ''proof'') \<and> checked_proof H (map requirement_row ds) (member answer ''proof'')"
    using fresh_proof_vouched [OF proved(4) assms(2)] by simp
  ultimately show ?thesis using proved(1-3,7) more(1) by (intro exI [of _ more]) fastforce
qed auto

end

end
