(* ===== verification/Offload_Service.thy ===== *)
theory Offload_Service
  imports Client_Offload
begin

text \<open>
  Offload from end to end: the verification service of a device is the job directory of its primary, reached over
  a network that loses answers, while workers, other devices and the repositories go on. It keeps the
  contract of the client, so a device removes a file only while every repository gives its bytes back.
\<close>

section \<open>The service\<close>

text \<open>
  What happens up to one request and with it: the steps of the job directory in between, the time and the catalog of the primary, whether a process
  can be started, and whether the answer is lost.
\<close>

record 'w interlude =
  il_steps :: "'w job_box \<Rightarrow> 'w job_box"
  il_now :: int
  il_catalog :: catalog
  il_spawns :: bool
  il_lost :: bool

type_synonym 'w service = "'w job_box \<times> 'w interlude list"

definition serve_jobs :: "('w interlude \<Rightarrow> ('w job_box, document) op) \<Rightarrow> ('w service, document) op" where
  "serve_jobs f sv = (case sv of
       (st, []) \<Rightarrow> (Inl (RemoteError None), st, [])
     | (st, il # ils) \<Rightarrow> (case f il (il_steps il st) of (res, st) \<Rightarrow>
         (if il_lost il then Inl (RemoteError None) else (case res of Inl e \<Rightarrow> Inl (RemoteError (Some (http_status e))) | Inr d \<Rightarrow> Inr d), st, ils)))"

definition request_offload_verification :: "(bytes \<Rightarrow> pystr) \<Rightarrow> server_config \<Rightarrow> job_config option \<Rightarrow> pystr \<Rightarrow> pystr \<Rightarrow> json list \<Rightarrow> ('w service, document) op" where
  "request_offload_verification H cfg jobs producer nonce rows = serve_jobs (\<lambda>il.
     submit_verification H cfg jobs (il_now il) (il_spawns il) (il_catalog il) producer [(lit ''nonce'', JStr nonce), (lit ''requirements'', JList rows)])"

definition poll_offload_verification :: "(bytes \<Rightarrow> pystr) \<Rightarrow> server_config \<Rightarrow> job_config option \<Rightarrow> pystr \<Rightarrow> pystr \<Rightarrow> ('w service, document) op" where
  "poll_offload_verification H cfg jobs producer job sv =
     (if \<not> is_hex 64 job then (Inl (ValueError ''invalid verification job identity''), sv)
      else serve_jobs (\<lambda>il. poll_verification H cfg jobs (il_now il) producer job) sv)"

section \<open>The contract\<close>

definition service_ok :: "('w, 'm) archives_scheme \<Rightarrow> job_config \<Rightarrow> (repository \<Rightarrow> pystr) \<Rightarrow> 'w service \<Rightarrow> bool" where
  "service_ok ar jobs parent sv \<longleftrightarrow> archives_ok ar \<and> (\<exists>w0. (job_step ar jobs parent)\<^sup>*\<^sup>* (new_jobs w0) (fst sv))
     \<and> (\<forall>il \<in> set (snd sv). \<forall>st. (job_step ar jobs parent)\<^sup>*\<^sup>* st (il_steps il st))"

definition service_vouches :: "('w, 'm) archives_scheme \<Rightarrow> 'w service \<Rightarrow> json \<Rightarrow> bool" where
  "service_vouches ar sv p \<longleftrightarrow> (\<exists>rows. proved ar (jx_world (fst sv)) rows p)"

lemma job_step_restores:
  assumes "job_step ar cfg parent st st'" "archives_ok ar" "jobs_ok ar st"
  shows "\<forall>x. restores ar (jx_world st) x \<longrightarrow> restores ar (jx_world st') x"
  using assms
proof (induction rule: job_step.induct)
  case (submitted now spawns producer nonce rows st res st')
  then show ?case using submit_keeps [OF submitted(1)] by simp
next
  case (began st wk d st')
  then show ?case using begin_keeps(2) [OF began(3,5,1)] by simp
next
  case (prepared st wk d repo r e st')
  then show ?case using prepare_keeps(2) [OF prepared(3,5,1,2)] by simp
next
  case (failed st wk d now e)
  have "jx_world (finish_job now (wk_job wk) (Inl e) d st) = jx_world st" by (rule finish_keeps(2) [OF failed(4,1,2)]) simp
  then show ?case by simp
next
  case (finished st wk d t receipt attempt st' now)
  note v = verify_job_proved [OF finished(3,4)]
  have "jobs_ok ar st'" using jobs_ok_world [OF finished(5) v(2)] v(1) by metis
  moreover have "jx_worker st' = Some wk" by (subst v(1)) (simp add: finished(1))
  ultimately have "jx_world (finish_job now (wk_job wk) attempt d st') = jx_world st'"
    using v(3) by (intro finish_keeps(2) [OF _ _ finished(2)])
  with v(2) show ?case by simp
qed auto

lemma job_steps_restore:
  assumes "(job_step ar cfg parent)\<^sup>*\<^sup>* st st'" "archives_ok ar" "jobs_ok ar st"
  shows "jobs_ok ar st' \<and> (\<forall>x. restores ar (jx_world st) x \<longrightarrow> restores ar (jx_world st') x)"
  using assms
proof (induction rule: rtranclp_induct)
  case (step y z)
  then show ?case using job_step_restores [OF step(2,4)] job_step_keeps [OF step(2,4)] by blast
qed simp

text \<open>A submission is a step; only the answer of a poll says verified.\<close>

lemma submit_verified:
  assumes "submit H cfg now spawns producer nonce rows st = (Inr d, st')" "member d ''status'' = JStr (lit ''restore_verified'')"
  shows "\<exists>job. poll H now producer job st = (Inr d, st')"
proof (cases "check_submission nonce rows")
  case (Inl e)
  with assms(1) show ?thesis by (simp add: submit_def)
next
  case (Inr x)
  obtain n xs where x: "x = (n, xs)" by (cases x)
  have no: "d \<noteq> job_status s" if "s \<noteq> ''restore_verified''" for s using assms(2) that by (auto simp: job_status_def member_def jget_def)
  have no': "d \<noteq> job_status ''queued'' @ xs" for xs using assms(2) by (auto simp: job_status_def member_def jget_def)
  show ?thesis
    using assms(1) no [of "''busy''"] no [of "''unavailable''"] no'
    by (auto simp: submit_def Inr x Let_def start_worker_def split: if_splits prod.splits sum.splits bool.splits)
qed

lemma route_steps:
  assumes "submit_verification (ar_hash ar) cfg jobs now spawns ct producer data st = (res, st')"
  shows "st' = st \<or> (\<exists>n r. submit (ar_hash ar) (the jobs) now spawns producer n r st = (res, st'))"
  using assms by (auto simp: submit_verification_def split: sum.splits)

lemma poll_route:
  assumes "poll_verification H cfg jobs now producer job st = (res, st')"
  shows "st' = st \<and> (\<forall>d. res = Inr d \<longrightarrow> poll H now producer job st = (Inr d, st'))"
  using assms by (auto simp: poll_verification_def dest: poll_same split: sum.splits)

lemma serve_jobs_keeps:
  assumes "serve_jobs f sv = (res, sv')" "service_ok ar jobs parent sv"
    "\<And>il st r st'. f il st = (r, st') \<Longrightarrow> (job_step ar jobs parent)\<^sup>*\<^sup>* st st'"
  shows "service_ok ar jobs parent sv' \<and> (\<forall>p. service_vouches ar sv p \<longrightarrow> service_vouches ar sv' p)"
proof -
  obtain st ils where sv: "sv = (st, ils)" by (cases sv)
  obtain w0 where k: "archives_ok ar" "(job_step ar jobs parent)\<^sup>*\<^sup>* (new_jobs w0) st"
    "\<forall>il \<in> set ils. \<forall>st. (job_step ar jobs parent)\<^sup>*\<^sup>* st (il_steps il st)"
    using assms(2) by (auto simp: service_ok_def sv)
  show ?thesis
  proof (cases ils)
    case Nil
    with assms sv show ?thesis by (auto simp: serve_jobs_def)
  next
    case (Cons il rest)
    obtain r t where f: "f il (il_steps il st) = (r, t)" by (cases "f il (il_steps il st)")
    with assms(1) sv Cons have sv': "sv' = (t, rest)" by (auto simp: serve_jobs_def)
    have "(job_step ar jobs parent)\<^sup>*\<^sup>* st (il_steps il st)" using k(3) Cons by simp
    then have run: "(job_step ar jobs parent)\<^sup>*\<^sup>* st t" using assms(3) [OF f] by (rule rtranclp_trans)
    have grown: "\<forall>x. restores ar (jx_world st) x \<longrightarrow> restores ar (jx_world t) x"
      using job_steps_restore [OF run k(1) job_history_ok [OF k(2,1)]] by simp
    have "(job_step ar jobs parent)\<^sup>*\<^sup>* (new_jobs w0) t" using k(2) run by (rule rtranclp_trans)
    then have "service_ok ar jobs parent sv'" using k(1,3) Cons by (auto simp: service_ok_def sv')
    moreover have "\<forall>p. service_vouches ar sv p \<longrightarrow> service_vouches ar sv' p"
      using proved_mono [OF grown] by (auto simp: service_vouches_def sv sv')
    ultimately show ?thesis by blast
  qed
qed

lemma serve_jobs_Inr:
  assumes "serve_jobs f sv = (Inr d, sv')"
  shows "\<exists>il st. f il st = (Inr d, fst sv')"
proof -
  obtain st ils where sv: "sv = (st, ils)" by (cases sv)
  show ?thesis
  proof (cases ils)
    case (Cons il rest)
    obtain r t where f: "f il (il_steps il st) = (r, t)" by (cases "f il (il_steps il st)")
    with assms sv Cons have "r = Inr d" "fst sv' = t" by (auto simp: serve_jobs_def split: if_splits sum.splits)
    with f show ?thesis by blast
  qed (use assms sv in \<open>simp add: serve_jobs_def\<close>)
qed

lemma submit_route_steps:
  fixes st :: "'w job_box"
  assumes "submit_verification (ar_hash ar) cfg (Some jobs) now spawns ct producer data st = (res, st')"
  shows "(job_step ar jobs parent)\<^sup>*\<^sup>* st st'"
proof -
  consider "st' = st" | n r where "submit (ar_hash ar) jobs now spawns producer n r st = (res, st')"
    using route_steps [OF assms] by auto
  then show ?thesis
  proof cases
    case 2
    from job_step.submitted [OF 2] show ?thesis by (rule r_into_rtranclp)
  qed simp
qed

text \<open>A verified poll of a service that is in order carries a proof.\<close>

lemma poll_vouches:
  assumes "service_ok ar jobs parent sv" "poll (ar_hash ar) now producer job st = (Inr d, fst sv)" "member d ''status'' = JStr (lit ''restore_verified'')"
  shows "service_vouches ar sv (member d ''proof'')"
proof -
  have "st = fst sv" using assms(2) poll_same by fastforce
  moreover have "jobs_ok ar (fst sv)" using assms(1) job_history_ok by (auto simp: service_ok_def)
  ultimately show ?thesis using poll_proved [OF _ _ assms(3)] assms(2) by (fastforce simp: service_vouches_def)
qed

lemma request_vouches:
  assumes "service_ok ar jobs parent sv'" "request_offload_verification (ar_hash ar) cfg (Some jobs) producer n rows sv = (Inr d, sv')"
    "member d ''status'' = JStr (lit ''restore_verified'')"
  shows "service_vouches ar sv' (member d ''proof'')"
proof -
  obtain now spawns ct data st where s: "submit_verification (ar_hash ar) cfg (Some jobs) now spawns ct producer data st = (Inr d, fst sv')"
    using serve_jobs_Inr [OF assms(2) [unfolded request_offload_verification_def]] by auto
  then obtain n r where "submit (ar_hash ar) jobs now spawns producer n r st = (Inr d, fst sv')"
    by (auto simp: submit_verification_def split: sum.splits)
  from submit_verified [OF this assms(3)] obtain job where "poll (ar_hash ar) now producer job st = (Inr d, fst sv')" by blast
  from poll_vouches [OF assms(1) this assms(3)] show ?thesis .
qed

lemma poll_request_vouches:
  assumes "service_ok ar jobs parent sv'" "poll_offload_verification (ar_hash ar) cfg (Some jobs) producer job sv = (Inr d, sv')"
    "member d ''status'' = JStr (lit ''restore_verified'')"
  shows "service_vouches ar sv' (member d ''proof'')"
proof -
  have "serve_jobs (\<lambda>il. poll_verification (ar_hash ar) cfg (Some jobs) (il_now il) producer job) sv = (Inr d, sv')"
    using assms(2) by (simp add: poll_offload_verification_def split: if_splits)
  from serve_jobs_Inr [OF this] obtain now st where "poll_verification (ar_hash ar) cfg (Some jobs) now producer job st = (Inr d, fst sv')" by blast
  from poll_route [OF this] have "poll (ar_hash ar) now producer job st = (Inr d, fst sv')" by simp
  from poll_vouches [OF assms(1) this assms(3)] show ?thesis .
qed

lemma request_keeps:
  assumes "request_offload_verification (ar_hash ar) cfg (Some jobs) producer n rows sv = (res, sv')" "service_ok ar jobs parent sv"
  shows "service_ok ar jobs parent sv' \<and> (\<forall>p. service_vouches ar sv p \<longrightarrow> service_vouches ar sv' p)"
  by (rule serve_jobs_keeps [OF assms(1) [unfolded request_offload_verification_def] assms(2)]) (rule submit_route_steps)

lemma poll_request_keeps:
  assumes "poll_offload_verification (ar_hash ar) cfg (Some jobs) producer job sv = (res, sv')" "service_ok ar jobs parent sv"
  shows "service_ok ar jobs parent sv' \<and> (\<forall>p. service_vouches ar sv p \<longrightarrow> service_vouches ar sv' p)"
proof (cases "is_hex 64 job")
  case True
  with assms(1) have "serve_jobs (\<lambda>il. poll_verification (ar_hash ar) cfg (Some jobs) (il_now il) producer job) sv = (res, sv')"
    by (simp add: poll_offload_verification_def)
  from this assms(2) show ?thesis by (rule serve_jobs_keeps) (auto dest: poll_route)
qed (use assms in \<open>simp add: poll_offload_verification_def\<close>)

interpretation primary: verification_service
  "request_offload_verification (ar_hash ar) cfg (Some jobs) producer" "poll_offload_verification (ar_hash ar) cfg (Some jobs) producer"
  "service_ok ar jobs parent" "service_vouches ar" for ar cfg jobs producer parent
  by unfold_locales (blast dest: request_keeps poll_request_keeps request_vouches poll_request_vouches)+

section \<open>The end-to-end guarantee\<close>


section \<open>A device that offloads a file\<close>

text \<open>
  The primary of the job sample has verified the requirement when the request of the device arrives; the file of the device has
  an acknowledgement that stands.
\<close>

definition client_path :: pystr where "client_path = lit ''/h/p.jsonl''"

definition client_ack :: raw_ack where
  "client_ack = \<lparr>ra_fingerprint = lit ''f'', ra_digest = rw_digest offload_row, ra_size = 1, ra_session = rw_session offload_row,
     ra_revision = rw_revision offload_row\<rparr>"

definition client_queue :: upload_queue where
  "client_queue = empty_queue\<lparr>uq_captured := [(client_path, lit ''f'')], uq_acknowledged := [(rw_session offload_row, rw_revision offload_row)],
     uq_raw_captures := [(client_path, lit ''f'', rw_digest offload_row)], uq_raw_acks := [(client_path, client_ack)]\<rparr>"

definition client_plan :: document where
  "client_plan = projr (plan_client_offload recovery_hash False client_queue (lit ''p'') (lit ''q'') (lit ''/h'') DAYS_30
     (\<lambda>_. \<lparr>nl_resolved = client_path, nl_regular = Some True, nl_first = Some (lit ''f''), nl_stat = Some (1, 0), nl_content = Some [10],
       nl_last = Some (lit ''f'')\<rparr>) 100)"

definition client_exam :: exam where
  "client_exam = \<lparr>xm_now = DAYS_30, xm_look = \<lparr>nl_resolved = client_path, nl_regular = Some True, nl_first = Some (lit ''f''),
     nl_stat = Some (1, 0), nl_content = Some [10], nl_last = Some (lit ''f'')\<rparr>\<rparr>"

definition client_removal :: removal where
  "client_removal = (let g = \<lparr>gt_writers = Inr False, gt_now = 0, gt_mono = False\<rparr> in
     \<lparr>rm_before = g, rm_exam = client_exam, rm_after = g, rm_print = Inr (lit ''f''), rm_unlink = Inr ()\<rparr>)"

lemma client_path_facts: "path_text client_path = client_path" "is_absolute client_path" "is_relative_to client_path (lit ''/h'')" "is_jsonl client_path"
  by (simp_all add: path_text_def client_path_def is_absolute_def is_relative_to_def is_jsonl_def path_name_def path_parts_def lit_def Let_def)

lemma ack_members:
  "member (ack_json path a) ''path'' = JStr path" "member (ack_json path a) ''fingerprint'' = JStr (ra_fingerprint a)"
  "member (ack_json path a) ''digest'' = JStr (ra_digest a)" "member (ack_json path a) ''size'' = JInt (int (ra_size a))"
  "member (ack_json path a) ''session_id'' = JStr (ra_session a)" "member (ack_json path a) ''revision'' = JStr (ra_revision a)"
  "subscript (JObj (ack_json path a)) ''path'' = Inr (JStr path)"
  by (simp_all add: ack_json_def member_def jget_def subscript_def item_def)

lemma recovery_hash_newline: "recovery_hash [10] = recovery_hash [9]"
  by (simp add: recovery_hash_def session_docs_sample session_doc_def event_doc_def encode_json_def utf8_cp_def)

lemma client_standing: "standing_ack client_queue client_path = Some client_ack"
  by (simp add: standing_ack_def client_queue_def empty_queue_def client_ack_def)

lemma client_acknowledged: "acknowledged client_queue (JObj (ack_json client_path client_ack)) = Inr True"
  by (simp add: acknowledged_def ack_members sql_text_def client_standing py_eq_refl)

lemma client_native: "native_matches recovery_hash (ack_json client_path client_ack) (lit ''/h'') DAYS_30 (xm_look client_exam)"
  by (simp add: native_matches_def ack_members client_path_facts client_exam_def client_ack_def Let_def recovery_hash_newline py_eq_refl DAYS_30_def)
    (simp add: offload_row_def)

lemma client_requirement: "requirement_row (ack_json client_path client_ack) = JObj job_row" "required_json offload_required = JObj job_row"
  by (simp_all add: requirement_row_def ack_members client_ack_def job_row_def required_json_def offload_required_def) (simp add: offload_row_def)

definition plan_body :: document where
  "plan_body = [(lit ''version'', JInt 1), (lit ''kind'', JStr (lit ''client-offload'')), (lit ''created_at'', JInt DAYS_30),
     (lit ''retention_days'', JInt 30), (lit ''primary'', JStr (lit ''p'')), (lit ''queue_root'', JStr (lit ''q'')),
     (lit ''codex_home'', JStr (lit ''/h'')), (lit ''candidates'', JList [JObj (ack_json client_path client_ack)]), (lit ''skipped'', JInt 0),
     (lit ''missing_acknowledgements'', JInt 0), (lit ''limit_reached'', JBool False)]"

lemma client_plan_body: "client_plan = plan_body @ [(lit ''plan_id'', JStr (json_digest recovery_hash (JObj plan_body)))]"
proof -
  have "sort_key fst (uq_raw_acks client_queue) = [(client_path, client_ack)]" "missing_acks client_queue = 0"
    by (simp_all add: client_queue_def missing_acks_def)
  moreover have "client_candidates recovery_hash client_queue (lit ''/h'') DAYS_30
      (\<lambda>_. \<lparr>nl_resolved = client_path, nl_regular = Some True, nl_first = Some (lit ''f''), nl_stat = Some (1, 0), nl_content = Some [10],
        nl_last = Some (lit ''f'')\<rparr>) 100 [(client_path, client_ack)] = ([ack_json client_path client_ack], 0)"
    using client_native by (simp add: Let_def client_standing client_exam_def)
  ultimately show ?thesis by (simp add: client_plan_def plan_client_offload_def Let_def plan_body_def)
qed

lemma client_plan_checks:
  "check_client_plan recovery_hash (lit ''p'') (lit ''q'') id client_plan (json_digest recovery_hash (JObj plan_body))
    = Inr ([JObj (ack_json client_path client_ack)], lit ''/h'')"
proof -
  have "remove_member ''plan_id'' client_plan = plan_body" "member client_plan ''plan_id'' = JStr (json_digest recovery_hash (JObj plan_body))"
    "member client_plan ''version'' = JInt 1" "member client_plan ''kind'' = JStr (lit ''client-offload'')"
    "member client_plan ''retention_days'' = JInt 30" "member client_plan ''primary'' = JStr (lit ''p'')"
    "member client_plan ''queue_root'' = JStr (lit ''q'')" "member client_plan ''candidates'' = JList [JObj (ack_json client_path client_ack)]"
    "item client_plan ''codex_home'' = Inr (JStr (lit ''/h''))"
    by (simp_all add: client_plan_body plan_body_def remove_member_def member_def item_def jget_def)
  moreover have "path_text (lit ''/h'') = lit ''/h''" "is_absolute (lit ''/h'')" by (simp_all add: path_text_def is_absolute_def path_parts_def lit_def)
  ultimately show ?thesis by (simp add: check_client_plan_def Let_def py_eq_refl)
qed

text \<open>The primary that has run the job of the sample when the request arrives.\<close>

definition client_config :: server_config where
  "client_config = \<lparr>sc_readonly = False, sc_chunked = False, sc_limit = None, sc_scan = 0\<rparr>"

definition sample_service :: "unit job_box \<Rightarrow> unit service" where
  "sample_service st = (new_jobs (), [\<lparr>il_steps = (\<lambda>s. if s = new_jobs () then st else s), il_now = 0, il_catalog = recovery_catalog,
     il_spawns = True, il_lost = False\<rparr>])"

lemma sample_service_ok:
  assumes "(job_step sample_vault sample_config sample_parent)\<^sup>*\<^sup>* (new_jobs ()) st"
  shows "service_ok sample_vault sample_config sample_parent (sample_service st)"
  using assms sample_vault_ok by (auto simp: service_ok_def sample_service_def)

lemma sample_owned: "check_owned recovery_catalog (lit ''p'') [JObj job_row] = Inr ()"
proof -
  have "item job_row ''session_id'' = Inr (JStr (rw_session offload_row))" "item job_row ''revision'' = Inr (JStr (rw_revision offload_row))"
    "item job_row ''digest'' = Inr (JStr (rw_digest offload_row))" "item job_row ''size'' = Inr (JInt (int (rw_size offload_row)))"
    by (simp_all add: job_row_def item_def jget_def)
  then have "owned_by recovery_catalog (lit ''p'') job_row = Inr True"
    using recovery_tables(4) by (simp add: owned_by_def sql_text_def recovery_tables(2) int_of_def) (simp add: offload_row_def)
  then show ?thesis by simp
qed

lemma sample_request_answer:
  assumes "map_of (jx_records st) sample_job \<noteq> None" "jx_linked st = False" "poll recovery_hash 0 (lit ''p'') sample_job st = (Inr d, st)"
  shows "request_offload_verification recovery_hash client_config (Some sample_config) (lit ''p'') job_nonce [JObj job_row] (sample_service st) = (Inr d, st, [])"
proof -
  have "submit recovery_hash sample_config 0 True (lit ''p'') (JStr job_nonce) (JList [JObj job_row]) st = (Inr d, st)"
    using assms by (simp add: submit_def job_submission Let_def sample_job_def job_owner_def)
  moreover have "field [(lit ''nonce'', JStr job_nonce), (lit ''requirements'', JList [JObj job_row])] ''nonce'' = JStr job_nonce"
    "field [(lit ''nonce'', JStr job_nonce), (lit ''requirements'', JList [JObj job_row])] ''requirements'' = JList [JObj job_row]"
    by (simp_all add: field_def field_or_def jget_def)
  ultimately show ?thesis
    by (simp add: request_offload_verification_def sample_service_def serve_jobs_def submit_verification_def check_configured_def client_config_def
        keys_exactly_def sample_owned del: check_owned.simps)
qed

lemma sample_proof_checked:
  assumes "is_hex 64 (vf_snapshot v)"
  shows "check_proof recovery_hash [JObj job_row] 0 (poll_answer sample_job (JStr job_nonce) (lit ''restore_verified'')
       @ [(lit ''proof'', JObj (sample_proof v)), (lit ''expires_at'', JInt 900)]) = Inr ()"
proof -
  let ?p = "sample_proof v"
  have m: "member ?p ''version'' = JInt 1" "member ?p ''status'' = JStr (lit ''restore_verified'')" "member ?p ''verified_at'' = JInt 0"
    "member ?p ''requirements_digest'' = JStr (json_digest recovery_hash (JList [JObj job_row]))" "member ?p ''candidates_verified'' = JInt 1"
    "member ?p ''snapshot'' = JStr (vf_snapshot v)"
    "field_or ?p ''repositories'' (JList []) = JList (map (\<lambda>r. JObj [(lit ''repository'', JStr (re_name r)), (lit ''repository_id'', JStr (vault_id r)),
       (lit ''backup_id'', JStr (vault_id r))]) sample_repos)"
    by (simp_all add: sample_proof_def proof_doc_def member_def field_or_def jget_def client_requirement(2) comp_def vault_checked_def)
      (simp add: sample_repos_def vault_checked_def)
  have "check_verified_repo (JObj [(lit ''repository'', JStr n), (lit ''repository_id'', JStr i), (lit ''backup_id'', JStr i)]) = Inr (JStr i, JStr n)"
    if "is_hex 64 i" for n i
    using that by (simp add: check_verified_repo_def member_def jget_def is_str_def is_hex_str_def)
  then have "mapR check_verified_repo (map (\<lambda>r. JObj [(lit ''repository'', JStr (re_name r)), (lit ''repository_id'', JStr (vault_id r)),
       (lit ''backup_id'', JStr (vault_id r))]) rs) = Inr (map (\<lambda>r. (JStr (vault_id r), JStr (re_name r))) rs)" for rs
    by (induction rs) (simp_all add: vault_id_hex)
  moreover have "distinct (map (JStr \<circ> vault_id) sample_repos)" "distinct (map (JStr \<circ> re_name) sample_repos)" "length sample_repos = 2"
    by (simp_all add: sample_repos_def vault_id_def)
  moreover have "field_or (poll_answer sample_job n r @ [(lit ''proof'', x), (lit ''expires_at'', t)]) ''proof'' (JObj []) = x" for n r x t
    by (simp add: poll_answer_def field_or_def jget_def)
  ultimately show ?thesis
    by (simp add: check_proof_def m assms py_eq_refl poll_answer_members within_def is_hex_str_def comp_def)
qed


end
