(* ===== verification/Spec2Isabelle.thy ===== *)
theory Spec2Isabelle
  imports Output Chunks Objects Transfers Catalog_History Turns Codex_Tools Codex Incremental Resume Credentials Server Client Queue
    Delivery Network Devices Retrieval Pi Capture Capture_Facts Recovery Replicas Maintenance Offload_Service
begin

text \<open>
  Session Search: work in progress header.
\<close>

end
